(* ===== verification/Prelude.thy ===== *)
theory Prelude
  imports Complex_Main "HOL-Library.Multiset" "HOL-Library.Char_ord"
    "HOL-Library.List_Lexorder" "HOL-Library.Product_Lexorder" "HOL-Library.AList"
begin

text \<open>
  Shared vocabulary of the development: the Python values that the components exchange
  (the JSON-like values of \<open>json.dumps\<close>), their canonical form (\<open>canonical_json\<close> of
  \<open>syntavra_runtime/util.py\<close>), the string methods the code uses, \<open>dict\<close> and \<open>sorted(set(...))\<close>
  on lists, and the generic lemmas on which the component theories rest.  Python integers are
  \<open>int\<close>; floats are modelled by exact rationals (\<open>rat\<close>), so rounding, infinities and NaN
  are outside the model; \<open>str\<close> is \<open>string\<close>, one \<open>char\<close> per code point, which covers Latin-1;
  case folding is that of ASCII.
\<close>

named_theorems py_defs \<open>unfolding equations of small helpers\<close>

section \<open>Python values and their canonical form\<close>

datatype pyval =
    PyNone
  | PyBool bool
  | PyInt int
  | PyFloat rat
  | PyStr string
  | PyList "pyval list"
  | PyTuple "pyval list"
  | PyDict "(string \<times> pyval) list"

type_synonym fields = "(string \<times> pyval) list"

text \<open>
  \<open>canonical_json\<close> dumps with \<open>sort_keys=True\<close>: the text depends on the value only through
  this normal form, in which every object has its keys in code point order and a tuple is an
  array.  \<open>json.loads(canonical_json(v))\<close> returns exactly \<open>canon v\<close>.
\<close>

fun canon :: "pyval \<Rightarrow> pyval"
  and canon_list :: "pyval list \<Rightarrow> pyval list"
  and canon_fields :: "fields \<Rightarrow> fields" where
  "canon PyNone = PyNone"
| "canon (PyBool b) = PyBool b"
| "canon (PyInt i) = PyInt i"
| "canon (PyFloat r) = PyFloat r"
| "canon (PyStr s) = PyStr s"
| "canon (PyList vs) = PyList (canon_list vs)"
| "canon (PyTuple vs) = PyList (canon_list vs)"
| "canon (PyDict kvs) = PyDict (sort_key fst (canon_fields kvs))"
| "canon_list [] = []"
| "canon_list (v # vs) = canon v # canon_list vs"
| "canon_fields [] = []"
| "canon_fields ((k, v) # kvs) = (k, canon v) # canon_fields kvs"

text \<open>
  \<open>sha256_bytes(canonical_json(v))\<close>.  The digest of the canonical bytes is the parameter \<open>sha\<close>:
  a function on canonical values, since the hash itself is not code of the repository.
\<close>

definition digest :: "(pyval \<Rightarrow> string) \<Rightarrow> pyval \<Rightarrow> string" where
  "digest sha v = sha (canon v)"

lemma canon_list_map: "canon_list vs = map canon vs"
  by (induction vs) auto

lemma canon_fields_map: "canon_fields kvs = map (\<lambda>(k, v). (k, canon v)) kvs"
  by (induction kvs) auto

lemma map_fst_canon_fields [simp]: "map fst (canon_fields kvs) = map fst kvs"
  by (induction kvs) auto

lemma map_insort_key:
  assumes "\<And>x. f (g x) = f x"
  shows "map g (insort_key f x xs) = insort_key f (g x) (map g xs)"
  by (induction xs) (auto simp: assms)

lemma map_sort_key:
  assumes "\<And>x. f (g x) = f x"
  shows "map g (sort_key f xs) = sort_key f (map g xs)"
  by (induction xs) (auto simp: assms map_insort_key)

lemma sort_key_sorted: "sorted (map f xs) \<Longrightarrow> sort_key f xs = xs"
  by (induction xs) (auto simp: insort_is_Cons)

lemma sort_key_idem [simp]: "sort_key f (sort_key f xs) = sort_key f xs"
  by (rule sort_key_sorted) simp

lemma canon_fields_sort_key:
  "canon_fields (sort_key fst kvs) = sort_key fst (canon_fields kvs)"
  unfolding canon_fields_map by (rule map_sort_key) auto

lemma canon_idem [simp]: "canon (canon v) = canon v"
  and canon_list_idem [simp]: "canon_list (canon_list vs) = canon_list vs"
  and canon_fields_idem [simp]: "canon_fields (canon_fields kvs) = canon_fields kvs"
  by (induction v and vs and kvs rule: canon_canon_list_canon_fields.induct)
    (auto simp: canon_fields_sort_key)

lemma sort_key_mset_cong:
  assumes "mset xs = mset ys" and "distinct (map f xs)"
  shows "sort_key f xs = sort_key f ys"
proof (rule properties_for_sort_key)
  show "mset (sort_key f ys) = mset xs" using assms(1) by simp
next
  fix k
  assume k: "k \<in> set (sort_key f ys)"
  have inj: "inj_on f (set xs)" using assms(2) by (simp add: distinct_map)
  have sets: "set xs = set ys" using assms(1) by (metis set_mset_mset)
  have one: "filter (\<lambda>x. f k = f x) zs = [k]"
    if "mset zs = mset xs" for zs
  proof -
    have "distinct zs" using that assms(2) by (metis distinct_map mset_eq_imp_distinct_iff)
    moreover have kz: "k \<in> set zs" using k that sets by (metis set_mset_mset set_sort)
    moreover have "set zs = set xs" using that by (metis set_mset_mset)
    ultimately have "filter (\<lambda>x. f k = f x) zs = filter (\<lambda>x. x = k) zs"
      using inj by (intro filter_cong) (auto dest: inj_onD)
    also have "\<dots> = [k]" using \<open>distinct zs\<close> kz
      by (induction zs) (auto simp: filter_empty_conv)
    finally show ?thesis .
  qed
  show "filter (\<lambda>x. f k = f x) (sort_key f ys) = filter (\<lambda>x. f k = f x) xs"
    using one[of "sort_key f ys"] one[of xs] assms(1) by simp
qed (rule sorted_sort_key)

text \<open>The canonical form of an object does not depend on the insertion order of its keys.\<close>

lemma canon_dict_perm:
  assumes "mset kvs = mset kvs'" and "distinct (map fst kvs)"
  shows "canon (PyDict kvs) = canon (PyDict kvs')"
proof -
  have "mset (canon_fields kvs) = mset (canon_fields kvs')"
    unfolding canon_fields_map using assms(1) by (simp add: mset_map)
  then have "sort_key fst (canon_fields kvs) = sort_key fst (canon_fields kvs')"
    using assms(2) by (intro sort_key_mset_cong) auto
  then show ?thesis by simp
qed

section \<open>Tables: SQL \<open>UPDATE\<close> and \<open>ORDER BY ... LIMIT 1\<close>\<close>

definition update_where :: "('a \<Rightarrow> bool) \<Rightarrow> ('a \<Rightarrow> 'a) \<Rightarrow> 'a list \<Rightarrow> 'a list" where
  "update_where P f rows = map (\<lambda>r. if P r then f r else r) rows"

definition rowcount :: "('a \<Rightarrow> bool) \<Rightarrow> 'a list \<Rightarrow> nat" where
  "rowcount P rows = length (filter P rows)"

fun first_min :: "('a \<Rightarrow> 'k::linorder) \<Rightarrow> 'a list \<Rightarrow> 'a option" where
  "first_min key [] = None"
| "first_min key (x # xs) =
     (case first_min key xs of
        None \<Rightarrow> Some x
      | Some y \<Rightarrow> if key x \<le> key y then Some x else Some y)"

lemma update_where_simps [simp]:
  "update_where P f [] = []"
  "update_where P f (r # rows) = (if P r then f r else r) # update_where P f rows"
  by (auto simp: update_where_def)

lemma length_update_where [simp]: "length (update_where P f rows) = length rows"
  by (simp add: update_where_def)

lemma map_update_where_same:
  assumes "\<And>r. r \<in> set rows \<Longrightarrow> P r \<Longrightarrow> key (f r) = key r"
  shows "map key (update_where P f rows) = map key rows"
  using assms by (induction rows) auto

lemma set_update_where: "set (update_where P f rows) = (\<lambda>r. if P r then f r else r) ` set rows"
  by (simp add: update_where_def)

lemma update_where_hit: "r \<in> set rows \<Longrightarrow> P r \<Longrightarrow> f r \<in> set (update_where P f rows)"
  by (auto simp: set_update_where)

lemma find_update_other:
  assumes "\<And>r. key (f r) = key r" and "k \<noteq> k'"
  shows "find (\<lambda>r. key r = k) (update_where (\<lambda>r. key r = k') f xs) = find (\<lambda>r. key r = k) xs"
  using assms by (induction xs) auto

lemma ball_update_where:
  assumes "\<forall>r \<in> set rows. Q r" and "\<And>r. r \<in> set rows \<Longrightarrow> P r \<Longrightarrow> Q r \<Longrightarrow> Q (f r)"
  shows "\<forall>r \<in> set (update_where P f rows). Q r"
  using assms by (auto simp: set_update_where)

lemma rowcount_pos: "rowcount P rows = 1 \<Longrightarrow> \<exists>r \<in> set rows. P r"
  by (induction rows) (auto simp: rowcount_def split: if_splits)

lemma first_min_None [simp]: "first_min key xs = None \<longleftrightarrow> xs = []"
  by (induction xs) (auto split: option.splits)

lemma first_min_Some:
  "first_min key xs = Some x \<Longrightarrow> x \<in> set xs \<and> (\<forall>y \<in> set xs. key x \<le> key y)"
  by (induction xs arbitrary: x) (force split: option.splits if_splits)+

lemma first_min_in: "first_min key xs = Some x \<Longrightarrow> x \<in> set xs"
  by (simp add: first_min_Some)

lemma distinct_key_eq:
  "distinct (map key xs) \<Longrightarrow> x \<in> set xs \<Longrightarrow> y \<in> set xs \<Longrightarrow> key x = key y \<Longrightarrow> x = y"
  by (auto simp: distinct_map dest: inj_onD)

lemma rowcount_key:
  assumes "distinct (map key rows)" and "r \<in> set rows" and "Q r"
  shows "rowcount (\<lambda>x. key x = key r \<and> Q x) rows = 1"
  using assms by (induction rows) (auto simp: rowcount_def filter_empty_conv image_iff dest: sym)

section \<open>Transition systems\<close>

text \<open>
  The states a component can be in: those reached from an initial state by the component's
  operations, in any order.
\<close>

inductive reaches :: "('s \<Rightarrow> bool) \<Rightarrow> ('s \<Rightarrow> 's \<Rightarrow> bool) \<Rightarrow> 's \<Rightarrow> bool"
  for init :: "'s \<Rightarrow> bool" and step :: "'s \<Rightarrow> 's \<Rightarrow> bool" where
  reach_init: "init s \<Longrightarrow> reaches init step s"
| reach_step: "reaches init step s \<Longrightarrow> step s t \<Longrightarrow> reaches init step t"

text \<open>
  The contract of a stateful component: an invariant of its initial states that every
  operation keeps.  Each component interprets it on its own operations.
\<close>

locale stateful =
  fixes init :: "'s \<Rightarrow> bool" and step :: "'s \<Rightarrow> 's \<Rightarrow> bool" and inv :: "'s \<Rightarrow> bool"
  assumes inv_init: "init s \<Longrightarrow> inv s"
    and inv_step: "inv s \<Longrightarrow> step s t \<Longrightarrow> inv t"
begin

lemma reachable_inv: "reaches init step s \<Longrightarrow> inv s"
  by (induction rule: reaches.induct) (auto intro: inv_init inv_step)

lemma steps_inv: "inv s \<Longrightarrow> step\<^sup>*\<^sup>* s t \<Longrightarrow> inv t"
  by (rotate_tac, induction rule: rtranclp_induct) (auto intro: inv_step)

lemma reachable_steps: "reaches init step s \<Longrightarrow> step\<^sup>*\<^sup>* s t \<Longrightarrow> reaches init step t"
  by (rotate_tac, induction rule: rtranclp_induct) (auto intro: reach_step)

text \<open>What every step keeps under the invariant, every run keeps.\<close>

lemma steps_stable:
  assumes "inv s" and "Q s" and "step\<^sup>*\<^sup>* s t"
    and "\<And>s t. inv s \<Longrightarrow> Q s \<Longrightarrow> step s t \<Longrightarrow> Q t"
  shows "Q t"
proof -
  have "inv t \<and> Q t" using assms(3)
  proof (induction rule: rtranclp_induct)
    case base
    show ?case using assms(1,2) by simp
  next
    case (step t u)
    then show ?case using assms(4) inv_step by blast
  qed
  then show ?thesis by simp
qed

end

section \<open>Strings\<close>

text \<open>\<open>str.isspace\<close> on Latin-1, which \<open>strip\<close> and \<open>split\<close> use.\<close>

definition py_space :: "char \<Rightarrow> bool" where
  "py_space c \<longleftrightarrow> (let n = (of_char c :: nat) in
     (9 \<le> n \<and> n \<le> 13) \<or> (28 \<le> n \<and> n \<le> 32) \<or> n = 133 \<or> n = 160)"

definition py_strip :: "string \<Rightarrow> string" where
  "py_strip s = rev (dropWhile py_space (rev (dropWhile py_space s)))"

definition lower_char :: "char \<Rightarrow> char" where
  "lower_char c = (let n = (of_char c :: nat) in if 65 \<le> n \<and> n \<le> 90 then char_of (n + 32) else c)"

definition py_casefold :: "string \<Rightarrow> string" where
  "py_casefold s = map lower_char s"

text \<open>\<open>str.lower\<close> and \<open>str.upper\<close>; \<open>repr\<close> of a string, exact when nothing in it needs escaping.\<close>

definition py_lower :: "string \<Rightarrow> string" where
  "py_lower s = map lower_char s"

definition py_upper :: "string \<Rightarrow> string" where
  "py_upper s = map (\<lambda>c. let n = (of_char c :: nat) in if 97 \<le> n \<and> n \<le> 122 then char_of (n - 32) else c) s"

definition py_repr :: "string \<Rightarrow> string" where
  "py_repr s = [CHR 0x27] @ s @ [CHR 0x27]"

text \<open>\<open>str(n)\<close> for integers.\<close>

fun nat_str :: "nat \<Rightarrow> string" where
  "nat_str n = (if n < 10 then [char_of (48 + n)] else nat_str (n div 10) @ [char_of (48 + n mod 10)])"

declare nat_str.simps [simp del]

definition int_str :: "int \<Rightarrow> string" where
  "int_str i = (if i < 0 then ''-'' @ nat_str (nat (- i)) else nat_str (nat i))"

text \<open>\<open>sorted(set(xs))\<close> and \<open>dict.fromkeys(xs)\<close>.\<close>

definition sorted_set :: "'a::linorder list \<Rightarrow> 'a list" where
  "sorted_set xs = sort (remdups xs)"

definition fromkeys :: "'a list \<Rightarrow> 'a list" where
  "fromkeys xs = rev (remdups (rev xs))"

lemma set_sorted_set [simp]: "set (sorted_set xs) = set xs"
  by (simp add: sorted_set_def)

lemma sorted_sorted_set [simp]: "sorted (sorted_set xs)" "distinct (sorted_set xs)"
  by (simp_all add: sorted_set_def)

lemma sorted_set_cong: "set xs = set ys \<Longrightarrow> sorted_set xs = sorted_set ys"
  by (rule sorted_distinct_set_unique) simp_all

lemma sorted_set_idem [simp]: "sorted_set (sorted_set xs) = sorted_set xs"
  by (rule sorted_set_cong) simp

lemma set_fromkeys [simp]: "set (fromkeys xs) = set xs" and distinct_fromkeys [simp]: "distinct (fromkeys xs)"
  by (simp_all add: fromkeys_def)

lemma fromkeys_id [simp]: "distinct xs \<Longrightarrow> fromkeys xs = xs"
  by (simp add: fromkeys_def distinct_remdups_id)

lemma py_strip_idem [simp]: "py_strip (py_strip s) = py_strip s"
proof -
  let ?t = "dropWhile py_space s"
  let ?u = "rev (dropWhile py_space (rev ?t))"
  have "dropWhile py_space ?u = ?u"
  proof (cases "?u = []")
    case True
    then show ?thesis by (simp only: dropWhile.simps)
  next
    case False
    have "?t = ?u @ rev (takeWhile py_space (rev ?t))"
      by (metis rev_append rev_rev_ident takeWhile_dropWhile_id)
    then have "hd ?t = hd ?u" and "?t \<noteq> []" using False by (metis hd_append2, fastforce)
    then have "\<not> py_space (hd ?u)" by (metis hd_dropWhile)
    then show ?thesis using False by (cases ?u) auto
  qed
  then show ?thesis by (simp add: py_strip_def)
qed

lemma dropWhile_none: "list_all (\<lambda>c. \<not> P c) s \<Longrightarrow> dropWhile P s = s"
  by (cases s) auto

lemma py_strip_none: "list_all (\<lambda>c. \<not> py_space c) s \<Longrightarrow> py_strip s = s"
  by (simp add: py_strip_def dropWhile_none list_all_rev)

section \<open>Lists in step\<close>

lemma list_all2_update_where:
  assumes "list_all2 R xs ys" and "\<And>x y. x \<in> set xs \<Longrightarrow> y \<in> set ys \<Longrightarrow> R x y \<Longrightarrow> P y \<Longrightarrow> R x (f y)"
  shows "list_all2 R xs (update_where P f ys)"
  using assms by (induction xs ys rule: list_all2_induct) auto

lemma list_all2_memR: "list_all2 R xs ys \<Longrightarrow> y \<in> set ys \<Longrightarrow> \<exists>x \<in> set xs. R x y"
  by (induction xs ys rule: list_all2_induct) auto

lemma list_all2_mem: "list_all2 R xs ys \<Longrightarrow> x \<in> set xs \<Longrightarrow> \<exists>y \<in> set ys. R x y"
  by (induction xs ys rule: list_all2_induct) auto

lemma sum_list_update_where:
  fixes g :: "'a \<Rightarrow> int"
  assumes "distinct (map key xs)" and "c \<in> set xs"
  shows "sum_list (map g (update_where (\<lambda>x. key x = key c) (\<lambda>_. c') xs)) =
    sum_list (map g xs) - g c + g c'"
  using assms
proof (induction xs)
  case (Cons x xs)
  show ?case
  proof (cases "x = c")
    case True
    then have "update_where (\<lambda>y. key y = key c) (\<lambda>_. c') xs = xs"
      using Cons.prems(1) unfolding update_where_def by (intro map_idI) (auto simp: image_iff)
    then show ?thesis using True by simp
  next
    case False
    then have "key x \<noteq> key c" using Cons.prems by auto
    then show ?thesis using Cons False by simp
  qed
qed simp

lemma distinct_map_sort_filter:
  "distinct (map f xs) \<Longrightarrow> distinct (map f (sort_key g (filter P xs)))"
  by (auto simp: distinct_map intro: inj_on_subset)

lemma find_SomeD: "find P xs = Some x \<Longrightarrow> x \<in> set xs \<and> P x"
  by (auto simp: find_Some_iff)

section \<open>Errors as values\<close>

datatype py_error = KeyError string | TypeError string | ValueError string | IntegrityError string | IndexError | PermissionError string | RuntimeError string | FileNotFoundError string | AttributeError string | OverflowError string

text \<open>The first check that fails gives the error, as the sequence of \<open>raise\<close> statements does.\<close>

fun first_error :: "string option list \<Rightarrow> string option" where
  "first_error [] = None"
| "first_error (Some e # _) = Some e"
| "first_error (None # cs) = first_error cs"

lemma first_error_None: "first_error cs = None \<longleftrightarrow> (\<forall>c \<in> set cs. c = None)"
  by (induction cs rule: first_error.induct) auto

fun collect :: "('a \<Rightarrow> 'e + 'b) \<Rightarrow> 'a list \<Rightarrow> 'e + 'b list" where
  "collect f [] = Inr []"
| "collect f (x # xs) =
     (case f x of Inl e \<Rightarrow> Inl e
      | Inr y \<Rightarrow> (case collect f xs of Inl e \<Rightarrow> Inl e | Inr ys \<Rightarrow> Inr (y # ys)))"

definition py_strs :: "string list \<Rightarrow> pyval" where
  "py_strs xs = PyList (map PyStr xs)"

text \<open>Sequencing of fallible calls, a check that raises, and a \<open>ValueError\<close> of a constructor.\<close>

definition valueE :: "string + 'a \<Rightarrow> py_error + 'a" where
  "valueE m = (case m of Inl e \<Rightarrow> Inl (ValueError e) | Inr x \<Rightarrow> Inr x)"

lemma valueE_simps [simp]: "valueE (Inr x) = Inr x" "valueE (Inl e) = Inl (ValueError e)"
  by (simp_all add: valueE_def)

lemma valueE_eq_Inr [simp]: "valueE m = Inr x \<longleftrightarrow> m = Inr x"
  by (cases m) auto

definition bindE :: "'e + 'a \<Rightarrow> ('a \<Rightarrow> 'e + 'b) \<Rightarrow> 'e + 'b" where
  "bindE m f = (case m of Inl e \<Rightarrow> Inl e | Inr x \<Rightarrow> f x)"

definition checkE :: "string option list \<Rightarrow> 'a \<Rightarrow> string + 'a" where
  "checkE cs x = (case first_error cs of Some e \<Rightarrow> Inl e | None \<Rightarrow> Inr x)"

lemma bindE_simps [simp]: "bindE (Inl e) f = Inl e" "bindE (Inr x) f = f x"
  by (simp_all add: bindE_def)

lemma bindE_eq_Inr [simp]: "bindE m f = Inr y \<longleftrightarrow> (\<exists>x. m = Inr x \<and> f x = Inr y)"
  by (cases m) auto

lemma checkE_eq_Inr [simp]: "checkE cs x = Inr y \<longleftrightarrow> (\<forall>c \<in> set cs. c = None) \<and> x = y"
  by (auto simp: checkE_def first_error_None split: option.splits)
    (metis first_error_None option.distinct(1))

lemma collect_Inr: "collect f xs = Inr ys \<longleftrightarrow> list_all2 (\<lambda>x y. f x = Inr y) xs ys"
proof (induction xs arbitrary: ys)
  case (Cons x xs)
  show ?case
    by (cases "f x"; cases "collect f xs") (auto simp: list_all2_Cons1 simp flip: Cons.IH)
qed auto

section \<open>Reading a canonical object back\<close>

text \<open>Objects with the same keys and the same canonical form have the same canonical values.\<close>

lemma canon_fields_eqD:
  assumes "sort_key fst (canon_fields kvs) = sort_key fst (canon_fields kvs')"
    and "map fst kvs = map fst kvs'" and "distinct (map fst kvs)"
  shows "map (canon \<circ> snd) kvs = map (canon \<circ> snd) kvs'"
proof -
  have set: "set (canon_fields kvs) = set (canon_fields kvs')" using assms(1) by (metis set_sort)
  have "canon_fields kvs = canon_fields kvs'"
  proof (rule nth_equalityI)
    show len: "length (canon_fields kvs) = length (canon_fields kvs')"
      using assms(2) by (metis length_map map_fst_canon_fields)
    fix i
    assume i: "i < length (canon_fields kvs)"
    let ?a = "canon_fields kvs ! i" and ?b = "canon_fields kvs' ! i"
    have "fst ?a = fst ?b" using i len assms(2) by (metis map_fst_canon_fields nth_map)
    moreover have "?a \<in> set (canon_fields kvs)" using i by (rule nth_mem)
    moreover have "?b \<in> set (canon_fields kvs)" using i len set nth_mem by (simp only:)
    moreover have "distinct (map fst (canon_fields kvs))" using assms(3) by simp
    ultimately show "?a = ?b" by (metis distinct_key_eq)
  qed
  then have "map snd (canon_fields kvs) = map snd (canon_fields kvs')" by simp
  then show ?thesis by (simp add: canon_fields_map comp_def case_prod_beta)
qed

lemma canon_dict_eqD:
  assumes "canon (PyDict kvs) = canon (PyDict kvs')"
    and "map fst kvs = map fst kvs'" and "distinct (map fst kvs)"
  shows "map (canon \<circ> snd) kvs = map (canon \<circ> snd) kvs'"
proof (rule canon_fields_eqD[OF _ assms(2,3)])
  show "sort_key fst (canon_fields kvs) = sort_key fst (canon_fields kvs')"
    using assms(1) by (simp only: canon.simps pyval.inject)
qed

lemma map_canon_str [simp]: "map (canon \<circ> PyStr) xs = map PyStr xs"
  by simp

lemma canon_py_strs [simp]: "canon (py_strs xs) = py_strs xs"
  by (simp add: py_strs_def canon_list_map)

lemma py_strs_inject [simp]: "py_strs xs = py_strs ys \<longleftrightarrow> xs = ys"
  by (auto simp: py_strs_def inj_map_eq_map inj_def)

section \<open>Operations on a shared state\<close>

text \<open>
  A method that reads and writes stored state and may raise: it returns the error or the value,
  and the state either way, since what was written before an error stays written.
\<close>

type_synonym ('s, 'e, 'a) op = "'s \<Rightarrow> ('e + 'a) \<times> 's"

definition returnS :: "'a \<Rightarrow> ('s, 'e, 'a) op" where
  "returnS x = (\<lambda>s. (Inr x, s))"

definition failS :: "'e \<Rightarrow> ('s, 'e, 'a) op" where
  "failS e = (\<lambda>s. (Inl e, s))"

definition bindS :: "('s, 'e, 'a) op \<Rightarrow> ('a \<Rightarrow> ('s, 'e, 'b) op) \<Rightarrow> ('s, 'e, 'b) op" where
  "bindS m f = (\<lambda>s. case m s of (Inl e, t) \<Rightarrow> (Inl e, t) | (Inr x, t) \<Rightarrow> f x t)"

definition getS :: "('s, 'e, 's) op" where
  "getS = (\<lambda>s. (Inr s, s))"

definition modifyS :: "('s \<Rightarrow> 's) \<Rightarrow> ('s, 'e, unit) op" where
  "modifyS f = (\<lambda>s. (Inr (), f s))"

fun mapS :: "('a \<Rightarrow> ('s, 'e, 'b) op) \<Rightarrow> 'a list \<Rightarrow> ('s, 'e, 'b list) op" where
  "mapS f [] = returnS []"
| "mapS f (x # xs) = bindS (f x) (\<lambda>y. bindS (mapS f xs) (\<lambda>ys. returnS (y # ys)))"

lemma opS_simps [simp]:
  "returnS x s = (Inr x, s)" "failS e s = (Inl e, s)" "modifyS f s = (Inr (), f s)"
  by (simp_all add: returnS_def failS_def modifyS_def)

lemma getS_simp [simp]: "getS s = (Inr s, s)"
  by (simp add: getS_def)

lemma bindS_Inr: "m s = (Inr x, t) \<Longrightarrow> bindS m f s = f x t"
  and bindS_Inl: "m s = (Inl e, t) \<Longrightarrow> bindS m f s = (Inl e, t)"
  by (simp_all add: bindS_def)

lemma bindS_returnS [simp]: "bindS (returnS x) f s = f x s"
  by (simp add: bindS_def)

lemma bindS_failS [simp]: "bindS (failS e) f s = (Inl e, s)"
  by (simp add: bindS_def)

lemma bindS_getS [simp]: "bindS getS f s = f s s"
  by (simp add: bindS_def)

lemma bindS_modifyS [simp]: "bindS (modifyS g) f s = f () (g s)"
  by (simp add: bindS_def)

lemma bindS_eq_Inr:
  "bindS m f s = (Inr y, u) \<longleftrightarrow> (\<exists>x t. m s = (Inr x, t) \<and> f x t = (Inr y, u))"
  by (auto simp: bindS_def split: prod.splits sum.splits)

lemma mapS_length: "mapS f xs s = (Inr ys, t) \<Longrightarrow> length ys = length xs"
  by (induction xs arbitrary: ys s t) (auto simp: bindS_eq_Inr)

text \<open>What an operation relates the state before to the state after by, however it ends.\<close>

definition rel_op :: "('s \<Rightarrow> 's \<Rightarrow> bool) \<Rightarrow> ('s, 'e, 'a) op \<Rightarrow> bool" where
  "rel_op R m \<longleftrightarrow> (\<forall>s. R s (snd (m s)))"

lemma rel_op_returnS: "reflp R \<Longrightarrow> rel_op R (returnS x)"
  and rel_op_failS: "reflp R \<Longrightarrow> rel_op R (failS e)"
  and rel_op_getS: "reflp R \<Longrightarrow> rel_op R getS"
  by (simp_all add: rel_op_def reflpD)

lemma rel_op_modifyS: "(\<And>s. R s (f s)) \<Longrightarrow> rel_op R (modifyS f)"
  by (simp add: rel_op_def)

lemma rel_op_bindS:
  assumes "transp R" and "rel_op R m" and "\<And>x. rel_op R (f x)"
  shows "rel_op R (bindS m f)"
  unfolding rel_op_def
proof
  fix s
  obtain r t where m: "m s = (r, t)" by fastforce
  then have "R s t" using assms(2) by (metis rel_op_def snd_conv)
  then show "R s (snd (bindS m f s))"
    using m assms(1,3) by (cases r) (auto simp: bindS_def rel_op_def dest: transpD)
qed

lemma rel_op_mapS:
  assumes "reflp R" and "transp R" and "\<And>x. x \<in> set xs \<Longrightarrow> rel_op R (f x)"
  shows "rel_op R (mapS f xs)"
  using assms(3)
proof (induction xs)
  case (Cons x xs)
  then show ?case using assms(1,2) by (auto intro!: rel_op_bindS rel_op_returnS)
qed (simp add: rel_op_returnS assms(1))

section \<open>Slicing and joining\<close>

text \<open>\<open>LIMIT n\<close>, \<open>range(0, len(xs), n)\<close> with slices, \<open>sep.join(xs)\<close>, \<open>{**d, **e}\<close>.\<close>

fun sql_limit :: "int \<Rightarrow> 'a list \<Rightarrow> 'a list" where
  "sql_limit n [] = []"
| "sql_limit n (x # xs) = (if n \<le> 0 then [] else x # sql_limit (n - 1) xs)"

lemma sql_limit_take: "sql_limit n xs = take (nat n) xs"
  by (induction n xs rule: sql_limit.induct) (auto simp: take_Cons' nat_diff_distrib)

function chunks :: "nat \<Rightarrow> 'a list \<Rightarrow> 'a list list" where
  "chunks n xs = (if xs = [] then [] else take (max 1 n) xs # chunks n (drop (max 1 n) xs))"
  by pat_completeness auto
termination by (relation "measure (length \<circ> snd)") auto

declare chunks.simps [simp del]

lemma chunks_Nil [simp]: "chunks n [] = []" and chunks_eq_Nil [simp]: "chunks n xs = [] \<longleftrightarrow> xs = []"
  by (subst chunks.simps, simp)+

lemma concat_chunks [simp]: "concat (chunks n xs) = xs"
  by (induction n xs rule: chunks.induct) (subst chunks.simps, simp)

lemma chunks_nonempty: "c \<in> set (chunks n xs) \<Longrightarrow> c \<noteq> []"
  by (induction n xs rule: chunks.induct) (subst (asm) chunks.simps, auto split: if_splits)

lemma length_chunks: "2 \<le> n \<Longrightarrow> length (chunks n xs) \<le> (length xs + 1) div 2"
proof (induction n xs rule: chunks.induct)
  case (1 n xs)
  show ?case
  proof (cases "length xs \<le> 1")
    case True
    then have "drop (max 1 n) xs = []" using 1(2) by simp
    then show ?thesis using True by (subst chunks.simps) (auto simp: Suc_le_eq neq_Nil_conv)
  next
    case False
    then have "length (chunks n (drop (max 1 n) xs)) \<le> (length (drop (max 1 n) xs) + 1) div 2"
      using 1 False by (cases xs) auto
    also have "\<dots> \<le> (length xs - 2 + 1) div 2" using 1(2) by (intro div_le_mono) auto
    finally show ?thesis using False by (subst chunks.simps) (auto simp: div_le_mono)
  qed
qed

fun join :: "string \<Rightarrow> string list \<Rightarrow> string" where
  "join sep [] = ''''"
| "join sep [x] = x"
| "join sep (x # y # ys) = x @ sep @ join sep (y # ys)"

lemma set_update_pairs: "set (AList.update k v al) \<subseteq> insert (k, v) (set al)"
  by (induction al) auto

lemma update_fresh: "k \<notin> set (map fst kvs) \<Longrightarrow> AList.update k v kvs = kvs @ [(k, v)]"
  by (induction kvs) auto

definition dict_merge :: "fields \<Rightarrow> fields \<Rightarrow> fields" where
  "dict_merge d e = fold (\<lambda>(k, v). AList.update k v) e d"

lemma not_islE:
  assumes "\<not> isl x"
  obtains y where "x = Inr y"
  using assms by (cases x) auto

section \<open>Built-in conversions\<close>

text \<open>
  \<open>int(s)\<close> of a string: optional surrounding space and sign, decimal digits, single underscores
  between digits.
\<close>

definition py_digit :: "char \<Rightarrow> bool" where
  "py_digit c \<longleftrightarrow> (let n = (of_char c :: nat) in 48 \<le> n \<and> n \<le> 57)"

fun digit_run :: "bool \<Rightarrow> string \<Rightarrow> bool" where
  "digit_run after_digit [] = after_digit"
| "digit_run after_digit (c # cs) =
     (if py_digit c then digit_run True cs else c = CHR ''_'' \<and> after_digit \<and> cs \<noteq> [] \<and> digit_run False cs)"

definition digits_value :: "string \<Rightarrow> int" where
  "digits_value s = foldl (\<lambda>n c. 10 * n + (of_char c - 48)) 0 (filter py_digit s)"

definition parse_int :: "string \<Rightarrow> int option" where
  "parse_int s =
     (case py_strip s of
        [] \<Rightarrow> None
      | c # cs \<Rightarrow>
          if c = CHR ''-'' then (if digit_run False cs then Some (- digits_value cs) else None)
          else if c = CHR ''+'' then (if digit_run False cs then Some (digits_value cs) else None)
          else if digit_run False (c # cs) then Some (digits_value (c # cs)) else None)"

definition truncate_rat :: "rat \<Rightarrow> int" where
  "truncate_rat r = (if 0 \<le> r then \<lfloor>r\<rfloor> else - \<lfloor>- r\<rfloor>)"

definition py_int :: "pyval \<Rightarrow> py_error + int" where
  "py_int v =
     (case v of
        PyInt n \<Rightarrow> Inr n
      | PyBool b \<Rightarrow> Inr (if b then 1 else 0)
      | PyFloat r \<Rightarrow> Inr (truncate_rat r)
      | PyStr s \<Rightarrow> (case parse_int s of
            None \<Rightarrow> Inl (ValueError (''invalid literal for int() with base 10: '' @ py_repr s)) | Some n \<Rightarrow> Inr n)
      | _ \<Rightarrow> Inl (TypeError ''int() argument must be a string or a number''))"

text \<open>\<open>float(s)\<close> of a string: \<open>None\<close> where it raises, \<open>Some None\<close> for infinities and NaN.\<close>

definition parse_decimal :: "string \<Rightarrow> rat option" where
  "parse_decimal m =
     (let whole = takeWhile (\<lambda>c. c \<noteq> CHR ''.'') m; rest = dropWhile (\<lambda>c. c \<noteq> CHR ''.'') m; frac = tl rest
      in if rest = [] then (if digit_run False m then Some (of_int (digits_value m)) else None)
         else if (whole = '''' \<or> digit_run False whole) \<and> (frac = '''' \<or> digit_run False frac) \<and> whole @ frac \<noteq> ''''
         then Some (of_int (digits_value (whole @ frac)) / 10 ^ length (filter py_digit frac)) else None)"

definition parse_exponent :: "string \<Rightarrow> int option" where
  "parse_exponent e =
     (case e of
        [] \<Rightarrow> None
      | c # cs \<Rightarrow> if c = CHR ''-'' then (if digit_run False cs then Some (- digits_value cs) else None)
          else if c = CHR ''+'' then (if digit_run False cs then Some (digits_value cs) else None)
          else if digit_run False e then Some (digits_value e) else None)"

definition parse_unsigned :: "string \<Rightarrow> rat option option" where
  "parse_unsigned s =
     (if py_lower s \<in> {''inf'', ''infinity'', ''nan''} then Some None
      else let m = takeWhile (\<lambda>c. c \<notin> set ''eE'') s; rest = dropWhile (\<lambda>c. c \<notin> set ''eE'') s in
        case parse_decimal m of
          None \<Rightarrow> None
        | Some r \<Rightarrow> if rest = [] then Some (Some r)
            else (case parse_exponent (tl rest) of
                None \<Rightarrow> None
              | Some e \<Rightarrow> Some (Some (if 0 \<le> e then r * 10 ^ nat e else r / 10 ^ nat (- e)))))"

definition parse_float :: "string \<Rightarrow> rat option option" where
  "parse_float s =
     (case py_strip s of
        [] \<Rightarrow> None
      | c # cs \<Rightarrow> if c = CHR ''-'' then map_option (map_option uminus) (parse_unsigned cs)
          else if c = CHR ''+'' then parse_unsigned cs else parse_unsigned (c # cs))"

definition py_float :: "pyval \<Rightarrow> py_error + rat option" where
  "py_float v =
     (case v of
        PyInt n \<Rightarrow> Inr (Some (of_int n))
      | PyBool b \<Rightarrow> Inr (Some (if b then 1 else 0))
      | PyFloat r \<Rightarrow> Inr (Some r)
      | PyStr s \<Rightarrow> (case parse_float s of
            None \<Rightarrow> Inl (ValueError (''could not convert string to float: '' @ py_repr s)) | Some x \<Rightarrow> Inr x)
      | _ \<Rightarrow> Inl (TypeError ''float() argument must be a string or a number''))"

text \<open>\<open>str(v)\<close>; the text of a float or a container is abbreviated.\<close>

definition py_str :: "pyval \<Rightarrow> string" where
  "py_str v =
     (case v of
        PyNone \<Rightarrow> ''None'' | PyBool b \<Rightarrow> (if b then ''True'' else ''False'') | PyInt n \<Rightarrow> int_str n
      | PyStr s \<Rightarrow> s | PyFloat _ \<Rightarrow> ''0.'' | PyList _ \<Rightarrow> ''[...]'' | PyTuple _ \<Rightarrow> ''(...)'' | PyDict _ \<Rightarrow> ''{...}'')"

text \<open>Truth of a value, \<open>dict(v)\<close> (a sequence of pairs is refused here) and \<open>d[key]\<close>.\<close>

definition py_truth :: "pyval \<Rightarrow> bool" where
  "py_truth v =
     (case v of
        PyNone \<Rightarrow> False | PyBool b \<Rightarrow> b | PyInt n \<Rightarrow> n \<noteq> 0 | PyFloat r \<Rightarrow> r \<noteq> 0 | PyStr s \<Rightarrow> s \<noteq> ''''
      | PyList vs \<Rightarrow> vs \<noteq> [] | PyTuple vs \<Rightarrow> vs \<noteq> [] | PyDict kvs \<Rightarrow> kvs \<noteq> [])"

definition py_dict :: "pyval \<Rightarrow> py_error + fields" where
  "py_dict v =
     (case v of
        PyDict kvs \<Rightarrow> Inr kvs
      | PyList [] \<Rightarrow> Inr [] | PyTuple [] \<Rightarrow> Inr [] | PyStr [] \<Rightarrow> Inr []
      | _ \<Rightarrow> Inl (TypeError ''cannot convert to a dictionary''))"

definition field :: "string \<Rightarrow> fields \<Rightarrow> py_error + pyval" where
  "field k kvs = (case map_of kvs k of None \<Rightarrow> Inl (KeyError k) | Some v \<Rightarrow> Inr v)"

definition py_get_none :: "fields \<Rightarrow> string \<Rightarrow> pyval" where
  "py_get_none kvs k = (case map_of kvs k of None \<Rightarrow> PyNone | Some v \<Rightarrow> v)"

text \<open>
  \<open>v == w\<close> between values read from JSON: a number equals a number of another type, and the
  order of an object's keys does not matter.
\<close>

fun num_norm :: "pyval \<Rightarrow> pyval"
  and num_norm_list :: "pyval list \<Rightarrow> pyval list"
  and num_norm_fields :: "fields \<Rightarrow> fields" where
  "num_norm (PyBool b) = PyInt (if b then 1 else 0)"
| "num_norm (PyFloat r) = (if r = of_int \<lfloor>r\<rfloor> then PyInt \<lfloor>r\<rfloor> else PyFloat r)"
| "num_norm (PyList vs) = PyList (num_norm_list vs)"
| "num_norm (PyTuple vs) = PyTuple (num_norm_list vs)"
| "num_norm (PyDict kvs) = PyDict (num_norm_fields kvs)"
| "num_norm v = v"
| "num_norm_list [] = []"
| "num_norm_list (v # vs) = num_norm v # num_norm_list vs"
| "num_norm_fields [] = []"
| "num_norm_fields ((k, v) # kvs) = (k, num_norm v) # num_norm_fields kvs"

definition py_same :: "pyval \<Rightarrow> pyval \<Rightarrow> bool" where
  "py_same v w \<longleftrightarrow> num_norm (canon v) = num_norm (canon w)"

lemma py_same_refl [simp]: "py_same v v"
  by (simp add: py_same_def)

text \<open>\<open>v == n\<close> between a JSON value and an integer.\<close>

definition py_eq_int :: "pyval \<Rightarrow> int \<Rightarrow> bool" where
  "py_eq_int v n =
     (case v of PyInt m \<Rightarrow> m = n | PyBool b \<Rightarrow> (if b then 1 else 0) = n | PyFloat r \<Rightarrow> r = of_int n | _ \<Rightarrow> False)"

definition list_repr :: "string list \<Rightarrow> string" where
  "list_repr xs = ''['' @ join '', '' (map py_repr xs) @ '']''"

text \<open>Looking up a key in an object whose keys have been sorted.\<close>

lemma map_of_sort_key:
  assumes "distinct (map fst kvs)"
  shows "map_of (sort_key fst kvs) k = map_of kvs k"
proof -
  have "set (sort_key fst kvs) = set kvs" by simp
  moreover have "distinct (map fst (sort_key fst kvs))"
    using distinct_map_sort_filter[OF assms, of fst "\<lambda>_. True"] by simp
  ultimately show ?thesis using assms by (metis map_of_eqI map_of_inject_set weak_map_of_SomeI)
qed

lemma map_of_canon_fields: "map_of (canon_fields kvs) k = map_option canon (map_of kvs k)"
  by (induction kvs) auto

lemma map_of_canon:
  assumes "distinct (map fst kvs)"
  shows "map_of (sort_key fst (canon_fields kvs)) k = map_option canon (map_of kvs k)"
  using map_of_sort_key[of "canon_fields kvs"] assms by (simp add: map_of_canon_fields)

text \<open>\<open>s.split()\<close>: the words between runs of white space.\<close>

function py_words :: "string \<Rightarrow> string list" where
  "py_words s =
     (let t = dropWhile py_space s in
      if t = [] then [] else takeWhile (\<lambda>c. \<not> py_space c) t # py_words (dropWhile (\<lambda>c. \<not> py_space c) t))"
  by pat_completeness auto
termination
proof (relation "measure length")
  fix s t
  assume t: "t = dropWhile py_space s" "t \<noteq> []"
  then have "\<not> py_space (hd t)" using hd_dropWhile[of py_space s] by simp
  then have "length (dropWhile (\<lambda>c. \<not> py_space c) t) < length t"
    using t(2) by (cases t) (auto simp: le_imp_less_Suc length_dropWhile_le)
  also have "\<dots> \<le> length s" unfolding t(1) by (rule length_dropWhile_le)
  finally show "(dropWhile (\<lambda>c. \<not> py_space c) t, s) \<in> measure length" by simp
qed simp

declare py_words.simps [simp del]

text \<open>\<open>round(x)\<close>: to the nearest integer, ties to the even one.\<close>

definition round_half_even :: "rat \<Rightarrow> int" where
  "round_half_even r =
     (let f = \<lfloor>r\<rfloor>; d = r - of_int f in
      if d < 1/2 then f else if d > 1/2 then f + 1 else if even f then f else f + 1)"

text \<open>\<open>sub in s\<close>, and \<open>f"{r:.nf}"\<close> for exact numbers.\<close>

fun has_substring :: "string \<Rightarrow> string \<Rightarrow> bool" where
  "has_substring sub [] \<longleftrightarrow> sub = []"
| "has_substring sub (c # s) \<longleftrightarrow> take (length sub) (c # s) = sub \<or> has_substring sub s"

definition fixed :: "nat \<Rightarrow> rat \<Rightarrow> string" where
  "fixed n r =
     (let scaled = round_half_even (r * 10 ^ n); digits = nat_str (nat \<bar>scaled\<bar>);
          padded = replicate (n + 1 - length digits) (CHR ''0'') @ digits;
          point = length padded - n
      in (if r < 0 then ''-'' else '''') @ take point padded @ ''.'' @ drop point padded)"

text \<open>UTF-8 of Latin-1 text, and \<open>s.split(c)\<close>.\<close>

definition code_of :: "char \<Rightarrow> nat" where
  "code_of c = of_char c"

definition utf8_encode :: "string \<Rightarrow> nat list" where
  "utf8_encode s = concat (map (\<lambda>c. if code_of c < 128 then [code_of c]
     else [192 + code_of c div 64, 128 + code_of c mod 64]) s)"

definition starts_with :: "string \<Rightarrow> string \<Rightarrow> bool" where
  "starts_with p s \<longleftrightarrow> take (length p) s = p"

definition ends_with :: "string \<Rightarrow> string \<Rightarrow> bool" where
  "ends_with p s \<longleftrightarrow> length p \<le> length s \<and> drop (length s - length p) s = p"

fun split_char :: "char \<Rightarrow> string \<Rightarrow> string list" where
  "split_char c [] = ['''']"
| "split_char c (x # s) =
     (if x = c then '''' # split_char c s
      else case split_char c s of [] \<Rightarrow> [[x]] | p # ps \<Rightarrow> (x # p) # ps)"

lemma split_char_nonempty [simp]: "split_char c s \<noteq> []"
  by (induction s) (auto split: list.splits)

lemma split_char_prefix:
  "c \<notin> set p \<Longrightarrow> split_char c (p @ c # s) = p # split_char c s"
  "c \<notin> set p \<Longrightarrow> split_char c p = [p]"
  by (induction p) auto

lemma split_join:
  "ps \<noteq> [] \<Longrightarrow> \<forall>p \<in> set ps. c \<notin> set p \<Longrightarrow> split_char c (join [c] ps) = ps"
  by (induction ps rule: induct_list012) (simp_all add: split_char_prefix)

lemma set_join: "set (join [c] ps) \<subseteq> insert c (\<Union> (set ` set ps))"
  by (induction ps rule: induct_list012) auto

lemma join_eq_Nil: "join [c] ps = [] \<longleftrightarrow> ps = [] \<or> ps = [[]]"
  by (induction ps rule: induct_list012) auto

lemma last_join: "ps \<noteq> [] \<Longrightarrow> \<forall>p \<in> set ps. p \<noteq> [] \<Longrightarrow> last (join [c] ps) = last (last ps)"
  by (induction ps rule: induct_list012) (auto simp: join_eq_Nil)

end
