(* ===== verification/JobScheduler.thy ===== *)
theory JobScheduler
  imports Prelude
begin

text \<open>
  The durable job scheduler of \<open>syntavra_runtime/job_scheduler.py\<close>: a priority, fairness and
  dependency queue over three SQLite tables, with leases, retries and a dead-letter state.
  The tables are lists of rows in insertion order; each method of \<open>DurableJobScheduler\<close> is a
  function from the database to an error or to its result and the new database, and an error
  rolls the transaction back (\<open>StateDB.transaction\<close>), so it returns no database.  The wall
  clock is an argument: \<open>wall\<close> for the reading a method takes itself, \<open>clk n\<close> for the one taken
  when event number \<open>n\<close> is written.
\<close>

section \<open>Data\<close>

datatype job_state = Queued | Running | Succeeded | Failed | DeadLetter | Cancelled

fun state_name :: "job_state \<Rightarrow> string" where
  "state_name Queued = ''queued''"
| "state_name Running = ''running''"
| "state_name Succeeded = ''succeeded''"
| "state_name Failed = ''failed''"
| "state_name DeadLetter = ''dead-letter''"
| "state_name Cancelled = ''cancelled''"

text \<open>\<open>SchedulerError\<close> and the \<open>sqlite3.IntegrityError\<close> of a violated primary key.\<close>

datatype sched_error = SchedulerError string | IntegrityError

record job_spec =
  spec_project_id :: string
  spec_argv :: "string list"
  spec_priority :: int
  spec_dependencies :: "string list"
  spec_max_attempts :: int
  spec_timeout_seconds :: rat
  spec_sandbox_profile :: string
  spec_resource_class :: string
  spec_metadata :: "fields option"

record job_lease =
  lease_job_id :: string
  lease_project_id :: string
  lease_argv :: "string list"
  lease_attempt :: int
  lease_worker :: string
  lease_expiry :: rat
  lease_timeout_seconds :: rat
  lease_sandbox_profile :: string
  lease_resource_class :: string
  lease_metadata :: pyval

record job =
  job_id :: string
  project_id :: string
  argv :: "string list"
  priority :: int
  state :: job_state
  attempt :: int
  max_attempts :: int
  timeout_seconds :: rat
  sandbox_profile :: string
  resource_class :: string
  metadata :: pyval
  scheduled_at :: rat
  created_at :: rat
  updated_at :: rat
  lease_owner :: string
  lease_until :: rat
  last_error :: string
  result :: pyval

record sched_event =
  ev_sequence :: int
  ev_job_id :: string
  ev_event :: string
  ev_payload :: pyval
  ev_created_at :: rat

record sched_db =
  jobs :: "job list"
  deps :: "(string \<times> string) list"
  events :: "sched_event list"
  next_sequence :: int

definition empty_db :: sched_db where
  "empty_db = \<lparr>jobs = [], deps = [], events = [], next_sequence = 1\<rparr>"

type_synonym clock = "int \<Rightarrow> rat"

section \<open>Operations\<close>

definition validate_spec :: "job_spec \<Rightarrow> sched_error option" where
  "validate_spec spec =
     (if spec_project_id spec = '''' \<or> spec_argv spec = []
      then Some (SchedulerError ''project_id and argv are required'')
      else if \<not> (-100 \<le> spec_priority spec \<and> spec_priority spec \<le> 100)
      then Some (SchedulerError ''priority must be between -100 and 100'')
      else if spec_max_attempts spec < 1 \<or> spec_timeout_seconds spec \<le> 0
      then Some (SchedulerError ''invalid retry/timeout policy'')
      else None)"

definition add_event :: "clock \<Rightarrow> string \<Rightarrow> string \<Rightarrow> fields \<Rightarrow> sched_db \<Rightarrow> sched_db" where
  "add_event clk job event payload db =
     db\<lparr>events := events db @
          [\<lparr>ev_sequence = next_sequence db, ev_job_id = job, ev_event = event,
            ev_payload = canon (PyDict payload), ev_created_at = clk (next_sequence db)\<rparr>],
        next_sequence := next_sequence db + 1\<rparr>"

text \<open>
  \<open>submit\<close>: \<open>fresh\<close> is the hex of the random UUID, used when no id is given (\<open>job_id or ...\<close>);
  a falsy \<open>scheduled_at\<close> (absent or zero) is replaced by the current time.
\<close>

definition new_job :: "job_spec \<Rightarrow> string \<Rightarrow> rat option \<Rightarrow> rat \<Rightarrow> job" where
  "new_job spec identifier sched now =
     \<lparr>job_id = identifier, project_id = spec_project_id spec, argv = spec_argv spec,
      priority = spec_priority spec, state = Queued, attempt = 0,
      max_attempts = spec_max_attempts spec, timeout_seconds = spec_timeout_seconds spec,
      sandbox_profile = spec_sandbox_profile spec, resource_class = spec_resource_class spec,
      metadata = canon (PyDict (case spec_metadata spec of None \<Rightarrow> [] | Some m \<Rightarrow> m)),
      scheduled_at = (case sched of None \<Rightarrow> now | Some t \<Rightarrow> if t = 0 then now else t),
      created_at = now, updated_at = now, lease_owner = '''', lease_until = 0,
      last_error = '''', result = PyDict []\<rparr>"

definition submit ::
  "clock \<Rightarrow> rat \<Rightarrow> string \<Rightarrow> job_spec \<Rightarrow> string \<Rightarrow> rat option \<Rightarrow> sched_db \<Rightarrow>
   sched_error + string \<times> sched_db" where
  "submit clk wall fresh spec jid sched db =
     (case validate_spec spec of
        Some e \<Rightarrow> Inl e
      | None \<Rightarrow>
          let identifier = (if jid = '''' then ''job-'' @ fresh else jid) in
          if identifier \<in> set (spec_dependencies spec)
          then Inl (SchedulerError ''job cannot depend on itself'')
          else
            (case find (\<lambda>d. d \<notin> set (map job_id (jobs db))) (spec_dependencies spec) of
               Some d \<Rightarrow> Inl (SchedulerError (''unknown dependency: '' @ d))
             | None \<Rightarrow>
                 if identifier \<in> set (map job_id (jobs db)) then Inl IntegrityError
                 else if \<not> distinct (spec_dependencies spec) then Inl IntegrityError
                 else Inr (identifier,
                   add_event clk identifier ''submitted''
                     [(''priority'', PyInt (spec_priority spec))]
                     (db\<lparr>jobs := jobs db @ [new_job spec identifier sched wall],
                         deps := deps db @ map (\<lambda>d. (identifier, d)) (spec_dependencies spec)\<rparr>))))"

definition expired :: "rat \<Rightarrow> job \<Rightarrow> bool" where
  "expired now j \<longleftrightarrow> state j = Running \<and> 0 < lease_until j \<and> lease_until j \<le> now"

fun reap_rows :: "clock \<Rightarrow> rat \<Rightarrow> job list \<Rightarrow> sched_db \<Rightarrow> sched_db" where
  "reap_rows clk now [] db = db"
| "reap_rows clk now (row # rows) db =
     (let st = (if attempt row < max_attempts row then Queued else DeadLetter);
          db1 = db\<lparr>jobs := update_where (\<lambda>j. job_id j = job_id row)
                  (\<lambda>j. j\<lparr>state := st, lease_owner := '''', lease_until := 0,
                         scheduled_at := now, last_error := ''lease-expired'',
                         updated_at := now\<rparr>) (jobs db)\<rparr>
      in reap_rows clk now rows
           (add_event clk (job_id row) ''lease-expired''
              [(''next_state'', PyStr (state_name st))] db1))"

definition reap_expired :: "clock \<Rightarrow> rat \<Rightarrow> sched_db \<Rightarrow> nat \<times> sched_db" where
  "reap_expired clk now db =
     (let rows = filter (expired now) (jobs db) in (length rows, reap_rows clk now rows db))"

definition reap :: "clock \<Rightarrow> rat \<Rightarrow> sched_db \<Rightarrow> nat \<times> sched_db" where
  "reap clk wall db = reap_expired clk wall db"

definition deps_met :: "sched_db \<Rightarrow> job \<Rightarrow> bool" where
  "deps_met db j \<longleftrightarrow>
     (\<forall>(a, d) \<in> set (deps db). a = job_id j \<longrightarrow>
        (\<forall>x \<in> set (jobs db). job_id x = d \<longrightarrow> state x = Succeeded))"

definition running_count :: "sched_db \<Rightarrow> string \<Rightarrow> nat" where
  "running_count db p = length (filter (\<lambda>j. project_id j = p \<and> state j = Running) (jobs db))"

definition last_service :: "sched_db \<Rightarrow> string \<Rightarrow> rat" where
  "last_service db p =
     (case map updated_at
             (filter (\<lambda>j. project_id j = p \<and>
                (state j = Running \<or> state j = Succeeded \<or> state j = Failed)) (jobs db)) of
        [] \<Rightarrow> 0
      | t # ts \<Rightarrow> fold max ts t)"

definition ready :: "sched_db \<Rightarrow> rat \<Rightarrow> int \<Rightarrow> string list \<Rightarrow> job \<Rightarrow> bool" where
  "ready db now conc classes j \<longleftrightarrow>
     state j = Queued \<and> scheduled_at j \<le> now \<and> deps_met db j \<and>
     int (running_count db (project_id j)) < conc \<and>
     (classes \<noteq> [] \<longrightarrow> resource_class j \<in> set classes)"

definition claim_key :: "sched_db \<Rightarrow> job \<Rightarrow> int \<times> rat \<times> rat" where
  "claim_key db j = (- priority j, last_service db (project_id j), created_at j)"

text \<open>
  \<open>claim\<close>: expired leases are reaped first, in the same transaction.  The query's
  \<open>ORDER BY ... LIMIT 1\<close> leaves ties open; the model takes the first row in table order.
\<close>

definition claim ::
  "clock \<Rightarrow> rat \<Rightarrow> string \<Rightarrow> rat \<Rightarrow> int \<Rightarrow> string list \<Rightarrow> rat option \<Rightarrow> sched_db \<Rightarrow>
   sched_error + job_lease option \<times> sched_db" where
  "claim clk wall worker lease_seconds conc classes now db =
     (if worker = '''' \<or> lease_seconds \<le> 0 \<or> conc < 1
      then Inl (SchedulerError ''invalid lease request'')
      else
        let current = (case now of None \<Rightarrow> wall | Some t \<Rightarrow> t);
            db1 = snd (reap_expired clk current db)
        in case first_min (claim_key db1) (filter (ready db1 current conc classes) (jobs db1)) of
             None \<Rightarrow> Inr (None, db1)
           | Some row \<Rightarrow>
               let att = attempt row + 1;
                   until = current + lease_seconds;
                   hit = (\<lambda>j. job_id j = job_id row \<and> state j = Queued);
                   db2 = db1\<lparr>jobs := update_where hit
                           (\<lambda>j. j\<lparr>state := Running, attempt := att, lease_owner := worker,
                                  lease_until := until, updated_at := current\<rparr>) (jobs db1)\<rparr>
               in if rowcount hit (jobs db1) \<noteq> 1 then Inr (None, db2)
                  else Inr (Some
                      \<lparr>lease_job_id = job_id row, lease_project_id = project_id row,
                       lease_argv = argv row, lease_attempt = att, lease_worker = worker,
                       lease_expiry = until, lease_timeout_seconds = timeout_seconds row,
                       lease_sandbox_profile = sandbox_profile row,
                       lease_resource_class = resource_class row,
                       lease_metadata = metadata row\<rparr>,
                     add_event clk (job_id row) ''claimed''
                       [(''worker'', PyStr worker), (''attempt'', PyInt att)] db2))"

text \<open>The \<open>WHERE\<close> clause of the owner's updates: the job is running under this worker.\<close>

definition owned :: "string \<Rightarrow> string \<Rightarrow> job \<Rightarrow> bool" where
  "owned jid worker j \<longleftrightarrow> job_id j = jid \<and> state j = Running \<and> lease_owner j = worker"

definition not_owned :: sched_error where
  "not_owned = SchedulerError ''job lease is not owned by worker''"

definition heartbeat ::
  "clock \<Rightarrow> rat \<Rightarrow> string \<Rightarrow> string \<Rightarrow> rat \<Rightarrow> sched_db \<Rightarrow> sched_error + rat \<times> sched_db" where
  "heartbeat clk wall jid worker lease_seconds db =
     (let until = wall + lease_seconds;
          db1 = db\<lparr>jobs := update_where (owned jid worker)
                  (\<lambda>j. j\<lparr>lease_until := until, updated_at := wall\<rparr>) (jobs db)\<rparr>
      in if rowcount (owned jid worker) (jobs db) \<noteq> 1 then Inl not_owned
         else Inr (until, add_event clk jid ''heartbeat''
                [(''worker'', PyStr worker), (''lease_until'', PyFloat until)] db1))"

definition complete ::
  "clock \<Rightarrow> rat \<Rightarrow> string \<Rightarrow> string \<Rightarrow> fields option \<Rightarrow> sched_db \<Rightarrow> sched_error + sched_db" where
  "complete clk wall jid worker res db =
     (let body = (case res of None \<Rightarrow> [] | Some r \<Rightarrow> r);
          db1 = db\<lparr>jobs := update_where (owned jid worker)
                  (\<lambda>j. j\<lparr>state := Succeeded, result := canon (PyDict body), lease_owner := '''',
                         lease_until := 0, updated_at := wall\<rparr>) (jobs db)\<rparr>
      in if rowcount (owned jid worker) (jobs db) \<noteq> 1 then Inl not_owned
         else Inr (add_event clk jid ''succeeded'' body db1))"

definition backoff :: "rat \<Rightarrow> int \<Rightarrow> rat" where
  "backoff base att = min 3600 (base * 2 ^ nat (max 0 (att - 1)))"

definition fail ::
  "clock \<Rightarrow> rat \<Rightarrow> string \<Rightarrow> string \<Rightarrow> string \<Rightarrow> bool \<Rightarrow> rat \<Rightarrow> sched_db \<Rightarrow>
   sched_error + job_state \<times> sched_db" where
  "fail clk wall jid worker err retryable base db =
     (case find (owned jid worker) (jobs db) of
        None \<Rightarrow> Inl not_owned
      | Some row \<Rightarrow>
          let att = attempt row;
              retry = (retryable \<and> att < max_attempts row);
              st = (if retry then Queued
                    else if att \<ge> max_attempts row then DeadLetter else Failed);
              sched = (if retry then wall + backoff base att else wall);
              event = (if retry then ''retry-scheduled'' else state_name st);
              db1 = db\<lparr>jobs := update_where (\<lambda>j. job_id j = jid)
                  (\<lambda>j. j\<lparr>state := st, scheduled_at := sched, last_error := take 4096 err,
                         lease_owner := '''', lease_until := 0, updated_at := wall\<rparr>) (jobs db)\<rparr>
          in Inr (st, add_event clk jid event
                [(''attempt'', PyInt att), (''error'', PyStr (take 512 err))] db1))"

definition cancellable :: "string \<Rightarrow> job \<Rightarrow> bool" where
  "cancellable jid j \<longleftrightarrow> job_id j = jid \<and> (state j = Queued \<or> state j = Running)"

definition cancel :: "clock \<Rightarrow> rat \<Rightarrow> string \<Rightarrow> sched_db \<Rightarrow> bool \<times> sched_db" where
  "cancel clk wall jid db =
     (let n = rowcount (cancellable jid) (jobs db);
          db1 = db\<lparr>jobs := update_where (cancellable jid)
                  (\<lambda>j. j\<lparr>state := Cancelled, lease_owner := '''', lease_until := 0,
                         updated_at := wall\<rparr>) (jobs db)\<rparr>
      in if n \<noteq> 0 then (True, add_event clk jid ''cancelled'' [] db1) else (False, db1))"

definition list_jobs :: "job_state list \<Rightarrow> int \<Rightarrow> sched_db \<Rightarrow> job list" where
  "list_jobs states lmt db =
     take (nat (max 1 (min lmt 1000)))
       (sort_key (\<lambda>j. - created_at j)
          (filter (\<lambda>j. states = [] \<or> state j \<in> set states) (jobs db)))"

definition events_after :: "int \<Rightarrow> int \<Rightarrow> sched_db \<Rightarrow> sched_event list \<times> int" where
  "events_after after lmt db =
     (let rows = take (nat (max 1 (min lmt 1000)))
                   (sort_key ev_sequence (filter (\<lambda>e. ev_sequence e > after) (events db)))
      in (rows, if rows = [] then after else ev_sequence (last rows)))"

definition job_states :: "job_state list" where
  "job_states = [Queued, Running, Succeeded, Failed, DeadLetter, Cancelled]"

definition stats :: "sched_db \<Rightarrow> (job_state \<times> nat) list \<times> nat" where
  "stats db =
     (filter (\<lambda>(_, n). n \<noteq> 0)
        (map (\<lambda>s. (s, length (filter (\<lambda>j. state j = s) (jobs db)))) job_states),
      length (remdups (map project_id (jobs db))))"

section \<open>The invariant\<close>

text \<open>
  A row is well formed when its attempts are within the budget and it carries a lease exactly
  while it runs.
\<close>

definition job_ok :: "job \<Rightarrow> bool" where
  "job_ok j \<longleftrightarrow>
     0 \<le> attempt j \<and> attempt j \<le> max_attempts j \<and>
     (state j = Queued \<longrightarrow> attempt j < max_attempts j) \<and>
     (state j = Running \<longrightarrow> lease_owner j \<noteq> '''' \<and> 1 \<le> attempt j) \<and>
     (state j \<noteq> Running \<longrightarrow> lease_owner j = '''' \<and> lease_until j = 0) \<and>
     (state j = DeadLetter \<longrightarrow> attempt j = max_attempts j) \<and>
     (state j = Failed \<longrightarrow> attempt j < max_attempts j)"

definition claims_of :: "string \<Rightarrow> sched_event list \<Rightarrow> nat" where
  "claims_of jid es = length (filter (\<lambda>e. ev_job_id e = jid \<and> ev_event e = ''claimed'') es)"

definition row_index :: "string list \<Rightarrow> string \<Rightarrow> nat" where
  "row_index ids x = length (takeWhile (\<lambda>y. y \<noteq> x) ids)"

text \<open>
  The database invariant: job ids are unique, every row is well formed, every dependency points
  from a row to an earlier one, the event log only mentions known jobs and is numbered without
  gaps, and a job's attempt counter is the number of times the log says it was claimed.
\<close>

definition sched_inv :: "sched_db \<Rightarrow> bool" where
  "sched_inv db \<longleftrightarrow>
     distinct (map job_id (jobs db)) \<and>
     (\<forall>j \<in> set (jobs db). job_ok j) \<and>
     (\<forall>(a, d) \<in> set (deps db). a \<in> set (map job_id (jobs db)) \<and>
        d \<in> set (map job_id (jobs db)) \<and>
        row_index (map job_id (jobs db)) d < row_index (map job_id (jobs db)) a) \<and>
     (\<forall>e \<in> set (events db). ev_job_id e \<in> set (map job_id (jobs db))) \<and>
     map ev_sequence (events db) = map int [1..<length (events db) + 1] \<and>
     next_sequence db = int (length (events db)) + 1 \<and>
     (\<forall>j \<in> set (jobs db). attempt j = int (claims_of (job_id j) (events db)))"

text \<open>Every operation that changes the database, with any arguments and clock readings.\<close>

inductive sched_step :: "sched_db \<Rightarrow> sched_db \<Rightarrow> bool" where
  step_submit: "submit clk wall fresh spec jid sched db = Inr (i, db') \<Longrightarrow> sched_step db db'"
| step_claim: "claim clk wall worker secs conc classes now db = Inr (l, db') \<Longrightarrow> sched_step db db'"
| step_heartbeat: "heartbeat clk wall jid worker secs db = Inr (u, db') \<Longrightarrow> sched_step db db'"
| step_complete: "complete clk wall jid worker res db = Inr db' \<Longrightarrow> sched_step db db'"
| step_fail: "fail clk wall jid worker err retryable base db = Inr (st, db') \<Longrightarrow> sched_step db db'"
| step_cancel: "cancel clk wall jid db = (b, db') \<Longrightarrow> sched_step db db'"
| step_reap: "reap clk wall db = (n, db') \<Longrightarrow> sched_step db db'"

subsection \<open>Updates of one row\<close>

text \<open>
  Every operation but \<open>submit\<close> rewrites rows in place and appends events.  An update that keeps
  ids and attempts and restores \<open>job_ok\<close>, together with an event about a known job that is not
  a claim, keeps the invariant.
\<close>

lemma add_event_simps [simp]:
  "jobs (add_event clk jid ev pl db) = jobs db"
  "deps (add_event clk jid ev pl db) = deps db"
  "next_sequence (add_event clk jid ev pl db) = next_sequence db + 1"
  by (simp_all add: add_event_def)

lemma events_add_event:
  "events (add_event clk jid ev pl db) = events db @
     [\<lparr>ev_sequence = next_sequence db, ev_job_id = jid, ev_event = ev,
       ev_payload = canon (PyDict pl), ev_created_at = clk (next_sequence db)\<rparr>]"
  by (simp add: add_event_def)

lemma claims_of_append [simp]: "claims_of jid (es @ fs) = claims_of jid es + claims_of jid fs"
  by (simp add: claims_of_def)

lemma sched_inv_update:
  assumes inv: "sched_inv db"
    and keep: "\<And>j. j \<in> set (jobs db) \<Longrightarrow> P j \<Longrightarrow> job_id (f j) = job_id j \<and> attempt (f j) = attempt j"
    and ok: "\<And>j. j \<in> set (jobs db) \<Longrightarrow> P j \<Longrightarrow> job_ok j \<Longrightarrow> job_ok (f j)"
  shows "sched_inv (db\<lparr>jobs := update_where P f (jobs db)\<rparr>)"
proof -
  let ?js = "update_where P f (jobs db)"
  have ids: "map job_id ?js = map job_id (jobs db)"
    using keep by (intro map_update_where_same) blast
  have oks: "\<forall>j \<in> set ?js. job_ok j"
    using inv ok by (intro ball_update_where) (auto simp: sched_inv_def)
  have att: "\<forall>j \<in> set ?js. attempt j = int (claims_of (job_id j) (events db))"
    using inv keep by (intro ball_update_where) (auto simp: sched_inv_def)
  show ?thesis using inv oks att unfolding sched_inv_def by (simp add: ids flip: set_map)
qed

lemma sched_inv_event:
  assumes "sched_inv db" and "jid \<in> job_id ` set (jobs db)" and "ev \<noteq> ''claimed''"
  shows "sched_inv (add_event clk jid ev pl db)"
  using assms unfolding sched_inv_def
  by (auto simp: events_add_event claims_of_def)

lemma inv_distinct: "sched_inv db \<Longrightarrow> distinct (map job_id (jobs db))"
  and inv_job_ok: "sched_inv db \<Longrightarrow> j \<in> set (jobs db) \<Longrightarrow> job_ok j"
  and inv_attempt: "sched_inv db \<Longrightarrow> j \<in> set (jobs db) \<Longrightarrow>
     attempt j = int (claims_of (job_id j) (events db))"
  by (auto simp: sched_inv_def)

lemma ids_update_where [simp]:
  assumes "\<And>j. job_id (f j) = job_id j"
  shows "map job_id (update_where P f js) = map job_id js"
    and "job_id ` set (update_where P f js) = job_id ` set js"
  using assms by (simp_all add: map_update_where_same flip: set_map)

subsection \<open>Each operation keeps the invariant\<close>

lemma owned_mem: "j \<in> set js \<Longrightarrow> owned jid w j \<Longrightarrow> jid \<in> job_id ` set js"
  by (auto simp: owned_def)

lemma rowcount_owned_mem: "rowcount (owned jid w) js = Suc 0 \<Longrightarrow> jid \<in> job_id ` set js"
  by (metis One_nat_def rowcount_pos owned_mem)

lemma inv_heartbeat:
  assumes "sched_inv db" and "heartbeat clk wall jid worker secs db = Inr (u, db')"
  shows "sched_inv db'"
proof -
  let ?f = "\<lambda>j. j\<lparr>lease_until := wall + secs, updated_at := wall\<rparr>"
  have "sched_inv (db\<lparr>jobs := update_where (owned jid worker) ?f (jobs db)\<rparr>)"
    using assms(1) by (rule sched_inv_update) (auto simp: job_ok_def owned_def)
  then show ?thesis using assms(2)
    by (auto simp: heartbeat_def Let_def split: if_splits intro!: sched_inv_event
        dest: rowcount_owned_mem)
qed

lemma inv_complete:
  assumes "sched_inv db" and "complete clk wall jid worker res db = Inr db'"
  shows "sched_inv db'"
proof -
  let ?f = "\<lambda>j. j\<lparr>state := Succeeded, result := canon (PyDict (case res of None \<Rightarrow> [] | Some r \<Rightarrow> r)),
      lease_owner := '''', lease_until := 0, updated_at := wall\<rparr>"
  have "sched_inv (db\<lparr>jobs := update_where (owned jid worker) ?f (jobs db)\<rparr>)"
    using assms(1) by (rule sched_inv_update) (auto simp: job_ok_def)
  then show ?thesis using assms(2)
    by (auto simp: complete_def Let_def split: if_splits intro!: sched_inv_event
        dest: rowcount_owned_mem)
qed

lemma fail_Inr:
  assumes "fail clk wall jid worker err retryable base db = Inr (st, db')"
  obtains row sched ev pl where "row \<in> set (jobs db)" and "owned jid worker row"
    and "st = Queued \<and> retryable \<and> attempt row < max_attempts row \<or>
         st = DeadLetter \<and> attempt row \<ge> max_attempts row \<or>
         st = Failed \<and> \<not> retryable \<and> attempt row < max_attempts row"
    and "sched = (if st = Queued then wall + backoff base (attempt row) else wall)"
    and "ev \<noteq> ''claimed''"
    and "db' = add_event clk jid ev pl
      (db\<lparr>jobs := update_where (\<lambda>j. job_id j = jid)
        (\<lambda>j. j\<lparr>state := st, scheduled_at := sched, last_error := take 4096 err,
               lease_owner := '''', lease_until := 0, updated_at := wall\<rparr>) (jobs db)\<rparr>)"
proof -
  obtain row where row: "find (owned jid worker) (jobs db) = Some row"
    using assms by (auto simp: fail_def split: option.splits)
  show ?thesis
    using assms find_SomeD[OF row]
    by (intro that[of row "if st = Queued then wall + backoff base (attempt row) else wall"
          "if st = Queued then ''retry-scheduled'' else state_name st"
          "[(''attempt'', PyInt (attempt row)), (''error'', PyStr (take 512 err))]"])
      (auto simp: fail_def row Let_def split: if_splits)
qed

lemma inv_fail:
  assumes inv: "sched_inv db" and ok: "fail clk wall jid worker err retryable base db = Inr (st, db')"
  shows "sched_inv db'"
  using ok
proof (rule fail_Inr)
  fix row sched ev pl
  assume row: "row \<in> set (jobs db)" "owned jid worker row" and ev: "ev \<noteq> ''claimed''"
    and st: "st = Queued \<and> retryable \<and> attempt row < max_attempts row \<or>
         st = DeadLetter \<and> attempt row \<ge> max_attempts row \<or>
         st = Failed \<and> \<not> retryable \<and> attempt row < max_attempts row"
    and db': "db' = add_event clk jid ev pl
      (db\<lparr>jobs := update_where (\<lambda>j. job_id j = jid)
        (\<lambda>j. j\<lparr>state := st, scheduled_at := sched, last_error := take 4096 err,
               lease_owner := '''', lease_until := 0, updated_at := wall\<rparr>) (jobs db)\<rparr>)"
  have rid: "job_id row = jid" using row(2) by (simp add: owned_def)
  have same: "j = row" if "j \<in> set (jobs db)" "job_id j = jid" for j
    using distinct_key_eq[OF inv_distinct[OF inv] that(1) row(1)] that rid by simp
  have "sched_inv (db\<lparr>jobs := update_where (\<lambda>j. job_id j = jid)
        (\<lambda>j. j\<lparr>state := st, scheduled_at := sched, last_error := take 4096 err,
               lease_owner := '''', lease_until := 0, updated_at := wall\<rparr>) (jobs db)\<rparr>)"
    using inv by (rule sched_inv_update) (use same st in \<open>auto simp: job_ok_def\<close>)
  then show ?thesis unfolding db' by (rule sched_inv_event) (use row rid ev in auto)
qed

lemma inv_cancel:
  assumes "sched_inv db" and "cancel clk wall jid db = (b, db')"
  shows "sched_inv db'"
proof -
  let ?f = "\<lambda>j. j\<lparr>state := Cancelled, lease_owner := '''', lease_until := 0, updated_at := wall\<rparr>"
  let ?db = "db\<lparr>jobs := update_where (cancellable jid) ?f (jobs db)\<rparr>"
  have inv: "sched_inv ?db"
    using assms(1) by (rule sched_inv_update) (auto simp: job_ok_def)
  show ?thesis
  proof (cases "rowcount (cancellable jid) (jobs db) = 0")
    case True
    then show ?thesis using assms(2) inv by (simp add: cancel_def Let_def)
  next
    case False
    then obtain j where "j \<in> set (jobs db)" "job_id j = jid"
      by (auto simp: rowcount_def filter_empty_conv cancellable_def)
    then have "jid \<in> job_id ` set (jobs ?db)" by auto
    with inv show ?thesis using assms(2) False
      by (auto simp: cancel_def Let_def intro: sched_inv_event)
  qed
qed

text \<open>
  Reaping works on a snapshot of the expired rows; each row of the snapshot still has the
  attempt counters of the stored row when its turn comes.
\<close>

definition snapshot_of :: "sched_db \<Rightarrow> job list \<Rightarrow> bool" where
  "snapshot_of db rows \<longleftrightarrow>
     (\<forall>r \<in> set rows. job_id r \<in> set (map job_id (jobs db)) \<and>
        (\<forall>j \<in> set (jobs db). job_id j = job_id r \<longrightarrow>
           attempt j = attempt r \<and> max_attempts j = max_attempts r))"

lemma inv_reap_rows:
  "sched_inv db \<Longrightarrow> snapshot_of db rows \<Longrightarrow> sched_inv (reap_rows clk now rows db)"
proof (induction rows arbitrary: db)
  case Nil
  then show ?case by simp
next
  case (Cons row rows)
  let ?st = "if attempt row < max_attempts row then Queued else DeadLetter"
  let ?db1 = "db\<lparr>jobs := update_where (\<lambda>j. job_id j = job_id row)
                  (\<lambda>j. j\<lparr>state := ?st, lease_owner := '''', lease_until := 0,
                         scheduled_at := now, last_error := ''lease-expired'',
                         updated_at := now\<rparr>) (jobs db)\<rparr>"
  have ids: "map job_id (jobs ?db1) = map job_id (jobs db)" by simp
  have "sched_inv ?db1" using Cons.prems(1)
    by (rule sched_inv_update) (use Cons.prems(2) in \<open>auto simp: snapshot_of_def job_ok_def\<close>)
  moreover have "job_id row \<in> job_id ` set (jobs ?db1)"
    using Cons.prems(2) by (simp add: snapshot_of_def)
  ultimately have "sched_inv (add_event clk (job_id row) ''lease-expired''
      [(''next_state'', PyStr (state_name ?st))] ?db1)"
    by (rule sched_inv_event) simp
  moreover have "snapshot_of (add_event clk (job_id row) ''lease-expired''
      [(''next_state'', PyStr (state_name ?st))] ?db1) rows"
    using Cons.prems(2) unfolding snapshot_of_def add_event_simps ids
    by (auto simp: set_update_where split: if_splits)
  ultimately show ?case using Cons.IH by (simp add: Let_def)
qed

lemma snapshot_filter:
  "distinct (map job_id (jobs db)) \<Longrightarrow> snapshot_of db (filter P (jobs db))"
  unfolding snapshot_of_def by (auto dest: distinct_key_eq)

lemma inv_reap_expired: "sched_inv db \<Longrightarrow> sched_inv (snd (reap_expired clk now db))"
  by (simp add: reap_expired_def Let_def inv_reap_rows snapshot_filter inv_distinct)

text \<open>A claim raises the attempt counter of one queued row and logs it.\<close>

lemma inv_claim_row:
  assumes inv: "sched_inv db" and row: "row \<in> set (jobs db)" "state row = Queued" and w: "worker \<noteq> ''''"
  shows "sched_inv (add_event clk (job_id row) ''claimed'' pl
     (db\<lparr>jobs := update_where (\<lambda>j. job_id j = job_id row \<and> state j = Queued)
        (\<lambda>j. j\<lparr>state := Running, attempt := attempt row + 1, lease_owner := worker,
               lease_until := until, updated_at := now\<rparr>) (jobs db)\<rparr>))"
    (is "sched_inv (add_event _ _ _ _ (db\<lparr>jobs := ?js\<rparr>))")
proof -
  let ?P = "\<lambda>j. job_id j = job_id row \<and> state j = Queued"
  have same: "j = row" if "j \<in> set (jobs db)" "job_id j = job_id row" for j
    using distinct_key_eq[OF inv_distinct[OF inv] that(1) row(1)] that by simp
  have oks: "\<forall>j \<in> set ?js. job_ok j"
  proof (rule ball_update_where)
    show "\<forall>j \<in> set (jobs db). job_ok j" using inv_job_ok[OF inv] by blast
  qed (use inv_job_ok[OF inv row(1)] row(2) w in \<open>auto simp: job_ok_def dest!: same\<close>)
  have att: "attempt j = int (claims_of (job_id j) (events db)) +
        (if job_id j = job_id row then 1 else 0)" if "j \<in> set ?js" for j
  proof -
    obtain x where "x \<in> set (jobs db)" and "j = (if ?P x
        then x\<lparr>state := Running, attempt := attempt row + 1, lease_owner := worker,
               lease_until := until, updated_at := now\<rparr> else x)"
      using \<open>j \<in> set ?js\<close> by (auto simp: set_update_where)
    then show ?thesis using inv_attempt[OF inv \<open>x \<in> set (jobs db)\<close>] same[of x] row(2) by auto
  qed
  have new: "claims_of x [\<lparr>ev_sequence = n, ev_job_id = job_id row, ev_event = ''claimed'',
      ev_payload = q, ev_created_at = t\<rparr>] = (if x = job_id row then 1 else 0)" for x n q t
    by (simp add: claims_of_def)
  show ?thesis using inv oks row(1) unfolding sched_inv_def
    by (simp add: events_add_event new att)
qed

lemma inv_claim:
  assumes inv: "sched_inv db"
    and ok: "claim clk wall worker secs conc classes now db = Inr (l, db')"
  shows "sched_inv db'"
proof -
  let ?t = "case now of None \<Rightarrow> wall | Some t \<Rightarrow> t"
  let ?db1 = "snd (reap_expired clk ?t db)"
  have w: "worker \<noteq> ''''" using ok by (auto simp: claim_def split: if_splits)
  have inv1: "sched_inv ?db1" using inv by (rule inv_reap_expired)
  show ?thesis
  proof (cases "first_min (claim_key ?db1) (filter (ready ?db1 ?t conc classes) (jobs ?db1))")
    case None
    then show ?thesis using ok inv1 by (auto simp: claim_def Let_def split: if_splits)
  next
    case (Some row)
    then have row: "row \<in> set (jobs ?db1)" "state row = Queued"
      by (auto dest!: first_min_in simp: ready_def)
    then have "rowcount (\<lambda>j. job_id j = job_id row \<and> state j = Queued) (jobs ?db1) = 1"
      using rowcount_key[OF inv_distinct[OF inv1] row(1), of "\<lambda>j. state j = Queued"] by simp
    then show ?thesis
      using ok Some inv_claim_row[OF inv1 row w]
      by (auto simp: claim_def Let_def split: if_splits)
  qed
qed

lemma row_index_append: "x \<in> set ids \<Longrightarrow> row_index (ids @ ys) x = row_index ids x"
  by (simp add: row_index_def takeWhile_append1)

lemma row_index_new: "x \<notin> set ids \<Longrightarrow> row_index (ids @ [x]) x = length ids"
proof -
  assume "x \<notin> set ids"
  then have "takeWhile (\<lambda>y. y \<noteq> x) (ids @ [x]) = ids @ takeWhile (\<lambda>y. y \<noteq> x) [x]"
    by (intro takeWhile_append2) auto
  then show ?thesis by (simp add: row_index_def)
qed

lemma row_index_less: "x \<in> set ids \<Longrightarrow> row_index ids x < length ids"
  unfolding row_index_def by (induction ids) auto

lemma submit_Inr:
  assumes "submit clk wall fresh spec jid sched db = Inr (i, db')"
  shows "i = (if jid = '''' then ''job-'' @ fresh else jid)"
    and "validate_spec spec = None"
    and "i \<notin> job_id ` set (jobs db)"
    and "set (spec_dependencies spec) \<subseteq> job_id ` set (jobs db)"
    and "db' = add_event clk i ''submitted'' [(''priority'', PyInt (spec_priority spec))]
           (db\<lparr>jobs := jobs db @ [new_job spec i sched wall],
               deps := deps db @ map (\<lambda>d. (i, d)) (spec_dependencies spec)\<rparr>)"
  using assms
  by (auto simp: submit_def Let_def find_None_iff split: option.splits if_splits)

lemma claims_of_unknown:
  assumes "sched_inv db" and "i \<notin> job_id ` set (jobs db)"
  shows "claims_of i (events db) = 0"
  using assms by (auto simp: claims_of_def sched_inv_def filter_empty_conv)

lemma inv_submit:
  assumes inv: "sched_inv db"
    and ok: "submit clk wall fresh spec jid sched db = Inr (i, db')"
  shows "sched_inv db'"
proof -
  note S = submit_Inr[OF ok]
  let ?ids = "map job_id (jobs db)" and ?j = "new_job spec i sched wall"
  have new: "job_id ?j = i" "attempt ?j = 0" by (simp_all add: new_job_def)
  have ok_new: "job_ok ?j"
    using S(2) by (auto simp: job_ok_def new_job_def validate_spec_def split: if_splits)
  have edges: "a \<in> set (?ids @ [i]) \<and> d \<in> set (?ids @ [i]) \<and>
      row_index (?ids @ [i]) d < row_index (?ids @ [i]) a"
    if "(a, d) \<in> set (deps db @ map (\<lambda>d. (i, d)) (spec_dependencies spec))" for a d
  proof (cases "(a, d) \<in> set (deps db)")
    case True
    then show ?thesis using inv by (auto simp: sched_inv_def row_index_append)
  next
    case False
    with that S(4) have "a = i" "d \<in> set ?ids" by auto
    then show ?thesis using S(3) using row_index_less[of d ?ids]
      by (simp add: row_index_append row_index_new)
  qed
  have "\<forall>e \<in> set (events db'). ev_job_id e \<in> set (map job_id (jobs db'))"
    using inv by (auto simp: S(5) events_add_event sched_inv_def new)
  moreover have "\<forall>j \<in> set (jobs db'). attempt j = int (claims_of (job_id j) (events db'))"
    using inv claims_of_unknown[OF inv S(3)]
    by (auto simp: S(5) events_add_event sched_inv_def new claims_of_def)
  moreover have "distinct (map job_id (jobs db'))"
    using inv S(3) by (simp add: S(5) new sched_inv_def)
  moreover have "\<forall>(a, d) \<in> set (deps db'). a \<in> set (map job_id (jobs db')) \<and>
        d \<in> set (map job_id (jobs db')) \<and>
        row_index (map job_id (jobs db')) d < row_index (map job_id (jobs db')) a"
    using edges by (auto simp: S(5) new)
  ultimately show ?thesis using inv ok_new
    by (simp add: sched_inv_def S(5) events_add_event)
qed

lemma sched_inv_empty: "sched_inv empty_db"
  by (simp add: sched_inv_def empty_db_def)

lemma sched_step_inv: "sched_step db db' \<Longrightarrow> sched_inv db \<Longrightarrow> sched_inv db'"
proof (induction rule: sched_step.induct)
  case (step_reap clk wall db n db')
  then show ?case using inv_reap_expired[of db clk wall] by (simp add: reap_def)
qed (blast intro: inv_submit inv_claim inv_heartbeat inv_complete inv_fail inv_cancel)+

interpretation sched: stateful "\<lambda>db. db = empty_db" sched_step sched_inv
  by unfold_locales (auto simp: sched_inv_empty intro: sched_step_inv)

abbreviation sched_reachable :: "sched_db \<Rightarrow> bool" where
  "sched_reachable \<equiv> reaches (\<lambda>db. db = empty_db) sched_step"

section \<open>The life cycle of a job\<close>

text \<open>
  The abstract state machine the scheduler implements.  What it sees of a job is its state, the
  number of attempts and the worker that holds the lease; \<open>m\<close> is the number of attempts allowed.
  A claim uses up an attempt, only a running job ends in success, and a job that gives up its lease
  without success goes back to the queue only while attempts are left.
\<close>

type_synonym job_view = "job_state \<times> int \<times> string"

definition life_of :: "job \<Rightarrow> job_view" where
  "life_of j = (state j, attempt j, lease_owner j)"

inductive life :: "int \<Rightarrow> job_view \<Rightarrow> job_view \<Rightarrow> bool" for m :: int where
  life_claim: "a < m \<Longrightarrow> w \<noteq> '''' \<Longrightarrow> life m (Queued, a, '''') (Running, a + 1, w)"
| life_cancel_queued: "life m (Queued, a, '''') (Cancelled, a, '''')"
| life_requeue: "a < m \<Longrightarrow> life m (Running, a, w) (Queued, a, '''')"
| life_succeed: "life m (Running, a, w) (Succeeded, a, '''')"
| life_fail: "a < m \<Longrightarrow> life m (Running, a, w) (Failed, a, '''')"
| life_bury: "m \<le> a \<Longrightarrow> life m (Running, a, w) (DeadLetter, a, '''')"
| life_cancel_running: "life m (Running, a, w) (Cancelled, a, '''')"

inductive_simps life_from:
  "life m (Queued, a, w) v" "life m (Running, a, w) v" "life m (Succeeded, a, w) v" "life m (Failed, a, w) v"
  "life m (DeadLetter, a, w) v" "life m (Cancelled, a, w) v"

definition terminal :: "job_state \<Rightarrow> bool" where
  "terminal s \<longleftrightarrow> s = Succeeded \<or> s = Failed \<or> s = DeadLetter \<or> s = Cancelled"

text \<open>
  One operation moves a job along one transition or leaves it where it is; only a claim may make
  two, when it requeues a job whose lease has expired and grants it again.
\<close>

definition one_move :: "int \<Rightarrow> job_view \<Rightarrow> job_view \<Rightarrow> bool" where
  "one_move m v v' \<longleftrightarrow> v' = v \<or> life m v v' \<or> (fst v' = Running \<and> (\<exists>q. fst q = Queued \<and> life m v q \<and> life m q v'))"

definition row_moves :: "job \<Rightarrow> job \<Rightarrow> bool" where
  "row_moves j j' \<longleftrightarrow>
     job_id j' = job_id j \<and> max_attempts j' = max_attempts j \<and>
     one_move (max_attempts j) (life_of j) (life_of j') \<and> (terminal (state j) \<longrightarrow> j' = j)"

definition moves :: "job list \<Rightarrow> job list \<Rightarrow> bool" where
  "moves js js' \<longleftrightarrow> list_all2 row_moves js js' \<or> (\<exists>n. life_of n = (Queued, 0, '''') \<and> js' = js @ [n])"

definition row_evolves :: "job \<Rightarrow> job \<Rightarrow> bool" where
  "row_evolves j j' \<longleftrightarrow>
     job_id j' = job_id j \<and> max_attempts j' = max_attempts j \<and>
     (life (max_attempts j))\<^sup>*\<^sup>* (life_of j) (life_of j') \<and> (terminal (state j) \<longrightarrow> j' = j)"

definition evolves :: "job list \<Rightarrow> job list \<Rightarrow> bool" where
  "evolves js js' \<longleftrightarrow> (\<exists>ms ns. js' = ms @ ns \<and> list_all2 row_evolves js ms)"

lemma row_evolves_refl [simp]: "row_evolves j j"
  by (simp add: row_evolves_def)

lemma row_evolves_trans: "row_evolves i j \<Longrightarrow> row_evolves j k \<Longrightarrow> row_evolves i k"
  by (auto simp: row_evolves_def intro: rtranclp_trans)

lemma row_moves_refl [simp]: "row_moves j j"
  by (simp add: row_moves_def one_move_def)

lemma row_movesI:
  "job_id j' = job_id j \<Longrightarrow> max_attempts j' = max_attempts j \<Longrightarrow> life (max_attempts j) (life_of j) (life_of j') \<Longrightarrow>
   \<not> terminal (state j) \<Longrightarrow> row_moves j j'"
  by (simp add: row_moves_def one_move_def)

lemma one_move_run: "one_move m v v' \<Longrightarrow> (life m)\<^sup>*\<^sup>* v v'"
  unfolding one_move_def by (auto intro: converse_rtranclp_into_rtranclp)

lemma row_moves_evolves: "row_moves j j' \<Longrightarrow> row_evolves j j'"
  by (simp add: row_moves_def row_evolves_def one_move_run)

lemma evolves_refl [simp]: "evolves js js"
  unfolding evolves_def by (intro exI[of _ js] exI[of _ "[]"]) (simp add: list_all2_refl)

lemma evolves_append [simp]: "evolves js (js @ ns)"
  unfolding evolves_def by (intro exI[of _ js] exI[of _ ns]) (simp add: list_all2_refl)

lemma evolves_trans:
  assumes "evolves as bs" and "evolves bs cs" shows "evolves as cs"
proof -
  obtain ms ns where bs: "bs = ms @ ns" "list_all2 row_evolves as ms"
    using assms(1) by (auto simp: evolves_def)
  obtain us vs where cs: "cs = us @ vs" "list_all2 row_evolves bs us"
    using assms(2) by (auto simp: evolves_def)
  then obtain xs ys where us: "us = xs @ ys" "list_all2 row_evolves ms xs"
    using bs(1) by (auto simp: list_all2_append1)
  have "list_all2 row_evolves as xs"
    using bs(2) us(2) by (rule list_all2_trans[rotated]) (rule row_evolves_trans)
  then show ?thesis using us(1) cs(1) unfolding evolves_def
    by (intro exI[of _ xs] exI[of _ "ys @ vs"]) simp
qed

lemma evolves_mem:
  assumes "evolves js js'" and "j \<in> set js" shows "\<exists>j' \<in> set js'. row_evolves j j'"
proof -
  obtain ms ns where "js' = ms @ ns" "list_all2 row_evolves js ms"
    using assms(1) by (auto simp: evolves_def)
  then show ?thesis using list_all2_mem[OF _ assms(2)] by fastforce
qed

lemma moves_evolves: "moves js js' \<Longrightarrow> evolves js js'"
  unfolding moves_def
proof (elim disjE exE conjE)
  assume "list_all2 row_moves js js'"
  then have "list_all2 row_evolves js js'" by (rule list_all2_mono) (rule row_moves_evolves)
  then show "evolves js js'" unfolding evolves_def by (intro exI[of _ js'] exI[of _ "[]"]) simp
qed simp

lemma all2_update:
  assumes "\<And>j. R j j" and "\<And>j. j \<in> set js \<Longrightarrow> P j \<Longrightarrow> R j (f j)"
  shows "list_all2 R js (update_where P f js)"
  using assms(2) by (induction js) (auto simp: assms(1))

lemma moves_update:
  assumes "\<And>j. j \<in> set js \<Longrightarrow> P j \<Longrightarrow> row_moves j (f j)"
  shows "moves js (update_where P f js)"
  unfolding moves_def using assms by (intro disjI1 all2_update) auto

text \<open>Reaping only touches the running rows of its snapshot, and each of them once.\<close>

definition running_ids :: "job list \<Rightarrow> job list \<Rightarrow> bool" where
  "running_ids rows js \<longleftrightarrow> distinct (map job_id rows) \<and>
     (\<forall>r \<in> set rows. \<forall>j \<in> set js. job_id j = job_id r \<longrightarrow>
        state j = Running \<and> attempt j = attempt r \<and> max_attempts j = max_attempts r)"

definition row_reaped :: "job \<Rightarrow> job \<Rightarrow> bool" where
  "row_reaped j j' \<longleftrightarrow> j' = j \<or>
     (state j = Running \<and> job_id j' = job_id j \<and> max_attempts j' = max_attempts j \<and>
      life_of j' = (if attempt j < max_attempts j then Queued else DeadLetter, attempt j, ''''))"

lemma row_reaped_refl [simp]: "row_reaped j j"
  by (simp add: row_reaped_def)

lemma row_reaped_trans: "row_reaped i j \<Longrightarrow> row_reaped j k \<Longrightarrow> row_reaped i k"
  by (auto simp: row_reaped_def life_of_def split: if_splits)

lemma row_reaped_moves: "row_reaped j j' \<Longrightarrow> row_moves j j'"
  by (auto simp: row_reaped_def row_moves_def one_move_def terminal_def life_of_def life_from split: if_splits)

lemma reap_rows_all2:
  "running_ids rows (jobs db) \<Longrightarrow> list_all2 row_reaped (jobs db) (jobs (reap_rows clk now rows db))"
proof (induction rows arbitrary: db)
  case Nil
  then show ?case by (simp add: list_all2_refl)
next
  case (Cons row rows)
  let ?st = "if attempt row < max_attempts row then Queued else DeadLetter"
  let ?js = "update_where (\<lambda>j. job_id j = job_id row)
                  (\<lambda>j. j\<lparr>state := ?st, lease_owner := '''', lease_until := 0,
                         scheduled_at := now, last_error := ''lease-expired'',
                         updated_at := now\<rparr>) (jobs db)"
  have "list_all2 row_reaped (jobs db) ?js"
    using Cons.prems
    by (intro all2_update row_reaped_refl) (auto simp: running_ids_def row_reaped_def life_of_def)
  moreover have "running_ids rows ?js"
    using Cons.prems by (auto simp: running_ids_def set_update_where image_iff split: if_splits)
  then have "list_all2 row_reaped ?js (jobs (reap_rows clk now (row # rows) db))"
    using Cons.IH[of "add_event clk (job_id row) ''lease-expired''
        [(''next_state'', PyStr (state_name ?st))] (db\<lparr>jobs := ?js\<rparr>)"]
    by (simp add: Let_def)
  ultimately show ?case by (rule list_all2_trans[rotated]) (rule row_reaped_trans)
qed

lemma running_ids_filter:
  assumes "distinct (map job_id js)" shows "running_ids (filter (expired now) js) js"
  using assms unfolding running_ids_def
  by (auto simp: distinct_map_filter expired_def dest: distinct_key_eq)

lemma reap_all2:
  "sched_inv db \<Longrightarrow> list_all2 row_reaped (jobs db) (jobs (snd (reap_expired clk now db)))"
  by (simp add: reap_expired_def Let_def reap_rows_all2 running_ids_filter inv_distinct)

lemma moves_reap: "sched_inv db \<Longrightarrow> moves (jobs db) (jobs (snd (reap_expired clk now db)))"
  unfolding moves_def by (intro disjI1 list_all2_mono[OF reap_all2]) (auto intro: row_reaped_moves)

lemma evolves_reap:
  "sched_inv db \<Longrightarrow> evolves (jobs db) (jobs (snd (reap_expired clk now db)))"
  by (intro moves_evolves moves_reap)

text \<open>
  What a successful claim did: \<open>row\<close> is a minimal ready row of the reaped database, and exactly
  its row is rewritten.
\<close>

definition claimed_row :: "job \<Rightarrow> string \<Rightarrow> rat \<Rightarrow> rat \<Rightarrow> job" where
  "claimed_row row worker until now =
     row\<lparr>state := Running, attempt := attempt row + 1, lease_owner := worker,
         lease_until := until, updated_at := now\<rparr>"

lemma claim_Some:
  assumes inv: "sched_inv db"
    and ok: "claim clk wall worker secs conc classes now db = Inr (Some l, db')"
  defines "t \<equiv> (case now of None \<Rightarrow> wall | Some t \<Rightarrow> t)"
  defines "db1 \<equiv> snd (reap_expired clk t db)"
  obtains row where "row \<in> set (jobs db1)" and "ready db1 t conc classes row"
    and "\<And>j. j \<in> set (jobs db1) \<Longrightarrow> ready db1 t conc classes j \<Longrightarrow> claim_key db1 row \<le> claim_key db1 j"
    and "jobs db' = map (\<lambda>j. if j = row then claimed_row row worker (t + secs) t else j) (jobs db1)"
    and "lease_job_id l = job_id row" and "lease_attempt l = attempt row + 1"
    and "lease_argv l = argv row" and "lease_worker l = worker" and "lease_expiry l = t + secs"
    and "deps db' = deps db1"
proof -
  have inv1: "sched_inv db1" unfolding db1_def using inv by (rule inv_reap_expired)
  obtain row where sel:
      "first_min (claim_key db1) (filter (ready db1 t conc classes) (jobs db1)) = Some row"
    using ok by (auto simp: claim_def Let_def db1_def t_def split: if_splits option.splits)
  then have row: "row \<in> set (jobs db1)" "ready db1 t conc classes row"
    and least: "\<And>j. j \<in> set (jobs db1) \<Longrightarrow> ready db1 t conc classes j \<Longrightarrow>
        claim_key db1 row \<le> claim_key db1 j"
    by (auto dest!: first_min_Some)
  have hit: "job_id j = job_id row \<and> state j = Queued \<longleftrightarrow> j = row" if "j \<in> set (jobs db1)" for j
    using distinct_key_eq[OF inv_distinct[OF inv1] that row(1)] row(2) by (auto simp: ready_def)
  have upd: "update_where (\<lambda>j. job_id j = job_id row \<and> state j = Queued) f (jobs db1) =
      map (\<lambda>j. if j = row then f j else j) (jobs db1)" for f
    unfolding update_where_def using hit by (intro map_cong) auto
  have "rowcount (\<lambda>j. job_id j = job_id row \<and> state j = Queued) (jobs db1) = 1"
    using rowcount_key[OF inv_distinct[OF inv1] row(1), of "\<lambda>j. state j = Queued"] row(2)
    by (simp add: ready_def)
  then have "db' = add_event clk (job_id row) ''claimed''
        [(''worker'', PyStr worker), (''attempt'', PyInt (attempt row + 1))]
        (db1\<lparr>jobs := update_where (\<lambda>j. job_id j = job_id row \<and> state j = Queued)
           (\<lambda>j. j\<lparr>state := Running, attempt := attempt row + 1, lease_owner := worker,
                  lease_until := t + secs, updated_at := t\<rparr>) (jobs db1)\<rparr>)"
    and l: "lease_job_id l = job_id row" "lease_attempt l = attempt row + 1"
      "lease_argv l = argv row" "lease_worker l = worker" "lease_expiry l = t + secs"
    using ok sel unfolding claim_def Let_def t_def[symmetric] db1_def[symmetric]
    by (auto split: if_splits)
  then have "jobs db' = map (\<lambda>j. if j = row then claimed_row row worker (t + secs) t else j) (jobs db1)"
    and "deps db' = deps db1"
    by (simp_all only: add_event_simps upd sched_db.simps) (auto simp: claimed_row_def)
  then show ?thesis using row least l by (intro that) auto
qed

lemma claim_None:
  assumes inv: "sched_inv db"
    and ok: "claim clk wall worker secs conc classes now db = Inr (None, db')"
  defines "t \<equiv> (case now of None \<Rightarrow> wall | Some t \<Rightarrow> t)"
  defines "db1 \<equiv> snd (reap_expired clk t db)"
  shows "db' = db1 \<and> (\<forall>j \<in> set (jobs db1). \<not> ready db1 t conc classes j)"
proof (cases "first_min (claim_key db1) (filter (ready db1 t conc classes) (jobs db1))")
  case None
  then show ?thesis using ok
    by (auto simp: claim_def Let_def t_def[symmetric] db1_def[symmetric] filter_empty_conv split: if_splits)
next
  case (Some row)
  have inv1: "sched_inv db1" unfolding db1_def using inv by (rule inv_reap_expired)
  have row: "row \<in> set (jobs db1)" "state row = Queued"
    using Some by (auto dest!: first_min_in simp: ready_def)
  have "rowcount (\<lambda>j. job_id j = job_id row \<and> state j = Queued) (jobs db1) = 1"
    using rowcount_key[OF inv_distinct[OF inv1] row(1), of "\<lambda>j. state j = Queued"] row(2) by simp
  then show ?thesis using ok Some
    by (auto simp: claim_def Let_def t_def[symmetric] db1_def[symmetric] split: if_splits)
qed

lemma claimed_moves:
  assumes "row_reaped i j" and "job_ok i" and "job_ok j" and "state j = Queued" and "worker \<noteq> ''''"
  shows "row_moves i (claimed_row j worker until now)"
proof -
  let ?c = "claimed_row j worker until now"
  have claim: "life (max_attempts j) (life_of j) (life_of ?c)"
    using assms(3-5) by (simp add: life_of_def claimed_row_def job_ok_def life_from)
  have keep: "max_attempts j = max_attempts i" "job_id j = job_id i" "\<not> terminal (state i)"
    using assms(1,4) by (auto simp: row_reaped_def terminal_def)
  have same: "job_id ?c = job_id j" "max_attempts ?c = max_attempts j" by (simp_all add: claimed_row_def)
  have "one_move (max_attempts i) (life_of i) (life_of ?c)"
  proof (cases "j = i")
    case True
    then show ?thesis using claim by (simp add: one_move_def)
  next
    case False
    then have "life (max_attempts i) (life_of i) (life_of j)" "fst (life_of j) = Queued"
      using assms(1,4) by (auto simp: row_reaped_def life_of_def life_from split: if_splits)
    moreover have "fst (life_of ?c) = Running" by (simp add: life_of_def claimed_row_def)
    ultimately show ?thesis using claim keep(1) unfolding one_move_def by metis
  qed
  then show ?thesis using keep same by (simp add: row_moves_def)
qed

lemma moves_claim:
  assumes inv: "sched_inv db"
    and ok: "claim clk wall worker secs conc classes now db = Inr (l, db')"
  shows "moves (jobs db) (jobs db')"
proof (cases l)
  case None
  then have "claim clk wall worker secs conc classes now db = Inr (None, db')" using ok by simp
  from claim_None[OF inv this] show ?thesis using moves_reap[OF inv] by simp
next
  case (Some lease)
  let ?db1 = "snd (reap_expired clk (case now of None \<Rightarrow> wall | Some t \<Rightarrow> t) db)"
  have worker: "worker \<noteq> ''''" using ok by (auto simp: claim_def split: if_splits)
  have inv1: "sched_inv ?db1" using inv by (rule inv_reap_expired)
  obtain row u t where ready: "state row = Queued" and
      js: "jobs db' = map (\<lambda>j. if j = row then claimed_row row worker u t else j) (jobs ?db1)"
    by (rule claim_Some[OF inv ok[unfolded Some]]) (erule that[rotated], simp add: ready_def)
  have "list_all2 row_moves (jobs db) (jobs db')"
    unfolding js list_all2_map2
  proof (rule list.rel_mono_strong[OF reap_all2[OF inv]])
    fix i j
    assume "i \<in> set (jobs db)" and "j \<in> set (jobs ?db1)" and r: "row_reaped i j"
    then show "row_moves i (if j = row then claimed_row row worker u t else j)"
      using claimed_moves[OF r inv_job_ok[OF inv] inv_job_ok[OF inv1]] ready worker row_reaped_moves[OF r] by auto
  qed
  then show ?thesis by (simp add: moves_def)
qed

lemma moves_fail:
  assumes inv: "sched_inv db" and ok: "fail clk wall jid worker err retryable base db = Inr (st, db')"
  shows "moves (jobs db) (jobs db')"
  using ok
proof (rule fail_Inr)
  fix row sched ev pl
  assume row: "row \<in> set (jobs db)" "owned jid worker row"
    and st: "st = Queued \<and> retryable \<and> attempt row < max_attempts row \<or>
         st = DeadLetter \<and> attempt row \<ge> max_attempts row \<or>
         st = Failed \<and> \<not> retryable \<and> attempt row < max_attempts row"
    and db': "db' = add_event clk jid ev pl
      (db\<lparr>jobs := update_where (\<lambda>j. job_id j = jid)
        (\<lambda>j. j\<lparr>state := st, scheduled_at := sched, last_error := take 4096 err,
               lease_owner := '''', lease_until := 0, updated_at := wall\<rparr>) (jobs db)\<rparr>)"
  have same: "j = row" if "j \<in> set (jobs db)" "job_id j = jid" for j
    using distinct_key_eq[OF inv_distinct[OF inv] that(1) row(1)] that row(2) by (simp add: owned_def)
  have "state row = Running" using row(2) by (simp add: owned_def)
  then have "moves (jobs db) (update_where (\<lambda>j. job_id j = jid)
        (\<lambda>j. j\<lparr>state := st, scheduled_at := sched, last_error := take 4096 err,
               lease_owner := '''', lease_until := 0, updated_at := wall\<rparr>) (jobs db))"
    using st by (intro moves_update row_movesI) (auto simp: terminal_def life_of_def life_from dest!: same)
  then show ?thesis by (simp add: db')
qed

lemma sched_step_moves:
  "sched_step db db' \<Longrightarrow> sched_inv db \<Longrightarrow> moves (jobs db) (jobs db')"
proof (induction rule: sched_step.induct)
  case (step_submit clk wall fresh spec jid sched db i db')
  from submit_Inr(5)[OF step_submit(1)] show ?case
    by (auto simp: moves_def life_of_def new_job_def)
next
  case (step_heartbeat clk wall jid worker secs db u db')
  then show ?case
    by (auto simp: heartbeat_def Let_def owned_def terminal_def row_moves_def one_move_def life_of_def
        split: if_splits intro!: moves_update)
next
  case (step_complete clk wall jid worker res db db')
  then show ?case
    by (auto simp: complete_def Let_def owned_def terminal_def life_of_def life_from split: if_splits
        intro!: moves_update row_movesI)
next
  case (step_cancel clk wall jid db b db')
  then have "moves (jobs db) (update_where (cancellable jid)
      (\<lambda>j. j\<lparr>state := Cancelled, lease_owner := '''', lease_until := 0, updated_at := wall\<rparr>) (jobs db))"
    by (intro moves_update row_movesI)
      (auto simp: cancellable_def terminal_def life_of_def life_from job_ok_def dest: inv_job_ok)
  then show ?case using step_cancel by (auto simp: cancel_def Let_def split: if_splits)
next
  case (step_reap clk wall db n db')
  then show ?case using moves_reap[of db clk wall] by (simp add: reap_def)
qed (blast intro: moves_claim moves_fail)+

lemma sched_step_evolves:
  "sched_step db db' \<Longrightarrow> sched_inv db \<Longrightarrow> evolves (jobs db) (jobs db')"
  by (intro moves_evolves sched_step_moves)

lemma moves_mem: "moves js js' \<Longrightarrow> j \<in> set js \<Longrightarrow> \<exists>j' \<in> set js'. row_moves j j'"
  unfolding moves_def using list_all2_mem by fastforce

lemma sched_steps_evolve:
  assumes "sched_step\<^sup>*\<^sup>* db db'" and "sched_inv db" shows "evolves (jobs db) (jobs db')"
  using assms(1)
proof (induction rule: rtranclp_induct)
  case (step t u)
  then show ?case using sched.steps_inv[OF assms(2)] sched_step_evolves evolves_trans by blast
qed simp

section \<open>Dependents of a job that did not succeed\<close>

definition quiet :: "string \<Rightarrow> job list \<Rightarrow> bool" where
  "quiet a js \<longleftrightarrow> (\<forall>j \<in> set js. job_id j = a \<longrightarrow> state j = Queued \<or> state j = Cancelled)"

definition blocked :: "string \<Rightarrow> string \<Rightarrow> sched_db \<Rightarrow> bool" where
  "blocked a d db \<longleftrightarrow>
     (a, d) \<in> set (deps db) \<and> quiet a (jobs db) \<and> a \<in> job_id ` set (jobs db) \<and>
     (\<exists>j \<in> set (jobs db). job_id j = d \<and> terminal (state j) \<and> state j \<noteq> Succeeded)"

lemma quiet_update:
  assumes "quiet a js"
    and "\<And>j. j \<in> set js \<Longrightarrow> P j \<Longrightarrow> job_id j = a \<Longrightarrow> state j \<noteq> Running \<Longrightarrow>
           state (f j) = Queued \<or> state (f j) = Cancelled"
    and "\<And>j. job_id (f j) = job_id j"
  shows "quiet a (update_where P f js)"
  unfolding quiet_def
proof (rule ball_update_where)
  fix j
  assume j: "j \<in> set js" "P j" "job_id j = a \<longrightarrow> state j = Queued \<or> state j = Cancelled"
  show "job_id (f j) = a \<longrightarrow> state (f j) = Queued \<or> state (f j) = Cancelled"
  proof
    assume "job_id (f j) = a"
    then have "job_id j = a" using assms(3)[of j] by simp
    moreover from this have "state j \<noteq> Running" using j(3) by auto
    ultimately show "state (f j) = Queued \<or> state (f j) = Cancelled" using j assms(2)[of j] by blast
  qed
qed (use assms(1) in \<open>simp add: quiet_def\<close>)

lemma quiet_reap_rows:
  "running_ids rows (jobs db) \<Longrightarrow> quiet a (jobs db) \<Longrightarrow> quiet a (jobs (reap_rows clk now rows db))"
proof (induction rows arbitrary: db)
  case Nil
  then show ?case by simp
next
  case (Cons row rows)
  let ?st = "if attempt row < max_attempts row then Queued else DeadLetter"
  let ?js = "update_where (\<lambda>j. job_id j = job_id row)
                  (\<lambda>j. j\<lparr>state := ?st, lease_owner := '''', lease_until := 0,
                         scheduled_at := now, last_error := ''lease-expired'',
                         updated_at := now\<rparr>) (jobs db)"
  have "quiet a ?js"
    using Cons.prems by (intro quiet_update) (auto simp: running_ids_def)
  moreover have "running_ids rows ?js"
    using Cons.prems by (auto simp: running_ids_def set_update_where image_iff split: if_splits)
  ultimately show ?case
    using Cons.IH[of "add_event clk (job_id row) ''lease-expired''
        [(''next_state'', PyStr (state_name ?st))] (db\<lparr>jobs := ?js\<rparr>)"]
    by (simp add: Let_def)
qed

lemma deps_reap_rows [simp]: "deps (reap_rows clk now rows db) = deps db"
  by (induction rows arbitrary: db) (auto simp: Let_def)

lemma reap_expired_quiet:
  "sched_inv db \<Longrightarrow> quiet a (jobs db) \<Longrightarrow> quiet a (jobs (snd (reap_expired clk now db)))"
  "deps (snd (reap_expired clk now db)) = deps db"
  by (simp_all add: reap_expired_def Let_def quiet_reap_rows running_ids_filter inv_distinct)

lemma terminal_persists:
  assumes "evolves js js'" and "j \<in> set js" and "terminal (state j)"
  shows "j \<in> set js'"
  using evolves_mem[OF assms(1,2)] assms(3) by (auto simp: row_evolves_def)

lemma quiet_claim:
  assumes inv: "sched_inv db" and b: "blocked a d db"
    and ok: "claim clk wall worker secs conc classes now db = Inr (l, db')"
  shows "quiet a (jobs db') \<and> deps db' = deps db"
proof -
  define t where "t = (case now of None \<Rightarrow> wall | Some t \<Rightarrow> t)"
  define db1 where "db1 = snd (reap_expired clk t db)"
  have q1: "quiet a (jobs db1)" and d1: "deps db1 = deps db"
    using b inv by (simp_all add: db1_def reap_expired_quiet blocked_def)
  obtain x where x: "x \<in> set (jobs db)" "job_id x = d" "terminal (state x)" "state x \<noteq> Succeeded"
    using b by (auto simp: blocked_def)
  have x1: "x \<in> set (jobs db1)"
    unfolding db1_def using evolves_reap[OF inv] x(1,3) by (rule terminal_persists)
  show ?thesis
  proof (cases l)
    case None
    then have "db' = db1"
      using claim_None[OF inv ok[unfolded None]] by (simp add: db1_def t_def)
    then show ?thesis using q1 d1 by simp
  next
    case (Some lease)
    show ?thesis
    proof (rule claim_Some[OF inv ok[unfolded Some], folded t_def, folded db1_def])
      fix row
      assume row: "row \<in> set (jobs db1)" "ready db1 t conc classes row"
        and js: "jobs db' = map (\<lambda>j. if j = row then claimed_row row worker (t + secs) t else j) (jobs db1)"
        and deps: "deps db' = deps db1"
      have "job_id row \<noteq> a"
        using row(2) b x1 x(2,4) d1 by (auto simp: ready_def deps_met_def blocked_def)
      then show ?thesis using q1 js deps d1 by (auto simp: quiet_def claimed_row_def)
    qed
  qed
qed

lemma quiet_fail:
  assumes inv: "sched_inv db" and q: "quiet a (jobs db)"
    and ok: "fail clk wall jid worker err retryable base db = Inr (st, db')"
  shows "quiet a (jobs db') \<and> deps db' = deps db"
  using ok
proof (rule fail_Inr)
  fix row sched ev pl
  assume row: "row \<in> set (jobs db)" "owned jid worker row"
    and db': "db' = add_event clk jid ev pl
      (db\<lparr>jobs := update_where (\<lambda>j. job_id j = jid)
        (\<lambda>j. j\<lparr>state := st, scheduled_at := sched, last_error := take 4096 err,
               lease_owner := '''', lease_until := 0, updated_at := wall\<rparr>) (jobs db)\<rparr>)"
  have "jid \<noteq> a" using row q by (auto simp: quiet_def owned_def)
  then have "quiet a (update_where (\<lambda>j. job_id j = jid)
        (\<lambda>j. j\<lparr>state := st, scheduled_at := sched, last_error := take 4096 err,
               lease_owner := '''', lease_until := 0, updated_at := wall\<rparr>) (jobs db))"
    using q by (intro quiet_update) auto
  then show ?thesis by (simp add: db')
qed

lemma sched_step_quiet:
  "sched_step db db' \<Longrightarrow> sched_inv db \<Longrightarrow> blocked a d db \<Longrightarrow>
   quiet a (jobs db') \<and> (a, d) \<in> set (deps db')"
proof (induction rule: sched_step.induct)
  case (step_submit clk wall fresh spec jid sched db i db')
  have "i \<noteq> a" using submit_Inr(3)[OF step_submit(1)] step_submit(3) by (auto simp: blocked_def)
  moreover have "jobs db' = jobs db @ [new_job spec i sched wall]"
    and "set (deps db) \<subseteq> set (deps db')"
    by (simp_all add: submit_Inr(5)[OF step_submit(1)])
  moreover have "job_id (new_job spec i sched wall) = i" by (simp add: new_job_def)
  ultimately show ?case using step_submit(3) by (auto simp: blocked_def quiet_def)
next
  case (step_claim clk wall worker secs conc classes now db l db')
  then show ?case using quiet_claim[OF step_claim(2,3,1)] by (simp add: blocked_def)
next
  case (step_fail clk wall jid worker err retryable base db st db')
  then show ?case using quiet_fail[OF step_fail(2) _ step_fail(1), where a = a] by (auto simp: blocked_def)
next
  case (step_heartbeat clk wall jid worker secs db u db')
  then show ?case
    by (auto simp: heartbeat_def Let_def owned_def blocked_def split: if_splits intro!: quiet_update)
next
  case (step_complete clk wall jid worker res db db')
  then show ?case
    by (auto simp: complete_def Let_def owned_def blocked_def split: if_splits intro!: quiet_update)
next
  case (step_cancel clk wall jid db b db')
  then show ?case
    by (auto simp: cancel_def Let_def blocked_def split: if_splits intro!: quiet_update)
next
  case (step_reap clk wall db n db')
  then show ?case
    using reap_expired_quiet(1)[of db a clk wall] reap_expired_quiet(2)[of clk wall db]
    by (auto simp: reap_def blocked_def)
qed

lemma sched_step_blocked:
  assumes inv: "sched_inv db" and b: "blocked a d db" and step: "sched_step db db'"
  shows "blocked a d db'"
proof -
  have ev: "evolves (jobs db) (jobs db')" using step inv by (rule sched_step_evolves)
  obtain x where x: "x \<in> set (jobs db)" "job_id x = d" "terminal (state x)" "state x \<noteq> Succeeded"
    using b by (auto simp: blocked_def)
  have "x \<in> set (jobs db')" using ev x(1,3) by (rule terminal_persists)
  moreover have "a \<in> job_id ` set (jobs db')"
  proof -
    obtain y where "y \<in> set (jobs db)" "job_id y = a" using b by (auto simp: blocked_def)
    with evolves_mem[OF ev, of y] obtain y' where "y' \<in> set (jobs db')" "job_id y' = a"
      by (auto simp: row_evolves_def)
    then show ?thesis by blast
  qed
  ultimately show ?thesis using sched_step_quiet[OF step inv b] x unfolding blocked_def by blast
qed

lemma acyclic_row_index:
  assumes "\<forall>(a, d) \<in> r. f d < (f a :: nat)" shows "acyclic r"
proof -
  have "r\<inverse> \<subseteq> measure f" using assms by auto
  then have "acyclic (r\<inverse>)" using acyclic_subset wf_acyclic wf_measure by metis
  then show ?thesis by simp
qed

lemma running_count_claimed:
  assumes "distinct (map job_id js)" and "row \<in> set js" and "state row = Queued"
  shows "length (filter (\<lambda>j. project_id j = project_id row \<and> state j = Running)
      (map (\<lambda>j. if j = row then claimed_row row w u t else j) js)) =
    length (filter (\<lambda>j. project_id j = project_id row \<and> state j = Running) js) + 1"
  using assms
proof (induction js)
  case (Cons x js)
  show ?case
  proof (cases "x = row")
    case True
    then have "row \<notin> set js" using Cons.prems by auto
    then have "map (\<lambda>j. if j = row then claimed_row row w u t else j) js = js"
      by (intro map_idI) auto
    then show ?thesis using True Cons.prems(3) by (simp add: claimed_row_def del: filter_map)
  next
    case False
    then show ?thesis using Cons by (simp del: filter_map)
  qed
qed simp

lemma backoff_mono: "0 \<le> base \<Longrightarrow> att \<le> att' \<Longrightarrow> backoff base att \<le> backoff base att'"
  unfolding backoff_def
  by (intro min.mono mult_left_mono power_increasing nat_mono) auto

lemma events_sequence_sorted:
  assumes "sched_inv db" shows "sorted_wrt (<) (map ev_sequence (events db))"
  using assms by (simp add: sched_inv_def sorted_wrt_map del: upt_Suc)

lemma sorted_wrt_last: "sorted_wrt R xs \<Longrightarrow> x \<in> set xs \<Longrightarrow> x = last xs \<or> R x (last xs)"
  by (induction xs) (auto split: if_splits)

lemma claim_valid:
  "worker \<noteq> '''' \<Longrightarrow> 0 < secs \<Longrightarrow> 1 \<le> conc \<Longrightarrow>
   \<exists>r. claim clk wall worker secs conc classes now db = Inr r"
  unfolding claim_def Let_def by (simp split: option.splits)

section \<open>Properties\<close>

text \<open>
  C1. In every reachable database a job is claimed at most \<open>max_attempts\<close> times: its attempt
  counter is the number of claims in the event log and never exceeds the budget; a dead-lettered
  job has used the whole budget, and a row has a lease owner exactly while it is running.
\<close>

theorem attempts_bounded:
  assumes "sched_reachable db" and "j \<in> set (jobs db)"
  shows "attempt j = int (claims_of (job_id j) (events db)) \<and>
     int (claims_of (job_id j) (events db)) \<le> max_attempts j \<and>
     (state j = DeadLetter \<longrightarrow> int (claims_of (job_id j) (events db)) = max_attempts j) \<and>
     (state j = Running \<longleftrightarrow> lease_owner j \<noteq> '''')"
proof -
  have inv: "sched_inv db" using assms(1) by (rule sched.reachable_inv)
  show ?thesis using inv_job_ok[OF inv assms(2)] inv_attempt[OF inv assms(2)]
    by (auto simp: job_ok_def)
qed

text \<open>
  In every reachable database the dependency graph is acyclic and closed: both ends of every
  dependency are jobs of the table.  So waiting for dependencies can never be a circular wait.
\<close>

theorem dependencies_acyclic:
  assumes "sched_reachable db"
  shows "acyclic (set (deps db)) \<and>
     (\<forall>(a, d) \<in> set (deps db). a \<in> job_id ` set (jobs db) \<and> d \<in> job_id ` set (jobs db))"
proof -
  have inv: "sched_inv db" using assms by (rule sched.reachable_inv)
  then have "acyclic (set (deps db))"
    by (intro acyclic_row_index[of _ "row_index (map job_id (jobs db))"]) (auto simp: sched_inv_def)
  then show ?thesis using inv by (auto simp: sched_inv_def)
qed

text \<open>
  C2. A granted claim is sound: in the database as reaped at the claim's time, the granted job is
  queued, due, has all its dependencies succeeded, is of an accepted resource class, and no other
  such job comes before it in the order by priority, least recently serviced project and age.
  Exactly its row changes, to a lease of the asking worker, and the number of running jobs of its
  project grows by one and stays within \<open>project_concurrency\<close>.
\<close>

theorem claim_grants_best_ready:
  assumes "sched_reachable db"
    and "claim clk wall worker secs conc classes now db = Inr (Some l, db')"
  shows "let t = (case now of None \<Rightarrow> wall | Some t \<Rightarrow> t); db1 = snd (reap_expired clk t db) in
     \<exists>row \<in> set (jobs db1). ready db1 t conc classes row \<and>
       (\<forall>j \<in> set (jobs db1). ready db1 t conc classes j \<longrightarrow> claim_key db1 row \<le> claim_key db1 j) \<and>
       lease_job_id l = job_id row \<and> lease_attempt l = attempt row + 1 \<and>
       lease_worker l = worker \<and> lease_expiry l = t + secs \<and>
       jobs db' = map (\<lambda>j. if j = row then claimed_row row worker (t + secs) t else j) (jobs db1) \<and>
       running_count db' (project_id row) = running_count db1 (project_id row) + 1 \<and>
       int (running_count db' (project_id row)) \<le> conc"
proof -
  define t where "t = (case now of None \<Rightarrow> wall | Some t \<Rightarrow> t)"
  define db1 where "db1 = snd (reap_expired clk t db)"
  have inv: "sched_inv db" using assms(1) by (rule sched.reachable_inv)
  have inv1: "sched_inv db1" unfolding db1_def using inv by (rule inv_reap_expired)
  show ?thesis unfolding Let_def t_def[symmetric] db1_def[symmetric]
  proof (rule claim_Some[OF inv assms(2), folded t_def, folded db1_def])
    fix row
    assume row: "row \<in> set (jobs db1)" "ready db1 t conc classes row"
      and least: "\<And>j. j \<in> set (jobs db1) \<Longrightarrow> ready db1 t conc classes j \<Longrightarrow> claim_key db1 row \<le> claim_key db1 j"
      and js: "jobs db' = map (\<lambda>j. if j = row then claimed_row row worker (t + secs) t else j) (jobs db1)"
      and l: "lease_job_id l = job_id row" "lease_attempt l = attempt row + 1"
        "lease_worker l = worker" "lease_expiry l = t + secs"
    have rc: "running_count db' (project_id row) = running_count db1 (project_id row) + 1"
      using running_count_claimed[OF inv_distinct[OF inv1] row(1)] row(2)
      by (simp add: running_count_def js ready_def)
    then have "int (running_count db' (project_id row)) \<le> conc" using row(2) by (simp add: ready_def)
    then show "\<exists>row \<in> set (jobs db1). ready db1 t conc classes row \<and>
       (\<forall>j \<in> set (jobs db1). ready db1 t conc classes j \<longrightarrow> claim_key db1 row \<le> claim_key db1 j) \<and>
       lease_job_id l = job_id row \<and> lease_attempt l = attempt row + 1 \<and>
       lease_worker l = worker \<and> lease_expiry l = t + secs \<and>
       jobs db' = map (\<lambda>j. if j = row then claimed_row row worker (t + secs) t else j) (jobs db1) \<and>
       running_count db' (project_id row) = running_count db1 (project_id row) + 1 \<and>
       int (running_count db' (project_id row)) \<le> conc"
      using row least js l rc by (intro bexI[of _ row]) auto
  qed
qed

text \<open>
  C31. Claiming makes progress: a valid request is granted some lease exactly when a ready job
  exists after reaping; it never comes back empty-handed while work is available.
\<close>

theorem claim_progress:
  assumes "sched_reachable db" and "worker \<noteq> ''''" and "0 < secs" and "1 \<le> conc"
  shows "let t = (case now of None \<Rightarrow> wall | Some t \<Rightarrow> t); db1 = snd (reap_expired clk t db) in
     (\<exists>l db'. claim clk wall worker secs conc classes now db = Inr (Some l, db')) \<longleftrightarrow>
     (\<exists>j \<in> set (jobs db1). ready db1 t conc classes j)"
proof -
  define t where "t = (case now of None \<Rightarrow> wall | Some t \<Rightarrow> t)"
  define db1 where "db1 = snd (reap_expired clk t db)"
  have inv: "sched_inv db" using assms(1) by (rule sched.reachable_inv)
  obtain l db' where ok: "claim clk wall worker secs conc classes now db = Inr (l, db')"
    using claim_valid[OF assms(2-4)] by (metis surj_pair)
  show ?thesis unfolding Let_def t_def[symmetric] db1_def[symmetric]
  proof (cases l)
    case None
    then show "(\<exists>l db'. claim clk wall worker secs conc classes now db = Inr (Some l, db')) \<longleftrightarrow>
      (\<exists>j \<in> set (jobs db1). ready db1 t conc classes j)"
      using ok claim_None[OF inv ok[unfolded None]] by (auto simp: db1_def t_def)
  next
    case (Some lease)
    have "\<exists>j \<in> set (jobs db1). ready db1 t conc classes j"
      by (rule claim_Some[OF inv ok[unfolded Some]]) (auto simp: db1_def t_def)
    then show "(\<exists>l db'. claim clk wall worker secs conc classes now db = Inr (Some l, db')) \<longleftrightarrow>
      (\<exists>j \<in> set (jobs db1). ready db1 t conc classes j)" using ok Some by blast
  qed
qed

text \<open>
  C5. The scheduler implements the life cycle: along any run a job is never removed, its state, attempts and
  owner are what a path of \<open>life\<close> gives from where it was, and each operation moves it along one transition
  at most (two when a claim takes over an expired lease); once it has succeeded, failed, been
  dead-lettered or cancelled, its row never changes again.
\<close>

theorem job_life_cycle:
  assumes "sched_reachable db" and "sched_step\<^sup>*\<^sup>* db db1" and "sched_step db1 db'" and "j \<in> set (jobs db)"
  shows "\<exists>j1 \<in> set (jobs db1). \<exists>j' \<in> set (jobs db'). job_id j1 = job_id j \<and> job_id j' = job_id j \<and>
     (life (max_attempts j))\<^sup>*\<^sup>* (life_of j) (life_of j1) \<and>
     one_move (max_attempts j) (life_of j1) (life_of j') \<and>
     (terminal (state j) \<longrightarrow> j1 = j \<and> j' = j)"
proof -
  have inv: "sched_inv db" using assms(1) by (rule sched.reachable_inv)
  obtain j1 where j1: "j1 \<in> set (jobs db1)" "row_evolves j j1"
    using evolves_mem[OF sched_steps_evolve[OF assms(2) inv] assms(4)] by blast
  obtain j' where j': "j' \<in> set (jobs db')" "row_moves j1 j'"
    using moves_mem[OF sched_step_moves[OF assms(3) sched.steps_inv[OF inv assms(2)]] j1(1)] by blast
  show ?thesis
    by (intro bexI[OF _ j'(1)] bexI[OF _ j1(1)]) (use j1(2) j'(2) in \<open>auto simp: row_evolves_def row_moves_def\<close>)
qed

text \<open>
  C6. A job is completed at most once: after a successful \<open>complete\<close>, in every later state no
  worker can complete it again, renew its lease, fail it, or cancel it.
\<close>

theorem completed_once:
  assumes "sched_reachable db" and "complete clk wall jid worker res db = Inr db1"
    and "sched_step\<^sup>*\<^sup>* db1 db2"
  shows "complete clk2 wall2 jid worker2 res2 db2 = Inl not_owned \<and>
     heartbeat clk2 wall2 jid worker2 secs db2 = Inl not_owned \<and>
     fail clk2 wall2 jid worker2 err retryable base db2 = Inl not_owned \<and>
     \<not> fst (cancel clk2 wall2 jid db2)"
proof -
  have inv: "sched_inv db" using assms(1) by (rule sched.reachable_inv)
  have inv1: "sched_inv db1" using inv assms(2) by (rule inv_complete)
  have inv2: "sched_inv db2" using inv1 assms(3) by (rule sched.steps_inv)
  have "rowcount (owned jid worker) (jobs db) = 1"
    using assms(2) by (simp add: complete_def Let_def split: if_splits)
  then obtain r where "r \<in> set (jobs db)" "owned jid worker r" by (blast dest: rowcount_pos)
  then have "r\<lparr>state := Succeeded, result := canon (PyDict (case res of None \<Rightarrow> [] | Some r \<Rightarrow> r)),
      lease_owner := '''', lease_until := 0, updated_at := wall\<rparr> \<in> set (jobs db1)" (is "?r \<in> _")
    using assms(2) update_where_hit[of r "jobs db" "owned jid worker"]
    by (auto simp: complete_def Let_def split: if_splits)
  moreover have "job_id ?r = jid" "state ?r = Succeeded"
    using \<open>owned jid worker r\<close> by (simp_all add: owned_def)
  ultimately obtain j where "j \<in> set (jobs db1)" "job_id j = jid" "state j = Succeeded" by blast
  then have j: "j \<in> set (jobs db2)" "job_id j = jid" "state j = Succeeded"
    using terminal_persists[OF sched_steps_evolve[OF assms(3) inv1]] by (auto simp: terminal_def)
  have all: "state x = Succeeded" if "x \<in> set (jobs db2)" "job_id x = jid" for x
    using distinct_key_eq[OF inv_distinct[OF inv2] that(1) j(1)] that j by simp
  then have none: "\<not> owned jid w x" "\<not> cancellable jid x" if "x \<in> set (jobs db2)" for w x
    using that by (auto simp: owned_def cancellable_def)
  then have "rowcount (owned jid w) (jobs db2) = 0" "find (owned jid w) (jobs db2) = None"
    "rowcount (cancellable jid) (jobs db2) = 0" for w
    by (auto simp: rowcount_def filter_empty_conv find_None_iff)
  then show ?thesis by (simp add: complete_def heartbeat_def fail_def cancel_def Let_def)
qed

text \<open>
  A queued job that depends on a job which failed, was dead-lettered or was cancelled is
  never run: in every later state it is still queued, or cancelled by hand.
\<close>

theorem dependents_of_failure_never_run:
  assumes "sched_reachable db" and "(a, d) \<in> set (deps db)"
    and "jd \<in> set (jobs db)" and "job_id jd = d" and "terminal (state jd)" and "state jd \<noteq> Succeeded"
    and "ja \<in> set (jobs db)" and "job_id ja = a" and "state ja = Queued"
    and "sched_step\<^sup>*\<^sup>* db db'"
  shows "\<exists>x \<in> set (jobs db'). job_id x = a \<and> (state x = Queued \<or> state x = Cancelled)"
proof -
  have inv: "sched_inv db" using assms(1) by (rule sched.reachable_inv)
  have "j = ja" if "j \<in> set (jobs db)" "job_id j = a" for j
    using distinct_key_eq[OF inv_distinct[OF inv] that(1) assms(7)] that assms(8) by simp
  then have "quiet a (jobs db)" using assms(9) by (auto simp: quiet_def)
  then have "blocked a d db" using assms by (auto simp: blocked_def)
  then have "blocked a d db'"
    using sched.steps_stable[OF inv _ assms(10), of "blocked a d"] sched_step_blocked by blast
  then show ?thesis by (auto simp: blocked_def quiet_def)
qed

text \<open>
  Polling the event log with the returned cursor is lossless: one call returns the first
  events after the given cursor, in order and at most a thousand, and what it did not return is
  exactly what lies after the new cursor.
\<close>

theorem events_paging_lossless:
  assumes "sched_reachable db" and "events_after after lmt db = (rows, cursor)"
  shows "filter (\<lambda>e. after < ev_sequence e) (events db) =
       rows @ filter (\<lambda>e. cursor < ev_sequence e) (events db) \<and>
     length rows \<le> 1000 \<and>
     (rows = [] \<longleftrightarrow> (\<forall>e \<in> set (events db). ev_sequence e \<le> after))"
proof -
  have inv: "sched_inv db" using assms(1) by (rule sched.reachable_inv)
  let ?n = "nat (max 1 (min lmt 1000))" and ?es = "filter (\<lambda>e. after < ev_sequence e) (events db)"
  have srt: "sorted_wrt (\<lambda>x y. ev_sequence x < ev_sequence y) (events db)"
    using events_sequence_sorted[OF inv] by (simp add: sorted_wrt_map)
  then have srt': "sorted_wrt (\<lambda>x y. ev_sequence x < ev_sequence y) ?es"
    by (rule sorted_wrt_filter)
  then have "sorted (map ev_sequence ?es)"
    unfolding sorted_wrt_map by (rule sorted_wrt_mono_rel[rotated]) simp
  then have rows: "rows = take ?n ?es"
    and cur: "cursor = (if rows = [] then after else ev_sequence (last rows))"
    using assms(2) by (auto simp: events_after_def Let_def sort_key_sorted)
  have n: "1 \<le> ?n" "?n \<le> 1000" by auto
  have "filter (\<lambda>e. cursor < ev_sequence e) (events db) = drop ?n ?es"
  proof (cases "rows = []")
    case True
    then have "?es = []" using rows n by auto
    then show ?thesis using cur True by simp
  next
    case False
    have last: "last rows \<in> set rows" using False by simp
    then have gt: "after < ev_sequence (last rows)" using rows by (auto dest: in_set_takeD)
    then have "filter (\<lambda>e. cursor < ev_sequence e) (events db) = filter (\<lambda>e. cursor < ev_sequence e) ?es"
      using cur False by (auto intro!: filter_cong)
    also have "?es = rows @ drop ?n ?es" using rows by simp
    finally have split: "filter (\<lambda>e. cursor < ev_sequence e) (events db) =
        filter (\<lambda>e. cursor < ev_sequence e) rows @ filter (\<lambda>e. cursor < ev_sequence e) (drop ?n ?es)"
      by (simp only: filter_append)
    have order: "sorted_wrt (\<lambda>x y. ev_sequence x < ev_sequence y) (rows @ drop ?n ?es)"
      using srt' rows by simp
    have "filter (\<lambda>e. cursor < ev_sequence e) (drop ?n ?es) = drop ?n ?es"
      using order last cur False by (auto simp: sorted_wrt_append intro!: filter_True)
    moreover have "filter (\<lambda>e. cursor < ev_sequence e) rows = []"
      using sorted_wrt_last[of _ rows] order cur False
      by (fastforce simp: sorted_wrt_append filter_empty_conv)
    ultimately show ?thesis using split by simp
  qed
  moreover have "length rows \<le> 1000" using rows n(2) by simp
  ultimately show ?thesis using rows n(1) by (auto simp: filter_empty_conv not_less)
qed

text \<open>
  The retry delay is bounded and grows with the attempts: for a non-negative base it lies
  between zero and one hour, and a later attempt never waits less.
\<close>

theorem backoff_bounded:
  assumes "0 \<le> base" and "att \<le> att'"
  shows "0 \<le> backoff base att \<and> backoff base att \<le> 3600 \<and> backoff base att \<le> backoff base att'"
  using assms backoff_mono[OF assms] by (simp add: backoff_def)

section \<open>A run of the scheduler\<close>

text \<open>
  Two jobs, the second depending on the first, submitted at times 1 and 2; the first is claimed
  at time 3, and then either completed or failed for good at time 4.
\<close>

definition demo_spec :: "string list \<Rightarrow> job_spec" where
  "demo_spec ds =
     \<lparr>spec_project_id = ''p'', spec_argv = [''run''], spec_priority = 0, spec_dependencies = ds,
      spec_max_attempts = 2, spec_timeout_seconds = 60, spec_sandbox_profile = ''strict'',
      spec_resource_class = ''cpu'', spec_metadata = None\<rparr>"

definition demo_clock :: clock where
  "demo_clock = (\<lambda>_. 0)"

definition demo_db1 :: sched_db where
  "demo_db1 = (case submit demo_clock 1 '''' (demo_spec []) ''a'' None empty_db of
     Inl _ \<Rightarrow> empty_db | Inr (_, db) \<Rightarrow> db)"

definition demo_db2 :: sched_db where
  "demo_db2 = (case submit demo_clock 2 '''' (demo_spec [''a'']) ''b'' None demo_db1 of
     Inl _ \<Rightarrow> empty_db | Inr (_, db) \<Rightarrow> db)"

definition demo_db3 :: sched_db where
  "demo_db3 = (case claim demo_clock 3 ''w'' 60 2 [] None demo_db2 of
     Inl _ \<Rightarrow> empty_db | Inr (_, db) \<Rightarrow> db)"

definition demo_done :: sched_db where
  "demo_done = (case complete demo_clock 4 ''a'' ''w'' None demo_db3 of
     Inl _ \<Rightarrow> empty_db | Inr db \<Rightarrow> db)"

definition demo_failed :: sched_db where
  "demo_failed = (case fail demo_clock 4 ''a'' ''w'' ''boom'' False 2 demo_db3 of
     Inl _ \<Rightarrow> empty_db | Inr (_, db) \<Rightarrow> db)"

lemma demo_submit1: "submit demo_clock 1 '''' (demo_spec []) ''a'' None empty_db = Inr (''a'', demo_db1)"
  by code_simp

lemma demo_submit2: "submit demo_clock 2 '''' (demo_spec [''a'']) ''b'' None demo_db1 = Inr (''b'', demo_db2)"
  by code_simp

lemma demo_claim3:
  "claim demo_clock 3 ''w'' 60 2 [] None demo_db2 =
   Inr (Some \<lparr>lease_job_id = ''a'', lease_project_id = ''p'', lease_argv = [''run''],
     lease_attempt = 1, lease_worker = ''w'', lease_expiry = 63, lease_timeout_seconds = 60,
     lease_sandbox_profile = ''strict'', lease_resource_class = ''cpu'',
     lease_metadata = PyDict []\<rparr>, demo_db3)"
  by code_simp

lemma demo_complete4: "complete demo_clock 4 ''a'' ''w'' None demo_db3 = Inr demo_done"
  by code_simp

lemma demo_fail4: "fail demo_clock 4 ''a'' ''w'' ''boom'' False 2 demo_db3 = Inr (Failed, demo_failed)"
  by code_simp

lemma sched_start: "sched_reachable empty_db"
  by (rule reach_init) simp

lemma demo_reach1: "sched_reachable demo_db1"
  by (rule reach_step[OF sched_start step_submit[OF demo_submit1]])

lemma demo_reach2: "sched_reachable demo_db2"
  by (rule reach_step[OF demo_reach1 step_submit[OF demo_submit2]])

lemma demo_reach3: "sched_reachable demo_db3"
  by (rule reach_step[OF demo_reach2 step_claim[OF demo_claim3]])

lemma demo_reach_done: "sched_reachable demo_done"
  by (rule reach_step[OF demo_reach3 step_complete[OF demo_complete4]])

lemma demo_reach_failed: "sched_reachable demo_failed"
  by (rule reach_step[OF demo_reach3 step_fail[OF demo_fail4]])

lemma demo_rows:
  "hd (jobs demo_db3) \<in> set (jobs demo_db3)"
  "hd (jobs demo_failed) \<in> set (jobs demo_failed)"
  "last (jobs demo_failed) \<in> set (jobs demo_failed)"
  by code_simp+

section \<open>Witnesses\<close>

theorem attempts_bounded_witness:
  "claims_of ''a'' (events demo_db3) = 1 \<and>
   attempt (hd (jobs demo_db3)) = int (claims_of (job_id (hd (jobs demo_db3))) (events demo_db3)) \<and>
   lease_owner (hd (jobs demo_db3)) \<noteq> ''''"
proof -
  have "claims_of ''a'' (events demo_db3) = 1" and "state (hd (jobs demo_db3)) = Running"
    by code_simp+
  then show ?thesis using attempts_bounded[OF demo_reach3 demo_rows(1)] by blast
qed

theorem dependencies_acyclic_witness:
  "deps demo_db2 = [(''b'', ''a'')] \<and> acyclic {(''b'', ''a'')}"
proof -
  have "deps demo_db2 = [(''b'', ''a'')]" by code_simp
  then show ?thesis using dependencies_acyclic[OF demo_reach2] by simp
qed

theorem claim_grants_best_ready_witness:
  "\<exists>row \<in> set (jobs (snd (reap_expired demo_clock 3 demo_db2))).
     ready (snd (reap_expired demo_clock 3 demo_db2)) 3 2 [] row \<and> job_id row = ''a'' \<and>
     running_count demo_db3 (project_id row) = 1"
proof -
  have none: "running_count (snd (reap_expired demo_clock 3 demo_db2)) p = 0" for p
  proof -
    have "filter (\<lambda>j. state j = Running) (jobs (snd (reap_expired demo_clock 3 demo_db2))) = []"
      by code_simp
    then show ?thesis by (auto simp: running_count_def filter_empty_conv)
  qed
  show ?thesis using claim_grants_best_ready[OF demo_reach2 demo_claim3]
    by (auto simp: Let_def none)
qed

theorem claim_progress_witness:
  "\<exists>l db'. claim demo_clock 3 ''w'' 60 2 [] None demo_db2 = Inr (Some l, db')"
proof -
  have "\<exists>j \<in> set (jobs (snd (reap_expired demo_clock 3 demo_db2))).
      ready (snd (reap_expired demo_clock 3 demo_db2)) 3 2 [] j"
    by code_simp
  then show ?thesis
    using claim_progress[OF demo_reach2, where worker = "''w''" and secs = 60 and conc = 2
        and now = None and wall = 3 and clk = demo_clock and classes = "[]"] by simp
qed

theorem job_life_cycle_witness:
  "\<exists>j' \<in> set (jobs demo_done). job_id j' = ''a'' \<and> one_move 2 (Running, 1, ''w'') (life_of j')"
proof -
  let ?a = "hd (jobs demo_db3)"
  have a: "job_id ?a = ''a''" "life_of ?a = (Running, 1, ''w'')" "max_attempts ?a = 2" by code_simp+
  obtain j1 j' where j: "j1 \<in> set (jobs demo_db3)" "j' \<in> set (jobs demo_done)" "job_id j1 = job_id ?a"
      "job_id j' = job_id ?a" "one_move (max_attempts ?a) (life_of j1) (life_of j')"
    using job_life_cycle[OF demo_reach3 rtranclp.rtrancl_refl step_complete[OF demo_complete4] demo_rows(1)] by blast
  have "j1 = ?a"
    using distinct_key_eq[OF inv_distinct[OF sched.reachable_inv[OF demo_reach3]] j(1) demo_rows(1) j(3)] .
  then show ?thesis using j a by auto
qed

theorem completed_once_witness:
  "complete demo_clock 5 ''a'' ''w'' None demo_done = Inl not_owned \<and>
   \<not> fst (cancel demo_clock 5 ''a'' demo_done)"
  using completed_once[OF demo_reach3 demo_complete4 rtranclp.rtrancl_refl] by blast

theorem dependents_of_failure_never_run_witness:
  "\<exists>x \<in> set (jobs demo_failed). job_id x = ''b'' \<and> (state x = Queued \<or> state x = Cancelled)"
proof (rule dependents_of_failure_never_run[OF demo_reach_failed _ demo_rows(2) _ _ _ demo_rows(3)])
  show "(''b'', ''a'') \<in> set (deps demo_failed)" by code_simp
  show "job_id (hd (jobs demo_failed)) = ''a''" by code_simp
  show "terminal (state (hd (jobs demo_failed)))" by code_simp
  show "state (hd (jobs demo_failed)) \<noteq> Succeeded" by code_simp
  show "job_id (last (jobs demo_failed)) = ''b''" by code_simp
  show "state (last (jobs demo_failed)) = Queued" by code_simp
qed (rule rtranclp.rtrancl_refl)

theorem events_paging_lossless_witness:
  "filter (\<lambda>e. 0 < ev_sequence e) (events demo_db3) =
     fst (events_after 0 2 demo_db3) @ filter (\<lambda>e. 2 < ev_sequence e) (events demo_db3)"
proof -
  have "snd (events_after 0 2 demo_db3) = 2" by code_simp
  then show ?thesis
    using events_paging_lossless[OF demo_reach3, of 0 2 "fst (events_after 0 2 demo_db3)" 2]
    by (metis prod.collapse)
qed

theorem backoff_bounded_witness: "backoff 2 3 = 8 \<and> backoff 2 3 \<le> backoff 2 20 \<and> backoff 2 20 = 3600"
proof -
  have "backoff 2 3 = 8" "backoff 2 20 = 3600" by (simp_all add: backoff_def)
  then show ?thesis using backoff_bounded[of 2 3 20] by simp
qed

end
