(* ===== verification/ContextPolicy.thy ===== *)
theory ContextPolicy
  imports Prelude
begin

text \<open>
  The adaptive context policy of \<open>syntavra_runtime/adaptive_context_policy.py\<close>: reference-only
  signals about context items are turned into one action per item (keep, summarize, compress,
  externalize, abstain), fitted to a token budget, and one action for the session, all bound
  into a hashed receipt.  Dataclass constructors with checks are functions to an error message
  or to the normalised record; scores are exact rationals.
\<close>

section \<open>Data\<close>

datatype item_action = KEEP | SUMMARIZE | COMPRESS | EXTERNALIZE | ABSTAIN

datatype session_action = SESSION_KEEP | SESSION_RESET | SESSION_BRANCH | SESSION_ABSTAIN

fun item_action_name :: "item_action \<Rightarrow> string" where
  "item_action_name KEEP = ''KEEP''"
| "item_action_name SUMMARIZE = ''SUMMARIZE''"
| "item_action_name COMPRESS = ''COMPRESS''"
| "item_action_name EXTERNALIZE = ''EXTERNALIZE''"
| "item_action_name ABSTAIN = ''ABSTAIN''"

fun session_action_name :: "session_action \<Rightarrow> string" where
  "session_action_name SESSION_KEEP = ''KEEP''"
| "session_action_name SESSION_RESET = ''RESET''"
| "session_action_name SESSION_BRANCH = ''BRANCH''"
| "session_action_name SESSION_ABSTAIN = ''ABSTAIN''"

record policy_signal =
  sg_identity :: string
  sg_tokens :: int
  sg_relevance :: rat
  sg_trust :: rat
  sg_freshness :: rat
  sg_recoverable :: bool
  sg_exact :: bool
  sg_tainted :: bool
  sg_denied :: bool
  sg_summarizable :: bool
  sg_compressible :: bool
  sg_externalizable :: bool
  sg_uri :: string
  sg_item_id :: string
  sg_refs :: "string list"
  sg_metadata :: fields

record policy_state =
  st_current :: int
  st_unresolved :: int
  st_irreversible :: bool
  st_drift :: rat
  st_branch_allowed :: bool
  st_reset_allowed :: bool
  st_shadow :: bool

record policy_config =
  cf_budget :: int
  cf_target_utilization :: rat
  cf_reset_threshold :: rat
  cf_branch_threshold :: rat
  cf_keep_threshold :: rat
  cf_summarize_threshold :: rat
  cf_compress_threshold :: rat
  cf_external_tokens :: int

record policy_decision =
  d_identity :: string
  d_recommended :: item_action
  d_effective :: item_action
  d_utility :: rat
  d_risk :: rat
  d_input :: int
  d_visible :: int
  d_reasons :: "string list"
  d_uri :: string
  d_item_id :: string
  d_refs :: "string list"

section \<open>Constructors\<close>

definition bounded :: "rat \<Rightarrow> string \<Rightarrow> string option" where
  "bounded r name = (if 0 \<le> r \<and> r \<le> 1 then None else Some (name @ '' must be within [0,1]''))"

definition forbidden_keys :: "string list" where
  "forbidden_keys = [''content'', ''payload'', ''raw_text'', ''body'', ''secret'', ''text'']"

fun reference_only :: "string \<Rightarrow> pyval \<Rightarrow> string option"
  and reference_only_fields :: "string \<Rightarrow> fields \<Rightarrow> string option"
  and reference_only_items :: "string \<Rightarrow> nat \<Rightarrow> pyval list \<Rightarrow> string option" where
  "reference_only path (PyDict kvs) = reference_only_fields path kvs"
| "reference_only path (PyList vs) = reference_only_items path 0 vs"
| "reference_only path (PyTuple vs) = reference_only_items path 0 vs"
| "reference_only path _ = None"
| "reference_only_fields path [] = None"
| "reference_only_fields path ((k, v) # kvs) =
     (if py_casefold k \<in> set forbidden_keys
      then Some (path @ '' cannot carry context payload authority: '' @ k)
      else case reference_only (path @ ''.'' @ k) v of
             Some e \<Rightarrow> Some e
           | None \<Rightarrow> reference_only_fields path kvs)"
| "reference_only_items path i [] = None"
| "reference_only_items path i (v # vs) =
     (case reference_only (path @ ''['' @ nat_str i @ '']'') v of
        Some e \<Rightarrow> Some e
      | None \<Rightarrow> reference_only_items path (Suc i) vs)"

definition signal_error :: "policy_signal \<Rightarrow> string option" where
  "signal_error s = first_error
     [if py_strip (sg_identity s) = '''' then Some ''context policy signal requires identity'' else None,
      if sg_tokens s < 0 then Some ''token_count must be non-negative'' else None,
      bounded (sg_relevance s) ''relevance'', bounded (sg_trust s) ''trust'',
      bounded (sg_freshness s) ''freshness'', reference_only ''metadata'' (PyDict (sg_metadata s))]"

definition make_signal :: "policy_signal \<Rightarrow> string + policy_signal" where
  "make_signal s =
     (case signal_error s of
        Some e \<Rightarrow> Inl e
      | None \<Rightarrow> Inr (s\<lparr>sg_refs := sorted_set (filter (\<lambda>r. r \<noteq> '''') (sg_refs s))\<rparr>))"

definition make_state :: "policy_state \<Rightarrow> string + policy_state" where
  "make_state st =
     (case first_error
        [if st_current st < 0 then Some ''current_context_tokens must be non-negative'' else None,
         if st_unresolved st < 0 then Some ''unresolved_critical_evidence must be non-negative'' else None,
         bounded (st_drift st) ''task_drift''] of
        Some e \<Rightarrow> Inl e
      | None \<Rightarrow> Inr st)"

definition default_state :: policy_state where
  "default_state = \<lparr>st_current = 0, st_unresolved = 0, st_irreversible = False, st_drift = 0,
     st_branch_allowed = True, st_reset_allowed = True, st_shadow = False\<rparr>"

definition make_config :: "policy_config \<Rightarrow> string + policy_config" where
  "make_config c =
     (case first_error
        [if cf_budget c < 256 then Some ''context_budget_tokens must be at least 256'' else None,
         bounded (cf_target_utilization c) ''target_utilization'',
         bounded (cf_reset_threshold c) ''reset_threshold'',
         bounded (cf_branch_threshold c) ''branch_threshold'',
         bounded (cf_keep_threshold c) ''keep_threshold'',
         bounded (cf_summarize_threshold c) ''summarize_threshold'',
         bounded (cf_compress_threshold c) ''compress_threshold'',
         if cf_target_utilization c > cf_reset_threshold c
         then Some ''target_utilization cannot exceed reset_threshold'' else None,
         if \<not> (cf_keep_threshold c \<ge> cf_summarize_threshold c \<and>
               cf_summarize_threshold c \<ge> cf_compress_threshold c)
         then Some ''item decision thresholds must be monotonic'' else None,
         if cf_external_tokens c < 1 then Some ''external_reference_tokens must be positive'' else None] of
        Some e \<Rightarrow> Inl e
      | None \<Rightarrow> Inr c)"

text \<open>The dataclass defaults, and \<open>AdaptivePolicyConfig.from_optimization_mode\<close>.\<close>

definition default_config :: "int \<Rightarrow> policy_config" where
  "default_config budget = \<lparr>cf_budget = budget, cf_target_utilization = 82/100,
     cf_reset_threshold = 96/100, cf_branch_threshold = 72/100, cf_keep_threshold = 78/100,
     cf_summarize_threshold = 58/100, cf_compress_threshold = 36/100, cf_external_tokens = 24\<rparr>"

definition config_from_mode :: "int \<Rightarrow> string + policy_config" where
  "config_from_mode mode_budget = make_config (default_config (max 256 mode_budget))"

section \<open>Scores and single decisions\<close>

definition round6 :: "rat \<Rightarrow> rat" where
  "round6 r = of_int (round_half_even (r * 1000000)) / 1000000"

definition clamp01 :: "rat \<Rightarrow> rat" where
  "clamp01 r = max 0 (min 1 r)"

definition utility :: "policy_signal \<Rightarrow> rat" where
  "utility s = round6 (clamp01
     (42/100 * sg_relevance s + 24/100 * sg_trust s + 14/100 * sg_freshness s +
      12/100 * (if sg_exact s then 1 else 0) + 8/100 * (if sg_recoverable s then 1 else 0)))"

definition risk :: "policy_signal \<Rightarrow> rat" where
  "risk s = (if sg_denied s then 1
     else round6 (clamp01 ((if sg_tainted s then 75/100 else 0) +
       (1 - sg_trust s) * (18/100) + (1 - sg_freshness s) * (7/100))))"

definition initial_action :: "policy_config \<Rightarrow> policy_signal \<Rightarrow> rat \<Rightarrow> rat \<Rightarrow> item_action \<times> string list" where
  "initial_action cfg s u r =
     (if sg_denied s then (ABSTAIN, [''SECURITY_DENY''])
      else if sg_tainted s \<and> sg_exact s then (ABSTAIN, [''TAINTED_EXACT_REQUIRED''])
      else if sg_exact s then (KEEP, [''EXACT_REQUIRED''])
      else if r \<ge> 75/100 then
        (if sg_externalizable s \<and> sg_recoverable s then (EXTERNALIZE, [''HIGH_RISK_REFERENCE_ONLY''])
         else (ABSTAIN, [''HIGH_RISK_NOT_EXTERNALIZABLE'']))
      else if u \<ge> cf_keep_threshold cfg then (KEEP, [''HIGH_UTILITY''])
      else if u \<ge> cf_summarize_threshold cfg \<and> sg_summarizable s then (SUMMARIZE, [''MEDIUM_UTILITY''])
      else if u \<ge> cf_compress_threshold cfg \<and> sg_compressible s
      then (COMPRESS, [''LOWER_UTILITY_COMPRESSIBLE''])
      else if sg_externalizable s \<and> sg_recoverable s then (EXTERNALIZE, [''LOW_UTILITY_RECOVERABLE''])
      else if sg_compressible s then (COMPRESS, [''LOW_UTILITY_COMPRESSIBLE''])
      else if sg_summarizable s then (SUMMARIZE, [''LOW_UTILITY_SUMMARIZABLE''])
      else (KEEP, [''NO_SAFE_TRANSFORM'']))"

fun visible_tokens :: "policy_config \<Rightarrow> policy_signal \<Rightarrow> item_action \<Rightarrow> int" where
  "visible_tokens cfg s KEEP = sg_tokens s"
| "visible_tokens cfg s SUMMARIZE = min (sg_tokens s) (max 24 \<lceil>of_int (sg_tokens s) * (34/100 :: rat)\<rceil>)"
| "visible_tokens cfg s COMPRESS = min (sg_tokens s) (max 16 \<lceil>of_int (sg_tokens s) * (18/100 :: rat)\<rceil>)"
| "visible_tokens cfg s EXTERNALIZE = min (sg_tokens s) (cf_external_tokens cfg)"
| "visible_tokens cfg s ABSTAIN = 0"

fun action_rank :: "item_action \<Rightarrow> int" where
  "action_rank KEEP = -1"
| "action_rank SUMMARIZE = 0"
| "action_rank COMPRESS = 1"
| "action_rank EXTERNALIZE = 2"
| "action_rank ABSTAIN = 2"

definition next_action :: "policy_signal \<Rightarrow> item_action \<Rightarrow> item_action option" where
  "next_action s a =
     (if sg_exact s \<or> sg_denied s then None
      else find (\<lambda>c. action_rank c > action_rank a)
        ((if sg_summarizable s then [SUMMARIZE] else []) @
         (if sg_compressible s then [COMPRESS] else []) @
         (if sg_externalizable s \<and> sg_recoverable s then [EXTERNALIZE] else [])))"

lemma next_action_rank: "next_action s a = Some b \<Longrightarrow> action_rank a < action_rank b \<and> action_rank b \<le> 2"
  by (auto simp: next_action_def split: if_splits)

section \<open>Fitting the budget\<close>

text \<open>The inner \<open>while\<close>: one row is made more economic until the projection meets the target.\<close>

function squeeze ::
  "policy_config \<Rightarrow> policy_signal \<Rightarrow> int \<Rightarrow> policy_decision \<Rightarrow> int \<Rightarrow> policy_decision \<times> int" where
  "squeeze cfg s target row projected =
     (if projected > target then
        (case next_action s (d_recommended row) of
           None \<Rightarrow> (row, projected)
         | Some a \<Rightarrow>
             let vis = visible_tokens cfg s a in
             squeeze cfg s target
               (row\<lparr>d_recommended := a, d_visible := vis,
                    d_reasons := fromkeys (d_reasons row @ [''BUDGET_PRESSURE''])\<rparr>)
               (projected - max 0 (d_visible row - vis)))
      else (row, projected))"
  by pat_completeness auto
termination
  by (relation "measure (\<lambda>(cfg, s, target, row, projected). nat (2 - action_rank (d_recommended row)))")
    (auto dest: next_action_rank)

declare squeeze.simps [simp del]

definition signal_of :: "policy_signal list \<Rightarrow> string \<Rightarrow> policy_signal option" where
  "signal_of signals i = find (\<lambda>s. sg_identity s = i) signals"

text \<open>
  The outer \<open>for\<close> over the candidate rows.  The rows are dictionaries shared with the decision
  list, so an update of a candidate is an update of the row with its identity.
\<close>

fun fit_rows ::
  "policy_config \<Rightarrow> policy_signal list \<Rightarrow> int \<Rightarrow> policy_decision list \<Rightarrow> policy_decision list \<Rightarrow> int \<Rightarrow>
   policy_decision list \<times> int" where
  "fit_rows cfg signals target [] rows projected = (rows, projected)"
| "fit_rows cfg signals target (c # cs) rows projected =
     (case signal_of signals (d_identity c) of
        None \<Rightarrow> (rows, projected)
      | Some s \<Rightarrow>
          let (c', projected') = squeeze cfg s target c projected;
              rows' = update_where (\<lambda>d. d_identity d = d_identity c) (\<lambda>_. c') rows
          in if projected' \<le> target then (rows', projected')
             else fit_rows cfg signals target cs rows' projected')"

definition fit_candidates :: "policy_signal list \<Rightarrow> policy_decision list \<Rightarrow> policy_decision list" where
  "fit_candidates signals rows =
     sort_key (\<lambda>d. (d_utility d, - d_input d, d_identity d))
       (filter (\<lambda>d. d_recommended d \<noteq> ABSTAIN \<and> d_recommended d \<noteq> EXTERNALIZE \<and>
          (case signal_of signals (d_identity d) of None \<Rightarrow> False | Some s \<Rightarrow> \<not> sg_exact s)) rows)"

definition fit_budget ::
  "policy_config \<Rightarrow> policy_signal list \<Rightarrow> policy_decision list \<Rightarrow> int \<Rightarrow> policy_decision list \<times> bool" where
  "fit_budget cfg signals rows current =
     (let budget = cf_budget cfg;
          target = max 1 \<lfloor>of_int budget * cf_target_utilization cfg\<rfloor>;
          projected = current + sum_list (map d_visible rows)
      in if projected \<le> target then (rows, True)
         else let (rows', projected') = fit_rows cfg signals target (fit_candidates signals rows) rows projected
              in (rows', projected' \<le> budget))"

section \<open>The session action and the evaluation\<close>

definition session_decision ::
  "policy_config \<Rightarrow> policy_signal list \<Rightarrow> policy_decision list \<Rightarrow> policy_state \<Rightarrow>
   session_action \<times> string list" where
  "session_decision cfg signals rows st =
     (if \<exists>s \<in> set signals. sg_denied s then (SESSION_ABSTAIN, [''SECURITY_DENY_PRESENT''])
      else if st_irreversible st \<and> (st_unresolved st > 0 \<or> (\<exists>s \<in> set signals. sg_tainted s))
      then (SESSION_ABSTAIN, [''IRREVERSIBLE_ACTION_WITH_UNRESOLVED_RISK''])
      else if \<exists>d \<in> set rows. d_recommended d = ABSTAIN then (SESSION_ABSTAIN, [''ITEM_POLICY_ABSTAIN''])
      else if st_drift st \<ge> cf_branch_threshold cfg then
        (if st_branch_allowed st then (SESSION_BRANCH, [''TASK_DRIFT''])
         else (SESSION_ABSTAIN, [''TASK_DRIFT_BRANCH_FORBIDDEN'']))
      else
        let visible = st_current st + sum_list (map d_visible rows);
            pressure = (of_int visible :: rat) / of_int (max 1 (cf_budget cfg));
            reset_safe = (\<forall>s \<in> set signals. \<not> sg_denied s \<longrightarrow> sg_recoverable s \<or> sg_tokens s = 0)
        in if pressure \<ge> cf_reset_threshold cfg \<and> st_reset_allowed st \<and> reset_safe
           then (SESSION_RESET, [''CONTEXT_PRESSURE_RECOVERABLE''])
           else if pressure \<ge> cf_reset_threshold cfg \<and> \<not> reset_safe
           then (SESSION_ABSTAIN, [''RESET_WOULD_LOSE_UNRECOVERABLE_CONTEXT''])
           else (SESSION_KEEP, [''CONTEXT_CONTINUITY_SAFE'']))"

definition initial_decision :: "policy_config \<Rightarrow> policy_signal \<Rightarrow> policy_decision" where
  "initial_decision cfg s =
     (let u = utility s; r = risk s; (a, reasons) = initial_action cfg s u r in
      \<lparr>d_identity = sg_identity s, d_recommended = a, d_effective = a, d_utility = u, d_risk = r,
       d_input = sg_tokens s, d_visible = visible_tokens cfg s a, d_reasons = reasons,
       d_uri = sg_uri s, d_item_id = sg_item_id s, d_refs = sg_refs s\<rparr>)"

record policy_metrics =
  m_budget :: int
  m_current :: int
  m_input :: int
  m_recommended_visible :: int
  m_effective_visible :: int
  m_recommended_total :: int
  m_effective_total :: int
  m_budget_fit :: bool
  m_shadow :: bool

record policy_receipt =
  rc_task :: string
  rc_config :: policy_config
  rc_state :: policy_state
  rc_signals :: "policy_signal list"
  rc_recommended_session :: session_action
  rc_effective_session :: session_action
  rc_session_reasons :: "string list"
  rc_decisions :: "policy_decision list"
  rc_budget_fit :: bool
  rc_shadow :: bool

record policy_result =
  pr_receipt :: policy_receipt
  pr_receipt_hash :: string
  pr_metrics :: policy_metrics

definition config_py :: "policy_config \<Rightarrow> pyval" where
  "config_py c = PyDict
     [(''context_budget_tokens'', PyInt (cf_budget c)),
      (''target_utilization'', PyFloat (cf_target_utilization c)),
      (''reset_threshold'', PyFloat (cf_reset_threshold c)),
      (''branch_threshold'', PyFloat (cf_branch_threshold c)),
      (''keep_threshold'', PyFloat (cf_keep_threshold c)),
      (''summarize_threshold'', PyFloat (cf_summarize_threshold c)),
      (''compress_threshold'', PyFloat (cf_compress_threshold c)),
      (''external_reference_tokens'', PyInt (cf_external_tokens c))]"

definition state_py :: "policy_state \<Rightarrow> pyval" where
  "state_py st = PyDict
     [(''current_context_tokens'', PyInt (st_current st)),
      (''unresolved_critical_evidence'', PyInt (st_unresolved st)),
      (''irreversible_action_pending'', PyBool (st_irreversible st)),
      (''task_drift'', PyFloat (st_drift st)), (''branch_allowed'', PyBool (st_branch_allowed st)),
      (''reset_allowed'', PyBool (st_reset_allowed st)), (''shadow_mode'', PyBool (st_shadow st))]"

definition signal_py :: "policy_signal \<Rightarrow> pyval" where
  "signal_py s = PyDict
     [(''identity'', PyStr (sg_identity s)), (''token_count'', PyInt (sg_tokens s)),
      (''relevance'', PyFloat (sg_relevance s)), (''trust'', PyFloat (sg_trust s)),
      (''freshness'', PyFloat (sg_freshness s)), (''recoverable'', PyBool (sg_recoverable s)),
      (''exact_required'', PyBool (sg_exact s)), (''tainted'', PyBool (sg_tainted s)),
      (''security_denied'', PyBool (sg_denied s)), (''summarizable'', PyBool (sg_summarizable s)),
      (''compressible'', PyBool (sg_compressible s)), (''externalizable'', PyBool (sg_externalizable s)),
      (''namespace_uri'', PyStr (sg_uri s)), (''item_id'', PyStr (sg_item_id s)),
      (''source_refs'', py_strs (sg_refs s)), (''metadata'', PyDict (sg_metadata s))]"

definition decision_py :: "policy_decision \<Rightarrow> pyval" where
  "decision_py d = PyDict
     [(''identity'', PyStr (d_identity d)),
      (''recommended_action'', PyStr (item_action_name (d_recommended d))),
      (''effective_action'', PyStr (item_action_name (d_effective d))),
      (''utility'', PyFloat (d_utility d)), (''risk'', PyFloat (d_risk d)),
      (''input_tokens'', PyInt (d_input d)), (''visible_tokens'', PyInt (d_visible d)),
      (''reason_codes'', PyTuple (map PyStr (d_reasons d))), (''namespace_uri'', PyStr (d_uri d)),
      (''item_id'', PyStr (d_item_id d)), (''source_refs'', PyTuple (map PyStr (d_refs d)))]"

definition receipt_py :: "policy_receipt \<Rightarrow> pyval" where
  "receipt_py r = PyDict
     [(''schema_version'', PyInt 1), (''task'', PyStr (rc_task r)),
      (''config'', config_py (rc_config r)), (''state'', state_py (rc_state r)),
      (''signals'', PyList (map signal_py (rc_signals r))),
      (''recommended_session_action'', PyStr (session_action_name (rc_recommended_session r))),
      (''effective_session_action'', PyStr (session_action_name (rc_effective_session r))),
      (''session_reason_codes'', py_strs (rc_session_reasons r)),
      (''decisions'', PyList (map decision_py (rc_decisions r))),
      (''budget_fit'', PyBool (rc_budget_fit r)), (''shadow_mode'', PyBool (rc_shadow r))]"

text \<open>
  \<open>evaluate\<close>.  The result of the code repeats the receipt's fields at its top level; the model
  keeps them once.
\<close>

definition evaluate_policy ::
  "(pyval \<Rightarrow> string) \<Rightarrow> policy_config \<Rightarrow> string \<Rightarrow> policy_signal list \<Rightarrow> policy_state option \<Rightarrow>
   string + policy_result" where
  "evaluate_policy sha cfg task signals state_opt =
     (if py_strip task = '''' then Inl ''adaptive context policy requires task text''
      else
        let st = (case state_opt of None \<Rightarrow> default_state | Some st \<Rightarrow> st);
            ordered = sort_key sg_identity signals
        in if length (remdups (map sg_identity ordered)) \<noteq> length ordered
           then Inl ''context policy signal identities must be unique''
           else
             let exact = sum_list (map sg_tokens (filter (\<lambda>s. sg_exact s \<and> \<not> sg_denied s) ordered));
                 impossible = (st_current st + exact > cf_budget cfg);
                 (rows, fit0) = fit_budget cfg ordered (map (initial_decision cfg) ordered) (st_current st);
                 fit = (if impossible then False else fit0);
                 (sa0, sr0) = session_decision cfg ordered rows st;
                 (sa, sr) = (if \<not> fit \<and> sa0 \<noteq> SESSION_ABSTAIN
                             then (SESSION_ABSTAIN, [''BUDGET_CANNOT_BE_SAFELY_SATISFIED''])
                             else (sa0, sr0));
                 rows' = (if st_shadow st then map (\<lambda>d. d\<lparr>d_effective := KEEP\<rparr>) rows else rows);
                 esa = (if st_shadow st then SESSION_KEEP else sa);
                 input = sum_list (map d_input rows');
                 recommended = sum_list (map d_visible rows');
                 effective = (if st_shadow st then input else recommended);
                 receipt = \<lparr>rc_task = py_strip task, rc_config = cfg, rc_state = st,
                   rc_signals = ordered, rc_recommended_session = sa, rc_effective_session = esa,
                   rc_session_reasons = sr, rc_decisions = rows', rc_budget_fit = fit,
                   rc_shadow = st_shadow st\<rparr>
             in Inr \<lparr>pr_receipt = receipt, pr_receipt_hash = digest sha (receipt_py receipt),
                  pr_metrics = \<lparr>m_budget = cf_budget cfg, m_current = st_current st,
                    m_input = input, m_recommended_visible = recommended,
                    m_effective_visible = effective,
                    m_recommended_total = st_current st + recommended,
                    m_effective_total = st_current st + effective,
                    m_budget_fit = fit, m_shadow = st_shadow st\<rparr>\<rparr>)"

section \<open>Signals from other components\<close>

text \<open>\<open>signals_from_context_pack\<close>, over the fields of \<open>ContextPackItem\<close> it reads.\<close>

record pack_item =
  pk_tier :: string
  pk_kind :: string
  pk_path :: string
  pk_start :: int
  pk_end :: int
  pk_tokens :: int
  pk_confidence :: string
  pk_file_hash :: string

definition tier_relevance :: "string \<Rightarrow> rat" where
  "tier_relevance t =
     (if t = ''mandatory'' then 1 else if t = ''likely'' then 82/100
      else if t = ''optional'' then 54/100 else 1/2)"

definition pack_signal :: "(pyval \<Rightarrow> string) \<Rightarrow> pack_item \<Rightarrow> string + policy_signal" where
  "pack_signal sha it = make_signal
     \<lparr>sg_identity = ''context-pack:'' @ digest sha (PyDict
        [(''path'', PyStr (pk_path it)), (''start_line'', PyInt (pk_start it)),
         (''end_line'', PyInt (pk_end it)), (''file_hash'', PyStr (pk_file_hash it))]),
      sg_tokens = pk_tokens it, sg_relevance = tier_relevance (pk_tier it), sg_trust = 96/100,
      sg_freshness = 1, sg_recoverable = (pk_path it \<noteq> '''' \<and> pk_file_hash it \<noteq> ''''),
      sg_exact = (pk_tier it = ''mandatory''), sg_tainted = False, sg_denied = False,
      sg_summarizable = True, sg_compressible = True, sg_externalizable = True,
      sg_uri = '''', sg_item_id = '''',
      sg_refs = [''repository:'' @ pk_path it @ '':'' @ int_str (pk_start it) @ ''-'' @ int_str (pk_end it),
                 ''file-hash:'' @ pk_file_hash it],
      sg_metadata = [(''tier'', PyStr (pk_tier it)), (''kind'', PyStr (pk_kind it)),
        (''path'', PyStr (pk_path it)), (''start_line'', PyInt (pk_start it)),
        (''end_line'', PyInt (pk_end it)), (''token_confidence'', PyStr (pk_confidence it))]\<rparr>"

definition signals_from_context_pack :: "(pyval \<Rightarrow> string) \<Rightarrow> pack_item list \<Rightarrow> string + policy_signal list" where
  "signals_from_context_pack sha items = collect (pack_signal sha) items"

text \<open>
  \<open>signals_from_multi_graph\<close>: a candidate row is a mapping read with \<open>get\<close>; a missing key is
  \<open>None\<close> here.
\<close>

record graph_row =
  gr_identity :: "string option"
  gr_tokens :: "int option"
  gr_score :: "rat option"
  gr_trust_levels :: "string list"
  gr_uri :: "string option"
  gr_item_id :: "string option"
  gr_refs :: "string list"
  gr_graph_kinds :: "string list"
  gr_layers :: "string list"

definition get_or :: "'a \<Rightarrow> 'a option \<Rightarrow> 'a" where
  "get_or d x = (case x of None \<Rightarrow> d | Some v \<Rightarrow> v)"

definition graph_signal :: "rat \<Rightarrow> graph_row \<Rightarrow> string + policy_signal" where
  "graph_signal max_score row =
     (let i = py_strip (get_or '''' (gr_identity row)) in
      if i = '''' then Inl ''Multi-Graph candidate missing identity''
      else make_signal
        \<lparr>sg_identity = i, sg_tokens = max 0 (get_or 0 (gr_tokens row)),
         sg_relevance = clamp01 (get_or 0 (gr_score row) / max_score),
         sg_trust = (if ''verified'' \<in> set (gr_trust_levels row) then 1
                     else if ''trusted'' \<in> set (gr_trust_levels row) then 94/100 else 72/100),
         sg_freshness = 1,
         sg_recoverable = (get_or '''' (gr_uri row) \<noteq> '''' \<or> get_or '''' (gr_item_id row) \<noteq> ''''),
         sg_exact = False, sg_tainted = False, sg_denied = False, sg_summarizable = True,
         sg_compressible = True, sg_externalizable = True, sg_uri = get_or '''' (gr_uri row),
         sg_item_id = get_or '''' (gr_item_id row), sg_refs = gr_refs row,
         sg_metadata = [(''graph_kinds'', py_strs (gr_graph_kinds row)),
                        (''layers'', py_strs (gr_layers row))]\<rparr>)"

definition signals_from_multi_graph :: "graph_row list \<Rightarrow> string + policy_signal list" where
  "signals_from_multi_graph rows =
     (case map (\<lambda>r. get_or 0 (gr_score r)) rows of
        [] \<Rightarrow> Inr []
      | x # xs \<Rightarrow> let m = fold max xs x in collect (graph_signal (if m = 0 then 1 else m)) rows)"

section \<open>How a row relates to its signal\<close>

text \<open>
  A row of the decision list and the signal it decides: the row's visible tokens are those of
  its recommended action, its effective action is the one chosen before the budget was looked
  at, and a row of an exact or denied signal is untouched.
\<close>

definition row_for :: "policy_config \<Rightarrow> policy_signal \<Rightarrow> policy_decision \<Rightarrow> bool" where
  "row_for cfg s d \<longleftrightarrow>
     d_identity d = sg_identity s \<and> d_input d = sg_tokens s \<and>
     d_visible d = visible_tokens cfg s (d_recommended d) \<and>
     d_effective d = d_recommended (initial_decision cfg s) \<and>
     (sg_exact s \<or> sg_denied s \<longrightarrow> d = initial_decision cfg s) \<and>
     (d_recommended d = ABSTAIN \<longleftrightarrow> d_recommended (initial_decision cfg s) = ABSTAIN)"

lemma row_for_initial: "row_for cfg s (initial_decision cfg s)"
  by (simp add: row_for_def initial_decision_def Let_def split: prod.splits)

lemma next_action_not_abstain: "next_action s a = Some b \<Longrightarrow> b \<noteq> ABSTAIN \<and> \<not> sg_exact s \<and> \<not> sg_denied s"
  by (auto simp: next_action_def split: if_splits)

lemma squeeze_row_for:
  "row_for cfg s row \<Longrightarrow> d_recommended row \<noteq> ABSTAIN \<Longrightarrow>
   squeeze cfg s target row p = (row', p') \<Longrightarrow> row_for cfg s row' \<and> d_recommended row' \<noteq> ABSTAIN"
proof (induction cfg s target row p rule: squeeze.induct)
  case (1 cfg s target row p)
  show ?case
  proof (cases "p > target \<and> next_action s (d_recommended row) \<noteq> None")
    case False
    then show ?thesis using "1.prems" by (subst (asm) squeeze.simps) (auto split: if_splits option.splits)
  next
    case True
    then obtain a where a: "next_action s (d_recommended row) = Some a" by auto
    let ?row = "row\<lparr>d_recommended := a, d_visible := visible_tokens cfg s a,
        d_reasons := fromkeys (d_reasons row @ [''BUDGET_PRESSURE''])\<rparr>"
    have ok: "row_for cfg s ?row" "d_recommended ?row \<noteq> ABSTAIN"
      using "1.prems"(1,2) next_action_not_abstain[OF a] by (auto simp: row_for_def)
    have "squeeze cfg s target ?row (p - max 0 (d_visible row - visible_tokens cfg s a)) = (row', p')"
      using "1.prems"(3) True a by (subst (asm) squeeze.simps) (simp add: Let_def)
    then show ?thesis using "1.IH"[OF _ a refl] True ok by simp
  qed
qed

definition overshoot :: "policy_config \<Rightarrow> int" where
  "overshoot cfg = max 0 (cf_external_tokens cfg - 16)"

lemma visible_summarize_compress:
  assumes "0 \<le> sg_tokens s"
  shows "visible_tokens cfg s COMPRESS \<le> visible_tokens cfg s SUMMARIZE"
proof -
  have "(of_int (sg_tokens s) * (18/100) :: rat) \<le> of_int (sg_tokens s) * (34/100)"
    using assms by (intro mult_left_mono) auto
  then have "\<lceil>of_int (sg_tokens s) * (18/100) :: rat\<rceil> \<le> \<lceil>of_int (sg_tokens s) * (34/100) :: rat\<rceil>"
    by (rule ceiling_mono)
  then show ?thesis by simp
qed

lemma visible_externalize:
  assumes "0 \<le> sg_tokens s" and "a = KEEP \<or> a = SUMMARIZE \<or> a = COMPRESS"
  shows "visible_tokens cfg s EXTERNALIZE \<le> visible_tokens cfg s a + overshoot cfg"
proof -
  have "visible_tokens cfg s EXTERNALIZE \<le> visible_tokens cfg s COMPRESS + overshoot cfg"
    by (auto simp: overshoot_def)
  moreover have "visible_tokens cfg s COMPRESS \<le> visible_tokens cfg s a"
    using assms visible_summarize_compress[OF assms(1)] by auto
  ultimately show ?thesis by simp
qed

lemma next_action_visible:
  assumes "next_action s a = Some b" and "0 \<le> sg_tokens s"
  shows "visible_tokens cfg s b \<le> visible_tokens cfg s a + (if b = EXTERNALIZE then overshoot cfg else 0)"
proof -
  have "(a = KEEP \<or> a = SUMMARIZE \<or> a = COMPRESS) \<and>
      (b = EXTERNALIZE \<or> b = SUMMARIZE \<and> a = KEEP \<or> b = COMPRESS \<and> (a = KEEP \<or> a = SUMMARIZE))"
    using assms(1) by (cases a) (auto simp: next_action_def split: if_splits)
  then show ?thesis
    using visible_externalize[OF assms(2)] visible_summarize_compress[OF assms(2)]
    by (auto simp: min_le_iff_disj)
qed

text \<open>
  What one row really costs against what the projection books for it: the projection is never
  credited with a row's growth, and only the step to a reference can make a row grow.
\<close>

lemma squeeze_projection:
  "0 \<le> sg_tokens s \<Longrightarrow> d_visible row = visible_tokens cfg s (d_recommended row) \<Longrightarrow>
   squeeze cfg s target row p = (row', p') \<Longrightarrow>
   d_visible row' - d_visible row \<le>
     p' - p + (if action_rank (d_recommended row) < 2 then overshoot cfg else 0)"
proof (induction cfg s target row p rule: squeeze.induct)
  case (1 cfg s target row p)
  have ov: "0 \<le> overshoot cfg" by (simp add: overshoot_def)
  show ?case
  proof (cases "p > target \<and> next_action s (d_recommended row) \<noteq> None")
    case False
    then show ?thesis using "1.prems"(3) ov
      by (subst (asm) squeeze.simps) (auto split: if_splits option.splits)
  next
    case True
    then obtain a where a: "next_action s (d_recommended row) = Some a" by auto
    let ?v = "visible_tokens cfg s a"
    let ?row = "row\<lparr>d_recommended := a, d_visible := ?v,
        d_reasons := fromkeys (d_reasons row @ [''BUDGET_PRESSURE''])\<rparr>"
    have "squeeze cfg s target ?row (p - max 0 (d_visible row - ?v)) = (row', p')"
      using "1.prems"(3) True a by (subst (asm) squeeze.simps) (simp add: Let_def)
    then have IH: "d_visible row' - ?v \<le> p' - (p - max 0 (d_visible row - ?v)) +
        (if action_rank a < 2 then overshoot cfg else 0)"
      using "1.IH"[OF _ a refl] True "1.prems"(1) by simp
    have step: "?v \<le> d_visible row + (if a = EXTERNALIZE then overshoot cfg else 0)"
      using next_action_visible[OF a "1.prems"(1)] "1.prems"(2) by simp
    have rank: "action_rank (d_recommended row) < 2" using next_action_rank[OF a] by simp
    have "a = EXTERNALIZE \<Longrightarrow> \<not> action_rank a < 2" by simp
    then show ?thesis using IH step rank ov by (auto simp: max_def split: if_splits)
  qed
qed

lemma signal_of_unique:
  assumes "distinct (map sg_identity signals)" and "s \<in> set signals"
  shows "signal_of signals (sg_identity s) = Some s"
proof -
  obtain t where t: "signal_of signals (sg_identity s) = Some t"
    using assms(2) by (cases "signal_of signals (sg_identity s)") (auto simp: signal_of_def find_None_iff)
  then have "t \<in> set signals" "sg_identity t = sg_identity s"
    using find_SomeD[of "\<lambda>u. sg_identity u = sg_identity s"] by (auto simp: signal_of_def)
  then show ?thesis using t distinct_key_eq[OF assms(1) _ assms(2)] by simp
qed

lemma row_for_identities: "list_all2 (row_for cfg) signals rows \<Longrightarrow> map d_identity rows = map sg_identity signals"
  by (induction signals rows rule: list_all2_induct) (auto simp: row_for_def)

text \<open>The outer loop keeps the rows related to their signals, and bounds what it overshoots.\<close>

lemma fit_rows_spec:
  assumes "distinct (map sg_identity signals)" and "\<forall>s \<in> set signals. 0 \<le> sg_tokens s"
  shows "list_all2 (row_for cfg) signals rows \<Longrightarrow> set cs \<subseteq> set rows \<Longrightarrow>
    distinct (map d_identity cs) \<Longrightarrow> \<forall>c \<in> set cs. d_recommended c \<noteq> ABSTAIN \<Longrightarrow>
    fit_rows cfg signals target cs rows p = (rows', p') \<Longrightarrow>
    list_all2 (row_for cfg) signals rows' \<and>
    sum_list (map d_visible rows') - sum_list (map d_visible rows) \<le>
      p' - p + int (length cs) * overshoot cfg"
proof (induction cs arbitrary: rows p)
  case Nil
  then show ?case by simp
next
  case (Cons c cs)
  have ov: "0 \<le> overshoot cfg" by (simp add: overshoot_def)
  have crow: "c \<in> set rows" using Cons.prems(2) by simp
  obtain s where s: "s \<in> set signals" "row_for cfg s c"
    using list_all2_memR[OF Cons.prems(1) crow] by blast
  then have so: "signal_of signals (d_identity c) = Some s"
    using signal_of_unique[OF assms(1)] by (simp add: row_for_def)
  obtain c' q where sq: "squeeze cfg s target c p = (c', q)" by fastforce
  have c': "row_for cfg s c'" "d_recommended c' \<noteq> ABSTAIN"
    using squeeze_row_for[OF s(2) _ sq] Cons.prems(4) by auto
  have proj: "d_visible c' - d_visible c \<le> q - p + overshoot cfg"
    using squeeze_projection[OF _ _ sq] s assms(2) ov by (fastforce simp: row_for_def split: if_splits)
  let ?rows = "update_where (\<lambda>d. d_identity d = d_identity c) (\<lambda>_. c') rows"
  have rows1: "list_all2 (row_for cfg) signals ?rows"
  proof (rule list_all2_update_where[OF Cons.prems(1)])
    fix x y assume "x \<in> set signals" "row_for cfg x y" "d_identity y = d_identity c"
    then have "x = s" using distinct_key_eq[OF assms(1) _ s(1)] s(2) by (simp add: row_for_def)
    then show "row_for cfg x c'" using c'(1) by simp
  qed
  have dist: "distinct (map d_identity rows)"
    using assms(1) row_for_identities[OF Cons.prems(1)] by simp
  have sum1: "sum_list (map d_visible ?rows) = sum_list (map d_visible rows) - d_visible c + d_visible c'"
    using dist crow by (rule sum_list_update_where)
  show ?case
  proof (cases "q \<le> target")
    case True
    then have "rows' = ?rows" "p' = q" using Cons.prems(5) so sq by simp_all
    moreover have "0 \<le> int (length cs) * overshoot cfg" using ov by simp
    ultimately show ?thesis using rows1 sum1 proj by (simp add: algebra_simps)
  next
    case False
    then have rec: "fit_rows cfg signals target cs ?rows q = (rows', p')" using Cons.prems(5) so sq by simp
    have sub: "set cs \<subseteq> set ?rows"
    proof
      fix x assume x: "x \<in> set cs"
      then have "d_identity x \<noteq> d_identity c" using Cons.prems(3) by (auto simp: image_iff)
      then show "x \<in> set ?rows" using x Cons.prems(2) by (force simp: set_update_where)
    qed
    have "list_all2 (row_for cfg) signals rows' \<and>
        sum_list (map d_visible rows') - sum_list (map d_visible ?rows) \<le>
          p' - q + int (length cs) * overshoot cfg"
      using Cons.IH[OF rows1 sub _ _ rec] Cons.prems(3,4) by simp
    then show ?thesis using sum1 proj by (simp add: algebra_simps)
  qed
qed

lemma fit_budget_spec:
  assumes "distinct (map sg_identity signals)" and "\<forall>s \<in> set signals. 0 \<le> sg_tokens s"
    and "fit_budget cfg signals (map (initial_decision cfg) signals) current = (rows, fit)"
    and "0 \<le> cf_target_utilization cfg" "cf_target_utilization cfg \<le> 1" "1 \<le> cf_budget cfg"
  shows "list_all2 (row_for cfg) signals rows \<and>
    (fit \<longrightarrow> current + sum_list (map d_visible rows) \<le>
       cf_budget cfg + int (length signals) * overshoot cfg)"
proof -
  let ?rows = "map (initial_decision cfg) signals"
  let ?target = "max 1 \<lfloor>of_int (cf_budget cfg) * cf_target_utilization cfg\<rfloor>"
  let ?p = "current + sum_list (map d_visible ?rows)"
  have ov: "0 \<le> overshoot cfg" by (simp add: overshoot_def)
  have rel: "list_all2 (row_for cfg) signals ?rows"
    by (simp add: list_all2_conv_all_nth row_for_initial)
  have "of_int (cf_budget cfg) * cf_target_utilization cfg \<le> of_int (cf_budget cfg)"
    using assms(5,6) by (simp add: mult_left_le)
  then have "\<lfloor>of_int (cf_budget cfg) * cf_target_utilization cfg\<rfloor> \<le> \<lfloor>of_int (cf_budget cfg) :: rat\<rfloor>"
    by (rule floor_mono)
  then have target: "?target \<le> cf_budget cfg" using assms(6) by simp
  show ?thesis
  proof (cases "?p \<le> ?target")
    case True
    then have "rows = ?rows" using assms(3) by (simp add: fit_budget_def Let_def)
    moreover have "0 \<le> int (length signals) * overshoot cfg" using ov by simp
    ultimately show ?thesis using rel True target by auto
  next
    case False
    let ?cs = "fit_candidates signals ?rows"
    obtain p' where fr: "fit_rows cfg signals ?target ?cs ?rows ?p = (rows, p')"
      and fit: "fit = (p' \<le> cf_budget cfg)"
      using assms(3) False by (auto simp: fit_budget_def Let_def split: prod.splits)
 have "distinct (map d_identity ?rows)" using assms(1) row_for_identities[OF rel] by (simp only:)
    then have "distinct (map d_identity ?cs)" unfolding fit_candidates_def
      by (rule distinct_map_sort_filter)
    moreover have "set ?cs \<subseteq> set ?rows" and "\<forall>c \<in> set ?cs. d_recommended c \<noteq> ABSTAIN"
      by (auto simp: fit_candidates_def)
    ultimately have spec: "list_all2 (row_for cfg) signals rows \<and>
        sum_list (map d_visible rows) - sum_list (map d_visible ?rows) \<le>
          p' - ?p + int (length ?cs) * overshoot cfg"
      using fit_rows_spec[OF assms(1,2) rel _ _ _ fr] by simp
    have "length ?cs \<le> length signals"
      unfolding fit_candidates_def length_sort by (rule order.trans[OF length_filter_le]) simp
    then have "int (length ?cs) * overshoot cfg \<le> int (length signals) * overshoot cfg"
      using ov by (intro mult_right_mono) auto
    then show ?thesis using spec fit by auto
  qed
qed

section \<open>What an evaluation returns\<close>

lemma evaluate_Inr:
  assumes "evaluate_policy sha cfg task signals state_opt = Inr res"
  defines "st \<equiv> (case state_opt of None \<Rightarrow> default_state | Some st \<Rightarrow> st)"
  defines "ordered \<equiv> sort_key sg_identity signals"
  obtains rows fit0 where "distinct (map sg_identity ordered)"
    and "fit_budget cfg ordered (map (initial_decision cfg) ordered) (st_current st) = (rows, fit0)"
    and "rc_decisions (pr_receipt res) =
      (if st_shadow st then map (\<lambda>d. d\<lparr>d_effective := KEEP\<rparr>) rows else rows)"
    and "rc_budget_fit (pr_receipt res) \<Longrightarrow> fit0"
    and "rc_recommended_session (pr_receipt res) = fst (session_decision cfg ordered rows st) \<or>
         rc_recommended_session (pr_receipt res) = SESSION_ABSTAIN"
    and "rc_effective_session (pr_receipt res) =
      (if st_shadow st then SESSION_KEEP else rc_recommended_session (pr_receipt res))"
    and "m_budget_fit (pr_metrics res) = rc_budget_fit (pr_receipt res)"
    and "m_recommended_visible (pr_metrics res) = sum_list (map d_visible rows)"
    and "m_input (pr_metrics res) = sum_list (map d_input rows)"
    and "m_effective_visible (pr_metrics res) =
      (if st_shadow st then m_input (pr_metrics res) else m_recommended_visible (pr_metrics res))"
    and "m_recommended_total (pr_metrics res) = st_current st + sum_list (map d_visible rows)"
    and "pr_receipt_hash res = digest sha (receipt_py (pr_receipt res))"
    and "rc_signals (pr_receipt res) = ordered"
proof -
  obtain rows fit0 where fb: "fit_budget cfg ordered (map (initial_decision cfg) ordered) (st_current st) = (rows, fit0)"
    by fastforce
  obtain sa sr where sd: "session_decision cfg ordered rows st = (sa, sr)" by fastforce
  have comps: "map d_input (map (\<lambda>d. d\<lparr>d_effective := KEEP\<rparr>) rows) = map d_input rows"
    "map d_visible (map (\<lambda>d. d\<lparr>d_effective := KEEP\<rparr>) rows) = map d_visible rows"
    by (simp_all add: comp_def)
  note eval = assms(1)[unfolded evaluate_policy_def Let_def, folded st_def, folded ordered_def,
      unfolded fb sd prod.case]
  have dist: "distinct (map sg_identity ordered)"
    using eval by (auto split: if_splits simp flip: length_remdups_eq simp: length_remdups_card_conv
        intro: card_distinct)
  show ?thesis
    by (rule that[OF dist fb])
      (use eval comps sd in \<open>auto split: if_splits prod.splits simp del: map_map simp: Let_def\<close>)
qed

lemma make_config_Inr:
  assumes "make_config raw = Inr cfg"
  shows "cfg = raw" and "256 \<le> cf_budget cfg" and "0 \<le> cf_target_utilization cfg"
    and "cf_target_utilization cfg \<le> 1" and "1 \<le> cf_external_tokens cfg"
    and "cf_target_utilization cfg \<le> cf_reset_threshold cfg"
  using assms by (auto simp: make_config_def bounded_def first_error_None split: option.splits if_splits)

lemma make_signal_Inr:
  assumes "make_signal raw = Inr s"
  shows "0 \<le> sg_tokens s" and "sg_identity s = sg_identity raw"
  using assms by (auto simp: make_signal_def signal_error_def first_error_None split: option.splits if_splits)

text \<open>A signal list as callers build it: every signal came out of the constructor.\<close>

definition made_signals :: "policy_signal list \<Rightarrow> bool" where
  "made_signals signals \<longleftrightarrow> (\<forall>s \<in> set signals. make_signal s = Inr s)"

lemma made_signals_tokens: "made_signals signals \<Longrightarrow> \<forall>s \<in> set (sort_key f signals). 0 \<le> sg_tokens s"
  by (auto simp: made_signals_def dest: make_signal_Inr(1))

lemma evaluate_rows:
  assumes "make_config raw = Inr cfg" and "made_signals signals"
    and "evaluate_policy sha cfg task signals state_opt = Inr res"
    and "d \<in> set (rc_decisions (pr_receipt res))"
  obtains s d0 where "s \<in> set signals" and "row_for cfg s d0"
    and "d = d0 \<or> d = d0\<lparr>d_effective := KEEP\<rparr>"
proof (rule evaluate_Inr[OF assms(3)])
  let ?ordered = "sort_key sg_identity signals"
  let ?st = "case state_opt of None \<Rightarrow> default_state | Some st \<Rightarrow> st"
  fix rows fit0
  assume dist: "distinct (map sg_identity ?ordered)"
    and fb: "fit_budget cfg ?ordered (map (initial_decision cfg) ?ordered) (st_current ?st) = (rows, fit0)"
    and ds: "rc_decisions (pr_receipt res) =
      (if st_shadow ?st then map (\<lambda>d. d\<lparr>d_effective := KEEP\<rparr>) rows else rows)"
  note cfg = make_config_Inr[OF assms(1)]
  have rel: "list_all2 (row_for cfg) ?ordered rows"
    using fit_budget_spec[OF dist made_signals_tokens[OF assms(2)] fb cfg(3,4)] cfg(2) by simp
  obtain d0 where "d0 \<in> set rows" "d = d0 \<or> d = d0\<lparr>d_effective := KEEP\<rparr>"
    using assms(4) ds by (auto split: if_splits)
  moreover from this(1) obtain s where "s \<in> set signals" "row_for cfg s d0"
    using list_all2_memR[OF rel] by auto
  ultimately show thesis using that by blast
qed

lemma identity_unique:
  assumes "evaluate_policy sha cfg task signals state_opt = Inr res"
    and "s \<in> set signals" "t \<in> set signals" "sg_identity s = sg_identity t"
  shows "s = t"
proof (rule evaluate_Inr[OF assms(1)])
  assume "distinct (map sg_identity (sort_key sg_identity signals))"
  from distinct_key_eq[OF this, of s t] show "s = t" using assms(2-4) by simp
qed

lemma initial_decision_recommended:
  "d_recommended (initial_decision cfg s) = fst (initial_action cfg s (utility s) (risk s))"
  by (simp add: initial_decision_def Let_def split: prod.splits)

section \<open>Properties\<close>

text \<open>
  C3. Items that must not be traded are never traded, whatever the budget: in a successful
  evaluation a security-denied item is abstained from with no visible token and so is a tainted
  item that is required exactly, each making the session abstain or stay; an untainted item
  required exactly is kept with all its tokens.
\<close>

theorem protected_items_not_traded:
  assumes "make_config raw = Inr cfg" and "made_signals signals"
    and "evaluate_policy sha cfg task signals state_opt = Inr res"
    and "s \<in> set signals" and "d \<in> set (rc_decisions (pr_receipt res))"
    and "d_identity d = sg_identity s"
  shows "(sg_denied s \<or> sg_tainted s \<and> sg_exact s \<longrightarrow> d_recommended d = ABSTAIN \<and> d_visible d = 0) \<and>
     (sg_exact s \<and> \<not> sg_tainted s \<and> \<not> sg_denied s \<longrightarrow>
        d_recommended d = KEEP \<and> d_visible d = sg_tokens s) \<and>
     (sg_denied s \<longrightarrow> rc_recommended_session (pr_receipt res) = SESSION_ABSTAIN)"
proof (rule evaluate_rows[OF assms(1-3,5)])
  fix t d0
  assume t: "t \<in> set signals" "row_for cfg t d0" and d: "d = d0 \<or> d = d0\<lparr>d_effective := KEEP\<rparr>"
  have "sg_identity t = sg_identity s" using assms(6) t(2) d by (auto simp: row_for_def)
  then have "t = s" using identity_unique[OF assms(3) t(1) assms(4)] by simp
  then have row: "row_for cfg s d0" using t(2) by simp
  have rec: "d_recommended d = d_recommended d0" "d_visible d = d_visible d0" using d by auto
  have sess: "sg_denied s \<Longrightarrow> rc_recommended_session (pr_receipt res) = SESSION_ABSTAIN"
    by (rule evaluate_Inr[OF assms(3)]) (use assms(4) in \<open>auto simp: session_decision_def\<close>)
  show ?thesis using row rec sess
    by (auto simp: row_for_def initial_decision_def initial_action_def Let_def)
qed

text \<open>
  C8. The budget promise, with its exact limit: when an evaluation reports \<open>budget_fit\<close>, the
  recommended total is within the context budget up to an overshoot of at most
  \<open>external_reference_tokens - 16\<close> tokens per item; with references of at most 16 tokens it is
  within the budget.
\<close>

theorem budget_fit_bound:
  assumes "make_config raw = Inr cfg" and "made_signals signals"
    and "evaluate_policy sha cfg task signals state_opt = Inr res"
    and "m_budget_fit (pr_metrics res)"
  shows "m_recommended_total (pr_metrics res) \<le>
       cf_budget cfg + int (length signals) * max 0 (cf_external_tokens cfg - 16) \<and>
     (cf_external_tokens cfg \<le> 16 \<longrightarrow> m_recommended_total (pr_metrics res) \<le> cf_budget cfg)"
proof (rule evaluate_Inr[OF assms(3)])
  let ?ordered = "sort_key sg_identity signals"
  let ?st = "case state_opt of None \<Rightarrow> default_state | Some st \<Rightarrow> st"
  fix rows fit0
  assume dist: "distinct (map sg_identity ?ordered)"
    and fb: "fit_budget cfg ?ordered (map (initial_decision cfg) ?ordered) (st_current ?st) = (rows, fit0)"
    and fit: "rc_budget_fit (pr_receipt res) \<Longrightarrow> fit0"
    and m: "m_budget_fit (pr_metrics res) = rc_budget_fit (pr_receipt res)"
    and total: "m_recommended_total (pr_metrics res) = st_current ?st + sum_list (map d_visible rows)"
  note cfg = make_config_Inr[OF assms(1)]
  have "st_current ?st + sum_list (map d_visible rows) \<le>
      cf_budget cfg + int (length signals) * overshoot cfg"
    using fit_budget_spec[OF dist made_signals_tokens[OF assms(2)] fb cfg(3,4)] cfg(2) fit m assms(4)
    by simp
  then show ?thesis using total by (auto simp: overshoot_def)
qed

text \<open>
  Shadow mode is inert: no item and no session action takes effect, every decision stays
  \<open>KEEP\<close>, and the effective visible tokens are exactly the input tokens.
\<close>

theorem shadow_mode_inert:
  assumes "evaluate_policy sha cfg task signals (Some st) = Inr res" and "st_shadow st"
  shows "(\<forall>d \<in> set (rc_decisions (pr_receipt res)). d_effective d = KEEP) \<and>
     rc_effective_session (pr_receipt res) = SESSION_KEEP \<and>
     m_effective_visible (pr_metrics res) = m_input (pr_metrics res)"
  by (rule evaluate_Inr[OF assms(1)]) (use assms(2) in auto)

text \<open>
  Outside shadow mode the effective action of an item is the one chosen before the budget
  was looked at: budget pressure changes only the recommended action, although the effective
  token count is the one of the recommended actions.
\<close>

theorem budget_pressure_not_effective:
  assumes "make_config raw = Inr cfg" and "made_signals signals"
    and "evaluate_policy sha cfg task signals (Some st) = Inr res" and "\<not> st_shadow st"
  shows "(\<forall>d \<in> set (rc_decisions (pr_receipt res)). \<exists>s \<in> set signals.
       sg_identity s = d_identity d \<and> d_effective d = fst (initial_action cfg s (utility s) (risk s)) \<and>
       d_visible d = visible_tokens cfg s (d_recommended d)) \<and>
     m_effective_visible (pr_metrics res) = m_recommended_visible (pr_metrics res)"
proof (rule evaluate_Inr[OF assms(3)])
  let ?ordered = "sort_key sg_identity signals"
  fix rows fit0
  assume dist: "distinct (map sg_identity ?ordered)"
    and fb: "fit_budget cfg ?ordered (map (initial_decision cfg) ?ordered)
      (st_current (case Some st of None \<Rightarrow> default_state | Some st \<Rightarrow> st)) = (rows, fit0)"
    and ds: "rc_decisions (pr_receipt res) =
      (if st_shadow (case Some st of None \<Rightarrow> default_state | Some st \<Rightarrow> st)
       then map (\<lambda>d. d\<lparr>d_effective := KEEP\<rparr>) rows else rows)"
    and eff: "m_effective_visible (pr_metrics res) =
      (if st_shadow (case Some st of None \<Rightarrow> default_state | Some st \<Rightarrow> st)
       then m_input (pr_metrics res) else m_recommended_visible (pr_metrics res))"
  note cfg = make_config_Inr[OF assms(1)]
  have rel: "list_all2 (row_for cfg) ?ordered rows"
    using fit_budget_spec[OF dist made_signals_tokens[OF assms(2)] fb cfg(3,4)] cfg(2) by simp
  have "\<exists>s \<in> set signals. sg_identity s = d_identity d \<and>
      d_effective d = fst (initial_action cfg s (utility s) (risk s)) \<and>
      d_visible d = visible_tokens cfg s (d_recommended d)" if d: "d \<in> set rows" for d
  proof -
    obtain s where "s \<in> set signals" "row_for cfg s d" using list_all2_memR[OF rel d] by auto
    then show ?thesis by (intro bexI[of _ s]) (auto simp: row_for_def initial_decision_recommended)
  qed
  then show ?thesis using ds eff assms(4) by simp
qed

text \<open>
  The evaluation is deterministic in the set of signals: feeding the same signals in any
  other order gives the same result, receipt hash and error included.
\<close>

theorem evaluation_order_independent:
  assumes "mset signals = mset signals'"
  shows "evaluate_policy sha cfg task signals state_opt = evaluate_policy sha cfg task signals' state_opt"
proof (cases "distinct (map sg_identity signals)")
  case True
  then have "sort_key sg_identity signals = sort_key sg_identity signals'"
    using assms by (intro sort_key_mset_cong) auto
  then show ?thesis by (simp add: evaluate_policy_def)
next
  case False
  have dup: "length (remdups (map sg_identity (sort_key sg_identity xs))) \<noteq> length (sort_key sg_identity xs)"
    if "mset xs = mset signals" for xs
  proof -
    have "mset (map sg_identity (sort_key sg_identity xs)) = mset (map sg_identity signals)"
      using that by (simp add: mset_map)
    then have "\<not> distinct (map sg_identity (sort_key sg_identity xs))"
      using False by (metis mset_eq_imp_distinct_iff)
    then show ?thesis by (metis length_map length_remdups_eq remdups_id_iff_distinct)
  qed
  show ?thesis using dup[OF refl] dup[of signals'] assms unfolding evaluate_policy_def Let_def
    by (simp only: simp_thms if_True)
qed

section \<open>Concrete evaluations\<close>

definition plain_signal :: "string \<Rightarrow> int \<Rightarrow> rat \<Rightarrow> policy_signal" where
  "plain_signal i tokens rel = \<lparr>sg_identity = i, sg_tokens = tokens, sg_relevance = rel,
     sg_trust = 1, sg_freshness = 1, sg_recoverable = True, sg_exact = False, sg_tainted = False,
     sg_denied = False, sg_summarizable = True, sg_compressible = True, sg_externalizable = True,
     sg_uri = '''', sg_item_id = '''', sg_refs = [], sg_metadata = []\<rparr>"

definition sample_signals :: "policy_signal list" where
  "sample_signals = [plain_signal ''b'' 300 1, (plain_signal ''a'' 100 (1/2))\<lparr>sg_exact := True\<rparr>,
     (plain_signal ''c'' 50 (1/2))\<lparr>sg_denied := True\<rparr>]"

definition no_sha :: "pyval \<Rightarrow> string" where
  "no_sha v = ''0''"

definition sample_result :: policy_result where
  "sample_result = (case evaluate_policy no_sha (default_config 256) ''t'' sample_signals (Some default_state) of
     Inr r \<Rightarrow> r | Inl _ \<Rightarrow> undefined)"

definition two_signals :: "policy_signal list" where
  "two_signals = [plain_signal ''b'' 300 1, plain_signal ''a'' 100 (1/2)]"

definition two_result :: policy_result where
  "two_result = (case evaluate_policy no_sha (default_config 256) ''t'' two_signals (Some default_state) of
     Inr r \<Rightarrow> r | Inl _ \<Rightarrow> undefined)"

definition shadow_state :: policy_state where
  "shadow_state = default_state\<lparr>st_shadow := True\<rparr>"

definition shadow_result :: policy_result where
  "shadow_result = (case evaluate_policy no_sha (default_config 256) ''t'' two_signals (Some shadow_state) of
     Inr r \<Rightarrow> r | Inl _ \<Rightarrow> undefined)"

lemma config_256: "make_config (default_config 256) = Inr (default_config 256)"
  by code_simp

lemma sample_eval:
  "evaluate_policy no_sha (default_config 256) ''t'' sample_signals (Some default_state) = Inr sample_result"
  unfolding sample_result_def by code_simp

lemma made_samples: "made_signals sample_signals" "made_signals two_signals"
  by code_simp+

lemma two_eval:
  "evaluate_policy no_sha (default_config 256) ''t'' two_signals (Some default_state) = Inr two_result"
  unfolding two_result_def by code_simp

lemma shadow_eval:
  "evaluate_policy no_sha (default_config 256) ''t'' two_signals (Some shadow_state) = Inr shadow_result"
  unfolding shadow_result_def by code_simp

theorem protected_items_not_traded_witness:
  "\<exists>d \<in> set (rc_decisions (pr_receipt sample_result)). d_identity d = ''c'' \<and> d_recommended d = ABSTAIN"
proof -
  have "\<exists>d \<in> set (rc_decisions (pr_receipt sample_result)). d_identity d = ''c''"
    by code_simp
  then obtain d where d: "d \<in> set (rc_decisions (pr_receipt sample_result))" "d_identity d = ''c''" by blast
  have "sample_signals ! 2 \<in> set sample_signals" by (simp add: sample_signals_def)
  from protected_items_not_traded[OF config_256 made_samples(1) sample_eval this d(1)] d
  show ?thesis by (intro bexI[of _ d]) (simp_all add: sample_signals_def plain_signal_def)
qed

theorem budget_fit_bound_witness:
  "m_budget_fit (pr_metrics two_result) \<and> m_recommended_total (pr_metrics two_result) \<le> 272"
proof -
  have fit: "m_budget_fit (pr_metrics two_result)" by code_simp
  from budget_fit_bound[OF config_256 made_samples(2) two_eval fit] fit
  show ?thesis by (simp add: default_config_def two_signals_def)
qed

theorem shadow_mode_inert_witness:
  "m_effective_visible (pr_metrics shadow_result) = m_input (pr_metrics shadow_result)"
  using shadow_mode_inert[OF shadow_eval] by (simp add: shadow_state_def)

theorem budget_pressure_not_effective_witness:
  "m_effective_visible (pr_metrics two_result) = m_recommended_visible (pr_metrics two_result) \<and>
   (\<exists>d \<in> set (rc_decisions (pr_receipt two_result)). d_effective d = KEEP \<and> d_recommended d \<noteq> KEEP)"
proof -
  have "\<exists>d \<in> set (rc_decisions (pr_receipt two_result)). d_effective d = KEEP \<and> d_recommended d \<noteq> KEEP"
    by code_simp
  then show ?thesis
    using budget_pressure_not_effective[OF config_256 made_samples(2) two_eval]
    by (simp add: default_state_def)
qed

theorem evaluation_order_independent_witness:
  "evaluate_policy no_sha (default_config 256) ''t'' two_signals None =
   evaluate_policy no_sha (default_config 256) ''t'' (rev two_signals) None"
  by (rule evaluation_order_independent) simp

text \<open>
  The overshoot is real: beside 240 tokens of session context one compressed item of sixteen
  visible tokens fills the budget of 256, the projection does not rise when the item becomes a
  reference of twenty tokens, and the evaluation reports a fit while its total exceeds the budget.
\<close>

theorem budget_overrun:
  "(case evaluate_policy no_sha (default_config 256) ''t'' [plain_signal ''a'' 20 0]
      (Some (default_state\<lparr>st_current := 240\<rparr>)) of
      Inl _ \<Rightarrow> False
    | Inr r \<Rightarrow> m_budget_fit (pr_metrics r) \<and> m_recommended_total (pr_metrics r) > cf_budget (default_config 256))"
  by code_simp

end
