(* ===== verification/HashChain.thy ===== *)
theory HashChain
  imports Prelude
begin

text \<open>
  Hash-chained logs.  A log is a list of entries, each naming the hash of the one before it
  (\<open>prev\<close>) and carrying its own (\<open>hash\<close>).  The locale \<open>hash_chain\<close> is the contract the logs
  of the program share (decision traces, session histories, usage ledgers): the hash of a well
  formed entry is the digest of its body, and the body determines the entry.  Its lemmas say
  when a hash commits to everything before it.  Collision freedom is never assumed of the
  digest as such, only on the finitely many bodies a statement speaks of.
\<close>

section \<open>The shape of a digest\<close>

definition zero_hash :: string where
  "zero_hash = replicate 64 (CHR ''0'')"

definition hex_digits :: string where
  "hex_digits = ''0123456789abcdef''"

definition is_sha256 :: "string \<Rightarrow> bool" where
  "is_sha256 v \<longleftrightarrow> length v = 64 \<and> list_all (\<lambda>c. c \<in> set hex_digits) v"

text \<open>The documented shape of a SHA-256 digest: 64 lower case hexadecimal digits.\<close>

definition sha_shape :: "(pyval \<Rightarrow> string) \<Rightarrow> bool" where
  "sha_shape sha \<longleftrightarrow> (\<forall>v. is_sha256 (sha v))"

lemma casefold_hex: "list_all (\<lambda>c. c \<in> set hex_digits) v \<Longrightarrow> py_casefold v = v"
  by (induction v) (auto simp: py_casefold_def hex_digits_def lower_char_def)

lemma is_sha256_casefold: "is_sha256 v \<Longrightarrow> py_casefold v = v"
  by (simp add: is_sha256_def casefold_hex)

lemma zero_hash_shape: "is_sha256 zero_hash"
  by (simp add: is_sha256_def zero_hash_def hex_digits_def list_all_iff)

lemma digest_shape: "sha_shape sha \<Longrightarrow> is_sha256 (digest sha v)"
  by (simp add: sha_shape_def digest_def)

section \<open>Linked logs\<close>

fun linked :: "('e \<Rightarrow> 'h) \<Rightarrow> ('e \<Rightarrow> 'h) \<Rightarrow> 'h \<Rightarrow> 'e list \<Rightarrow> bool" where
  "linked prev hash h [] = True"
| "linked prev hash h (e # es) = (prev e = h \<and> linked prev hash (hash e) es)"

text \<open>The hash a log of this history ends with, which the next entry must name.\<close>

definition head_hash :: "('e \<Rightarrow> 'h) \<Rightarrow> 'h \<Rightarrow> 'e list \<Rightarrow> 'h" where
  "head_hash hash zero es = (if es = [] then zero else hash (last es))"

lemma linked_append:
  "linked prev hash h (xs @ ys) \<longleftrightarrow> linked prev hash h xs \<and> linked prev hash (head_hash hash h xs) ys"
  by (induction xs arbitrary: h) (auto simp: head_hash_def)

lemma linked_take: "linked prev hash h xs \<Longrightarrow> linked prev hash h (take n xs)"
  by (metis append_take_drop_id linked_append)

lemma head_hash_snoc [simp]: "head_hash hash h (xs @ [e]) = hash e" "head_hash hash h [] = h"
  by (simp_all add: head_hash_def)

text \<open>Entries numbered without gaps.\<close>

fun numbered :: "('e \<Rightarrow> int) \<Rightarrow> int \<Rightarrow> 'e list \<Rightarrow> bool" where
  "numbered seq n [] = True"
| "numbered seq n (e # es) = (seq e = n \<and> numbered seq (n + 1) es)"

lemma numbered_append:
  "numbered seq n (xs @ ys) \<longleftrightarrow> numbered seq n xs \<and> numbered seq (n + int (length xs)) ys"
  by (induction xs arbitrary: n) (auto simp: algebra_simps)

lemma numbered_last: "numbered seq n es \<Longrightarrow> es \<noteq> [] \<Longrightarrow> seq (last es) = n + int (length es) - 1"
  by (cases es rule: rev_cases) (auto simp: numbered_append)

lemma numbered_take: "numbered seq n es \<Longrightarrow> numbered seq n (take k es)"
  by (metis append_take_drop_id numbered_append)

lemma numbered_range: "numbered seq n es \<Longrightarrow> e \<in> set es \<Longrightarrow> n \<le> seq e \<and> seq e < n + int (length es)"
  by (induction es arbitrary: n) force+

lemma numbered_sorted: "numbered seq n es \<Longrightarrow> sorted (map seq es)"
  by (induction es arbitrary: n) (auto dest: numbered_range)

text \<open>\<open>ORDER BY sequence DESC LIMIT 1\<close> finds the last entry.\<close>

lemma numbered_first_min:
  assumes "numbered seq n es"
  shows "first_min (\<lambda>e. - seq e) es = (if es = [] then None else Some (last es))"
proof (cases "es = []")
  case False
  then obtain e where e: "first_min (\<lambda>e. - seq e) es = Some e" by (cases "first_min (\<lambda>e. - seq e) es") auto
  obtain xs where es: "es = xs @ [last es]" using False by (metis append_butlast_last_id)
  have le: "seq (last es) \<le> seq e" "e \<in> set es" using first_min_Some[OF e] False by auto
  have "e = last es"
  proof (rule ccontr)
    assume "e \<noteq> last es"
    then have "e \<in> set xs" using le(2) es by (metis Un_iff empty_iff empty_set set_ConsD set_append)
    moreover have "numbered seq n xs" "seq (last es) = n + int (length xs)"
      using assms numbered_append[of seq n xs "[last es]"] es by auto
    ultimately show False using numbered_range[of seq n xs e] le(1) by simp
  qed
  then show ?thesis using e False by simp
qed simp

locale hash_chain =
  fixes prev :: "'e \<Rightarrow> 'h" and hash :: "'e \<Rightarrow> 'h" and zero :: 'h
    and wf :: "'e \<Rightarrow> bool" and body :: "'e \<Rightarrow> 'b" and seal :: "'b \<Rightarrow> 'h"
  assumes hash_seal: "wf e \<Longrightarrow> hash e = seal (body e)"
    and body_inj: "wf e \<Longrightarrow> wf e' \<Longrightarrow> body e = body e' \<Longrightarrow> e = e'"
begin

lemma hash_inj:
  assumes "\<forall>e \<in> A. wf e" and "inj_on seal (body ` A)"
  shows "inj_on hash A"
  proof (rule inj_onI)
  fix x y
  assume xy: "x \<in> A" "y \<in> A" "hash x = hash y"
  then have "wf x" "wf y" using assms(1) by auto
  moreover from this have "seal (body x) = seal (body y)" using xy(3) hash_seal by simp
  then have "body x = body y" using inj_onD[OF assms(2)] xy(1,2) by blast
  ultimately show "x = y" by (rule body_inj)
qed

text \<open>Two logs that end with the same hash share everything: one is a tail of the other.\<close>

lemma common_suffix:
  "linked prev hash zero xs \<Longrightarrow> linked prev hash zero ys \<Longrightarrow> \<forall>e \<in> set xs \<union> set ys. wf e \<Longrightarrow>
   inj_on seal (body ` (set xs \<union> set ys)) \<Longrightarrow> xs \<noteq> [] \<Longrightarrow> ys \<noteq> [] \<Longrightarrow> hash (last xs) = hash (last ys) \<Longrightarrow>
   \<exists>zs. xs = zs @ ys \<or> ys = zs @ xs"
proof (induction xs arbitrary: ys rule: rev_induct)
  case Nil
  then show ?case by simp
next
  case (snoc x xs)
  obtain y ys' where ys: "ys = ys' @ [y]" using snoc.prems(6) by (cases ys rule: rev_cases) auto
  have "x = y"
    by (rule inj_onD[OF hash_inj[OF snoc.prems(3,4)]]) (use snoc.prems(7) ys in auto)
  show ?case
  proof (cases "xs = [] \<or> ys' = []")
    case True
    then show ?thesis using \<open>x = y\<close> ys by auto
  next
    case False
    have "prev x = hash (last xs)" "prev y = hash (last ys')"
      using snoc.prems(1,2) False ys by (simp_all add: linked_append head_hash_def)
    moreover have "linked prev hash zero xs" "linked prev hash zero ys'"
      using snoc.prems(1,2) ys by (simp_all add: linked_append)
    moreover have "inj_on seal (body ` (set xs \<union> set ys'))"
      using snoc.prems(4) ys by (auto intro: inj_on_subset)
    ultimately obtain zs where "xs = zs @ ys' \<or> ys' = zs @ xs"
      using snoc.IH[of ys'] snoc.prems(3) ys False \<open>x = y\<close> by auto
    then show ?thesis using ys \<open>x = y\<close> by auto
  qed
qed

lemma same_length_same_log:
  assumes "linked prev hash zero xs" and "linked prev hash zero ys"
    and "\<forall>e \<in> set xs \<union> set ys. wf e" and "inj_on seal (body ` (set xs \<union> set ys))"
    and "length xs = length ys" and "head_hash hash zero xs = head_hash hash zero ys"
  shows "xs = ys"
proof (cases "xs = []")
  case False
  then have "ys \<noteq> []" using assms(5) by auto
  then show ?thesis
    using common_suffix[OF assms(1-4) False] assms(5,6) False by (auto simp: head_hash_def)
qed (use assms(5) in simp)

text \<open>If no entry hashes to the initial value, the last hash alone commits to the whole log.\<close>

lemma same_head_same_log:
  assumes "linked prev hash zero xs" and "linked prev hash zero ys"
    and "\<forall>e \<in> set xs \<union> set ys. wf e \<and> hash e \<noteq> zero" and "inj_on seal (body ` (set xs \<union> set ys))"
    and "head_hash hash zero xs = head_hash hash zero ys"
  shows "xs = ys"
proof (cases "xs = [] \<or> ys = []")
  case True
  then show ?thesis using assms(3,5) by (auto simp: head_hash_def split: if_splits)
next
  case False
  then obtain zs where zs: "xs = zs @ ys \<or> ys = zs @ xs"
    using common_suffix[OF assms(1,2) _ assms(4)] assms(3,5) by (auto simp: head_hash_def)
  have "zs = []"
  proof (rule ccontr)
    assume ne: "zs \<noteq> []"
    have hd: "prev (hd es) = zero" if "linked prev hash zero es" "es \<noteq> []" for es
      using that by (cases es) auto
    have "hash (last zs) = zero"
      using zs assms(1,2) False ne hd[of xs] hd[of ys]
      by (auto simp: linked_append head_hash_def neq_Nil_conv)
    moreover have "last zs \<in> set xs \<union> set ys" using zs ne by auto
    ultimately show False using assms(3) by blast
  qed
  then show ?thesis using zs by auto
qed

end

end
