(* ===== verification/DecisionTrace.thy ===== *)
theory DecisionTrace
  imports ContextPolicy HashChain
begin

text \<open>
  The decision trace of \<open>syntavra_runtime/context_decision_trace.py\<close>: a hash-chained record of
  what the context policy recommended and what took effect, one event per item, one for the
  session, and one per later retrieval.  Traces and events are typed records, so the checks
  that a row is a mapping or a list hold by construction; every other check of \<open>verify\<close> is a
  branch of the model.
\<close>

section \<open>Events\<close>

definition require_sha256 :: "string \<Rightarrow> string \<Rightarrow> string + string" where
  "require_sha256 name v =
     (let n = py_casefold v in
      if \<not> is_sha256 n then Inl (name @ '' must be a lowercase sha256'') else Inr n)"

definition trace_decisions :: "string list" where
  "trace_decisions = [''include'', ''omit'', ''compress'', ''retrieve'', ''reset'', ''abstain'', ''branch'']"

definition action_to_decision :: "(string \<times> string) list" where
  "action_to_decision =
     [(''KEEP'', ''include''), (''SUMMARIZE'', ''compress''), (''COMPRESS'', ''compress''),
      (''EXTERNALIZE'', ''omit''), (''RESET'', ''reset''), (''ABSTAIN'', ''abstain''),
      (''BRANCH'', ''branch''), (''RETRIEVE'', ''retrieve'')]"

definition decision_of :: "string \<Rightarrow> string + string" where
  "decision_of action =
     (case map_of action_to_decision action of
        None \<Rightarrow> Inl (''unsupported traced policy action: '' @ action)
      | Some d \<Rightarrow> Inr d)"

record trace_event =
  ev_sequence :: int
  ev_scope :: string
  ev_identity :: string
  ev_recommended_decision :: string
  ev_effective_decision :: string
  ev_recommended_action :: string
  ev_effective_action :: string
  ev_reasons :: "string list"
  ev_refs :: "string list"
  ev_uri :: string
  ev_item_id :: string
  ev_input :: int
  ev_visible :: int
  ev_previous :: string
  ev_hash :: string

text \<open>An error message, when the value does not have the wanted shape.\<close>

definition sha256_error :: "string \<Rightarrow> string \<Rightarrow> string option" where
  "sha256_error name v = (case require_sha256 name v of Inl e \<Rightarrow> Some e | Inr _ \<Rightarrow> None)"

definition event_error :: "trace_event \<Rightarrow> string option" where
  "event_error e = first_error
     [if ev_sequence e < 1 then Some ''trace sequence must be positive'' else None,
      if ev_scope e \<notin> set [''item'', ''session'', ''retrieval'']
      then Some (''unsupported trace scope: '' @ ev_scope e) else None,
      if ev_identity e = '''' then Some ''trace identity is required'' else None,
      if ev_recommended_decision e \<notin> set trace_decisions
      then Some (''unsupported recommended trace decision: '' @ ev_recommended_decision e) else None,
      if ev_effective_decision e \<notin> set trace_decisions
      then Some (''unsupported effective trace decision: '' @ ev_effective_decision e) else None,
      if ev_input e < 0 \<or> ev_visible e < 0 then Some ''trace token counts must be non-negative'' else None,
      sha256_error ''previous_event_hash'' (ev_previous e), sha256_error ''event_hash'' (ev_hash e)]"

definition make_event :: "trace_event \<Rightarrow> string + trace_event" where
  "make_event e = checkE [event_error e] e"

text \<open>The fields of an event without its own hash, as they are hashed.\<close>

definition event_fields :: "trace_event \<Rightarrow> fields" where
  "event_fields e =
     [(''sequence'', PyInt (ev_sequence e)), (''scope'', PyStr (ev_scope e)),
      (''identity'', PyStr (ev_identity e)),
      (''recommended_decision'', PyStr (ev_recommended_decision e)),
      (''effective_decision'', PyStr (ev_effective_decision e)),
      (''recommended_action'', PyStr (ev_recommended_action e)),
      (''effective_action'', PyStr (ev_effective_action e)),
      (''reason_codes'', py_strs (ev_reasons e)), (''source_refs'', py_strs (ev_refs e)),
      (''namespace_uri'', PyStr (ev_uri e)), (''item_id'', PyStr (ev_item_id e)),
      (''input_tokens'', PyInt (ev_input e)), (''visible_tokens'', PyInt (ev_visible e)),
      (''previous_event_hash'', PyStr (ev_previous e))]"

definition event_basis :: "trace_event \<Rightarrow> pyval" where
  "event_basis e = PyDict ((''schema_version'', PyInt 1) # event_fields e)"

definition event_py :: "trace_event \<Rightarrow> pyval" where
  "event_py e = PyDict (event_fields e @ [(''event_hash'', PyStr (ev_hash e))])"

text \<open>\<open>_seal_event\<close>: the draft carries the caller's fields, the rest is computed.\<close>

definition seal_event ::
  "(pyval \<Rightarrow> string) \<Rightarrow> int \<Rightarrow> string \<Rightarrow> string \<Rightarrow> string \<Rightarrow> string \<Rightarrow> string list \<Rightarrow> string list \<Rightarrow>
   string \<Rightarrow> string \<Rightarrow> int \<Rightarrow> int \<Rightarrow> string \<Rightarrow> string + trace_event" where
  "seal_event sha seq scope identity recommended effective reasons refs uri item_id input visible prev =
     bindE (decision_of recommended) (\<lambda>rd. bindE (decision_of effective) (\<lambda>ed.
     bindE (require_sha256 ''previous_event_hash'' prev) (\<lambda>ph.
     let e = \<lparr>ev_sequence = seq, ev_scope = scope, ev_identity = identity,
           ev_recommended_decision = rd, ev_effective_decision = ed,
           ev_recommended_action = recommended, ev_effective_action = effective,
           ev_reasons = fromkeys (filter (\<lambda>r. r \<noteq> '''') reasons),
           ev_refs = sorted_set (filter (\<lambda>r. r \<noteq> '''') refs), ev_uri = uri, ev_item_id = item_id,
           ev_input = max 0 input, ev_visible = max 0 visible, ev_previous = ph, ev_hash = ''''\<rparr>
     in make_event (e\<lparr>ev_hash := digest sha (event_basis e)\<rparr>))))"

section \<open>Traces\<close>

record decision_trace =
  tr_schema :: int
  tr_receipt_hash :: string
  tr_events :: "trace_event list"
  tr_event_count :: int
  tr_counts :: "(string \<times> int) list"
  tr_hash :: string

definition decision_counts :: "trace_event list \<Rightarrow> (string \<times> int) list" where
  "decision_counts events =
     (let ds = map ev_recommended_decision events in
      map (\<lambda>d. (d, int (count_list ds d))) (sorted_set ds))"

definition trace_basis :: "string \<Rightarrow> trace_event list \<Rightarrow> pyval" where
  "trace_basis receipt_hash events = PyDict
     [(''schema_version'', PyInt 1), (''policy_receipt_hash'', PyStr receipt_hash),
      (''events'', PyList (map event_py events)), (''event_count'', PyInt (int (length events))),
      (''decision_counts'', PyDict (map (\<lambda>(d, n). (d, PyInt n)) (decision_counts events)))]"

definition seal_trace :: "(pyval \<Rightarrow> string) \<Rightarrow> string \<Rightarrow> trace_event list \<Rightarrow> string + decision_trace" where
  "seal_trace sha receipt_hash events =
     bindE (require_sha256 ''policy_receipt_hash'' receipt_hash) (\<lambda>rh.
     Inr \<lparr>tr_schema = 1, tr_receipt_hash = rh, tr_events = events,
          tr_event_count = int (length events), tr_counts = decision_counts events,
          tr_hash = digest sha (trace_basis rh events)\<rparr>)"

fun verify_events :: "(pyval \<Rightarrow> string) \<Rightarrow> int \<Rightarrow> string \<Rightarrow> trace_event list \<Rightarrow> string option" where
  "verify_events sha index previous [] = None"
| "verify_events sha index previous (e # es) =
     (case first_error
        [if ev_sequence e \<noteq> index then Some ''context decision trace sequence drift'' else None,
         if ev_previous e \<noteq> previous then Some ''context decision trace previous hash drift'' else None,
         if ev_hash e \<noteq> digest sha (event_basis e)
         then Some ''context decision trace event hash mismatch'' else None,
         event_error e] of
        Some err \<Rightarrow> Some err
      | None \<Rightarrow> verify_events sha (index + 1) (ev_hash e) es)"

definition verify_trace :: "(pyval \<Rightarrow> string) \<Rightarrow> decision_trace \<Rightarrow> string + bool" where
  "verify_trace sha t =
     (if tr_schema t \<noteq> 1 then Inl ''context decision trace schema drift''
      else bindE (require_sha256 ''policy_receipt_hash'' (tr_receipt_hash t)) (\<lambda>rh.
        checkE
          [if tr_events t = [] then Some ''context decision trace requires events'' else None,
           if tr_event_count t \<noteq> int (length (tr_events t))
           then Some ''context decision trace event count drift'' else None,
           verify_events sha 1 zero_hash (tr_events t),
           if sort_key fst (tr_counts t) \<noteq> decision_counts (tr_events t)
           then Some ''context decision trace decision counts drift'' else None,
           if tr_hash t \<noteq> digest sha (trace_basis rh (tr_events t))
           then Some ''context decision trace hash mismatch'' else None] True))"

section \<open>Building traces\<close>

definition verify_policy_receipt :: "(pyval \<Rightarrow> string) \<Rightarrow> policy_result \<Rightarrow> string + policy_receipt \<times> string" where
  "verify_policy_receipt sha res =
     bindE (require_sha256 ''policy receipt hash'' (pr_receipt_hash res)) (\<lambda>_.
     checkE
       [if pr_receipt_hash res \<noteq> digest sha (receipt_py (pr_receipt res))
        then Some ''policy receipt hash mismatch'' else None,
        reference_only ''policy_receipt.signals'' (PyList (map signal_py (rc_signals (pr_receipt res))))]
       (pr_receipt res, pr_receipt_hash res))"

fun item_events ::
  "(pyval \<Rightarrow> string) \<Rightarrow> int \<Rightarrow> string \<Rightarrow> policy_decision list \<Rightarrow> string + trace_event list" where
  "item_events sha n previous [] = Inr []"
| "item_events sha n previous (d # ds) =
     bindE (seal_event sha n ''item'' (d_identity d) (item_action_name (d_recommended d))
       (item_action_name (d_effective d)) (d_reasons d) (d_refs d) (d_uri d) (d_item_id d)
       (d_input d) (d_visible d) previous) (\<lambda>e.
     bindE (item_events sha (n + 1) (ev_hash e) ds) (\<lambda>es. Inr (e # es)))"

definition from_policy_result :: "(pyval \<Rightarrow> string) \<Rightarrow> policy_result \<Rightarrow> string + decision_trace" where
  "from_policy_result sha res =
     bindE (verify_policy_receipt sha res) (\<lambda>(receipt, receipt_hash).
     bindE (item_events sha 1 zero_hash (rc_decisions receipt)) (\<lambda>events.
     bindE (seal_event sha (int (length events) + 1) ''session'' ''session''
       (session_action_name (rc_recommended_session receipt))
       (session_action_name (rc_effective_session receipt)) (rc_session_reasons receipt) [] '''' ''''
       (m_input (pr_metrics res)) (m_effective_visible (pr_metrics res))
       (head_hash ev_hash zero_hash events)) (\<lambda>session_event.
     bindE (seal_trace sha receipt_hash (events @ [session_event])) (\<lambda>trace.
     bindE (verify_trace sha trace) (\<lambda>_. Inr trace)))))"

definition append_retrieval ::
  "(pyval \<Rightarrow> string) \<Rightarrow> decision_trace \<Rightarrow> string \<Rightarrow> string list \<Rightarrow> string \<Rightarrow> string \<Rightarrow> string list \<Rightarrow> int \<Rightarrow>
   string + decision_trace" where
  "append_retrieval sha trace identity refs uri item_id reasons visible =
     bindE (verify_trace sha trace) (\<lambda>_.
     bindE (seal_event sha (int (length (tr_events trace)) + 1) ''retrieval'' identity
       ''RETRIEVE'' ''RETRIEVE'' reasons refs uri item_id 0 visible
       (head_hash ev_hash zero_hash (tr_events trace))) (\<lambda>e.
     bindE (seal_trace sha (tr_receipt_hash trace) (tr_events trace @ [e])) (\<lambda>result.
     bindE (verify_trace sha result) (\<lambda>_. Inr result))))"

section \<open>What verification means\<close>

text \<open>An event that passes the constructor and carries the digest of its own fields.\<close>

definition event_ok :: "(pyval \<Rightarrow> string) \<Rightarrow> trace_event \<Rightarrow> bool" where
  "event_ok sha e \<longleftrightarrow> ev_hash e = digest sha (event_basis e) \<and> event_error e = None"

lemma event_basis_inj:
  assumes "canon (event_basis e) = canon (event_basis e')" and "ev_hash e = ev_hash e'"
  shows "e = e'"
proof -
  have "map (canon \<circ> snd) ((''schema_version'', PyInt 1) # event_fields e) =
      map (canon \<circ> snd) ((''schema_version'', PyInt 1) # event_fields e')"
    using assms(1) unfolding event_basis_def by (rule canon_dict_eqD) (simp_all add: event_fields_def)
  then show ?thesis using assms(2) by (simp add: event_fields_def)
qed

interpretation trace_log: hash_chain ev_previous ev_hash zero_hash "event_ok sha"
  "\<lambda>e. canon (event_basis e)" sha for sha :: "pyval \<Rightarrow> string"
proof
  show "ev_hash e = sha (canon (event_basis e))" if "event_ok sha e" for e
    using that by (simp add: event_ok_def digest_def)
  show "e = e'" if "event_ok sha e" "event_ok sha e'" "canon (event_basis e) = canon (event_basis e')"
    for e e' using that event_basis_inj[OF that(3)] by (simp add: event_ok_def digest_def)
qed

lemma verify_events_None:
  "verify_events sha n h es = None \<longleftrightarrow>
   numbered ev_sequence n es \<and> linked ev_previous ev_hash h es \<and> (\<forall>e \<in> set es. event_ok sha e)"
  by (induction sha n h es rule: verify_events.induct)
    (auto simp: event_ok_def first_error_None split: option.splits)

lemma require_sha256_Inr: "require_sha256 nm v = Inr n \<longleftrightarrow> n = py_casefold v \<and> is_sha256 n"
  by (auto simp: require_sha256_def Let_def)

lemma verify_trace_True:
  "verify_trace sha t = Inr b \<longleftrightarrow> b \<and> tr_schema t = 1 \<and> is_sha256 (py_casefold (tr_receipt_hash t)) \<and>
     tr_events t \<noteq> [] \<and> tr_event_count t = int (length (tr_events t)) \<and>
     numbered ev_sequence 1 (tr_events t) \<and> linked ev_previous ev_hash zero_hash (tr_events t) \<and>
     (\<forall>e \<in> set (tr_events t). event_ok sha e) \<and>
     sort_key fst (tr_counts t) = decision_counts (tr_events t) \<and>
     tr_hash t = digest sha (trace_basis (py_casefold (tr_receipt_hash t)) (tr_events t))"
  by (auto simp: verify_trace_def require_sha256_Inr verify_events_None)

lemma head_hash_shape:
  "sha_shape sha \<Longrightarrow> \<forall>e \<in> set es. event_ok sha e \<Longrightarrow> is_sha256 (head_hash ev_hash zero_hash es)"
  by (auto simp: head_hash_def zero_hash_shape event_ok_def digest_shape)

lemma decision_of_range: "decision_of a = Inr d \<Longrightarrow> d \<in> set trace_decisions"
  by (auto simp: decision_of_def action_to_decision_def trace_decisions_def split: option.splits if_splits)

text \<open>Sealing an event over known actions always works, and gives a well formed event.\<close>

lemma seal_event_works:
  assumes "sha_shape sha" and "is_sha256 prev" and "1 \<le> seq" and "scope \<in> set [''item'', ''session'', ''retrieval'']"
    and "identity \<noteq> ''''" and "decision_of recommended = Inr rd" and "decision_of effective = Inr ed"
  obtains e where "seal_event sha seq scope identity recommended effective reasons refs uri item inp vis prev = Inr e"
    and "event_ok sha e" and "ev_sequence e = seq" and "ev_previous e = prev" and "ev_scope e = scope"
    and "ev_identity e = identity" and "ev_recommended_action e = recommended"
    and "ev_effective_action e = effective" and "ev_recommended_decision e = rd"
    and "ev_visible e = max 0 vis"
proof -
  define e0 where "e0 = \<lparr>ev_sequence = seq, ev_scope = scope, ev_identity = identity,
    ev_recommended_decision = rd, ev_effective_decision = ed, ev_recommended_action = recommended,
    ev_effective_action = effective, ev_reasons = fromkeys (filter (\<lambda>r. r \<noteq> '''') reasons),
    ev_refs = sorted_set (filter (\<lambda>r. r \<noteq> '''') refs), ev_uri = uri, ev_item_id = item,
    ev_input = max 0 inp, ev_visible = max 0 vis, ev_previous = prev, ev_hash = ''''\<rparr>"
  let ?e = "e0\<lparr>ev_hash := digest sha (event_basis e0)\<rparr>"
  have basis: "event_basis ?e = event_basis e0" by (simp add: event_basis_def event_fields_def)
  have sha_err: "sha256_error nm v = None" if "is_sha256 v" for nm v
    using that by (simp add: sha256_error_def require_sha256_def is_sha256_casefold)
  have ranges: "rd \<in> set trace_decisions" "ed \<in> set trace_decisions"
    using assms(6,7) decision_of_range by auto
  have err: "event_error ?e = None"
    using assms ranges sha_err[OF assms(2)] sha_err[OF digest_shape[OF assms(1)]]
    by (simp add: event_error_def first_error_None e0_def)
  have ph: "require_sha256 ''previous_event_hash'' prev = Inr prev"
    using assms(2) by (simp add: require_sha256_def is_sha256_casefold)
  have "seal_event sha seq scope identity recommended effective reasons refs uri item inp vis prev = Inr ?e"
    unfolding seal_event_def assms(6,7) ph bindE_simps Let_def e0_def[symmetric]
    by (simp add: make_event_def err)
  moreover have "event_ok sha ?e" using err basis by (simp add: event_ok_def)
  ultimately show thesis by (rule that) (simp_all add: e0_def)
qed

lemma seal_event_identity:
  "seal_event sha seq scope identity ra ea reasons refs uri item inp vis prev = Inr e \<Longrightarrow> identity \<noteq> ''''"
  by (auto simp: seal_event_def Let_def make_event_def event_error_def first_error_None)

lemma decision_of_item [simp]: "\<exists>d. decision_of (item_action_name a) = Inr d"
  by (cases a) (simp_all add: decision_of_def action_to_decision_def)

lemma decision_of_session [simp]: "\<exists>d. decision_of (session_action_name a) = Inr d"
  by (cases a) (simp_all add: decision_of_def action_to_decision_def)

lemma seal_trace_verifies:
  assumes "sha_shape sha" and "is_sha256 (py_casefold rh)" and "es \<noteq> []" and "numbered ev_sequence 1 es"
    and "linked ev_previous ev_hash zero_hash es" and "\<forall>e \<in> set es. event_ok sha e"
  obtains t where "seal_trace sha rh es = Inr t" and "verify_trace sha t = Inr True"
    and "tr_events t = es" and "tr_receipt_hash t = py_casefold rh"
proof -
  have "require_sha256 ''policy_receipt_hash'' rh = Inr (py_casefold rh)"
    using assms(2) by (simp add: require_sha256_def)
  moreover have "sort_key fst (decision_counts es) = decision_counts es"
    by (rule sort_key_sorted) (simp add: decision_counts_def Let_def comp_def)
  ultimately show thesis
    using that assms by (simp add: seal_trace_def verify_trace_True is_sha256_casefold)
qed

text \<open>The item events of a policy result, whatever its decisions.\<close>

definition event_of :: "trace_event \<Rightarrow> policy_decision \<Rightarrow> bool" where
  "event_of e d \<longleftrightarrow> ev_scope e = ''item'' \<and> ev_identity e = d_identity d \<and>
     ev_recommended_action e = item_action_name (d_recommended d) \<and>
     ev_effective_action e = item_action_name (d_effective d)"

lemma item_events_works:
  "sha_shape sha \<Longrightarrow> is_sha256 h \<Longrightarrow> 1 \<le> n \<Longrightarrow> \<forall>d \<in> set ds. d_identity d \<noteq> '''' \<Longrightarrow>
    \<exists>es. item_events sha n h ds = Inr es \<and> list_all2 event_of es ds \<and> numbered ev_sequence n es \<and>
      linked ev_previous ev_hash h es \<and> (\<forall>e \<in> set es. event_ok sha e)"
proof (induction sha n h ds rule: item_events.induct)
  case (2 sha n previous d ds)
  obtain rd ed where dec: "decision_of (item_action_name (d_recommended d)) = Inr rd"
    "decision_of (item_action_name (d_effective d)) = Inr ed"
    using decision_of_item by blast
  show ?case
  proof (rule seal_event_works[OF "2.prems"(1-3) _ _ dec, where scope = "''item''"
        and identity = "d_identity d" and reasons = "d_reasons d" and refs = "d_refs d"
        and uri = "d_uri d" and item = "d_item_id d" and inp = "d_input d" and vis = "d_visible d"])
    fix e
    assume e: "seal_event sha n ''item'' (d_identity d) (item_action_name (d_recommended d))
        (item_action_name (d_effective d)) (d_reasons d) (d_refs d) (d_uri d) (d_item_id d)
        (d_input d) (d_visible d) previous = Inr e"
      "event_ok sha e" "ev_sequence e = n" "ev_previous e = previous" "ev_scope e = ''item''"
      "ev_identity e = d_identity d" "ev_recommended_action e = item_action_name (d_recommended d)"
      "ev_effective_action e = item_action_name (d_effective d)"
    have "is_sha256 (ev_hash e)" using e(2) by (simp add: event_ok_def digest_shape[OF "2.prems"(1)])
    then show ?case
      using "2.IH"[of e] "2.prems" e by (auto simp: event_of_def)
  qed (use "2.prems" in auto)
qed simp

lemma from_policy_result_works:
  assumes "sha_shape sha" and "pr_receipt_hash res = digest sha (receipt_py (pr_receipt res))"
    and "reference_only ''policy_receipt.signals'' (PyList (map signal_py (rc_signals (pr_receipt res)))) = None"
    and "\<forall>d \<in> set (rc_decisions (pr_receipt res)). d_identity d \<noteq> ''''"
  obtains t es s where "from_policy_result sha res = Inr t" and "verify_trace sha t = Inr True"
    and "tr_events t = es @ [s]" and "list_all2 event_of es (rc_decisions (pr_receipt res))"
    and "ev_scope s = ''session''"
    and "ev_recommended_action s = session_action_name (rc_recommended_session (pr_receipt res))"
    and "ev_effective_action s = session_action_name (rc_effective_session (pr_receipt res))"
    and "tr_receipt_hash t = pr_receipt_hash res"
proof -
  let ?r = "pr_receipt res"
  have shape: "is_sha256 (pr_receipt_hash res)" using assms(2) digest_shape[OF assms(1)] by simp
  obtain es where es: "item_events sha 1 zero_hash (rc_decisions ?r) = Inr es"
      "list_all2 event_of es (rc_decisions ?r)" "numbered ev_sequence 1 es"
      "linked ev_previous ev_hash zero_hash es" "\<forall>e \<in> set es. event_ok sha e"
    using item_events_works[OF assms(1) zero_hash_shape _ assms(4), of 1] by auto
  have hh: "is_sha256 (head_hash ev_hash zero_hash es)" by (rule head_hash_shape[OF assms(1) es(5)])
  obtain rd ed where dec: "decision_of (session_action_name (rc_recommended_session ?r)) = Inr rd"
    "decision_of (session_action_name (rc_effective_session ?r)) = Inr ed"
    using decision_of_session by blast
  obtain s where s: "seal_event sha (int (length es) + 1) ''session'' ''session''
      (session_action_name (rc_recommended_session ?r)) (session_action_name (rc_effective_session ?r))
      (rc_session_reasons ?r) [] '''' '''' (m_input (pr_metrics res)) (m_effective_visible (pr_metrics res))
      (head_hash ev_hash zero_hash es) = Inr s" "event_ok sha s" "ev_sequence s = int (length es) + 1"
      "ev_previous s = head_hash ev_hash zero_hash es" "ev_scope s = ''session''"
      "ev_recommended_action s = session_action_name (rc_recommended_session ?r)"
      "ev_effective_action s = session_action_name (rc_effective_session ?r)"
    by (rule seal_event_works[OF assms(1) hh _ _ _ dec, where scope = "''session''"
          and seq = "int (length es) + 1" and identity = "''session''"]) auto
  have all: "numbered ev_sequence 1 (es @ [s])" "linked ev_previous ev_hash zero_hash (es @ [s])"
    "\<forall>e \<in> set (es @ [s]). event_ok sha e"
    using es s by (simp_all add: numbered_append linked_append)
  obtain t where t: "seal_trace sha (pr_receipt_hash res) (es @ [s]) = Inr t"
      "verify_trace sha t = Inr True" "tr_events t = es @ [s]"
      "tr_receipt_hash t = py_casefold (pr_receipt_hash res)"
    by (rule seal_trace_verifies[OF assms(1) _ _ all, of "pr_receipt_hash res"])
      (use shape in \<open>auto simp: is_sha256_casefold\<close>)
  have "verify_policy_receipt sha res = Inr (?r, pr_receipt_hash res)"
    using shape assms(2,3)
    by (simp add: verify_policy_receipt_def require_sha256_def is_sha256_casefold)
  then have "from_policy_result sha res = Inr t"
    by (simp add: from_policy_result_def es(1) s(1) t(1,2))
  then show thesis using that t es(2) s(5-7) shape by (simp add: is_sha256_casefold)
qed

text \<open>The metadata check does not depend on the path it reports, and digs into every signal.\<close>

fun carries_payload :: "pyval \<Rightarrow> bool"
  and carries_payload_fields :: "fields \<Rightarrow> bool"
  and carries_payload_items :: "pyval list \<Rightarrow> bool" where
  "carries_payload (PyDict kvs) = carries_payload_fields kvs"
| "carries_payload (PyList vs) = carries_payload_items vs"
| "carries_payload (PyTuple vs) = carries_payload_items vs"
| "carries_payload _ = False"
| "carries_payload_fields [] = False"
| "carries_payload_fields ((k, v) # kvs) =
     (py_casefold k \<in> set forbidden_keys \<or> carries_payload v \<or> carries_payload_fields kvs)"
| "carries_payload_items [] = False"
| "carries_payload_items (v # vs) = (carries_payload v \<or> carries_payload_items vs)"

lemma reference_only_iff:
  "reference_only p v = None \<longleftrightarrow> \<not> carries_payload v"
  "reference_only_fields p kvs = None \<longleftrightarrow> \<not> carries_payload_fields kvs"
  "reference_only_items p i vs = None \<longleftrightarrow> \<not> carries_payload_items vs"
  by (induction p v and p kvs and p i vs
      rule: reference_only_reference_only_fields_reference_only_items.induct)
    (auto split: option.splits)

lemma reference_only_signals:
  assumes "made_signals signals"
  shows "reference_only p (PyList (map signal_py signals)) = None"
proof -
  have meta: "\<not> carries_payload_fields (sg_metadata s)" if "s \<in> set signals" for s
  proof -
    have "signal_error s = None" using assms that
      by (auto simp: made_signals_def make_signal_def split: option.splits)
    then show ?thesis by (simp add: signal_error_def first_error_None reference_only_iff)
  qed
  have strs: "\<not> carries_payload_items (map PyStr xs)" for xs
    by (induction xs) simp_all
  have "\<not> carries_payload_items (map signal_py ss)" if "set ss \<subseteq> set signals" for ss
    using that
    by (induction ss)
      (simp_all add: signal_py_def py_strs_def strs meta forbidden_keys_def py_casefold_def lower_char_def)
  then show ?thesis by (simp add: reference_only_iff)
qed

section \<open>Properties\<close>

text \<open>
  C12. Every policy evaluation can be traced: whenever \<open>evaluate\<close> returns a result for signals
  that passed their constructor, \<open>from_policy_result\<close> returns a trace that verifies, with one
  event per decision carrying its recommended and effective action, followed by the session
  event.
\<close>

theorem every_evaluation_traceable:
  assumes "sha_shape sha" and "make_config raw = Inr cfg" and "made_signals signals"
    and "evaluate_policy sha cfg task signals state_opt = Inr res"
  shows "\<exists>t es s. from_policy_result sha res = Inr t \<and> verify_trace sha t = Inr True \<and>
     tr_events t = es @ [s] \<and> list_all2 event_of es (rc_decisions (pr_receipt res)) \<and>
     ev_scope s = ''session'' \<and>
     ev_recommended_action s = session_action_name (rc_recommended_session (pr_receipt res)) \<and>
     ev_effective_action s = session_action_name (rc_effective_session (pr_receipt res)) \<and>
     tr_receipt_hash t = pr_receipt_hash res"
proof -
  have res: "pr_receipt_hash res = digest sha (receipt_py (pr_receipt res))"
    "rc_signals (pr_receipt res) = sort_key sg_identity signals"
    by (rule evaluate_Inr[OF assms(4)], simp)+
  have made: "made_signals (sort_key sg_identity signals)"
    using assms(3) by (simp add: made_signals_def)
  have ids: "\<forall>d \<in> set (rc_decisions (pr_receipt res)). d_identity d \<noteq> ''''"
  proof
    fix d
    assume "d \<in> set (rc_decisions (pr_receipt res))"
    then obtain s where s: "s \<in> set signals" "d_identity d = sg_identity s"
      by (rule evaluate_rows[OF assms(2-4)]) (auto simp: row_for_def)
    then have "signal_error s = None" using assms(3)
      by (auto simp: made_signals_def make_signal_def split: option.splits)
    then have "py_strip (sg_identity s) \<noteq> ''''" by (auto simp: signal_error_def first_error_None)
    then show "d_identity d \<noteq> ''''" using s(2) by (auto simp: py_strip_def)
  qed
  show ?thesis
    by (rule from_policy_result_works[OF assms(1) res(1) _ ids])
      (use reference_only_signals[OF made] res(2) in auto)
qed

text \<open>
  Tamper evidence: two verified traces that end with the same event hash have exactly the
  same events, unless the digest collides on the event bodies of these two traces.
\<close>

theorem trace_head_commits_history:
  assumes "verify_trace sha t = Inr True" and "verify_trace sha t' = Inr True"
    and "ev_hash (last (tr_events t)) = ev_hash (last (tr_events t'))"
    and "inj_on sha ((\<lambda>e. canon (event_basis e)) ` (set (tr_events t) \<union> set (tr_events t')))"
  shows "tr_events t = tr_events t' \<and> tr_event_count t = tr_event_count t' \<and>
     sort_key fst (tr_counts t) = sort_key fst (tr_counts t')"
proof -
  note v = assms(1,2)[unfolded verify_trace_True]
  have ok: "\<forall>e \<in> set (tr_events t) \<union> set (tr_events t'). event_ok sha e" using v by auto
  have "last (tr_events t) = last (tr_events t')"
    by (rule inj_onD[OF trace_log.hash_inj[OF ok assms(4)] assms(3)]) (use v in auto)
  then have "length (tr_events t) = length (tr_events t')"
    using v numbered_last[of ev_sequence 1 "tr_events t"] numbered_last[of ev_sequence 1 "tr_events t'"] by simp
  then have "tr_events t = tr_events t'"
    using trace_log.same_length_same_log[OF _ _ ok assms(4)] v assms(3) by (simp add: head_hash_def)
  then show ?thesis using v by simp
qed

text \<open>
  A retrieval is appended, never rewritten: on a verified trace \<open>append_retrieval\<close> succeeds
  exactly for a non-empty identity, and then the result verifies, keeps every earlier event and
  the policy receipt hash, and adds one \<open>RETRIEVE\<close> event for that identity.
\<close>

theorem append_retrieval_extends:
  assumes "sha_shape sha" and "verify_trace sha t = Inr True"
  shows "((\<exists>t'. append_retrieval sha t identity refs uri item reasons visible = Inr t') \<longleftrightarrow> identity \<noteq> '''') \<and>
    (\<forall>t'. append_retrieval sha t identity refs uri item reasons visible = Inr t' \<longrightarrow>
      verify_trace sha t' = Inr True \<and> tr_receipt_hash t' = py_casefold (tr_receipt_hash t) \<and>
      (\<exists>e. tr_events t' = tr_events t @ [e] \<and> ev_scope e = ''retrieval'' \<and> ev_identity e = identity \<and>
        ev_recommended_decision e = ''retrieve'' \<and> ev_visible e = max 0 visible))"
proof -
  note v = assms(2)[unfolded verify_trace_True]
  have ok: "\<forall>e \<in> set (tr_events t). event_ok sha e" using v by blast
  have dec: "decision_of ''RETRIEVE'' = Inr ''retrieve''"
    by (simp add: decision_of_def action_to_decision_def)
  have works: "\<exists>t' e. append_retrieval sha t identity refs uri item reasons visible = Inr t' \<and>
      verify_trace sha t' = Inr True \<and> tr_receipt_hash t' = py_casefold (tr_receipt_hash t) \<and>
      tr_events t' = tr_events t @ [e] \<and> ev_scope e = ''retrieval'' \<and> ev_identity e = identity \<and>
      ev_recommended_decision e = ''retrieve'' \<and> ev_visible e = max 0 visible"
    if ne: "identity \<noteq> ''''"
  proof -
    obtain e where e: "seal_event sha (int (length (tr_events t)) + 1) ''retrieval'' identity
        ''RETRIEVE'' ''RETRIEVE'' reasons refs uri item 0 visible (head_hash ev_hash zero_hash (tr_events t)) = Inr e"
        "event_ok sha e" "ev_sequence e = int (length (tr_events t)) + 1"
        "ev_previous e = head_hash ev_hash zero_hash (tr_events t)" "ev_scope e = ''retrieval''"
        "ev_identity e = identity" "ev_recommended_decision e = ''retrieve''" "ev_visible e = max 0 visible"
      by (rule seal_event_works[OF assms(1) head_hash_shape[OF assms(1) ok] _ _ ne dec dec,
            where scope = "''retrieval''" and seq = "int (length (tr_events t)) + 1"]) auto
    obtain t' where "seal_trace sha (tr_receipt_hash t) (tr_events t @ [e]) = Inr t'"
        "verify_trace sha t' = Inr True" "tr_events t' = tr_events t @ [e]"
        "tr_receipt_hash t' = py_casefold (tr_receipt_hash t)"
      by (rule seal_trace_verifies[OF assms(1), of "tr_receipt_hash t" "tr_events t @ [e]"])
        (use v e in \<open>auto simp: numbered_append linked_append\<close>)
    then show ?thesis using e assms(2) by (auto simp: append_retrieval_def)
  qed
  have ne: "identity \<noteq> ''''" if "append_retrieval sha t identity refs uri item reasons visible = Inr t'" for t'
    using that by (auto simp: append_retrieval_def dest: seal_event_identity)
  show ?thesis using works ne by (auto dest: ne)
qed

text \<open>
  The session event's token counts are not covered by the receipt hash: a policy result with
  altered metrics is traced just like the original.
\<close>

lemma metrics_not_bound:
  assumes "sha_shape sha" and "from_policy_result sha res = Inr t"
  shows "\<exists>t'. from_policy_result sha (res\<lparr>pr_metrics := m\<rparr>) = Inr t' \<and> verify_trace sha t' = Inr True \<and>
     tr_receipt_hash t' = tr_receipt_hash t"
proof -
  have items: "\<forall>d \<in> set ds. d_identity d \<noteq> ''''" if "item_events sha n h ds = Inr es" for n h ds es
    using that by (induction sha n h ds arbitrary: es rule: item_events.induct)
      (auto dest: seal_event_identity)
  have r: "pr_receipt_hash res = digest sha (receipt_py (pr_receipt res))"
    "reference_only ''policy_receipt.signals'' (PyList (map signal_py (rc_signals (pr_receipt res)))) = None"
    "\<forall>d \<in> set (rc_decisions (pr_receipt res)). d_identity d \<noteq> ''''"
    using assms(2) items by (auto simp: from_policy_result_def verify_policy_receipt_def split: if_splits)
  obtain t1 where "from_policy_result sha res = Inr t1" "tr_receipt_hash t1 = pr_receipt_hash res"
    by (rule from_policy_result_works[OF assms(1) r])
  moreover obtain t2 where "from_policy_result sha (res\<lparr>pr_metrics := m\<rparr>) = Inr t2"
      "verify_trace sha t2 = Inr True" "tr_receipt_hash t2 = pr_receipt_hash res"
    by (rule from_policy_result_works[OF assms(1), of "res\<lparr>pr_metrics := m\<rparr>"]) (use r in auto)
  ultimately show ?thesis using assms(2) by auto
qed

section \<open>Concrete traces\<close>

definition flat_sha :: "pyval \<Rightarrow> string" where
  "flat_sha v = zero_hash"

lemma flat_sha_shape: "sha_shape flat_sha"
  by (simp add: sha_shape_def flat_sha_def zero_hash_shape)

definition idle_result :: policy_result where
  "idle_result = (case evaluate_policy flat_sha (default_config 256) ''t'' [] None of
     Inr r \<Rightarrow> r | Inl _ \<Rightarrow> undefined)"

lemma idle_eval: "evaluate_policy flat_sha (default_config 256) ''t'' [] None = Inr idle_result"
  unfolding idle_result_def by code_simp

definition idle_trace :: decision_trace where
  "idle_trace = \<lparr>tr_schema = 1, tr_receipt_hash = zero_hash,
     tr_events = [\<lparr>ev_sequence = 1, ev_scope = ''session'', ev_identity = ''session'',
       ev_recommended_decision = ''include'', ev_effective_decision = ''include'',
       ev_recommended_action = ''KEEP'', ev_effective_action = ''KEEP'', ev_reasons = [], ev_refs = [],
       ev_uri = '''', ev_item_id = '''', ev_input = 0, ev_visible = 0, ev_previous = zero_hash,
       ev_hash = zero_hash\<rparr>],
     tr_event_count = 1, tr_counts = [(''include'', 1)], tr_hash = zero_hash\<rparr>"

lemma idle_trace_verifies: "verify_trace flat_sha idle_trace = Inr True"
  by code_simp

definition retold_trace :: decision_trace where
  "retold_trace = idle_trace\<lparr>tr_receipt_hash := replicate 64 (CHR ''A'')\<rparr>"

lemma retold_trace_verifies: "verify_trace flat_sha retold_trace = Inr True"
  by code_simp

theorem every_evaluation_traceable_witness:
  "\<exists>t s. from_policy_result flat_sha idle_result = Inr t \<and> tr_events t = [s]"
proof -
  have "rc_decisions (pr_receipt idle_result) = []" by code_simp
  moreover have "made_signals []" by (simp add: made_signals_def)
  ultimately show ?thesis
    using every_evaluation_traceable[OF flat_sha_shape config_256 _ idle_eval] by auto
qed

theorem trace_head_commits_history_witness:
  "tr_receipt_hash idle_trace \<noteq> tr_receipt_hash retold_trace \<and> tr_events idle_trace = tr_events retold_trace"
proof -
  have "tr_receipt_hash idle_trace \<noteq> tr_receipt_hash retold_trace" by code_simp
  moreover have "length (tr_events idle_trace) = 1" by code_simp
  then obtain e where e: "tr_events idle_trace = [e]" "tr_events retold_trace = [e]"
    by (auto simp: retold_trace_def length_Suc_conv)
  moreover have "tr_events idle_trace = tr_events retold_trace"
    using trace_head_commits_history[OF idle_trace_verifies retold_trace_verifies] e by simp
  ultimately show ?thesis by simp
qed

theorem append_retrieval_extends_witness:
  "\<exists>t'. append_retrieval flat_sha idle_trace ''a'' [] '''' '''' [] 5 = Inr t' \<and> verify_trace flat_sha t' = Inr True"
  using append_retrieval_extends[OF flat_sha_shape idle_trace_verifies, of "''a''" "[]" "''''" "''''" "[]" 5]
  by auto

end
