(* ===== verification/SessionRuntime.thy ===== *)
theory SessionRuntime
  imports HashChain "HOL-Library.Sublist"
begin

text \<open>
  The long-session engine of \<open>syntavra_runtime/session_runtime.py\<close>: sessions with an exact,
  hash-chained event history, summaries compacted level by level over that history, checkpoints,
  forks, merges, export and import.  The five tables are lists of records.  Clock readings and
  fresh identifiers come from arbitrary sequences given by the environment, indexed by a counter
  of the state; the text of \<open>str(value)\<close> and \<open>json.dumps\<close>, which are only measured or stored,
  and the choice SQL leaves open among rows of equal sort key, are parameters too.  The
  background thread (\<open>start_compactor\<close>) only calls \<open>compact_due\<close> and is not modelled.
\<close>

section \<open>Tables and environment\<close>

record session_row =
  ss_id :: string
  ss_project :: string
  ss_parents :: "string list"
  ss_state :: string
  ss_created :: rat
  ss_updated :: rat
  ss_metadata :: pyval

record session_event =
  se_session :: string
  se_sequence :: int
  se_type :: string
  se_payload :: pyval
  se_previous :: string
  se_hash :: string
  se_created :: rat

record summary_row =
  sm_id :: string
  sm_session :: string
  sm_content :: string
  sm_start :: int
  sm_end :: int
  sm_children :: "string list"
  sm_source_hash :: string
  sm_level :: int
  sm_created :: rat
  sm_invalidated :: "rat option"

record checkpoint_row =
  cp_id :: string
  cp_session :: string
  cp_through :: int
  cp_root :: "string option"
  cp_event_hash :: string
  cp_metadata :: pyval
  cp_created :: rat

record quarantine_row =
  qr_id :: int
  qr_session :: string
  qr_object_type :: string
  qr_object_id :: string
  qr_reason :: string
  qr_payload :: pyval
  qr_created :: rat

record store =
  so_sessions :: "session_row list"
  so_events :: "session_event list"
  so_summaries :: "summary_row list"
  so_checkpoints :: "checkpoint_row list"
  so_quarantine :: "quarantine_row list"
  so_tick :: nat

definition empty_store :: store where
  "empty_store = \<lparr>so_sessions = [], so_events = [], so_summaries = [], so_checkpoints = [],
     so_quarantine = [], so_tick = 0\<rparr>"

record session_env =
  rt_project :: string
  rt_sha :: "pyval \<Rightarrow> string"
  rt_clock :: "nat \<Rightarrow> rat"
  rt_uuid :: "nat \<Rightarrow> string"
  rt_str :: "pyval \<Rightarrow> string"
  rt_dumps :: "pyval \<Rightarrow> string"
  rt_pick :: "summary_row list \<Rightarrow> summary_row option"

type_synonym 'a session_op = "(store, py_error, 'a) op"

text \<open>\<open>time.time()\<close> and \<open>uuid.uuid4().hex\<close>.\<close>

definition now :: "session_env \<Rightarrow> rat session_op" where
  "now rt = (\<lambda>s. (Inr (rt_clock rt (so_tick s)), s\<lparr>so_tick := Suc (so_tick s)\<rparr>))"

definition fresh :: "session_env \<Rightarrow> string session_op" where
  "fresh rt = (\<lambda>s. (Inr (rt_uuid rt (so_tick s)), s\<lparr>so_tick := Suc (so_tick s)\<rparr>))"

text \<open>A transaction rolls the tables back when an exception leaves it.\<close>

definition txn :: "'a session_op \<Rightarrow> 'a session_op" where
  "txn m = (\<lambda>s. case m s of (Inl e, t) \<Rightarrow> (Inl e, s\<lparr>so_tick := so_tick t\<rparr>) | (Inr x, t) \<Rightarrow> (Inr x, t))"

section \<open>Sessions and events\<close>

definition get_session :: "session_env \<Rightarrow> string \<Rightarrow> session_row session_op" where
  "get_session rt sid = (\<lambda>s.
     case find (\<lambda>r. ss_id r = sid \<and> ss_project r = rt_project rt) (so_sessions s) of
       None \<Rightarrow> (Inl (KeyError sid), s)
     | Some r \<Rightarrow> (Inr r, s))"

definition list_sessions :: "session_env \<Rightarrow> string option \<Rightarrow> store \<Rightarrow> session_row list" where
  "list_sessions rt st s =
     sort_key (\<lambda>r. - ss_updated r) (filter (\<lambda>r. ss_project r = rt_project rt \<and>
       (case st of None \<Rightarrow> True | Some x \<Rightarrow> x = '''' \<or> ss_state r = x)) (so_sessions s))"

definition check_parents :: "session_env \<Rightarrow> string list \<Rightarrow> store \<Rightarrow> py_error option" where
  "check_parents rt parents s =
     (case find (\<lambda>p. case find (\<lambda>r. ss_id r = p) (so_sessions s) of
          None \<Rightarrow> True | Some r \<Rightarrow> ss_project r \<noteq> rt_project rt) parents of
        None \<Rightarrow> None
      | Some p \<Rightarrow> Some (KeyError (''invalid parent session: '' @ p)))"

definition insert_session :: "session_row \<Rightarrow> unit session_op" where
  "insert_session r = (\<lambda>s.
     if ss_id r \<in> set (map ss_id (so_sessions s)) then (Inl (IntegrityError ''sessions.session_id''), s)
     else (Inr (), s\<lparr>so_sessions := so_sessions s @ [r]\<rparr>))"

definition create_session ::
  "session_env \<Rightarrow> string option \<Rightarrow> string list \<Rightarrow> fields \<Rightarrow> session_row session_op" where
  "create_session rt session_id parent_ids metadata =
     bindS (if session_id = None \<or> session_id = Some '''' then fresh rt else returnS (the session_id)) (\<lambda>u.
     let sid = (if session_id = None \<or> session_id = Some '''' then ''sess-'' @ u else u);
         parents = fromkeys parent_ids
     in bindS (now rt) (\<lambda>t.
        bindS (txn (bindS getS (\<lambda>s. case check_parents rt parents s of
            Some e \<Rightarrow> failS e
          | None \<Rightarrow> insert_session \<lparr>ss_id = sid, ss_project = rt_project rt, ss_parents = parents,
              ss_state = ''ACTIVE'', ss_created = t, ss_updated = t,
              ss_metadata = canon (PyDict metadata)\<rparr>))) (\<lambda>_.
        get_session rt sid)))"

definition session_rows :: "store \<Rightarrow> string \<Rightarrow> session_event list" where
  "session_rows s sid = filter (\<lambda>e. se_session e = sid) (so_events s)"

text \<open>What the hash of an event covers.\<close>

definition session_event_basis :: "session_event \<Rightarrow> pyval" where
  "session_event_basis e = PyDict
     [(''session_id'', PyStr (se_session e)), (''sequence'', PyInt (se_sequence e)),
      (''event_type'', PyStr (se_type e)), (''payload'', se_payload e),
      (''previous_hash'', PyStr (se_previous e)), (''created_at'', PyFloat (se_created e))]"

definition insert_event :: "session_event \<Rightarrow> unit session_op" where
  "insert_event e = (\<lambda>s.
     if \<exists>r \<in> set (session_rows s (se_session e)). se_sequence r = se_sequence e
     then (Inl (IntegrityError ''session_events.sequence''), s)
     else if \<exists>r \<in> set (session_rows s (se_session e)). se_hash r = se_hash e
     then (Inl (IntegrityError ''session_events.event_hash''), s)
     else (Inr (), s\<lparr>so_events := so_events s @ [e\<lparr>se_payload := canon (se_payload e)\<rparr>]\<rparr>))"

definition touch :: "string \<Rightarrow> rat \<Rightarrow> store \<Rightarrow> store" where
  "touch sid t s = s\<lparr>so_sessions :=
     update_where (\<lambda>r. ss_id r = sid) (\<lambda>r. r\<lparr>ss_updated := t\<rparr>) (so_sessions s)\<rparr>"

definition next_event ::
  "session_env \<Rightarrow> string \<Rightarrow> string \<Rightarrow> pyval \<Rightarrow> session_event list \<Rightarrow> rat \<Rightarrow> session_event" where
  "next_event rt sid ty payload rows created =
     (let previous = first_min (\<lambda>e. - se_sequence e) rows;
          e = \<lparr>se_session = sid,
            se_sequence = (case previous of None \<Rightarrow> 1 | Some p \<Rightarrow> se_sequence p + 1),
            se_type = ty, se_payload = payload,
            se_previous = (case previous of None \<Rightarrow> zero_hash | Some p \<Rightarrow> se_hash p),
            se_hash = '''', se_created = created\<rparr>
      in e\<lparr>se_hash := digest (rt_sha rt) (session_event_basis e)\<rparr>)"

definition append_event :: "session_env \<Rightarrow> string \<Rightarrow> string \<Rightarrow> fields \<Rightarrow> session_event session_op" where
  "append_event rt sid ty payload =
     bindS (get_session rt sid) (\<lambda>_.
     txn (bindS (now rt) (\<lambda>created. bindS getS (\<lambda>s.
       let e = next_event rt sid ty (PyDict payload) (session_rows s sid) created in
       bindS (insert_event e) (\<lambda>_.
       bindS (modifyS (touch sid created)) (\<lambda>_. returnS e))))))"

definition select_events :: "store \<Rightarrow> string \<Rightarrow> int \<Rightarrow> int \<Rightarrow> session_event list" where
  "select_events s sid after limit =
     sql_limit (max 1 limit) (filter (\<lambda>e. se_sequence e > max 0 after) (sort_key se_sequence (session_rows s sid)))"

definition events :: "session_env \<Rightarrow> string \<Rightarrow> int \<Rightarrow> int \<Rightarrow> session_event list session_op" where
  "events rt sid after limit =
     bindS (get_session rt sid) (\<lambda>_. bindS getS (\<lambda>s. returnS (select_events s sid after limit)))"

definition all_events :: "session_env \<Rightarrow> string \<Rightarrow> session_event list session_op" where
  "all_events rt sid = events rt sid 0 10000000"

section \<open>Verification\<close>

record verification =
  vf_ok :: bool
  vf_events :: int
  vf_last_hash :: string
  vf_reasons :: "string list"

definition event_reasons :: "(pyval \<Rightarrow> string) \<Rightarrow> int \<Rightarrow> string \<Rightarrow> session_event \<Rightarrow> string list" where
  "event_reasons sha expected previous e =
     (if se_sequence e \<noteq> expected
      then [''sequence-gap:'' @ int_str expected @ ''->'' @ int_str (se_sequence e)] else []) @
     (if se_previous e \<noteq> previous then [''previous-hash-mismatch:'' @ int_str (se_sequence e)] else []) @
     (if digest sha (session_event_basis e) \<noteq> se_hash e
      then [''event-hash-mismatch:'' @ int_str (se_sequence e)] else [])"

fun verify_loop :: "(pyval \<Rightarrow> string) \<Rightarrow> int \<Rightarrow> string \<Rightarrow> session_event list \<Rightarrow> string list \<Rightarrow> verification" where
  "verify_loop sha expected previous [] reasons =
     \<lparr>vf_ok = (reasons = []), vf_events = expected - 1, vf_last_hash = previous, vf_reasons = reasons\<rparr>"
| "verify_loop sha expected previous (e # es) reasons =
     verify_loop sha (se_sequence e + 1) (se_hash e) es (reasons @ event_reasons sha expected previous e)"

definition verify_session :: "session_env \<Rightarrow> string \<Rightarrow> verification session_op" where
  "verify_session rt sid =
     bindS (all_events rt sid) (\<lambda>es. returnS (verify_loop (rt_sha rt) 1 zero_hash es []))"

section \<open>Compaction\<close>

fun take_facts :: "(pyval \<Rightarrow> string) \<Rightarrow> nat \<Rightarrow> (int \<times> string \<times> pyval) list \<Rightarrow> string list" where
  "take_facts str 0 vs = []"
| "take_facts str (Suc n) [] = []"
| "take_facts str (Suc n) ((i, k, v) # vs) =
     (if v = PyNone then take_facts str (Suc n) vs
      else (''#'' @ int_str i @ '' '' @ k @ ''='' @ take 400 (str v)) # take_facts str n vs)"

definition fact_keys :: "string list" where
  "fact_keys = [''task'', ''decision'', ''error'', ''result'', ''path'', ''command'', ''claim'']"

text \<open>\<open>payload.get(key)\<close>; a missing key and a stored \<open>null\<close> are both \<open>None\<close>.\<close>

fun py_get :: "pyval \<Rightarrow> string \<Rightarrow> pyval" where
  "py_get (PyDict kvs) k = (case map_of kvs k of None \<Rightarrow> PyNone | Some v \<Rightarrow> v)"
| "py_get _ k = PyNone"

definition deterministic_summary :: "(pyval \<Rightarrow> string) \<Rightarrow> session_event list \<Rightarrow> string" where
  "deterministic_summary str es =
     (let types = map se_type es;
          counts = map (\<lambda>n. n @ ''='' @ nat_str (count_list types n)) (sorted_set types);
          facts = take_facts str 20 (concat (map (\<lambda>e. map (\<lambda>k. (se_sequence e, k, py_get (se_payload e) k)) fact_keys) es))
      in ''Events '' @ join '', '' counts @
         (if facts \<noteq> [] then [CHR 0x0A] @ join [CHR 0x0A] facts else ''''))"

text \<open>A node of the summary forest: identifier, first and last sequence, source hash.\<close>

type_synonym node = "string \<times> int \<times> int \<times> string"

definition put_summary :: "summary_row \<Rightarrow> unit session_op" where
  "put_summary r = modifyS (\<lambda>s. s\<lparr>so_summaries :=
     filter (\<lambda>x. sm_id x \<noteq> sm_id r) (so_summaries s) @ [r]\<rparr>)"

definition summary_content :: "string \<Rightarrow> string session_op" where
  "summary_content i = (\<lambda>s. case find (\<lambda>r. sm_id r = i) (so_summaries s) of
     None \<Rightarrow> (Inl (KeyError i), s) | Some r \<Rightarrow> (Inr (sm_content r), s))"

definition leaf_summary ::
  "session_env \<Rightarrow> string \<Rightarrow> (session_event list \<Rightarrow> string) \<Rightarrow> session_event list \<Rightarrow> node session_op" where
  "leaf_summary rt sid reducer grp =
     (let first = se_sequence (hd grp); final = se_sequence (last grp);
          source_hash = digest (rt_sha rt) (py_strs (map se_hash grp));
          i = ''sum-'' @ take 32 (digest (rt_sha rt) (PyDict
            [(''session'', PyStr sid), (''start'', PyInt first), (''end'', PyInt final),
             (''hash'', PyStr source_hash), (''level'', PyInt 0)]))
      in bindS (now rt) (\<lambda>t.
         bindS (put_summary \<lparr>sm_id = i, sm_session = sid, sm_content = reducer grp, sm_start = first,
           sm_end = final, sm_children = [], sm_source_hash = source_hash, sm_level = 0, sm_created = t,
           sm_invalidated = None\<rparr>) (\<lambda>_.
         returnS (i, first, final, source_hash))))"

definition merge_summary :: "session_env \<Rightarrow> string \<Rightarrow> int \<Rightarrow> node list \<Rightarrow> node session_op" where
  "merge_summary rt sid level grp =
     (let children = map fst grp; first = fst (snd (hd grp)); final = fst (snd (snd (last grp)));
          source_hash = digest (rt_sha rt) (py_strs (map (\<lambda>n. snd (snd (snd n))) grp));
          i = ''sum-'' @ take 32 (digest (rt_sha rt) (PyDict
            [(''session'', PyStr sid), (''children'', py_strs children),
             (''hash'', PyStr source_hash), (''level'', PyInt level)]))
      in bindS (mapS summary_content children) (\<lambda>contents.
         bindS (now rt) (\<lambda>t.
         bindS (put_summary \<lparr>sm_id = i, sm_session = sid,
           sm_content = ''Summary level '' @ int_str level @ ''; coverage '' @ int_str first @ ''-'' @
             int_str final @ [CHR 0x0A] @ join ([CHR 0x0A] @ ''---'' @ [CHR 0x0A]) contents,
           sm_start = first, sm_end = final, sm_children = children, sm_source_hash = source_hash,
           sm_level = level, sm_created = t, sm_invalidated = None\<rparr>) (\<lambda>_.
         returnS (i, first, final, source_hash)))))"

lemma merge_round_shrinks:
  assumes "mapS f (chunks (max 2 n) nodes) s = (Inr nexts, t)" and "\<not> length nodes \<le> Suc 0"
  shows "length nexts < length nodes"
  using mapS_length[OF assms(1)] length_chunks[of "max 2 n" nodes] assms(2) by linarith

text \<open>The \<open>while len(level_nodes) > 1\<close> loop: every round at least halves the number of nodes.\<close>

function compact_levels :: "session_env \<Rightarrow> string \<Rightarrow> nat \<Rightarrow> int \<Rightarrow> node list \<Rightarrow> node list session_op" where
  "compact_levels rt sid fanout level nodes s =
     (if length nodes \<le> 1 then (Inr nodes, s)
      else case mapS (merge_summary rt sid level) (chunks (max 2 fanout) nodes) s of
        (Inl e, t) \<Rightarrow> (Inl e, t)
      | (Inr nexts, t) \<Rightarrow> compact_levels rt sid fanout (level + 1) nexts t)"
  by pat_completeness auto
termination
  by (relation "measure (\<lambda>(rt, sid, fanout, level, nodes, s). length nodes)")
    (auto dest: merge_round_shrinks[OF sym] merge_round_shrinks)

declare compact_levels.simps [simp del]

text \<open>
  \<open>compact\<close>.  With \<open>leaf_size \<le> 0\<close> the first or a later slice is empty and \<open>group[0]\<close> raises.
  The query for an existing summary asks for the largest \<open>source_end\<close>; which of several such
  rows it returns is left to \<open>rt_pick\<close>.
\<close>

definition existing_summary :: "session_env \<Rightarrow> string \<Rightarrow> store \<Rightarrow> summary_row option" where
  "existing_summary rt sid s =
     (let rows = filter (\<lambda>r. sm_session r = sid \<and> sm_invalidated r = None) (so_summaries s)
      in rt_pick rt (filter (\<lambda>r. list_all (\<lambda>x. sm_end x \<le> sm_end r) rows) rows))"

definition build_summaries ::
  "session_env \<Rightarrow> string \<Rightarrow> int \<Rightarrow> int \<Rightarrow> (session_event list \<Rightarrow> string) \<Rightarrow> session_event list \<Rightarrow>
   string session_op" where
  "build_summaries rt sid leaf_size fanout reduce es =
     bindS (txn (if leaf_size \<le> 0 then failS IndexError
       else bindS (mapS (leaf_summary rt sid reduce) (chunks (nat leaf_size) es))
         (compact_levels rt sid (nat fanout) 1))) (\<lambda>nodes. returnS (fst (hd nodes)))"

definition compact_session ::
  "session_env \<Rightarrow> string \<Rightarrow> int \<Rightarrow> int \<Rightarrow> (session_event list \<Rightarrow> string) option \<Rightarrow> bool \<Rightarrow>
   string option session_op" where
  "compact_session rt sid leaf_size fanout reducer force =
     (let reduce = (case reducer of None \<Rightarrow> deterministic_summary (rt_str rt) | Some f \<Rightarrow> f);
          build = (\<lambda>es. bindS (build_summaries rt sid leaf_size fanout reduce es) (\<lambda>i. returnS (Some i)))
      in bindS (all_events rt sid) (\<lambda>es. bindS getS (\<lambda>s.
         if es = [] then returnS None
         else if force then build es
         else case existing_summary rt sid s of
           None \<Rightarrow> build es
         | Some r \<Rightarrow> if sm_end r \<ge> se_sequence (last es) then returnS (Some (sm_id r)) else build es)))"

record expansion =
  xs_summary :: string
  xs_session :: string
  xs_coverage :: int
  xs_start :: int
  xs_end :: int
  xs_events :: "session_event list"
  xs_hash :: string
  xs_content :: string

definition expand_summary :: "session_env \<Rightarrow> string \<Rightarrow> expansion session_op" where
  "expand_summary rt i = bindS getS (\<lambda>s.
     case find (\<lambda>r. sm_id r = i) (so_summaries s) of
       None \<Rightarrow> failS (KeyError i)
     | Some r \<Rightarrow>
         if sm_invalidated r \<noteq> None then failS (ValueError ''summary is invalidated'')
         else let es = filter (\<lambda>e. sm_start r \<le> se_sequence e \<and> se_sequence e \<le> sm_end r)
                (sort_key se_sequence (session_rows s (sm_session r)))
              in returnS \<lparr>xs_summary = i, xs_session = sm_session r, xs_coverage = int (length es),
                   xs_start = sm_start r, xs_end = sm_end r, xs_events = es,
                   xs_hash = digest (rt_sha rt) (py_strs (map se_hash es)), xs_content = sm_content r\<rparr>)"

section \<open>The active context\<close>

record ctx_section =
  sc_role :: string
  sc_id :: string
  sc_text :: string
  sc_tokens :: int

text \<open>The greedy selection, on the sections from the last to the first.\<close>

fun select_sections :: "int \<Rightarrow> int \<Rightarrow> ctx_section list \<Rightarrow> ctx_section list \<times> int" where
  "select_sections budget used [] = ([], used)"
| "select_sections budget used (c # cs) =
     (if used + sc_tokens c > budget then select_sections budget used cs
      else let (rest, tot) = select_sections budget (used + sc_tokens c) cs in (c # rest, tot))"

definition section_tokens :: "rat \<Rightarrow> string \<Rightarrow> int" where
  "section_tokens per text = max 1 (\<lfloor>of_nat (length text) / per\<rfloor> + 1)"

text \<open>\<open>events[-n:]\<close>, which is the whole list when \<open>n\<close> is 0.\<close>

definition last_events :: "int \<Rightarrow> 'a list \<Rightarrow> 'a list" where
  "last_events n xs =
     (if n = 0 then xs
      else if n > 0 then drop (length xs - nat n) xs else drop (nat (- n)) xs)"

record active =
  ac_budget :: int
  ac_used :: int
  ac_sections :: "ctx_section list"
  ac_root :: "string option"
  ac_recent :: int
  ac_history :: int

definition event_section :: "session_env \<Rightarrow> rat \<Rightarrow> session_event \<Rightarrow> ctx_section" where
  "event_section rt per e =
     (let text = rt_dumps rt (PyDict [(''type'', PyStr (se_type e)), (''payload'', se_payload e)]) in
      \<lparr>sc_role = ''event'', sc_id = ''event:'' @ int_str (se_sequence e), sc_text = text,
       sc_tokens = section_tokens per text\<rparr>)"

definition active_context :: "session_env \<Rightarrow> string \<Rightarrow> int \<Rightarrow> int \<Rightarrow> rat \<Rightarrow> active session_op" where
  "active_context rt sid budget recent per =
     bindS (all_events rt sid) (\<lambda>es.
     bindS (if int (length es) > recent then compact_session rt sid 32 8 None False else returnS None) (\<lambda>root.
     bindS (case root of None \<Rightarrow> returnS []
            | Some i \<Rightarrow> bindS (summary_content i) (\<lambda>text.
                returnS [\<lparr>sc_role = ''summary'', sc_id = i, sc_text = text, sc_tokens = section_tokens per text\<rparr>])) (\<lambda>summary.
     let recents = last_events recent es;
         sections = summary @ map (event_section rt per) recents;
         (chosen, used) = select_sections budget 0 (rev sections)
     in returnS \<lparr>ac_budget = budget, ac_used = used, ac_sections = rev chosen, ac_root = root,
          ac_recent = int (length recents), ac_history = int (length es)\<rparr>)))"

section \<open>Checkpoints, forks, merges\<close>

definition checkpoint :: "session_env \<Rightarrow> string \<Rightarrow> fields \<Rightarrow> checkpoint_row session_op" where
  "checkpoint rt sid metadata =
     bindS (verify_session rt sid) (\<lambda>v.
     if \<not> vf_ok v then failS (ValueError ''session history failed verification'')
     else bindS (compact_session rt sid 32 8 None True) (\<lambda>root.
       bindS (fresh rt) (\<lambda>u. bindS (now rt) (\<lambda>t.
       let c = \<lparr>cp_id = ''cp-'' @ u, cp_session = sid, cp_through = vf_events v, cp_root = root,
             cp_event_hash = vf_last_hash v, cp_metadata = canon (PyDict metadata), cp_created = t\<rparr>
       in bindS (\<lambda>s. if cp_id c \<in> set (map cp_id (so_checkpoints s))
                     then (Inl (IntegrityError ''session_checkpoints.checkpoint_id''), s)
                     else (Inr (), s\<lparr>so_checkpoints := so_checkpoints s @ [c]\<rparr>)) (\<lambda>_.
          returnS c)))))"

definition fork :: "session_env \<Rightarrow> string \<Rightarrow> fields \<Rightarrow> session_row session_op" where
  "fork rt sid metadata =
     bindS (checkpoint rt sid [(''reason'', PyStr ''fork-source'')]) (\<lambda>c.
     bindS (create_session rt None [sid] (dict_merge [(''fork_checkpoint'', PyStr (cp_id c))] metadata)) (\<lambda>child.
     bindS (append_event rt (ss_id child) ''session-fork''
       [(''parent_session'', PyStr sid), (''checkpoint'', PyStr (cp_id c)),
        (''through_sequence'', PyInt (cp_through c))]) (\<lambda>_.
     returnS child)))"

definition merge_sessions :: "session_env \<Rightarrow> string list \<Rightarrow> fields \<Rightarrow> session_row session_op" where
  "merge_sessions rt session_ids metadata =
     (let parents = fromkeys session_ids in
      if length parents < 2 then failS (ValueError ''merge requires at least two sessions'')
      else bindS (mapS (\<lambda>sid. checkpoint rt sid [(''reason'', PyStr ''merge-source'')]) parents) (\<lambda>cs.
        bindS (create_session rt None parents
          (dict_merge [(''merge_checkpoints'', py_strs (map cp_id cs))] metadata)) (\<lambda>merged.
        bindS (append_event rt (ss_id merged) ''session-merge''
          [(''parents'', py_strs parents), (''checkpoints'', py_strs (map cp_id cs))]) (\<lambda>_.
        returnS merged))))"

definition close_session :: "session_env \<Rightarrow> string \<Rightarrow> session_row session_op" where
  "close_session rt sid =
     bindS (checkpoint rt sid [(''reason'', PyStr ''close'')]) (\<lambda>_.
     bindS (now rt) (\<lambda>t.
     bindS (modifyS (\<lambda>s. s\<lparr>so_sessions := update_where (\<lambda>r. ss_id r = sid)
       (\<lambda>r. r\<lparr>ss_state := ''CLOSED'', ss_updated := t\<rparr>) (so_sessions s)\<rparr>)) (\<lambda>_.
     get_session rt sid)))"

section \<open>Export, import, quarantine, recovery\<close>

record session_export =
  xp_project :: string
  xp_session :: session_row
  xp_events :: "session_event list"
  xp_checkpoints :: "checkpoint_row list"
  xp_verification :: verification
  xp_hash :: string

definition session_py :: "session_row \<Rightarrow> pyval" where
  "session_py r = PyDict
     [(''session_id'', PyStr (ss_id r)), (''project_id'', PyStr (ss_project r)),
      (''parent_ids'', PyTuple (map PyStr (ss_parents r))), (''state'', PyStr (ss_state r)),
      (''created_at'', PyFloat (ss_created r)), (''updated_at'', PyFloat (ss_updated r)),
      (''metadata'', ss_metadata r)]"

definition session_event_py :: "session_event \<Rightarrow> pyval" where
  "session_event_py e = PyDict
     [(''session_id'', PyStr (se_session e)), (''sequence'', PyInt (se_sequence e)),
      (''event_type'', PyStr (se_type e)), (''payload'', se_payload e),
      (''previous_hash'', PyStr (se_previous e)), (''event_hash'', PyStr (se_hash e)),
      (''created_at'', PyFloat (se_created e))]"

definition export_basis :: "session_env \<Rightarrow> session_export \<Rightarrow> pyval" where
  "export_basis rt x = PyDict
     [(''schema_version'', PyInt 1), (''project_id'', PyStr (xp_project x)),
      (''session'', session_py (xp_session x)), (''events'', PyList (map session_event_py (xp_events x))),
      (''checkpoints'', PyList (map (\<lambda>c. PyDict
         [(''checkpoint_id'', PyStr (cp_id c)), (''session_id'', PyStr (cp_session c)),
          (''through_sequence'', PyInt (cp_through c)),
          (''root_summary_id'', case cp_root c of None \<Rightarrow> PyNone | Some i \<Rightarrow> PyStr i),
          (''event_hash'', PyStr (cp_event_hash c)),
          (''metadata_json'', PyStr (rt_dumps rt (cp_metadata c))),
          (''created_at'', PyFloat (cp_created c)), (''metadata'', cp_metadata c)]) (xp_checkpoints x))),
      (''verification'', PyDict
         [(''ok'', PyBool (vf_ok (xp_verification x))), (''events'', PyInt (vf_events (xp_verification x))),
          (''last_hash'', PyStr (vf_last_hash (xp_verification x))),
          (''reasons'', py_strs (vf_reasons (xp_verification x)))])]"

definition export_session :: "session_env \<Rightarrow> string \<Rightarrow> session_export session_op" where
  "export_session rt sid =
     bindS (get_session rt sid) (\<lambda>r. bindS (all_events rt sid) (\<lambda>es. bindS getS (\<lambda>s.
     bindS (verify_session rt sid) (\<lambda>v.
     let x = \<lparr>xp_project = rt_project rt, xp_session = r, xp_events = es,
           xp_checkpoints = sort_key cp_created (filter (\<lambda>c. cp_session c = sid) (so_checkpoints s)),
           xp_verification = v, xp_hash = ''''\<rparr>
     in returnS (x\<lparr>xp_hash := digest (rt_sha rt) (export_basis rt x)\<rparr>)))))"

definition quarantine :: "session_env \<Rightarrow> string \<Rightarrow> string \<Rightarrow> string \<Rightarrow> string \<Rightarrow> pyval \<Rightarrow> int session_op" where
  "quarantine rt sid object_type object_id reason payload =
     bindS (now rt) (\<lambda>t. bindS getS (\<lambda>s.
     let i = int (length (so_quarantine s)) + 1 in
     bindS (modifyS (\<lambda>s. s\<lparr>so_quarantine := so_quarantine s @
       [\<lparr>qr_id = i, qr_session = sid, qr_object_type = object_type, qr_object_id = object_id,
         qr_reason = reason, qr_payload = canon payload, qr_created = t\<rparr>]\<rparr>)) (\<lambda>_. returnS i)))"

definition as_fields :: "pyval \<Rightarrow> fields" where
  "as_fields v = (case v of PyDict kvs \<Rightarrow> kvs | _ \<Rightarrow> [])"

definition import_event ::
  "session_env \<Rightarrow> string \<Rightarrow> string option \<Rightarrow> session_event \<Rightarrow> unit session_op" where
  "import_event rt sid new_id row =
     bindS (append_event rt sid (se_type row) (as_fields (se_payload row))) (\<lambda>e.
     if se_hash e \<noteq> se_hash row \<and> new_id = None
     then bindS (quarantine rt sid ''event'' (int_str (se_sequence row)) ''import-hash-changed''
       (session_event_py row)) (\<lambda>_. returnS ())
     else returnS ())"

definition import_session :: "session_env \<Rightarrow> session_export \<Rightarrow> string option \<Rightarrow> session_row session_op" where
  "import_session rt x new_id =
     (if xp_hash x \<noteq> digest (rt_sha rt) (export_basis rt x)
      then failS (ValueError ''session export hash mismatch'')
      else bindS (create_session rt new_id []
          (dict_merge [(''imported_from'', PyStr (ss_id (xp_session x)))] (as_fields (ss_metadata (xp_session x))))) (\<lambda>r.
        bindS (mapS (import_event rt (ss_id r) new_id) (xp_events x)) (\<lambda>_. returnS r)))"

definition recover :: "session_env \<Rightarrow> bool \<Rightarrow> (bool \<times> (string \<times> verification) list) session_op" where
  "recover rt integrity =
     bindS getS (\<lambda>s.
     bindS (mapS (\<lambda>r. bindS (verify_session rt (ss_id r)) (\<lambda>v. returnS (ss_id r, v)))
       (list_sessions rt None s)) (\<lambda>results.
     returnS (integrity \<and> list_all (\<lambda>(_, v). vf_ok v) results, results)))"

definition compact_due :: "session_env \<Rightarrow> int \<Rightarrow> (string \<times> int \<times> string option) list session_op" where
  "compact_due rt min_events =
     bindS getS (\<lambda>s.
     bindS (mapS (\<lambda>r. bindS (all_events rt (ss_id r)) (\<lambda>es.
         if int (length es) < min_events then returnS []
         else bindS (compact_session rt (ss_id r) 32 8 None False) (\<lambda>root.
           returnS [(ss_id r, int (length es), root)]))) (list_sessions rt (Some ''ACTIVE'') s)) (\<lambda>rows.
     returnS (concat rows)))"

section \<open>Verified histories\<close>

definition session_event_ok :: "(pyval \<Rightarrow> string) \<Rightarrow> session_event \<Rightarrow> bool" where
  "session_event_ok sha e \<longleftrightarrow> se_hash e = digest sha (session_event_basis e)"

text \<open>As stored: the payload is what \<open>json.loads\<close> gives back.\<close>

definition stored_event :: "(pyval \<Rightarrow> string) \<Rightarrow> session_event \<Rightarrow> bool" where
  "stored_event sha e \<longleftrightarrow> session_event_ok sha e \<and> canon (se_payload e) = se_payload e"

interpretation session_log: hash_chain se_previous se_hash zero_hash "stored_event sha"
  "\<lambda>e. canon (session_event_basis e)" sha for sha :: "pyval \<Rightarrow> string"
proof
  show "se_hash e = sha (canon (session_event_basis e))" if "stored_event sha e" for e
    using that by (simp add: stored_event_def session_event_ok_def digest_def)
  show "e = e'" if "stored_event sha e" "stored_event sha e'"
    "canon (session_event_basis e) = canon (session_event_basis e')" for e e'
  proof -
    have "map (canon \<circ> snd) (case session_event_basis e of PyDict kvs \<Rightarrow> kvs | _ \<Rightarrow> []) =
        map (canon \<circ> snd) (case session_event_basis e' of PyDict kvs \<Rightarrow> kvs | _ \<Rightarrow> [])"
      using that(3) unfolding session_event_basis_def pyval.case
      by (rule canon_dict_eqD) simp_all
    moreover from this have "se_hash e = se_hash e'"
      using that by (simp add: stored_event_def session_event_ok_def digest_def)
    ultimately show ?thesis using that(1,2) by (simp add: session_event_basis_def stored_event_def)
  qed
qed

lemma event_reasons_Nil:
  "event_reasons sha n h e = [] \<longleftrightarrow> se_sequence e = n \<and> se_previous e = h \<and> session_event_ok sha e"
  by (auto simp: event_reasons_def session_event_ok_def)

lemma verify_loop_ok:
  "vf_ok (verify_loop sha n h es reasons) \<longleftrightarrow> reasons = [] \<and> numbered se_sequence n es \<and>
     linked se_previous se_hash h es \<and> (\<forall>e \<in> set es. session_event_ok sha e)"
  by (induction sha n h es reasons rule: verify_loop.induct) (auto simp: event_reasons_Nil)

lemma verify_loop_ok_reasons: "vf_ok (verify_loop sha n h es reasons) \<longleftrightarrow> vf_reasons (verify_loop sha n h es reasons) = []"
  by (induction sha n h es reasons rule: verify_loop.induct) auto

lemma verify_loop_results:
  "vf_last_hash (verify_loop sha n h es reasons) = head_hash se_hash h es"
  "vf_events (verify_loop sha n h es reasons) = (if es = [] then n - 1 else se_sequence (last es))"
  by (induction sha n h es reasons rule: verify_loop.induct) (auto simp: head_hash_def)

text \<open>The history of one session as the operations keep it.\<close>

definition history_ok :: "(pyval \<Rightarrow> string) \<Rightarrow> session_event list \<Rightarrow> bool" where
  "history_ok sha es \<longleftrightarrow> numbered se_sequence 1 es \<and> linked se_previous se_hash zero_hash es \<and>
     (\<forall>e \<in> set es. stored_event sha e)"

lemma history_take: "history_ok sha es \<Longrightarrow> history_ok sha (take n es)"
  by (auto simp: history_ok_def numbered_take linked_take dest: in_set_takeD)

lemma history_first_min:
  "history_ok sha es \<Longrightarrow> first_min (\<lambda>e. - se_sequence e) es = (if es = [] then None else Some (last es))"
  unfolding history_ok_def by (blast intro: numbered_first_min)

lemma select_all:
  assumes "history_ok sha (session_rows s sid)"
  shows "select_events s sid 0 10000000 = take 10000000 (session_rows s sid)"
proof -
  have num: "numbered se_sequence 1 (session_rows s sid)" using assms by (simp add: history_ok_def)
  have "sort_key se_sequence (session_rows s sid) = session_rows s sid"
    by (rule sort_key_sorted[OF numbered_sorted[OF num]])
  moreover have "filter (\<lambda>e. 0 < se_sequence e) (session_rows s sid) = session_rows s sid"
    using numbered_range[OF num] by (force intro: filter_True)
  ultimately show ?thesis by (simp add: select_events_def sql_limit_take)
qed

section \<open>Effects of the operations\<close>

text \<open>What only the summaries and the counter may distinguish.\<close>

definition same_history :: "store \<Rightarrow> store \<Rightarrow> bool" where
  "same_history s t \<longleftrightarrow> so_events t = so_events s \<and> so_checkpoints t = so_checkpoints s \<and>
     so_sessions t = so_sessions s \<and> so_quarantine t = so_quarantine s"

lemma same_history_pre: "reflp same_history" "transp same_history"
  by (auto simp: same_history_def reflp_def transp_def)

lemma same_history_refl [simp]: "same_history s s" "same_history s (s\<lparr>so_tick := n\<rparr>)"
  "same_history s (s\<lparr>so_summaries := x\<rparr>)"
  by (simp_all add: same_history_def)

lemma same_history_trans: "same_history s t \<Longrightarrow> same_history t u \<Longrightarrow> same_history s u"
  by (simp add: same_history_def)

lemma session_rows_same: "same_history s t \<Longrightarrow> session_rows t sid = session_rows s sid"
  by (simp add: same_history_def session_rows_def)

lemma rel_op_txn:
  assumes "rel_op R m" and "\<And>s n. R s (s\<lparr>so_tick := n\<rparr>)"
  shows "rel_op R (txn m)"
  unfolding rel_op_def
proof
  fix s
  obtain r t where "m s = (r, t)" by fastforce
  then show "R s (snd (txn m s))"
    using assms by (cases r) (auto simp: txn_def rel_op_def split: prod.splits sum.splits, metis snd_conv)
qed

lemmas same_rules = rel_op_bindS[OF same_history_pre(2)] rel_op_returnS[OF same_history_pre(1)]
  rel_op_failS[OF same_history_pre(1)] rel_op_getS[OF same_history_pre(1)]
  rel_op_mapS[OF same_history_pre] rel_op_modifyS rel_op_txn

lemma get_session_state: "get_session rt sid s = (r, t) \<Longrightarrow> t = s"
  by (auto simp: get_session_def split: option.splits)

lemma same_get_session: "rel_op same_history (get_session rt sid)"
  using get_session_state by (auto simp: rel_op_def) (metis prod.collapse same_history_refl(1))

lemma same_now: "rel_op same_history (now rt)" and same_fresh: "rel_op same_history (fresh rt)"
  by (simp_all add: rel_op_def now_def fresh_def)

lemma same_all_events: "rel_op same_history (all_events rt sid)"
  unfolding all_events_def events_def by (intro same_rules same_get_session)

lemma same_put_summary: "rel_op same_history (put_summary r)"
  unfolding put_summary_def by (intro same_rules) simp

lemma same_summary_content: "rel_op same_history (summary_content i)"
  by (auto simp: rel_op_def summary_content_def split: option.splits)

lemma same_leaf_summary: "rel_op same_history (leaf_summary rt sid f grp)"
  unfolding leaf_summary_def Let_def by (intro same_rules same_now same_put_summary)

lemma same_merge_summary: "rel_op same_history (merge_summary rt sid level grp)"
  unfolding merge_summary_def Let_def by (intro same_rules same_now same_put_summary same_summary_content)

lemma same_compact_levels: "same_history s (snd (compact_levels rt sid fanout level nodes s))"
proof (induction rt sid fanout level nodes s rule: compact_levels.induct)
  case (1 rt sid fanout level nodes s)
  obtain r t where m: "mapS (merge_summary rt sid level) (chunks (max 2 fanout) nodes) s = (r, t)" by fastforce
  have "rel_op same_history (mapS (merge_summary rt sid level) (chunks (max 2 fanout) nodes))"
    by (intro same_rules same_merge_summary)
  then have "same_history s t" using m by (metis rel_op_def snd_conv)
  then show ?case using 1[OF _ m[symmetric]] m
    by (subst compact_levels.simps) (auto split: sum.splits intro: same_history_trans)
qed

lemma same_build_summaries: "rel_op same_history (build_summaries rt sid leaf_size fanout f es)"
  unfolding build_summaries_def
  by (cases "leaf_size \<le> 0")
    (auto intro!: same_rules same_leaf_summary simp: rel_op_def[of _ "compact_levels _ _ _ _ _"] same_compact_levels)

lemma same_compact: "rel_op same_history (compact_session rt sid leaf_size fanout f force)"
proof -
  have build: "rel_op same_history (bindS (build_summaries rt sid leaf_size fanout g es) (\<lambda>i. returnS (Some i)))"
    for g es by (intro same_rules same_build_summaries)
  show ?thesis
    unfolding compact_session_def Let_def
    by (rule same_rules(1)[OF same_all_events], rule same_rules(1), rule same_rules(4))
      (simp add: build same_rules split: option.splits)
qed

lemma verify_state: "verify_session rt sid s = (r, t) \<Longrightarrow> t = s"
  by (auto simp: verify_session_def all_events_def events_def bindS_def get_session_def
      split: option.splits)

lemma verify_result:
  "verify_session rt sid s = (Inr v, t) \<Longrightarrow> v = verify_loop (rt_sha rt) 1 zero_hash (select_events s sid 0 10000000) []"
  by (auto simp: verify_session_def all_events_def events_def bindS_def get_session_def
      split: option.splits)

lemma verify_cases:
  "verify_session rt sid s = (r, t) \<Longrightarrow> (r = Inl (KeyError sid) \<or>
     r = Inr (verify_loop (rt_sha rt) 1 zero_hash (select_events s sid 0 10000000) [])) \<and> t = s"
  by (auto simp: verify_session_def all_events_def events_def bindS_def get_session_def
      split: option.splits)

section \<open>The invariant of the stored sessions\<close>

definition checkpoint_ok :: "store \<Rightarrow> checkpoint_row \<Rightarrow> bool" where
  "checkpoint_ok s c \<longleftrightarrow> 0 \<le> cp_through c \<and> nat (cp_through c) \<le> length (session_rows s (cp_session c)) \<and>
     cp_event_hash c =
       head_hash se_hash zero_hash (take (nat (cp_through c)) (session_rows s (cp_session c)))"

definition store_inv :: "session_env \<Rightarrow> store \<Rightarrow> bool" where
  "store_inv rt s \<longleftrightarrow> distinct (map ss_id (so_sessions s)) \<and>
     (\<forall>sid. history_ok (rt_sha rt) (session_rows s sid)) \<and>
     (\<forall>c \<in> set (so_checkpoints s). checkpoint_ok s c)"

text \<open>Histories only grow at their end, and checkpoints stay.\<close>

definition extends :: "store \<Rightarrow> store \<Rightarrow> bool" where
  "extends s t \<longleftrightarrow> (\<forall>sid. \<exists>zs. session_rows t sid = session_rows s sid @ zs) \<and>
     set (so_checkpoints s) \<subseteq> set (so_checkpoints t)"

definition advances :: "session_env \<Rightarrow> store \<Rightarrow> store \<Rightarrow> bool" where
  "advances rt s t \<longleftrightarrow> (store_inv rt s \<longrightarrow> store_inv rt t \<and> extends s t)"

lemma extends_refl [simp]: "extends s s"
  by (simp add: extends_def)

lemma extends_trans: "extends s t \<Longrightarrow> extends t u \<Longrightarrow> extends s u"
  unfolding extends_def by (metis append.assoc subset_trans)

lemma advances_pre: "reflp (advances rt)" "transp (advances rt)"
  by (auto simp: advances_def reflp_def transp_def intro: extends_trans)

lemma same_store_inv: "same_history s t \<Longrightarrow> store_inv rt s \<Longrightarrow> store_inv rt t"
  by (simp add: store_inv_def same_history_def session_rows_def checkpoint_ok_def)

lemma same_advances: "same_history s t \<Longrightarrow> advances rt s t"
  by (auto simp: advances_def same_store_inv extends_def session_rows_same) (simp add: same_history_def)

lemma rel_op_mono: "rel_op R m \<Longrightarrow> (\<And>s t. R s t \<Longrightarrow> Q s t) \<Longrightarrow> rel_op Q m"
  by (simp add: rel_op_def)

lemmas adv_same = rel_op_mono[OF _ same_advances]

lemmas adv_rules = rel_op_bindS[OF advances_pre(2)] rel_op_returnS[OF advances_pre(1)]
  rel_op_failS[OF advances_pre(1)] rel_op_getS[OF advances_pre(1)]
  rel_op_mapS[OF advances_pre] adv_same[OF same_now] adv_same[OF same_fresh]
  adv_same[OF same_get_session] adv_same[OF same_all_events] adv_same[OF same_compact]
  adv_same[OF same_summary_content]

lemma extends_checkpoint_ok: "extends s t \<Longrightarrow> checkpoint_ok s c \<Longrightarrow> checkpoint_ok t c"
proof -
  assume "extends s t" and ok: "checkpoint_ok s c"
  then obtain zs where "session_rows t (cp_session c) = session_rows s (cp_session c) @ zs"
    by (auto simp: extends_def)
  then show ?thesis using ok by (simp add: checkpoint_ok_def)
qed

text \<open>Appending the next event to a good history keeps it good.\<close>

lemma next_event_fields:
  assumes "history_ok (rt_sha rt) rows"
  shows "se_sequence (next_event rt sid ty payload rows t) = int (length rows) + 1"
    and "se_previous (next_event rt sid ty payload rows t) = head_hash se_hash zero_hash rows"
    and "se_session (next_event rt sid ty payload rows t) = sid"
    and "se_payload (next_event rt sid ty payload rows t) = payload"
proof -
  have "numbered se_sequence 1 rows" using assms by (simp add: history_ok_def)
  from numbered_last[OF this]
  show "se_sequence (next_event rt sid ty payload rows t) = int (length rows) + 1"
    by (simp add: next_event_def Let_def history_first_min[OF assms])
  show "se_previous (next_event rt sid ty payload rows t) = head_hash se_hash zero_hash rows"
    by (simp add: next_event_def Let_def history_first_min[OF assms] head_hash_def)
qed (simp_all add: next_event_def Let_def)

lemma stored_next_event:
  "stored_event (rt_sha rt) ((next_event rt sid ty payload rows t)\<lparr>se_payload := canon payload\<rparr>)"
  by (simp add: stored_event_def session_event_ok_def next_event_def Let_def session_event_basis_def digest_def)

lemma history_snoc:
  assumes "history_ok (rt_sha rt) rows"
  shows "history_ok (rt_sha rt)
    (rows @ [(next_event rt sid ty payload rows t)\<lparr>se_payload := canon payload\<rparr>])"
  using assms next_event_fields[OF assms] stored_next_event
  by (simp add: history_ok_def numbered_append linked_append)

lemma history_add_event:
  assumes "store_inv rt s" and "\<forall>r. session_rows s' r = session_rows s r @ (if r = sid then [e] else [])"
    and "history_ok (rt_sha rt) (session_rows s' sid)" and "so_checkpoints s' = so_checkpoints s"
    and "map ss_id (so_sessions s') = map ss_id (so_sessions s)"
  shows "store_inv rt s' \<and> extends s s'"
proof -
  have ext: "extends s s'" using assms(2,4) by (auto simp: extends_def)
  have "history_ok (rt_sha rt) (session_rows s' r)" for r
    using assms(1-3) by (cases "r = sid") (auto simp: store_inv_def)
  then show ?thesis using ext assms(1,4,5) extends_checkpoint_ok[OF ext] by (simp add: store_inv_def)
qed

definition append_body :: "session_env \<Rightarrow> string \<Rightarrow> string \<Rightarrow> fields \<Rightarrow> session_event session_op" where
  "append_body rt sid ty payload = bindS (now rt) (\<lambda>created. bindS getS (\<lambda>s.
       let e = next_event rt sid ty (PyDict payload) (session_rows s sid) created in
       bindS (insert_event e) (\<lambda>_. bindS (modifyS (touch sid created)) (\<lambda>_. returnS e))))"

lemma append_body_Inr:
  assumes "append_body rt sid ty payload s = (Inr e, t)"
  shows "e = next_event rt sid ty (PyDict payload) (session_rows s sid) (rt_clock rt (so_tick s)) \<and>
    so_events t = so_events s @ [e\<lparr>se_payload := canon (se_payload e)\<rparr>] \<and>
    so_checkpoints t = so_checkpoints s \<and> map ss_id (so_sessions t) = map ss_id (so_sessions s) \<and>
    so_quarantine t = so_quarantine s"
proof -
  have rows: "session_rows (s\<lparr>so_tick := n\<rparr>) r = session_rows s r" for n r by (simp add: session_rows_def)
  have ids: "map ss_id (update_where (\<lambda>r. ss_id r = sid) (\<lambda>r. r\<lparr>ss_updated := x\<rparr>) rs) = map ss_id rs" for x rs
    by (rule map_update_where_same) simp
  show ?thesis using assms
    by (auto simp: append_body_def bindS_eq_Inr now_def Let_def insert_event_def touch_def rows ids
        split: if_splits)
qed

lemma append_body_advances:
  assumes "append_body rt sid ty payload s = (Inr e, t)"
  shows "advances rt s t"
proof -
  note eff = append_body_Inr[OF assms]
  let ?e = "e\<lparr>se_payload := canon (se_payload e)\<rparr>"
  show ?thesis unfolding advances_def
  proof
    assume inv: "store_inv rt s"
    then have hist: "history_ok (rt_sha rt) (session_rows s sid)" by (simp add: store_inv_def)
    have sid: "se_session e = sid" "se_payload e = PyDict payload"
      using eff next_event_fields(3,4)[OF hist] by auto
    have rows: "\<forall>r. session_rows t r = session_rows s r @ (if r = sid then [?e] else [])"
      using eff sid by (auto simp: session_rows_def)
    show "store_inv rt t \<and> extends s t"
    proof (rule history_add_event[OF inv rows])
      show "history_ok (rt_sha rt) (session_rows t sid)"
        using history_snoc[OF hist, where sid = sid and ty = ty and payload = "PyDict payload"] eff sid rows by simp
    qed (use eff in auto)
  qed
qed

lemma txn_Inr: "txn m s = (Inr x, t) \<longleftrightarrow> m s = (Inr x, t)"
  by (cases "m s"; cases "fst (m s)") (auto simp: txn_def)

lemma append_event_unfold:
  "append_event rt sid ty payload = bindS (get_session rt sid) (\<lambda>_. txn (append_body rt sid ty payload))"
  by (simp add: append_event_def append_body_def)

lemma txn_body:
  assumes "\<And>s e t. m s = (Inr e, t) \<Longrightarrow> R s t" and "\<And>s n. R s (s\<lparr>so_tick := n\<rparr>)"
  shows "rel_op R (txn m)"
  using assms by (auto simp: rel_op_def txn_def split: prod.splits sum.splits)

lemma adv_append: "rel_op (advances rt) (append_event rt sid ty payload)"
  unfolding append_event_unfold
  by (intro adv_rules txn_body) (auto intro: append_body_advances same_advances)

lemma adv_insert_session: "rel_op (advances rt) (insert_session r)"
  by (auto simp: rel_op_def insert_session_def advances_def store_inv_def extends_def session_rows_def
      checkpoint_ok_def)

lemma adv_create: "rel_op (advances rt) (create_session rt i ps md)"
proof -
  have tick: "advances rt s (s\<lparr>so_tick := n\<rparr>)" for s n by (simp add: same_advances)
  have body: "rel_op (advances rt) (case e of None \<Rightarrow> insert_session r | Some x \<Rightarrow> failS x)" for e r
    by (cases e) (simp_all add: adv_insert_session adv_rules)
  show ?thesis unfolding create_session_def Let_def
    by (intro adv_rules rel_op_txn tick body) (auto intro: adv_rules)
qed

text \<open>A checkpoint records the verified head of the history it was taken of.\<close>

lemma verified_checkpoint:
  assumes "store_inv rt s" and "vf_ok v"
    and v: "v = verify_loop (rt_sha rt) 1 zero_hash (select_events s sid 0 10000000) []"
  shows "0 \<le> vf_events v \<and> nat (vf_events v) \<le> length (session_rows s sid) \<and>
    vf_last_hash v = head_hash se_hash zero_hash (take (nat (vf_events v)) (session_rows s sid))"
proof -
  let ?rows = "session_rows s sid" and ?es = "take 10000000 (session_rows s sid)"
  have hist: "history_ok (rt_sha rt) ?rows" using assms(1) by (simp add: store_inv_def)
  have v': "v = verify_loop (rt_sha rt) 1 zero_hash ?es []" using v select_all[OF hist] by simp
  have "numbered se_sequence 1 ?es" using history_take[OF hist] by (simp add: history_ok_def)
  from numbered_last[OF this] have n: "vf_events v = int (length ?es)"
    unfolding v' verify_loop_results by (cases "?es = []") auto
  then have tk: "take (nat (vf_events v)) ?rows = ?es" by (simp add: min_def)
  have "vf_last_hash v = head_hash se_hash zero_hash ?es" unfolding v' by (rule verify_loop_results(1))
  then show ?thesis using n unfolding tk by simp
qed

lemma checkpoint_Inr:
  assumes "checkpoint rt sid md s = (Inr c, t)"
  obtains v where "v = verify_loop (rt_sha rt) 1 zero_hash (select_events s sid 0 10000000) []"
    and "vf_ok v" and "cp_session c = sid" and "cp_through c = vf_events v"
    and "cp_event_hash c = vf_last_hash v" and "so_checkpoints t = so_checkpoints s @ [c]"
    and "so_events t = so_events s" and "so_sessions t = so_sessions s" and "so_quarantine t = so_quarantine s"
proof -
  from assms obtain v s1 root s2 where v: "verify_session rt sid s = (Inr v, s1)" "vf_ok v"
    and cmp: "compact_session rt sid 32 8 None True s1 = (Inr root, s2)"
    and rest: "so_checkpoints t = so_checkpoints s2 @ [c]" "so_events t = so_events s2"
      "so_sessions t = so_sessions s2" "so_quarantine t = so_quarantine s2"
      "cp_session c = sid" "cp_through c = vf_events v" "cp_event_hash c = vf_last_hash v"
    unfolding checkpoint_def bindS_eq_Inr
    by (auto simp: bindS_eq_Inr fresh_def now_def Let_def split: if_splits)
  have "same_history s1 s2" using same_compact cmp by (metis rel_op_def snd_conv)
  moreover have "s1 = s" using verify_state[OF v(1)] .
  ultimately show thesis
    using that[OF verify_result[OF v(1)] v(2)] rest by (simp add: same_history_def)
qed

lemma checkpoint_Inl:
  assumes "checkpoint rt sid md s = (Inl e, t)"
  shows "same_history s t"
proof (cases "verify_session rt sid s")
  case (Pair r s1)
  then have s1: "s1 = s" using verify_state by blast
  show ?thesis
  proof (cases r)
    case (Inl x)
    then show ?thesis using assms Pair s1 by (simp add: checkpoint_def bindS_Inl)
  next
    case (Inr v)
    obtain r2 s2 where c: "compact_session rt sid 32 8 None True s = (r2, s2)" by fastforce
    have "same_history s s2" using same_compact c by (metis rel_op_def snd_conv)
    then show ?thesis using assms Pair s1 Inr c
      by (cases r2) (auto simp: checkpoint_def bindS_def fresh_def now_def Let_def same_history_def
          split: if_splits)
  qed
qed

lemma adv_checkpoint: "rel_op (advances rt) (checkpoint rt sid md)"
  unfolding rel_op_def
proof
  fix s
  obtain r t where m: "checkpoint rt sid md s = (r, t)" by fastforce
  have "advances rt s t"
  proof (cases r)
    case (Inl e)
    then show ?thesis using m checkpoint_Inl same_advances by blast
  next
    case (Inr c)
    with m have "checkpoint rt sid md s = (Inr c, t)" by simp
    then show ?thesis
    proof (rule checkpoint_Inr)
      fix v
      assume v: "v = verify_loop (rt_sha rt) 1 zero_hash (select_events s sid 0 10000000) []" "vf_ok v"
        and c: "cp_session c = sid" "cp_through c = vf_events v" "cp_event_hash c = vf_last_hash v"
        and t: "so_checkpoints t = so_checkpoints s @ [c]" "so_events t = so_events s"
          "so_sessions t = so_sessions s"
      have rows: "session_rows t x = session_rows s x" for x using t by (simp add: session_rows_def)
      show "advances rt s t" unfolding advances_def
      proof
        assume inv: "store_inv rt s"
        have "checkpoint_ok t c" using verified_checkpoint[OF inv v(2,1)] c
          by (simp add: checkpoint_ok_def rows)
        then show "store_inv rt t \<and> extends s t" using inv t
          by (auto simp: store_inv_def extends_def rows checkpoint_ok_def)
      qed
    qed
  qed
  then show "advances rt s (snd (checkpoint rt sid md s))" using m by simp
qed

lemma adv_fork: "rel_op (advances rt) (fork rt sid md)"
  unfolding fork_def by (intro adv_rules adv_checkpoint adv_create adv_append)

lemma adv_merge: "rel_op (advances rt) (merge_sessions rt sids md)"
  unfolding merge_sessions_def Let_def
  by (auto intro!: adv_rules adv_checkpoint adv_create adv_append)

lemma adv_close: "rel_op (advances rt) (close_session rt sid)"
proof -
  have ids: "map ss_id (update_where (\<lambda>r. ss_id r = sid) (\<lambda>r. r\<lparr>ss_state := st, ss_updated := x\<rparr>) rs) =
    map ss_id rs" for x rs st by (rule map_update_where_same) simp
  have close: "rel_op (advances rt) (modifyS (\<lambda>s. s\<lparr>so_sessions := update_where (\<lambda>r. ss_id r = sid)
       (\<lambda>r. r\<lparr>ss_state := ''CLOSED'', ss_updated := t\<rparr>) (so_sessions s)\<rparr>))" for t
    by (rule rel_op_modifyS)
      (simp add: advances_def store_inv_def ids extends_def session_rows_def checkpoint_ok_def)
  show ?thesis unfolding close_session_def by (intro adv_rules adv_checkpoint close)
qed

lemma adv_quarantine: "rel_op (advances rt) (quarantine rt sid ot oi why p)"
proof -
  have put: "rel_op (advances rt) (modifyS (\<lambda>s. s\<lparr>so_quarantine := f s\<rparr>))" for f
    by (rule rel_op_modifyS)
      (simp add: advances_def store_inv_def extends_def session_rows_def checkpoint_ok_def)
  show ?thesis unfolding quarantine_def Let_def by (intro adv_rules put)
qed

lemma adv_import: "rel_op (advances rt) (import_session rt x i)"
  unfolding import_session_def import_event_def
  by (auto intro!: adv_rules adv_create adv_append adv_quarantine)

lemma adv_active: "rel_op (advances rt) (active_context rt sid budget recent per)"
  unfolding active_context_def Let_def
  by (intro adv_rules) (auto intro!: adv_rules split: option.splits prod.splits)

lemma adv_compact: "rel_op (advances rt) (compact_session rt sid leaf_size fanout f force)"
  by (rule adv_same[OF same_compact])

lemma adv_compact_due: "rel_op (advances rt) (compact_due rt n)"
  unfolding compact_due_def by (auto intro!: adv_rules)

section \<open>Runs\<close>

text \<open>Every method that writes, with any arguments; a run is any sequence of them, failed calls included.\<close>

inductive session_step :: "session_env \<Rightarrow> store \<Rightarrow> store \<Rightarrow> bool" for rt :: session_env where
  step_create: "session_step rt s (snd (create_session rt i ps md s))"
| step_append: "session_step rt s (snd (append_event rt sid ty payload s))"
| step_compact: "session_step rt s (snd (compact_session rt sid leaf_size fanout f force s))"
| step_active: "session_step rt s (snd (active_context rt sid budget recent per s))"
| step_checkpoint: "session_step rt s (snd (checkpoint rt sid md s))"
| step_fork: "session_step rt s (snd (fork rt sid md s))"
| step_merge: "session_step rt s (snd (merge_sessions rt sids md s))"
| step_close: "session_step rt s (snd (close_session rt sid s))"
| step_import: "session_step rt s (snd (import_session rt x i s))"
| step_quarantine: "session_step rt s (snd (quarantine rt sid ot oi why p s))"
| step_compact_due: "session_step rt s (snd (compact_due rt n s))"

lemma session_step_advances: "session_step rt s t \<Longrightarrow> advances rt s t"
  by (induction rule: session_step.induct)
    (use adv_create adv_append adv_compact adv_active adv_checkpoint adv_fork adv_merge
      adv_close adv_import adv_quarantine adv_compact_due in \<open>auto simp: rel_op_def\<close>)

lemma empty_store_inv: "store_inv rt empty_store"
  by (simp add: store_inv_def empty_store_def session_rows_def history_ok_def)

interpretation session_runs: stateful "\<lambda>s. s = empty_store" "session_step rt" "store_inv rt"
  for rt :: session_env
  by unfold_locales (use empty_store_inv session_step_advances in \<open>auto simp: advances_def\<close>)

section \<open>What compaction builds\<close>

abbreviation node_start :: "node \<Rightarrow> int" where "node_start n \<equiv> fst (snd n)"
abbreviation node_end :: "node \<Rightarrow> int" where "node_end n \<equiv> fst (snd (snd n))"

definition summary_ids :: "store \<Rightarrow> string set" where
  "summary_ids s = sm_id ` set (so_summaries s)"

definition node_row :: "string \<Rightarrow> node \<Rightarrow> summary_row \<Rightarrow> bool" where
  "node_row sid n r \<longleftrightarrow> sm_id r = fst n \<and> sm_session r = sid \<and> sm_start r = node_start n \<and>
     sm_end r = node_end n \<and> sm_invalidated r = None"

definition puts :: "string \<Rightarrow> node \<Rightarrow> store \<Rightarrow> store \<Rightarrow> bool" where
  "puts sid n s t \<longleftrightarrow> (\<exists>r. node_row sid n r \<and>
     so_summaries t = filter (\<lambda>x. sm_id x \<noteq> sm_id r) (so_summaries s) @ [r])"

text \<open>All nodes of a level are stored, and the row of the last one is the newest row.\<close>

definition level_stored :: "string \<Rightarrow> node list \<Rightarrow> store \<Rightarrow> bool" where
  "level_stored sid ns s \<longleftrightarrow> (\<forall>n \<in> set ns. fst n \<in> summary_ids s) \<and>
     (ns \<noteq> [] \<longrightarrow> (\<exists>xs r. so_summaries s = xs @ [r] \<and> node_row sid (last ns) r \<and> sm_id r \<notin> sm_id ` set xs))"

lemma puts_ids: "puts sid n s t \<Longrightarrow> summary_ids t = insert (fst n) (summary_ids s)"
  by (auto simp: puts_def summary_ids_def node_row_def)

lemma puts_stored: "puts sid n s t \<Longrightarrow> level_stored sid [n] t"
  by (auto simp: level_stored_def puts_ids) (auto simp: puts_def)

lemma mapS_puts:
  assumes "\<And>x s. P x (summary_ids s) \<Longrightarrow> \<exists>n t. f x s = (Inr n, t) \<and> puts sid n s t \<and>
      node_start n = lo x \<and> node_end n = hi x"
    and "\<And>x A B. P x A \<Longrightarrow> A \<subseteq> B \<Longrightarrow> P x B"
  shows "\<forall>x \<in> set xs. P x (summary_ids s) \<Longrightarrow> \<exists>ns t. mapS f xs s = (Inr ns, t) \<and>
    map (\<lambda>n. (node_start n, node_end n)) ns = map (\<lambda>x. (lo x, hi x)) xs \<and>
    level_stored sid ns t \<and> summary_ids s \<subseteq> summary_ids t"
proof (induction xs arbitrary: s)
  case Nil
  then show ?case by (auto simp: level_stored_def)
next
  case (Cons x xs)
  have "P x (summary_ids s)" using Cons.prems by simp
  from assms(1)[OF this] obtain n t where
    n: "f x s = (Inr n, t)" "puts sid n s t" "node_start n = lo x" "node_end n = hi x" by blast
  have grow: "summary_ids s \<subseteq> summary_ids t" using puts_ids[OF n(2)] by auto
  have "\<forall>x \<in> set xs. P x (summary_ids t)"
  proof
    fix y assume "y \<in> set xs"
    then have "P y (summary_ids s)" using Cons.prems by simp
    then show "P y (summary_ids t)" using grow by (rule assms(2))
  qed
  from Cons.IH[OF this] obtain ns u where ns: "mapS f xs t = (Inr ns, u)"
      "map (\<lambda>n. (node_start n, node_end n)) ns = map (\<lambda>x. (lo x, hi x)) xs"
      "level_stored sid ns u" "summary_ids t \<subseteq> summary_ids u"
    by blast
  have "mapS f (x # xs) s = (Inr (n # ns), u)"
    using n(1) ns(1) by (simp add: bindS_def)
  moreover have "level_stored sid (n # ns) u"
  proof (cases "ns = []")
    case True
    then have "xs = []" using ns(2) by auto
    then have "u = t" using ns(1) by simp
    then show ?thesis using True puts_stored[OF n(2)] by simp
  next
    case False
    then show ?thesis using ns(3,4) puts_ids[OF n(2)] by (auto simp: level_stored_def)
  qed
  ultimately show ?case using n ns grow by auto
qed

lemma leaf_puts:
  "\<exists>n t. leaf_summary rt sid f grp s = (Inr n, t) \<and> puts sid n s t \<and>
     node_start n = se_sequence (hd grp) \<and> node_end n = se_sequence (last grp)"
  by (simp add: leaf_summary_def Let_def now_def bindS_def put_summary_def puts_def node_row_def)

lemma contents_found:
  "set is \<subseteq> summary_ids s \<Longrightarrow> \<exists>cs. mapS summary_content is s = (Inr cs, s)"
proof (induction "is")
  case (Cons i "is")
  have "find (\<lambda>r. sm_id r = i) (so_summaries s) \<noteq> None"
    using Cons.prems by (auto simp: find_None_iff summary_ids_def)
  then obtain c where "summary_content i s = (Inr c, s)"
    by (auto simp: summary_content_def split: option.splits)
  then show ?case using Cons by (auto simp: bindS_def)
qed simp

lemma merge_puts:
  assumes "\<forall>n \<in> set grp. fst n \<in> summary_ids s"
  shows "\<exists>n t. merge_summary rt sid level grp s = (Inr n, t) \<and> puts sid n s t \<and>
     node_start n = node_start (hd grp) \<and> node_end n = node_end (last grp)"
proof -
  obtain cs where "mapS summary_content (map fst grp) s = (Inr cs, s)"
    using contents_found[of "map fst grp" s] assms by auto
  then show ?thesis
    by (simp add: merge_summary_def Let_def now_def bindS_def put_summary_def puts_def node_row_def)
qed

lemma hd_last_chunks:
  assumes "xs \<noteq> []"
  shows "hd (hd (chunks n xs)) = hd xs" and "last (last (chunks n xs)) = last xs"
proof -
  have ends: "cs \<noteq> [] \<Longrightarrow> \<forall>c \<in> set cs. c \<noteq> [] \<Longrightarrow>
      hd (concat cs) = hd (hd cs) \<and> last (concat cs) = last (last cs)" for cs :: "'a list list"
    by (induction cs) (auto simp: hd_append last_append)
  have "chunks n xs \<noteq> []" "\<forall>c \<in> set (chunks n xs). c \<noteq> []"
    using assms chunks_nonempty by auto
  from ends[OF this] show "hd (hd (chunks n xs)) = hd xs" "last (last (chunks n xs)) = last xs" by simp_all
qed

lemma ends_map: "map f xs = map g ys \<Longrightarrow> xs \<noteq> [] \<Longrightarrow> f (hd xs) = g (hd ys) \<and> f (last xs) = g (last ys)"
  by (metis list.map_disc_iff hd_map last_map)

lemma compact_levels_root:
  "level_stored sid nodes s \<Longrightarrow> nodes \<noteq> [] \<Longrightarrow>
   \<exists>root t. compact_levels rt sid fanout level nodes s = (Inr [root], t) \<and> level_stored sid [root] t \<and>
     node_start root = node_start (hd nodes) \<and> node_end root = node_end (last nodes)"
proof (induction rt sid fanout level nodes s rule: compact_levels.induct)
  case (1 rt sid fanout level nodes s)
  show ?case
  proof (cases "length nodes \<le> 1")
    case True
    then obtain n where "nodes = [n]" using "1.prems"(2) by (cases nodes) auto
    then show ?thesis using "1.prems" by (subst compact_levels.simps) simp
  next
    case False
    let ?grps = "chunks (max 2 fanout) nodes"
    have stored: "\<forall>grp \<in> set ?grps. \<forall>n \<in> set grp. fst n \<in> summary_ids s"
    proof (intro ballI)
      fix grp n
      assume "grp \<in> set ?grps" "n \<in> set grp"
      then have "n \<in> set (concat ?grps)" unfolding set_concat by blast
      then show "fst n \<in> summary_ids s" using "1.prems"(1) unfolding concat_chunks level_stored_def by blast
    qed
    have "\<exists>ns t. mapS (merge_summary rt sid level) ?grps s = (Inr ns, t) \<and>
        map (\<lambda>n. (node_start n, node_end n)) ns =
          map (\<lambda>grp. (node_start (hd grp), node_end (last grp))) ?grps \<and>
        level_stored sid ns t \<and> summary_ids s \<subseteq> summary_ids t"
      by (rule mapS_puts[where P = "\<lambda>grp A. \<forall>n \<in> set grp. fst n \<in> A"])
        (use stored merge_puts in \<open>auto\<close>)
    then obtain ns t where ns: "mapS (merge_summary rt sid level) ?grps s = (Inr ns, t)"
        "map (\<lambda>n. (node_start n, node_end n)) ns =
          map (\<lambda>grp. (node_start (hd grp), node_end (last grp))) ?grps" "level_stored sid ns t"
      by auto
    have ne: "ns \<noteq> []" using ns(2) "1.prems"(2) by auto
    have "node_start (hd ns) = node_start (hd nodes)" "node_end (last ns) = node_end (last nodes)"
      using ends_map[OF ns(2) ne] hd_last_chunks[OF "1.prems"(2), of "max 2 fanout"] by auto
    then show ?thesis
      using "1.IH"[OF False ns(1)[symmetric] refl ns(3) ne] False ns(1)
      by (subst compact_levels.simps) simp
  qed
qed

lemma stored_last_row:
  assumes "level_stored sid [n] s"
  shows "\<exists>r. find (\<lambda>r. sm_id r = fst n) (so_summaries s) = Some r \<and> node_row sid n r"
proof -
  obtain xs r where xs: "so_summaries s = xs @ [r]" "node_row sid n r" "sm_id r \<notin> sm_id ` set xs"
    using assms by (auto simp: level_stored_def)
  have "sm_id r \<notin> sm_id ` set ys \<Longrightarrow> find (\<lambda>x. sm_id x = sm_id r) (ys @ [r]) = Some r" for ys
    by (induction ys) auto
  then have "find (\<lambda>x. sm_id x = fst n) (xs @ [r]) = Some r" using xs(2,3) by (simp add: node_row_def)
  then show ?thesis using xs by auto
qed

lemma build_summaries_root:
  assumes "es \<noteq> []" and "0 < leaf_size"
  shows "\<exists>i t r. build_summaries rt sid leaf_size fanout f es s = (Inr i, t) \<and>
    find (\<lambda>r. sm_id r = i) (so_summaries t) = Some r \<and> sm_session r = sid \<and>
    sm_start r = se_sequence (hd es) \<and> sm_end r = se_sequence (last es) \<and> sm_invalidated r = None"
proof -
  let ?grps = "chunks (nat leaf_size) es"
  have "\<exists>ns t. mapS (leaf_summary rt sid f) ?grps s = (Inr ns, t) \<and>
      map (\<lambda>n. (node_start n, node_end n)) ns =
        map (\<lambda>grp. (se_sequence (hd grp), se_sequence (last grp))) ?grps \<and>
      level_stored sid ns t \<and> summary_ids s \<subseteq> summary_ids t"
    by (rule mapS_puts[where P = "\<lambda>_ _. True"]) (use leaf_puts in auto)
  then obtain ns t where ns: "mapS (leaf_summary rt sid f) ?grps s = (Inr ns, t)"
      "map (\<lambda>n. (node_start n, node_end n)) ns =
        map (\<lambda>grp. (se_sequence (hd grp), se_sequence (last grp))) ?grps" "level_stored sid ns t"
    by auto
  have ne: "ns \<noteq> []" using ns(2) assms(1) by auto
  obtain root u where root: "compact_levels rt sid (nat fanout) 1 ns t = (Inr [root], u)"
      "level_stored sid [root] u" "node_start root = node_start (hd ns)" "node_end root = node_end (last ns)"
    using compact_levels_root[OF ns(3) ne] by blast
  have "node_start root = se_sequence (hd es)" "node_end root = se_sequence (last es)"
    using ends_map[OF ns(2) ne] hd_last_chunks[OF assms(1), of "nat leaf_size"] root(3,4) by auto
  moreover have "build_summaries rt sid leaf_size fanout f es s = (Inr (fst root), u)"
    using assms(2) ns(1) root(1) by (simp add: build_summaries_def txn_def bindS_def)
  ultimately show ?thesis using stored_last_row[OF root(2)] by (auto simp: node_row_def)
qed

lemma numbered_filter_take:
  "numbered seq n es \<Longrightarrow> filter (\<lambda>e. n \<le> seq e \<and> seq e \<le> n + int k - 1) es = take k es"
proof (induction es arbitrary: n k)
  case (Cons e es)
  show ?case
  proof (cases k)
    case 0
    have "\<not> (n \<le> y \<and> y \<le> n + int 0 - 1)" for y by simp
    then show ?thesis unfolding 0 by (simp only: filter_False take_0) simp
  next
    case (Suc m)
    have num: "numbered seq (n + 1) es" using Cons.prems by simp
    have "filter (\<lambda>e. n \<le> seq e \<and> seq e \<le> n + int k - 1) es =
        filter (\<lambda>e. n + 1 \<le> seq e \<and> seq e \<le> n + 1 + int m - 1) es"
      using numbered_range[OF num] Suc by (intro filter_cong refl) fastforce
    then show ?thesis using Cons.IH[OF num, of m] Cons.prems Suc by simp
  qed
qed simp

section \<open>Properties\<close>

text \<open>
  C9. Whatever sequence of calls a session store has been through, failed ones included, every
  session verifies: the history is numbered without gaps, every event names the hash of the one
  before it and carries its own digest.  \<open>verify\<close> reports exactly the stored events (the
  reading limit of ten million aside), and fails only for a session of no or another project.
\<close>

theorem reachable_histories_verify:
  assumes "reaches (\<lambda>s. s = empty_store) (session_step rt) s"
    and "verify_session rt sid s = (r, t)"
  shows "t = s \<and> (r = Inl (KeyError sid) \<or> (\<exists>v. r = Inr v \<and> vf_ok v \<and> vf_reasons v = [] \<and>
     vf_events v = int (min 10000000 (length (session_rows s sid))) \<and>
     vf_last_hash v = head_hash se_hash zero_hash (take 10000000 (session_rows s sid))))"
proof -
  let ?es = "take 10000000 (session_rows s sid)"
  have hist: "history_ok (rt_sha rt) (session_rows s sid)"
    using session_runs.reachable_inv[OF assms(1)] by (simp add: store_inv_def)
  note es = history_take[OF hist, of 10000000]
  have num: "numbered se_sequence 1 ?es" using es by (simp add: history_ok_def)
  let ?v = "verify_loop (rt_sha rt) 1 zero_hash ?es []"
  have "vf_ok ?v" using es by (simp add: verify_loop_ok history_ok_def stored_event_def)
  moreover have "vf_reasons ?v = []" using calculation by (simp add: verify_loop_ok_reasons)
  moreover have "vf_events ?v = int (min 10000000 (length (session_rows s sid)))"
    unfolding verify_loop_results using numbered_last[OF num] by (cases "?es = []") auto
  ultimately show ?thesis
    using verify_cases[OF assms(2)] verify_loop_results(1) unfolding select_all[OF hist] by blast
qed

text \<open>
  Histories are append-only and checkpoints permanent: later calls only add events at the
  end of a session's history, and a checkpoint keeps naming the hash its history had at the
  checkpointed sequence.
\<close>

theorem histories_append_only:
  assumes "reaches (\<lambda>s. s = empty_store) (session_step rt) s" and "(session_step rt)\<^sup>*\<^sup>* s t"
  shows "(\<forall>sid. \<exists>zs. session_rows t sid = session_rows s sid @ zs) \<and>
    (\<forall>c \<in> set (so_checkpoints s). c \<in> set (so_checkpoints t) \<and>
       cp_event_hash c =
         head_hash se_hash zero_hash (take (nat (cp_through c)) (session_rows t (cp_session c))))"
proof -
  have inv: "store_inv rt s" by (rule session_runs.reachable_inv[OF assms(1)])
  have "extends s t"
  proof (rule session_runs.steps_stable[OF inv _ assms(2), where Q = "extends s"])
    fix u w
    assume "store_inv rt u" "extends s u" "session_step rt u w"
    then show "extends s w" using session_step_advances extends_trans unfolding advances_def by blast
  qed simp
  moreover have "\<forall>c \<in> set (so_checkpoints s). checkpoint_ok t c"
    using inv extends_checkpoint_ok[OF calculation] by (simp add: store_inv_def)
  ultimately show ?thesis by (auto simp: extends_def checkpoint_ok_def)
qed

text \<open>
  Tamper evidence: if two stores, however they came about, both verify for a session with
  the same number of events and the same last hash, they hold the same events, unless the
  digest collides on the bodies of these events.
\<close>

theorem verified_hash_commits_history:
  assumes "verify_session rt sid s = (Inr v, s)" and "verify_session rt sid t = (Inr w, t)"
    and "vf_ok v" and "vf_ok w" and "vf_events v = vf_events w" and "vf_last_hash v = vf_last_hash w"
    and "\<forall>e \<in> set (select_events s sid 0 10000000) \<union> set (select_events t sid 0 10000000).
      canon (se_payload e) = se_payload e"
    and "inj_on (rt_sha rt) ((\<lambda>e. canon (session_event_basis e)) `
      (set (select_events s sid 0 10000000) \<union> set (select_events t sid 0 10000000)))"
  shows "select_events s sid 0 10000000 = select_events t sid 0 10000000"
proof -
  let ?xs = "select_events s sid 0 10000000" and ?ys = "select_events t sid 0 10000000"
  note v = verify_result[OF assms(1)] and w = verify_result[OF assms(2)]
  have ok: "numbered se_sequence 1 ?xs" "linked se_previous se_hash zero_hash ?xs"
      "numbered se_sequence 1 ?ys" "linked se_previous se_hash zero_hash ?ys"
    using assms(3,4) v w by (simp_all add: verify_loop_ok)
  have wf: "\<forall>e \<in> set ?xs \<union> set ?ys. stored_event (rt_sha rt) e"
    using assms(3,4,7) v w by (auto simp: verify_loop_ok stored_event_def)
  have "vf_events v = int (length ?xs)" "vf_events w = int (length ?ys)"
    using v w verify_loop_results(2) numbered_last[OF ok(1)] numbered_last[OF ok(3)] by auto
  then have "length ?xs = length ?ys" using assms(5) by simp
  then show ?thesis
    using session_log.same_length_same_log[OF ok(2,4) wf assms(8)] assms(6) v w verify_loop_results(1)
    by auto
qed

text \<open>
  C21. Compaction loses nothing: forced on any session with events, with a positive leaf size
  and any reducer, it ends with a root summary that expands to the exact event history, and it
  changes neither events nor checkpoints nor sessions.
\<close>

theorem compaction_covers_history:
  assumes "reaches (\<lambda>s. s = empty_store) (session_step rt) s"
    and "get_session rt sid s = (Inr row, s)" and "session_rows s sid \<noteq> []" and "0 < leaf_size"
  shows "\<exists>i t x. compact_session rt sid leaf_size fanout reducer True s = (Inr (Some i), t) \<and>
    so_events t = so_events s \<and> so_checkpoints t = so_checkpoints s \<and> so_sessions t = so_sessions s \<and>
    expand_summary rt i t = (Inr x, t) \<and> xs_session x = sid \<and>
    xs_events x = take 10000000 (session_rows s sid)"
proof -
  let ?rows = "session_rows s sid" and ?es = "take 10000000 (session_rows s sid)"
  have hist: "history_ok (rt_sha rt) ?rows"
    using session_runs.reachable_inv[OF assms(1)] by (simp add: store_inv_def)
  have num: "numbered se_sequence 1 ?rows" using hist by (simp add: history_ok_def)
  have ne: "?es \<noteq> []" using assms(3) by simp
  let ?f = "case reducer of None \<Rightarrow> deterministic_summary (rt_str rt) | Some f \<Rightarrow> f"
  obtain i t r where b: "build_summaries rt sid leaf_size fanout ?f ?es s = (Inr i, t)"
      "find (\<lambda>r. sm_id r = i) (so_summaries t) = Some r" "sm_session r = sid"
      "sm_start r = se_sequence (hd ?es)" "sm_end r = se_sequence (last ?es)" "sm_invalidated r = None"
    using build_summaries_root[OF ne assms(4)] by blast
  have all: "all_events rt sid s = (Inr ?es, s)"
    using assms(2) select_all[OF hist] by (simp add: all_events_def events_def bindS_def)
  have cmp: "compact_session rt sid leaf_size fanout reducer True s = (Inr (Some i), t)"
    using b(1) ne assms(3) by (simp add: compact_session_def bindS_def Let_def all b(1))
  have same: "same_history s t" using same_compact cmp by (metis rel_op_def snd_conv)
  have rows: "session_rows t sid = ?rows" by (rule session_rows_same[OF same])
  have sort: "sort_key se_sequence ?rows = ?rows" by (rule sort_key_sorted[OF numbered_sorted[OF num]])
  have "se_sequence (hd ?es) = 1" using num assms(3) by (cases ?rows) auto
  moreover have "se_sequence (last ?es) = 1 + int (length ?es) - 1"
    using numbered_last[OF numbered_take[OF num] ne] by simp
  ultimately have "filter (\<lambda>e. sm_start r \<le> se_sequence e \<and> se_sequence e \<le> sm_end r) ?rows =
      take (length ?es) ?rows"
    using numbered_filter_take[OF num, of "length ?es"] b(4,5) by simp
  also have "\<dots> = ?es" by (simp add: min_def)
  finally have "xs_events x = ?es \<and> xs_session x = sid" if "expand_summary rt i t = (Inr x, t)" for x
    using that b rows sort by (auto simp: expand_summary_def Let_def)
  moreover have "\<exists>x. expand_summary rt i t = (Inr x, t)" using b by (simp add: expand_summary_def Let_def)
  ultimately show ?thesis using cmp same by (auto simp: same_history_def)
qed

lemma subseq_reversed: "subseq xs ys \<Longrightarrow> subseq (rev xs) (rev ys)"
  by (induction rule: list_emb.induct) (auto intro: list_emb_append_mono subseq_rev_drop_many)

lemma select_sections_spec:
  assumes "\<forall>c \<in> set cs. 0 \<le> sc_tokens c" and "used \<le> budget" and "select_sections budget used cs = (chosen, tot)"
  shows "tot = used + sum_list (map sc_tokens chosen) \<and> tot \<le> budget \<and> subseq chosen cs"
  using assms
proof (induction budget used cs arbitrary: chosen tot rule: select_sections.induct)
  case (2 budget used c cs)
  show ?case
  proof (cases "used + sc_tokens c > budget")
    case True
    then show ?thesis using 2 by auto
  next
    case False
    obtain rest t where r: "select_sections budget (used + sc_tokens c) cs = (rest, t)" by fastforce
    then have "t = used + sc_tokens c + sum_list (map sc_tokens rest) \<and> t \<le> budget \<and> subseq rest cs"
      using "2.IH"(2)[OF False _ _ r] "2.prems"(1) False by auto
    then show ?thesis using "2.prems"(3) False r by auto
  qed
qed simp

text \<open>
  The active context fits its budget: for a non-negative budget the tokens of the chosen
  sections add up to the reported use and stay within it, the sections are a subsequence of the
  root summary followed by the recent events, and the history itself is not touched.
\<close>

theorem active_context_within_budget:
  assumes "active_context rt sid budget recent per s = (Inr a, t)" and "0 \<le> budget"
  shows "ac_used a = sum_list (map sc_tokens (ac_sections a)) \<and> ac_used a \<le> budget \<and>
    so_events t = so_events s \<and> so_checkpoints t = so_checkpoints s \<and>
    (\<exists>summary. length summary \<le> 1 \<and> subseq (ac_sections a)
       (summary @ map (event_section rt per) (last_events recent (select_events s sid 0 10000000))))"
proof -
  from assms(1) obtain es s1 root s2 summary s3 where
    es: "all_events rt sid s = (Inr es, s1)"
    and root: "(if int (length es) > recent then compact_session rt sid 32 8 None False else returnS None) s1 = (Inr root, s2)"
    and sum: "(case root of None \<Rightarrow> returnS [] | Some i \<Rightarrow> bindS (summary_content i) (\<lambda>text.
        returnS [\<lparr>sc_role = ''summary'', sc_id = i, sc_text = text, sc_tokens = section_tokens per text\<rparr>])) s2 = (Inr summary, s3)"
    and a: "a = (let recents = last_events recent es;
         sections = summary @ map (event_section rt per) recents;
         (chosen, used) = select_sections budget 0 (rev sections)
       in \<lparr>ac_budget = budget, ac_used = used, ac_sections = rev chosen, ac_root = root,
          ac_recent = int (length recents), ac_history = int (length es)\<rparr>)" and t: "t = s3"
    unfolding active_context_def bindS_eq_Inr
    by (auto simp: Let_def case_prod_beta)
  let ?sections = "summary @ map (event_section rt per) (last_events recent es)"
  obtain chosen used where sel: "select_sections budget 0 (rev ?sections) = (chosen, used)" by fastforce
  have es': "es = select_events s sid 0 10000000" "s1 = s"
    using es by (auto simp: all_events_def events_def bindS_eq_Inr dest!: get_session_state)
  have "same_history s1 s2"
  proof (cases "int (length es) > recent")
    case True
    then have "compact_session rt sid 32 8 None False s1 = (Inr root, s2)" using root by simp
    then show ?thesis using same_compact[of rt sid 32 8 None False] unfolding rel_op_def
      by (metis snd_conv)
  qed (use root in auto)
  moreover have "s3 = s2 \<and> length summary \<le> 1 \<and> (\<forall>c \<in> set summary. 0 \<le> sc_tokens c)"
    using sum by (auto simp: bindS_eq_Inr summary_content_def section_tokens_def split: option.splits)
  moreover have "\<forall>c \<in> set (map (event_section rt per) (last_events recent es)). 0 \<le> sc_tokens c"
    by (auto simp: event_section_def Let_def section_tokens_def)
  ultimately have tok: "\<forall>c \<in> set (rev ?sections). 0 \<le> sc_tokens c" and len: "length summary \<le> 1"
    and same: "same_history s t" using t es'(2) by auto
  have "used = sum_list (map sc_tokens chosen)" "used \<le> budget" "subseq (rev chosen) ?sections"
    using select_sections_spec[OF tok assms(2) sel] subseq_reversed[of chosen "rev ?sections"] by auto
  moreover have "ac_used a = used" "ac_sections a = rev chosen" using a sel by (simp_all add: Let_def)
  ultimately show ?thesis using same len es'(1)
    by (auto simp: same_history_def rev_map[symmetric] sum_list_rev)
qed

section \<open>Import\<close>

definition log_grows :: "store \<Rightarrow> store \<Rightarrow> bool" where
  "log_grows s t \<longleftrightarrow> set (so_events s) \<subseteq> set (so_events t)"

lemma quarantine_Inr:
  "quarantine rt sid ot oi why p s = (Inr i, t) \<Longrightarrow> so_events t = so_events s \<and>
     (\<exists>q. so_quarantine t = so_quarantine s @ [q] \<and> qr_session q = sid \<and> qr_reason q = why)"
  by (auto simp: quarantine_def bindS_eq_Inr now_def Let_def)

lemma import_event_Inr:
  assumes "import_event rt sid new_id row s = (Inr u, t)"
  shows "\<exists>e. stored_event (rt_sha rt) e \<and> se_session e = sid \<and> so_events t = so_events s @ [e] \<and>
    (\<exists>qs. so_quarantine t = so_quarantine s @ qs \<and> (\<forall>q \<in> set qs. qr_reason q = ''import-hash-changed'') \<and>
       length qs = (if se_hash e \<noteq> se_hash row \<and> new_id = None then 1 else 0))"
proof -
  obtain e s1 where e: "append_event rt sid (se_type row) (as_fields (se_payload row)) s = (Inr e, s1)"
    and rest: "(if se_hash e \<noteq> se_hash row \<and> new_id = None
     then bindS (quarantine rt sid ''event'' (int_str (se_sequence row)) ''import-hash-changed''
       (session_event_py row)) (\<lambda>_. returnS ()) else returnS ()) s1 = (Inr u, t)"
    using assms by (auto simp: import_event_def bindS_eq_Inr)
  obtain r s0 where "get_session rt sid s = (Inr r, s0)"
    and body: "append_body rt sid (se_type row) (as_fields (se_payload row)) s0 = (Inr e, s1)"
    using e by (auto simp: append_event_unfold bindS_eq_Inr txn_Inr)
  then have s0: "s0 = s" using get_session_state by blast
  note eff = append_body_Inr[OF body]
  let ?e = "e\<lparr>se_payload := canon (se_payload e)\<rparr>"
  have "stored_event (rt_sha rt) ?e"
    using eff stored_next_event[of rt "PyDict (as_fields (se_payload row))" sid "se_type row"]
    by (simp add: next_event_def Let_def)
  moreover have "se_session ?e = sid" using eff by (simp add: next_event_def Let_def)
  moreover have "so_events t = so_events s @ [?e]" using eff s0 rest
    by (auto simp: bindS_eq_Inr dest: quarantine_Inr split: if_splits)
  moreover have "\<exists>qs. so_quarantine t = so_quarantine s @ qs \<and> (\<forall>q \<in> set qs. qr_reason q = ''import-hash-changed'') \<and>
       length qs = (if se_hash ?e \<noteq> se_hash row \<and> new_id = None then 1 else 0)"
  proof (cases "se_hash e \<noteq> se_hash row \<and> new_id = None")
    case True
    then obtain i where "quarantine rt sid ''event'' (int_str (se_sequence row)) ''import-hash-changed''
       (session_event_py row) s1 = (Inr i, t)" using rest by (auto simp: bindS_eq_Inr)
    from quarantine_Inr[OF this] show ?thesis using True eff s0 by auto
  qed (use rest eff s0 in auto)
  ultimately show ?thesis by blast
qed

lemma import_events_Inr:
  assumes "mapS (import_event rt sid new_id) rows s = (Inr us, t)"
  shows "\<exists>es. list_all2 (\<lambda>row e. stored_event (rt_sha rt) e \<and> se_session e = sid) rows es \<and>
    so_events t = so_events s @ es \<and>
    (\<exists>qs. so_quarantine t = so_quarantine s @ qs \<and> (\<forall>q \<in> set qs. qr_reason q = ''import-hash-changed'') \<and>
       length qs = length (filter (\<lambda>(row, e). se_hash e \<noteq> se_hash row \<and> new_id = None) (zip rows es)))"
  using assms
proof (induction rows arbitrary: s us)
  case (Cons row rows)
  obtain u s1 us' where s1: "import_event rt sid new_id row s = (Inr u, s1)"
    and rest: "mapS (import_event rt sid new_id) rows s1 = (Inr us', t)"
    using Cons.prems by (auto simp: bindS_eq_Inr)
  obtain e q where e: "stored_event (rt_sha rt) e" "se_session e = sid" "so_events s1 = so_events s @ [e]"
      "so_quarantine s1 = so_quarantine s @ q" "\<forall>x \<in> set q. qr_reason x = ''import-hash-changed''"
      "length q = (if se_hash e \<noteq> se_hash row \<and> new_id = None then 1 else 0)"
    using import_event_Inr[OF s1] by blast
  obtain es qs where es: "list_all2 (\<lambda>row e. stored_event (rt_sha rt) e \<and> se_session e = sid) rows es"
      "so_events t = so_events s1 @ es" "so_quarantine t = so_quarantine s1 @ qs"
      "\<forall>x \<in> set qs. qr_reason x = ''import-hash-changed''"
      "length qs = length (filter (\<lambda>(row, e). se_hash e \<noteq> se_hash row \<and> new_id = None) (zip rows es))"
    using Cons.IH[OF rest] by blast
  show ?case
    by (rule exI[of _ "e # es"], intro conjI exI[of _ "q @ qs"]) (use e es in auto)
qed simp

text \<open>
  The hash comparison of \<open>import_session\<close> guards the wrong case: when no identifier is
  asked for, the imported copy gets a fresh session identifier and every single event is
  quarantined as \<open>import-hash-changed\<close> (unless the digest collides), while an import that names
  its identifier, the source's included, quarantines nothing.
\<close>

theorem import_quarantine_inverted:
  assumes "import_session rt x new_id s = (Inr r, t)"
    and "\<forall>e \<in> set (xp_events x). session_event_ok (rt_sha rt) e \<and> se_session e = ss_id (xp_session x)"
    and "new_id = None \<longrightarrow> ss_id r \<noteq> ss_id (xp_session x) \<and>
      inj_on (rt_sha rt) ((\<lambda>e. canon (session_event_basis e)) ` (set (xp_events x) \<union> set (session_rows t (ss_id r))))"
  shows "\<exists>qs. so_quarantine t = so_quarantine s @ qs \<and>
    length qs = (if new_id = None then length (xp_events x) else 0) \<and>
    (\<forall>q \<in> set qs. qr_reason q = ''import-hash-changed'')"
proof -
  obtain s1 where cr: "create_session rt new_id []
          (dict_merge [(''imported_from'', PyStr (ss_id (xp_session x)))] (as_fields (ss_metadata (xp_session x)))) s = (Inr r, s1)"
    and ev: "\<exists>us. mapS (import_event rt (ss_id r) new_id) (xp_events x) s1 = (Inr us, t)"
    using assms(1) by (auto simp: import_session_def bindS_eq_Inr split: if_splits)
  have q1: "so_quarantine s1 = so_quarantine s"
    using cr
    by (auto simp: create_session_def bindS_eq_Inr Let_def txn_Inr insert_session_def now_def fresh_def
        dest!: get_session_state split: if_splits option.splits)
  obtain es qs where es: "list_all2 (\<lambda>row e. stored_event (rt_sha rt) e \<and> se_session e = ss_id r) (xp_events x) es"
      "so_events t = so_events s1 @ es" "so_quarantine t = so_quarantine s1 @ qs"
      "\<forall>q \<in> set qs. qr_reason q = ''import-hash-changed''"
      "length qs = length (filter (\<lambda>(row, e). se_hash e \<noteq> se_hash row \<and> new_id = None) (zip (xp_events x) es))"
    using ev import_events_Inr by blast
  have "length qs = length (xp_events x)" if none: "new_id = None"
  proof -
    have "se_hash e \<noteq> se_hash row" if re: "(row, e) \<in> set (zip (xp_events x) es)" for row e
    proof
      assume eq: "se_hash e = se_hash row"
      have e: "stored_event (rt_sha rt) e" "se_session e = ss_id r"
        using re es(1) by (auto simp: list_all2_iff)
      have row: "row \<in> set (xp_events x)" using re by (auto dest: set_zip_leftD)
      have "e \<in> set (session_rows t (ss_id r))"
        using re e(2) es(2) by (auto simp: session_rows_def dest: set_zip_rightD)
      moreover have "rt_sha rt (canon (session_event_basis e)) = rt_sha rt (canon (session_event_basis row))"
        using eq e(1) row assms(2) by (auto simp: stored_event_def session_event_ok_def digest_def)
      ultimately have "canon (session_event_basis e) = canon (session_event_basis row)"
        using inj_onD[OF conjunct2[OF assms(3)[rule_format, OF none]]] row by blast
      then have "se_session e = se_session row"
        unfolding session_event_basis_def by (drule_tac canon_dict_eqD) simp_all
      then show False using e(2) row assms(2,3) none by auto
    qed
    then have "filter (\<lambda>(row, e). se_hash e \<noteq> se_hash row \<and> new_id = None) (zip (xp_events x) es) =
        zip (xp_events x) es" using none by (auto intro: filter_True)
    then show ?thesis using es(1,5) by (simp add: list_all2_lengthD)
  qed
  moreover have "length qs = 0" if "new_id \<noteq> None"
    using es(5) that by (simp add: filter_empty_conv case_prod_beta)
  ultimately show ?thesis using q1 es(3,4) by auto
qed

section \<open>A concrete run\<close>

definition demo_sha :: "pyval \<Rightarrow> string" where
  "demo_sha v = (case py_get v ''sequence'' of PyInt i \<Rightarrow> ''h'' @ int_str i | _ \<Rightarrow> ''x'')"

definition demo_env :: session_env where
  "demo_env = \<lparr>rt_project = ''p'', rt_sha = demo_sha, rt_clock = (\<lambda>n. of_nat n), rt_uuid = nat_str,
     rt_str = (\<lambda>_. ''v''), rt_dumps = (\<lambda>_. ''json''),
     rt_pick = (\<lambda>rs. case rs of [] \<Rightarrow> None | r # _ \<Rightarrow> Some r)\<rparr>"

definition demo_created :: store where
  "demo_created = snd (create_session demo_env (Some ''a'') [] [] empty_store)"

definition demo_one :: store where
  "demo_one = snd (append_event demo_env ''a'' ''note'' [(''task'', PyStr ''x'')] demo_created)"

definition demo_two :: store where
  "demo_two = snd (append_event demo_env ''a'' ''note'' [] demo_one)"

lemma demo_reached:
  "reaches (\<lambda>s. s = empty_store) (session_step demo_env) demo_one" (is ?one)
  "reaches (\<lambda>s. s = empty_store) (session_step demo_env) demo_two"
proof -
  have "reaches (\<lambda>s. s = empty_store) (session_step demo_env) demo_created"
    unfolding demo_created_def by (rule reach_step, rule reach_init, simp, rule step_create)
  then show ?one unfolding demo_one_def by (rule reach_step) (rule step_append)
  then show "reaches (\<lambda>s. s = empty_store) (session_step demo_env) demo_two"
    unfolding demo_two_def by (rule reach_step) (rule step_append)
qed

lemma session_demo_rows: "length (session_rows demo_two ''a'') = 2" "session_rows demo_two ''a'' \<noteq> []"
  by code_simp+

theorem reachable_histories_verify_witness:
  "\<exists>v. verify_session demo_env ''a'' demo_two = (Inr v, demo_two) \<and> vf_ok v \<and> vf_events v = 2"
proof -
  obtain r t where rt: "verify_session demo_env ''a'' demo_two = (r, t)" by fastforce
  have "\<not> isl r" using rt by code_simp auto
  then show ?thesis using reachable_histories_verify[OF demo_reached(2) rt] rt session_demo_rows by auto
qed

theorem histories_append_only_witness:
  "\<exists>zs. session_rows demo_two ''a'' = session_rows demo_one ''a'' @ zs"
proof -
  have "session_step demo_env demo_one demo_two" unfolding demo_two_def by (rule step_append)
  then have "(session_step demo_env)\<^sup>*\<^sup>* demo_one demo_two" by simp
  from histories_append_only[OF demo_reached(1) this] show ?thesis by blast
qed

definition demo_verification :: verification where
  "demo_verification = \<lparr>vf_ok = True, vf_events = 2, vf_last_hash = ''h2'', vf_reasons = []\<rparr>"

lemma demo_verified:
  "verify_session demo_env ''a'' demo_two = (Inr demo_verification, demo_two)"
  "verify_session demo_env ''a'' (demo_two\<lparr>so_summaries := []\<rparr>) =
     (Inr demo_verification, demo_two\<lparr>so_summaries := []\<rparr>)"
  by code_simp+

lemma demo_payloads:
  "\<forall>e \<in> set (select_events demo_two ''a'' 0 10000000) \<union>
     set (select_events (demo_two\<lparr>so_summaries := []\<rparr>) ''a'' 0 10000000). canon (se_payload e) = se_payload e"
  "inj_on (rt_sha demo_env) ((\<lambda>e. canon (session_event_basis e)) `
     (set (select_events demo_two ''a'' 0 10000000) \<union>
      set (select_events (demo_two\<lparr>so_summaries := []\<rparr>) ''a'' 0 10000000)))"
  by code_simp+

theorem verified_hash_commits_history_witness:
  "select_events demo_two ''a'' 0 10000000 = select_events (demo_two\<lparr>so_summaries := []\<rparr>) ''a'' 0 10000000"
  by (rule verified_hash_commits_history[OF demo_verified _ _ _ _ demo_payloads])
    (simp_all add: demo_verification_def)

theorem compaction_covers_history_witness:
  "\<exists>i t x. compact_session demo_env ''a'' 1 2 None True demo_two = (Inr (Some i), t) \<and>
     expand_summary demo_env i t = (Inr x, t) \<and> xs_events x = session_rows demo_two ''a''"
proof -
  obtain row where "get_session demo_env ''a'' demo_two = (Inr row, demo_two)"
    using demo_verified(1) by (auto simp: verify_session_def all_events_def events_def bindS_eq_Inr
        get_session_def split: option.splits)
  from compaction_covers_history[OF demo_reached(2) this session_demo_rows(2), of 1 2 None]
  show ?thesis using session_demo_rows(1) by auto
qed

theorem active_context_within_budget_witness:
  "\<exists>a t. active_context demo_env ''a'' 3 24 4 demo_two = (Inr a, t) \<and> ac_used a \<le> 3 \<and> length (ac_sections a) = 1"
proof -
  have "case active_context demo_env ''a'' 3 24 4 demo_two of
      (Inr a, t) \<Rightarrow> length (ac_sections a) = 1 | _ \<Rightarrow> False" by code_simp
  then obtain a t where a: "active_context demo_env ''a'' 3 24 4 demo_two = (Inr a, t)"
    "length (ac_sections a) = 1" by (auto split: prod.splits sum.splits)
  then show ?thesis using active_context_within_budget[OF a(1)] by auto
qed

definition demo_export :: session_export where
  "demo_export = (case export_session demo_env ''a'' demo_two of (Inr x, _) \<Rightarrow> x | _ \<Rightarrow> undefined)"

theorem import_quarantine_inverted_witness:
  "\<exists>r t. import_session demo_env demo_export (Some ''b'') demo_two = (Inr r, t) \<and> so_quarantine t = []"
proof -
  have ok: "\<forall>e \<in> set (xp_events demo_export). session_event_ok (rt_sha demo_env) e \<and>
      se_session e = ss_id (xp_session demo_export)" by code_simp
  have q: "so_quarantine demo_two = []" by code_simp
  obtain r t where rt: "import_session demo_env demo_export (Some ''b'') demo_two = (r, t)" by fastforce
  have "\<not> isl r" using rt by code_simp auto
  then obtain r' where "r = Inr r'" by (cases r) auto
  then show ?thesis using import_quarantine_inverted[OF _ ok, of "Some ''b''" demo_two r' t] rt q by auto
qed

end
