(* ===== verification/UniversalItem.thy ===== *)
theory UniversalItem
  imports HashChain
begin

text \<open>
  Context items of \<open>syntavra_runtime/universal_context_item.py\<close>: content with provenance, trust,
  freshness and recovery handles, addressed by the digest of an identity payload.  Every
  constructor normalises its arguments (a digest gets its \<open>sha256:\<close> prefix, lists of names are
  stripped, deduplicated and sorted, JSON values become canonical) and refuses bad ones.
  Documents (\<open>to_dict\<close>, \<open>from_dict\<close>) are typed records, in which a key read with \<open>get\<close> is an
  option; values of other JSON types than the class declares are outside the model.
\<close>

section \<open>Normalisation\<close>

definition ctx_digest :: "(pyval \<Rightarrow> string) \<Rightarrow> pyval \<Rightarrow> string" where
  "ctx_digest sha v = ''sha256:'' @ digest sha v"

definition digest_syntax :: "string \<Rightarrow> bool" where
  "digest_syntax d \<longleftrightarrow> is_sha256 d \<or> (take 7 d = ''sha256:'' \<and> is_sha256 (drop 7 d))"

definition normalize_digest :: "string \<Rightarrow> string + string" where
  "normalize_digest v =
     (let d = py_lower (py_strip v) in
      if \<not> digest_syntax d then Inl (''invalid sha256 digest: '' @ py_repr v)
      else if take 7 d = ''sha256:'' then Inr d else Inr (''sha256:'' @ d))"

definition sorted_unique :: "string list \<Rightarrow> string list" where
  "sorted_unique values = sorted_set (filter (\<lambda>v. v \<noteq> '''') (map py_strip values))"

section \<open>Parts of an item\<close>

record provenance =
  pv_source :: string
  pv_commit :: string
  pv_observed :: "string option"
  pv_parents :: "string list"
  pv_metadata :: pyval

definition make_provenance :: "provenance \<Rightarrow> string + provenance" where
  "make_provenance p =
     (if py_strip (pv_source p) = '''' then Inl ''provenance source is required''
      else let commit = py_strip (if pv_commit p = '''' then ''unknown'' else pv_commit p) in
        Inr (p\<lparr>pv_source := py_strip (pv_source p),
          pv_commit := (if commit = '''' then ''unknown'' else commit),
          pv_parents := sorted_unique (pv_parents p), pv_metadata := canon (pv_metadata p)\<rparr>))"

record trust =
  tu_level :: string
  tu_confidence :: rat
  tu_taint :: "string list"
  tu_reasons :: "string list"

definition trust_levels :: "string list" where
  "trust_levels = [''unknown'', ''untrusted'', ''observed'', ''verified'']"

definition make_trust :: "trust \<Rightarrow> string + trust" where
  "make_trust t = checkE
     [if tu_level t \<notin> set trust_levels then Some (''unknown trust level: '' @ py_repr (tu_level t)) else None,
      if \<not> (0 \<le> tu_confidence t \<and> tu_confidence t \<le> 1)
      then Some ''trust confidence must be in [0, 1]'' else None]
     (t\<lparr>tu_taint := sorted_unique (tu_taint t), tu_reasons := sorted_unique (tu_reasons t)\<rparr>)"

definition default_trust :: trust where
  "default_trust = \<lparr>tu_level = ''unknown'', tu_confidence = 0, tu_taint = [], tu_reasons = []\<rparr>"

record freshness =
  fr_state :: string
  fr_observed :: "string option"
  fr_expires :: "string option"
  fr_lease :: "string option"

definition freshness_states :: "string list" where
  "freshness_states = [''unknown'', ''fresh'', ''stale'', ''expired'']"

definition make_freshness :: "freshness \<Rightarrow> string + freshness" where
  "make_freshness f = checkE
     [if fr_state f \<notin> set freshness_states then Some (''unknown freshness state: '' @ py_repr (fr_state f)) else None,
      (case fr_lease f of None \<Rightarrow> None
       | Some l \<Rightarrow> if py_strip l = '''' then Some ''freshness lease_id may not be blank'' else None)] f"

definition default_freshness :: freshness where
  "default_freshness = \<lparr>fr_state = ''unknown'', fr_observed = None, fr_expires = None, fr_lease = None\<rparr>"

record recovery_handle =
  rh_kind :: string
  rh_locator :: pyval
  rh_integrity :: string
  rh_exact :: bool

definition recovery_kinds :: "string list" where
  "recovery_kinds = [''file-range'', ''evidence-node'', ''evidence-edge'', ''artifact'', ''memory'', ''tool-result'']"

definition make_recovery :: "recovery_handle \<Rightarrow> string + recovery_handle" where
  "make_recovery h =
     (if rh_kind h \<notin> set recovery_kinds then Inl (''unknown recovery kind: '' @ py_repr (rh_kind h))
      else if (case canon (rh_locator h) of PyDict kvs \<Rightarrow> kvs = [] | _ \<Rightarrow> True)
      then Inl ''recovery locator must be a non-empty object''
      else bindE (normalize_digest (rh_integrity h)) (\<lambda>d.
        Inr (h\<lparr>rh_locator := canon (rh_locator h), rh_integrity := d\<rparr>)))"

section \<open>Items\<close>

record context_item =
  ci_schema :: int
  ci_id :: string
  ci_kind :: string
  ci_repr :: string
  ci_content :: pyval
  ci_sha :: string
  ci_prov :: provenance
  ci_trust :: trust
  ci_fresh :: freshness
  ci_recovery :: "recovery_handle list"
  ci_meta :: pyval

definition representations :: "string list" where
  "representations = [''exact'', ''structural'', ''semantic'', ''bounded-preview'']"

definition opt_str :: "string option \<Rightarrow> pyval" where
  "opt_str x = (case x of None \<Rightarrow> PyNone | Some s \<Rightarrow> PyStr s)"

definition provenance_py :: "provenance \<Rightarrow> pyval" where
  "provenance_py p = PyDict
     [(''source'', PyStr (pv_source p)), (''repository_commit'', PyStr (pv_commit p)),
      (''observed_at'', opt_str (pv_observed p)), (''parent_item_ids'', py_strs (pv_parents p)),
      (''metadata'', pv_metadata p)]"

definition recovery_py :: "recovery_handle \<Rightarrow> pyval" where
  "recovery_py h = PyDict
     [(''kind'', PyStr (rh_kind h)), (''locator'', rh_locator h), (''integrity'', PyStr (rh_integrity h)),
      (''exact'', PyBool (rh_exact h))]"

definition identity_payload :: "context_item \<Rightarrow> pyval" where
  "identity_payload i = PyDict
     [(''schema_version'', PyInt (ci_schema i)), (''kind'', PyStr (ci_kind i)),
      (''representation'', PyStr (ci_repr i)), (''content_sha256'', PyStr (ci_sha i)),
      (''provenance'', provenance_py (ci_prov i)),
      (''recovery'', PyList (map recovery_py (ci_recovery i))), (''metadata'', ci_meta i)]"

definition computed_item_id :: "(pyval \<Rightarrow> string) \<Rightarrow> context_item \<Rightarrow> string" where
  "computed_item_id sha i = ctx_digest sha (identity_payload i)"

definition verify_integrity :: "(pyval \<Rightarrow> string) \<Rightarrow> context_item \<Rightarrow> bool" where
  "verify_integrity sha i \<longleftrightarrow> ctx_digest sha (ci_content i) = ci_sha i \<and> computed_item_id sha i = ci_id i"

definition make_item :: "(pyval \<Rightarrow> string) \<Rightarrow> context_item \<Rightarrow> string + context_item" where
  "make_item sha i =
     bindE (checkE
       [if ci_schema i \<noteq> 1 then Some (''unsupported UniversalContextItem schema: '' @ int_str (ci_schema i)) else None,
        if py_strip (ci_kind i) = '''' then Some ''context item kind is required'' else None,
        if ci_repr i \<notin> set representations then Some (''unknown representation: '' @ py_repr (ci_repr i)) else None] ())
     (\<lambda>_. bindE (normalize_digest (ci_sha i)) (\<lambda>cs. bindE (normalize_digest (ci_id i)) (\<lambda>iid.
     let j = i\<lparr>ci_kind := py_strip (ci_kind i), ci_content := canon (ci_content i),
           ci_meta := canon (ci_meta i), ci_sha := cs, ci_id := iid\<rparr>
     in checkE
       [if ctx_digest sha (ci_content j) \<noteq> cs then Some ''content_sha256 does not match canonical content'' else None,
        if computed_item_id sha j \<noteq> iid then Some ''item_id does not match canonical identity payload'' else None] j)))"

definition build_item ::
  "(pyval \<Rightarrow> string) \<Rightarrow> string \<Rightarrow> string \<Rightarrow> pyval \<Rightarrow> provenance \<Rightarrow> trust option \<Rightarrow> freshness option \<Rightarrow>
   recovery_handle list \<Rightarrow> fields \<Rightarrow> string + context_item" where
  "build_item sha kind repr content prov trust_opt fresh_opt recovery metadata =
     (let candidate = \<lparr>ci_schema = 1, ci_id = ''sha256:'' @ zero_hash, ci_kind = py_strip kind,
            ci_repr = repr, ci_content = canon content, ci_sha = ctx_digest sha (canon content),
            ci_prov = prov, ci_trust = (case trust_opt of None \<Rightarrow> default_trust | Some t \<Rightarrow> t),
            ci_fresh = (case fresh_opt of None \<Rightarrow> default_freshness | Some f \<Rightarrow> f),
            ci_recovery = recovery, ci_meta = canon (PyDict metadata)\<rparr>
      in make_item sha (candidate\<lparr>ci_id := computed_item_id sha candidate\<rparr>))"

section \<open>Documents\<close>

record item_doc =
  do_schema :: "int option"
  do_id :: string
  do_kind :: string
  do_repr :: string
  do_content :: pyval
  do_sha :: string
  do_prov :: provenance
  do_trust :: "trust option"
  do_fresh :: "freshness option"
  do_recovery :: "recovery_handle list option"
  do_meta :: "pyval option"

definition item_to_dict :: "context_item \<Rightarrow> item_doc" where
  "item_to_dict i = \<lparr>do_schema = Some (ci_schema i), do_id = ci_id i, do_kind = ci_kind i,
     do_repr = ci_repr i, do_content = canon (ci_content i), do_sha = ci_sha i, do_prov = ci_prov i,
     do_trust = Some (ci_trust i), do_fresh = Some (ci_fresh i), do_recovery = Some (ci_recovery i),
     do_meta = Some (canon (ci_meta i))\<rparr>"

definition item_from_dict :: "(pyval \<Rightarrow> string) \<Rightarrow> item_doc \<Rightarrow> string + context_item" where
  "item_from_dict sha d =
     bindE (make_provenance (do_prov d)) (\<lambda>p.
     bindE (make_trust (case do_trust d of None \<Rightarrow> default_trust | Some t \<Rightarrow> t)) (\<lambda>t.
     bindE (make_freshness (case do_fresh d of None \<Rightarrow> default_freshness | Some f \<Rightarrow> f)) (\<lambda>f.
     bindE (collect make_recovery (case do_recovery d of None \<Rightarrow> [] | Some rs \<Rightarrow> rs)) (\<lambda>rs.
     make_item sha \<lparr>ci_schema = (case do_schema d of None \<Rightarrow> -1 | Some n \<Rightarrow> n), ci_id = do_id d,
       ci_kind = do_kind d, ci_repr = do_repr d, ci_content = do_content d, ci_sha = do_sha d,
       ci_prov = p, ci_trust = t, ci_fresh = f, ci_recovery = rs,
       ci_meta = (case do_meta d of None \<Rightarrow> PyDict [] | Some m \<Rightarrow> m)\<rparr>))))"

section \<open>Items from other components\<close>

record pack_source =
  pa_text :: string
  pa_path :: string
  pa_start :: int
  pa_end :: int
  pa_file_hash :: string
  pa_kind :: string
  pa_tier :: string
  pa_reason :: string
  pa_tokens :: int
  pa_confidence :: string

definition from_context_pack_item :: "(pyval \<Rightarrow> string) \<Rightarrow> pack_source \<Rightarrow> string \<Rightarrow> string + context_item" where
  "from_context_pack_item sha it commit =
     bindE (normalize_digest (pa_file_hash it)) (\<lambda>file_hash.
     bindE (make_recovery \<lparr>rh_kind = ''file-range'',
       rh_locator = PyDict [(''path'', PyStr (pa_path it)), (''start_line'', PyInt (pa_start it)),
         (''end_line'', PyInt (pa_end it))], rh_integrity = file_hash, rh_exact = True\<rparr>) (\<lambda>rec.
     bindE (make_provenance \<lparr>pv_source = ''context-pack'', pv_commit = commit, pv_observed = None,
       pv_parents = [], pv_metadata = PyDict [(''tier'', PyStr (pa_tier it)), (''reason'', PyStr (pa_reason it))]\<rparr>) (\<lambda>prov.
     bindE (make_trust \<lparr>tu_level = ''verified'', tu_confidence = 1, tu_taint = [],
       tu_reasons = [''exact-file-range'']\<rparr>) (\<lambda>tr.
     bindE (make_freshness (default_freshness\<lparr>fr_state := ''fresh''\<rparr>)) (\<lambda>fr.
     build_item sha (''repository-'' @ pa_kind it) ''exact''
       (PyDict [(''text'', PyStr (pa_text it)), (''path'', PyStr (pa_path it)),
         (''start_line'', PyInt (pa_start it)), (''end_line'', PyInt (pa_end it))])
       prov (Some tr) (Some fr) [rec]
       [(''tokens'', PyInt (pa_tokens it)), (''token_confidence'', PyStr (pa_confidence it)),
        (''file_hash'', PyStr file_hash)])))))"

record evidence_node =
  en_id :: string
  en_label :: string
  en_kind :: string
  en_source :: string
  en_commit :: string
  en_metadata :: fields
  en_confidence :: rat

definition from_evidence_node :: "(pyval \<Rightarrow> string) \<Rightarrow> evidence_node \<Rightarrow> string + context_item" where
  "from_evidence_node sha n =
     (let content = PyDict [(''node_id'', PyStr (en_id n)), (''label'', PyStr (en_label n))] in
      bindE (make_provenance \<lparr>pv_source = en_source n, pv_commit = en_commit n, pv_observed = None,
        pv_parents = [], pv_metadata = PyDict (en_metadata n)\<rparr>) (\<lambda>prov.
      bindE (make_trust \<lparr>tu_level = ''observed'', tu_confidence = en_confidence n, tu_taint = [],
        tu_reasons = [''runtime-evidence-node'']\<rparr>) (\<lambda>tr.
      bindE (make_recovery \<lparr>rh_kind = ''evidence-node'',
        rh_locator = PyDict [(''node_id'', PyStr (en_id n))], rh_integrity = ctx_digest sha content,
        rh_exact = True\<rparr>) (\<lambda>rec.
      build_item sha (''evidence-node:'' @ en_kind n) ''structural'' content prov (Some tr) None [rec]
        [(''evidence_kind'', PyStr (en_kind n))]))))"

record evidence_edge =
  eg_source :: string
  eg_target :: string
  eg_relation :: string
  eg_evidence :: string
  eg_commit :: string
  eg_observed :: string
  eg_metadata :: fields
  eg_confidence :: rat

definition from_evidence_edge :: "(pyval \<Rightarrow> string) \<Rightarrow> evidence_edge \<Rightarrow> string + context_item" where
  "from_evidence_edge sha e =
     bindE (normalize_digest (eg_evidence e)) (\<lambda>evidence_digest.
     bindE (make_provenance \<lparr>pv_source = ''runtime-evidence-edge'', pv_commit = eg_commit e,
       pv_observed = Some (eg_observed e), pv_parents = [], pv_metadata = PyDict (eg_metadata e)\<rparr>) (\<lambda>prov.
     bindE (make_trust \<lparr>tu_level = ''observed'', tu_confidence = eg_confidence e, tu_taint = [],
       tu_reasons = [''runtime-evidence-edge'']\<rparr>) (\<lambda>tr.
     bindE (make_freshness (default_freshness\<lparr>fr_state := ''fresh'', fr_observed := Some (eg_observed e)\<rparr>)) (\<lambda>fr.
     bindE (make_recovery \<lparr>rh_kind = ''evidence-edge'',
       rh_locator = PyDict [(''evidence'', PyStr (eg_evidence e))], rh_integrity = evidence_digest,
       rh_exact = True\<rparr>) (\<lambda>rec.
     build_item sha ''evidence-edge'' ''structural''
       (PyDict [(''source'', PyStr (eg_source e)), (''target'', PyStr (eg_target e)),
         (''relation'', PyStr (eg_relation e)), (''evidence'', PyStr (eg_evidence e))])
       prov (Some tr) (Some fr) [rec] [(''relation'', PyStr (eg_relation e))])))))"

section \<open>Normal forms\<close>

lemma hex_no_space: "list_all (\<lambda>c. c \<in> set hex_digits) v \<Longrightarrow> list_all (\<lambda>c. \<not> py_space c) v"
  by (erule list.pred_mono_strong) (auto simp: hex_digits_def py_space_def)

lemma lower_hex: "list_all (\<lambda>c. c \<in> set hex_digits) v \<Longrightarrow> py_lower v = v"
  using casefold_hex by (simp add: py_casefold_def py_lower_def)

lemma digest_syntax_prefixed [simp]: "digest_syntax (''sha256:'' @ v) \<longleftrightarrow> is_sha256 v"
  by (auto simp: digest_syntax_def is_sha256_def hex_digits_def)

lemma normalize_prefixed:
  assumes "is_sha256 v"
  shows "normalize_digest (''sha256:'' @ v) = Inr (''sha256:'' @ v)"
proof -
  have hex: "list_all (\<lambda>c. c \<in> set hex_digits) v" using assms by (simp add: is_sha256_def)
  have "list_all (\<lambda>c. \<not> py_space c) (''sha256:'' @ v)"
    using hex_no_space[OF hex] by (simp add: py_space_def)
  then have "py_strip (''sha256:'' @ v) = ''sha256:'' @ v" by (rule py_strip_none)
  moreover have "py_lower (''sha256:'' @ v) = ''sha256:'' @ v"
    using lower_hex[OF hex] by (simp add: py_lower_def lower_char_def)
  ultimately show ?thesis
    using assms digest_syntax_prefixed[of v] unfolding normalize_digest_def Let_def by simp
qed

lemma normalize_Inr:
  assumes "normalize_digest v = Inr d"
  obtains h where "d = ''sha256:'' @ h" and "is_sha256 h"
proof -
  let ?d = "py_lower (py_strip v)"
  have s: "digest_syntax ?d" and d: "d = (if take 7 ?d = ''sha256:'' then ?d else ''sha256:'' @ ?d)"
    using assms by (auto simp: normalize_digest_def Let_def split: if_splits)
  show thesis
  proof (cases "take 7 ?d = ''sha256:''")
    case True
    then have split: "?d = ''sha256:'' @ drop 7 ?d" by (metis append_take_drop_id)
    then have "is_sha256 (drop 7 ?d)" using s digest_syntax_prefixed by metis
    then show thesis using that[of "drop 7 ?d"] d True split by simp
  next
    case False
    then show thesis using that[of ?d] s d by (simp add: digest_syntax_def)
  qed
qed

lemma normalize_idem: "normalize_digest v = Inr d \<Longrightarrow> normalize_digest d = Inr d"
  by (erule normalize_Inr) (simp add: normalize_prefixed del: append.simps)

lemma normalize_ctx_digest: "sha_shape sha \<Longrightarrow> normalize_digest (ctx_digest sha v) = Inr (ctx_digest sha v)"
  unfolding ctx_digest_def by (rule normalize_prefixed[OF digest_shape])

lemma sorted_unique_idem [simp]: "sorted_unique (sorted_unique vs) = sorted_unique vs"
proof -
  let ?ws = "sorted_set (filter (\<lambda>v. v \<noteq> '''') (map py_strip vs))"
  have "map py_strip ?ws = ?ws" by (rule map_idI) auto
  moreover have "filter (\<lambda>v. v \<noteq> '''') ?ws = ?ws" by (rule filter_True) auto
  ultimately show ?thesis unfolding sorted_unique_def by simp
qed

lemma provenance_idem: "make_provenance p = Inr q \<Longrightarrow> make_provenance q = Inr q"
  by (auto simp: make_provenance_def Let_def split: if_splits)
    (simp_all add: py_strip_def py_space_def)

lemma trust_idem: "make_trust t = Inr u \<Longrightarrow> make_trust u = Inr u"
  by (auto simp: make_trust_def split: if_splits)

lemma freshness_idem: "make_freshness f = Inr g \<Longrightarrow> make_freshness g = Inr g"
  by (auto simp: make_freshness_def split: if_splits option.splits)

lemma recovery_idem: "make_recovery h = Inr k \<Longrightarrow> make_recovery k = Inr k"
  by (auto simp: make_recovery_def split: if_splits dest: normalize_idem)

text \<open>What the constructor accepts, in one step.\<close>

lemma make_item_Inr:
  "make_item sha i = Inr j \<longleftrightarrow> ci_schema i = 1 \<and> py_strip (ci_kind i) \<noteq> '''' \<and> ci_repr i \<in> set representations \<and>
     normalize_digest (ci_sha i) = Inr (ci_sha j) \<and> normalize_digest (ci_id i) = Inr (ci_id j) \<and>
     j = i\<lparr>ci_kind := py_strip (ci_kind i), ci_content := canon (ci_content i),
           ci_meta := canon (ci_meta i), ci_sha := ci_sha j, ci_id := ci_id j\<rparr> \<and>
     verify_integrity sha j"
  (is "?l = ?r")
proof
  assume ?l
  then show ?r by (auto simp: make_item_def Let_def verify_integrity_def split: if_splits)
next
  assume r: ?r
  have j: "i\<lparr>ci_kind := py_strip (ci_kind i), ci_content := canon (ci_content i),
           ci_meta := canon (ci_meta i), ci_sha := ci_sha j, ci_id := ci_id j\<rparr> = j" using r by simp
  have content: "canon (ci_content i) = ci_content j" using arg_cong[OF j, of ci_content] by simp
  show ?l using r content unfolding make_item_def Let_def by (auto simp: j verify_integrity_def)
qed

lemma item_idem: "make_item sha i = Inr j \<Longrightarrow> make_item sha j = Inr j"
proof -
  assume "make_item sha i = Inr j"
  note r = this[unfolded make_item_Inr]
  then have j: "j = i\<lparr>ci_kind := py_strip (ci_kind i), ci_content := canon (ci_content i),
           ci_meta := canon (ci_meta i), ci_sha := ci_sha j, ci_id := ci_id j\<rparr>" by blast
  have "ci_schema j = ci_schema i" "ci_kind j = py_strip (ci_kind i)" "ci_repr j = ci_repr i"
    "ci_content j = canon (ci_content i)" "ci_meta j = canon (ci_meta i)"
    by (subst j, simp)+
  then show "make_item sha j = Inr j"
    unfolding make_item_Inr using r by (auto intro: normalize_idem)
qed

text \<open>An item all of whose parts came out of their constructors.\<close>

definition made_item :: "(pyval \<Rightarrow> string) \<Rightarrow> context_item \<Rightarrow> bool" where
  "made_item sha i \<longleftrightarrow> make_item sha i = Inr i \<and> make_provenance (ci_prov i) = Inr (ci_prov i) \<and>
     make_trust (ci_trust i) = Inr (ci_trust i) \<and> make_freshness (ci_fresh i) = Inr (ci_fresh i) \<and>
     list_all (\<lambda>h. make_recovery h = Inr h) (ci_recovery i)"

section \<open>Building and reading back\<close>

lemma item_to_from_dict:
  assumes "made_item sha i"
  shows "item_from_dict sha (item_to_dict i) = Inr i"
proof -
  have i: "make_item sha i = Inr i" using assms by (simp add: made_item_def)
  have fields: "ci_content i = canon (ci_content i)" "ci_meta i = canon (ci_meta i)"
    using i by (auto simp: make_item_Inr dest: arg_cong[of _ _ ci_content] arg_cong[of _ _ ci_meta])
  have rec: "collect make_recovery (ci_recovery i) = Inr (ci_recovery i)"
    using assms unfolding made_item_def collect_Inr by (auto simp: list_all2_same list_all_iff)
  have "\<lparr>ci_schema = ci_schema i, ci_id = ci_id i, ci_kind = ci_kind i, ci_repr = ci_repr i,
      ci_content = canon (ci_content i), ci_sha = ci_sha i, ci_prov = ci_prov i, ci_trust = ci_trust i,
      ci_fresh = ci_fresh i, ci_recovery = ci_recovery i, ci_meta = canon (ci_meta i)\<rparr> = i"
    using fields by simp
  then show ?thesis using assms rec i
    by (simp add: item_from_dict_def item_to_dict_def made_item_def)
qed

lemma build_item_works:
  assumes "sha_shape sha" and "py_strip kind \<noteq> ''''" and "repr \<in> set representations"
  obtains i where "build_item sha kind repr content prov t f rs md = Inr i" and "make_item sha i = Inr i"
    and "ci_kind i = py_strip kind" and "ci_repr i = repr" and "ci_content i = canon content"
    and "ci_prov i = prov" and "ci_trust i = (case t of None \<Rightarrow> default_trust | Some x \<Rightarrow> x)"
    and "ci_fresh i = (case f of None \<Rightarrow> default_freshness | Some x \<Rightarrow> x)" and "ci_recovery i = rs"
    and "ci_meta i = canon (PyDict md)" and "ci_schema i = 1"
proof -
  define c where "c = \<lparr>ci_schema = 1, ci_id = ''sha256:'' @ zero_hash, ci_kind = py_strip kind,
            ci_repr = repr, ci_content = canon content, ci_sha = ctx_digest sha (canon content),
            ci_prov = prov, ci_trust = (case t of None \<Rightarrow> default_trust | Some t \<Rightarrow> t),
            ci_fresh = (case f of None \<Rightarrow> default_freshness | Some f \<Rightarrow> f),
            ci_recovery = rs, ci_meta = canon (PyDict md)\<rparr>"
  let ?i = "c\<lparr>ci_id := computed_item_id sha c\<rparr>"
  have payload: "computed_item_id sha ?i = computed_item_id sha c"
    by (simp add: computed_item_id_def identity_payload_def)
  have norm: "normalize_digest (computed_item_id sha c) = Inr (computed_item_id sha c)"
    unfolding computed_item_id_def by (rule normalize_ctx_digest[OF assms(1)])
  have "canon (canon v) = canon v" for v by simp
  then have mk: "make_item sha ?i = Inr ?i"
    unfolding make_item_Inr verify_integrity_def payload
    using assms norm normalize_ctx_digest[OF assms(1)] by (simp add: c_def ctx_digest_def digest_def del: canon.simps)
  then have bd: "build_item sha kind repr content prov t f rs md = Inr ?i"
    unfolding build_item_def Let_def c_def[symmetric] .
  show thesis by (rule that[OF bd mk]) (simp_all add: c_def del: canon.simps)
qed

section \<open>What an item identifier commits to\<close>

lemma opt_str_inject [simp]: "opt_str x = opt_str y \<longleftrightarrow> x = y"
  and canon_opt_str [simp]: "canon (opt_str x) = opt_str x"
  by (auto simp: opt_str_def split: option.splits)

lemma provenance_py_inj:
  assumes "canon (provenance_py p) = canon (provenance_py q)"
    and "canon (pv_metadata p) = pv_metadata p" and "canon (pv_metadata q) = pv_metadata q"
  shows "p = q"
proof -
  have "map (canon \<circ> snd)
      [(''source'', PyStr (pv_source p)), (''repository_commit'', PyStr (pv_commit p)),
       (''observed_at'', opt_str (pv_observed p)), (''parent_item_ids'', py_strs (pv_parents p)),
       (''metadata'', pv_metadata p)] =
    map (canon \<circ> snd)
      [(''source'', PyStr (pv_source q)), (''repository_commit'', PyStr (pv_commit q)),
       (''observed_at'', opt_str (pv_observed q)), (''parent_item_ids'', py_strs (pv_parents q)),
       (''metadata'', pv_metadata q)]"
    using assms(1) unfolding provenance_py_def by (rule canon_dict_eqD) simp_all
  then show ?thesis using assms(2,3) by simp
qed

lemma recovery_py_inj:
  assumes "canon (recovery_py h) = canon (recovery_py k)"
    and "canon (rh_locator h) = rh_locator h" and "canon (rh_locator k) = rh_locator k"
  shows "h = k"
proof -
  have "map (canon \<circ> snd)
      [(''kind'', PyStr (rh_kind h)), (''locator'', rh_locator h), (''integrity'', PyStr (rh_integrity h)),
       (''exact'', PyBool (rh_exact h))] =
    map (canon \<circ> snd)
      [(''kind'', PyStr (rh_kind k)), (''locator'', rh_locator k), (''integrity'', PyStr (rh_integrity k)),
       (''exact'', PyBool (rh_exact k))]"
    using assms(1) unfolding recovery_py_def by (rule canon_dict_eqD) simp_all
  then show ?thesis using assms(2,3) by simp
qed

lemma made_item_canonical:
  assumes "made_item sha i"
  shows "canon (ci_content i) = ci_content i" and "canon (ci_meta i) = ci_meta i"
    and "canon (pv_metadata (ci_prov i)) = pv_metadata (ci_prov i)"
    and "\<forall>h \<in> set (ci_recovery i). canon (rh_locator h) = rh_locator h"
    and "ci_schema i = 1" and "verify_integrity sha i"
proof -
  have "make_item sha i = Inr i" using assms by (simp add: made_item_def)
  then show "canon (ci_content i) = ci_content i" "canon (ci_meta i) = ci_meta i" "ci_schema i = 1"
    "verify_integrity sha i"
    by (auto simp: make_item_Inr dest: arg_cong[of _ _ ci_content] arg_cong[of _ _ ci_meta])
  show "canon (pv_metadata (ci_prov i)) = pv_metadata (ci_prov i)"
    using assms by (auto simp: made_item_def make_provenance_def Let_def split: if_splits
        dest: arg_cong[of _ _ pv_metadata])
  show "\<forall>h \<in> set (ci_recovery i). canon (rh_locator h) = rh_locator h"
    using assms by (auto simp: made_item_def list_all_iff make_recovery_def split: if_splits
        dest!: bspec dest: arg_cong[of _ _ rh_locator])
qed

lemma recovery_list_inj:
  "map (canon \<circ> recovery_py) hs = map (canon \<circ> recovery_py) ks \<Longrightarrow>
   \<forall>h \<in> set hs \<union> set ks. canon (rh_locator h) = rh_locator h \<Longrightarrow> hs = ks"
  by (induction hs arbitrary: ks) (auto simp: map_eq_Cons_conv Cons_eq_map_conv dest: recovery_py_inj)

text \<open>
  Equal identifiers of two items that both pass their integrity check, however they came about:
  the identity payloads agree part by part, and the contents as JSON values.
\<close>

lemma verified_id_parts:
  assumes vi: "verify_integrity sha i" and vj: "verify_integrity sha j" and id: "ci_id i = ci_id j"
    and inj: "inj_on sha {canon (identity_payload i), canon (identity_payload j), canon (ci_content i), canon (ci_content j)}"
  shows "ci_schema i = ci_schema j" and "ci_kind i = ci_kind j" and "ci_repr i = ci_repr j" and "ci_sha i = ci_sha j"
    and "canon (provenance_py (ci_prov i)) = canon (provenance_py (ci_prov j))"
    and "map (canon \<circ> recovery_py) (ci_recovery i) = map (canon \<circ> recovery_py) (ci_recovery j)"
    and "canon (ci_meta i) = canon (ci_meta j)" and "canon (ci_content i) = canon (ci_content j)"
proof -
  note ui = vi[unfolded verify_integrity_def computed_item_id_def ctx_digest_def digest_def]
  note uj = vj[unfolded verify_integrity_def computed_item_id_def ctx_digest_def digest_def]
  have "sha (canon (identity_payload i)) = sha (canon (identity_payload j))"
    using ui uj id by (metis same_append_eq)
  then have "canon (identity_payload i) = canon (identity_payload j)"
    by (rule inj_onD[OF inj]) simp_all
  then have parts: "map (canon \<circ> snd)
      [(''schema_version'', PyInt (ci_schema i)), (''kind'', PyStr (ci_kind i)),
       (''representation'', PyStr (ci_repr i)), (''content_sha256'', PyStr (ci_sha i)),
       (''provenance'', provenance_py (ci_prov i)),
       (''recovery'', PyList (map recovery_py (ci_recovery i))), (''metadata'', ci_meta i)] =
    map (canon \<circ> snd)
      [(''schema_version'', PyInt (ci_schema j)), (''kind'', PyStr (ci_kind j)),
       (''representation'', PyStr (ci_repr j)), (''content_sha256'', PyStr (ci_sha j)),
       (''provenance'', provenance_py (ci_prov j)),
       (''recovery'', PyList (map recovery_py (ci_recovery j))), (''metadata'', ci_meta j)]"
    unfolding identity_payload_def by (rule canon_dict_eqD) simp_all
  then show "ci_schema i = ci_schema j" "ci_kind i = ci_kind j" "ci_repr i = ci_repr j"
    "canon (provenance_py (ci_prov i)) = canon (provenance_py (ci_prov j))"
    "map (canon \<circ> recovery_py) (ci_recovery i) = map (canon \<circ> recovery_py) (ci_recovery j)"
    "canon (ci_meta i) = canon (ci_meta j)" by (simp_all add: canon_list_map)
  show same_sha: "ci_sha i = ci_sha j" using parts by simp
  have "sha (canon (ci_content i)) = sha (canon (ci_content j))"
    using ui uj unfolding same_sha by (metis same_append_eq)
  then show "canon (ci_content i) = canon (ci_content j)" by (rule inj_onD[OF inj]) simp_all
qed

lemma item_id_determines:
  assumes "made_item sha i" and "made_item sha j"
    and "inj_on sha {canon (identity_payload i), canon (identity_payload j), canon (ci_content i), canon (ci_content j)}"
  shows "ci_id i = ci_id j \<longleftrightarrow> j = i\<lparr>ci_trust := ci_trust j, ci_fresh := ci_fresh j\<rparr>"
proof
  note ci = made_item_canonical[OF assms(1)] and cj = made_item_canonical[OF assms(2)]
  assume id: "ci_id i = ci_id j"
  note parts = verified_id_parts[OF ci(6) cj(6) id assms(3)]
  have prov: "ci_prov i = ci_prov j" using parts(5) ci(3) cj(3) by (rule provenance_py_inj)
  have rec: "ci_recovery i = ci_recovery j"
    using parts(6) ci(4) cj(4) by (intro recovery_list_inj) auto
  show "j = i\<lparr>ci_trust := ci_trust j, ci_fresh := ci_fresh j\<rparr>"
    using parts(1-4,7,8) prov rec ci(1,2) cj(1,2) id by simp
next
  assume "j = i\<lparr>ci_trust := ci_trust j, ci_fresh := ci_fresh j\<rparr>"
  from arg_cong[OF this, of ci_id] show "ci_id i = ci_id j" by simp
qed

section \<open>Properties\<close>

text \<open>
  Items survive serialisation: reading back the document of a constructed item gives the
  item itself, and constructing again changes nothing.
\<close>

theorem item_document_roundtrip:
  assumes "made_item sha i"
  shows "item_from_dict sha (item_to_dict i) = Inr i \<and> make_item sha i = Inr i"
  using assms item_to_from_dict by (simp add: made_item_def)

text \<open>
  Building succeeds exactly for a non-blank kind and a known representation, and the
  item then holds the canonical content under identifiers that verify.
\<close>

theorem build_item_integrity:
  assumes "sha_shape sha"
  shows "((\<exists>i. build_item sha kind repr content prov t f rs md = Inr i) \<longleftrightarrow>
       py_strip kind \<noteq> '''' \<and> repr \<in> set representations) \<and>
     (\<forall>i. build_item sha kind repr content prov t f rs md = Inr i \<longrightarrow>
       verify_integrity sha i \<and> make_item sha i = Inr i \<and> ci_content i = canon content \<and>
       ci_prov i = prov \<and> ci_recovery i = rs)"
proof -
  have only: "py_strip kind \<noteq> '''' \<and> repr \<in> set representations"
    if "build_item sha kind repr content prov t f rs md = Inr i" for i
    using that by (auto simp: build_item_def Let_def make_item_Inr)
  show ?thesis
  proof (cases "py_strip kind \<noteq> '''' \<and> repr \<in> set representations")
    case True
    then obtain i where i: "build_item sha kind repr content prov t f rs md = Inr i" "make_item sha i = Inr i"
        "ci_content i = canon content" "ci_prov i = prov" "ci_recovery i = rs"
      using build_item_works[OF assms, of kind repr content prov t f rs md] by blast
    then show ?thesis using True by (auto simp: make_item_Inr)
  next
    case False
    then show ?thesis using only by blast
  qed
qed

text \<open>
  What an item identifier commits to, exactly: if the digest does not collide on the
  identity payloads and contents of two constructed items, they have the same identifier if and
  only if they agree in everything except trust and freshness.  In particular the trust level of
  an item can be exchanged without its integrity check noticing.
\<close>

theorem item_id_commits:
  assumes "made_item sha i" and "made_item sha j"
    and "inj_on sha {canon (identity_payload i), canon (identity_payload j), canon (ci_content i), canon (ci_content j)}"
  shows "ci_id i = ci_id j \<longleftrightarrow> j = i\<lparr>ci_trust := ci_trust j, ci_fresh := ci_fresh j\<rparr>"
  using assms by (rule item_id_determines)

section \<open>Concrete items\<close>

definition flat_digest :: "pyval \<Rightarrow> string" where
  "flat_digest v = zero_hash"

lemma flat_digest_shape: "sha_shape flat_digest"
  by (simp add: sha_shape_def flat_digest_def zero_hash_shape)

definition demo_provenance :: provenance where
  "demo_provenance = \<lparr>pv_source = ''test'', pv_commit = ''unknown'', pv_observed = None,
     pv_parents = [], pv_metadata = PyDict []\<rparr>"

definition demo_item :: context_item where
  "demo_item = \<lparr>ci_schema = 1, ci_id = ''sha256:'' @ zero_hash, ci_kind = ''note'', ci_repr = ''exact'',
     ci_content = PyStr ''x'', ci_sha = ''sha256:'' @ zero_hash, ci_prov = demo_provenance,
     ci_trust = default_trust, ci_fresh = default_freshness, ci_recovery = [], ci_meta = PyDict []\<rparr>"

lemma demo_item_made: "made_item flat_digest demo_item"
  "made_item flat_digest (demo_item\<lparr>ci_trust := default_trust\<lparr>tu_level := ''verified''\<rparr>\<rparr>)"
  by code_simp+

theorem item_document_roundtrip_witness:
  "item_from_dict flat_digest (item_to_dict demo_item) = Inr demo_item"
  using item_document_roundtrip[OF demo_item_made(1)] by simp

theorem build_item_integrity_witness:
  "\<exists>i. build_item flat_digest '' note '' ''exact'' (PyStr ''x'') demo_provenance None None [] [] = Inr i \<and>
     verify_integrity flat_digest i"
proof -
  have "py_strip '' note '' \<noteq> '''' \<and> ''exact'' \<in> set representations" by code_simp
  then show ?thesis
    using build_item_integrity[OF flat_digest_shape, of "'' note ''" "''exact''" "PyStr ''x''" demo_provenance None None "[]" "[]"]
    by blast
qed

definition pair_digest :: "pyval \<Rightarrow> string" where
  "pair_digest v = (case v of PyStr _ \<Rightarrow> zero_hash | _ \<Rightarrow> replicate 64 (CHR ''1''))"

definition bound_item :: context_item where
  "bound_item = demo_item\<lparr>ci_id := ''sha256:'' @ replicate 64 (CHR ''1'')\<rparr>"

lemma bound_item_made: "made_item pair_digest bound_item"
  "made_item pair_digest (bound_item\<lparr>ci_trust := default_trust\<lparr>tu_level := ''verified''\<rparr>\<rparr>)"
  by code_simp+

theorem item_id_commits_witness:
  "ci_id bound_item = ci_id (bound_item\<lparr>ci_trust := default_trust\<lparr>tu_level := ''verified''\<rparr>\<rparr>)"
proof -
  let ?j = "bound_item\<lparr>ci_trust := default_trust\<lparr>tu_level := ''verified''\<rparr>\<rparr>"
  have "inj_on pair_digest {canon (identity_payload bound_item), canon (identity_payload ?j),
      canon (ci_content bound_item), canon (ci_content ?j)}" by code_simp
  from item_id_commits[OF bound_item_made this] show ?thesis by simp
qed

end
