(* ===== verification/EvidenceStore.thy ===== *)
theory EvidenceStore
  imports UniversalItem
begin

text \<open>
  The content-addressed evidence store of \<open>syntavra_runtime/evidence_store.py\<close>: immutable items
  with a mutable evaluation (trust and freshness), lineage, pinning and expiry, and a
  hash-chained journal.  A canonical JSON column is represented by the typed document it is the
  text of, so equality of texts is equality of documents.  Each method is one transaction: an
  error leaves no trace, and the result carries the new tables.  Timestamps are given; the
  secret scanner (\<open>secret_redaction.py\<close>) is a parameter that says whether it would redact
  anything, with the receipt it would write.
\<close>

section \<open>Tables\<close>

record evidence_row =
  er_id :: string
  er_sha :: string
  er_kind :: string
  er_repr :: string
  er_stable :: item_doc
  er_trust :: trust
  er_fresh :: freshness
  er_created :: string
  er_updated :: string
  er_expires :: "string option"
  er_pinned :: bool

record lineage_row =
  lr_parent :: string
  lr_child :: string
  lr_relation :: string
  lr_created :: string

record journal_row =
  jr_sequence :: int
  jr_hash :: string
  jr_previous :: "string option"
  jr_action :: string
  jr_item :: string
  jr_observed :: string
  jr_actor :: string
  jr_details :: pyval

record evidence_db =
  ed_items :: "evidence_row list"
  ed_lineage :: "lineage_row list"
  ed_journal :: "journal_row list"

definition empty_evidence :: evidence_db where
  "empty_evidence = \<lparr>ed_items = [], ed_lineage = [], ed_journal = []\<rparr>"

text \<open>\<open>_stable_projection\<close>: the document without trust and freshness.\<close>

definition stable_projection :: "context_item \<Rightarrow> item_doc" where
  "stable_projection i = (item_to_dict i)\<lparr>do_trust := None, do_fresh := None\<rparr>"

definition evaluation_projection :: "context_item \<Rightarrow> trust \<times> freshness" where
  "evaluation_projection i = (ci_trust i, ci_fresh i)"

section \<open>The journal\<close>

definition journal_basis :: "journal_row \<Rightarrow> pyval" where
  "journal_basis r = PyDict
     [(''previous_hash'', opt_str (jr_previous r)), (''action'', PyStr (jr_action r)),
      (''item_id'', PyStr (jr_item r)), (''observed_at'', PyStr (jr_observed r)),
      (''actor'', PyStr (jr_actor r)), (''details'', jr_details r)]"

definition journal_entry ::
  "(pyval \<Rightarrow> string) \<Rightarrow> string \<Rightarrow> string \<Rightarrow> fields \<Rightarrow> string \<Rightarrow> string \<Rightarrow> evidence_db \<Rightarrow>
   py_error + string \<times> evidence_db" where
  "journal_entry sha action item_id details actor timestamp db =
     (let previous = (if ed_journal db = [] then None else Some (jr_hash (last (ed_journal db))));
          r = \<lparr>jr_sequence = int (length (ed_journal db)) + 1, jr_hash = '''', jr_previous = previous,
            jr_action = action, jr_item = item_id, jr_observed = timestamp, jr_actor = actor,
            jr_details = canon (PyDict details)\<rparr>;
          h = ctx_digest sha (journal_basis r)
      in if h \<in> set (map jr_hash (ed_journal db)) then Inl (IntegrityError ''evidence_journal.event_hash'')
         else Inr (h, db\<lparr>ed_journal := ed_journal db @ [r\<lparr>jr_hash := h\<rparr>]\<rparr>))"

section \<open>Writing and reading items\<close>

definition find_item :: "evidence_db \<Rightarrow> string \<Rightarrow> evidence_row option" where
  "find_item db item_id = find (\<lambda>r. er_id r = item_id) (ed_items db)"

definition add_lineage :: "string \<Rightarrow> string \<Rightarrow> string \<Rightarrow> lineage_row list \<Rightarrow> lineage_row list" where
  "add_lineage child timestamp parent rows =
     (if \<exists>r \<in> set rows. lr_parent r = parent \<and> lr_child r = child \<and> lr_relation r = ''DERIVED_FROM'' then rows
      else rows @ [\<lparr>lr_parent = parent, lr_child = child, lr_relation = ''DERIVED_FROM'', lr_created = timestamp\<rparr>])"

record put_receipt =
  pt_action :: string
  pt_item :: string
  pt_sha :: string
  pt_event :: string

definition put_item ::
  "(pyval \<Rightarrow> string) \<Rightarrow> (item_doc \<Rightarrow> bool \<times> pyval) \<Rightarrow> string \<Rightarrow> context_item \<Rightarrow> string option \<Rightarrow> bool \<Rightarrow>
   string \<Rightarrow> string option \<Rightarrow> evidence_db \<Rightarrow> py_error + put_receipt \<times> evidence_db" where
  "put_item sha scan now item expires pinned actor observed db =
     (if \<not> verify_integrity sha item then Inl (ValueError ''UniversalContextItem integrity check failed'')
      else if fst (scan (item_to_dict item))
      then Inl (ValueError ''evidence item contains secret-like material; create an explicit sanitized UniversalContextItem before storage'')
      else
        let secret_receipt = snd (scan (item_to_dict item));
            stable = stable_projection item;
            (tr, fr) = evaluation_projection item;
            timestamp = (case observed of None \<Rightarrow> now | Some t \<Rightarrow> if t = '''' then now else t);
            outcome = (case find_item db (ci_id item) of
              None \<Rightarrow>
                Inr (''put-new'',
                  [(''content_sha256'', PyStr (ci_sha item)), (''pinned'', PyBool pinned),
                   (''expires_at'', opt_str expires), (''secret_scan'', secret_receipt)],
                  db\<lparr>ed_items := ed_items db @
                    [\<lparr>er_id = ci_id item, er_sha = ci_sha item, er_kind = ci_kind item,
                      er_repr = ci_repr item, er_stable = stable, er_trust = tr, er_fresh = fr,
                      er_created = timestamp, er_updated = timestamp, er_expires = expires,
                      er_pinned = pinned\<rparr>]\<rparr>)
            | Some old \<Rightarrow>
                if er_stable old \<noteq> stable
                then Inl (ValueError ''stable evidence identity collision: same item_id has different immutable payload'')
                else
                  let changed = ((er_trust old, er_fresh old) \<noteq> (tr, fr));
                      new_pinned = (er_pinned old \<or> pinned);
                      new_expiry = (case expires of None \<Rightarrow> er_expires old | Some e \<Rightarrow> Some e)
                  in Inr (if changed then ''evaluation-update'' else ''observe-existing'',
                    [(''evaluation_changed'', PyBool changed), (''pinned'', PyBool new_pinned),
                     (''expires_at'', opt_str new_expiry), (''secret_scan'', secret_receipt)],
                    db\<lparr>ed_items := update_where (\<lambda>r. er_id r = ci_id item)
                      (\<lambda>r. r\<lparr>er_trust := tr, er_fresh := fr, er_updated := timestamp,
                            er_expires := new_expiry, er_pinned := new_pinned\<rparr>) (ed_items db)\<rparr>))
        in bindE outcome (\<lambda>(action, details, db1).
           let db2 = db1\<lparr>ed_lineage := fold (add_lineage (ci_id item) timestamp)
                 (pv_parents (ci_prov item)) (ed_lineage db1)\<rparr>
           in bindE (journal_entry sha action (ci_id item) details actor timestamp db2) (\<lambda>(h, db3).
              Inr (\<lparr>pt_action = action, pt_item = ci_id item, pt_sha = ci_sha item, pt_event = h\<rparr>, db3))))"

definition get_item :: "(pyval \<Rightarrow> string) \<Rightarrow> string \<Rightarrow> evidence_db \<Rightarrow> py_error + context_item option" where
  "get_item sha item_id db =
     (case find_item db item_id of
        None \<Rightarrow> Inr None
      | Some r \<Rightarrow>
          bindE (valueE (item_from_dict sha ((er_stable r)\<lparr>do_trust := Some (er_trust r), do_fresh := Some (er_fresh r)\<rparr>))) (\<lambda>i.
          if \<not> verify_integrity sha i
          then Inl (ValueError ''stored UniversalContextItem failed integrity verification'')
          else Inr (Some i)))"

definition require_item :: "(pyval \<Rightarrow> string) \<Rightarrow> string \<Rightarrow> evidence_db \<Rightarrow> py_error + context_item" where
  "require_item sha item_id db =
     bindE (get_item sha item_id db) (\<lambda>i. case i of None \<Rightarrow> Inl (KeyError item_id) | Some x \<Rightarrow> Inr x)"

definition lineage :: "string \<Rightarrow> string \<Rightarrow> evidence_db \<Rightarrow> py_error + (string \<times> string \<times> string) list" where
  "lineage item_id direction db =
     (if direction = ''parents''
      then Inr (map (\<lambda>r. (lr_parent r, lr_relation r, lr_created r))
        (sort_key (\<lambda>r. (lr_parent r, lr_relation r)) (filter (\<lambda>r. lr_child r = item_id) (ed_lineage db))))
      else if direction = ''children''
      then Inr (map (\<lambda>r. (lr_child r, lr_relation r, lr_created r))
        (sort_key (\<lambda>r. (lr_child r, lr_relation r)) (filter (\<lambda>r. lr_parent r = item_id) (ed_lineage db))))
      else Inl (ValueError ''direction must be parents or children''))"

section \<open>Retention\<close>

definition pin_item ::
  "(pyval \<Rightarrow> string) \<Rightarrow> string \<Rightarrow> string \<Rightarrow> bool \<Rightarrow> string \<Rightarrow> evidence_db \<Rightarrow> py_error + string \<times> evidence_db" where
  "pin_item sha now item_id pinned actor db =
     (if find_item db item_id = None then Inl (KeyError item_id)
      else journal_entry sha (if pinned then ''pin'' else ''unpin'') item_id [(''pinned'', PyBool pinned)] actor now
        (db\<lparr>ed_items := update_where (\<lambda>r. er_id r = item_id)
          (\<lambda>r. r\<lparr>er_pinned := pinned, er_updated := now\<rparr>) (ed_items db)\<rparr>))"

definition set_expiry ::
  "(pyval \<Rightarrow> string) \<Rightarrow> string \<Rightarrow> string \<Rightarrow> string option \<Rightarrow> string \<Rightarrow> evidence_db \<Rightarrow> py_error + string \<times> evidence_db" where
  "set_expiry sha now item_id expires actor db =
     (if find_item db item_id = None then Inl (KeyError item_id)
      else journal_entry sha ''retention-update'' item_id [(''expires_at'', opt_str expires)] actor now
        (db\<lparr>ed_items := update_where (\<lambda>r. er_id r = item_id)
          (\<lambda>r. r\<lparr>er_expires := expires, er_updated := now\<rparr>) (ed_items db)\<rparr>))"

definition expired_row :: "string \<Rightarrow> evidence_row \<Rightarrow> bool" where
  "expired_row cutoff r \<longleftrightarrow> \<not> er_pinned r \<and> (case er_expires r of None \<Rightarrow> False | Some e \<Rightarrow> e \<le> cutoff)"

text \<open>\<open>DELETE\<close> of an item, with the cascade to the lineage rows that reference it.\<close>

definition delete_item :: "string \<Rightarrow> evidence_db \<Rightarrow> evidence_db" where
  "delete_item item_id db = db\<lparr>ed_items := filter (\<lambda>r. er_id r \<noteq> item_id) (ed_items db),
     ed_lineage := filter (\<lambda>r. lr_child r \<noteq> item_id) (ed_lineage db)\<rparr>"

fun prune_each ::
  "(pyval \<Rightarrow> string) \<Rightarrow> string \<Rightarrow> string \<Rightarrow> string list \<Rightarrow> evidence_db \<Rightarrow> py_error + evidence_db" where
  "prune_each sha cutoff actor [] db = Inr db"
| "prune_each sha cutoff actor (i # ids) db =
     bindE (journal_entry sha ''prune-expired'' i [(''cutoff'', PyStr cutoff)] actor cutoff db) (\<lambda>(h, db1).
     prune_each sha cutoff actor ids (delete_item i db1))"

definition prune_expired ::
  "(pyval \<Rightarrow> string) \<Rightarrow> string \<Rightarrow> string option \<Rightarrow> string \<Rightarrow> evidence_db \<Rightarrow> py_error + string list \<times> evidence_db" where
  "prune_expired sha now before actor db =
     (let cutoff = (case before of None \<Rightarrow> now | Some c \<Rightarrow> if c = '''' then now else c);
          removed = sort (map er_id (filter (expired_row cutoff) (ed_items db)))
      in bindE (prune_each sha cutoff actor removed db) (\<lambda>db1. Inr (removed, db1)))"

section \<open>Audits\<close>

definition integrity_shape :: "recovery_handle \<Rightarrow> bool" where
  "integrity_shape h \<longleftrightarrow> take 7 (rh_integrity h) = ''sha256:'' \<and> length (rh_integrity h) = 71"

definition verify_item :: "(pyval \<Rightarrow> string) \<Rightarrow> string \<Rightarrow> evidence_db \<Rightarrow> py_error + bool \<times> context_item" where
  "verify_item sha item_id db =
     bindE (require_item sha item_id db) (\<lambda>i.
     Inr (verify_integrity sha i \<and> list_all integrity_shape (ci_recovery i), i))"

fun verify_journal_rows ::
  "(pyval \<Rightarrow> string) \<Rightarrow> string option \<Rightarrow> journal_row list \<Rightarrow> int list \<times> string option" where
  "verify_journal_rows sha previous [] = ([], previous)"
| "verify_journal_rows sha previous (r # rows) =
     (let (failures, head) = verify_journal_rows sha (Some (jr_hash r)) rows in
      (if jr_previous r \<noteq> previous \<or> jr_hash r \<noteq> ctx_digest sha (journal_basis (r\<lparr>jr_previous := previous\<rparr>))
       then jr_sequence r # failures else failures, head))"

definition verify_journal :: "(pyval \<Rightarrow> string) \<Rightarrow> evidence_db \<Rightarrow> bool \<times> int \<times> string option \<times> int list" where
  "verify_journal sha db =
     (let (failures, head) = verify_journal_rows sha None (sort_key jr_sequence (ed_journal db)) in
      (failures = [], int (length (ed_journal db)), head, failures))"

definition journal_of :: "string option \<Rightarrow> evidence_db \<Rightarrow> journal_row list" where
  "journal_of item_id db =
     sort_key jr_sequence (filter (\<lambda>r. item_id = None \<or> Some (jr_item r) = item_id) (ed_journal db))"

definition evidence_stats :: "evidence_db \<Rightarrow> int \<times> int \<times> int \<times> int" where
  "evidence_stats db = (int (length (ed_items db)), int (length (ed_lineage db)),
     int (length (ed_journal db)), int (length (filter er_pinned (ed_items db))))"

section \<open>The contract of an item store\<close>

text \<open>
  What clients rely on: an item that was put is read back as it is, the other items are not
  affected, and the store stays well formed.
\<close>

fun put_all :: "('i \<Rightarrow> 'd \<Rightarrow> 'e + 'd) \<Rightarrow> 'i list \<Rightarrow> 'd \<Rightarrow> 'e + 'd" where
  "put_all put [] d = Inr d"
| "put_all put (i # is) d = bindE (put i d) (put_all put is)"

locale item_store =
  fixes put :: "'i \<Rightarrow> 'd \<Rightarrow> 'e + 'd" and get :: "string \<Rightarrow> 'd \<Rightarrow> 'e + 'i option"
    and key :: "'i \<Rightarrow> string" and ok :: "'i \<Rightarrow> bool" and wf :: "'d \<Rightarrow> bool"
  assumes put_wf: "wf d \<Longrightarrow> ok i \<Longrightarrow> put i d = Inr d' \<Longrightarrow> wf d'"
    and get_put: "wf d \<Longrightarrow> ok i \<Longrightarrow> put i d = Inr d' \<Longrightarrow> get (key i) d' = Inr (Some i)"
    and get_other: "wf d \<Longrightarrow> ok i \<Longrightarrow> put i d = Inr d' \<Longrightarrow> k \<noteq> key i \<Longrightarrow> get k d' = get k d"
begin

text \<open>After any successful sequence of puts, a key reads as the last item put under it.\<close>

lemma get_put_all:
  "wf d \<Longrightarrow> list_all ok is \<Longrightarrow> put_all put is d = Inr d' \<Longrightarrow>
   wf d' \<and> get k d' = (case find (\<lambda>i. key i = k) (rev is) of None \<Rightarrow> get k d | Some i \<Rightarrow> Inr (Some i))"
proof (induction "is" arbitrary: d)
  case (Cons i "is")
  obtain d1 where d1: "put i d = Inr d1" "put_all put is d1 = Inr d'" using Cons.prems(3) by auto
  have oki: "ok i" using Cons.prems(2) by simp
  have wf1: "wf d1" by (rule put_wf[OF Cons.prems(1) oki d1(1)])
  note IH = Cons.IH[OF wf1 _ d1(2)]
  have app: "find P (xs @ [i]) = (case find P xs of None \<Rightarrow> if P i then Some i else None | Some x \<Rightarrow> Some x)"
    for P xs by (induction xs) auto
  show ?case
  proof (cases "find (\<lambda>i. key i = k) (rev is)")
    case None
    then show ?thesis
      using IH Cons.prems(2) get_put[OF Cons.prems(1) oki d1(1)] get_other[OF Cons.prems(1) oki d1(1), of k]
      by (auto simp: app)
  next
    case (Some x)
    then show ?thesis using IH Cons.prems by (simp add: app)
  qed
qed simp

lemma get_put_all_own:
  assumes "wf d" and "list_all ok is" and "put_all put is d = Inr d'" and "distinct (map key is)" and "i \<in> set is"
  shows "get (key i) d' = Inr (Some i)"
proof -
  have "find (\<lambda>j. key j = key i) (rev is) \<noteq> None" using assms(5) by (auto simp: find_None_iff)
  then obtain j where j: "find (\<lambda>j. key j = key i) (rev is) = Some j" by auto
  have "j \<in> set (rev is) \<and> key j = key i" by (rule find_SomeD[OF j])
  then have "j = i" by (intro distinct_key_eq[OF assms(4)]) (use assms(5) in auto)
  have "get (key i) d' = Inr (Some j)"
    using get_put_all[OF assms(1-3), of "key i"] unfolding j option.case by (rule conjunct2)
  then show ?thesis unfolding \<open>j = i\<close> .
qed

end

section \<open>The invariant of the store\<close>

definition row_ok :: "(pyval \<Rightarrow> string) \<Rightarrow> evidence_row \<Rightarrow> bool" where
  "row_ok sha r \<longleftrightarrow> (\<exists>i. made_item sha i \<and> er_id r = ci_id i \<and> er_stable r = stable_projection i \<and>
     er_trust r = ci_trust i \<and> er_fresh r = ci_fresh i)"

definition entry_ok :: "(pyval \<Rightarrow> string) \<Rightarrow> journal_row \<Rightarrow> bool" where
  "entry_ok sha r \<longleftrightarrow> jr_hash r = ctx_digest sha (journal_basis r) \<and> canon (jr_details r) = jr_details r"

definition journal_ok :: "(pyval \<Rightarrow> string) \<Rightarrow> journal_row list \<Rightarrow> bool" where
  "journal_ok sha rows \<longleftrightarrow> numbered jr_sequence 1 rows \<and> linked jr_previous (\<lambda>r. Some (jr_hash r)) None rows \<and>
     (\<forall>r \<in> set rows. entry_ok sha r)"

definition evidence_inv :: "(pyval \<Rightarrow> string) \<Rightarrow> evidence_db \<Rightarrow> bool" where
  "evidence_inv sha db \<longleftrightarrow> distinct (map er_id (ed_items db)) \<and> (\<forall>r \<in> set (ed_items db). row_ok sha r) \<and>
     (\<forall>l \<in> set (ed_lineage db). lr_child l \<in> er_id ` set (ed_items db)) \<and> journal_ok sha (ed_journal db)"

lemma journal_entry_Inr:
  assumes "journal_entry sha action item_id details actor timestamp db = Inr (h, db')"
    and "journal_ok sha (ed_journal db)"
  shows "ed_items db' = ed_items db \<and> ed_lineage db' = ed_lineage db \<and> journal_ok sha (ed_journal db') \<and>
    (\<exists>r. ed_journal db' = ed_journal db @ [r] \<and> jr_action r = action \<and> jr_item r = item_id \<and> jr_hash r = h)"
proof -
  define r where "r = \<lparr>jr_sequence = int (length (ed_journal db)) + 1, jr_hash = '''',
    jr_previous = (if ed_journal db = [] then None else Some (jr_hash (last (ed_journal db)))),
    jr_action = action, jr_item = item_id, jr_observed = timestamp, jr_actor = actor,
    jr_details = canon (PyDict details)\<rparr>"
  have db': "h = ctx_digest sha (journal_basis r)" "db' = db\<lparr>ed_journal := ed_journal db @ [r\<lparr>jr_hash := h\<rparr>]\<rparr>"
    using assms(1) by (auto simp: journal_entry_def Let_def r_def split: if_splits)
  have "canon (jr_details r) = jr_details r" unfolding r_def by (simp add: canon_fields_sort_key)
  then have "entry_ok sha (r\<lparr>jr_hash := h\<rparr>)" using db'(1) by (simp add: entry_ok_def journal_basis_def)
  moreover have "jr_sequence r = int (length (ed_journal db)) + 1"
    "jr_previous r = head_hash (\<lambda>r. Some (jr_hash r)) None (ed_journal db)"
    by (simp_all add: r_def head_hash_def)
  ultimately have "journal_ok sha (ed_journal db')"
    using assms(2) db'(2) by (simp add: journal_ok_def numbered_append linked_append)
  then show ?thesis using db'(2) by (auto simp: r_def)
qed

lemma find_item_Some: "find_item db i = Some r \<Longrightarrow> r \<in> set (ed_items db) \<and> er_id r = i"
  unfolding find_item_def by (rule find_SomeD)

lemma find_item_iff:
  assumes "distinct (map er_id (ed_items db))"
  shows "find_item db i = Some r \<longleftrightarrow> r \<in> set (ed_items db) \<and> er_id r = i"
proof
  assume "r \<in> set (ed_items db) \<and> er_id r = i"
  moreover from this obtain r' where r': "find_item db i = Some r'"
    by (cases "find_item db i") (auto simp: find_item_def find_None_iff)
  ultimately show "find_item db i = Some r"
    using find_item_Some[OF r'] distinct_key_eq[OF assms, of r r'] by simp
qed (rule find_item_Some)

lemma find_item_None: "find_item db i = None \<longleftrightarrow> i \<notin> er_id ` set (ed_items db)"
  by (auto simp: find_item_def find_None_iff)

lemma row_doc:
  assumes "er_stable r = stable_projection i" and "er_trust r = ci_trust i" and "er_fresh r = ci_fresh i"
  shows "(er_stable r)\<lparr>do_trust := Some (er_trust r), do_fresh := Some (er_fresh r)\<rparr> = item_to_dict i"
  by (simp add: assms stable_projection_def item_to_dict_def)

lemma get_item_row:
  assumes "find_item db k = Some r" and "made_item sha i" and "er_stable r = stable_projection i"
    and "er_trust r = ci_trust i" and "er_fresh r = ci_fresh i"
  shows "get_item sha k db = Inr (Some i)"
  using assms(1) item_to_from_dict[OF assms(2)] made_item_canonical(6)[OF assms(2)]
  by (simp add: get_item_def row_doc[OF assms(3-5)])

text \<open>Adding lineage rows: they all name the item as the child.\<close>

lemma add_lineage_one:
  "set rows \<subseteq> set (add_lineage child t p rows)"
  "set (add_lineage child t p rows) \<subseteq> set rows \<union> {l. lr_child l = child}"
  by (auto simp: add_lineage_def)

lemma add_lineage_all:
  "set rows \<subseteq> set (fold (add_lineage child t) parents rows) \<and>
   set (fold (add_lineage child t) parents rows) \<subseteq> set rows \<union> {l. lr_child l = child}"
proof (induction parents arbitrary: rows)
  case (Cons p parents)
  show ?case
    using Cons.IH[of "add_lineage child t p rows"] add_lineage_one[where rows = rows and child = child and t = t and p = p] by auto
qed simp

section \<open>Every operation keeps the invariant\<close>

text \<open>What a successful \<open>put\<close> did, as one description of the new tables.\<close>

lemma put_item_Inr:
  assumes "put_item sha scan now i expires pinned actor observed db = (Inr (receipt, db'))"
    and inv: "evidence_inv sha db" and made: "made_item sha i"
  obtains row where "find_item db' (ci_id i) = Some row" and "er_stable row = stable_projection i"
    and "er_trust row = ci_trust i" and "er_fresh row = ci_fresh i"
    and "\<And>k. k \<noteq> ci_id i \<Longrightarrow> find_item db' k = find_item db k" and "evidence_inv sha db'"
    and "pt_item receipt = ci_id i"
proof -
  define t where "t = (case observed of None \<Rightarrow> now | Some t \<Rightarrow> if t = '''' then now else t)"
  obtain action details db1 where
    outcome: "(case find_item db (ci_id i) of
        None \<Rightarrow> Inr (''put-new'',
          [(''content_sha256'', PyStr (ci_sha i)), (''pinned'', PyBool pinned),
           (''expires_at'', opt_str expires), (''secret_scan'', snd (scan (item_to_dict i)))],
          db\<lparr>ed_items := ed_items db @
            [\<lparr>er_id = ci_id i, er_sha = ci_sha i, er_kind = ci_kind i, er_repr = ci_repr i,
              er_stable = stable_projection i, er_trust = ci_trust i, er_fresh = ci_fresh i,
              er_created = t, er_updated = t, er_expires = expires, er_pinned = pinned\<rparr>]\<rparr>)
      | Some old \<Rightarrow>
          if er_stable old \<noteq> stable_projection i
          then Inl (ValueError ''stable evidence identity collision: same item_id has different immutable payload'')
          else
            let changed = ((er_trust old, er_fresh old) \<noteq> (ci_trust i, ci_fresh i));
                new_pinned = (er_pinned old \<or> pinned);
                new_expiry = (case expires of None \<Rightarrow> er_expires old | Some e \<Rightarrow> Some e)
            in Inr (if changed then ''evaluation-update'' else ''observe-existing'',
              [(''evaluation_changed'', PyBool changed), (''pinned'', PyBool new_pinned),
               (''expires_at'', opt_str new_expiry), (''secret_scan'', snd (scan (item_to_dict i)))],
              db\<lparr>ed_items := update_where (\<lambda>r. er_id r = ci_id i)
                (\<lambda>r. r\<lparr>er_trust := ci_trust i, er_fresh := ci_fresh i, er_updated := t,
                      er_expires := new_expiry, er_pinned := new_pinned\<rparr>) (ed_items db)\<rparr>)) =
      Inr (action, details, db1)"
    and jr: "\<exists>h. journal_entry sha action (ci_id i) details actor t
        (db1\<lparr>ed_lineage := fold (add_lineage (ci_id i) t) (pv_parents (ci_prov i)) (ed_lineage db1)\<rparr>) = Inr (h, db')"
    and receipt: "pt_item receipt = ci_id i"
    using assms(1)
    by (auto simp: put_item_def Let_def evaluation_projection_def t_def[symmetric]
        split: if_splits prod.splits)
  have dist: "distinct (map er_id (ed_items db))" using inv by (simp add: evidence_inv_def)
  have same: "ed_lineage db1 = ed_lineage db" "ed_journal db1 = ed_journal db"
    using outcome by (auto simp: Let_def split: option.splits if_splits)
  have items: "distinct (map er_id (ed_items db1)) \<and> (\<forall>r \<in> set (ed_items db1). row_ok sha r) \<and>
      er_id ` set (ed_items db) \<subseteq> er_id ` set (ed_items db1) \<and>
      (\<forall>k. k \<noteq> ci_id i \<longrightarrow> find_item db1 k = find_item db k) \<and>
      (\<exists>row. find_item db1 (ci_id i) = Some row \<and> er_stable row = stable_projection i \<and>
         er_trust row = ci_trust i \<and> er_fresh row = ci_fresh i)"
  proof (cases "find_item db (ci_id i)")
    case None
    then obtain row where row: "ed_items db1 = ed_items db @ [row]" "er_id row = ci_id i"
        "er_stable row = stable_projection i" "er_trust row = ci_trust i" "er_fresh row = ci_fresh i"
      using outcome by auto
    have new: "ci_id i \<notin> er_id ` set (ed_items db)" using None by (simp add: find_item_None)
    then have dist1: "distinct (map er_id (ed_items db1))" using dist row by simp
    have "row_ok sha row" using row made by (auto simp: row_ok_def)
    moreover have "find_item db1 k = find_item db k" if "k \<noteq> ci_id i" for k
    proof -
      have "find P (xs @ [row]) = find P xs" if "\<not> P row" for P xs using that by (induction xs) auto
      then show ?thesis using that row by (simp add: find_item_def)
    qed
    moreover have "find_item db1 (ci_id i) = Some row" using row by (simp add: find_item_iff[OF dist1])
    ultimately show ?thesis using inv dist1 row by (auto simp: evidence_inv_def)
  next
    case (Some old)
    then have st: "er_stable old = stable_projection i" using outcome by (auto split: if_splits)
    obtain t' e p where db1: "ed_items db1 = update_where (\<lambda>r. er_id r = ci_id i)
        (\<lambda>r. r\<lparr>er_trust := ci_trust i, er_fresh := ci_fresh i, er_updated := t', er_expires := e, er_pinned := p\<rparr>)
        (ed_items db)"
      using outcome Some st by (auto simp: Let_def)
    have old: "old \<in> set (ed_items db)" "er_id old = ci_id i" using find_item_Some[OF Some] by auto
    have ids: "map er_id (ed_items db1) = map er_id (ed_items db)"
      unfolding db1 by (rule map_update_where_same) simp
    have dist1: "distinct (map er_id (ed_items db1))" using dist ids by simp
    let ?row = "old\<lparr>er_trust := ci_trust i, er_fresh := ci_fresh i, er_updated := t', er_expires := e, er_pinned := p\<rparr>"
    have "row_ok sha r" if rmem: "r \<in> set (ed_items db1)" for r
    proof (cases "er_id r = ci_id i")
      case True
      then obtain r0 where r0: "r0 \<in> set (ed_items db)" "er_id r0 = ci_id i"
        "r = r0\<lparr>er_trust := ci_trust i, er_fresh := ci_fresh i, er_updated := t', er_expires := e, er_pinned := p\<rparr>"
        using rmem unfolding db1 set_update_where by (auto split: if_splits)
      then have "r0 = old" using distinct_key_eq[OF dist, of r0 old] old by simp
      then have "made_item sha i \<and> er_id r = ci_id i \<and> er_stable r = stable_projection i \<and>
          er_trust r = ci_trust i \<and> er_fresh r = ci_fresh i" using r0 st made by simp
      then show ?thesis unfolding row_ok_def by blast
    next
      case False
      then have "r \<in> set (ed_items db)" using rmem unfolding db1 set_update_where by (auto split: if_splits)
      then show ?thesis using inv by (simp add: evidence_inv_def)
    qed
    moreover have "find_item db1 k = find_item db k" if "k \<noteq> ci_id i" for k
      unfolding find_item_def db1 by (rule find_update_other) (use that in simp_all)
    moreover have "find_item db1 (ci_id i) = Some ?row"
      unfolding find_item_iff[OF dist1] using old update_where_hit[of old "ed_items db"] by (simp add: db1)
    moreover have "er_id ` set (ed_items db1) = er_id ` set (ed_items db)"
      using ids by (metis list.set_map)
    ultimately show ?thesis using dist1 st by auto
  qed
  obtain h where h: "journal_entry sha action (ci_id i) details actor t
        (db1\<lparr>ed_lineage := fold (add_lineage (ci_id i) t) (pv_parents (ci_prov i)) (ed_lineage db1)\<rparr>) = Inr (h, db')"
    using jr by blast
  have journal: "journal_ok sha (ed_journal db)" using inv by (simp add: evidence_inv_def)
  note after = journal_entry_Inr[OF h]
  have after': "ed_items db' = ed_items db1" "journal_ok sha (ed_journal db')"
    "ed_lineage db' = fold (add_lineage (ci_id i) t) (pv_parents (ci_prov i)) (ed_lineage db)"
    using after journal same by auto
  have find': "find_item db' k = find_item db1 k" for k by (simp add: find_item_def after')
  have "ci_id i \<in> er_id ` set (ed_items db1)"
  proof -
    obtain row where "find_item db1 (ci_id i) = Some row" using items by blast
    from find_item_Some[OF this] show ?thesis by (metis imageI)
  qed
  have lin: "lr_child l \<in> er_id ` set (ed_items db')" if l: "l \<in> set (ed_lineage db')" for l
  proof (cases "l \<in> set (ed_lineage db)")
    case True
    then have "lr_child l \<in> er_id ` set (ed_items db)" using inv by (simp add: evidence_inv_def)
    then show ?thesis using items unfolding after'(1) by blast
  next
    case False
    have "l \<in> set (ed_lineage db) \<union> {l. lr_child l = ci_id i}"
      using l unfolding after'(3) by (rule subsetD[OF conjunct2[OF add_lineage_all]])
    then have "lr_child l = ci_id i" using False by simp
    then show ?thesis using \<open>ci_id i \<in> er_id ` set (ed_items db1)\<close> unfolding after'(1) by simp
  qed
  have "evidence_inv sha db'" unfolding evidence_inv_def
  proof (intro conjI ballI)
    show "distinct (map er_id (ed_items db'))" "journal_ok sha (ed_journal db')" using items after' by auto
    show "row_ok sha r" if "r \<in> set (ed_items db')" for r using items that unfolding after'(1) by blast
  qed (rule lin)
  then show thesis using that items find' receipt by metis
qed

lemma update_rows_inv:
  assumes "evidence_inv sha db" and "\<And>r. er_id (f r) = er_id r \<and> er_stable (f r) = er_stable r \<and>
      er_trust (f r) = er_trust r \<and> er_fresh (f r) = er_fresh r"
    and "journal_entry sha action item details actor t (db\<lparr>ed_items := update_where P f (ed_items db)\<rparr>) = Inr (h, db')"
  shows "evidence_inv sha db' \<and> (\<forall>k. get_item sha k db' = get_item sha k db)"
proof -
  have ids: "map er_id (update_where P f (ed_items db)) = map er_id (ed_items db)"
    by (rule map_update_where_same) (simp add: assms(2))
  have idset: "er_id ` set (update_where P f (ed_items db)) = er_id ` set (ed_items db)"
    using ids by (metis list.set_map)
  have rows: "\<forall>r \<in> set (update_where P f (ed_items db)). row_ok sha r"
    by (rule ball_update_where) (use assms(1,2) in \<open>auto simp: evidence_inv_def row_ok_def\<close>)
  have "journal_ok sha (ed_journal db)" using assms(1) by (simp add: evidence_inv_def)
  then have after: "ed_items db' = update_where P f (ed_items db)" "ed_lineage db' = ed_lineage db"
    "journal_ok sha (ed_journal db')" using journal_entry_Inr[OF assms(3)] by auto
  have "evidence_inv sha db'" using assms(1) ids idset rows after by (simp add: evidence_inv_def)
  moreover have "get_item sha k db' = get_item sha k db" for k
  proof -
    have "find (\<lambda>r. er_id r = k) (update_where P f xs) = map_option (\<lambda>r. if P r then f r else r) (find (\<lambda>r. er_id r = k) xs)"
      for xs using assms(2) by (induction xs) auto
    then have "find_item db' k = map_option (\<lambda>r. if P r then f r else r) (find_item db k)"
      by (simp add: find_item_def after)
    then show ?thesis using assms(2) by (auto simp: get_item_def split: option.splits)
  qed
  ultimately show ?thesis by blast
qed

lemma delete_inv: "evidence_inv sha db \<Longrightarrow> evidence_inv sha (delete_item i db)"
  by (auto simp: evidence_inv_def delete_item_def distinct_map intro: inj_on_subset)

lemma prune_each_Inr:
  "prune_each sha cutoff actor ids db = Inr db' \<Longrightarrow> evidence_inv sha db \<Longrightarrow>
   evidence_inv sha db' \<and> ed_items db' = filter (\<lambda>r. er_id r \<notin> set ids) (ed_items db) \<and>
   ed_lineage db' = filter (\<lambda>l. lr_child l \<notin> set ids) (ed_lineage db)"
proof (induction sha cutoff actor ids db rule: prune_each.induct)
  case (2 sha cutoff actor i ids db)
  obtain h db1 where h: "journal_entry sha ''prune-expired'' i [(''cutoff'', PyStr cutoff)] actor cutoff db = Inr (h, db1)"
    and rest: "prune_each sha cutoff actor ids (delete_item i db1) = Inr db'"
    using "2.prems"(1) by auto
  have "journal_ok sha (ed_journal db)" using "2.prems"(2) by (simp add: evidence_inv_def)
  then have db1: "ed_items db1 = ed_items db" "ed_lineage db1 = ed_lineage db" "journal_ok sha (ed_journal db1)"
    using journal_entry_Inr[OF h] by auto
  then have "evidence_inv sha db1" using "2.prems"(2) by (simp add: evidence_inv_def)
  from "2.IH"[OF rest delete_inv[OF this]] db1 show ?case
    by (auto simp: delete_item_def intro: filter_cong)
qed simp

inductive evidence_step :: "(pyval \<Rightarrow> string) \<Rightarrow> evidence_db \<Rightarrow> evidence_db \<Rightarrow> bool" for sha :: "pyval \<Rightarrow> string" where
  step_put: "made_item sha i \<Longrightarrow> put_item sha scan now i expires pinned actor observed db = Inr (receipt, db') \<Longrightarrow>
    evidence_step sha db db'"
| step_pin: "pin_item sha now i pinned actor db = Inr (h, db') \<Longrightarrow> evidence_step sha db db'"
| step_expiry: "set_expiry sha now i expires actor db = Inr (h, db') \<Longrightarrow> evidence_step sha db db'"
| step_prune: "prune_expired sha now before actor db = Inr (removed, db') \<Longrightarrow> evidence_step sha db db'"

lemma evidence_step_inv: "evidence_step sha db db' \<Longrightarrow> evidence_inv sha db \<Longrightarrow> evidence_inv sha db'"
proof (induction rule: evidence_step.induct)
  case (step_put i scan now expires pinned actor observed db receipt db')
  then show ?case by (auto elim: put_item_Inr)
next
  case (step_pin now i pinned actor db h db')
  then have "journal_entry sha (if pinned then ''pin'' else ''unpin'') i [(''pinned'', PyBool pinned)] actor now
      (db\<lparr>ed_items := update_where (\<lambda>r. er_id r = i) (\<lambda>r. r\<lparr>er_pinned := pinned, er_updated := now\<rparr>) (ed_items db)\<rparr>)
      = Inr (h, db')" by (simp add: pin_item_def split: if_splits)
  from update_rows_inv[OF step_pin(2) _ this] show ?case by simp
next
  case (step_expiry now i expires actor db h db')
  then have "journal_entry sha ''retention-update'' i [(''expires_at'', opt_str expires)] actor now
      (db\<lparr>ed_items := update_where (\<lambda>r. er_id r = i) (\<lambda>r. r\<lparr>er_expires := expires, er_updated := now\<rparr>) (ed_items db)\<rparr>)
      = Inr (h, db')" by (simp add: set_expiry_def split: if_splits)
  from update_rows_inv[OF step_expiry(2) _ this] show ?case by simp
next
  case (step_prune now before actor db removed db')
  then show ?case using prune_each_Inr by (auto simp: prune_expired_def Let_def)
qed

lemma evidence_empty_inv: "evidence_inv sha empty_evidence"
  by (simp add: evidence_inv_def empty_evidence_def journal_ok_def)

interpretation evidence_runs: stateful "\<lambda>db. db = empty_evidence" "evidence_step sha" "evidence_inv sha"
  for sha :: "pyval \<Rightarrow> string"
  by unfold_locales (use evidence_empty_inv evidence_step_inv in auto)

section \<open>The store meets its contract\<close>

definition store_put ::
  "(pyval \<Rightarrow> string) \<Rightarrow> (item_doc \<Rightarrow> bool \<times> pyval) \<Rightarrow> string \<Rightarrow> string option \<Rightarrow> bool \<Rightarrow> string \<Rightarrow>
   string option \<Rightarrow> context_item \<Rightarrow> evidence_db \<Rightarrow> py_error + evidence_db" where
  "store_put sha scan now expires pinned actor observed i db =
     bindE (put_item sha scan now i expires pinned actor observed db) (\<lambda>(receipt, db'). Inr db')"

lemma store_put_Inr:
  "store_put sha scan now expires pinned actor observed i db = Inr db' \<longleftrightarrow>
   (\<exists>receipt. put_item sha scan now i expires pinned actor observed db = Inr (receipt, db'))"
  by (auto simp: store_put_def)

interpretation evidence_items: item_store "store_put sha scan now expires pinned actor observed"
  "get_item sha" ci_id "made_item sha" "evidence_inv sha"
  for sha scan now expires pinned actor observed
proof
  fix d i d'
  assume wf: "evidence_inv sha d" and ok: "made_item sha i"
    and "store_put sha scan now expires pinned actor observed i d = Inr d'"
  then obtain receipt where put: "put_item sha scan now i expires pinned actor observed d = Inr (receipt, d')"
    by (auto simp: store_put_Inr)
  show "evidence_inv sha d'" by (rule put_item_Inr[OF put wf ok])
  show "get_item sha (ci_id i) d' = Inr (Some i)"
    by (rule put_item_Inr[OF put wf ok]) (use ok in \<open>auto intro: get_item_row\<close>)
  show "get_item sha k d' = get_item sha k d" if "k \<noteq> ci_id i" for k
    by (rule put_item_Inr[OF put wf ok]) (use that in \<open>simp add: get_item_def\<close>)
qed

lemma get_item_total:
  assumes "evidence_inv sha db"
  shows "get_item sha k db = Inr None \<or>
    (\<exists>i. get_item sha k db = Inr (Some i) \<and> ci_id i = k \<and> made_item sha i)"
proof (cases "find_item db k")
  case None
  then show ?thesis by (simp add: get_item_def)
next
  case (Some r)
  then have "r \<in> set (ed_items db)" "er_id r = k" using find_item_Some by auto
  then obtain i where "made_item sha i" "er_id r = ci_id i" "er_stable r = stable_projection i"
    "er_trust r = ci_trust i" "er_fresh r = ci_fresh i"
    using assms by (auto simp: evidence_inv_def row_ok_def)
  then show ?thesis using get_item_row[OF Some] \<open>er_id r = k\<close> by auto
qed

lemma verify_journal_rows_ok:
  "fst (verify_journal_rows sha p rows) = [] \<longleftrightarrow> linked jr_previous (\<lambda>r. Some (jr_hash r)) p rows \<and>
     (\<forall>r \<in> set rows. jr_hash r = ctx_digest sha (journal_basis r))"
proof (induction sha p rows rule: verify_journal_rows.induct)
  case (2 sha previous r rows)
  have "r\<lparr>jr_previous := previous\<rparr> = r" if "jr_previous r = previous" using that by (cases r) simp
  then show ?case using 2 by (auto simp: Let_def case_prod_beta)
qed simp

lemma verify_journal_rows_head:
  "snd (verify_journal_rows sha p rows) = head_hash (\<lambda>r. Some (jr_hash r)) p rows"
  by (induction sha p rows rule: verify_journal_rows.induct) (auto simp: Let_def case_prod_beta head_hash_def)

text \<open>Journal entries without their row number, which the hash does not cover.\<close>

definition unnumbered :: "journal_row \<Rightarrow> journal_row" where
  "unnumbered r = r\<lparr>jr_sequence := 0\<rparr>"

definition sealed_entry :: "(pyval \<Rightarrow> string) \<Rightarrow> journal_row \<Rightarrow> bool" where
  "sealed_entry sha r \<longleftrightarrow> entry_ok sha r \<and> jr_sequence r = 0"

interpretation journal_log: hash_chain jr_previous "\<lambda>r. Some (jr_hash r)" None "sealed_entry sha"
  "\<lambda>r. canon (journal_basis r)" "\<lambda>v. Some (''sha256:'' @ sha v)" for sha :: "pyval \<Rightarrow> string"
proof
  show "Some (jr_hash e) = Some (''sha256:'' @ sha (canon (journal_basis e)))" if "sealed_entry sha e" for e
    using that by (simp add: sealed_entry_def entry_ok_def ctx_digest_def digest_def)
  show "e = e'" if "sealed_entry sha e" "sealed_entry sha e'" "canon (journal_basis e) = canon (journal_basis e')"
    for e e'
  proof -
    have "map (canon \<circ> snd) [(''previous_hash'', opt_str (jr_previous e)), (''action'', PyStr (jr_action e)),
        (''item_id'', PyStr (jr_item e)), (''observed_at'', PyStr (jr_observed e)),
        (''actor'', PyStr (jr_actor e)), (''details'', jr_details e)] =
      map (canon \<circ> snd) [(''previous_hash'', opt_str (jr_previous e')), (''action'', PyStr (jr_action e')),
        (''item_id'', PyStr (jr_item e')), (''observed_at'', PyStr (jr_observed e')),
        (''actor'', PyStr (jr_actor e')), (''details'', jr_details e')]"
      using that(3) unfolding journal_basis_def by (rule canon_dict_eqD) simp_all
    moreover have "jr_hash e = jr_hash e'"
      using that by (simp add: sealed_entry_def entry_ok_def ctx_digest_def digest_def)
    ultimately show ?thesis using that(1,2) by (simp add: sealed_entry_def entry_ok_def)
  qed
qed

lemma linked_unnumbered:
  "linked jr_previous (\<lambda>r. Some (jr_hash r)) h (map unnumbered rows) \<longleftrightarrow>
   linked jr_previous (\<lambda>r. Some (jr_hash r)) h rows"
  by (induction rows arbitrary: h) (auto simp: unnumbered_def)

section \<open>Properties\<close>

text \<open>
  C28. The store is a store: after any successful sequence of puts of constructed items on any
  reachable database, an identifier reads back the last item put under it, trust and freshness
  included, and every other identifier reads as before.
\<close>

theorem evidence_put_get:
  assumes "reaches (\<lambda>db. db = empty_evidence) (evidence_step sha) db" and "list_all (made_item sha) is"
    and "put_all (store_put sha scan now expires pinned actor observed) is db = Inr db'"
  shows "get_item sha k db' =
    (case find (\<lambda>i. ci_id i = k) (rev is) of None \<Rightarrow> get_item sha k db | Some i \<Rightarrow> Inr (Some i))"
  using evidence_items.get_put_all[OF evidence_runs.reachable_inv[OF assms(1)] assms(2,3)] by (rule conjunct2)

text \<open>
  Reading never fails: in every reachable database a lookup returns nothing or a
  constructed, verified item under its own identifier, and the journal verifies.
\<close>

theorem evidence_always_readable:
  assumes "reaches (\<lambda>db. db = empty_evidence) (evidence_step sha) db"
  shows "(get_item sha k db = Inr None \<or>
      (\<exists>i. get_item sha k db = Inr (Some i) \<and> ci_id i = k \<and> made_item sha i)) \<and>
    fst (verify_journal sha db)"
proof -
  have inv: "evidence_inv sha db" by (rule evidence_runs.reachable_inv[OF assms])
  then have j: "journal_ok sha (ed_journal db)" by (simp add: evidence_inv_def)
  then have "numbered jr_sequence 1 (ed_journal db)" by (simp add: journal_ok_def)
  then have "sort_key jr_sequence (ed_journal db) = ed_journal db"
    by (rule sort_key_sorted[OF numbered_sorted])
  then have "fst (verify_journal_rows sha None (sort_key jr_sequence (ed_journal db))) = []"
    using j by (simp add: verify_journal_rows_ok journal_ok_def entry_ok_def)
  then have "fst (verify_journal sha db)" by (simp add: verify_journal_def Let_def case_prod_beta)
  then show ?thesis using get_item_total[OF inv] by blast
qed

text \<open>
  The journal head commits to the whole journal: two databases whose journals verify with
  the same head have the same journal, row numbers aside, unless the digest collides on the
  bodies of their entries.  No length has to be known.
\<close>

theorem journal_head_commits:
  assumes "verify_journal sha db1 = (True, n1, head, f1)" and "verify_journal sha db2 = (True, n2, head, f2)"
    and "\<forall>r \<in> set (ed_journal db1) \<union> set (ed_journal db2). canon (jr_details r) = jr_details r"
    and "inj_on sha ((\<lambda>r. canon (journal_basis r)) ` (set (ed_journal db1) \<union> set (ed_journal db2)))"
  shows "map unnumbered (sort_key jr_sequence (ed_journal db1)) =
    map unnumbered (sort_key jr_sequence (ed_journal db2))"
proof (rule journal_log.same_head_same_log)
  let ?xs = "sort_key jr_sequence (ed_journal db1)" and ?ys = "sort_key jr_sequence (ed_journal db2)"
  have nil: "fst (verify_journal_rows sha None ?xs) = []" "fst (verify_journal_rows sha None ?ys) = []"
    and heads: "snd (verify_journal_rows sha None ?xs) = head" "snd (verify_journal_rows sha None ?ys) = head"
    using assms(1,2) by (auto simp: verify_journal_def Let_def case_prod_beta)
  note ok = nil[unfolded verify_journal_rows_ok]
  show "linked jr_previous (\<lambda>r. Some (jr_hash r)) None (map unnumbered ?xs)"
    "linked jr_previous (\<lambda>r. Some (jr_hash r)) None (map unnumbered ?ys)"
    using ok by (simp_all add: linked_unnumbered)
  have sealed: "sealed_entry sha (unnumbered r)" if "r \<in> set (ed_journal db1) \<union> set (ed_journal db2)" for r
    using that ok assms(3) by (auto simp: sealed_entry_def unnumbered_def entry_ok_def journal_basis_def)
  show "\<forall>e \<in> set (map unnumbered ?xs) \<union> set (map unnumbered ?ys). sealed_entry sha e \<and> Some (jr_hash e) \<noteq> None"
    using sealed by auto
  have basis: "journal_basis (unnumbered r) = journal_basis r" for r
    by (simp add: unnumbered_def journal_basis_def)
  have "(\<lambda>r. canon (journal_basis r)) ` (set (map unnumbered ?xs) \<union> set (map unnumbered ?ys)) =
      (\<lambda>r. canon (journal_basis r)) ` (set (ed_journal db1) \<union> set (ed_journal db2))"
    by (simp only: set_map image_Un image_image basis set_sort)
  then show "inj_on (\<lambda>v. Some (''sha256:'' @ sha v))
      ((\<lambda>r. canon (journal_basis r)) ` (set (map unnumbered ?xs) \<union> set (map unnumbered ?ys)))"
    using assms(4) by (simp add: inj_on_def)
  have head: "head_hash (\<lambda>r. Some (jr_hash r)) None (map unnumbered zs) = head_hash (\<lambda>r. Some (jr_hash r)) None zs" for zs
    by (cases zs rule: rev_cases) (simp_all add: unnumbered_def)
  show "head_hash (\<lambda>r. Some (jr_hash r)) None (map unnumbered ?xs) =
      head_hash (\<lambda>r. Some (jr_hash r)) None (map unnumbered ?ys)"
    using heads unfolding verify_journal_rows_head head by simp
qed

text \<open>
  Pruning removes exactly the unpinned rows whose expiry is not after the cutoff, with the
  lineage of the removed children; every other item, the pinned ones in particular, reads as
  before.
\<close>

theorem prune_exact:
  assumes "reaches (\<lambda>db. db = empty_evidence) (evidence_step sha) db"
    and "prune_expired sha now (Some cutoff) actor db = Inr (removed, db')" and "cutoff \<noteq> ''''"
  shows "ed_items db' = filter (\<lambda>r. \<not> expired_row cutoff r) (ed_items db) \<and>
    set removed = er_id ` {r \<in> set (ed_items db). expired_row cutoff r} \<and>
    (\<forall>k. k \<notin> set removed \<longrightarrow> get_item sha k db' = get_item sha k db) \<and>
    (\<forall>l \<in> set (ed_lineage db'). lr_child l \<notin> set removed)"
proof -
  have inv: "evidence_inv sha db" by (rule evidence_runs.reachable_inv[OF assms(1)])
  have dist: "distinct (map er_id (ed_items db))" using inv by (simp add: evidence_inv_def)
  have rem: "removed = sort (map er_id (filter (expired_row cutoff) (ed_items db)))"
    and each: "prune_each sha cutoff actor removed db = Inr db'"
    using assms(2,3) by (auto simp: prune_expired_def Let_def)
  have set: "set removed = er_id ` {r \<in> set (ed_items db). expired_row cutoff r}" using rem by auto
  note pr = prune_each_Inr[OF each inv]
  have "er_id r \<notin> set removed \<longleftrightarrow> \<not> expired_row cutoff r" if "r \<in> set (ed_items db)" for r
    unfolding set using that distinct_key_eq[OF dist that] by auto
  then have items: "ed_items db' = filter (\<lambda>r. \<not> expired_row cutoff r) (ed_items db)"
    using pr by (auto intro: filter_cong)
  have "find (\<lambda>r. er_id r = k) (filter (\<lambda>r. er_id r \<notin> S) xs) = find (\<lambda>r. er_id r = k) xs" if "k \<notin> S" for k S xs
    using that by (induction xs) auto
  then have "find_item db' k = find_item db k" if "k \<notin> set removed" for k
    using that pr by (simp only: find_item_def)
  then have "get_item sha k db' = get_item sha k db" if "k \<notin> set removed" for k
    using that by (simp add: get_item_def)
  then show ?thesis using items set pr by auto
qed

section \<open>A concrete store\<close>

definition demo_scan :: "item_doc \<Rightarrow> bool \<times> pyval" where
  "demo_scan d = (False, PyDict [])"

definition demo_store :: evidence_db where
  "demo_store = (case put_item flat_digest demo_scan ''t1'' demo_item (Some ''t5'') False ''a'' None empty_evidence of
     Inr (_, db) \<Rightarrow> db | Inl _ \<Rightarrow> empty_evidence)"

lemma demo_store_reached: "reaches (\<lambda>db. db = empty_evidence) (evidence_step flat_digest) demo_store"
proof -
  have "\<not> isl (put_item flat_digest demo_scan ''t1'' demo_item (Some ''t5'') False ''a'' None empty_evidence)"
    by code_simp
  then obtain p where p: "put_item flat_digest demo_scan ''t1'' demo_item (Some ''t5'') False ''a'' None empty_evidence = Inr p"
    by (rule not_islE)
  then have "put_item flat_digest demo_scan ''t1'' demo_item (Some ''t5'') False ''a'' None empty_evidence =
      Inr (fst p, demo_store)"
    by (simp add: demo_store_def case_prod_beta)
  from step_put[OF demo_item_made(1) this]
  show ?thesis by (rule reach_step[rotated]) (rule reach_init, simp)
qed

theorem evidence_put_get_witness:
  "\<exists>db'. put_all (store_put flat_digest demo_scan ''t1'' None False ''a'' None) [demo_item] empty_evidence = Inr db' \<and>
     get_item flat_digest (ci_id demo_item) db' = Inr (Some demo_item)"
proof -
  have start: "reaches (\<lambda>db. db = empty_evidence) (evidence_step flat_digest) empty_evidence"
    by (rule reach_init) simp
  have "\<not> isl (put_all (store_put flat_digest demo_scan ''t1'' None False ''a'' None) [demo_item] empty_evidence)"
    by code_simp
  then obtain db' where db': "put_all (store_put flat_digest demo_scan ''t1'' None False ''a'' None) [demo_item] empty_evidence = Inr db'"
    by (rule not_islE)
  from evidence_put_get[OF start _ db', of "ci_id demo_item"] demo_item_made(1) db' show ?thesis by auto
qed

theorem evidence_always_readable_witness:
  "get_item flat_digest (ci_id demo_item) demo_store \<noteq> Inr None \<and> fst (verify_journal flat_digest demo_store)"
proof -
  have "get_item flat_digest (ci_id demo_item) demo_store \<noteq> Inr None" by code_simp
  then show ?thesis using evidence_always_readable[OF demo_store_reached] by blast
qed

theorem journal_head_commits_witness:
  "map unnumbered (sort_key jr_sequence (ed_journal demo_store)) =
   map unnumbered (sort_key jr_sequence (ed_journal (demo_store\<lparr>ed_items := []\<rparr>)))"
proof -
  have v: "verify_journal flat_digest demo_store = (True, 1, Some (''sha256:'' @ zero_hash), [])"
    "verify_journal flat_digest (demo_store\<lparr>ed_items := []\<rparr>) = (True, 1, Some (''sha256:'' @ zero_hash), [])"
    by code_simp+
  have "\<forall>r \<in> set (ed_journal demo_store) \<union> set (ed_journal (demo_store\<lparr>ed_items := []\<rparr>)). canon (jr_details r) = jr_details r"
    "inj_on flat_digest ((\<lambda>r. canon (journal_basis r)) `
      (set (ed_journal demo_store) \<union> set (ed_journal (demo_store\<lparr>ed_items := []\<rparr>))))"
    by code_simp+
  from journal_head_commits[OF v this] show ?thesis .
qed

text \<open>Two journal entries need two digests: the journal hash is unique in its table.\<close>

definition prune_digest :: "pyval \<Rightarrow> string" where
  "prune_digest v =
     (case v of PyDict ((k, PyStr a) # _) \<Rightarrow> if a = ''prune-expired'' then replicate 64 (CHR ''1'') else zero_hash
      | _ \<Rightarrow> zero_hash)"

definition pruned_store :: evidence_db where
  "pruned_store = (case put_item prune_digest demo_scan ''t1'' demo_item (Some ''t5'') False ''a'' None empty_evidence of
     Inr (_, db) \<Rightarrow> db | Inl _ \<Rightarrow> empty_evidence)"

lemma pruned_store_reached: "reaches (\<lambda>db. db = empty_evidence) (evidence_step prune_digest) pruned_store"
proof -
  have made: "made_item prune_digest demo_item" by code_simp
  have "\<not> isl (put_item prune_digest demo_scan ''t1'' demo_item (Some ''t5'') False ''a'' None empty_evidence)"
    by code_simp
  then obtain p where p: "put_item prune_digest demo_scan ''t1'' demo_item (Some ''t5'') False ''a'' None empty_evidence = Inr p"
    by (rule not_islE)
  then have "put_item prune_digest demo_scan ''t1'' demo_item (Some ''t5'') False ''a'' None empty_evidence =
      Inr (fst p, pruned_store)"
    by (simp add: pruned_store_def case_prod_beta)
  from step_put[OF made this]
  show ?thesis by (rule reach_step[rotated]) (rule reach_init, simp)
qed

theorem prune_exact_witness:
  "case prune_expired prune_digest ''t7'' (Some ''t6'') ''a'' pruned_store of
     Inl _ \<Rightarrow> False
   | Inr (removed, db') \<Rightarrow> removed = [ci_id demo_item] \<and> ed_items db' = []"
proof -
  have "\<not> isl (prune_expired prune_digest ''t7'' (Some ''t6'') ''a'' pruned_store)"
    by code_simp
  then obtain p where p: "prune_expired prune_digest ''t7'' (Some ''t6'') ''a'' pruned_store = Inr p"
    by (rule not_islE)
  then have eq: "prune_expired prune_digest ''t7'' (Some ''t6'') ''a'' pruned_store = Inr (fst p, snd p)"
    by simp
  have rows: "filter (\<lambda>r. \<not> expired_row ''t6'' r) (ed_items pruned_store) = []" by code_simp
  have "fst p = [ci_id demo_item]"
  proof -
    have "(case prune_expired prune_digest ''t7'' (Some ''t6'') ''a'' pruned_store of
        Inl _ \<Rightarrow> False | Inr q \<Rightarrow> fst q = [ci_id demo_item])" by code_simp
    then show ?thesis by (simp add: p)
  qed
  then show ?thesis
    using prune_exact[OF pruned_store_reached eq] rows by (simp add: p case_prod_beta)
qed

end
