(* ===== verification/TypedObjects.thy ===== *)
theory TypedObjects
  imports EvidenceStore
begin

text \<open>
  Typed context objects of \<open>syntavra_runtime/typed_context_objects.py\<close>: payloads with required
  fields, carried by context items of kind \<open>typed-context:<type>\<close> whose metadata hold the digest
  of the object, and the store facade over the evidence store.  Objects are read from the JSON
  content of an item, so every conversion of \<open>from_dict\<close> is written out.
\<close>

section \<open>Types and payloads\<close>

definition type_specs :: "(string \<times> string list) list" where
  "type_specs =
     [(''GitDiff'', [''base'', ''head'', ''files'', ''patch'']),
      (''TestRun'', [''command'', ''exit_code'', ''tests'']),
      (''CompilerDiagnostics'', [''tool'', ''diagnostics'']),
      (''ASTGraph'', [''language'', ''nodes'', ''edges'']),
      (''DependencyGraph'', [''nodes'', ''edges'']),
      (''SearchResultSet'', [''query'', ''results'']),
      (''LogStream'', [''source'', ''entries'']),
      (''BrowserDOM'', [''url'', ''nodes'']),
      (''TraceSet'', [''traces'']),
      (''MetricSeries'', [''name'', ''points'']),
      (''DataFrame'', [''columns'', ''rows'']),
      (''FileSnapshot'', [''path'', ''content'']),
      (''SymbolSnapshot'', [''symbol'', ''kind'', ''path'']),
      (''ToolSchemaSet'', [''tools'']),
      (''MemoryObservation'', [''observation'', ''scope'']),
      (''TaskStateSnapshot'', [''task_id'', ''state''])]"

definition clone_fields :: "fields \<Rightarrow> fields" where
  "clone_fields kvs = sort_key fst (canon_fields kvs)"

definition validate_payload :: "string \<Rightarrow> fields \<Rightarrow> string + fields" where
  "validate_payload object_type payload =
     (case map_of type_specs object_type of
        None \<Rightarrow> Inl (''unknown typed context object: '' @ py_repr object_type)
      | Some required \<Rightarrow>
          let body = clone_fields payload;
              missing = filter (\<lambda>name. name \<notin> set (map fst body)) required
          in if missing \<noteq> [] then Inl (object_type @ '' missing required payload fields: '' @ list_repr missing)
             else Inr body)"

section \<open>Objects\<close>

record typed_object =
  to_type :: string
  to_repr :: string
  to_payload :: fields
  to_meta :: fields
  to_schema :: int

definition make_typed :: "typed_object \<Rightarrow> string + typed_object" where
  "make_typed ob =
     (if to_schema ob \<noteq> 1 then Inl (''unsupported typed context schema: '' @ int_str (to_schema ob))
      else if to_repr ob \<notin> set representations then Inl (''unknown representation: '' @ py_repr (to_repr ob))
      else bindE (validate_payload (to_type ob) (to_payload ob)) (\<lambda>payload.
        Inr (ob\<lparr>to_payload := payload, to_meta := clone_fields (to_meta ob)\<rparr>)))"

definition typed_fields :: "typed_object \<Rightarrow> fields" where
  "typed_fields ob =
     [(''schema_version'', PyInt (to_schema ob)), (''object_type'', PyStr (to_type ob)),
      (''representation'', PyStr (to_repr ob)), (''payload'', canon (PyDict (to_payload ob))),
      (''metadata'', canon (PyDict (to_meta ob)))]"

definition typed_to_dict :: "typed_object \<Rightarrow> pyval" where
  "typed_to_dict ob = PyDict (typed_fields ob)"

definition typed_from_dict :: "pyval \<Rightarrow> py_error + typed_object" where
  "typed_from_dict value =
     bindE (py_dict value) (\<lambda>body.
     bindE (case map_of body ''schema_version'' of None \<Rightarrow> Inr (-1) | Some v \<Rightarrow> py_int v) (\<lambda>schema.
     bindE (field ''object_type'' body) (\<lambda>ty.
     bindE (field ''representation'' body) (\<lambda>repr.
     bindE (bindE (field ''payload'' body) py_dict) (\<lambda>payload.
     bindE (case map_of body ''metadata'' of None \<Rightarrow> Inr []
            | Some m \<Rightarrow> if py_truth m then py_dict m else Inr []) (\<lambda>meta.
     valueE (make_typed \<lparr>to_type = py_str ty, to_repr = py_str repr, to_payload = payload,
       to_meta = meta, to_schema = schema\<rparr>)))))))"

definition object_sha256 :: "(pyval \<Rightarrow> string) \<Rightarrow> typed_object \<Rightarrow> string" where
  "object_sha256 sha ob = ctx_digest sha (typed_to_dict ob)"

section \<open>Objects as context items\<close>

definition typed_prefix :: string where
  "typed_prefix = ''typed-context:''"

definition to_universal ::
  "(pyval \<Rightarrow> string) \<Rightarrow> typed_object \<Rightarrow> provenance \<Rightarrow> trust option \<Rightarrow> freshness option \<Rightarrow>
   recovery_handle list \<Rightarrow> string + context_item" where
  "to_universal sha ob prov trust_opt fresh_opt recovery =
     build_item sha (''typed-context:'' @ to_type ob) (to_repr ob) (typed_to_dict ob) prov
       (Some (case trust_opt of None \<Rightarrow> default_trust | Some t \<Rightarrow> t))
       (Some (case fresh_opt of None \<Rightarrow> default_freshness | Some f \<Rightarrow> f)) recovery
       [(''typed_context_schema_version'', PyInt (to_schema ob)),
        (''typed_object_type'', PyStr (to_type ob)),
        (''typed_object_sha256'', PyStr (object_sha256 sha ob))]"

definition meta_get :: "context_item \<Rightarrow> string \<Rightarrow> pyval option" where
  "meta_get item k = (case ci_meta item of PyDict kvs \<Rightarrow> map_of kvs k | _ \<Rightarrow> None)"

definition from_universal :: "(pyval \<Rightarrow> string) \<Rightarrow> context_item \<Rightarrow> py_error + typed_object" where
  "from_universal sha item =
     (if \<not> verify_integrity sha item then Inl (ValueError ''UniversalContextItem integrity check failed'')
      else if take (length typed_prefix) (ci_kind item) \<noteq> typed_prefix
      then Inl (ValueError (''not a typed context item: '' @ py_repr (ci_kind item)))
      else bindE (typed_from_dict (ci_content item)) (\<lambda>value. valueE (checkE
        [if to_type value \<noteq> drop (length typed_prefix) (ci_kind item)
         then Some ''typed context kind/object_type mismatch'' else None,
         if to_repr value \<noteq> ci_repr item then Some ''typed context representation mismatch'' else None,
         if meta_get item ''typed_object_sha256'' \<noteq> Some (PyStr (object_sha256 sha value))
         then Some ''typed context object digest mismatch'' else None,
         if \<not> (case meta_get item ''typed_context_schema_version'' of None \<Rightarrow> False
               | Some v \<Rightarrow> py_eq_int v (to_schema value))
         then Some ''typed context schema metadata mismatch'' else None] value)))"

section \<open>The store of typed objects\<close>

record typed_receipt =
  ty_receipt :: put_receipt
  ty_type :: string
  ty_repr :: string
  ty_sha :: string

definition put_typed ::
  "(pyval \<Rightarrow> string) \<Rightarrow> (item_doc \<Rightarrow> bool \<times> pyval) \<Rightarrow> string \<Rightarrow> typed_object \<Rightarrow> provenance \<Rightarrow> trust option \<Rightarrow>
   freshness option \<Rightarrow> recovery_handle list \<Rightarrow> string option \<Rightarrow> bool \<Rightarrow> string \<Rightarrow> string option \<Rightarrow>
   evidence_db \<Rightarrow> py_error + typed_receipt \<times> evidence_db" where
  "put_typed sha scan now ob prov trust_opt fresh_opt recovery expires pinned actor observed db =
     bindE (valueE (to_universal sha ob prov trust_opt fresh_opt recovery)) (\<lambda>item.
     bindE (put_item sha scan now item expires pinned actor observed db) (\<lambda>(receipt, db').
     Inr (\<lparr>ty_receipt = receipt, ty_type = to_type ob, ty_repr = to_repr ob, ty_sha = object_sha256 sha ob\<rparr>, db')))"

definition get_typed :: "(pyval \<Rightarrow> string) \<Rightarrow> string \<Rightarrow> evidence_db \<Rightarrow> py_error + typed_object option" where
  "get_typed sha item_id db =
     bindE (get_item sha item_id db) (\<lambda>r. case r of
       None \<Rightarrow> Inr None
     | Some item \<Rightarrow> bindE (from_universal sha item) (\<lambda>ob. Inr (Some ob)))"

definition require_typed :: "(pyval \<Rightarrow> string) \<Rightarrow> string \<Rightarrow> evidence_db \<Rightarrow> py_error + typed_object" where
  "require_typed sha item_id db =
     bindE (get_typed sha item_id db) (\<lambda>r. case r of None \<Rightarrow> Inl (KeyError item_id) | Some ob \<Rightarrow> Inr ob)"

definition get_universal :: "(pyval \<Rightarrow> string) \<Rightarrow> string \<Rightarrow> evidence_db \<Rightarrow> py_error + context_item option" where
  "get_universal sha item_id db = get_item sha item_id db"

definition typed_lineage :: "string \<Rightarrow> string \<Rightarrow> evidence_db \<Rightarrow> py_error + (string \<times> string \<times> string) list" where
  "typed_lineage item_id direction db = lineage item_id direction db"

definition typed_verify_item :: "(pyval \<Rightarrow> string) \<Rightarrow> string \<Rightarrow> evidence_db \<Rightarrow> py_error + bool \<times> context_item" where
  "typed_verify_item sha item_id db = verify_item sha item_id db"

definition typed_stats :: "evidence_db \<Rightarrow> int \<times> int \<times> int \<times> int" where
  "typed_stats db = evidence_stats db"

section \<open>Constructed objects\<close>

text \<open>An object that came out of its constructor; a Python \<open>dict\<close> has distinct keys.\<close>

definition made_typed :: "typed_object \<Rightarrow> bool" where
  "made_typed ob \<longleftrightarrow> make_typed ob = Inr ob \<and> distinct (map fst (to_payload ob)) \<and> distinct (map fst (to_meta ob))"

lemma clone_fields_idem [simp]: "clone_fields (clone_fields kvs) = clone_fields kvs"
  by (simp add: clone_fields_def canon_fields_sort_key)

lemma canon_dict_clone: "canon (PyDict kvs) = PyDict (clone_fields kvs)"
  by (simp add: clone_fields_def)

lemma validate_payload_Inr:
  "validate_payload ty p = Inr q \<longleftrightarrow> q = clone_fields p \<and>
     (\<exists>req. map_of type_specs ty = Some req \<and> set req \<subseteq> set (map fst (clone_fields p)))"
  by (auto simp: validate_payload_def Let_def filter_empty_conv split: option.splits)

lemma make_typed_Inr:
  "make_typed ob = Inr t \<longleftrightarrow> to_schema ob = 1 \<and> to_repr ob \<in> set representations \<and>
     t = ob\<lparr>to_payload := clone_fields (to_payload ob), to_meta := clone_fields (to_meta ob)\<rparr> \<and>
     (\<exists>req. map_of type_specs (to_type ob) = Some req \<and> set req \<subseteq> set (map fst (clone_fields (to_payload ob))))"
  by (auto simp: make_typed_def validate_payload_Inr)

lemma made_typed_fields:
  assumes "made_typed ob"
  shows "to_schema ob = 1" and "to_repr ob \<in> set representations"
    and "clone_fields (to_payload ob) = to_payload ob" and "clone_fields (to_meta ob) = to_meta ob"
    and "\<exists>req. map_of type_specs (to_type ob) = Some req"
proof -
  note r = assms[unfolded made_typed_def make_typed_Inr]
  show "to_schema ob = 1" "to_repr ob \<in> set representations" "\<exists>req. map_of type_specs (to_type ob) = Some req"
    using r by auto
  have ob: "ob = ob\<lparr>to_payload := clone_fields (to_payload ob), to_meta := clone_fields (to_meta ob)\<rparr>" using r by blast
  show "clone_fields (to_payload ob) = to_payload ob" using arg_cong[OF ob, of to_payload] by simp
  show "clone_fields (to_meta ob) = to_meta ob" using arg_cong[OF ob, of to_meta] by simp
qed

text \<open>The canonical content reads back as the object.\<close>

lemma typed_from_canon:
  assumes "made_typed ob"
  shows "typed_from_dict (canon (typed_to_dict ob)) = Inr ob"
proof -
  note f = made_typed_fields[OF assms]
  have mk: "make_typed ob = Inr ob" using assms by (simp add: made_typed_def)
  define body where "body = clone_fields (typed_fields ob)"
  have get: "map_of body k = map_option canon (map_of (typed_fields ob) k)" for k
    unfolding body_def clone_fields_def by (rule map_of_canon) (simp add: typed_fields_def)
  have content: "canon (typed_to_dict ob) = PyDict body"
    by (simp only: typed_to_dict_def canon_dict_clone body_def)
  have vals: "map_of body ''schema_version'' = Some (PyInt 1)"
    "map_of body ''object_type'' = Some (PyStr (to_type ob))"
    "map_of body ''representation'' = Some (PyStr (to_repr ob))"
    "map_of body ''payload'' = Some (PyDict (to_payload ob))"
    "map_of body ''metadata'' = Some (PyDict (to_meta ob))"
    unfolding get by (simp_all add: typed_fields_def f canon_dict_clone del: canon.simps(8))
  have ob: "\<lparr>to_type = to_type ob, to_repr = to_repr ob, to_payload = to_payload ob, to_meta = to_meta ob, to_schema = 1\<rparr> = ob"
    using f(1) by simp
  have meta: "(if py_truth (PyDict (to_meta ob)) then py_dict (PyDict (to_meta ob)) else Inr []) = Inr (to_meta ob)"
    by (simp add: py_truth_def py_dict_def)
  show ?thesis
    unfolding content typed_from_dict_def
    using ob mk meta by (simp add: py_dict_def[of "PyDict body"] vals field_def py_int_def py_str_def py_dict_def)
qed

lemma typed_kind:
  assumes "map_of type_specs ty = Some req"
  shows "py_strip (''typed-context:'' @ ty) = ''typed-context:'' @ ty"
proof -
  have "ty \<in> set (map fst type_specs)" using map_of_SomeD[OF assms] by force
  moreover have "\<forall>t \<in> set (map fst type_specs). py_strip (''typed-context:'' @ t) = ''typed-context:'' @ t"
    by code_simp
  ultimately show ?thesis by blast
qed

text \<open>Packing an object and unpacking the item gives the object back.\<close>

lemma to_universal_made:
  assumes "sha_shape sha" and "made_typed ob"
  obtains i where "to_universal sha ob prov t f rs = Inr i" and "from_universal sha i = Inr ob"
    and "make_item sha i = Inr i" and "ci_prov i = prov" and "ci_recovery i = rs"
    and "ci_trust i = (case t of None \<Rightarrow> default_trust | Some x \<Rightarrow> x)"
    and "ci_fresh i = (case f of None \<Rightarrow> default_freshness | Some x \<Rightarrow> x)"
proof -
  note ob = made_typed_fields[OF assms(2)]
  have kind: "py_strip (''typed-context:'' @ to_type ob) = ''typed-context:'' @ to_type ob"
    using ob(5) typed_kind by blast
  then have nonblank: "py_strip (''typed-context:'' @ to_type ob) \<noteq> ''''" by simp
  let ?md = "[(''typed_context_schema_version'', PyInt (to_schema ob)),
        (''typed_object_type'', PyStr (to_type ob)), (''typed_object_sha256'', PyStr (object_sha256 sha ob))]"
  obtain i where i: "to_universal sha ob prov t f rs = Inr i" "make_item sha i = Inr i"
      "ci_kind i = ''typed-context:'' @ to_type ob" "ci_repr i = to_repr ob"
      "ci_content i = canon (typed_to_dict ob)" "ci_prov i = prov" "ci_recovery i = rs"
      "ci_trust i = (case t of None \<Rightarrow> default_trust | Some x \<Rightarrow> x)"
      "ci_fresh i = (case f of None \<Rightarrow> default_freshness | Some x \<Rightarrow> x)" "ci_meta i = canon (PyDict ?md)"
    unfolding to_universal_def using build_item_works[OF assms(1) nonblank ob(2)] unfolding kind
    by (metis (no_types, lifting) option.simps(5))
  have meta: "meta_get i k = map_option canon (map_of ?md k)" for k
    unfolding meta_get_def i(10) canon.simps(8) pyval.case by (rule map_of_canon) simp
  have "verify_integrity sha i" using i(2) by (simp add: make_item_Inr)
  then have "from_universal sha i = Inr ob"
    unfolding from_universal_def i(3-5) typed_from_canon[OF assms(2)]
    by (simp add: meta typed_prefix_def py_eq_int_def)
  then show thesis using that i by blast
qed

section \<open>Properties\<close>

text \<open>
  Typed objects survive the store: after an object has been put on any reachable database,
  the identifier of its receipt reads back that object, decoded and checked again, and every
  other identifier reads as before.
\<close>

theorem typed_put_get:
  assumes "sha_shape sha" and "reaches (\<lambda>db. db = empty_evidence) (evidence_step sha) db" and "made_typed ob"
    and "make_provenance prov = Inr prov" and "make_trust (case t of None \<Rightarrow> default_trust | Some x \<Rightarrow> x) =
      Inr (case t of None \<Rightarrow> default_trust | Some x \<Rightarrow> x)"
    and "make_freshness (case f of None \<Rightarrow> default_freshness | Some x \<Rightarrow> x) =
      Inr (case f of None \<Rightarrow> default_freshness | Some x \<Rightarrow> x)"
    and "list_all (\<lambda>h. make_recovery h = Inr h) rs"
    and put: "put_typed sha scan now ob prov t f rs expires pinned actor observed db = Inr (receipt, db')"
  shows "get_typed sha (pt_item (ty_receipt receipt)) db' = Inr (Some ob) \<and>
    (\<forall>k. k \<noteq> pt_item (ty_receipt receipt) \<longrightarrow> get_typed sha k db' = get_typed sha k db)"
proof -
  obtain i where i: "to_universal sha ob prov t f rs = Inr i" "from_universal sha i = Inr ob"
      "make_item sha i = Inr i" "ci_prov i = prov" "ci_recovery i = rs"
      "ci_trust i = (case t of None \<Rightarrow> default_trust | Some x \<Rightarrow> x)"
      "ci_fresh i = (case f of None \<Rightarrow> default_freshness | Some x \<Rightarrow> x)"
    by (rule to_universal_made[OF assms(1,3), of prov t f rs])
  have made: "made_item sha i" unfolding made_item_def i(4-7) using assms(4-7) i(3) by simp
  note wf = evidence_runs.reachable_inv[OF assms(2)]
  obtain r where r: "put_item sha scan now i expires pinned actor observed db = Inr (r, db')" "ty_receipt receipt = r"
    using put i(1) by (auto simp: put_typed_def)
  have id: "pt_item r = ci_id i"
    using r(1) by (auto simp: put_item_def Let_def case_prod_beta split: if_splits)
  have sp: "store_put sha scan now expires pinned actor observed i db = Inr db'"
    using r(1) by (auto simp: store_put_Inr)
  note evidence_items.get_put[OF wf made sp] and other = evidence_items.get_other[OF wf made sp]
  then show ?thesis using i(2) by (simp add: get_typed_def r(2) id)
qed

section \<open>A concrete object\<close>

definition demo_typed :: typed_object where
  "demo_typed = \<lparr>to_type = ''TraceSet'', to_repr = ''exact'', to_payload = [(''traces'', PyList [])],
     to_meta = [], to_schema = 1\<rparr>"

theorem typed_put_get_witness:
  "\<exists>receipt db'. put_typed flat_digest demo_scan ''t1'' demo_typed demo_provenance None None [] None False ''a'' None
       empty_evidence = Inr (receipt, db') \<and>
     get_typed flat_digest (pt_item (ty_receipt receipt)) db' = Inr (Some demo_typed)"
proof -
  have start: "reaches (\<lambda>db. db = empty_evidence) (evidence_step flat_digest) empty_evidence"
    by (rule reach_init) simp
  have "\<not> isl (put_typed flat_digest demo_scan ''t1'' demo_typed demo_provenance None None [] None False ''a'' None
      empty_evidence)" by code_simp
  then obtain p where p: "put_typed flat_digest demo_scan ''t1'' demo_typed demo_provenance None None [] None False
      ''a'' None empty_evidence = Inr p" by (rule not_islE)
  then have eq: "put_typed flat_digest demo_scan ''t1'' demo_typed demo_provenance None None [] None False ''a'' None
      empty_evidence = Inr (fst p, snd p)" by simp
  have made: "made_typed demo_typed" by code_simp
  have prov: "make_provenance demo_provenance = Inr demo_provenance" by code_simp
  have tr: "make_trust (case None of None \<Rightarrow> default_trust | Some x \<Rightarrow> x) =
      Inr (case None of None \<Rightarrow> default_trust | Some x \<Rightarrow> x)" by code_simp
  have fr: "make_freshness (case None of None \<Rightarrow> default_freshness | Some x \<Rightarrow> x) =
      Inr (case None of None \<Rightarrow> default_freshness | Some x \<Rightarrow> x)" by code_simp
  have "get_typed flat_digest (pt_item (ty_receipt (fst p))) (snd p) = Inr (Some demo_typed)"
    using typed_put_get[OF flat_digest_shape start made prov tr fr _ eq] by simp
  then show ?thesis using eq by blast
qed

end
