(* ===== verification/NamespaceAddress.thy ===== *)
theory NamespaceAddress
  imports Prelude
begin

text \<open>
  The \<open>syntavra://\<close> addresses of \<open>syntavra_runtime/context_namespace.py\<close>: construction, printing
  with percent encoding, and parsing with \<open>urlsplit\<close> followed by the test that the address prints
  back as the text it was read from.  Of \<open>urllib.parse\<close> the model has what the code calls:
  \<open>quote\<close>, \<open>unquote\<close> and the parts of \<open>urlsplit\<close>; a host in brackets is refused at once (no
  root of the namespace has one), and percent-encoded bytes that are not the UTF-8 of Latin-1 text
  are refused when they are read.
\<close>

section \<open>Percent encoding\<close>

fun utf8_decode :: "nat list \<Rightarrow> string option" where
  "utf8_decode [] = Some []"
| "utf8_decode (b # bs) =
     (if b < 128 then map_option ((#) (char_of b)) (utf8_decode bs)
      else case bs of
        [] \<Rightarrow> None
      | c # cs \<Rightarrow>
          if (b = 194 \<or> b = 195) \<and> 128 \<le> c \<and> c < 192
          then map_option ((#) (char_of ((b - 192) * 64 + (c - 128)))) (utf8_decode cs)
          else None)"

definition upper_hex :: string where
  "upper_hex = ''0123456789ABCDEF''"

definition hex_char :: "nat \<Rightarrow> char" where
  "hex_char n = upper_hex ! (n mod 16)"

definition hex_value :: "char \<Rightarrow> nat option" where
  "hex_value c =
     (let n = code_of c in
      if 48 \<le> n \<and> n \<le> 57 then Some (n - 48)
      else if 65 \<le> n \<and> n \<le> 70 then Some (n - 55)
      else if 97 \<le> n \<and> n \<le> 102 then Some (n - 87) else None)"

definition url_safe :: "nat \<Rightarrow> bool" where
  "url_safe b \<longleftrightarrow> (48 \<le> b \<and> b \<le> 57) \<or> (65 \<le> b \<and> b \<le> 90) \<or> (97 \<le> b \<and> b \<le> 122) \<or> b \<in> {45, 46, 95, 126}"

definition quote_byte :: "nat \<Rightarrow> string" where
  "quote_byte b = (if url_safe b then [char_of b] else [CHR 0x25, hex_char (b div 16), hex_char b])"

definition quote :: "string \<Rightarrow> string" where
  "quote s = concat (map quote_byte (utf8_encode s))"

fun unquote_bytes :: "string \<Rightarrow> nat list" where
  "unquote_bytes (c # x # y # s) =
     (if c = CHR ''%'' \<and> hex_value x \<noteq> None \<and> hex_value y \<noteq> None
      then (16 * the (hex_value x) + the (hex_value y)) # unquote_bytes s
      else code_of c # unquote_bytes (x # y # s))"
| "unquote_bytes (c # s) = code_of c # unquote_bytes s"
| "unquote_bytes [] = []"

text \<open>\<open>unquote\<close> decodes each run of ASCII characters and copies the others.\<close>

function unquote :: "string \<Rightarrow> string option" where
  "unquote [] = Some []"
| "unquote (c # s) =
     (if code_of c < 128
      then (case utf8_decode (unquote_bytes (takeWhile (\<lambda>x. code_of x < 128) (c # s))) of
              None \<Rightarrow> None
            | Some t \<Rightarrow> map_option ((@) t) (unquote (dropWhile (\<lambda>x. code_of x < 128) (c # s))))
      else map_option ((#) c) (unquote s))"
  by pat_completeness auto
termination by (relation "measure length") (auto simp: le_imp_less_Suc length_dropWhile_le)

section \<open>Splitting a URL\<close>

definition before :: "char \<Rightarrow> string \<Rightarrow> string" where
  "before c s = takeWhile (\<lambda>x. x \<noteq> c) s"

definition after :: "char \<Rightarrow> string \<Rightarrow> string" where
  "after c s = drop 1 (dropWhile (\<lambda>x. x \<noteq> c) s)"

record split_url =
  su_scheme :: string
  su_netloc :: string
  su_path :: string
  su_query :: string
  su_fragment :: string

definition ascii_alpha :: "char \<Rightarrow> bool" where
  "ascii_alpha c \<longleftrightarrow> (let n = code_of c in (65 \<le> n \<and> n \<le> 90) \<or> (97 \<le> n \<and> n \<le> 122))"

definition scheme_char :: "char \<Rightarrow> bool" where
  "scheme_char c \<longleftrightarrow> ascii_alpha c \<or> py_digit c \<or> c \<in> set ''+-.''"

definition split_scheme :: "string \<Rightarrow> string \<times> string" where
  "split_scheme url =
     (let head = before (CHR '':'') url in
      if CHR '':'' \<in> set url \<and> head \<noteq> '''' \<and> ascii_alpha (hd head) \<and> list_all scheme_char head
      then (py_lower head, after (CHR '':'') url) else ('''', url))"

definition urlsplit :: "string \<Rightarrow> string + split_url" where
  "urlsplit text =
     (let url = filter (\<lambda>c. code_of c \<notin> {9, 10, 13}) (dropWhile (\<lambda>c. code_of c \<le> 32) text);
          (scheme, rest) = split_scheme url;
          has_netloc = (take 2 rest = ''//'');
          netloc = (if has_netloc then takeWhile (\<lambda>c. c \<notin> set ''/?#'') (drop 2 rest) else '''');
          tail = (if has_netloc then dropWhile (\<lambda>c. c \<notin> set ''/?#'') (drop 2 rest) else rest);
          fragment = after (CHR ''#'') tail;
          body = before (CHR ''#'') tail
      in if CHR ''['' \<in> set netloc \<or> CHR '']'' \<in> set netloc then Inl ''Invalid IPv6 URL''
         else Inr \<lparr>su_scheme = scheme, su_netloc = netloc, su_path = before (CHR ''?'') body,
           su_query = after (CHR ''?'') body, su_fragment = fragment\<rparr>)"

text \<open>The parts of \<open>netloc\<close>: user information up to the last \<open>@\<close>, then host and port.\<close>

definition user_info :: "split_url \<Rightarrow> string" where
  "user_info u = rev (after (CHR ''@'') (rev (su_netloc u)))"

definition host_info :: "split_url \<Rightarrow> string" where
  "host_info u = rev (before (CHR ''@'') (rev (su_netloc u)))"

definition su_username :: "split_url \<Rightarrow> string" where
  "su_username u = before (CHR '':'') (user_info u)"

definition su_password :: "split_url \<Rightarrow> string" where
  "su_password u = after (CHR '':'') (user_info u)"

definition su_hostname :: "split_url \<Rightarrow> string" where
  "su_hostname u = (let host = before (CHR '':'') (host_info u) in
     py_lower (before (CHR ''%'') host) @ dropWhile (\<lambda>c. c \<noteq> CHR ''%'') host)"

definition su_port :: "split_url \<Rightarrow> string + int" where
  "su_port u = (let port = after (CHR '':'') (host_info u) in
     if CHR '':'' \<notin> set (host_info u) \<or> port = '''' then Inr 0
     else if \<not> list_all py_digit port then Inl (''Port could not be cast to integer value as '' @ py_repr port)
     else if digits_value port > 65535 then Inl ''Port out of range 0-65535''
     else Inr (digits_value port))"

section \<open>Addresses\<close>

definition ns_scheme :: string where
  "ns_scheme = ''syntavra''"

definition ns_roots :: "string list" where
  "ns_roots = [''repo'', ''evidence'', ''memory'', ''task'', ''tool'', ''artifact'', ''context'']"

record ns_address =
  na_root :: string
  na_segments :: "string list"

definition make_segment :: "string \<Rightarrow> string + string" where
  "make_segment raw =
     (let segment = py_strip raw in
      if segment = '''' \<or> segment \<in> {''.'', ''..''} then Inl ''namespace segments must be non-empty and traversal-free''
      else if CHR ''/'' \<in> set segment \<or> CHR 0x5C \<in> set segment \<or> CHR 0x00 \<in> set segment
      then Inl (''namespace segment is not canonical: '' @ py_repr segment)
      else Inr segment)"

definition make_address :: "string \<Rightarrow> string list \<Rightarrow> string + ns_address" where
  "make_address host segments =
     (let r = py_casefold (py_strip host) in
      if r \<notin> set ns_roots then Inl (''unknown syntavra namespace root: '' @ py_repr host)
      else bindE (collect make_segment segments) (\<lambda>normalized. Inr \<lparr>na_root = r, na_segments = normalized\<rparr>))"

definition address_uri :: "ns_address \<Rightarrow> string" where
  "address_uri a =
     (let suffix = join ''/'' (map quote (na_segments a)) in
      ns_scheme @ ''://'' @ na_root a @ (if suffix \<noteq> '''' then ''/'' @ suffix else ''''))"

definition rstrip_slash :: "string \<Rightarrow> string" where
  "rstrip_slash s = rev (dropWhile (\<lambda>c. c = CHR ''/'') (rev s))"

definition parse_address :: "string \<Rightarrow> string + ns_address" where
  "parse_address uri =
     bindE (urlsplit uri) (\<lambda>parsed.
     if su_scheme parsed \<noteq> ns_scheme then Inl ''context namespace must use syntavra://''
     else
       let banned = ''context namespace URI cannot contain query, fragment, credentials, or port'' in
       bindE (if su_query parsed \<noteq> '''' \<or> su_fragment parsed \<noteq> '''' \<or> su_username parsed \<noteq> '''' \<or> su_password parsed \<noteq> ''''
              then Inl banned
              else bindE (su_port parsed) (\<lambda>port. if port \<noteq> 0 then Inl banned else Inr ())) (\<lambda>_.
       let host = (if su_hostname parsed \<noteq> '''' then su_hostname parsed else su_netloc parsed);
           raw_segments = filter (\<lambda>part. part \<noteq> '''') (split_char (CHR ''/'') (su_path parsed))
       in bindE (collect (\<lambda>part. case unquote part of
              None \<Rightarrow> Inl ''context namespace URI is not canonical'' | Some s \<Rightarrow> Inr s) raw_segments) (\<lambda>decoded.
          bindE (make_address host decoded) (\<lambda>candidate.
          if address_uri candidate \<noteq> rstrip_slash uri then Inl ''context namespace URI is not canonical''
          else Inr candidate))))"

section \<open>Addresses of repository parts\<close>

definition path_parts :: "string \<Rightarrow> string list" where
  "path_parts path = filter (\<lambda>part. part \<noteq> '''')
     (split_char (CHR ''/'') (map (\<lambda>c. if c = CHR 0x5C then CHR ''/'' else c) path))"

definition traverses :: "string list \<Rightarrow> bool" where
  "traverses parts \<longleftrightarrow> (\<exists>p \<in> set parts. p = ''.'' \<or> p = ''..'')"

definition repository_address ::
  "string \<Rightarrow> string option \<Rightarrow> string option \<Rightarrow> string option \<Rightarrow> (int \<times> int) option \<Rightarrow> string + ns_address" where
  "repository_address repository directory file symbol lines =
     (let repository_id = py_strip repository;
          given = (\<lambda>x. case x of None \<Rightarrow> False | Some s \<Rightarrow> s \<noteq> '''');
          directory_parts = (if given directory then path_parts (the directory) else []);
          file_parts = (if given file then path_parts (the file) else []);
          stripped = (if directory_parts \<noteq> [] \<and> take (length directory_parts) file_parts = directory_parts
            then drop (length directory_parts) file_parts else file_parts)
      in bindE (checkE
        [if repository_id = '''' then Some ''repository namespace requires repository identity'' else None,
         if traverses directory_parts then Some ''repository directory cannot traverse parents'' else None,
         if given file \<and> traverses file_parts then Some ''repository file cannot traverse parents'' else None,
         if given file \<and> stripped = [] then Some ''repository file path cannot be empty'' else None,
         if \<not> given file \<and> (symbol \<noteq> None \<or> lines \<noteq> None) then Some ''symbol/lines require a repository file'' else None,
         if symbol \<noteq> None \<and> py_strip (the symbol) = '''' then Some ''repository symbol cannot be empty'' else None,
         if lines \<noteq> None \<and> symbol = None then Some ''line range requires a symbol address'' else None,
         if lines \<noteq> None \<and> (fst (the lines) < 1 \<or> snd (the lines) < fst (the lines))
         then Some ''invalid repository line range'' else None] ())
       (\<lambda>_. make_address ''repo''
         ([repository_id] @ (if given directory then ''dir'' # directory_parts else []) @
          (if given file then ''file'' # stripped else []) @
          (case symbol of None \<Rightarrow> [] | Some s \<Rightarrow> [''symbol'', py_strip s]) @
          (case lines of None \<Rightarrow> []
           | Some (first, final) \<Rightarrow> [''lines'', int_str first @ ''-'' @ int_str final]))))"

section \<open>Encoding and decoding\<close>

lemma code_of_less [simp]: "code_of c < 256"
  by (simp add: code_of_def)

lemma char_of_code [simp]: "char_of (code_of c) = c"
  by (simp add: code_of_def)

lemma utf8_decode_encode [simp]: "utf8_decode (utf8_encode s) = Some s"
proof (induction s)
  case (Cons c s)
  have enc: "utf8_encode (c # s) = (if code_of c < 128 then [code_of c]
      else [192 + code_of c div 64, 128 + code_of c mod 64]) @ utf8_encode s"
    by (simp add: utf8_encode_def)
  show ?case
  proof (cases "code_of c < 128")
    case True
    then show ?thesis using Cons by (simp add: enc)
  next
    case False
    then have "code_of c div 64 = 2 \<or> code_of c div 64 = 3" using code_of_less[of c] by linarith
    moreover have "(code_of c div 64) * 64 + code_of c mod 64 = code_of c" by simp
    ultimately show ?thesis using False Cons by (auto simp: enc)
  qed
qed (simp add: utf8_encode_def)

lemma utf8_encode_less: "b \<in> set (utf8_encode s) \<Longrightarrow> b < 256"
proof -
  have "192 + code_of c div 64 < 256" "128 + code_of c mod 64 < 256" for c
    using code_of_less[of c] by (linarith, simp add: add.commute less_diff_conv2 flip: less_diff_conv)
  then show "b \<in> set (utf8_encode s) \<Longrightarrow> b < 256" by (auto simp: utf8_encode_def split: if_splits)
qed

lemma hex_value_char: "hex_value (hex_char n) = Some (n mod 16)"
proof -
  have "\<forall>k \<in> set [0..<16]. hex_value (upper_hex ! k) = Some k" by code_simp
  then show ?thesis by (simp add: hex_char_def)
qed

lemma unquote_bytes_plain: "c \<noteq> CHR 0x25 \<Longrightarrow> unquote_bytes (c # s) = code_of c # unquote_bytes s"
  by (cases "c # s" rule: unquote_bytes.cases) auto

lemma unquote_quote_byte:
  assumes "b < 256"
  shows "unquote_bytes (quote_byte b @ s) = b # unquote_bytes s"
proof (cases "url_safe b")
  case True
  have code: "code_of (char_of b) = b" using assms by (simp add: code_of_def)
  moreover have "\<not> url_safe (code_of CHR 0x25)" by code_simp
  ultimately have "char_of b \<noteq> CHR 0x25" using True by metis
  then show ?thesis using True code by (simp add: quote_byte_def unquote_bytes_plain)
next
  case False
  have "16 * (b div 16 mod 16) + b mod 16 = b" using assms by simp
  then show ?thesis using False by (simp add: quote_byte_def hex_value_char)
qed

lemma unquote_quote_bytes:
  "(\<forall>b \<in> set bs. b < 256) \<Longrightarrow> unquote_bytes (concat (map quote_byte bs)) = bs"
  by (induction bs) (auto simp: unquote_quote_byte)

text \<open>The characters of a printed address: unreserved ones and the percent sign.\<close>

definition url_char :: "char \<Rightarrow> bool" where
  "url_char c \<longleftrightarrow> url_safe (code_of c) \<or> c = CHR 0x25"

lemma hex_char_safe: "url_char (hex_char n)"
proof -
  have "\<forall>k \<in> set [0..<16]. url_char (upper_hex ! k)" by code_simp
  then show ?thesis by (simp add: hex_char_def)
qed

lemma quote_chars: "list_all url_char (quote s)"
proof -
  have "list_all url_char (quote_byte b)" if "b < 256" for b
    using that by (auto simp: quote_byte_def url_char_def[of "char_of b"] code_of_def hex_char_safe
        url_char_def[of "CHR 0x25"])
  then show ?thesis using utf8_encode_less by (auto simp: quote_def list_all_iff)
qed

lemma url_char_facts:
  assumes "url_char c"
  shows "code_of c < 128" and "c \<notin> set ''/?#:@[]''" and "32 < code_of c"
proof -
  show "code_of c < 128" "32 < code_of c" using assms by (auto simp: url_char_def url_safe_def code_of_def)
  have "\<not> url_char x" if "x \<in> set ''/?#:@[]''" for x
    using that by (auto simp: url_char_def url_safe_def code_of_def)
  then show "c \<notin> set ''/?#:@[]''" using assms by blast
qed

lemma quote_eq_Nil [simp]: "quote s = '''' \<longleftrightarrow> s = ''''"
proof (cases s)
  case (Cons c cs)
  have "quote_byte b \<noteq> ''''" for b by (simp add: quote_byte_def)
  moreover have "utf8_encode s \<noteq> []" by (simp add: Cons utf8_encode_def)
  then obtain b bs where "utf8_encode s = b # bs" by (cases "utf8_encode s") auto
  ultimately show ?thesis using Cons by (simp add: quote_def)
qed (simp add: quote_def utf8_encode_def)

lemma unquote_quote: "unquote (quote s) = Some s"
proof (cases s)
  case (Cons c cs)
  have ascii: "takeWhile (\<lambda>x. code_of x < 128) (quote s) = quote s"
    "dropWhile (\<lambda>x. code_of x < 128) (quote s) = []"
    using quote_chars[of s] url_char_facts(1) by (auto simp: list_all_iff takeWhile_eq_all_conv dropWhile_eq_Nil_conv)
  obtain q qs where q: "quote s = q # qs" using Cons by (cases "quote s") auto
  then have "code_of q < 128" using quote_chars[of s] url_char_facts(1) by simp
  moreover have "unquote_bytes (quote s) = utf8_encode s"
    unfolding quote_def by (rule unquote_quote_bytes) (use utf8_encode_less in blast)
  ultimately show ?thesis using ascii unfolding q unquote.simps(2) by (simp only: if_True) simp
qed (simp add: quote_def utf8_encode_def)

section \<open>Splitting a printed address\<close>

lemma before_none: "c \<notin> set s \<Longrightarrow> before c s = s"
  and after_none: "c \<notin> set s \<Longrightarrow> after c s = ''''"
proof -
  assume "c \<notin> set s"
  then have "takeWhile (\<lambda>x. x \<noteq> c) s = s" "dropWhile (\<lambda>x. x \<noteq> c) s = []"
    by (induction s) auto
  then show "before c s = s" "after c s = ''''" unfolding before_def after_def by (simp_all only: drop_Nil)
qed

definition path_char :: "char \<Rightarrow> bool" where
  "path_char c \<longleftrightarrow> url_char c \<or> c = CHR ''/''"

lemma path_char_facts:
  assumes "path_char c"
  shows "c \<notin> set ''?#@[]:''" and "code_of c \<notin> {9, 10, 13}"
  using url_char_facts[of c] assms by (auto simp: path_char_def code_of_def)

lemma root_facts:
  assumes "r \<in> set ns_roots"
  shows "py_casefold (py_strip r) = r" and "r \<noteq> ''''" and "list_all (\<lambda>c. c \<notin> set ''/?#@[]:%'') r"
    and "py_lower r = r" and "list_all (\<lambda>c. code_of c \<notin> {9, 10, 13}) r" and "last r \<noteq> CHR ''/''"
proof -
  have "\<forall>r \<in> set ns_roots. py_casefold (py_strip r) = r \<and> r \<noteq> '''' \<and> list_all (\<lambda>c. c \<notin> set ''/?#@[]:%'') r \<and>
      py_lower r = r \<and> list_all (\<lambda>c. code_of c \<notin> {9, 10, 13}) r \<and> last r \<noteq> CHR ''/''" by code_simp
  then show "py_casefold (py_strip r) = r" "r \<noteq> ''''" "list_all (\<lambda>c. c \<notin> set ''/?#@[]:%'') r"
    "py_lower r = r" "list_all (\<lambda>c. code_of c \<notin> {9, 10, 13}) r" "last r \<noteq> CHR ''/''"
    using assms by blast+
qed

lemma urlsplit_printed:
  assumes r: "r \<in> set ns_roots" and p: "p = '''' \<or> hd p = CHR ''/''" and chars: "list_all path_char p"
  shows "urlsplit (''syntavra://'' @ r @ p) =
    Inr \<lparr>su_scheme = ''syntavra'', su_netloc = r, su_path = p, su_query = '''', su_fragment = ''''\<rparr>"
proof -
  note root = root_facts[OF r]
  have clean: "filter (\<lambda>c. code_of c \<notin> {9, 10, 13}) (r @ p) = r @ p"
    using root(5) chars path_char_facts(2) by (auto simp: list_all_iff filter_id_conv)
  have head: "dropWhile (\<lambda>c. code_of c \<le> 32) (''syntavra://'' @ r @ p) = ''syntavra://'' @ r @ p"
    by (simp add: code_of_def)
  have "filter (\<lambda>c. code_of c \<notin> {9, 10, 13}) ''syntavra://'' = ''syntavra://''" by code_simp
  then have url: "filter (\<lambda>c. code_of c \<notin> {9, 10, 13}) (dropWhile (\<lambda>c. code_of c \<le> 32) (''syntavra://'' @ r @ p))
      = ''syntavra://'' @ r @ p" unfolding head filter_append[of _ "''syntavra://''"] clean by (simp only:)
  have before: "before (CHR '':'') (''syntavra://'' @ r @ p) = ''syntavra''"
    and after: "after (CHR '':'') (''syntavra://'' @ r @ p) = ''//'' @ r @ p"
    by (simp_all add: before_def after_def)
  have "list_all scheme_char ''syntavra''" "ascii_alpha (hd ''syntavra'')" "py_lower ''syntavra'' = ''syntavra''"
    by code_simp+
  then have scheme: "split_scheme (''syntavra://'' @ r @ p) = (''syntavra'', ''//'' @ r @ p)"
    unfolding split_scheme_def before after Let_def by simp
  have all: "\<forall>c \<in> set r. c \<notin> set ''/?#''" using root(3) by (auto simp: list_all_iff)
  have netloc: "takeWhile (\<lambda>c. c \<notin> set ''/?#'') (r @ p) = r" "dropWhile (\<lambda>c. c \<notin> set ''/?#'') (r @ p) = p"
    using all p by (cases p; simp)+
  have "CHR ''['' \<notin> set r" "CHR '']'' \<notin> set r" using root(3) by (auto simp: list_all_iff)
  moreover have "CHR ''#'' \<notin> set p" "CHR ''?'' \<notin> set p"
    using chars path_char_facts(1) by (auto simp: list_all_iff)
  moreover have "take 2 (''//'' @ r @ p) = ''//''" "drop 2 (''//'' @ r @ p) = r @ p" by simp_all
  ultimately show ?thesis
    unfolding urlsplit_def Let_def url scheme prod.case
    by (simp only: netloc if_True if_False refl before_none after_none simp_thms)
qed

lemma host_of_root:
  assumes "r \<in> set ns_roots" and "su_netloc u = r"
  shows "su_username u = ''''" and "su_password u = ''''" and "su_port u = Inr 0" and "su_hostname u = r"
proof -
  note root = root_facts[OF assms(1)]
  have no: "CHR ''@'' \<notin> set (rev r)" "CHR '':'' \<notin> set r" "CHR ''%'' \<notin> set r"
    using root(3) by (auto simp: list_all_iff)
  have info: "user_info u = ''''" "host_info u = r"
    unfolding user_info_def host_info_def assms(2) using no(1) by (simp_all add: before_none after_none)
  show "su_username u = ''''" "su_password u = ''''"
    by (simp_all add: su_username_def su_password_def info before_def after_def)
  show "su_port u = Inr 0" using no(2) by (simp add: su_port_def info)
  have "dropWhile (\<lambda>c. c \<noteq> CHR ''%'') r = ''''" using no(3) by (auto simp: dropWhile_eq_Nil_conv)
  then show "su_hostname u = r"
    unfolding su_hostname_def Let_def info using no(2,3) root(4) by (simp add: before_none)
qed

section \<open>Printing and parsing\<close>

text \<open>An address that came out of its constructor.\<close>

definition made_address :: "ns_address \<Rightarrow> bool" where
  "made_address a \<longleftrightarrow> na_root a \<in> set ns_roots \<and> list_all (\<lambda>s. make_segment s = Inr s) (na_segments a)"

lemma make_segment_Inr:
  "make_segment raw = Inr s \<longleftrightarrow> s = py_strip raw \<and> s \<notin> {'''', ''.'', ''..''} \<and>
     CHR ''/'' \<notin> set s \<and> CHR 0x5C \<notin> set s \<and> CHR 0x00 \<notin> set s"
  by (auto simp: make_segment_def Let_def)

lemma make_address_made: "make_address r ss = Inr a \<Longrightarrow> made_address a"
proof -
  assume "make_address r ss = Inr a"
  then have parts: "na_root a \<in> set ns_roots" "list_all2 (\<lambda>x y. make_segment x = Inr y) ss (na_segments a)"
    by (simp_all add: make_address_def Let_def collect_Inr split: if_splits) auto
  have again: "make_segment y = Inr y" if "make_segment x = Inr y" for x y
    using that by (auto simp: make_segment_Inr)
  have "make_segment s = Inr s" if "s \<in> set (na_segments a)" for s
    using list_all2_memR[OF parts(2) that] again by blast
  then show "made_address a" using parts(1) by (simp add: made_address_def list_all_iff)
qed

lemma make_address_again:
  assumes "made_address a"
  shows "make_address (na_root a) (na_segments a) = Inr a"
proof -
  have "collect make_segment (na_segments a) = Inr (na_segments a)"
    using assms unfolding collect_Inr made_address_def by (auto simp: list_all2_same list_all_iff)
  then show ?thesis using assms root_facts(1) by (simp add: make_address_def made_address_def)
qed

lemma parse_printed:
  assumes "made_address a"
  shows "parse_address (address_uri a) = Inr a"
proof -
  let ?qs = "map quote (na_segments a)"
  let ?p = "if ?qs = [] then '''' else ''/'' @ join ''/'' ?qs"
  have r: "na_root a \<in> set ns_roots" using assms by (simp add: made_address_def)
  have segs: "\<forall>s \<in> set (na_segments a). s \<noteq> ''''"
    using assms by (auto simp: made_address_def list_all_iff make_segment_Inr)
  then have qs: "\<forall>q \<in> set ?qs. q \<noteq> '''' \<and> list_all url_char q" using quote_chars by auto
  then have noslash: "\<forall>q \<in> set ?qs. CHR ''/'' \<notin> set q"
    using url_char_facts(2) by (auto simp: list_all_iff)
  have empty: "join ''/'' ?qs = '''' \<longleftrightarrow> ?qs = []" using qs by (auto simp: join_eq_Nil)
  have uri: "address_uri a = ''syntavra://'' @ na_root a @ ?p"
    unfolding address_uri_def Let_def ns_scheme_def empty by simp
  have chars: "list_all path_char ?p"
    using qs set_join[of "CHR ''/''" ?qs] by (auto simp: path_char_def list_all_iff)
  have p: "?p = '''' \<or> hd ?p = CHR ''/''" by simp
  note split = urlsplit_printed[OF r p chars] and host = host_of_root[OF r]
  have parts: "filter (\<lambda>part. part \<noteq> '''') (split_char (CHR ''/'') ?p) = ?qs"
  proof (cases "?qs = []")
    case False
    then have "split_char (CHR ''/'') ?p = '''' # ?qs" using split_join[OF False noslash] by simp
    then show ?thesis using qs by (simp add: filter_id_conv)
  qed simp
  have decoded: "collect (\<lambda>part. case unquote part of None \<Rightarrow> Inl ''context namespace URI is not canonical''
      | Some s \<Rightarrow> Inr s) ?qs = Inr (na_segments a)"
    unfolding collect_Inr list_all2_map1 by (simp add: unquote_quote list_all2_same)
  have "last (address_uri a) \<noteq> CHR ''/''"
  proof (cases "?qs = []")
    case True
    then show ?thesis unfolding uri using root_facts[OF r] by simp
  next
    case False
    have "last ?qs \<in> set ?qs" using False by (rule last_in_set)
    then have "last (last ?qs) \<noteq> CHR ''/''" using noslash qs by (metis last_in_set)
    moreover have "last (join ''/'' ?qs) = last (last ?qs)" by (rule last_join[OF False]) (use qs in blast)
    ultimately show ?thesis unfolding uri using False empty by (simp only: if_False last_appendR append_is_Nil_conv simp_thms)
  qed
  then have strip: "rstrip_slash (address_uri a) = address_uri a"
    unfolding rstrip_slash_def by (cases "address_uri a" rule: rev_cases) auto
  let ?u = "\<lparr>su_scheme = ''syntavra'', su_netloc = na_root a, su_path = ?p, su_query = '''', su_fragment = ''''\<rparr>"
  have "urlsplit (address_uri a) = Inr ?u" using split unfolding uri .
  moreover have "na_root a \<noteq> ''''" using root_facts[OF r] by simp
  ultimately show ?thesis
    using host[of ?u] parts decoded make_address_again[OF assms] strip
    unfolding parse_address_def Let_def by (simp add: ns_scheme_def)
qed

lemma parse_made: "parse_address uri = Inr a \<Longrightarrow> made_address a \<and> address_uri a = rstrip_slash uri"
  by (simp add: parse_address_def Let_def split: if_splits) (auto dest: make_address_made)

section \<open>Property\<close>

text \<open>
  C38. Addresses and their texts are in bijection: parsing the text of a constructed address
  gives the address back, percent encoding included, and whatever parses is the text of its
  address up to trailing slashes.  Canonical URIs are therefore unique keys.
\<close>

theorem address_roundtrip:
  "(made_address a \<longrightarrow> parse_address (address_uri a) = Inr a) \<and>
   (\<forall>uri. parse_address uri = Inr a \<longrightarrow> made_address a \<and> address_uri a = rstrip_slash uri)"
  using parse_printed parse_made by blast

theorem address_roundtrip_witness:
  "parse_address (address_uri \<lparr>na_root = ''repo'', na_segments = [''a b'', [char_of (233::nat)]]\<rparr>) =
   Inr \<lparr>na_root = ''repo'', na_segments = [''a b'', [char_of (233::nat)]]\<rparr>"
proof -
  have "made_address \<lparr>na_root = ''repo'', na_segments = [''a b'', [char_of (233::nat)]]\<rparr>" by code_simp
  then show ?thesis using address_roundtrip by blast
qed

text \<open>What a repository address is built from: nothing in it traverses, and it is well formed.\<close>

lemma repository_address_made:
  assumes "repository_address repository directory file symbol lines = Inr a"
  shows "made_address a \<and> na_root a = ''repo'' \<and> hd (na_segments a) = py_strip repository"
proof -
  obtain ss where ss: "make_address ''repo'' (py_strip repository # ss) = Inr a"
    using assms by (auto simp: repository_address_def Let_def)
  then have "hd (na_segments a) = py_strip repository" "na_root a = py_casefold (py_strip ''repo'')"
    by (auto simp: make_address_def Let_def collect_Inr list_all2_Cons1 make_segment_Inr
        split: if_splits sum.splits)
  moreover have "py_casefold (py_strip ''repo'') = ''repo''" by code_simp
  ultimately show ?thesis using make_address_made[OF ss] by simp
qed

end
