(* ===== verification/ContextNamespace.thy ===== *)
theory ContextNamespace
  imports NamespaceAddress UniversalItem
begin

text \<open>
  The \<open>syntavra://\<close> browser of \<open>syntavra_runtime/context_namespace.py\<close>: bindings of addresses to
  resolvers, views of the resolved items at four disclosure levels, and retrieval trajectories
  with receipts.  The namespace keeps no content: every view asks the resolver again and checks
  the item it returns.  What an external resolver returns may change from call to call, so each
  operation takes the current behaviour \<open>env\<close> of the resolvers as an argument.  One character
  outside white space stands for the ellipsis U+2026, which is not in Latin-1.
\<close>

section \<open>Text and levels\<close>

definition levels :: "string list" where
  "levels = [''L0'', ''L1'', ''L2'', ''L3'']"

definition ellipsis :: char where
  "ellipsis = char_of (183 :: nat)"

definition bounded_text :: "string \<Rightarrow> nat \<Rightarrow> string" where
  "bounded_text value limit =
     (let text = join '' '' (py_words value) in
      if length text \<le> limit then text else take (limit - 1) text @ [ellipsis])"

definition validate_level :: "string \<Rightarrow> string + string" where
  "validate_level level =
     (let normalized = py_upper level in
      if normalized \<notin> set levels then Inl (''unknown context disclosure level: '' @ py_repr level)
      else Inr normalized)"

section \<open>The structure of a value\<close>

definition type_name :: "pyval \<Rightarrow> string" where
  "type_name v =
     (case v of PyNone \<Rightarrow> ''NoneType'' | PyBool _ \<Rightarrow> ''bool'' | PyInt _ \<Rightarrow> ''int'' | PyFloat _ \<Rightarrow> ''float''
      | PyStr _ \<Rightarrow> ''str'' | PyList _ \<Rightarrow> ''list'' | PyTuple _ \<Rightarrow> ''tuple'' | PyDict _ \<Rightarrow> ''dict'')"

definition array_structure :: "nat \<Rightarrow> pyval list \<Rightarrow> pyval" where
  "array_structure len preview = PyDict
     [(''type'', PyStr ''array''), (''length'', PyInt (int len)), (''items'', PyList preview),
      (''truncated'', PyBool (len > length preview))]"

text \<open>The first argument counts the levels that are left of \<open>_MAX_STRUCTURE_DEPTH = 5\<close>.\<close>

fun value_structure :: "(pyval \<Rightarrow> string) \<Rightarrow> nat \<Rightarrow> pyval \<Rightarrow> pyval" where
  "value_structure sha 0 v = PyDict [(''type'', PyStr (type_name v)), (''truncated'', PyBool True)]"
| "value_structure sha (Suc d) v =
     (case v of
        PyDict kvs \<Rightarrow>
          (let keys = sort (map fst kvs); selected = take 64 keys in
           PyDict [(''type'', PyStr ''object''), (''key_count'', PyInt (int (length keys))),
             (''keys'', py_strs selected),
             (''fields'', PyDict (map (\<lambda>k. (k, value_structure sha d (the (map_of kvs k)))) selected)),
             (''truncated'', PyBool (length keys > length selected))])
      | PyList vs \<Rightarrow> array_structure (length vs) (map (value_structure sha d) (take 8 vs))
      | PyTuple vs \<Rightarrow> array_structure (length vs) (map (value_structure sha d) (take 8 vs))
      | PyStr s \<Rightarrow>
          PyDict [(''type'', PyStr ''string''), (''chars'', PyInt (int (length s))),
            (''lines'', PyInt (if s = '''' then 0 else int (length (filter (\<lambda>c. c = CHR 0x0A) s)) + 1)),
            (''sha256'', PyStr (digest sha (PyStr s)))]
      | PyNone \<Rightarrow> PyDict [(''type'', PyStr ''null'')]
      | PyBool _ \<Rightarrow> PyDict [(''type'', PyStr ''boolean'')]
      | PyInt _ \<Rightarrow> PyDict [(''type'', PyStr ''integer'')]
      | PyFloat _ \<Rightarrow> PyDict [(''type'', PyStr ''number'')])"

section \<open>The state of a namespace\<close>

record ns_entry =
  ne_uri :: string
  ne_item :: string
  ne_label :: string
  ne_reason :: string
  ne_parent :: "string option"
  ne_tags :: "string list"
  ne_meta :: fields

record retrieval_step =
  rs_sequence :: int
  rs_operation :: string
  rs_uri :: string
  rs_level :: string
  rs_result :: string
  rs_reason :: string
  rs_receipt :: string

record trajectory =
  tj_id :: string
  tj_query :: string
  tj_root :: "string option"
  tj_steps :: "retrieval_step list"

text \<open>A resolver is the closure of \<open>bind_item\<close> over an item, or an external one.\<close>

datatype 'r resolver = FixedItem context_item | External 'r

fun run_resolver :: "('r \<Rightarrow> string \<Rightarrow> context_item option) \<Rightarrow> 'r resolver \<Rightarrow> string \<Rightarrow> context_item option" where
  "run_resolver env (FixedItem i) item_id = (if item_id = ci_id i then Some i else None)"
| "run_resolver env (External r) item_id = env r item_id"

record 'r binding =
  bd_entry :: ns_entry
  bd_resolver :: "'r resolver"

record 'r namespace =
  ns_bindings :: "(string \<times> 'r binding) list"
  ns_children :: "(string \<times> string list) list"
  ns_trajectories :: "(string \<times> trajectory) list"

definition empty_namespace :: "'r namespace" where
  "empty_namespace = \<lparr>ns_bindings = [], ns_children = [], ns_trajectories = []\<rparr>"

definition canonical_uri :: "string \<Rightarrow> py_error + string" where
  "canonical_uri uri = bindE (valueE (parse_address uri)) (\<lambda>a. Inr (address_uri a))"

definition optional_uri :: "string option \<Rightarrow> py_error + string option" where
  "optional_uri u =
     (case u of
        None \<Rightarrow> Inr None
      | Some p \<Rightarrow> if p = '''' then Inr None else bindE (canonical_uri p) (\<lambda>c. Inr (Some c)))"

definition children_of :: "'r namespace \<Rightarrow> string \<Rightarrow> string list" where
  "children_of ns uri = (case map_of (ns_children ns) uri of None \<Rightarrow> [] | Some cs \<Rightarrow> cs)"

definition add_child :: "string \<Rightarrow> string \<Rightarrow> 'r namespace \<Rightarrow> 'r namespace" where
  "add_child parent child ns =
     ns\<lparr>ns_children := AList.update parent (List.insert child (children_of ns parent)) (ns_children ns)\<rparr>"

definition default_children :: "string \<Rightarrow> 'r namespace \<Rightarrow> 'r namespace" where
  "default_children uri ns =
     (if map_of (ns_children ns) uri = None then ns\<lparr>ns_children := ns_children ns @ [(uri, [])]\<rparr> else ns)"

definition register ::
  "(pyval \<Rightarrow> string) \<Rightarrow> ('r \<Rightarrow> string \<Rightarrow> context_item option) \<Rightarrow> string \<Rightarrow> string \<Rightarrow> 'r resolver \<Rightarrow> string \<Rightarrow> string \<Rightarrow>
   string option \<Rightarrow> string list \<Rightarrow> fields \<Rightarrow> 'r namespace \<Rightarrow> py_error + ns_entry \<times> 'r namespace" where
  "register sha env uri item_id resolver label reason parent tags metadata ns =
     bindE (canonical_uri uri) (\<lambda>canonical.
     if map_of (ns_bindings ns) canonical \<noteq> None
     then Inl (ValueError (''context namespace URI already registered: '' @ canonical))
     else bindE (optional_uri parent) (\<lambda>normalized_parent.
     if normalized_parent \<noteq> None \<and> map_of (ns_bindings ns) (the normalized_parent) = None
     then Inl (KeyError (''context namespace parent is not registered: '' @ the normalized_parent))
     else
       let normalized_label = bounded_text label 160; normalized_reason = bounded_text reason 512 in
       if normalized_label = '''' then Inl (ValueError ''context namespace label is required'')
       else if normalized_reason = '''' then Inl (ValueError ''context namespace reason is required'')
       else case run_resolver env resolver item_id of
         None \<Rightarrow> Inl (KeyError (''context namespace resolver cannot resolve item: '' @ item_id))
       | Some item \<Rightarrow>
           if ci_id item \<noteq> item_id
           then Inl (ValueError ''context namespace resolver returned a different item identity'')
           else if \<not> verify_integrity sha item
           then Inl (ValueError ''context namespace item failed UniversalContextItem integrity'')
           else
             let entry = \<lparr>ne_uri = canonical, ne_item = ci_id item, ne_label = normalized_label,
                   ne_reason = normalized_reason, ne_parent = normalized_parent,
                   ne_tags = sorted_unique tags, ne_meta = metadata\<rparr>;
                 ns1 = ns\<lparr>ns_bindings := ns_bindings ns @ [(canonical, \<lparr>bd_entry = entry, bd_resolver = resolver\<rparr>)]\<rparr>;
                 ns2 = (case normalized_parent of None \<Rightarrow> ns1 | Some p \<Rightarrow> add_child p canonical ns1)
             in Inr (entry, default_children canonical ns2)))"

definition bind_item ::
  "(pyval \<Rightarrow> string) \<Rightarrow> ('r \<Rightarrow> string \<Rightarrow> context_item option) \<Rightarrow> string \<Rightarrow> context_item \<Rightarrow> string \<Rightarrow> string \<Rightarrow>
   string option \<Rightarrow> string list \<Rightarrow> fields \<Rightarrow> 'r namespace \<Rightarrow> py_error + ns_entry \<times> 'r namespace" where
  "bind_item sha env uri item label reason parent tags metadata ns =
     register sha env uri (ci_id item) (FixedItem item) label reason parent tags metadata ns"

definition bind_resolver ::
  "(pyval \<Rightarrow> string) \<Rightarrow> ('r \<Rightarrow> string \<Rightarrow> context_item option) \<Rightarrow> string \<Rightarrow> string \<Rightarrow> 'r \<Rightarrow> string \<Rightarrow> string \<Rightarrow>
   string option \<Rightarrow> string list \<Rightarrow> fields \<Rightarrow> 'r namespace \<Rightarrow> py_error + ns_entry \<times> 'r namespace" where
  "bind_resolver sha env uri item_id resolver label reason parent tags metadata ns =
     register sha env uri item_id (External resolver) label reason parent tags metadata ns"

definition find_binding :: "string \<Rightarrow> 'r namespace \<Rightarrow> py_error + 'r binding" where
  "find_binding uri ns =
     bindE (canonical_uri uri) (\<lambda>canonical.
     case map_of (ns_bindings ns) canonical of None \<Rightarrow> Inl (KeyError canonical) | Some b \<Rightarrow> Inr b)"

definition resolve_item ::
  "(pyval \<Rightarrow> string) \<Rightarrow> ('r \<Rightarrow> string \<Rightarrow> context_item option) \<Rightarrow> 'r binding \<Rightarrow> py_error + context_item" where
  "resolve_item sha env b =
     (let item_id = ne_item (bd_entry b) in
      case run_resolver env (bd_resolver b) item_id of
        None \<Rightarrow> Inl (KeyError (''context item no longer resolves: '' @ item_id))
      | Some item \<Rightarrow>
          if ci_id item \<noteq> item_id then Inl (ValueError ''context resolver identity drift'')
          else if \<not> verify_integrity sha item then Inl (ValueError ''context item integrity drift'')
          else Inr item)"

section \<open>Views\<close>

definition keys_of :: "pyval \<Rightarrow> string list" where
  "keys_of v = (case v of PyDict kvs \<Rightarrow> map fst kvs | _ \<Rightarrow> [])"

definition view_basic :: "ns_entry \<Rightarrow> context_item \<Rightarrow> nat \<Rightarrow> string \<Rightarrow> fields" where
  "view_basic entry item child_count level =
     [(''level'', PyStr level), (''uri'', PyStr (ne_uri entry)), (''item_id'', PyStr (ci_id item)),
      (''label'', PyStr (ne_label entry)), (''kind'', PyStr (ci_kind item)),
      (''representation'', PyStr (ci_repr item)), (''content_sha256'', PyStr (ci_sha item)),
      (''parent_uri'', opt_str (ne_parent entry)), (''child_count'', PyInt (int child_count)),
      (''tags'', py_strs (ne_tags entry))]"

definition view_origin :: "ns_entry \<Rightarrow> context_item \<Rightarrow> fields" where
  "view_origin entry item =
     [(''reason'', PyStr (ne_reason entry)),
      (''provenance'', PyDict [(''source'', PyStr (pv_source (ci_prov item))),
         (''repository_commit'', PyStr (pv_commit (ci_prov item))),
         (''parent_item_ids'', py_strs (pv_parents (ci_prov item)))]),
      (''trust'', PyDict [(''level'', PyStr (tu_level (ci_trust item))),
         (''confidence'', PyFloat (tu_confidence (ci_trust item))), (''taint'', py_strs (tu_taint (ci_trust item))),
         (''reasons'', py_strs (tu_reasons (ci_trust item)))]),
      (''freshness'', PyDict [(''state'', PyStr (fr_state (ci_fresh item))),
         (''observed_at'', opt_str (fr_observed (ci_fresh item))),
         (''expires_at'', opt_str (fr_expires (ci_fresh item))), (''lease_id'', opt_str (fr_lease (ci_fresh item)))]),
      (''exact_recovery_available'', PyBool (list_ex rh_exact (ci_recovery item))),
      (''recovery_kinds'', py_strs (sorted_set (map rh_kind (ci_recovery item))))]"

definition view_structure :: "(pyval \<Rightarrow> string) \<Rightarrow> ns_entry \<Rightarrow> context_item \<Rightarrow> fields" where
  "view_structure sha entry item =
     [(''structure'', value_structure sha 5 (ci_content item)),
      (''metadata_keys'', py_strs (sort (keys_of (ci_meta item)))),
      (''namespace_metadata_keys'', py_strs (sort (map fst (ne_meta entry))))]"

definition provenance_asdict :: "provenance \<Rightarrow> pyval" where
  "provenance_asdict p = PyDict
     [(''source'', PyStr (pv_source p)), (''repository_commit'', PyStr (pv_commit p)),
      (''observed_at'', opt_str (pv_observed p)), (''parent_item_ids'', PyTuple (map PyStr (pv_parents p))),
      (''metadata'', pv_metadata p)]"

definition view_exact :: "ns_entry \<Rightarrow> context_item \<Rightarrow> fields" where
  "view_exact entry item =
     [(''content'', ci_content item), (''metadata'', ci_meta item), (''namespace_metadata'', PyDict (ne_meta entry)),
      (''provenance_exact'', provenance_asdict (ci_prov item)),
      (''recovery'', PyList (map recovery_py (ci_recovery item)))]"

definition view_body :: "(pyval \<Rightarrow> string) \<Rightarrow> ns_entry \<Rightarrow> nat \<Rightarrow> string \<Rightarrow> context_item \<Rightarrow> fields" where
  "view_body sha entry child_count level item =
     view_basic entry item child_count level @
     (if level \<in> {''L1'', ''L2'', ''L3''} then view_origin entry item else []) @
     (if level \<in> {''L2'', ''L3''} then view_structure sha entry item else []) @
     (if level = ''L3'' then view_exact entry item else [])"

definition view ::
  "(pyval \<Rightarrow> string) \<Rightarrow> ('r \<Rightarrow> string \<Rightarrow> context_item option) \<Rightarrow> 'r namespace \<Rightarrow> 'r binding \<Rightarrow> string \<Rightarrow>
   py_error + fields" where
  "view sha env ns b level =
     bindE (valueE (validate_level level)) (\<lambda>lv.
     bindE (resolve_item sha env b) (\<lambda>item.
     let result = view_body sha (bd_entry b) (length (children_of ns (ne_uri (bd_entry b)))) lv item
     in Inr (result @ [(''view_hash'', PyStr (digest sha (PyDict result)))])))"

section \<open>Trajectories and receipts\<close>

definition trajectory_key :: "(pyval \<Rightarrow> string) \<Rightarrow> string \<Rightarrow> string option \<Rightarrow> string" where
  "trajectory_key sha query start = digest sha (PyDict [(''query'', PyStr query), (''root_uri'', opt_str start)])"

definition start_trajectory ::
  "(pyval \<Rightarrow> string) \<Rightarrow> string \<Rightarrow> string option \<Rightarrow> 'r namespace \<Rightarrow> py_error + string \<times> 'r namespace" where
  "start_trajectory sha query root_uri ns =
     (let normalized_query = bounded_text query 1024 in
      if normalized_query = '''' then Inl (ValueError ''retrieval trajectory query is required'')
      else bindE (optional_uri root_uri) (\<lambda>normalized_root.
        if normalized_root \<noteq> None \<and> map_of (ns_bindings ns) (the normalized_root) = None
        then Inl (KeyError (the normalized_root))
        else
          let trajectory_id = trajectory_key sha normalized_query normalized_root in
          if map_of (ns_trajectories ns) trajectory_id \<noteq> None
          then Inl (ValueError ''retrieval trajectory already exists for this query/root'')
          else Inr (trajectory_id, ns\<lparr>ns_trajectories := ns_trajectories ns @
            [(trajectory_id, \<lparr>tj_id = trajectory_id, tj_query = normalized_query,
               tj_root = normalized_root, tj_steps = []\<rparr>)]\<rparr>)))"

definition receipt_base :: "string option \<Rightarrow> retrieval_step \<Rightarrow> fields" where
  "receipt_base trajectory_id s =
     [(''operation'', PyStr (rs_operation s)), (''uri'', PyStr (rs_uri s)), (''level'', PyStr (rs_level s)),
      (''result_hash'', PyStr (rs_result s)), (''reason'', PyStr (rs_reason s)),
      (''trajectory_id'', opt_str trajectory_id),
      (''sequence'', (case trajectory_id of None \<Rightarrow> PyNone | Some _ \<Rightarrow> PyInt (rs_sequence s)))]"

definition operation_receipt ::
  "(pyval \<Rightarrow> string) \<Rightarrow> string \<Rightarrow> string \<Rightarrow> string \<Rightarrow> string \<Rightarrow> string \<Rightarrow> string option \<Rightarrow> 'r namespace \<Rightarrow>
   py_error + fields \<times> 'r namespace" where
  "operation_receipt sha operation uri level result_hash reason trajectory_id ns =
     bindE (case trajectory_id of
        None \<Rightarrow> Inr 0
      | Some t \<Rightarrow>
          (case map_of (ns_trajectories ns) t of
             None \<Rightarrow> Inl (KeyError (''unknown retrieval trajectory: '' @ t))
           | Some tr \<Rightarrow> Inr (int (length (tj_steps tr)) + 1))) (\<lambda>sequence.
     let s = \<lparr>rs_sequence = sequence, rs_operation = operation, rs_uri = uri, rs_level = level,
           rs_result = result_hash, rs_reason = bounded_text reason 512, rs_receipt = ''''\<rparr>;
         receipt_hash = digest sha (PyDict (receipt_base trajectory_id s));
         ns' = (case trajectory_id of
            None \<Rightarrow> ns
          | Some t \<Rightarrow> ns\<lparr>ns_trajectories := map (\<lambda>(k, tr).
              (k, if k = t then tr\<lparr>tj_steps := tj_steps tr @ [s\<lparr>rs_receipt := receipt_hash\<rparr>]\<rparr> else tr))
              (ns_trajectories ns)\<rparr>)
     in Inr (receipt_base trajectory_id s @ [(''receipt_hash'', PyStr receipt_hash)], ns'))"

section \<open>Browsing\<close>

definition view_hash :: "fields \<Rightarrow> string" where
  "view_hash v = (case map_of v ''view_hash'' of Some (PyStr h) \<Rightarrow> h | _ \<Rightarrow> '''')"

definition view_level :: "fields \<Rightarrow> string" where
  "view_level v = (case map_of v ''level'' of Some (PyStr l) \<Rightarrow> l | _ \<Rightarrow> '''')"

definition reveal ::
  "(pyval \<Rightarrow> string) \<Rightarrow> ('r \<Rightarrow> string \<Rightarrow> context_item option) \<Rightarrow> string \<Rightarrow> string \<Rightarrow> string option \<Rightarrow>
   'r namespace \<Rightarrow> py_error + (fields \<times> fields) \<times> 'r namespace" where
  "reveal sha env uri level trajectory_id ns =
     bindE (find_binding uri ns) (\<lambda>b.
     bindE (view sha env ns b level) (\<lambda>v.
     bindE (operation_receipt sha ''reveal'' (ne_uri (bd_entry b)) (view_level v) (view_hash v)
       (ne_reason (bd_entry b)) trajectory_id ns) (\<lambda>(receipt, ns').
     Inr ((v, receipt), ns'))))"

definition explanation :: "ns_entry \<Rightarrow> context_item \<Rightarrow> fields" where
  "explanation entry item =
     [(''uri'', PyStr (ne_uri entry)), (''item_id'', PyStr (ci_id item)), (''reason'', PyStr (ne_reason entry)),
      (''parent_uri'', opt_str (ne_parent entry)), (''provenance_source'', PyStr (pv_source (ci_prov item))),
      (''repository_commit'', PyStr (pv_commit (ci_prov item))),
      (''parent_item_ids'', py_strs (pv_parents (ci_prov item))),
      (''trust_level'', PyStr (tu_level (ci_trust item))), (''taint'', py_strs (tu_taint (ci_trust item))),
      (''freshness'', PyStr (fr_state (ci_fresh item))),
      (''exact_recovery_available'', PyBool (list_ex rh_exact (ci_recovery item))),
      (''tags'', py_strs (ne_tags entry))]"

definition why ::
  "(pyval \<Rightarrow> string) \<Rightarrow> ('r \<Rightarrow> string \<Rightarrow> context_item option) \<Rightarrow> string \<Rightarrow> string option \<Rightarrow>
   'r namespace \<Rightarrow> py_error + (fields \<times> fields) \<times> 'r namespace" where
  "why sha env uri trajectory_id ns =
     bindE (find_binding uri ns) (\<lambda>b.
     bindE (resolve_item sha env b) (\<lambda>item.
     let e = explanation (bd_entry b) item; h = digest sha (PyDict e) in
     bindE (operation_receipt sha ''why'' (ne_uri (bd_entry b)) ''L1'' h (ne_reason (bd_entry b)) trajectory_id ns)
       (\<lambda>(receipt, ns'). Inr ((e @ [(''explanation_hash'', PyStr h)], receipt), ns'))))"

definition browse ::
  "(pyval \<Rightarrow> string) \<Rightarrow> ('r \<Rightarrow> string \<Rightarrow> context_item option) \<Rightarrow> string \<Rightarrow> string \<Rightarrow> int \<Rightarrow> string option \<Rightarrow>
   'r namespace \<Rightarrow> py_error + fields \<times> 'r namespace" where
  "browse sha env uri level limit trajectory_id ns =
     (if limit < 1 \<or> limit > 256 then Inl (ValueError ''context browser limit must be in [1, 256]'')
      else bindE (find_binding uri ns) (\<lambda>b.
        bindE (valueE (validate_level level)) (\<lambda>lv.
        let child_uris = sort (children_of ns (ne_uri (bd_entry b)));
            selected = take (nat limit) child_uris
        in bindE (view sha env ns b lv) (\<lambda>node.
           bindE (collect (\<lambda>c. case map_of (ns_bindings ns) c of None \<Rightarrow> Inl (KeyError c)
             | Some cb \<Rightarrow> view sha env ns cb lv) selected) (\<lambda>children.
           let result = [(''uri'', PyStr (ne_uri (bd_entry b))), (''level'', PyStr lv), (''node'', PyDict node),
                 (''children'', PyList (map PyDict children)), (''child_count'', PyInt (int (length child_uris))),
                 (''truncated'', PyBool (length child_uris > length selected))];
               result_hash = digest sha (PyDict result)
           in bindE (operation_receipt sha ''browse'' (ne_uri (bd_entry b)) lv result_hash
                ''progressive context namespace browse'' trajectory_id ns) (\<lambda>(receipt, ns').
              Inr (result @ [(''result_hash'', PyStr result_hash), (''receipt'', PyDict receipt)], ns')))))))"

definition step_asdict :: "retrieval_step \<Rightarrow> pyval" where
  "step_asdict s = PyDict
     [(''sequence'', PyInt (rs_sequence s)), (''operation'', PyStr (rs_operation s)), (''uri'', PyStr (rs_uri s)),
      (''level'', PyStr (rs_level s)), (''result_hash'', PyStr (rs_result s)), (''reason'', PyStr (rs_reason s)),
      (''receipt_hash'', PyStr (rs_receipt s))]"

definition trajectory_receipt :: "(pyval \<Rightarrow> string) \<Rightarrow> string \<Rightarrow> 'r namespace \<Rightarrow> py_error + fields" where
  "trajectory_receipt sha trajectory_id ns =
     (case map_of (ns_trajectories ns) trajectory_id of
        None \<Rightarrow> Inl (KeyError (''unknown retrieval trajectory: '' @ trajectory_id))
      | Some tr \<Rightarrow>
          let body = [(''trajectory_id'', PyStr (tj_id tr)), (''query'', PyStr (tj_query tr)),
                (''root_uri'', opt_str (tj_root tr)), (''steps'', PyList (map step_asdict (tj_steps tr)))]
          in Inr (body @ [(''trajectory_hash'', PyStr (digest sha (PyDict body)))]))"

definition namespace_status :: "'r namespace \<Rightarrow> fields" where
  "namespace_status ns =
     [(''scheme'', PyStr ns_scheme), (''roots'', py_strs ns_roots), (''levels'', py_strs levels),
      (''entries'', PyInt (int (length (ns_bindings ns)))),
      (''trajectories'', PyInt (int (length (ns_trajectories ns)))), (''persistent_store'', PyBool False)]"

section \<open>The invariant of a namespace\<close>

definition canonical_text :: "string \<Rightarrow> bool" where
  "canonical_text u \<longleftrightarrow> (\<exists>a. made_address a \<and> u = address_uri a)"

text \<open>Every entry comes after its parent.\<close>

fun parents_first :: "string set \<Rightarrow> (string \<times> 'r binding) list \<Rightarrow> bool" where
  "parents_first seen [] = True"
| "parents_first seen ((u, b) # bs) =
     ((case ne_parent (bd_entry b) of None \<Rightarrow> True | Some p \<Rightarrow> p \<in> seen) \<and> parents_first (insert u seen) bs)"

definition parent_edges :: "'r namespace \<Rightarrow> (string \<times> string) set" where
  "parent_edges ns = {(u, p). \<exists>b. map_of (ns_bindings ns) u = Some b \<and> ne_parent (bd_entry b) = Some p}"

definition binding_ok :: "string \<times> 'r binding \<Rightarrow> bool" where
  "binding_ok ub \<longleftrightarrow> ne_uri (bd_entry (snd ub)) = fst ub \<and> canonical_text (fst ub) \<and>
     ne_label (bd_entry (snd ub)) \<noteq> '''' \<and> ne_reason (bd_entry (snd ub)) \<noteq> ''''"

fun steps_ok :: "(pyval \<Rightarrow> string) \<Rightarrow> string \<Rightarrow> int \<Rightarrow> retrieval_step list \<Rightarrow> bool" where
  "steps_ok sha t n [] = True"
| "steps_ok sha t n (s # ss) =
     (rs_sequence s = n \<and> rs_receipt s = digest sha (PyDict (receipt_base (Some t) s)) \<and> steps_ok sha t (n + 1) ss)"

definition trajectory_ok :: "(pyval \<Rightarrow> string) \<Rightarrow> string \<times> trajectory \<Rightarrow> bool" where
  "trajectory_ok sha kt \<longleftrightarrow> tj_id (snd kt) = fst kt \<and>
     fst kt = trajectory_key sha (tj_query (snd kt)) (tj_root (snd kt)) \<and>
     steps_ok sha (fst kt) 1 (tj_steps (snd kt))"

definition ns_inv :: "(pyval \<Rightarrow> string) \<Rightarrow> 'r namespace \<Rightarrow> bool" where
  "ns_inv sha ns \<longleftrightarrow> distinct (map fst (ns_bindings ns)) \<and> (\<forall>ub \<in> set (ns_bindings ns). binding_ok ub) \<and>
     parents_first {} (ns_bindings ns) \<and>
     (\<forall>u. distinct (children_of ns u) \<and> set (children_of ns u) = {c. (c, u) \<in> parent_edges ns}) \<and>
     distinct (map fst (ns_trajectories ns)) \<and> (\<forall>kt \<in> set (ns_trajectories ns). trajectory_ok sha kt)"

inductive ns_step :: "(pyval \<Rightarrow> string) \<Rightarrow> 'r namespace \<Rightarrow> 'r namespace \<Rightarrow> bool" for sha :: "pyval \<Rightarrow> string" where
  step_register: "register sha env uri i r label reason parent tags md ns = Inr (entry, ns') \<Longrightarrow> ns_step sha ns ns'"
| step_start: "start_trajectory sha query start ns = Inr (t, ns') \<Longrightarrow> ns_step sha ns ns'"
| step_reveal: "reveal sha env uri level t ns = Inr (result, ns') \<Longrightarrow> ns_step sha ns ns'"
| step_why: "why sha env uri t ns = Inr (result, ns') \<Longrightarrow> ns_step sha ns ns'"
| step_browse: "browse sha env uri level limit t ns = Inr (fs, ns') \<Longrightarrow> ns_step sha ns ns'"

lemma canonical_uri_Inr: "canonical_uri uri = Inr c \<Longrightarrow> canonical_text c \<and> canonical_uri c = Inr c"
  using parse_made parse_printed by (auto simp: canonical_uri_def canonical_text_def)

lemma parents_first_append:
  "parents_first seen (bs @ [(u, b)]) \<longleftrightarrow> parents_first seen bs \<and>
     (case ne_parent (bd_entry b) of None \<Rightarrow> True | Some p \<Rightarrow> p \<in> seen \<union> set (map fst bs))"
  by (induction seen bs rule: parents_first.induct) (auto split: option.splits)

lemma parents_first_acyclic:
  assumes "parents_first {} bs" and "distinct (map fst bs)"
  shows "acyclic {(u, p). \<exists>b. map_of bs u = Some b \<and> ne_parent (bd_entry b) = Some p} \<and>
    (\<forall>u b p. map_of bs u = Some b \<longrightarrow> ne_parent (bd_entry b) = Some p \<longrightarrow> map_of bs p \<noteq> None)"
  using assms
proof (induction bs rule: rev_induct)
  case (snoc ub bs)
  obtain u b where ub: "ub = (u, b)" by fastforce
  let ?E = "\<lambda>bs. {(u, p). \<exists>b. map_of bs u = Some b \<and> ne_parent (bd_entry b) = Some p}"
  have pf: "parents_first {} bs" "case ne_parent (bd_entry b) of None \<Rightarrow> True | Some p \<Rightarrow> p \<in> fst ` set bs"
    using snoc.prems(1) unfolding ub parents_first_append by (auto split: option.splits)
  have new: "u \<notin> fst ` set bs" "distinct (map fst bs)" using snoc.prems(2) by (auto simp: ub)
  note IH = snoc.IH[OF pf(1) new(2)]
  have none: "map_of bs u = None" using new(1) by (simp add: map_of_eq_None_iff)
  then have maps: "map_of (bs @ [ub]) = (map_of bs)(u \<mapsto> b)"
    by (auto simp: ub map_add_def fun_eq_iff split: option.splits)
  have edges: "?E (bs @ [ub]) = ?E bs \<union> {(u, p) |p. ne_parent (bd_entry b) = Some p}"
    using none unfolding maps by (auto split: if_splits)
  have into: "p \<noteq> u" if e: "(x, p) \<in> (?E bs)\<^sup>*" "p \<noteq> x" for x p
  proof -
    obtain y where "(y, p) \<in> ?E bs" by (rule rtranclE[OF e(1)]) (use e(2) in blast)+
    then have "map_of bs p \<noteq> None" using IH by blast
    then show ?thesis using none by auto
  qed
  show ?case
  proof (cases "ne_parent (bd_entry b)")
    case None
    then have "?E (bs @ [ub]) = ?E bs" unfolding edges by simp
    then show ?thesis using IH None unfolding maps by (auto split: if_splits)
  next
    case (Some p)
    have "p \<in> fst ` set bs" using pf(2) Some by simp
    then have p: "map_of bs p \<noteq> None" "p \<noteq> u" using new(1) by (auto simp: map_of_eq_None_iff)
    have "(p, u) \<notin> (?E bs)\<^sup>*" using into[of p u] p(2) by blast
    moreover have "?E (bs @ [ub]) = insert (u, p) (?E bs)" unfolding edges using Some by auto
    ultimately have "acyclic (?E (bs @ [ub]))" using IH by (simp add: acyclic_insert)
    then show ?thesis using IH Some p unfolding maps by (auto split: if_splits)
  qed
qed (simp add: acyclic_def)

lemma map_of_snoc: "map_of (xs @ [(k, v)]) x = (case map_of xs x of None \<Rightarrow> if x = k then Some v else None | Some y \<Rightarrow> Some y)"
  by (auto simp: map_add_def split: option.splits)

lemma children_bindings [simp]: "children_of (ns\<lparr>ns_bindings := bs\<rparr>) u = children_of ns u"
  by (simp add: children_of_def)

lemma children_add: "children_of (add_child p c ns) u = (if u = p then List.insert c (children_of ns p) else children_of ns u)"
  by (simp add: children_of_def add_child_def update_conv')

lemma children_default [simp]: "children_of (default_children c ns) u = children_of ns u"
  by (auto simp: children_of_def default_children_def map_of_snoc split: option.splits if_splits)

lemma add_child_fields [simp]:
  "ns_bindings (add_child p c ns) = ns_bindings ns" "ns_trajectories (add_child p c ns) = ns_trajectories ns"
  "ns_bindings (default_children c ns) = ns_bindings ns"
  "ns_trajectories (default_children c ns) = ns_trajectories ns"
  by (simp_all add: add_child_def default_children_def)

lemma register_Inr:
  assumes "register sha env uri i r label reason parent tags md ns = Inr (entry, ns')"
  obtains c par item where "canonical_uri uri = Inr c" and "map_of (ns_bindings ns) c = None"
    and "par \<noteq> None \<Longrightarrow> map_of (ns_bindings ns) (the par) \<noteq> None"
    and "run_resolver env r i = Some item" and "ci_id item = i" and "verify_integrity sha item"
    and "ne_uri entry = c" and "ne_item entry = i" and "ne_parent entry = par"
    and "ne_label entry \<noteq> ''''" and "ne_reason entry \<noteq> ''''"
    and "ns' = default_children c (case par of None \<Rightarrow> ns\<lparr>ns_bindings := ns_bindings ns @ [(c, \<lparr>bd_entry = entry, bd_resolver = r\<rparr>)]\<rparr>
       | Some p \<Rightarrow> add_child p c (ns\<lparr>ns_bindings := ns_bindings ns @ [(c, \<lparr>bd_entry = entry, bd_resolver = r\<rparr>)]\<rparr>))"
proof -
  obtain c where c: "canonical_uri uri = Inr c" "map_of (ns_bindings ns) c = None"
    using assms by (auto simp: register_def split: if_splits)
  obtain par where par: "optional_uri parent = Inr par" "par \<noteq> None \<longrightarrow> map_of (ns_bindings ns) (the par) \<noteq> None"
    using assms c by (auto simp: register_def split: if_splits)
  obtain item where item: "run_resolver env r i = Some item"
    using assms c par by (auto simp: register_def Let_def split: if_splits option.splits)
  have names: "bounded_text label 160 \<noteq> ''''" "bounded_text reason 512 \<noteq> ''''"
    using assms c par by (auto simp: register_def Let_def split: if_splits)
  have rest: "ci_id item = i" "verify_integrity sha item"
    using assms c par item names by (auto simp: register_def Let_def split: if_splits)
  have e: "entry = \<lparr>ne_uri = c, ne_item = ci_id item, ne_label = bounded_text label 160,
      ne_reason = bounded_text reason 512, ne_parent = par, ne_tags = sorted_unique tags, ne_meta = md\<rparr>" and
    n: "ns' = default_children c (case par of None \<Rightarrow> ns\<lparr>ns_bindings := ns_bindings ns @ [(c, \<lparr>bd_entry = entry, bd_resolver = r\<rparr>)]\<rparr>
       | Some p \<Rightarrow> add_child p c (ns\<lparr>ns_bindings := ns_bindings ns @ [(c, \<lparr>bd_entry = entry, bd_resolver = r\<rparr>)]\<rparr>))"
    using assms c par item names rest by (auto simp: register_def Let_def split: option.splits)
  have fs: "ne_uri entry = c" "ne_item entry = i" "ne_parent entry = par" "ne_label entry \<noteq> ''''" "ne_reason entry \<noteq> ''''"
    using rest names by (simp_all add: e)
  from that[OF c _ item rest fs n] par(2) show thesis by blast
qed

lemma register_inv:
  assumes inv: "ns_inv sha ns" and reg: "register sha env uri i r label reason parent tags md ns = Inr (entry, ns')"
  shows "ns_inv sha ns'"
proof (rule register_Inr[OF reg])
  fix c par
  let ?b = "\<lparr>bd_entry = entry, bd_resolver = r\<rparr>"
  let ?ns1 = "ns\<lparr>ns_bindings := ns_bindings ns @ [(c, ?b)]\<rparr>"
  assume c: "canonical_uri uri = Inr c" and new: "map_of (ns_bindings ns) c = None"
    and par: "par \<noteq> None \<Longrightarrow> map_of (ns_bindings ns) (the par) \<noteq> None"
    and entry: "ne_uri entry = c" "ne_parent entry = par" "ne_label entry \<noteq> ''''" "ne_reason entry \<noteq> ''''"
    and ns': "ns' = default_children c (case par of None \<Rightarrow> ?ns1 | Some p \<Rightarrow> add_child p c ?ns1)"
  have bs: "ns_bindings ns' = ns_bindings ns @ [(c, ?b)]" and tr: "ns_trajectories ns' = ns_trajectories ns"
    unfolding ns' by (simp_all split: option.splits)
  have fresh: "c \<notin> fst ` set (ns_bindings ns)" using new by (simp add: map_of_eq_None_iff)
  have dist: "distinct (map fst (ns_bindings ns))" and pf: "parents_first {} (ns_bindings ns)"
    using inv by (simp_all add: ns_inv_def)
  have pf': "parents_first {} (ns_bindings ns')"
    unfolding bs parents_first_append using pf par entry(2)
    by (auto simp: map_of_eq_None_iff image_iff split: option.splits)
  have edges: "parent_edges ns' = parent_edges ns \<union> {(c, p) |p. par = Some p}"
    unfolding parent_edges_def bs map_of_snoc using new entry by (auto split: option.splits if_splits)
  have kids: "children_of ns' u = (if par = Some u then List.insert c (children_of ns u) else children_of ns u)" for u
    unfolding ns' by (auto simp: children_add split: option.splits)
  have "distinct (children_of ns' u) \<and> set (children_of ns' u) = {x. (x, u) \<in> parent_edges ns'}" for u
    using inv unfolding kids edges ns_inv_def by auto
  moreover have "binding_ok (c, ?b)"
    using canonical_uri_Inr[OF c] entry by (simp add: binding_ok_def)
  ultimately show ?thesis using inv pf' fresh unfolding ns_inv_def bs tr by auto
qed

lemma steps_ok_append:
  "steps_ok sha t n (ss @ [s]) \<longleftrightarrow> steps_ok sha t n ss \<and> rs_sequence s = n + int (length ss) \<and>
     rs_receipt s = digest sha (PyDict (receipt_base (Some t) s))"
  by (induction sha t n ss rule: steps_ok.induct) (auto simp: algebra_simps)

lemma receipt_Inr:
  assumes "operation_receipt sha op uri level result reason t ns = Inr (fs, ns')"
  shows "ns_bindings ns' = ns_bindings ns" and "ns_children ns' = ns_children ns"
    and "ns_inv sha ns \<Longrightarrow> ns_inv sha ns'"
proof -
  show bs: "ns_bindings ns' = ns_bindings ns" and ch: "ns_children ns' = ns_children ns"
    using assms by (auto simp: operation_receipt_def Let_def split: option.splits)
  assume inv: "ns_inv sha ns"
  show "ns_inv sha ns'"
  proof (cases t)
    case None
    then show ?thesis using assms inv by (simp add: operation_receipt_def Let_def)
  next
    case (Some t')
    obtain tr where tr: "map_of (ns_trajectories ns) t' = Some tr"
      using assms Some by (auto simp: operation_receipt_def split: option.splits)
    define s where "s = \<lparr>rs_sequence = int (length (tj_steps tr)) + 1, rs_operation = op, rs_uri = uri, rs_level = level,
           rs_result = result, rs_reason = bounded_text reason 512, rs_receipt = ''''\<rparr>"
    define s' where "s' = s\<lparr>rs_receipt := digest sha (PyDict (receipt_base (Some t') s))\<rparr>"
    have tj: "ns_trajectories ns' = map (\<lambda>(k, tr). (k, if k = t' then tr\<lparr>tj_steps := tj_steps tr @ [s']\<rparr> else tr))
        (ns_trajectories ns)"
      using assms Some tr by (auto simp: operation_receipt_def Let_def s_def s'_def)
    have keys: "map fst (ns_trajectories ns') = map fst (ns_trajectories ns)"
      unfolding tj by (auto simp: comp_def case_prod_beta)
    have only: "x = tr" if "(t', x) \<in> set (ns_trajectories ns)" for x
      using that tr inv by (auto simp: ns_inv_def)
    have s': "rs_sequence s' = 1 + int (length (tj_steps tr))"
      "rs_receipt s' = digest sha (PyDict (receipt_base (Some t') s'))"
      by (simp_all add: s'_def s_def receipt_base_def)
    have "trajectory_ok sha kt" if "kt \<in> set (ns_trajectories ns')" for kt
    proof -
      have "kt \<in> (\<lambda>(k, tr). (k, if k = t' then tr\<lparr>tj_steps := tj_steps tr @ [s']\<rparr> else tr)) ` set (ns_trajectories ns)"
        using that by (simp only: tj set_map)
      then obtain kx where kx: "kx \<in> set (ns_trajectories ns)"
        "kt = (case kx of (k, tr) \<Rightarrow> (k, if k = t' then tr\<lparr>tj_steps := tj_steps tr @ [s']\<rparr> else tr))" by (rule imageE)
      obtain k x where "kx = (k, x)" by fastforce
      then have x: "(k, x) \<in> set (ns_trajectories ns)"
        "kt = (k, if k = t' then x\<lparr>tj_steps := tj_steps x @ [s']\<rparr> else x)" using kx by simp_all
      have "trajectory_ok sha (k, x)" using x(1) inv by (auto simp: ns_inv_def)
      then show ?thesis using x only s' by (auto simp: trajectory_ok_def steps_ok_append)
    qed
    moreover have "parent_edges ns' = parent_edges ns" "children_of ns' = children_of ns"
      using bs ch by (simp_all add: parent_edges_def children_of_def fun_eq_iff)
    ultimately show ?thesis using inv unfolding ns_inv_def keys bs by simp
  qed
qed

lemma start_inv:
  assumes inv: "ns_inv sha ns" and st: "start_trajectory sha query start ns = Inr (t, ns')"
  shows "ns_inv sha ns'" and "ns_bindings ns' = ns_bindings ns" and "ns_children ns' = ns_children ns"
proof -
  obtain q r where ns': "ns' = ns\<lparr>ns_trajectories := ns_trajectories ns @ [(t, \<lparr>tj_id = t, tj_query = q,
      tj_root = r, tj_steps = []\<rparr>)]\<rparr>" and t: "t = trajectory_key sha q r" "map_of (ns_trajectories ns) t = None"
    using st by (auto simp: start_trajectory_def Let_def split: if_splits)
  have "parent_edges ns' = parent_edges ns" "children_of ns' = children_of ns"
    by (simp_all add: ns' parent_edges_def children_of_def fun_eq_iff)
  moreover have "t \<notin> fst ` set (ns_trajectories ns)" using t(2) by (simp add: map_of_eq_None_iff)
  ultimately show "ns_inv sha ns'" using inv t(1) by (auto simp: ns_inv_def ns' trajectory_ok_def)
  show "ns_bindings ns' = ns_bindings ns" "ns_children ns' = ns_children ns" by (simp_all add: ns')
qed

text \<open>Reading operations change trajectories only, through one receipt.\<close>

lemma reveal_receipt:
  "reveal sha env uri level t ns = Inr (result, ns') \<Longrightarrow>
   \<exists>op u l h reason fs. operation_receipt sha op u l h reason t ns = Inr (fs, ns')"
  by (auto simp: reveal_def split: prod.splits) blast

lemma why_receipt:
  "why sha env uri t ns = Inr (result, ns') \<Longrightarrow>
   \<exists>op u l h reason fs. operation_receipt sha op u l h reason t ns = Inr (fs, ns')"
  by (auto simp: why_def Let_def split: prod.splits) blast

lemma browse_receipt:
  "browse sha env uri level limit t ns = Inr (result, ns') \<Longrightarrow>
   \<exists>op u l h reason fs. operation_receipt sha op u l h reason t ns = Inr (fs, ns')"
  by (auto simp: browse_def Let_def split: prod.splits if_splits) blast

lemma ns_step_inv: "ns_step sha ns ns' \<Longrightarrow> ns_inv sha ns \<Longrightarrow> ns_inv sha ns'"
  by (induction rule: ns_step.induct)
    (blast intro: register_inv start_inv(1) receipt_Inr(3) dest: reveal_receipt why_receipt browse_receipt)+

lemma empty_ns_inv: "ns_inv sha empty_namespace"
  by (simp add: ns_inv_def empty_namespace_def children_of_def parent_edges_def)

interpretation namespaces: stateful "\<lambda>ns. ns = empty_namespace" "ns_step sha" "ns_inv sha"
  for sha :: "pyval \<Rightarrow> string"
  by unfold_locales (use empty_ns_inv ns_step_inv in auto)

text \<open>Bindings stay as they were made.\<close>

lemma ns_step_bindings:
  assumes "ns_step sha ns ns'" and "map_of (ns_bindings ns) u = Some b"
  shows "map_of (ns_bindings ns') u = Some b"
  using assms(1)
proof cases
  case (step_register env uri i r label reason parent tags md entry)
  from step_register show ?thesis
    by (rule register_Inr) (use assms(2) in \<open>auto simp: map_of_snoc split: option.splits\<close>)
next
  case (step_start query start t)
  then show ?thesis using assms(2) by (auto simp: start_trajectory_def Let_def split: if_splits)
qed (use assms(2) receipt_Inr(1) reveal_receipt why_receipt browse_receipt in metis)+

section \<open>Properties\<close>

text \<open>
  In every reachable namespace the bindings form a forest of canonical addresses, browsing
  sees exactly the children of an entry, and every trajectory is a numbered list of receipts
  that recompute.
\<close>

theorem namespace_forest:
  assumes "reaches (\<lambda>ns. ns = empty_namespace) (ns_step sha) ns"
  shows "acyclic (parent_edges ns) \<and>
    (\<forall>u b. map_of (ns_bindings ns) u = Some b \<longrightarrow> ne_uri (bd_entry b) = u \<and> canonical_uri u = Inr u) \<and>
    (\<forall>u. set (children_of ns u) = {c. \<exists>b. map_of (ns_bindings ns) c = Some b \<and> ne_parent (bd_entry b) = Some u}) \<and>
    (\<forall>u. children_of ns u \<noteq> [] \<longrightarrow> map_of (ns_bindings ns) u \<noteq> None) \<and>
    (\<forall>t tr. map_of (ns_trajectories ns) t = Some tr \<longrightarrow> steps_ok sha t 1 (tj_steps tr))"
proof -
  have inv: "ns_inv sha ns" by (rule namespaces.reachable_inv[OF assms])
  then have forest: "acyclic (parent_edges ns)"
    "\<forall>u b p. map_of (ns_bindings ns) u = Some b \<longrightarrow> ne_parent (bd_entry b) = Some p \<longrightarrow> map_of (ns_bindings ns) p \<noteq> None"
    using parents_first_acyclic[of "ns_bindings ns"] by (simp_all add: ns_inv_def parent_edges_def)
  have entries: "ne_uri (bd_entry b) = u \<and> canonical_uri u = Inr u" if "map_of (ns_bindings ns) u = Some b" for u b
  proof -
    have "binding_ok (u, b)" using map_of_SomeD[OF that] inv by (auto simp: ns_inv_def)
    then show ?thesis
      by (auto simp: binding_ok_def canonical_text_def canonical_uri_def parse_printed)
  qed
  have kids: "set (children_of ns u) = {c. \<exists>b. map_of (ns_bindings ns) c = Some b \<and> ne_parent (bd_entry b) = Some u}" for u
    using inv by (simp add: ns_inv_def parent_edges_def)
  have bound: "map_of (ns_bindings ns) u \<noteq> None" if nonempty: "children_of ns u \<noteq> []" for u
  proof -
    obtain c where "c \<in> set (children_of ns u)" using nonempty by (cases "children_of ns u") auto
    then show ?thesis using kids forest(2) by blast
  qed
  have steps: "steps_ok sha t 1 (tj_steps tr)" if "map_of (ns_trajectories ns) t = Some tr" for t tr
    using map_of_SomeD[OF that] inv by (auto simp: ns_inv_def trajectory_ok_def)
  show ?thesis using forest(1) entries kids bound steps by blast
qed

text \<open>
  C37. An address always reveals the content that was bound to it: whatever item the resolver
  returns in the meantime, mutated or forged ones included, and whatever was done to the namespace
  since, a reveal that succeeds shows the kind, the content hash and, at the exact level, the
  content and metadata (as JSON values) of the item that was registered, unless the digest
  collides on the two items.
\<close>

theorem reveal_committed:
  assumes reg: "register sha env uri i r label reason parent tags md ns0 = Inr (entry, ns1)"
    and run: "(ns_step sha)\<^sup>*\<^sup>* ns1 ns2" and rev: "reveal sha env' (ne_uri entry) level t ns2 = Inr ((v, receipt), ns3)"
    and items: "run_resolver env r i = Some x" "run_resolver env' r i = Some y"
    and "inj_on sha {canon (identity_payload x), canon (identity_payload y), canon (ci_content x), canon (ci_content y)}"
  shows "map_of v ''item_id'' = Some (PyStr (ci_id x)) \<and> map_of v ''kind'' = Some (PyStr (ci_kind x)) \<and>
    map_of v ''content_sha256'' = Some (PyStr (ci_sha x)) \<and>
    (view_level v = ''L3'' \<longrightarrow>
      map_option canon (map_of v ''content'') = Some (canon (ci_content x)) \<and>
      map_option canon (map_of v ''metadata'') = Some (canon (ci_meta x)))"
proof (rule register_Inr[OF reg])
  fix c par item
  let ?b = "\<lparr>bd_entry = entry, bd_resolver = r\<rparr>"
  assume c: "canonical_uri uri = Inr c" "map_of (ns_bindings ns0) c = None"
    and item: "run_resolver env r i = Some item" "ci_id item = i" "verify_integrity sha item"
    and entry: "ne_uri entry = c" "ne_item entry = i"
    and ns1: "ns1 = default_children c (case par of
        None \<Rightarrow> ns0\<lparr>ns_bindings := ns_bindings ns0 @ [(c, ?b)]\<rparr>
      | Some p \<Rightarrow> add_child p c (ns0\<lparr>ns_bindings := ns_bindings ns0 @ [(c, ?b)]\<rparr>))"
  have first: "map_of (ns_bindings ns1) c = Some ?b"
  proof -
    have "ns_bindings ns1 = ns_bindings ns0 @ [(c, ?b)]" unfolding ns1 by (simp split: option.splits)
    then show ?thesis using c(2) by (simp only: map_of_snoc) simp
  qed
  have "map_of (ns_bindings ns2) c = Some ?b"
    using run by (induction rule: rtranclp_induct) (auto intro: first ns_step_bindings)
  then obtain lv where v: "view sha env' ns2 ?b level = Inr v" and lv: "validate_level level = Inr lv"
    and y: "resolve_item sha env' ?b = Inr y"
    using rev items(2) entry canonical_uri_Inr[OF c(1)]
    by (auto simp: reveal_def find_binding_def view_def resolve_item_def Let_def split: if_splits prod.splits)
  have id: "ci_id x = ci_id y" "verify_integrity sha x" "verify_integrity sha y"
    using y items(1,2) item entry by (auto simp: resolve_item_def Let_def split: if_splits)
  note same = verified_id_parts[OF id(2,3,1) assms(6)]
  obtain n where vb: "v = view_body sha entry n lv y @ [(''view_hash'', PyStr (digest sha (PyDict (view_body sha entry n lv y))))]"
    using v y lv by (auto simp: view_def Let_def)
  have body: "map_of v k = (case map_of (view_basic entry y n lv) k of Some w \<Rightarrow> Some w
      | None \<Rightarrow> map_of (drop (length (view_basic entry y n lv)) v) k)" for k
    unfolding vb view_body_def by (simp add: map_add_def split: option.splits)
  have "view_level v = lv" unfolding view_level_def body by (simp add: view_basic_def)
  moreover have "map_of v ''content'' = Some (ci_content y) \<and> map_of v ''metadata'' = Some (ci_meta y)" if "lv = ''L3''"
    unfolding vb that view_body_def
    by (simp add: view_basic_def view_origin_def view_structure_def view_exact_def)
  ultimately show ?thesis
    using same id unfolding body by (simp add: view_basic_def)
qed

text \<open>
  Disclosure is progressive: the two lower levels of a view are the same for any content
  and metadata whatever, the third depends on them only through the structure summary and the
  metadata keys, and each level extends the one below.
\<close>

theorem disclosure_progressive:
  "view_body sha entry n ''L0'' (item\<lparr>ci_content := c, ci_meta := m, ci_recovery := rs\<rparr>) = view_body sha entry n ''L0'' item \<and>
   view_body sha entry n ''L1'' (item\<lparr>ci_content := c, ci_meta := m\<rparr>) = view_body sha entry n ''L1'' item \<and>
   (value_structure sha 5 c = value_structure sha 5 (ci_content item) \<and> sort (keys_of m) = sort (keys_of (ci_meta item)) \<longrightarrow>
     view_body sha entry n ''L2'' (item\<lparr>ci_content := c, ci_meta := m\<rparr>) = view_body sha entry n ''L2'' item) \<and>
   (\<exists>a b d. tl (view_body sha entry n ''L1'' item) = tl (view_body sha entry n ''L0'' item) @ a \<and>
     tl (view_body sha entry n ''L2'' item) = tl (view_body sha entry n ''L1'' item) @ b \<and>
     tl (view_body sha entry n ''L3'' item) = tl (view_body sha entry n ''L2'' item) @ d)"
  by (auto simp: view_body_def view_basic_def view_origin_def view_structure_def)

section \<open>A concrete namespace\<close>

definition no_resolver :: "unit \<Rightarrow> string \<Rightarrow> context_item option" where
  "no_resolver r item_id = None"

definition demo_uri :: string where
  "demo_uri = ''syntavra://repo/a%20b''"

definition demo_bound :: "unit namespace" where
  "demo_bound = (case register pair_digest no_resolver demo_uri (ci_id bound_item) (FixedItem bound_item) ''a'' ''b'' None
       [] [] empty_namespace of Inr (_, ns) \<Rightarrow> ns | Inl _ \<Rightarrow> empty_namespace)"

lemma demo_registered:
  obtains entry where "register pair_digest no_resolver demo_uri (ci_id bound_item) (FixedItem bound_item) ''a'' ''b'' None
      [] [] empty_namespace = Inr (entry, demo_bound)" and "ne_uri entry = demo_uri"
proof -
  have "\<not> isl (register pair_digest no_resolver demo_uri (ci_id bound_item) (FixedItem bound_item) ''a'' ''b'' None
      [] [] empty_namespace)" by code_simp
  then obtain p where p: "register pair_digest no_resolver demo_uri (ci_id bound_item) (FixedItem bound_item) ''a'' ''b'' None
      [] [] empty_namespace = Inr p" by (rule not_islE)
  then have reg: "register pair_digest no_resolver demo_uri (ci_id bound_item) (FixedItem bound_item) ''a'' ''b'' None
      [] [] empty_namespace = Inr (fst p, demo_bound)" by (simp add: demo_bound_def case_prod_beta)
  have "canonical_uri demo_uri = Inr demo_uri" by code_simp
  then have "ne_uri (fst p) = demo_uri" by - (rule register_Inr[OF reg], simp)
  with reg show thesis by (rule that)
qed

theorem namespace_forest_witness:
  "acyclic (parent_edges demo_bound) \<and> children_of demo_bound demo_uri = []"
proof -
  obtain entry where "register pair_digest no_resolver demo_uri (ci_id bound_item) (FixedItem bound_item) ''a'' ''b'' None
      [] [] empty_namespace = Inr (entry, demo_bound)" by (rule demo_registered)
  then have step: "ns_step pair_digest empty_namespace demo_bound" by (rule step_register)
  have "reaches (\<lambda>ns. ns = empty_namespace) (ns_step pair_digest) demo_bound"
    by (rule reach_step[where step = "ns_step pair_digest", OF _ step]) (rule reach_init, simp)
  moreover have "children_of demo_bound demo_uri = []" by code_simp
  ultimately show ?thesis using namespace_forest by blast
qed

theorem reveal_committed_witness:
  "case reveal pair_digest no_resolver demo_uri ''L3'' None demo_bound of
     Inl _ \<Rightarrow> False
   | Inr ((v, _), _) \<Rightarrow> map_of v ''content_sha256'' = Some (PyStr (ci_sha bound_item))"
proof -
  obtain entry where reg: "register pair_digest no_resolver demo_uri (ci_id bound_item) (FixedItem bound_item) ''a'' ''b'' None
      [] [] empty_namespace = Inr (entry, demo_bound)" and uri: "ne_uri entry = demo_uri" by (rule demo_registered)
  have "\<not> isl (reveal pair_digest no_resolver demo_uri ''L3'' None demo_bound)" by code_simp
  then obtain p where p: "reveal pair_digest no_resolver demo_uri ''L3'' None demo_bound = Inr p" by (rule not_islE)
  then have rev: "reveal pair_digest no_resolver (ne_uri entry) ''L3'' None demo_bound =
      Inr ((fst (fst p), snd (fst p)), snd p)" by (simp add: uri)
  have it: "run_resolver no_resolver (FixedItem bound_item) (ci_id bound_item) = Some bound_item" by simp
  have inj: "inj_on pair_digest {canon (identity_payload bound_item), canon (identity_payload bound_item),
      canon (ci_content bound_item), canon (ci_content bound_item)}" by code_simp
  note reveal_committed[OF reg rtranclp.rtrancl_refl rev it it inj]
  then show ?thesis by (simp add: p case_prod_beta)
qed

definition demo_ns_entry :: ns_entry where
  "demo_ns_entry = \<lparr>ne_uri = demo_uri, ne_item = ci_id bound_item, ne_label = ''a'', ne_reason = ''b'', ne_parent = None,
     ne_tags = [], ne_meta = []\<rparr>"

theorem disclosure_progressive_witness:
  "view_body pair_digest demo_ns_entry 0 ''L2'' (bound_item\<lparr>ci_content := PyStr ''x'', ci_meta := PyDict []\<rparr>) =
   view_body pair_digest demo_ns_entry 0 ''L2'' bound_item"
proof -
  have "value_structure pair_digest 5 (PyStr ''x'') = value_structure pair_digest 5 (ci_content bound_item)"
    "sort (keys_of (PyDict [])) = sort (keys_of (ci_meta bound_item))" by code_simp+
  then show ?thesis using disclosure_progressive by blast
qed

end
