(* ===== verification/PolicyRollout.thy ===== *)
theory PolicyRollout
  imports HashChain
begin

text \<open>
  The rollout manager of \<open>syntavra_runtime/policy_rollout.py\<close>: signed observations of a policy,
  their evaluation over a window, and the log of rollout stages (shadow, canary, staged, full,
  rolled back) with permanent quarantine.  Floats are exact numbers; the Wilson bound is over the
  reals, because it takes a square root.  The message authentication code and the hash of
  payload and signature are parameters.  A ceiling of infinity is \<open>None\<close>.
\<close>

section \<open>Observations\<close>

datatype rollout_error = RolloutError string | EncodingError

record observation =
  ob_scope :: string
  ob_policy :: string
  ob_verifier :: string
  ob_success :: bool
  ob_quality :: rat
  ob_latency :: rat
  ob_cost :: rat
  ob_security :: int
  ob_timestamp :: rat
  ob_signature :: string

definition observation_payload :: "observation \<Rightarrow> pyval" where
  "observation_payload ob = PyDict
     [(''scope'', PyStr (ob_scope ob)), (''policy_hash'', PyStr (ob_policy ob)),
      (''verifier_hash'', PyStr (ob_verifier ob)), (''success'', PyBool (ob_success ob)),
      (''quality'', PyFloat (ob_quality ob)), (''latency_ms'', PyFloat (ob_latency ob)),
      (''cost'', PyFloat (ob_cost ob)), (''security_regressions'', PyInt (ob_security ob)),
      (''timestamp'', PyFloat (ob_timestamp ob)), (''receipt_signature'', PyStr '''')]"

record observation_row =
  vo_sequence :: int
  vo_obs :: observation
  vo_observed :: rat
  vo_receipt :: string

record rollout_row =
  rr_sequence :: int
  rr_scope :: string
  rr_policy :: string
  rr_stage :: string
  rr_percentage :: rat
  rr_previous :: string
  rr_reason :: string
  rr_created :: rat

record quarantine_row =
  qr_scope :: string
  qr_policy :: string
  qr_reason :: string
  qr_created :: rat

record rollout_db =
  rd_observations :: "observation_row list"
  rd_rollouts :: "rollout_row list"
  rd_quarantine :: "quarantine_row list"

definition empty_rollouts :: rollout_db where
  "empty_rollouts = \<lparr>rd_observations = [], rd_rollouts = [], rd_quarantine = []\<rparr>"

definition sign :: "(string \<Rightarrow> pyval \<Rightarrow> string) \<Rightarrow> string option \<Rightarrow> observation \<Rightarrow> rollout_error + string" where
  "sign mac key ob =
     (case key of
        None \<Rightarrow> Inl (RolloutError ''policy observation signing key is unavailable'')
      | Some k \<Rightarrow> Inr (mac k (canon (observation_payload ob))))"

definition ascii :: "string \<Rightarrow> bool" where
  "ascii s \<longleftrightarrow> list_all (\<lambda>c. (of_char c :: nat) < 128) s"

definition check_signature ::
  "(string \<Rightarrow> pyval \<Rightarrow> string) \<Rightarrow> string option \<Rightarrow> observation \<Rightarrow> rollout_error + unit" where
  "check_signature mac key ob =
     (if key = None \<or> ob_signature ob = ''''
      then Inl (RolloutError ''verifier-bound observation signature required'')
      else bindE (sign mac key ob) (\<lambda>expected.
        if \<not> ascii (ob_signature ob) then Inl EncodingError
        else if expected \<noteq> ob_signature ob then Inl (RolloutError ''policy observation signature is invalid'')
        else Inr ()))"

definition record_observation ::
  "(string \<Rightarrow> pyval \<Rightarrow> string) \<Rightarrow> (pyval \<Rightarrow> string \<Rightarrow> string) \<Rightarrow> string option \<Rightarrow> rat \<Rightarrow> observation \<Rightarrow> bool \<Rightarrow>
   rollout_db \<Rightarrow> rollout_error + int \<times> rollout_db" where
  "record_observation mac sha key now ob require_signature db =
     (if ob_scope ob = '''' \<or> length (ob_policy ob) \<noteq> 64 \<or> length (ob_verifier ob) \<noteq> 64
      then Inl (RolloutError ''invalid policy/verifier identity'')
      else if \<not> (0 \<le> ob_quality ob \<and> ob_quality ob \<le> 1) \<or> ob_latency ob < 0 \<or> ob_cost ob < 0
      then Inl (RolloutError ''invalid observation metrics'')
      else if ob_security ob < 0 then Inl (RolloutError ''invalid security regression count'')
      else bindE (if require_signature then check_signature mac key ob else Inr ()) (\<lambda>_.
        if \<not> ascii (ob_signature ob) then Inl EncodingError
        else
          let observed = (if ob_timestamp ob = 0 then now else ob_timestamp ob);
              receipt = sha (canon (observation_payload ob)) (ob_signature ob);
              n = int (length (rd_observations db)) + 1
          in Inr (n, db\<lparr>rd_observations := rd_observations db @
               [\<lparr>vo_sequence = n, vo_obs = ob, vo_observed = observed, vo_receipt = receipt\<rparr>]\<rparr>)))"

section \<open>Statistics\<close>

definition wilson :: "int \<Rightarrow> int \<Rightarrow> real" where
  "wilson successes total_count =
     (if total_count \<le> 0 then 0
      else
        let z = 196 / 100; n = real_of_int total_count;
            proportion = real_of_int successes / n;
            denominator = 1 + z * z / n;
            centre = proportion + z * z / (2 * n);
            margin = z * sqrt ((proportion * (1 - proportion) + z * z / (4 * n)) / n)
        in max 0 ((centre - margin) / denominator))"

definition fmean :: "rat list \<Rightarrow> rat" where
  "fmean xs = sum_list xs / of_nat (length xs)"

definition percentile :: "rat list \<Rightarrow> rat \<Rightarrow> rat" where
  "percentile values q =
     (if values = [] then 0
      else let ordered = sort values; n = int (length ordered) in
        ordered ! nat (min (n - 1) (max 0 (round_half_even (of_int (n - 1) * q)))))"

definition drift :: "rat list \<Rightarrow> rat" where
  "drift values =
     (if length values < 10 then 0
      else let midpoint = length values div 2 in
        \<bar>fmean (drop midpoint values) - fmean (take midpoint values)\<bar>)"

section \<open>Evaluation\<close>

record decision =
  de_scope :: string
  de_policy :: string
  de_stage :: string
  de_samples :: int
  de_lower :: real
  de_quality :: rat
  de_latency :: rat
  de_cost :: rat
  de_drift :: rat
  de_security :: int
  de_eligible :: bool
  de_reasons :: "string list"

record thresholds =
  th_window :: int
  th_minimum :: int
  th_success :: real
  th_quality :: rat
  th_latency :: "rat option"
  th_cost :: "rat option"
  th_drift :: rat

definition default_thresholds :: thresholds where
  "default_thresholds = \<lparr>th_window = 200, th_minimum = 30, th_success = 95 / 100, th_quality = 90 / 100,
     th_latency = None, th_cost = None, th_drift = 20 / 100\<rparr>"

definition above :: "rat \<Rightarrow> rat option \<Rightarrow> bool" where
  "above x limit = (case limit of None \<Rightarrow> False | Some c \<Rightarrow> x > c)"

definition active_row :: "string \<Rightarrow> rollout_db \<Rightarrow> rollout_row option" where
  "active_row scope db =
     (case rev (filter (\<lambda>r. rr_scope r = scope) (rd_rollouts db)) of [] \<Rightarrow> None | r # _ \<Rightarrow> Some r)"

definition observed_window :: "string \<Rightarrow> string \<Rightarrow> int \<Rightarrow> rollout_db \<Rightarrow> observation list" where
  "observed_window scope policy window db =
     rev (sql_limit (max 1 (min window 10000))
       (rev (filter (\<lambda>ob. ob_scope ob = scope \<and> ob_policy ob = policy) (map vo_obs (rd_observations db)))))"

definition quarantined :: "string \<Rightarrow> string \<Rightarrow> rollout_db \<Rightarrow> bool" where
  "quarantined scope policy db \<longleftrightarrow> (\<exists>q \<in> set (rd_quarantine db). qr_scope q = scope \<and> qr_policy q = policy)"

definition mean_or_zero :: "rat list \<Rightarrow> rat" where
  "mean_or_zero xs = (if xs = [] then 0 else fmean xs)"

definition evaluate :: "thresholds \<Rightarrow> string \<Rightarrow> string \<Rightarrow> rollout_db \<Rightarrow> decision" where
  "evaluate th scope policy db =
     (let rows = observed_window scope policy (th_window th) db;
          n = int (length rows);
          successes = int (length (filter ob_success rows));
          lower = wilson successes n;
          qualities = map ob_quality rows;
          latencies = map ob_latency rows;
          costs = map ob_cost rows;
          security = sum_list (map ob_security rows);
          change = drift qualities;
          reasons =
            (if n < th_minimum th then [''insufficient-samples''] else []) @
            (if lower < th_success th then [''success-lower-bound''] else []) @
            (if mean_or_zero qualities < th_quality th then [''quality-floor''] else []) @
            (if above (percentile latencies (95 / 100)) (th_latency th) then [''latency-ceiling''] else []) @
            (if above (mean_or_zero costs) (th_cost th) then [''cost-ceiling''] else []) @
            (if change > th_drift th then [''workload-drift''] else []) @
            (if security \<noteq> 0 then [''security-regression''] else []) @
            (if quarantined scope policy db then [''permanent-quarantine''] else []);
          stage = (case active_row scope db of None \<Rightarrow> ''shadow'' | Some r \<Rightarrow> rr_stage r)
      in \<lparr>de_scope = scope, de_policy = policy, de_stage = stage, de_samples = n, de_lower = lower,
           de_quality = mean_or_zero qualities, de_latency = percentile latencies (95 / 100),
           de_cost = mean_or_zero costs, de_drift = change, de_security = security,
           de_eligible = (reasons = []), de_reasons = reasons\<rparr>)"

section \<open>Stages\<close>

definition stage_order :: "string \<Rightarrow> nat option" where
  "stage_order = map_of [(''shadow'', 0), (''canary'', 1), (''staged'', 2), (''full'', 3)]"

definition default_percentage :: "string \<Rightarrow> rat" where
  "default_percentage stage =
     the (map_of [(''shadow'', 0), (''canary'', 5 / 100), (''staged'', 25 / 100), (''full'', 1)] stage)"

definition rank_of :: "string \<Rightarrow> nat" where
  "rank_of stage = (case stage_order stage of None \<Rightarrow> 0 | Some n \<Rightarrow> n)"

definition insert_rollout ::
  "string \<Rightarrow> string \<Rightarrow> string \<Rightarrow> rat \<Rightarrow> string \<Rightarrow> string \<Rightarrow> rat \<Rightarrow> rollout_db \<Rightarrow> int \<times> rollout_db" where
  "insert_rollout scope policy stage percentage previous reason now db =
     (let n = int (length (rd_rollouts db)) + 1 in
      (n, db\<lparr>rd_rollouts := rd_rollouts db @
        [\<lparr>rr_sequence = n, rr_scope = scope, rr_policy = policy, rr_stage = stage, rr_percentage = percentage,
          rr_previous = previous, rr_reason = reason, rr_created = now\<rparr>]\<rparr>))"

definition promote ::
  "rat \<Rightarrow> decision \<Rightarrow> string \<Rightarrow> rat option \<Rightarrow> rat \<Rightarrow> rollout_db \<Rightarrow> rollout_error + int \<times> rollout_db" where
  "promote now d target percentage cooldown db =
     (if stage_order target = None then Inl (RolloutError ''invalid promotion target'')
      else if \<not> de_eligible d
      then Inl (RolloutError (''policy is not eligible for promotion: '' @ join '','' (de_reasons d)))
      else
        let current = active_row (de_scope d) db;
            current_stage = (case current of None \<Rightarrow> ''shadow''
              | Some r \<Rightarrow> if rr_stage r = '''' then ''shadow'' else rr_stage r);
            selected = (case percentage of None \<Rightarrow> default_percentage target | Some p \<Rightarrow> p);
            previous = (case current of None \<Rightarrow> '''' | Some r \<Rightarrow> rr_policy r)
        in if target \<noteq> current_stage \<and> rank_of target > rank_of current_stage + 1
           then Inl (RolloutError ''policy promotion cannot skip rollout stages'')
           else if (case current of None \<Rightarrow> False | Some r \<Rightarrow> now - rr_created r < cooldown)
           then Inl (RolloutError ''policy rollout cooldown is active'')
           else if \<not> (0 \<le> selected \<and> selected \<le> 1)
           then Inl (RolloutError ''rollout percentage must be between 0 and 1'')
           else Inr (insert_rollout (de_scope d) (de_policy d) target selected previous ''verified-promotion'' now db))"

datatype rollback_result =
    NotRolledBack string
  | RolledBack string string string

definition rollback :: "rat \<Rightarrow> string \<Rightarrow> string \<Rightarrow> rollout_db \<Rightarrow> rollback_result \<times> rollout_db" where
  "rollback now scope reason db =
     (case active_row scope db of
        None \<Rightarrow> (NotRolledBack ''no-active-policy'', db)
      | Some current \<Rightarrow>
          (RolledBack (rr_policy current) (rr_previous current) reason,
           snd (insert_rollout scope (rr_previous current) ''rolled-back'' 0 (rr_policy current)
             (take 512 reason) now db)))"

definition quarantine_policy :: "rat \<Rightarrow> string \<Rightarrow> string \<Rightarrow> string \<Rightarrow> rollout_db \<Rightarrow> rollout_db" where
  "quarantine_policy now scope policy reason db = db\<lparr>rd_quarantine :=
     filter (\<lambda>q. \<not> (qr_scope q = scope \<and> qr_policy q = policy)) (rd_quarantine db) @
     [\<lparr>qr_scope = scope, qr_policy = policy, qr_reason = take 512 reason, qr_created = now\<rparr>]\<rparr>"

definition observe_and_auto_rollback :: "rat \<Rightarrow> decision \<Rightarrow> rollout_db \<Rightarrow> rollback_result \<times> rollout_db" where
  "observe_and_auto_rollback now d db =
     (case active_row (de_scope d) db of
        None \<Rightarrow> (NotRolledBack ''policy-not-active'', db)
      | Some current \<Rightarrow>
          if rr_policy current \<noteq> de_policy d then (NotRolledBack ''policy-not-active'', db)
          else if de_security d \<noteq> 0
          then rollback now (de_scope d) ''security-regression''
            (quarantine_policy now (de_scope d) (de_policy d) ''security-regression'' db)
          else if \<not> de_eligible d \<and> 10 \<le> de_samples d
          then rollback now (de_scope d) (join '','' (de_reasons d)) db
          else (NotRolledBack ''healthy'', db))"

section \<open>The Wilson bound\<close>

text \<open>The bound never exceeds the observed rate.\<close>

lemma wilson_le_rate:
  assumes "0 \<le> s" and "s \<le> n"
  shows "wilson s n \<le> real_of_int s / real_of_int n"
proof (cases "n \<le> 0")
  case True
  then show ?thesis using assms by (simp add: wilson_def)
next
  case False
  define N p z q :: real where "N = real_of_int n" and "p = real_of_int s / N" and "z = 196 / 100" and "q = z * z / N"
  have N: "N > 0" using False by (simp add: N_def)
  have p: "0 \<le> p" "p \<le> 1" using assms N by (simp_all add: p_def N_def)
  have q: "q > 0" using N by (simp add: q_def z_def)
  let ?v = "(p * (1 - p) + z * z / (4 * N)) / N"
  have "q * (1 / 2 - p) \<le> z * sqrt ?v"
  proof (cases "1 / 2 - p \<le> 0")
    case True
    have "0 \<le> ?v" using p N by (simp add: z_def)
    then have "0 \<le> z * sqrt ?v" by (simp add: z_def)
    moreover have "q * (1 / 2 - p) \<le> 0" using True q by (simp add: mult_nonneg_nonpos)
    ultimately show ?thesis by linarith
  next
    case False
    have "q * (1 / 2 - p) = z * sqrt ((z / N * (1 / 2 - p)) ^ 2)"
      using False N by (simp add: q_def z_def)
    also have "\<dots> \<le> z * sqrt ?v"
    proof -
      have "(z / N * (1 / 2 - p)) ^ 2 = (z * z / (4 * N)) / N - (z * z / N) * (p * (1 - p)) / N"
        using N by (simp add: power2_eq_square field_simps)
      also have "\<dots> \<le> (z * z / (4 * N)) / N" using p N by (simp add: z_def)
      also have "\<dots> \<le> ?v"
      proof (rule divide_right_mono)
        have "0 \<le> p * (1 - p)" using p by simp
        then show "z * z / (4 * N) \<le> p * (1 - p) + z * z / (4 * N)" by linarith
      qed (use N in simp)
      finally have "sqrt ((z / N * (1 / 2 - p)) ^ 2) \<le> sqrt ?v" by (rule real_sqrt_le_mono)
      then show ?thesis by (simp add: z_def)
    qed
    finally show ?thesis .
  qed
  moreover have "z * z / (2 * N) = q / 2" by (simp add: q_def)
  ultimately have "p + z * z / (2 * N) - z * sqrt ?v \<le> p * (1 + q)" by (simp add: algebra_simps)
  then have "(p + z * z / (2 * N) - z * sqrt ?v) / (1 + q) \<le> p"
    using q by (simp add: pos_divide_le_eq)
  then have "max 0 ((p + z * z / (2 * N) - z * sqrt ?v) / (1 + q)) \<le> p" using p(1) by simp
  then show ?thesis using False
    by (simp add: wilson_def Let_def p_def q_def z_def N_def)
qed

section \<open>Runs\<close>

inductive rollout_step ::
  "(string \<Rightarrow> pyval \<Rightarrow> string) \<Rightarrow> (pyval \<Rightarrow> string \<Rightarrow> string) \<Rightarrow> rollout_db \<Rightarrow> rollout_db \<Rightarrow> bool"
  for mac :: "string \<Rightarrow> pyval \<Rightarrow> string" and sha :: "pyval \<Rightarrow> string \<Rightarrow> string" where
  step_record: "record_observation mac sha key now ob req db = Inr (n, db') \<Longrightarrow> rollout_step mac sha db db'"
| step_promote: "promote now d target percentage cooldown db = Inr (n, db') \<Longrightarrow> rollout_step mac sha db db'"
| step_rollback: "rollback now scope reason db = (result, db') \<Longrightarrow> rollout_step mac sha db db'"
| step_quarantine: "quarantine_policy now scope policy reason db = db' \<Longrightarrow> rollout_step mac sha db db'"
| step_auto: "observe_and_auto_rollback now d db = (result, db') \<Longrightarrow> rollout_step mac sha db db'"

definition scope_rows :: "string \<Rightarrow> rollout_db \<Rightarrow> rollout_row list" where
  "scope_rows scope db = filter (\<lambda>r. rr_scope r = scope) (rd_rollouts db)"

text \<open>What a stage record may be, given the one before it in its scope.\<close>

definition follows :: "rollout_row option \<Rightarrow> rollout_row \<Rightarrow> bool" where
  "follows prev r \<longleftrightarrow>
     rr_previous r = (case prev of None \<Rightarrow> '''' | Some p \<Rightarrow> rr_policy p) \<and>
     (if rr_stage r = ''rolled-back''
      then (case prev of None \<Rightarrow> False | Some p \<Rightarrow> rr_policy r = rr_previous p \<and> rr_percentage r = 0)
      else stage_order (rr_stage r) \<noteq> None \<and> 0 \<le> rr_percentage r \<and> rr_percentage r \<le> 1 \<and>
        rank_of (rr_stage r) \<le> (case prev of None \<Rightarrow> 0 | Some p \<Rightarrow> rank_of (rr_stage p)) + 1)"

fun stages_linked :: "rollout_row option \<Rightarrow> rollout_row list \<Rightarrow> bool" where
  "stages_linked prev [] = True"
| "stages_linked prev (r # rs) \<longleftrightarrow> follows prev r \<and> stages_linked (Some r) rs"

lemma stages_linked_append:
  "stages_linked prev (rs @ [r]) \<longleftrightarrow> stages_linked prev rs \<and> follows (if rs = [] then prev else Some (last rs)) r"
  by (induction prev rs rule: stages_linked.induct) auto

lemma active_row_last:
  "active_row scope db = (if scope_rows scope db = [] then None else Some (last (scope_rows scope db)))"
  unfolding active_row_def scope_rows_def[symmetric]
  by (cases "scope_rows scope db" rule: rev_cases) auto

definition rollout_inv :: "rollout_db \<Rightarrow> bool" where
  "rollout_inv db \<longleftrightarrow> (\<forall>scope. stages_linked None (scope_rows scope db)) \<and>
     (\<forall>v \<in> set (rd_observations db). 0 \<le> ob_security (vo_obs v) \<and> 0 \<le> ob_quality (vo_obs v) \<and> ob_quality (vo_obs v) \<le> 1)"

lemma insert_rollout_inv:
  assumes "rollout_inv db" and "follows (active_row scope db) r" and "rr_scope r = scope"
    and "rd_rollouts db' = rd_rollouts db @ [r]" and "rd_observations db' = rd_observations db"
  shows "rollout_inv db'"
proof -
  have rows: "scope_rows s db' = (if s = scope then scope_rows s db @ [r] else scope_rows s db)" for s
    using assms(3,4) by (auto simp: scope_rows_def)
  have "stages_linked None (scope_rows s db')" for s
    using assms(1,2) unfolding rows active_row_last
    by (auto simp: rollout_inv_def stages_linked_append split: if_splits)
  then show ?thesis using assms(1,5) by (simp add: rollout_inv_def)
qed

lemma promote_Inr:
  assumes "promote now d target percentage cooldown db = Inr (n, db')"
  obtains r where "rd_rollouts db' = rd_rollouts db @ [r]" and "rd_observations db' = rd_observations db"
    and "rd_quarantine db' = rd_quarantine db" and "rr_scope r = de_scope d" and "rr_policy r = de_policy d"
    and "rr_stage r = target" and "de_eligible d" and "follows (active_row (de_scope d) db) r"
proof -
  have stage: "stage_order target \<noteq> None" and el: "de_eligible d"
    using assms by (auto simp: promote_def split: if_splits)
  then have target: "target \<noteq> ''rolled-back''" by (auto simp: stage_order_def)
  have empty: "rank_of '''' = rank_of ''shadow''" "rank_of ''shadow'' = 0" by code_simp+
  show thesis
  proof (cases "active_row (de_scope d) db")
    case None
    then show thesis using assms stage el target empty
      by (auto simp: promote_def insert_rollout_def Let_def follows_def split: if_splits intro!: that)
  next
    case (Some p)
    then show thesis using assms stage el target empty
      by (auto simp: promote_def insert_rollout_def Let_def follows_def split: if_splits intro!: that)
  qed
qed

lemma rollback_inv:
  assumes "rollout_inv db" and "rollback now scope reason db = (result, db')"
  shows "rollout_inv db'" and "rd_quarantine db' = rd_quarantine db"
proof -
  show "rd_quarantine db' = rd_quarantine db"
    using assms(2) by (auto simp: rollback_def insert_rollout_def Let_def split: option.splits)
  show "rollout_inv db'"
  proof (cases "active_row scope db")
    case None
    then show ?thesis using assms by (simp add: rollback_def)
  next
    case (Some p)
    define r where "r = \<lparr>rr_sequence = int (length (rd_rollouts db)) + 1, rr_scope = scope, rr_policy = rr_previous p,
      rr_stage = ''rolled-back'', rr_percentage = 0, rr_previous = rr_policy p, rr_reason = take 512 reason, rr_created = now\<rparr>"
    have db': "db' = db\<lparr>rd_rollouts := rd_rollouts db @ [r]\<rparr>"
      using assms(2) Some by (auto simp: rollback_def insert_rollout_def Let_def r_def)
    show ?thesis
      by (rule insert_rollout_inv[OF assms(1), of scope r]) (simp_all add: follows_def Some db', simp_all add: r_def)
  qed
qed

lemma quarantine_inv: "rollout_inv db \<Longrightarrow> rollout_inv (quarantine_policy now scope policy reason db)"
  by (simp add: rollout_inv_def quarantine_policy_def scope_rows_def)

lemma quarantine_active: "active_row s (quarantine_policy now scope policy reason db) = active_row s db"
  by (simp add: active_row_def quarantine_policy_def)

lemma quarantined_now: "quarantined scope policy (quarantine_policy now scope policy reason db)"
  by (simp add: quarantined_def quarantine_policy_def)

lemma quarantined_kept:
  "quarantined scope policy db \<Longrightarrow> quarantined scope policy (quarantine_policy now s p reason db)"
  by (auto simp: quarantined_def quarantine_policy_def)

lemma auto_cases:
  assumes "observe_and_auto_rollback now d db = (result, db')"
  shows "db' = db \<or> (\<exists>reason. rollback now (de_scope d) reason db = (result, db')) \<or>
    (\<exists>reason. rollback now (de_scope d) reason (quarantine_policy now (de_scope d) (de_policy d) reason db) = (result, db'))"
  using assms by (auto simp: observe_and_auto_rollback_def split: option.splits if_splits)

lemma rollout_step_inv: "rollout_step mac sha db db' \<Longrightarrow> rollout_inv db \<Longrightarrow> rollout_inv db'"
proof (induction rule: rollout_step.induct)
  case (step_record key now ob req db n db')
  then show ?case
    by (auto simp: record_observation_def Let_def rollout_inv_def scope_rows_def split: if_splits)
next
  case (step_promote now d target percentage cooldown db n db')
  from step_promote(1) show ?case
    by (rule promote_Inr) (use step_promote(2) in \<open>blast intro: insert_rollout_inv\<close>)
next
  case (step_auto now d db result db')
  then show ?case using auto_cases rollback_inv(1) quarantine_inv by blast
qed (auto intro: rollback_inv quarantine_inv)

lemma empty_rollouts_inv: "rollout_inv empty_rollouts"
  by (simp add: rollout_inv_def empty_rollouts_def scope_rows_def)

interpretation rollouts: stateful "\<lambda>db. db = empty_rollouts" "rollout_step mac sha" rollout_inv
  for mac :: "string \<Rightarrow> pyval \<Rightarrow> string" and sha :: "pyval \<Rightarrow> string \<Rightarrow> string"
  by unfold_locales (use empty_rollouts_inv rollout_step_inv in blast)+

lemma quarantine_step:
  assumes "rollout_step mac sha db db'" and "quarantined scope policy db"
  shows "quarantined scope policy db'"
  using assms
proof (induction rule: rollout_step.induct)
  case (step_record key now ob req db n db')
  then show ?case by (auto simp: record_observation_def Let_def quarantined_def split: if_splits)
next
  case (step_promote now d target percentage cooldown db n db')
  from step_promote(1) show ?case
    by (rule promote_Inr) (use step_promote(2) in \<open>simp add: quarantined_def\<close>)
next
  case (step_rollback now s reason db result db')
  then show ?case
    by (auto simp: rollback_def insert_rollout_def Let_def quarantined_def split: option.splits)
next
  case (step_quarantine now s p reason db db')
  then show ?case using quarantined_kept by blast
next
  case (step_auto now d db result db')
  have rb: "quarantined scope policy x'" if "rollback now s reason x = (res, x')" "quarantined scope policy x" for s reason x res x'
    using that by (auto simp: rollback_def insert_rollout_def Let_def quarantined_def split: option.splits)
  show ?case using auto_cases[OF step_auto(1)] rb quarantined_kept step_auto(2) by blast
qed

section \<open>Properties\<close>

text \<open>
  C25. The stage log of every scope is a chain: each record names the policy of the record
  before it, a promotion is at most one stage above it with a percentage in the unit interval,
  and a rollback restores the policy that record had replaced, with no traffic.
\<close>

theorem rollout_history:
  assumes "reaches (\<lambda>db. db = empty_rollouts) (rollout_step mac sha) db"
  shows "stages_linked None (scope_rows scope db)"
  using rollouts.reachable_inv[OF assms] by (simp add: rollout_inv_def)

text \<open>
  C13. Quarantine is for ever: once the active policy has shown a security regression, it is
  rolled back at once and no later evaluation of it is eligible, under any thresholds and after
  any calls, so that no such evaluation promotes it.
\<close>

theorem quarantine_permanent:
  assumes "active_row (de_scope d) db = Some r" and "rr_policy r = de_policy d" and "de_security d \<noteq> 0"
    and "observe_and_auto_rollback now d db = (result, db1)" and "(rollout_step mac sha)\<^sup>*\<^sup>* db1 db2"
  shows "result = RolledBack (de_policy d) (rr_previous r) ''security-regression'' \<and>
    \<not> de_eligible (evaluate th (de_scope d) (de_policy d) db2) \<and>
    isl (promote later (evaluate th (de_scope d) (de_policy d) db2) target percentage cooldown db2)"
proof -
  let ?q = "quarantine_policy now (de_scope d) (de_policy d) ''security-regression'' db"
  have rb: "rollback now (de_scope d) ''security-regression'' ?q = (result, db1)"
    using assms(1-4) by (simp add: observe_and_auto_rollback_def)
  then have result: "result = RolledBack (de_policy d) (rr_previous r) ''security-regression''"
    using assms(1,2) by (simp add: rollback_def quarantine_active)
  have q1: "quarantined (de_scope d) (de_policy d) db1"
    using rb quarantined_now[of "de_scope d" "de_policy d" now _ db]
    by (auto simp: rollback_def insert_rollout_def Let_def quarantined_def split: option.splits)
  have "quarantined (de_scope d) (de_policy d) db2"
    using assms(5) by (induction rule: rtranclp_induct) (auto intro: q1 quarantine_step)
  then have "\<not> de_eligible (evaluate th (de_scope d) (de_policy d) db2)"
    by (simp add: evaluate_def Let_def)
  then show ?thesis using result by (simp add: promote_def)
qed

text \<open>
  What eligibility guarantees: enough observations, an observed success rate and a mean
  quality at or above their floors, no quarantine, and not one security regression in the
  window.
\<close>

theorem eligible_evidence:
  assumes "reaches (\<lambda>db. db = empty_rollouts) (rollout_step mac sha) db"
    and "de_eligible (evaluate th scope policy db)"
  shows "let rows = observed_window scope policy (th_window th) db in
    th_minimum th \<le> int (length rows) \<and>
    th_success th \<le> real (length (filter ob_success rows)) / real (length rows) \<and>
    th_quality th \<le> mean_or_zero (map ob_quality rows) \<and>
    (\<forall>ob \<in> set rows. ob_security ob = 0) \<and> \<not> quarantined scope policy db"
proof -
  let ?rows = "observed_window scope policy (th_window th) db"
  have inv: "rollout_inv db" by (rule rollouts.reachable_inv[OF assms(1)])
  have facts: "th_minimum th \<le> int (length ?rows)"
    "th_success th \<le> wilson (int (length (filter ob_success ?rows))) (int (length ?rows))"
    "th_quality th \<le> mean_or_zero (map ob_quality ?rows)" "sum_list (map ob_security ?rows) = 0"
    "\<not> quarantined scope policy db"
    using assms(2) by (simp_all add: evaluate_def Let_def split: if_splits)
  have "wilson (int (length (filter ob_success ?rows))) (int (length ?rows)) \<le>
      real (length (filter ob_success ?rows)) / real (length ?rows)"
    using wilson_le_rate[of "int (length (filter ob_success ?rows))" "int (length ?rows)"] by simp
  then have rate: "th_success th \<le> real (length (filter ob_success ?rows)) / real (length ?rows)"
    using facts(2) by linarith
  have "set ?rows \<subseteq> vo_obs ` set (rd_observations db)"
    by (auto simp: observed_window_def sql_limit_take dest: in_set_takeD)
  then have nonneg: "\<forall>x \<in> set (map ob_security ?rows). 0 \<le> x"
    using inv by (auto simp: rollout_inv_def)
  then have "\<forall>x \<in> set (map ob_security ?rows). x = 0"
    using facts(4) nonneg by (subst (asm) sum_list_nonneg_eq_0_iff) auto
  then show ?thesis using facts rate unfolding Let_def by auto
qed

text \<open>
  Two things the stages do not guarantee.  A second rollback brings back the policy that the
  first one removed; and a policy that was never observed as canary can be promoted to any stage
  that is one above the stage of whatever policy is active.
\<close>

lemma rollback_twice:
  assumes "active_row scope db = Some r" and "rollback t1 scope reason1 db = (x, db1)"
    and "rollback t2 scope reason2 db1 = (y, db2)"
  obtains r' where "active_row scope db2 = Some r'" and "rr_policy r' = rr_policy r"
proof -
  have ins: "active_row scope (snd (insert_rollout scope p st pct prev reason t d)) =
      Some \<lparr>rr_sequence = int (length (rd_rollouts d)) + 1, rr_scope = scope, rr_policy = p, rr_stage = st,
        rr_percentage = pct, rr_previous = prev, rr_reason = reason, rr_created = t\<rparr>" for p st pct prev reason t d
    by (simp add: active_row_def insert_rollout_def Let_def)
  obtain r1 where "active_row scope db1 = Some r1" "rr_previous r1 = rr_policy r"
    using assms(1,2) by (auto simp: rollback_def ins)
  then show thesis using that assms(3) by (auto simp: rollback_def ins)
qed

lemma promotion_across_policies:
  assumes "active_row (de_scope d) db = Some r" and "rr_stage r = ''staged''" and "de_eligible d"
    and "cooldown \<le> now - rr_created r"
  obtains n db' where "promote now d ''full'' None cooldown db = Inr (n, db')"
proof -
  have "stage_order ''full'' = Some 3" "rank_of ''full'' = 3" "rank_of ''staged'' = 2" "default_percentage ''full'' = 1"
    by code_simp+
  then show thesis using that assms by (simp add: promote_def insert_rollout_def Let_def)
qed

section \<open>A concrete rollout\<close>

definition demo_decision :: decision where
  "demo_decision = \<lparr>de_scope = ''s'', de_policy = ''p'', de_stage = ''shadow'', de_samples = 1, de_lower = 1,
     de_quality = 1, de_latency = 0, de_cost = 0, de_drift = 0, de_security = 0, de_eligible = True, de_reasons = []\<rparr>"

definition demo_row :: rollout_row where
  "demo_row = \<lparr>rr_sequence = 1, rr_scope = ''s'', rr_policy = ''p'', rr_stage = ''canary'', rr_percentage = 5 / 100,
     rr_previous = '''', rr_reason = ''verified-promotion'', rr_created = 0\<rparr>"

definition demo_rollouts :: rollout_db where
  "demo_rollouts = empty_rollouts\<lparr>rd_rollouts := [demo_row]\<rparr>"

definition no_mac :: "string \<Rightarrow> pyval \<Rightarrow> string" where
  "no_mac k v = ''''"

definition no_hash :: "pyval \<Rightarrow> string \<Rightarrow> string" where
  "no_hash v s = ''''"

lemma demo_promoted: "promote 0 demo_decision ''canary'' None 300 empty_rollouts = Inr (1, demo_rollouts)"
proof -
  have "stage_order ''canary'' = Some 1" "rank_of ''canary'' = 1" "rank_of ''shadow'' = 0"
    "default_percentage ''canary'' = 5 / 100" by code_simp+
  then show ?thesis
    by (simp add: promote_def demo_decision_def active_row_def insert_rollout_def demo_rollouts_def demo_row_def
        empty_rollouts_def Let_def)
qed

lemma demo_rollouts_reached: "reaches (\<lambda>db. db = empty_rollouts) (rollout_step no_mac no_hash) demo_rollouts"
  by (rule reach_step[where step = "rollout_step no_mac no_hash", OF _ step_promote[OF demo_promoted]])
    (rule reach_init, simp)

theorem rollout_history_witness: "stages_linked None (scope_rows ''s'' demo_rollouts)"
  by (rule rollout_history[OF demo_rollouts_reached])

theorem quarantine_permanent_witness:
  "fst (observe_and_auto_rollback 1 (demo_decision\<lparr>de_security := 1\<rparr>) demo_rollouts) =
     RolledBack ''p'' '''' ''security-regression'' \<and>
   \<not> de_eligible (evaluate default_thresholds ''s'' ''p''
     (snd (observe_and_auto_rollback 1 (demo_decision\<lparr>de_security := 1\<rparr>) demo_rollouts)))"
proof -
  let ?d = "demo_decision\<lparr>de_security := 1\<rparr>"
  have "active_row (de_scope ?d) demo_rollouts = Some demo_row" "rr_policy demo_row = de_policy ?d"
    by (simp_all add: active_row_def demo_rollouts_def demo_decision_def demo_row_def)
  from quarantine_permanent[OF this _ _ rtranclp.rtrancl_refl, of 1 "fst (observe_and_auto_rollback 1 ?d demo_rollouts)"
      "snd (observe_and_auto_rollback 1 ?d demo_rollouts)"]
  show ?thesis by (simp add: demo_decision_def demo_row_def)
qed

definition demo_observation :: observation where
  "demo_observation = \<lparr>ob_scope = ''s'', ob_policy = zero_hash, ob_verifier = zero_hash, ob_success = True, ob_quality = 1,
     ob_latency = 5, ob_cost = 0, ob_security = 0, ob_timestamp = 0, ob_signature = ''''\<rparr>"

definition demo_observed :: rollout_db where
  "demo_observed = empty_rollouts\<lparr>rd_observations :=
     [\<lparr>vo_sequence = 1, vo_obs = demo_observation, vo_observed = 7, vo_receipt = ''''\<rparr>]\<rparr>"

theorem eligible_evidence_witness:
  "let rows = observed_window ''s'' zero_hash 200 demo_observed in
    map ob_security rows = [0] \<and> \<not> quarantined ''s'' zero_hash demo_observed"
proof -
  let ?th = "default_thresholds\<lparr>th_minimum := 1, th_success := 0\<rparr>"
  have len: "length zero_hash = 64" by code_simp
  have "record_observation no_mac no_hash None 7 demo_observation False empty_rollouts = Inr (1, demo_observed)"
    by (simp add: record_observation_def demo_observation_def len ascii_def no_hash_def demo_observed_def
        empty_rollouts_def Let_def)
  then have step: "rollout_step no_mac no_hash empty_rollouts demo_observed" by (rule step_record)
  have reached: "reaches (\<lambda>db. db = empty_rollouts) (rollout_step no_mac no_hash) demo_observed"
    by (rule reach_step[where step = "rollout_step no_mac no_hash", OF _ step]) (rule reach_init, simp)
  have rows: "observed_window ''s'' zero_hash 200 demo_observed = [demo_observation]"
    by (simp add: observed_window_def demo_observed_def demo_observation_def empty_rollouts_def)
  have "0 \<le> wilson 1 1" by (simp add: wilson_def Let_def)
  moreover have "observed_window ''s'' zero_hash (th_window ?th) demo_observed = [demo_observation]"
    using rows by (simp add: default_thresholds_def)
  ultimately have "de_eligible (evaluate ?th ''s'' zero_hash demo_observed)"
    by (simp add: evaluate_def percentile_def drift_def mean_or_zero_def above_def quarantined_def Let_def
        default_thresholds_def demo_observation_def demo_observed_def empty_rollouts_def fmean_def)
  from eligible_evidence[OF reached this] show ?thesis
    by (simp add: default_thresholds_def Let_def rows)
qed

end
