(* ===== verification/ProviderRouter.thy ===== *)
theory ProviderRouter
  imports Prelude
begin

text \<open>
  The router of \<open>syntavra_runtime/adaptive_provider_router.py\<close>: a task is classified by
  complexity, the candidates that cannot serve it are dropped, and the rest are ranked by a score
  of quality, cost, latency, quota and priority.  Scores are exact rationals.
\<close>

section \<open>Candidates\<close>

record provider_candidate =
  pc_provider :: string
  pc_model :: string
  pc_available :: bool
  pc_quota :: rat
  pc_limited_until :: rat
  pc_input_cost :: rat
  pc_output_cost :: rat
  pc_latency :: rat
  pc_quality :: rat
  pc_complexity :: string
  pc_window :: int
  pc_account :: string
  pc_subscription :: bool
  pc_priority :: int

record provider_route =
  pt_provider :: string
  pt_model :: string
  pt_account :: string
  pt_complexity :: string
  pt_score :: rat
  pt_reasons :: "string list"
  pt_fallbacks :: "(string \<times> string \<times> string) list"
  pt_receipt :: string

definition complexity_order :: "string \<Rightarrow> nat option" where
  "complexity_order = map_of [(''simple'', 0), (''medium'', 1), (''complex'', 2), (''reasoning'', 3)]"

definition classify :: "string \<Rightarrow> int \<Rightarrow> int \<Rightarrow> string" where
  "classify task changed_files token_estimate =
     (let corpus = py_casefold task;
          score = (if list_ex (\<lambda>term. has_substring term corpus)
              [''architecture'', ''security'', ''migration'', ''race condition'', ''formal'', ''proof'', ''root cause'']
              then 2 else 0) +
            (if list_ex (\<lambda>term. has_substring term corpus)
              [''refactor'', ''debug'', ''benchmark'', ''cross-repo'', ''dependency''] then 1 else 0) +
            (if changed_files \<ge> 8 then 1 else 0) + (if token_estimate \<ge> 16000 then 1 else (0 :: int))
      in if score \<ge> 4 then ''reasoning'' else if score \<ge> 2 then ''complex''
         else if score = 1 then ''medium'' else ''simple'')"

section \<open>Ranking\<close>

definition usable :: "rat \<Rightarrow> nat \<Rightarrow> int \<Rightarrow> provider_candidate \<Rightarrow> bool" where
  "usable now needed token_estimate row \<longleftrightarrow>
     pc_available row \<and> \<not> pc_limited_until row > now \<and> \<not> pc_quota row \<le> 0 \<and>
     \<not> (case complexity_order (pc_complexity row) of None \<Rightarrow> 0 | Some n \<Rightarrow> n) < needed \<and>
     \<not> (pc_window row \<noteq> 0 \<and> token_estimate > pc_window row)"

definition blended_cost :: "provider_candidate \<Rightarrow> rat" where
  "blended_cost row = pc_input_cost row + pc_output_cost row * 2"

definition score_of :: "bool \<Rightarrow> provider_candidate \<Rightarrow> rat" where
  "score_of prefer_subscription row =
     pc_quality row * 60 - blended_cost row * 2 - pc_latency row / 1000 + min 20 (pc_quota row * 20) +
     of_int (max (-20) (min 20 (pc_priority row))) * (1 / 2) +
     (if prefer_subscription \<and> pc_subscription row then 15 else 0)"

definition reasons_of :: "bool \<Rightarrow> provider_candidate \<Rightarrow> string list" where
  "reasons_of prefer_subscription row =
     (if prefer_subscription \<and> pc_subscription row then [''subscription-account'']
      else if blended_cost row = 0 then [''zero-priced-model''] else []) @
     [''quality='' @ fixed 3 (pc_quality row), ''quota='' @ fixed 3 (pc_quota row),
      ''priority='' @ int_str (pc_priority row), ''latency_ms='' @ fixed 1 (pc_latency row),
      ''cost_index='' @ fixed 4 (blended_cost row)]"

definition rank_key :: "bool \<Rightarrow> provider_candidate \<Rightarrow> rat \<times> string \<times> string \<times> string" where
  "rank_key prefer row = (- score_of prefer row, pc_provider row, pc_model row, pc_account row)"

definition route_body ::
  "provider_candidate \<Rightarrow> string \<Rightarrow> rat \<Rightarrow> string list \<Rightarrow> (string \<times> string \<times> string) list \<Rightarrow> pyval" where
  "route_body selected complexity score reasons fallbacks = PyDict
     [(''provider'', PyStr (pc_provider selected)), (''model'', PyStr (pc_model selected)),
      (''account'', PyStr (pc_account selected)), (''complexity'', PyStr complexity), (''score'', PyFloat score),
      (''reasons'', PyTuple (map PyStr reasons)),
      (''fallbacks'', PyTuple (map (\<lambda>(p, m, a). PyTuple [PyStr p, PyStr m, PyStr a]) fallbacks))]"

definition route_candidates ::
  "(pyval \<Rightarrow> string) \<Rightarrow> provider_candidate list \<Rightarrow> string \<Rightarrow> int \<Rightarrow> int \<Rightarrow> rat \<Rightarrow> bool \<Rightarrow> string + provider_route" where
  "route_candidates sha candidates task changed_files token_estimate now prefer_subscription =
     (let complexity = classify task changed_files token_estimate;
          needed = the (complexity_order complexity);
          ranked = sort_key (rank_key prefer_subscription) (filter (usable now needed token_estimate) candidates)
      in case ranked of
        [] \<Rightarrow> Inl ''no provider satisfies availability, quota, rate-limit, context and complexity constraints''
      | selected # rest \<Rightarrow>
          let fallback = map (\<lambda>row. (pc_provider row, pc_model row, pc_account row)) (take 5 rest);
              score = score_of prefer_subscription selected;
              reasons = reasons_of prefer_subscription selected
          in Inr \<lparr>pt_provider = pc_provider selected, pt_model = pc_model selected, pt_account = pc_account selected,
               pt_complexity = complexity, pt_score = score, pt_reasons = reasons, pt_fallbacks = fallback,
               pt_receipt = digest sha (route_body selected complexity score reasons fallback)\<rparr>)"

section \<open>The choice\<close>

lemma classify_order: "complexity_order (classify task f t) \<noteq> None"
proof -
  have "complexity_order ''reasoning'' \<noteq> None" "complexity_order ''complex'' \<noteq> None"
    "complexity_order ''medium'' \<noteq> None" "complexity_order ''simple'' \<noteq> None" by code_simp+
  then show ?thesis by (simp add: classify_def Let_def)
qed

text \<open>The selected candidate is usable and no usable one scores higher.\<close>

lemma route_candidates_Inr:
  assumes "route_candidates sha cs task f t now prefer = Inr r"
  obtains c where "c \<in> set cs" and "usable now (the (complexity_order (classify task f t))) t c"
    and "pt_provider r = pc_provider c" and "pt_model r = pc_model c" and "pt_account r = pc_account c"
    and "pt_score r = score_of prefer c"
    and "\<forall>d \<in> set cs. usable now (the (complexity_order (classify task f t))) t d \<longrightarrow> score_of prefer d \<le> score_of prefer c"
proof -
  let ?us = "filter (usable now (the (complexity_order (classify task f t))) t) cs"
  obtain c rest where ranked: "sort_key (rank_key prefer) ?us = c # rest"
    using assms by (auto simp: route_candidates_def Let_def split: list.splits)
  have set: "set (c # rest) = set ?us" unfolding ranked[symmetric] by simp
  have "sorted (map (rank_key prefer) (c # rest))" unfolding ranked[symmetric] by simp
  then have "\<forall>d \<in> set (c # rest). rank_key prefer c \<le> rank_key prefer d" by auto
  then have best: "\<forall>d \<in> set ?us. score_of prefer d \<le> score_of prefer c"
    unfolding set by (auto simp: rank_key_def less_eq_prod_def)
  have "c \<in> set ?us" using set by auto
  moreover have "pt_provider r = pc_provider c" "pt_model r = pc_model c" "pt_account r = pc_account c"
    "pt_score r = score_of prefer c"
    using assms ranked by (auto simp: route_candidates_def Let_def)
  ultimately show thesis using that best by auto
qed

text \<open>A route is found exactly when some candidate is usable.\<close>

lemma route_candidates_total:
  "(\<exists>r. route_candidates sha cs task f t now prefer = Inr r) \<longleftrightarrow>
   (\<exists>c \<in> set cs. usable now (the (complexity_order (classify task f t))) t c)"
proof -
  let ?us = "filter (usable now (the (complexity_order (classify task f t))) t) cs"
  have "(\<exists>r. route_candidates sha cs task f t now prefer = Inr r) \<longleftrightarrow> sort_key (rank_key prefer) ?us \<noteq> []"
    by (auto simp: route_candidates_def Let_def split: list.splits)
  also have "\<dots> \<longleftrightarrow> set (sort_key (rank_key prefer) ?us) \<noteq> {}" by (simp only: set_empty)
  also have "\<dots> \<longleftrightarrow> (\<exists>c \<in> set cs. usable now (the (complexity_order (classify task f t))) t c)"
    by (auto simp: filter_empty_conv)
  finally show ?thesis .
qed

end
