(* ===== verification/ProviderPool.thy ===== *)
theory ProviderPool
  imports ProviderRouter
begin

text \<open>
  The account pool of \<open>syntavra_runtime/provider_account_pool.py\<close>: accounts with a reference to
  their credential, quota, rate limit and a circuit breaker, and routing over them.  Only
  references are stored; the two regular expressions that decide what a reference is are
  written as matchers.
\<close>

section \<open>Names and references\<close>

definition upper_alpha :: "char \<Rightarrow> bool" where
  "upper_alpha c \<longleftrightarrow> (let n = (of_char c :: nat) in 65 \<le> n \<and> n \<le> 90)"

definition lower_alpha :: "char \<Rightarrow> bool" where
  "lower_alpha c \<longleftrightarrow> (let n = (of_char c :: nat) in 97 \<le> n \<and> n \<le> 122)"

definition provider_char :: "char \<Rightarrow> bool" where
  "provider_char c \<longleftrightarrow> lower_alpha c \<or> py_digit c"

definition account_char :: "char \<Rightarrow> bool" where
  "account_char c \<longleftrightarrow> upper_alpha c \<or> lower_alpha c \<or> py_digit c"

text \<open>\<open>[first][rest]{0,n}\<close>, matched in full.\<close>

definition name_shape :: "(char \<Rightarrow> bool) \<Rightarrow> string \<Rightarrow> nat \<Rightarrow> string \<Rightarrow> bool" where
  "name_shape P extra n s \<longleftrightarrow>
     s \<noteq> '''' \<and> P (hd s) \<and> length (tl s) \<le> n \<and> list_all (\<lambda>c. P c \<or> c \<in> set extra) (tl s)"

definition normalize_names :: "string \<Rightarrow> string \<Rightarrow> string + string \<times> string" where
  "normalize_names provider account =
     (let provider_name = py_casefold (py_strip provider); account_name = py_strip account in
      if provider_name = '''' \<or> account_name = '''' then Inl ''provider and account are required''
      else if \<not> name_shape provider_char ''_.-'' 63 provider_name
      then Inl ''provider contains unsupported characters''
      else if \<not> name_shape account_char ''_.@-'' 127 account_name
      then Inl ''account contains unsupported characters''
      else Inr (provider_name, account_name))"

definition reference_char :: "char \<Rightarrow> bool" where
  "reference_char c \<longleftrightarrow> account_char c \<or> c \<in> set ''_.@/:-''"

definition credential_reference :: "string \<Rightarrow> bool" where
  "credential_reference s \<longleftrightarrow>
     list_ex (\<lambda>prefix. take (length prefix) s = prefix \<and>
       (let rest = drop (length prefix) s in
        1 \<le> length rest \<and> length rest \<le> 240 \<and> list_all reference_char rest))
     [''env:'', ''file:'', ''keyring:'', ''oauth-profile:'']"

text \<open>The secret shapes \<open>sk-...\<close>, \<open>ghp_...\<close> and \<open>bearer ...\<close> at the head of a text, in any case.\<close>

definition run_at_least :: "nat \<Rightarrow> (char \<Rightarrow> bool) \<Rightarrow> string \<Rightarrow> bool" where
  "run_at_least n P s \<longleftrightarrow> n \<le> length (takeWhile P s)"

definition secret_head :: "string \<Rightarrow> bool" where
  "secret_head s \<longleftrightarrow>
     (py_lower (take 3 s) = ''sk-'' \<and> run_at_least 16 (\<lambda>c. account_char c \<or> c \<in> set ''_-'') (drop 3 s)) \<or>
     (py_lower (take 2 s) = ''gh'' \<and> length s > 3 \<and> lower_char (s ! 2) \<in> set ''opusr'' \<and> s ! 3 = CHR ''_'' \<and>
       run_at_least 20 account_char (drop 4 s)) \<or>
     (py_lower (take 6 s) = ''bearer'' \<and> run_at_least 1 py_space (drop 6 s) \<and>
       dropWhile py_space (drop 6 s) \<noteq> '''')"

fun secret_shapes :: "string \<Rightarrow> bool" where
  "secret_shapes [] = False"
| "secret_shapes (c # s) \<longleftrightarrow> secret_head (c # s) \<or> secret_shapes s"

definition check_reference :: "string \<Rightarrow> string + string" where
  "check_reference value =
     (let reference = py_strip value in
      if secret_shapes reference \<or> \<not> credential_reference reference
      then Inl ''credential_ref must be a non-secret env/file/keyring/oauth-profile reference''
      else Inr reference)"

section \<open>Accounts\<close>

record provider_account =
  ac_provider :: string
  ac_account :: string
  ac_reference :: string
  ac_subscription :: bool
  ac_priority :: int
  ac_quota :: rat
  ac_reset :: rat
  ac_limited_until :: rat
  ac_open_until :: rat
  ac_latency :: rat
  ac_success :: int
  ac_failure :: int
  ac_disabled :: bool
  ac_models :: "string list"
  ac_updated :: rat

text \<open>A row of the table has one more column.\<close>

record account_row = provider_account +
  ar_failures :: int

type_synonym pool = "account_row list"

definition health_ratio :: "provider_account \<Rightarrow> rat" where
  "health_ratio a =
     (let n = ac_success a + ac_failure a in if n = 0 then 1 else of_int (ac_success a) / of_int n)"

definition account_of_row :: "account_row \<Rightarrow> provider_account" where
  "account_of_row r = provider_account.truncate r"

definition account_key :: "account_row \<Rightarrow> string \<times> string" where
  "account_key r = (ac_provider r, ac_account r)"

definition find_account :: "string \<times> string \<Rightarrow> pool \<Rightarrow> account_row option" where
  "find_account k rows = find (\<lambda>r. account_key r = k) rows"

definition unit_clamp :: "rat \<Rightarrow> rat" where
  "unit_clamp x = min 1 (max 0 x)"

definition get_account :: "string \<Rightarrow> string \<Rightarrow> pool \<Rightarrow> py_error + provider_account" where
  "get_account provider account rows =
     bindE (valueE (normalize_names provider account)) (\<lambda>(p, a).
     case find_account (p, a) rows of
       None \<Rightarrow> Inl (KeyError (p @ ''/'' @ a)) | Some r \<Rightarrow> Inr (account_of_row r))"

definition register_account ::
  "rat \<Rightarrow> string \<Rightarrow> string \<Rightarrow> string \<Rightarrow> bool \<Rightarrow> int \<Rightarrow> rat \<Rightarrow> rat \<Rightarrow> string list \<Rightarrow> pool \<Rightarrow>
   py_error + provider_account \<times> pool" where
  "register_account now provider account credential_ref subscription priority quota_remaining quota_reset_at models rows =
     bindE (valueE (normalize_names provider account)) (\<lambda>(p, a).
     bindE (valueE (check_reference credential_ref)) (\<lambda>reference.
     let quota = unit_clamp quota_remaining;
         allowlist = sorted_set (filter (\<lambda>m. m \<noteq> '''') (map py_strip models));
         rows' = (if find_account (p, a) rows = None
           then rows @ [\<lparr>ac_provider = p, ac_account = a, ac_reference = reference, ac_subscription = subscription,
             ac_priority = priority, ac_quota = quota, ac_reset = quota_reset_at, ac_limited_until = 0,
             ac_open_until = 0, ac_latency = 0, ac_success = 0, ac_failure = 0, ac_disabled = False,
             ac_models = allowlist, ac_updated = now, ar_failures = 0\<rparr>]
           else update_where (\<lambda>r. account_key r = (p, a))
             (\<lambda>r. r\<lparr>ac_reference := reference, ac_subscription := subscription, ac_priority := priority,
               ac_quota := quota, ac_reset := quota_reset_at, ac_models := allowlist, ac_disabled := False,
               ac_updated := now\<rparr>) rows)
     in bindE (get_account p a rows') (\<lambda>acc. Inr (acc, rows'))))"

definition list_accounts :: "string option \<Rightarrow> pool \<Rightarrow> provider_account list" where
  "list_accounts provider rows =
     map account_of_row
       (case provider of
          Some p \<Rightarrow> if p \<noteq> '''' then sort_key (\<lambda>r. (- ac_priority r, ac_account r))
              (filter (\<lambda>r. ac_provider r = py_casefold p) rows)
            else sort_key (\<lambda>r. (ac_provider r, - ac_priority r, ac_account r)) rows
        | None \<Rightarrow> sort_key (\<lambda>r. (ac_provider r, - ac_priority r, ac_account r)) rows)"

section \<open>Results of calls\<close>

definition next_latency :: "rat \<Rightarrow> rat \<Rightarrow> rat" where
  "next_latency previous latency_ms =
     (let observed = max 0 latency_ms in
      if previous \<le> 0 then observed else previous * (8 / 10) + observed * (2 / 10))"

definition backoff :: "int \<Rightarrow> rat" where
  "backoff failures = min 900 (30 * 2 ^ nat (min 5 (failures - 3)))"

definition next_open :: "bool \<Rightarrow> int \<Rightarrow> rat \<Rightarrow> rat \<Rightarrow> rat" where
  "next_open success failures timestamp open_until =
     (if success then 0
      else if failures \<ge> 3 then max open_until (timestamp + backoff failures) else open_until)"

definition result_row ::
  "bool \<Rightarrow> rat \<Rightarrow> rat option \<Rightarrow> rat option \<Rightarrow> rat \<Rightarrow> rat \<Rightarrow> account_row \<Rightarrow> account_row" where
  "result_row success latency_ms quota reset_at retry_after timestamp r =
     (let failures = (if success then 0 else ar_failures r + 1) in
      r\<lparr>ac_quota := (case quota of None \<Rightarrow> ac_quota r | Some q \<Rightarrow> unit_clamp q),
        ac_reset := (case reset_at of None \<Rightarrow> ac_reset r | Some t \<Rightarrow> t),
        ac_limited_until := max (ac_limited_until r) (timestamp + max 0 retry_after),
        ac_open_until := next_open success failures timestamp (ac_open_until r),
        ac_latency := next_latency (ac_latency r) latency_ms,
        ac_success := ac_success r + (if success then 1 else 0),
        ac_failure := ac_failure r + (if success then 0 else 1),
        ar_failures := failures, ac_updated := timestamp\<rparr>)"

definition record_result ::
  "string \<Rightarrow> string \<Rightarrow> bool \<Rightarrow> rat \<Rightarrow> rat option \<Rightarrow> rat option \<Rightarrow> rat \<Rightarrow> rat \<Rightarrow> pool \<Rightarrow>
   py_error + provider_account \<times> pool" where
  "record_result provider account success latency_ms quota reset_at retry_after timestamp rows =
     bindE (valueE (normalize_names provider account)) (\<lambda>(p, a).
     case find_account (p, a) rows of
       None \<Rightarrow> Inl (KeyError (p @ ''/'' @ a))
     | Some row \<Rightarrow>
         let rows' = update_where (\<lambda>r. account_key r = (p, a))
               (\<lambda>_. result_row success latency_ms quota reset_at retry_after timestamp row) rows
         in bindE (get_account p a rows') (\<lambda>acc. Inr (acc, rows')))"

section \<open>Routing\<close>

record model_row =
  mr_provider :: "string option"
  mr_model :: "string option"
  mr_input_cost :: "rat option"
  mr_output_cost :: "rat option"
  mr_latency :: "rat option"
  mr_quality :: "rat option"
  mr_complexity :: "string option"
  mr_window :: "int option"

definition or_default :: "'a \<Rightarrow> 'a option \<Rightarrow> 'a" where
  "or_default d x = (case x of None \<Rightarrow> d | Some y \<Rightarrow> y)"

definition quota_at :: "rat \<Rightarrow> provider_account \<Rightarrow> rat" where
  "quota_at timestamp a =
     (if ac_reset a \<noteq> 0 \<and> ac_reset a \<le> timestamp then 1 else ac_quota a)"

definition candidate_of :: "rat \<Rightarrow> model_row \<Rightarrow> provider_account \<Rightarrow> provider_candidate" where
  "candidate_of timestamp m a =
     \<lparr>pc_provider = py_casefold (or_default '''' (mr_provider m)), pc_model = or_default '''' (mr_model m),
      pc_available = (ac_open_until a \<le> timestamp), pc_quota = quota_at timestamp a,
      pc_limited_until = ac_limited_until a, pc_input_cost = or_default 0 (mr_input_cost m),
      pc_output_cost = or_default 0 (mr_output_cost m),
      pc_latency = (if ac_latency a \<noteq> 0 then ac_latency a else or_default 0 (mr_latency m)),
      pc_quality = or_default (1 / 2) (mr_quality m) * (75 / 100 + 25 / 100 * health_ratio a),
      pc_complexity = or_default ''reasoning'' (mr_complexity m), pc_window = or_default 0 (mr_window m),
      pc_account = ac_account a, pc_subscription = ac_subscription a, pc_priority = ac_priority a\<rparr>"

definition serves :: "model_row \<Rightarrow> provider_account \<Rightarrow> bool" where
  "serves m a \<longleftrightarrow>
     ac_provider a = py_casefold (or_default '''' (mr_provider m)) \<and> \<not> ac_disabled a \<and>
     \<not> (ac_models a \<noteq> [] \<and> or_default '''' (mr_model m) \<notin> set (ac_models a))"

definition candidates :: "rat \<Rightarrow> model_row list \<Rightarrow> pool \<Rightarrow> provider_candidate list" where
  "candidates timestamp model_rows rows =
     concat (map (\<lambda>m. map (candidate_of timestamp m) (filter (serves m) (list_accounts None rows))) model_rows)"

definition free_of_charge :: "provider_candidate \<Rightarrow> provider_candidate" where
  "free_of_charge c = c\<lparr>pc_input_cost := 0, pc_output_cost := 0\<rparr>"

definition adjust :: "bool \<Rightarrow> (string \<times> string) set \<Rightarrow> provider_candidate \<Rightarrow> provider_candidate" where
  "adjust prefer_subscription subscriptions c =
     (if (pc_provider c, pc_account c) \<in> subscriptions \<and> prefer_subscription then free_of_charge c else c)"

text \<open>
  Without an explicit time, \<open>candidates\<close> and the router each read the clock; \<open>now\<close> and
  \<open>later\<close> are the two readings, equal when the caller passes a time.
\<close>

definition route ::
  "(pyval \<Rightarrow> string) \<Rightarrow> string \<Rightarrow> model_row list \<Rightarrow> int \<Rightarrow> int \<Rightarrow> rat \<Rightarrow> rat \<Rightarrow> bool \<Rightarrow> pool \<Rightarrow> string + provider_route" where
  "route sha task model_rows changed_files token_estimate now later prefer_subscription rows =
     (let subscriptions = (\<lambda>a. (ac_provider a, ac_account a)) ` set (filter ac_subscription (list_accounts None rows));
          adjusted = map (adjust prefer_subscription subscriptions) (candidates now model_rows rows)
      in route_candidates sha adjusted task changed_files token_estimate later prefer_subscription)"

definition account_py :: "provider_account \<Rightarrow> pyval" where
  "account_py a = PyDict
     [(''provider'', PyStr (ac_provider a)), (''account'', PyStr (ac_account a)),
      (''credential_ref'', PyStr (ac_reference a)), (''subscription'', PyBool (ac_subscription a)),
      (''priority'', PyInt (ac_priority a)), (''quota_remaining'', PyFloat (ac_quota a)),
      (''quota_reset_at'', PyFloat (ac_reset a)), (''rate_limited_until'', PyFloat (ac_limited_until a)),
      (''circuit_open_until'', PyFloat (ac_open_until a)), (''latency_ewma_ms'', PyFloat (ac_latency a)),
      (''success_count'', PyInt (ac_success a)), (''failure_count'', PyInt (ac_failure a)),
      (''disabled'', PyBool (ac_disabled a)), (''model_allowlist'', PyTuple (map PyStr (ac_models a))),
      (''updated_at'', PyFloat (ac_updated a)), (''health_ratio'', PyFloat (health_ratio a))]"

definition pool_receipt :: "(pyval \<Rightarrow> string) \<Rightarrow> pool \<Rightarrow> fields" where
  "pool_receipt sha rows =
     (let body = [(''schema_version'', PyInt 1), (''accounts'', PyList (map account_py (list_accounts None rows)))]
      in body @ [(''receipt_hash'', PyStr (digest sha (PyDict body)))])"

section \<open>Normal names and references\<close>

lemma provider_char_facts: "provider_char c \<or> c \<in> set ''_.-'' \<Longrightarrow> \<not> py_space c \<and> lower_char c = c"
  by (auto simp: provider_char_def lower_alpha_def py_digit_def py_space_def lower_char_def Let_def)

lemma account_char_facts: "account_char c \<or> c \<in> set ''_.@-'' \<Longrightarrow> \<not> py_space c"
  by (auto simp: account_char_def upper_alpha_def lower_alpha_def py_digit_def py_space_def Let_def)

lemma name_shape_all: "name_shape P extra n s \<Longrightarrow> list_all (\<lambda>c. P c \<or> c \<in> set extra) s"
  by (cases s) (auto simp: name_shape_def)

lemma normalize_names_idem:
  assumes "normalize_names p a = Inr (p', a')"
  shows "normalize_names p' a' = Inr (p', a')"
proof -
  have ok: "p' \<noteq> ''''" "a' \<noteq> ''''" "name_shape provider_char ''_.-'' 63 p'" "name_shape account_char ''_.@-'' 127 a'"
    using assms by (auto simp: normalize_names_def Let_def split: if_splits)
  have pc: "\<not> py_space c \<and> lower_char c = c" if "c \<in> set p'" for c
    using name_shape_all[OF ok(3)] that provider_char_facts unfolding list_all_iff by blast
  then have "list_all (\<lambda>c. \<not> py_space c) p'" "py_casefold p' = p'"
    by (auto simp: list_all_iff py_casefold_def map_idI)
  moreover have "list_all (\<lambda>c. \<not> py_space c) a'"
    using name_shape_all[OF ok(4)] account_char_facts unfolding list_all_iff by blast
  ultimately show ?thesis using ok by (simp add: normalize_names_def py_strip_none)
qed

lemma check_reference_idem: "check_reference v = Inr r \<Longrightarrow> check_reference r = Inr r"
  by (auto simp: check_reference_def Let_def split: if_splits)

section \<open>The invariant of the pool\<close>

definition account_ok :: "account_row \<Rightarrow> bool" where
  "account_ok r \<longleftrightarrow> normalize_names (ac_provider r) (ac_account r) = Inr (account_key r) \<and>
     check_reference (ac_reference r) = Inr (ac_reference r) \<and> 0 \<le> ac_quota r \<and> ac_quota r \<le> 1 \<and>
     0 \<le> ac_latency r \<and> 0 \<le> ac_success r \<and> 0 \<le> ar_failures r \<and> ar_failures r \<le> ac_failure r"

definition pool_inv :: "pool \<Rightarrow> bool" where
  "pool_inv rows \<longleftrightarrow> distinct (map account_key rows) \<and> (\<forall>r \<in> set rows. account_ok r)"

inductive pool_step :: "pool \<Rightarrow> pool \<Rightarrow> bool" where
  step_register: "register_account now p a ref sub prio quota reset models rows = Inr (acc, rows') \<Longrightarrow> pool_step rows rows'"
| step_result: "record_result p a success lat quota reset retry t rows = Inr (acc, rows') \<Longrightarrow> pool_step rows rows'"

lemma unit_clamp_bounds [simp]: "0 \<le> unit_clamp x" "unit_clamp x \<le> 1"
  by (simp_all add: unit_clamp_def)

lemma find_account_Some: "find_account k rows = Some r \<Longrightarrow> r \<in> set rows \<and> account_key r = k"
  unfolding find_account_def by (rule find_SomeD)

lemma find_account_None: "find_account k rows = None \<longleftrightarrow> k \<notin> account_key ` set rows"
  by (auto simp: find_account_def find_None_iff)

lemma find_account_mem: "distinct (map account_key rows) \<Longrightarrow> r \<in> set rows \<Longrightarrow> find_account (account_key r) rows = Some r"
  by (induction rows) (auto simp: find_account_def image_iff)

lemma result_row_key [simp]: "account_key (result_row success lat quota reset retry t r) = account_key r"
  by (simp add: account_key_def result_row_def Let_def)

lemma result_row_ok: "account_ok r \<Longrightarrow> account_ok (result_row success lat quota reset retry t r)"
  by (simp add: account_ok_def account_key_def result_row_def next_latency_def Let_def split: option.splits)

lemma record_result_Inr:
  assumes "record_result p a success lat quota reset retry t rows = Inr (acc, rows')"
  obtains k row where "normalize_names p a = Inr k" and "find_account k rows = Some row"
    and "rows' = update_where (\<lambda>r. account_key r = k) (\<lambda>_. result_row success lat quota reset retry t row) rows"
    and "acc = account_of_row (result_row success lat quota reset retry t row)"
    and "find_account k rows' = Some (result_row success lat quota reset retry t row)"
proof -
  obtain p' a' where n: "normalize_names p a = Inr (p', a')"
    using assms by (auto simp: record_result_def)
  obtain row where row: "find_account (p', a') rows = Some row"
    using assms n by (auto simp: record_result_def split: option.splits)
  let ?new = "result_row success lat quota reset retry t row"
  define rows1 where "rows1 = update_where (\<lambda>r. account_key r = (p', a')) (\<lambda>_. ?new) rows"
  have key: "account_key row = (p', a')" using find_account_Some[OF row] by simp
  have "find (\<lambda>r. account_key r = account_key row) (update_where (\<lambda>r. account_key r = account_key row) (\<lambda>_. ?new) xs) = Some ?new"
    if "find (\<lambda>r. account_key r = account_key row) xs = Some row" for xs
    using that by (induction xs) (auto split: if_splits)
  then have found: "find_account (p', a') rows1 = Some ?new"
    using row unfolding rows1_def find_account_def key[symmetric] by blast
  have "get_account p' a' rows1 = Inr (account_of_row ?new)"
    using normalize_names_idem[OF n] found by (simp add: get_account_def)
  then have "acc = account_of_row ?new" "rows' = rows1"
    using assms n row by (auto simp: record_result_def Let_def rows1_def)
  then show thesis using that[OF n row] found by (simp add: rows1_def)
qed

lemma register_account_inv:
  assumes inv: "pool_inv rows"
    and reg: "register_account now p a ref sub prio quota reset models rows = Inr (acc, rows')"
  shows "pool_inv rows'"
proof -
  obtain p' a' where n: "normalize_names p a = Inr (p', a')"
    using reg by (auto simp: register_account_def)
  obtain r' where r': "check_reference ref = Inr r'"
    using reg n by (auto simp: register_account_def)
  define allow where "allow = sorted_set (filter (\<lambda>m. m \<noteq> '''') (map py_strip models))"
  have rows': "rows' = (if find_account (p', a') rows = None
           then rows @ [\<lparr>ac_provider = p', ac_account = a', ac_reference = r', ac_subscription = sub,
             ac_priority = prio, ac_quota = unit_clamp quota, ac_reset = reset, ac_limited_until = 0,
             ac_open_until = 0, ac_latency = 0, ac_success = 0, ac_failure = 0, ac_disabled = False,
             ac_models = allow, ac_updated = now, ar_failures = 0\<rparr>]
           else update_where (\<lambda>r. account_key r = (p', a'))
             (\<lambda>r. r\<lparr>ac_reference := r', ac_subscription := sub, ac_priority := prio, ac_quota := unit_clamp quota,
               ac_reset := reset, ac_models := allow, ac_disabled := False, ac_updated := now\<rparr>) rows)"
    using reg n r' by (auto simp: register_account_def Let_def allow_def split: if_splits)
  note names = normalize_names_idem[OF n] and ref = check_reference_idem[OF r']
  show ?thesis
  proof (cases "find_account (p', a') rows = None")
    case True
    then have "(p', a') \<notin> account_key ` set rows" by (simp add: find_account_None)
    then show ?thesis using inv names ref unfolding rows' if_P[OF True]
      by (simp add: pool_inv_def account_ok_def account_key_def)
  next
    case False
    have "map account_key rows' = map account_key rows"
      unfolding rows' if_not_P[OF False] by (rule map_update_where_same) (simp add: account_key_def)
    moreover have "\<forall>r \<in> set rows'. account_ok r"
      unfolding rows' if_not_P[OF False]
      by (rule ball_update_where) (use inv ref in \<open>auto simp: pool_inv_def account_ok_def account_key_def\<close>)
    ultimately show ?thesis using inv by (simp add: pool_inv_def)
  qed
qed

lemma record_inv:
  assumes inv: "pool_inv rows" and rec: "record_result p a success lat quota reset retry t rows = Inr (acc, rows')"
  shows "pool_inv rows'"
proof (rule record_result_Inr[OF rec])
  fix k row
  let ?new = "result_row success lat quota reset retry t row"
  assume row: "find_account k rows = Some row"
    and rows': "rows' = update_where (\<lambda>r. account_key r = k) (\<lambda>_. ?new) rows"
  have row: "row \<in> set rows" "account_key row = k" using find_account_Some[OF row] by simp_all
  have "map account_key rows' = map account_key rows"
    unfolding rows' by (rule map_update_where_same) (simp add: row)
  moreover have "\<forall>r \<in> set rows'. account_ok r"
    unfolding rows' by (rule ball_update_where) (use inv row result_row_ok in \<open>auto simp: pool_inv_def\<close>)
  ultimately show ?thesis using inv by (simp add: pool_inv_def)
qed

lemma pool_step_inv: "pool_step rows rows' \<Longrightarrow> pool_inv rows \<Longrightarrow> pool_inv rows'"
  by (induction rule: pool_step.induct) (auto intro: register_account_inv record_inv)

interpretation pools: stateful "\<lambda>rows. rows = []" pool_step pool_inv
  by unfold_locales (auto simp: pool_inv_def[of "[]"] intro: pool_step_inv)

section \<open>Routing over the pool\<close>

lemma adjust_fields [simp]:
  "pc_provider (adjust pr subs c) = pc_provider c" "pc_account (adjust pr subs c) = pc_account c"
  "pc_model (adjust pr subs c) = pc_model c" "usable now n t (adjust pr subs c) = usable now n t c"
  by (simp_all add: adjust_def free_of_charge_def usable_def)

lemma set_list_accounts [simp]: "set (list_accounts None rows) = account_of_row ` set rows"
  by (simp add: list_accounts_def)

lemma set_candidates:
  "set (candidates now ms rows) = {candidate_of now m (account_of_row r) |m r. m \<in> set ms \<and> r \<in> set rows \<and> serves m (account_of_row r)}"
  by (auto simp: candidates_def)

lemma account_of_row_fields [simp]:
  "ac_provider (account_of_row r) = ac_provider r" "ac_account (account_of_row r) = ac_account r"
  "ac_reference (account_of_row r) = ac_reference r" "ac_open_until (account_of_row r) = ac_open_until r"
  "ac_limited_until (account_of_row r) = ac_limited_until r" "ac_disabled (account_of_row r) = ac_disabled r"
  "ac_models (account_of_row r) = ac_models r" "ac_quota (account_of_row r) = ac_quota r"
  "ac_failure (account_of_row r) = ac_failure r" "ac_subscription (account_of_row r) = ac_subscription r" "ac_reset (account_of_row r) = ac_reset r"
  by (simp_all add: account_of_row_def provider_account.defs)

text \<open>
  What a route asks of an account and a requested model, test by test: the model's provider and the
  allow list of the account, the circuit and the rate limit, quota left (or reset by now), a model for
  tasks at least as complex as this one (an unknown complexity counts as simple) and, where the model
  gives its window, room for the tokens.
\<close>

definition complexity_level :: "string \<Rightarrow> nat" where
  "complexity_level name =
     (if name = ''medium'' then 1 else if name = ''complex'' then 2 else if name = ''reasoning'' then 3 else 0)"

definition eligible :: "string \<Rightarrow> int \<Rightarrow> int \<Rightarrow> rat \<Rightarrow> model_row \<Rightarrow> account_row \<Rightarrow> bool" where
  "eligible task files tokens now m r \<longleftrightarrow>
     ac_provider r = py_casefold (case mr_provider m of None \<Rightarrow> '''' | Some p \<Rightarrow> p) \<and>
     (ac_models r = [] \<or> (case mr_model m of None \<Rightarrow> '''' | Some n \<Rightarrow> n) \<in> set (ac_models r)) \<and>
     \<not> ac_disabled r \<and> ac_open_until r \<le> now \<and> ac_limited_until r \<le> now \<and>
     (0 < ac_quota r \<or> (ac_reset r \<noteq> 0 \<and> ac_reset r \<le> now)) \<and>
     complexity_level (classify task files tokens) \<le>
       complexity_level (case mr_complexity m of None \<Rightarrow> ''reasoning'' | Some c \<Rightarrow> c) \<and>
     (case mr_window m of None \<Rightarrow> True | Some w \<Rightarrow> w = 0 \<or> tokens \<le> w)"

lemma complexity_order_level:
  "(case complexity_order name of None \<Rightarrow> 0 | Some n \<Rightarrow> n) = complexity_level name"
  by (simp add: complexity_order_def complexity_level_def)

lemma needed_level: "the (complexity_order (classify task f t)) = complexity_level (classify task f t)"
  using classify_order[of task f t] complexity_order_level[of "classify task f t"] by (auto split: option.splits)

lemma eligible_usable:
  "eligible task files tokens now m r \<longleftrightarrow> serves m (account_of_row r) \<and>
     usable now (the (complexity_order (classify task files tokens))) tokens (candidate_of now m (account_of_row r))"
proof -
  have window: "(case mr_window m of None \<Rightarrow> True | Some w \<Rightarrow> w = 0 \<or> tokens \<le> w) \<longleftrightarrow>
      \<not> (or_default 0 (mr_window m) \<noteq> 0 \<and> or_default 0 (mr_window m) < tokens)"
    by (auto simp: or_default_def split: option.splits)
  have quota: "(0 < ac_quota r \<or> (ac_reset r \<noteq> 0 \<and> ac_reset r \<le> now)) \<longleftrightarrow> \<not> quota_at now (account_of_row r) \<le> 0"
    by (simp add: quota_at_def not_le)
  show ?thesis
    unfolding eligible_def serves_def usable_def candidate_of_def provider_candidate.simps
      needed_level window quota or_default_def[symmetric] account_of_row_fields not_less
      complexity_order_level[folded or_default_def]
    by argo
qed

text \<open>The accounts whose calls cost nothing when subscriptions are preferred.\<close>

definition subscriptions :: "pool \<Rightarrow> (string \<times> string) set" where
  "subscriptions rows = account_key ` set (filter ac_subscription rows)"

definition ranking_score :: "bool \<Rightarrow> rat \<Rightarrow> pool \<Rightarrow> model_row \<Rightarrow> account_row \<Rightarrow> rat" where
  "ranking_score prefer now rows m r =
     score_of prefer (adjust prefer (subscriptions rows) (candidate_of now m (account_of_row r)))"

text \<open>The account that a route names is a stored one that may be used now, and none ranks above it.\<close>

lemma route_Inr:
  assumes "route sha task ms files tokens now now prefer rows = Inr x"
  obtains r m where "r \<in> set rows" and "m \<in> set ms" and "eligible task files tokens now m r"
    and "account_key r = (pt_provider x, pt_account x)" and "pt_model x = or_default '''' (mr_model m)"
    and "pt_score x = ranking_score prefer now rows m r"
    and "\<forall>m' \<in> set ms. \<forall>r' \<in> set rows. eligible task files tokens now m' r' \<longrightarrow> ranking_score prefer now rows m' r' \<le> pt_score x"
proof -
  have subs: "(\<lambda>a. (ac_provider a, ac_account a)) ` set (filter ac_subscription (list_accounts None rows)) = subscriptions rows"
    by (force simp: subscriptions_def account_key_def)
  obtain d where d: "d \<in> set (map (adjust prefer (subscriptions rows)) (candidates now ms rows))"
      "usable now (the (complexity_order (classify task files tokens))) tokens d"
      "pt_provider x = pc_provider d" "pt_account x = pc_account d" "pt_model x = pc_model d" "pt_score x = score_of prefer d"
    and best: "\<forall>e \<in> set (map (adjust prefer (subscriptions rows)) (candidates now ms rows)).
      usable now (the (complexity_order (classify task files tokens))) tokens e \<longrightarrow> score_of prefer e \<le> score_of prefer d"
    using assms unfolding route_def Let_def subs by (rule route_candidates_Inr)
  obtain m r where mr: "m \<in> set ms" "r \<in> set rows" "serves m (account_of_row r)"
      "d = adjust prefer (subscriptions rows) (candidate_of now m (account_of_row r))"
    using d(1) unfolding set_map set_candidates by blast
  have "eligible task files tokens now m r" unfolding eligible_usable using mr(3) d(2) mr(4) by simp
  moreover have "account_key r = (pt_provider x, pt_account x)" "pt_model x = or_default '''' (mr_model m)"
    using d(3-5) mr(3,4) by (simp_all add: candidate_of_def account_key_def serves_def)
  moreover have "ranking_score prefer now rows m' r' \<le> pt_score x"
    if "m' \<in> set ms" "r' \<in> set rows" "eligible task files tokens now m' r'" for m' r'
    using that best d(6) unfolding eligible_usable ranking_score_def set_map set_candidates by fastforce
  ultimately show thesis using that[of r m] mr(1,2,4) d(6) by (simp add: ranking_score_def)
qed

section \<open>Properties\<close>

text \<open>
  C32. No secret is ever stored: in every reachable pool each credential is a reference of one
  of the four kinds without the shape of a key or a bearer token, names are normalised, keys are
  unique and quotas stay in the unit interval.
\<close>

theorem pool_holds_references:
  assumes "reaches (\<lambda>rows. rows = []) pool_step rows"
  shows "distinct (map account_key rows) \<and>
    (\<forall>r \<in> set rows. credential_reference (ac_reference r) \<and> \<not> secret_shapes (ac_reference r) \<and>
       normalize_names (ac_provider r) (ac_account r) = Inr (ac_provider r, ac_account r) \<and>
       0 \<le> ac_quota r \<and> ac_quota r \<le> 1 \<and> ar_failures r \<le> ac_failure r)"
  using pools.reachable_inv[OF assms]
  by (auto simp: pool_inv_def account_ok_def check_reference_def account_key_def Let_def split: if_splits)

text \<open>
  C29. Routing over a pool is complete and sound, at one reading of the clock: it finds an account exactly when a stored one is eligible for
  a requested model and the task (provider, allow list, circuit, rate limit, quota, complexity and context
  window), it names an eligible account with the model it is eligible for, and no eligible pair of account and
  model has a higher score.
\<close>

theorem route_complete_and_sound:
  "((\<exists>x. route sha task ms files tokens now now prefer rows = Inr x) \<longleftrightarrow>
     (\<exists>m \<in> set ms. \<exists>r \<in> set rows. eligible task files tokens now m r)) \<and>
   (\<forall>x. route sha task ms files tokens now now prefer rows = Inr x \<longrightarrow>
     (\<exists>m \<in> set ms. \<exists>r \<in> set rows. eligible task files tokens now m r \<and>
        account_key r = (pt_provider x, pt_account x) \<and>
        pt_model x = (case mr_model m of None \<Rightarrow> '''' | Some n \<Rightarrow> n) \<and>
        pt_score x = ranking_score prefer now rows m r) \<and>
     (\<forall>m \<in> set ms. \<forall>r \<in> set rows. eligible task files tokens now m r \<longrightarrow>
        ranking_score prefer now rows m r \<le> pt_score x))"
proof -
  have "(\<exists>x. route sha task ms files tokens now now prefer rows = Inr x) \<longleftrightarrow>
     (\<exists>c \<in> set (candidates now ms rows). usable now (the (complexity_order (classify task files tokens))) tokens c)"
    unfolding route_def Let_def route_candidates_total by simp
  also have "\<dots> \<longleftrightarrow> (\<exists>m \<in> set ms. \<exists>r \<in> set rows. eligible task files tokens now m r)"
    unfolding set_candidates eligible_usable by blast
  finally have complete: "(\<exists>x. route sha task ms files tokens now now prefer rows = Inr x) \<longleftrightarrow> \<dots>" .
  have sound: "(\<exists>m \<in> set ms. \<exists>r \<in> set rows. eligible task files tokens now m r \<and>
        account_key r = (pt_provider x, pt_account x) \<and> pt_model x = or_default '''' (mr_model m) \<and>
        pt_score x = ranking_score prefer now rows m r) \<and>
     (\<forall>m \<in> set ms. \<forall>r \<in> set rows. eligible task files tokens now m r \<longrightarrow> ranking_score prefer now rows m r \<le> pt_score x)"
    if "route sha task ms files tokens now now prefer rows = Inr x" for x
    using that by (rule route_Inr) blast
  show ?thesis using complete sound unfolding or_default_def by blast
qed

lemma backoff_bounds: "3 \<le> f \<Longrightarrow> 30 \<le> backoff f \<and> backoff f \<le> 900"
  by (simp add: backoff_def)

text \<open>
  The circuit breaker: three failures of an account in a row keep every route away from it
  for at least thirty seconds after the third, whatever the models and the task, and a success
  closes the circuit at once.
\<close>

theorem circuit_breaker:
  assumes "reaches (\<lambda>rows. rows = []) pool_step rows0"
    and "record_result p a False l1 q1 s1 w1 t1 rows0 = Inr (a1, rows1)"
    and "record_result p a False l2 q2 s2 w2 t2 rows1 = Inr (a2, rows2)"
    and "record_result p a False l3 q3 s3 w3 t3 rows2 = Inr (a3, rows3)"
  shows "t3 + 30 \<le> ac_open_until a3 \<and>
    (\<forall>now x. now < t3 + 30 \<longrightarrow> route sha task ms files tokens now now prefer rows3 = Inr x \<longrightarrow>
       (pt_provider x, pt_account x) \<noteq> (ac_provider a3, ac_account a3)) \<and>
    (\<forall>l q s w t4 a4 rows4. record_result p a True l q s w t4 rows3 = Inr (a4, rows4) \<longrightarrow> ac_open_until a4 = 0)"
proof -
  have inv0: "pool_inv rows0" by (rule pools.reachable_inv[OF assms(1)])
  have inv3: "pool_inv rows3"
    by (rule record_inv[OF record_inv[OF record_inv[OF inv0 assms(2)] assms(3)] assms(4)])
  obtain k row where k: "normalize_names p a = Inr k" "find_account k rows0 = Some row"
      "find_account k rows1 = Some (result_row False l1 q1 s1 w1 t1 row)"
    by (rule record_result_Inr[OF assms(2)]) blast
  define row1 where "row1 = result_row False l1 q1 s1 w1 t1 row"
  have f1: "find_account k rows1 = Some row1" "ar_failures row1 = ar_failures row + 1"
    using k by (simp_all add: row1_def result_row_def Let_def)
  obtain row2 where row2: "find_account k rows2 = Some row2" "ar_failures row2 = ar_failures row + 2"
    by (rule record_result_Inr[OF assms(3)]) (use k(1) f1 in \<open>auto simp: result_row_def Let_def\<close>)
  obtain row3 where row3: "find_account k rows3 = Some row3" "a3 = account_of_row row3"
      "row3 = result_row False l3 q3 s3 w3 t3 row2"
    by (rule record_result_Inr[OF assms(4)]) (use k(1) row2 in auto)
  have "0 \<le> ar_failures row"
    using find_account_Some[OF k(2)] inv0 by (auto simp: pool_inv_def account_ok_def)
  then have "t3 + backoff (3 + ar_failures row) \<le> ac_open_until row3" "30 \<le> backoff (3 + ar_failures row)"
    using row3(3) row2(2) backoff_bounds[of "3 + ar_failures row"] by (simp_all add: result_row_def next_open_def Let_def)
  then have open_until: "t3 + 30 \<le> ac_open_until row3" by linarith
  have away: "(pt_provider x, pt_account x) \<noteq> account_key row3"
    if early: "now < t3 + 30" and route: "route sha task ms files tokens now now prefer rows3 = Inr x" for now x
  proof (rule route_Inr[OF route])
    fix r
    fix m
    assume r: "r \<in> set rows3" "account_key r = (pt_provider x, pt_account x)" and "eligible task files tokens now m r"
    then have r3: "ac_open_until r \<le> now" by (simp add: eligible_def)
    have "find_account (account_key r) rows3 = Some r"
      using inv3 r(1) by (intro find_account_mem) (auto simp: pool_inv_def)
    moreover have "find_account (account_key row3) rows3 = Some row3"
      using find_account_Some[OF row3(1)] row3(1) by simp
    moreover have "r \<noteq> row3" using r3 open_until early by auto
    ultimately show ?thesis using r(2) by auto
  qed
  have closed: "ac_open_until a4 = 0" if "record_result p a True l q s w t4 rows3 = Inr (a4, rows4)" for l q s w t4 a4 rows4
    by (rule record_result_Inr[OF that]) (simp add: result_row_def next_open_def Let_def)
  show ?thesis using open_until away closed row3(2) by (simp add: account_key_def)
qed

section \<open>A concrete pool\<close>

definition demo_model :: model_row where
  "demo_model = \<lparr>mr_provider = Some ''p'', mr_model = Some ''m'', mr_input_cost = None, mr_output_cost = None,
     mr_latency = None, mr_quality = None, mr_complexity = None, mr_window = None\<rparr>"

definition demo_pool :: pool where
  "demo_pool = (case register_account 0 ''P'' ''a'' ''env:KEY'' False 0 1 0 [] [] of Inr (_, rows) \<Rightarrow> rows | Inl _ \<Rightarrow> [])"

definition after_failure :: "pool \<Rightarrow> pool" where
  "after_failure rows = (case record_result ''p'' ''a'' False 5 None None 0 100 rows of Inr (_, rows') \<Rightarrow> rows' | Inl _ \<Rightarrow> [])"

lemma demo_pool_reached: "reaches (\<lambda>rows. rows = []) pool_step demo_pool"
proof -
  have "\<not> isl (register_account 0 ''P'' ''a'' ''env:KEY'' False 0 1 0 [] [])" by code_simp
  then obtain x where x: "register_account 0 ''P'' ''a'' ''env:KEY'' False 0 1 0 [] [] = Inr x" by (rule not_islE)
  then have "register_account 0 ''P'' ''a'' ''env:KEY'' False 0 1 0 [] [] = Inr (fst x, demo_pool)"
    by (simp add: demo_pool_def case_prod_beta)
  then have step: "pool_step [] demo_pool" by (rule step_register)
  show ?thesis by (rule reach_step[where step = pool_step, OF _ step]) (rule reach_init, simp)
qed

theorem pool_holds_references_witness:
  "map (\<lambda>r. secret_shapes (ac_reference r)) demo_pool = [False]"
proof -
  have "length demo_pool = 1" by code_simp
  then obtain r where r: "demo_pool = [r]" by (auto simp: length_Suc_conv)
  have "\<not> secret_shapes (ac_reference r)"
    using pool_holds_references[OF demo_pool_reached] unfolding r by (elim conjE) (erule ballE, auto)
  then show ?thesis unfolding r by (simp only: list.map simp_thms)
qed

theorem route_complete_and_sound_witness:
  "\<exists>x. route (\<lambda>_. '''') ''fix'' [demo_model] 0 0 0 0 True demo_pool = Inr x"
proof -
  have "\<exists>m \<in> set [demo_model]. \<exists>r \<in> set demo_pool. eligible ''fix'' 0 0 0 m r" by code_simp
  then show ?thesis using route_complete_and_sound by blast
qed

theorem circuit_breaker_witness:
  "case record_result ''p'' ''a'' False 5 None None 0 100 (after_failure (after_failure demo_pool)) of
     Inl _ \<Rightarrow> False | Inr (acc, _) \<Rightarrow> 130 \<le> ac_open_until acc"
proof -
  let ?rows1 = "after_failure demo_pool" and ?rec = "\<lambda>rows. record_result ''p'' ''a'' False 5 None None 0 100 rows"
  let ?rows2 = "after_failure ?rows1"
  have "\<not> isl (?rec demo_pool)" "\<not> isl (?rec ?rows1)" "\<not> isl (?rec ?rows2)" by code_simp+
  then obtain x1 x2 x3 where x: "?rec demo_pool = Inr x1" "?rec ?rows1 = Inr x2" "?rec ?rows2 = Inr x3"
    by (metis not_islE)
  then have "?rec demo_pool = Inr (fst x1, ?rows1)" "?rec ?rows1 = Inr (fst x2, ?rows2)" "?rec ?rows2 = Inr (fst x3, snd x3)"
    by (simp_all add: after_failure_def case_prod_beta)
  from circuit_breaker[OF demo_pool_reached this] show ?thesis using x(3) by (simp add: case_prod_beta)
qed

end
