(* ===== verification/TokenAttribution.thy ===== *)
theory TokenAttribution
  imports HashChain
begin

text \<open>
  The token attribution ledger of \<open>syntavra_runtime/token_attribution.py\<close>: receipts that split the
  tokens of a request over their sources with a confidence for each, kept beside the provider
  receipts, and their summary.  The tokenizer is an optional package and so a parameter; without
  it text is estimated at four bytes a token.
\<close>

section \<open>Sources and confidence\<close>

definition token_sources :: "string list" where
  "token_sources = [''system'', ''skill_description'', ''skill_body'', ''tool_schema'', ''repository_context'',
     ''tool_output'', ''memory'', ''conversation_history'', ''user_prompt'', ''assistant_output'', ''reasoning'', ''cached'']"

definition confidence_levels :: "string list" where
  "confidence_levels = [''PROVIDER_OBSERVED'', ''LOCALLY_TOKENIZED'', ''ESTIMATED'', ''UNKNOWN'']"

definition estimate_text :: "(string \<Rightarrow> nat) option \<Rightarrow> string \<Rightarrow> int \<times> string" where
  "estimate_text tokenizer text =
     (case tokenizer of
        Some encode \<Rightarrow> (int (encode text), ''LOCALLY_TOKENIZED'')
      | None \<Rightarrow> (int ((length (utf8_encode text) + 3) div 4), ''ESTIMATED''))"

fun estimate_mapping ::
  "(string \<Rightarrow> nat) option \<Rightarrow> (string \<times> string) list \<Rightarrow> string + (string \<times> int) list \<times> (string \<times> string) list" where
  "estimate_mapping tokenizer [] = Inr ([], [])"
| "estimate_mapping tokenizer ((source, text) # values) =
     (if source \<notin> set token_sources then Inl (''unknown token source: '' @ source)
      else let (count, level) = estimate_text tokenizer text in
        bindE (estimate_mapping tokenizer values) (\<lambda>(sources, confidence).
        Inr ((source, count) # sources, (source, level) # confidence)))"

fun set_sources :: "fields \<Rightarrow> (string \<times> int) list \<Rightarrow> py_error + (string \<times> int) list" where
  "set_sources [] res = Inr res"
| "set_sources ((name, v) # values) res =
     (if name \<notin> set (map fst res) then Inl (ValueError (''unknown token source: '' @ name))
      else bindE (py_int v) (\<lambda>count.
        if count < 0 then Inl (ValueError (''token source must be non-negative: '' @ name))
        else set_sources values (AList.update name count res)))"

definition normalize_sources :: "fields \<Rightarrow> py_error + (string \<times> int) list" where
  "normalize_sources values =
     bindE (set_sources values (map (\<lambda>source. (source, 0)) token_sources)) (\<lambda>res.
     if sum_list (map snd res) \<le> 0
     then Inl (ValueError ''token attribution contains no positive token counts'') else Inr res)"

definition count_of :: "(string \<times> int) list \<Rightarrow> string \<Rightarrow> int" where
  "count_of sources source = (case map_of sources source of None \<Rightarrow> 0 | Some n \<Rightarrow> n)"

definition confidence_level :: "fields \<Rightarrow> string \<Rightarrow> string" where
  "confidence_level values source =
     py_upper (case map_of values source of None \<Rightarrow> ''UNKNOWN'' | Some v \<Rightarrow> py_str v)"

definition normalize_confidence :: "fields \<Rightarrow> (string \<times> int) list \<Rightarrow> string + (string \<times> string) list" where
  "normalize_confidence values sources =
     checkE (map (\<lambda>source. if confidence_level values source \<notin> set confidence_levels
         then Some (''unknown confidence level for '' @ source @ '': '' @ confidence_level values source) else None)
       token_sources)
     (map (\<lambda>source. (source, confidence_level values source))
       (filter (\<lambda>source. count_of sources source > 0) token_sources))"

section \<open>Receipts\<close>

record attribution =
  at_id :: string
  at_task :: string
  at_arm :: string
  at_repetition :: int
  at_session :: string
  at_provider :: string
  at_model :: string
  at_request :: string
  at_provider_receipt :: string
  at_sources :: "(string \<times> int) list"
  at_confidence :: "(string \<times> string) list"
  at_baseline :: "int option"
  at_baseline_confidence :: string
  at_created :: rat
  at_hash :: string
  at_meta :: pyval

definition observed_tokens :: "attribution \<Rightarrow> int" where
  "observed_tokens r = sum_list (map (\<lambda>(_, n). max 0 n) (at_sources r))"

definition avoided_tokens :: "attribution \<Rightarrow> int option" where
  "avoided_tokens r = map_option (\<lambda>b. max 0 (b - observed_tokens r)) (at_baseline r)"

definition opt_int :: "int option \<Rightarrow> pyval" where
  "opt_int n = (case n of None \<Rightarrow> PyNone | Some i \<Rightarrow> PyInt i)"

definition int_fields :: "(string \<times> int) list \<Rightarrow> pyval" where
  "int_fields xs = PyDict (map (\<lambda>(k, n). (k, PyInt n)) xs)"

definition str_fields :: "(string \<times> string) list \<Rightarrow> pyval" where
  "str_fields xs = PyDict (map (\<lambda>(k, s). (k, PyStr s)) xs)"

definition attribution_to_dict :: "attribution \<Rightarrow> fields" where
  "attribution_to_dict r =
     [(''receipt_id'', PyStr (at_id r)), (''task_id'', PyStr (at_task r)), (''arm_id'', PyStr (at_arm r)),
      (''repetition'', PyInt (at_repetition r)), (''session_id'', PyStr (at_session r)),
      (''provider'', PyStr (at_provider r)), (''model'', PyStr (at_model r)),
      (''request_id_hash'', PyStr (at_request r)), (''provider_receipt_hash'', PyStr (at_provider_receipt r)),
      (''sources'', int_fields (at_sources r)), (''confidence'', str_fields (at_confidence r)),
      (''baseline_tokens'', opt_int (at_baseline r)), (''baseline_confidence'', PyStr (at_baseline_confidence r)),
      (''created_at'', PyFloat (at_created r)), (''receipt_hash'', PyStr (at_hash r)), (''metadata'', at_meta r),
      (''observed_tokens'', PyInt (observed_tokens r)), (''avoided_tokens'', opt_int (avoided_tokens r))]"

definition attribution_body :: "attribution \<Rightarrow> pyval" where
  "attribution_body r = PyDict
     [(''schema_version'', PyInt 1), (''task_id'', PyStr (at_task r)), (''arm_id'', PyStr (at_arm r)),
      (''repetition'', PyInt (at_repetition r)), (''session_id'', PyStr (at_session r)),
      (''provider'', PyStr (at_provider r)), (''model'', PyStr (at_model r)),
      (''request_id_hash'', PyStr (at_request r)), (''provider_receipt_hash'', PyStr (at_provider_receipt r)),
      (''sources'', int_fields (at_sources r)), (''confidence'', str_fields (at_confidence r)),
      (''baseline_tokens'', opt_int (at_baseline r)), (''baseline_confidence'', PyStr (at_baseline_confidence r)),
      (''metadata'', at_meta r), (''created_at'', PyFloat (at_created r))]"

text \<open>The request: the receipt without what \<open>record\<close> computes.\<close>

record attribution_request =
  aq_task :: string
  aq_arm :: string
  aq_repetition :: int
  aq_session :: string
  aq_provider :: string
  aq_model :: string
  aq_request :: string
  aq_provider_receipt :: string
  aq_sources :: fields
  aq_confidence :: fields
  aq_baseline :: "int option"
  aq_baseline_confidence :: string
  aq_meta :: fields

type_synonym attribution_db = "attribution list"

definition sha_text_shape :: "string \<Rightarrow> bool" where
  "sha_text_shape value = is_sha256 (py_casefold value)"

definition same_request :: "attribution \<Rightarrow> attribution \<Rightarrow> bool" where
  "same_request r r' \<longleftrightarrow> at_task r = at_task r' \<and> at_arm r = at_arm r' \<and> at_repetition r = at_repetition r' \<and>
     at_request r = at_request r'"

text \<open>What the table keeps: the objects as JSON with sorted keys.\<close>

definition stored_row :: "attribution \<Rightarrow> attribution" where
  "stored_row r = r\<lparr>at_sources := sort_key fst (at_sources r), at_confidence := sort_key fst (at_confidence r),
     at_meta := canon (at_meta r)\<rparr>"

definition record_attribution ::
  "(pyval \<Rightarrow> string) \<Rightarrow> rat \<Rightarrow> attribution_request \<Rightarrow> attribution_db \<Rightarrow> py_error + attribution \<times> attribution_db" where
  "record_attribution sha now q db =
     bindE (valueE (checkE
       [if aq_task q = '''' \<or> aq_arm q = '''' \<or> aq_repetition q \<le> 0 \<or> aq_session q = ''''
        then Some ''token attribution identity is incomplete'' else None,
        if \<not> sha_text_shape (aq_request q) then Some ''request_id_hash must be lowercase sha256'' else None,
        if \<not> sha_text_shape (aq_provider_receipt q) then Some ''provider_receipt_hash must be lowercase sha256''
        else None] ())) (\<lambda>_.
     bindE (normalize_sources (aq_sources q)) (\<lambda>sources.
     bindE (valueE (normalize_confidence (aq_confidence q) sources)) (\<lambda>confidence.
     bindE (valueE (checkE
       [(case aq_baseline q of None \<Rightarrow> None
         | Some b \<Rightarrow> if b < sum_list (map snd sources)
             then Some ''baseline_tokens cannot be lower than observed attributed tokens'' else None),
        if py_upper (aq_baseline_confidence q) \<notin> set confidence_levels then Some ''invalid baseline confidence''
        else None] ())) (\<lambda>_.
     let r = \<lparr>at_id = '''', at_task = aq_task q, at_arm = aq_arm q, at_repetition = aq_repetition q,
           at_session = aq_session q, at_provider = aq_provider q, at_model = aq_model q, at_request = aq_request q,
           at_provider_receipt = aq_provider_receipt q, at_sources = sources, at_confidence = confidence,
           at_baseline = aq_baseline q, at_baseline_confidence = py_upper (aq_baseline_confidence q),
           at_created = now, at_hash = '''', at_meta = PyDict (aq_meta q)\<rparr>;
         h = digest sha (attribution_body r);
         receipt = r\<lparr>at_id := ''attr-'' @ take 24 h, at_hash := h\<rparr>
     in if \<exists>x \<in> set db. at_id x = at_id receipt \<or> at_hash x = h \<or> same_request x receipt
        then Inl (ValueError ''duplicate or conflicting token attribution receipt'')
        else Inr (receipt, db @ [stored_row receipt])))))"

definition attributions :: "string option \<Rightarrow> attribution_db \<Rightarrow> attribution list" where
  "attributions session db =
     (case session of
        None \<Rightarrow> db
      | Some s \<Rightarrow> if s = '''' then db else filter (\<lambda>r. at_session r = s) db)"

section \<open>The summary\<close>

record attribution_summary =
  as_receipts :: int
  as_observed :: int
  as_baseline :: "int option"
  as_avoided :: "int option"
  as_sources :: "(string \<times> int) list"
  as_confidence :: "(string \<times> int) list"

definition level_of :: "attribution \<Rightarrow> string \<Rightarrow> string" where
  "level_of r source = (case map_of (at_confidence r) source of None \<Rightarrow> ''UNKNOWN'' | Some l \<Rightarrow> l)"

definition sum_attributions :: "string option \<Rightarrow> attribution_db \<Rightarrow> attribution_summary" where
  "sum_attributions session db =
     (let rows = attributions session db;
          observed = sum_list (map observed_tokens rows);
          entries = concat (map (\<lambda>r. map (\<lambda>(source, n). (source, n, level_of r source)) (at_sources r)) rows);
          baselines = List.map_filter at_baseline rows;
          baseline = sum_list baselines;
          complete = (length baselines = length rows \<and> rows \<noteq> [])
      in \<lparr>as_receipts = int (length rows), as_observed = observed,
           as_baseline = (if complete then Some baseline else None),
           as_avoided = (if complete then Some (max 0 (baseline - observed)) else None),
           as_sources = map (\<lambda>source. (source, sum_list (map (\<lambda>(s, n, _). n) (filter (\<lambda>(s, _, _). s = source) entries))))
             token_sources,
           as_confidence = map (\<lambda>level. (level, int (length (filter (\<lambda>(_, n, l). n > 0 \<and> l = level) entries))))
             confidence_levels\<rparr>)"

definition summary_py :: "string option \<Rightarrow> attribution_summary \<Rightarrow> pyval" where
  "summary_py session s = PyDict
     [(''schema_version'', PyInt 1), (''receipts'', PyInt (as_receipts s)),
      (''session_id'', (case session of None \<Rightarrow> PyNone | Some i \<Rightarrow> PyStr i)), (''observed_tokens'', PyInt (as_observed s)),
      (''baseline_tokens'', opt_int (as_baseline s)), (''avoided_tokens'', opt_int (as_avoided s)),
      (''sources'', int_fields (as_sources s)), (''confidence'', int_fields (as_confidence s)),
      (''claim_boundary'', PyStr ''Provider-observed totals and locally attributed sources remain distinct.'')]"

section \<open>What a stored receipt satisfies\<close>

definition attribution_ok :: "attribution \<Rightarrow> bool" where
  "attribution_ok r \<longleftrightarrow> set (map fst (at_sources r)) \<subseteq> set token_sources \<and> (\<forall>(s, n) \<in> set (at_sources r). 0 \<le> n) \<and>
     0 < sum_list (map snd (at_sources r)) \<and> (\<forall>(s, l) \<in> set (at_confidence r). l \<in> set confidence_levels) \<and>
     (case at_baseline r of None \<Rightarrow> True | Some b \<Rightarrow> sum_list (map snd (at_sources r)) \<le> b)"

lemma attribution_ok_level:
  "attribution_ok r \<Longrightarrow> (s, l) \<in> set (at_confidence r) \<Longrightarrow> l \<in> set confidence_levels"
  unfolding attribution_ok_def by fast

inductive attribution_step :: "(pyval \<Rightarrow> string) \<Rightarrow> attribution_db \<Rightarrow> attribution_db \<Rightarrow> bool" for sha :: "pyval \<Rightarrow> string" where
  step_attribute: "record_attribution sha now q db = Inr (r, db') \<Longrightarrow> attribution_step sha db db'"

lemma set_sources_Inr:
  "set_sources values res = Inr out \<Longrightarrow> \<forall>(s, n) \<in> set res. 0 \<le> n \<Longrightarrow>
   map fst out = map fst res \<and> (\<forall>(s, n) \<in> set out. 0 \<le> n)"
proof (induction "values" res rule: set_sources.induct)
  case (2 name v "values" res)
  then obtain n where n: "name \<in> set (map fst res)" "py_int v = Inr n" "0 \<le> n"
      "set_sources values (AList.update name n res) = Inr out" by (auto split: if_splits)
  have "\<forall>(s, k) \<in> set (AList.update name n res). 0 \<le> k"
    using 2(3) n(3) set_update_pairs[of name n res] by fastforce
  moreover have "map fst (AList.update name n res) = map fst res" using n(1) by (simp add: update_keys)
  ultimately show ?case using 2(1)[of n] n by simp
qed simp

lemma normalize_sources_Inr:
  assumes "normalize_sources values = Inr out"
  shows "map fst out = token_sources" and "\<forall>(s, n) \<in> set out. 0 \<le> n" and "0 < sum_list (map snd out)"
proof -
  have out: "set_sources values (map (\<lambda>source. (source, 0)) token_sources) = Inr out" "0 < sum_list (map snd out)"
    using assms by (auto simp: normalize_sources_def split: if_splits)
  have "\<forall>(s, n) \<in> set (map (\<lambda>source. (source, 0 :: int)) token_sources). 0 \<le> n" by auto
  from set_sources_Inr[OF out(1) this]
  show "map fst out = token_sources" "\<forall>(s, n) \<in> set out. 0 \<le> n" by (auto simp: comp_def)
  show "0 < sum_list (map snd out)" by (rule out(2))
qed

lemma sum_list_sort: "sum_list (map f (sort_key g xs)) = sum_list (map f xs)" for f :: "'a \<Rightarrow> int"
  by (metis mset_map mset_sort sum_mset_sum_list)

lemma normalize_confidence_Inr:
  assumes "normalize_confidence values sources = Inr out"
  shows "\<forall>(s, l) \<in> set out. l \<in> set confidence_levels"
proof -
  have "\<forall>source \<in> set token_sources. confidence_level values source \<in> set confidence_levels"
    using assms unfolding normalize_confidence_def checkE_eq_Inr set_map ball_simps(9)
    by (metis (no_types, lifting) option.distinct(1))
  then show ?thesis
    using assms unfolding normalize_confidence_def checkE_eq_Inr by auto
qed

lemma record_attribution_Inr:
  assumes "record_attribution sha now q db = Inr (r, db')"
  obtains x where "db' = db @ [x]" and "attribution_ok x" and "x = stored_row r"
    and "\<forall>y \<in> set db. at_id y \<noteq> at_id x \<and> at_hash y \<noteq> at_hash x \<and> \<not> same_request y x"
proof -
  obtain sources where s: "normalize_sources (aq_sources q) = Inr sources"
    using assms by (auto simp: record_attribution_def)
  obtain confidence where c: "normalize_confidence (aq_confidence q) sources = Inr confidence"
    using assms s by (auto simp: record_attribution_def)
  have rest: "db' = db @ [stored_row r]" "at_sources r = sources" "at_confidence r = confidence"
    "case at_baseline r of None \<Rightarrow> True | Some b \<Rightarrow> sum_list (map snd sources) \<le> b"
    "\<forall>y \<in> set db. at_id y \<noteq> at_id r \<and> at_hash y \<noteq> at_hash r \<and> \<not> same_request y r"
    using assms s c by (auto simp: record_attribution_def Let_def split: if_splits option.splits)
  have "same_request y (stored_row r) = same_request y r" for y
    by (simp add: same_request_def stored_row_def)
  then have "\<forall>y \<in> set db. at_id y \<noteq> at_id (stored_row r) \<and> at_hash y \<noteq> at_hash (stored_row r) \<and> \<not> same_request y (stored_row r)"
    using rest(5) by (simp add: stored_row_def)
  moreover have "attribution_ok (stored_row r)"
  proof -
    have "fst ` set sources \<subseteq> set token_sources"
      using arg_cong[OF normalize_sources_Inr(1)[OF s], of set] by simp
    then show ?thesis
      using normalize_sources_Inr(2,3)[OF s] normalize_confidence_Inr[OF c] rest(2-4)
      by (simp add: attribution_ok_def stored_row_def sum_list_sort split: option.splits)
  qed
  ultimately show thesis using that rest(1) by blast
qed

interpretation attribution_runs: stateful "\<lambda>db. db = []" "attribution_step sha" "\<lambda>db. \<forall>r \<in> set db. attribution_ok r"
  for sha :: "pyval \<Rightarrow> string"
proof
  fix s t
  assume "\<forall>r \<in> set s. attribution_ok r" and "attribution_step sha s t"
  then show "\<forall>r \<in> set t. attribution_ok r"
    by (auto elim!: attribution_step.cases record_attribution_Inr)
qed simp

section \<open>Sums by key\<close>

lemma sum_list_select:
  fixes c :: int
  shows "distinct ks \<Longrightarrow> a \<in> set ks \<Longrightarrow> sum_list (map (\<lambda>k. if a = k then c else 0) ks) = c"
proof (induction ks)
  case (Cons k ks)
  show ?case
  proof (cases "a = k")
    case True
    then have "sum_list (map (\<lambda>k. if a = k then c else 0) ks) = sum_list (map (\<lambda>k. 0) ks)"
      using Cons.prems(1) by (intro arg_cong[of _ _ sum_list] map_cong) auto
    then show ?thesis using True by simp
  next
    case False
    then show ?thesis using Cons by simp
  qed
qed simp

text \<open>Grouping a sum by a key with values in a distinct list loses nothing.\<close>

lemma sum_by_key:
  fixes g :: "'a \<Rightarrow> int"
  assumes "distinct ks" and "\<forall>x \<in> set xs. f x \<in> set ks"
  shows "sum_list (map (\<lambda>k. sum_list (map g (filter (\<lambda>x. f x = k) xs))) ks) = sum_list (map g xs)"
  using assms(2)
proof (induction xs)
  case (Cons x xs)
  have "(\<lambda>k. sum_list (map g (filter (\<lambda>x. f x = k) (x # xs)))) =
      (\<lambda>k. (if f x = k then g x else 0) + sum_list (map g (filter (\<lambda>x. f x = k) xs)))"
    by (rule ext) simp
  then show ?case
    using Cons sum_list_select[OF assms(1), of "f x" "g x"] by (simp add: sum_list_addf)
qed (simp add: sum_list_triv)

lemma map_filter_all:
  "length (List.map_filter f xs) = length xs \<Longrightarrow> \<forall>x \<in> set xs. f x \<noteq> None"
proof (induction xs)
  case (Cons x xs)
  have "length (List.map_filter f xs) \<le> length xs" by (simp add: map_filter_def)
  then show ?case using Cons by (auto simp: map_filter_simps split: option.splits)
qed simp

lemma sum_baselines:
  assumes "\<forall>r \<in> set rows. attribution_ok r \<and> at_baseline r \<noteq> None"
    and "\<forall>r \<in> set rows. observed_tokens r = sum_list (map snd (at_sources r))"
  shows "sum_list (map observed_tokens rows) \<le> sum_list (List.map_filter at_baseline rows)"
  using assms by (induction rows) (auto simp: map_filter_simps attribution_ok_def)

lemma sum_entries:
  "sum_list (map (\<lambda>(s, n, l). n)
      (concat (map (\<lambda>r. map (\<lambda>(source, n). (source, n, level_of r source)) (at_sources r)) rows))) =
   sum_list (map (\<lambda>r. sum_list (map snd (at_sources r))) rows)"
  by (induction rows) (simp_all add: comp_def case_prod_beta)

section \<open>Property\<close>

text \<open>
  The summary balances: over any reachable ledger and session filter the totals by source
  add up to the observed tokens, every positive entry is counted under exactly one confidence
  level, and when all receipts have a baseline the avoided tokens are the baseline less the
  observed tokens, which is never negative.
\<close>

theorem attribution_summary_balances:
  assumes "reaches (\<lambda>db. db = []) (attribution_step sha) db"
  shows "let s = sum_attributions session db; rows = attributions session db in
    sum_list (map snd (as_sources s)) = as_observed s \<and>
    sum_list (map snd (as_confidence s)) =
      int (sum_list (map (\<lambda>r. length (filter (\<lambda>(_, n). n > 0) (at_sources r))) rows)) \<and>
    (\<forall>b. as_baseline s = Some b \<longrightarrow> as_observed s \<le> b \<and> as_avoided s = Some (b - as_observed s))"
proof -
  let ?rows = "attributions session db"
  define entries where "entries = concat (map (\<lambda>r. map (\<lambda>(source, n). (source, n, level_of r source)) (at_sources r)) ?rows)"
  have "set ?rows \<subseteq> set db" by (auto simp: attributions_def split: option.splits)
  then have ok: "\<forall>r \<in> set ?rows. attribution_ok r" using attribution_runs.reachable_inv[OF assms] by blast
  then have obs: "observed_tokens r = sum_list (map snd (at_sources r))" if "r \<in> set ?rows" for r
    using that unfolding observed_tokens_def attribution_ok_def
    by (intro arg_cong[of _ _ sum_list] map_cong) (auto split: prod.splits)
  have "sum_list (map (\<lambda>(s, n, l). n) entries) = sum_list (map (\<lambda>r. sum_list (map snd (at_sources r))) ?rows)"
    unfolding entries_def by (rule sum_entries)
  also have "\<dots> = sum_list (map observed_tokens ?rows)"
    using obs by (intro arg_cong[of _ _ sum_list] map_cong) auto
  finally have total_count: "sum_list (map (\<lambda>(s, n, l). n) entries) = sum_list (map observed_tokens ?rows)" .
  have dist: "distinct token_sources" "distinct confidence_levels" by code_simp+
  have keys: "\<forall>x \<in> set entries. (\<lambda>(s, n, l). s) x \<in> set token_sources"
    using ok by (force simp: entries_def attribution_ok_def)
  have sources: "sum_list (map snd (as_sources (sum_attributions session db))) = sum_list (map observed_tokens ?rows)"
    using sum_by_key[OF dist(1) keys, of "\<lambda>(s, n, l). n"] total_count
    unfolding sum_attributions_def Let_def entries_def[symmetric]
    by (simp add: comp_def case_prod_beta')
  have "''UNKNOWN'' \<in> set confidence_levels" by code_simp
  then have level: "level_of r source \<in> set confidence_levels" if "r \<in> set ?rows" for r source
    using that ok by (auto simp: level_of_def dest!: map_of_SomeD dest: attribution_ok_level split: option.splits)
  let ?pos = "filter (\<lambda>(s, n, l). n > 0) entries"
  have levels: "\<forall>x \<in> set ?pos. (\<lambda>(s, n, l). l) x \<in> set confidence_levels"
    using level by (auto simp: entries_def)
  have split: "filter (\<lambda>(s, n, l). n > 0 \<and> l = k) entries = filter (\<lambda>x. (\<lambda>(s, n, l). l) x = k) ?pos" for k
    by (auto intro!: filter_cong)
  have ones: "int (length xs) = sum_list (map (\<lambda>_. 1) xs)" for xs :: "(string \<times> int \<times> string) list"
    by (simp add: sum_list_triv)
  have "sum_list (map snd (as_confidence (sum_attributions session db))) = int (length ?pos)"
    using sum_by_key[OF dist(2) levels, of "\<lambda>_. 1"]
    unfolding sum_attributions_def Let_def entries_def[symmetric] by (simp add: comp_def split ones)
  also have "length ?pos = sum_list (map (\<lambda>r. length (filter (\<lambda>(_, n). n > 0) (at_sources r))) ?rows)"
    unfolding entries_def
    by (simp add: filter_concat length_concat comp_def filter_map case_prod_beta')
  finally have confidence: "sum_list (map snd (as_confidence (sum_attributions session db))) =
      int (sum_list (map (\<lambda>r. length (filter (\<lambda>(_, n). n > 0) (at_sources r))) ?rows))" .
  have baseline: "sum_list (map observed_tokens ?rows) \<le> sum_list (List.map_filter at_baseline ?rows)"
    if "length (List.map_filter at_baseline ?rows) = length ?rows"
    by (rule sum_baselines) (use map_filter_all[OF that] ok obs in auto)
  show ?thesis
    using sources confidence baseline by (auto simp: sum_attributions_def Let_def split: if_splits)
qed

definition demo_attribution :: attribution_request where
  "demo_attribution = \<lparr>aq_task = ''t'', aq_arm = ''a'', aq_repetition = 1, aq_session = ''s'', aq_provider = ''p'',
     aq_model = ''m'', aq_request = zero_hash, aq_provider_receipt = zero_hash,
     aq_sources = [(''memory'', PyInt 7), (''cached'', PyStr ''5'')], aq_confidence = [(''memory'', PyStr ''estimated'')],
     aq_baseline = Some 20, aq_baseline_confidence = ''unknown'', aq_meta = []\<rparr>"

definition demo_ledger :: attribution_db where
  "demo_ledger = (case record_attribution (\<lambda>_. zero_hash) 1 demo_attribution [] of Inr (_, db) \<Rightarrow> db | Inl _ \<Rightarrow> [])"

theorem attribution_summary_balances_witness:
  "sum_list (map snd (as_sources (sum_attributions (Some ''s'') demo_ledger))) = 12 \<and>
   sum_list (map snd (as_confidence (sum_attributions (Some ''s'') demo_ledger))) = 2 \<and>
   as_avoided (sum_attributions (Some ''s'') demo_ledger) = Some 8"
proof -
  have run: "case record_attribution (\<lambda>_. zero_hash) 1 demo_attribution [] of
      Inl _ \<Rightarrow> False
    | Inr (_, db) \<Rightarrow> (let s = sum_attributions (Some ''s'') db in as_observed s = 12 \<and> as_baseline s = Some 20 \<and>
        sum_list (map (\<lambda>r. length (filter (\<lambda>(_, n). n > 0) (at_sources r))) (attributions (Some ''s'') db)) = 2)"
    by code_simp
  then obtain r db where r: "record_attribution (\<lambda>_. zero_hash) 1 demo_attribution [] = Inr (r, db)"
    by (auto split: sum.splits prod.splits)
  then have db: "demo_ledger = db" by (simp add: demo_ledger_def)
  have step: "attribution_step (\<lambda>_. zero_hash) [] demo_ledger" unfolding db by (rule step_attribute[OF r])
  have reached: "reaches (\<lambda>db. db = []) (attribution_step (\<lambda>_. zero_hash)) demo_ledger"
    by (rule reach_step[where step = "attribution_step (\<lambda>_. zero_hash)", OF _ step]) (rule reach_init, simp)
  show ?thesis
    using attribution_summary_balances[OF reached, of "Some ''s''"] run by (simp add: r db Let_def)
qed

end
