(* ===== verification/UsageLedger.thy ===== *)
theory UsageLedger
  imports TokenAttribution
begin

text \<open>
  The usage receipt ledger of \<open>syntavra_runtime/usage_receipt_ledger.py\<close>: normalising the usage
  object of a provider, the receipts of \<open>UsageReceipt\<close> in \<open>signalbench_hardened.py\<close>, the append
  only table of receipts chained by hashes and optionally signed, and its verification.  SHA-256
  is the parameters \<open>sha\<close> (of canonical JSON) and \<open>sha_text\<close> (of text), HMAC is \<open>mac\<close>.
\<close>

section \<open>Provider usage\<close>

text \<open>\<open>_int(value)\<close> with default 0.\<close>

definition int_or_zero :: "pyval \<Rightarrow> int" where
  "int_or_zero v = (case py_int v of Inr n \<Rightarrow> n | Inl _ \<Rightarrow> 0)"

text \<open>\<open>_dig\<close>: the value at the first dotted path that exists, \<open>None\<close> when none does.\<close>

fun walk_path :: "string list \<Rightarrow> pyval \<Rightarrow> pyval option" where
  "walk_path [] v = Some v"
| "walk_path (part # parts) v =
     (case v of PyDict kvs \<Rightarrow> (case map_of kvs part of None \<Rightarrow> None | Some v' \<Rightarrow> walk_path parts v') | _ \<Rightarrow> None)"

fun dig :: "pyval \<Rightarrow> string list \<Rightarrow> pyval" where
  "dig v [] = PyNone"
| "dig v (path # paths) = (case walk_path (split_char (CHR ''.'') path) v of Some x \<Rightarrow> x | None \<Rightarrow> dig v paths)"

definition take_usage :: "pyval \<Rightarrow> string list \<Rightarrow> string list \<times> int" where
  "take_usage usage paths =
     (let v = dig usage paths in
      (if v = PyNone then [] else take 1 (filter (\<lambda>path. dig usage [path] \<noteq> PyNone) paths), max 0 (int_or_zero v)))"

record normalized_usage =
  nu_provider :: string
  nu_fresh :: int
  nu_cached :: int
  nu_output :: int
  nu_reasoning :: int
  nu_fields :: "string list"

definition total_tokens :: "normalized_usage \<Rightarrow> int" where
  "total_tokens u = nu_fresh u + nu_cached u + nu_output u + nu_reasoning u"

definition cached_paths :: "string list" where
  "cached_paths = [''input_tokens_details.cached_tokens'', ''prompt_tokens_details.cached_tokens'',
     ''cache_read_input_tokens'', ''cached_input_tokens'', ''cachedContentTokenCount'']"

definition input_paths :: "string list" where
  "input_paths = [''input_tokens'', ''prompt_tokens'', ''promptTokenCount'', ''inputTokenCount'']"

definition output_paths :: "string list" where
  "output_paths = [''output_tokens'', ''completion_tokens'', ''candidatesTokenCount'', ''outputTokenCount'']"

definition reasoning_paths :: "string list" where
  "reasoning_paths = [''output_tokens_details.reasoning_tokens'', ''completion_tokens_details.reasoning_tokens'',
     ''reasoning_tokens'', ''thoughtsTokenCount'']"

definition normalize_provider_usage :: "string \<Rightarrow> fields \<Rightarrow> string + normalized_usage" where
  "normalize_provider_usage provider payload =
     (let name = py_casefold (py_strip provider);
          usage = (case map_of payload ''usage'' of Some (PyDict kvs) \<Rightarrow> PyDict kvs | _ \<Rightarrow> PyDict payload);
          (f1, cached) = take_usage usage cached_paths;
          (f2, raw_input) = take_usage usage input_paths;
          fresh = max 0 (raw_input - cached);
          (f3, out) = take_usage usage output_paths;
          (f4, reasoning) = take_usage usage reasoning_paths;
          fields = f1 @ f2 @ f3 @ f4
      in checkE
        [if fields = [] then Some ''no recognized provider usage fields'' else None,
         if fresh + cached + out + reasoning \<le> 0 then Some ''provider usage contains no positive token counts'' else None]
        \<lparr>nu_provider = (if name = '''' then ''unknown'' else name), nu_fresh = fresh, nu_cached = cached,
         nu_output = out, nu_reasoning = reasoning, nu_fields = fromkeys fields\<rparr>)"

section \<open>Receipts\<close>

record usage_receipt =
  ur_task :: string
  ur_arm :: string
  ur_repetition :: int
  ur_cache_mode :: string
  ur_provider :: string
  ur_request :: string
  ur_response :: string
  ur_fresh :: int
  ur_cached :: int
  ur_output :: int
  ur_reasoning :: int
  ur_quota :: rat
  ur_hardware :: string
  ur_hash :: string

definition receipt_payload :: "usage_receipt \<Rightarrow> pyval" where
  "receipt_payload r = PyDict
     [(''task_id'', PyStr (ur_task r)), (''arm_id'', PyStr (ur_arm r)), (''repetition'', PyInt (ur_repetition r)),
      (''cache_mode'', PyStr (ur_cache_mode r)), (''provider'', PyStr (ur_provider r)),
      (''request_id_hash'', PyStr (ur_request r)), (''provider_response_hash'', PyStr (ur_response r)),
      (''fresh_input_tokens'', PyInt (ur_fresh r)), (''cached_input_tokens'', PyInt (ur_cached r)),
      (''output_tokens'', PyInt (ur_output r)), (''reasoning_tokens'', PyInt (ur_reasoning r)),
      (''quota_cost'', PyFloat (ur_quota r)), (''hardware_hash'', PyStr (ur_hardware r))]"

definition expected_hash :: "(pyval \<Rightarrow> string) \<Rightarrow> usage_receipt \<Rightarrow> string" where
  "expected_hash sha r = digest sha (receipt_payload r)"

definition valid_sha256 :: "string \<Rightarrow> bool" where
  "valid_sha256 v \<longleftrightarrow> length v = 64 \<and> v = py_casefold v \<and> list_all (\<lambda>c. c \<in> set hex_digits) v"

definition validate_receipt :: "(pyval \<Rightarrow> string) \<Rightarrow> usage_receipt \<Rightarrow> string list" where
  "validate_receipt sha r =
     (if ur_task r = '''' \<or> ur_arm r = '''' \<or> ur_repetition r \<le> 0 \<or> ur_cache_mode r = ''''
      then [''receipt-identity-incomplete''] else []) @
     (if ur_provider r = '''' \<or> \<not> valid_sha256 (ur_request r) \<or> \<not> valid_sha256 (ur_response r)
      then [''provider-evidence-incomplete''] else []) @
     (if ur_fresh r < 0 \<or> ur_cached r < 0 \<or> ur_output r < 0 \<or> ur_reasoning r < 0
      then [''negative-token-count''] else []) @
     (if ur_quota r \<le> 0 then [''invalid-quota-cost''] else []) @
     (if \<not> valid_sha256 (ur_hardware r) then [''hardware-hash-invalid''] else []) @
     (if \<not> valid_sha256 (ur_hash r) then [''receipt-hash-invalid'']
      else if ur_hash r \<noteq> expected_hash sha r then [''receipt-hash-mismatch''] else [])"

definition seal_receipt :: "(pyval \<Rightarrow> string) \<Rightarrow> usage_receipt \<Rightarrow> usage_receipt" where
  "seal_receipt sha r = r\<lparr>ur_hash := expected_hash sha (r\<lparr>ur_hash := ''''\<rparr>)\<rparr>"

section \<open>The ledger\<close>

text \<open>A row keeps the usage object as its canonical JSON.\<close>

record usage_row =
  ul_sequence :: int
  ul_receipt :: usage_receipt
  ul_previous :: string
  ul_chain :: string
  ul_mode :: string
  ul_signature :: string
  ul_raw_hash :: string
  ul_raw :: pyval
  ul_created :: rat

type_synonym usage_db = "usage_row list"

definition envelope :: "string \<Rightarrow> string \<Rightarrow> string \<Rightarrow> rat \<Rightarrow> pyval" where
  "envelope receipt_hash previous raw_hash created = PyDict
     [(''schema_version'', PyInt 1), (''receipt_hash'', PyStr receipt_hash), (''previous_chain_hash'', PyStr previous),
      (''raw_usage_hash'', PyStr raw_hash), (''created_at'', PyFloat created)]"

text \<open>\<open>_sign\<close>; an empty key is no key.\<close>

definition sign_chain :: "(string \<Rightarrow> string \<Rightarrow> string) \<Rightarrow> string \<Rightarrow> string \<Rightarrow> string \<times> string" where
  "sign_chain mac key chain = (if key \<noteq> '''' then (''hmac-sha256'', mac key chain) else (''hash-chain-only'', ''''))"

record usage_request =
  uq_task :: string
  uq_arm :: string
  uq_repetition :: int
  uq_cache_mode :: string
  uq_provider :: string
  uq_request :: string
  uq_response :: fields
  uq_quota :: "rat option"
  uq_hardware :: string
  uq_usage :: "fields option"

definition usage_checks :: "usage_request \<Rightarrow> string option list" where
  "usage_checks q =
     [if uq_task q = '''' \<or> uq_arm q = '''' \<or> uq_repetition q \<le> 0 \<or> uq_cache_mode q = ''''
      then Some ''usage receipt identity is incomplete'' else None,
      if uq_request q = '''' then Some ''provider request id is required'' else None,
      if length (uq_hardware q) \<noteq> 64 \<or> \<not> list_all (\<lambda>c. c \<in> set hex_digits) (py_casefold (uq_hardware q))
      then Some ''hardware hash must be lowercase sha256'' else None,
      if (case uq_quota q of None \<Rightarrow> True | Some c \<Rightarrow> c \<le> 0) then Some ''quota cost must be positive and finite'' else None]"

definition raw_usage :: "usage_request \<Rightarrow> fields" where
  "raw_usage q = (case uq_usage q of Some (kv # kvs) \<Rightarrow> kv # kvs | _ \<Rightarrow> uq_response q)"

definition receipt_of ::
  "(pyval \<Rightarrow> string) \<Rightarrow> (string \<Rightarrow> string) \<Rightarrow> usage_request \<Rightarrow> normalized_usage \<Rightarrow> usage_receipt" where
  "receipt_of sha sha_text q u = seal_receipt sha
     \<lparr>ur_task = uq_task q, ur_arm = uq_arm q, ur_repetition = uq_repetition q, ur_cache_mode = uq_cache_mode q,
      ur_provider = nu_provider u, ur_request = sha_text (uq_request q), ur_response = digest sha (PyDict (uq_response q)),
      ur_fresh = nu_fresh u, ur_cached = nu_cached u, ur_output = nu_output u, ur_reasoning = nu_reasoning u,
      ur_quota = (case uq_quota q of Some c \<Rightarrow> c | None \<Rightarrow> 0), ur_hardware = uq_hardware q, ur_hash = ''''\<rparr>"

definition same_usage :: "usage_receipt \<Rightarrow> usage_receipt \<Rightarrow> bool" where
  "same_usage r r' \<longleftrightarrow> ur_task r = ur_task r' \<and> ur_arm r = ur_arm r' \<and> ur_repetition r = ur_repetition r' \<and>
     ur_cache_mode r = ur_cache_mode r' \<and> ur_request r = ur_request r'"

definition last_chain :: "usage_db \<Rightarrow> string" where
  "last_chain db = head_hash ul_chain zero_hash db"

text \<open>The row \<open>record\<close> inserts; the rows are kept in the order of \<open>sequence\<close>.\<close>

definition usage_row_of ::
  "(pyval \<Rightarrow> string) \<Rightarrow> (string \<Rightarrow> string \<Rightarrow> string) \<Rightarrow> string \<Rightarrow> rat \<Rightarrow> usage_request \<Rightarrow> usage_receipt \<Rightarrow> usage_db \<Rightarrow> usage_row" where
  "usage_row_of sha mac key now q r db =
     (let raw_hash = digest sha (PyDict (raw_usage q));
          chain = digest sha (envelope (ur_hash r) (last_chain db) raw_hash now);
          (mode, signature) = sign_chain mac key chain
      in \<lparr>ul_sequence = (if db = [] then 1 else ul_sequence (last db) + 1), ul_receipt = r, ul_previous = last_chain db,
          ul_chain = chain, ul_mode = mode, ul_signature = signature, ul_raw_hash = raw_hash,
          ul_raw = canon (PyDict (raw_usage q)), ul_created = now\<rparr>)"

text \<open>The integer columns hold 64 bits; the module \<open>sqlite3\<close> refuses to bind a larger number.\<close>

definition sqlite_integer :: "int \<Rightarrow> bool" where
  "sqlite_integer n \<longleftrightarrow> - (2 ^ 63) \<le> n \<and> n < 2 ^ 63"

definition usage_integers :: "usage_receipt \<Rightarrow> int list" where
  "usage_integers r = [ur_repetition r, ur_fresh r, ur_cached r, ur_output r, ur_reasoning r]"

definition record_usage ::
  "(pyval \<Rightarrow> string) \<Rightarrow> (string \<Rightarrow> string) \<Rightarrow> (string \<Rightarrow> string \<Rightarrow> string) \<Rightarrow> string \<Rightarrow> rat \<Rightarrow> usage_request \<Rightarrow> usage_db \<Rightarrow>
   py_error + usage_row \<times> usage_db" where
  "record_usage sha sha_text mac key now q db =
     bindE (valueE (checkE (usage_checks q) ())) (\<lambda>_.
     bindE (valueE (normalize_provider_usage (uq_provider q) (raw_usage q))) (\<lambda>u.
     let r = receipt_of sha sha_text q u; reasons = validate_receipt sha r; row = usage_row_of sha mac key now q r db
     in if reasons \<noteq> [] then Inl (ValueError (''invalid usage receipt: '' @ join '','' reasons))
        else if \<not> list_all sqlite_integer (usage_integers r)
        then Inl (OverflowError ''Python int too large to convert to SQLite INTEGER'')
        else if \<exists>x \<in> set db. ul_chain x = ul_chain row \<or> same_usage (ul_receipt x) r
        then Inl (ValueError ''duplicate or conflicting provider usage receipt'')
        else Inr (row, db @ [row])))"

definition usage_receipts :: "string option \<Rightarrow> string option \<Rightarrow> usage_db \<Rightarrow> usage_receipt list" where
  "usage_receipts task arm db =
     map ul_receipt (filter (\<lambda>row. (case task of Some t \<Rightarrow> t \<noteq> '''' \<longrightarrow> ur_task (ul_receipt row) = t | None \<Rightarrow> True) \<and>
        (case arm of Some a \<Rightarrow> a \<noteq> '''' \<longrightarrow> ur_arm (ul_receipt row) = a | None \<Rightarrow> True)) db)"

section \<open>Verification\<close>

definition row_reasons ::
  "(pyval \<Rightarrow> string) \<Rightarrow> (string \<Rightarrow> string \<Rightarrow> string) \<Rightarrow> string \<Rightarrow> bool \<Rightarrow> int \<Rightarrow> string \<Rightarrow> usage_row \<Rightarrow> string list" where
  "row_reasons sha mac key require_hmac expected previous row =
     (let n = int_str (ul_sequence row);
          chain = digest sha (envelope (ur_hash (ul_receipt row)) previous (ul_raw_hash row) (ul_created row))
      in (if ul_sequence row \<noteq> expected then [''sequence-gap:'' @ int_str expected @ ''->'' @ n] else []) @
         (if ul_previous row \<noteq> previous then [''previous-chain-mismatch:'' @ n] else []) @
         map (\<lambda>reason. ''receipt:'' @ n @ '':'' @ reason) (validate_receipt sha (ul_receipt row)) @
         (if digest sha (ul_raw row) \<noteq> ul_raw_hash row then [''raw-usage-hash-mismatch:'' @ n] else []) @
         (if chain \<noteq> ul_chain row then [''chain-hash-mismatch:'' @ n] else []) @
         (if ul_mode row = ''hmac-sha256''
          then if key = '''' then [''hmac-key-unavailable:'' @ n]
               else if mac key chain \<noteq> ul_signature row then [''signature-mismatch:'' @ n] else []
          else if require_hmac then [''hmac-required:'' @ n] else []))"

fun verify_rows ::
  "(pyval \<Rightarrow> string) \<Rightarrow> (string \<Rightarrow> string \<Rightarrow> string) \<Rightarrow> string \<Rightarrow> bool \<Rightarrow> int \<Rightarrow> string \<Rightarrow> usage_db \<Rightarrow> string list \<times> string" where
  "verify_rows sha mac key require_hmac expected previous [] = ([], previous)"
| "verify_rows sha mac key require_hmac expected previous (row # rows) =
     (let chain = digest sha (envelope (ur_hash (ul_receipt row)) previous (ul_raw_hash row) (ul_created row));
          (reasons, final) = verify_rows sha mac key require_hmac (expected + 1) chain rows
      in (row_reasons sha mac key require_hmac expected previous row @ reasons, final))"

record usage_verification =
  uv_ok :: bool
  uv_entries :: int
  uv_last :: string
  uv_attestation :: string
  uv_reasons :: "string list"

definition verify_usage ::
  "(pyval \<Rightarrow> string) \<Rightarrow> (string \<Rightarrow> string \<Rightarrow> string) \<Rightarrow> string \<Rightarrow> bool \<Rightarrow> usage_db \<Rightarrow> usage_verification" where
  "verify_usage sha mac key require_hmac db =
     (let (reasons, final) = verify_rows sha mac key require_hmac 1 zero_hash db
      in \<lparr>uv_ok = (reasons = []), uv_entries = int (length db), uv_last = final,
          uv_attestation = (if db \<noteq> [] \<and> list_all (\<lambda>row. ul_mode row = ''hmac-sha256'') db then ''HMAC'' else ''HASH_CHAIN_ONLY''),
          uv_reasons = reasons\<rparr>)"

section \<open>Payloads and export\<close>

definition get_or :: "fields \<Rightarrow> string \<Rightarrow> string \<Rightarrow> pyval" where
  "get_or kvs a b =
     (let get = (\<lambda>k. case map_of kvs k of None \<Rightarrow> PyNone | Some v \<Rightarrow> v) in if py_truth (get a) then get a else get b)"

definition payload_required :: "string list" where
  "payload_required = [''task_id'', ''arm_id'', ''repetition'', ''cache_mode'', ''provider'', ''request_id'', ''quota_cost'', ''hardware_hash'']"

definition text_at :: "fields \<Rightarrow> string \<Rightarrow> string" where
  "text_at kvs k = (case map_of kvs k of None \<Rightarrow> '''' | Some v \<Rightarrow> py_str v)"

definition value_at :: "fields \<Rightarrow> string \<Rightarrow> pyval" where
  "value_at kvs k = (case map_of kvs k of None \<Rightarrow> PyNone | Some v \<Rightarrow> v)"

definition record_from_payload ::
  "(pyval \<Rightarrow> string) \<Rightarrow> (string \<Rightarrow> string) \<Rightarrow> (string \<Rightarrow> string \<Rightarrow> string) \<Rightarrow> string \<Rightarrow> rat \<Rightarrow> fields \<Rightarrow> usage_db \<Rightarrow>
   py_error + (usage_row \<times> usage_db) option" where
  "record_from_payload sha sha_text mac key now payload db =
     (case (get_or payload ''provider_usage'' ''usage'', get_or payload ''provider_response'' ''response'') of
        (PyDict usage, PyDict response) \<Rightarrow>
          if \<exists>k \<in> set payload_required. value_at payload k = PyNone \<or> value_at payload k = PyStr '''' then Inr None
          else bindE (py_int (value_at payload ''repetition'')) (\<lambda>repetition.
            bindE (py_float (value_at payload ''quota_cost'')) (\<lambda>quota.
            bindE (record_usage sha sha_text mac key now
              \<lparr>uq_task = text_at payload ''task_id'', uq_arm = text_at payload ''arm_id'', uq_repetition = repetition,
               uq_cache_mode = text_at payload ''cache_mode'', uq_provider = text_at payload ''provider'',
               uq_request = text_at payload ''request_id'', uq_response = response, uq_quota = quota,
               uq_hardware = text_at payload ''hardware_hash'', uq_usage = Some usage\<rparr> db) (\<lambda>result.
            Inr (Some result))))
      | _ \<Rightarrow> Inr None)"

definition verification_py :: "usage_verification \<Rightarrow> pyval" where
  "verification_py v = PyDict
     [(''ok'', PyBool (uv_ok v)), (''entries'', PyInt (uv_entries v)), (''last_chain_hash'', PyStr (uv_last v)),
      (''attestation'', PyStr (uv_attestation v)), (''reasons'', py_strs (uv_reasons v))]"

text \<open>\<open>dict(row)\<close> without \<open>raw_usage_json\<close>.\<close>

definition row_py :: "usage_row \<Rightarrow> pyval" where
  "row_py row = (let r = ul_receipt row in PyDict
     [(''sequence'', PyInt (ul_sequence row)), (''task_id'', PyStr (ur_task r)), (''arm_id'', PyStr (ur_arm r)),
      (''repetition'', PyInt (ur_repetition r)), (''cache_mode'', PyStr (ur_cache_mode r)),
      (''provider'', PyStr (ur_provider r)), (''request_id_hash'', PyStr (ur_request r)),
      (''provider_response_hash'', PyStr (ur_response r)), (''fresh_input_tokens'', PyInt (ur_fresh r)),
      (''cached_input_tokens'', PyInt (ur_cached r)), (''output_tokens'', PyInt (ur_output r)),
      (''reasoning_tokens'', PyInt (ur_reasoning r)), (''quota_cost'', PyFloat (ur_quota r)),
      (''hardware_hash'', PyStr (ur_hardware r)), (''receipt_hash'', PyStr (ur_hash r)),
      (''previous_chain_hash'', PyStr (ul_previous row)), (''chain_hash'', PyStr (ul_chain row)),
      (''signature_mode'', PyStr (ul_mode row)), (''signature'', PyStr (ul_signature row)),
      (''raw_usage_hash'', PyStr (ul_raw_hash row)), (''created_at'', PyFloat (ul_created row))])"

definition export_usage ::
  "(pyval \<Rightarrow> string) \<Rightarrow> (string \<Rightarrow> string \<Rightarrow> string) \<Rightarrow> string \<Rightarrow> usage_db \<Rightarrow> attribution_db \<Rightarrow> fields" where
  "export_usage sha mac key db attributed =
     (let payload = [(''schema_version'', PyInt 1), (''verification'', verification_py (verify_usage sha mac key False db)),
          (''entries'', PyList (map row_py db)), (''token_attribution'', summary_py None (sum_attributions None attributed))]
      in payload @ [(''export_hash'', PyStr (digest sha (PyDict payload)))])"

section \<open>What a reachable ledger satisfies\<close>

lemma digest_canon: "digest sha (canon v) = digest sha v"
  by (simp only: digest_def canon_idem)

inductive usage_step ::
  "(pyval \<Rightarrow> string) \<Rightarrow> (string \<Rightarrow> string) \<Rightarrow> (string \<Rightarrow> string \<Rightarrow> string) \<Rightarrow> string \<Rightarrow> usage_db \<Rightarrow> usage_db \<Rightarrow> bool"
  for sha :: "pyval \<Rightarrow> string" and sha_text :: "string \<Rightarrow> string" and mac :: "string \<Rightarrow> string \<Rightarrow> string" and key :: string where
  step_usage: "record_usage sha sha_text mac k now q db = Inr (row, db') \<Longrightarrow> k = key \<or> k = '''' \<Longrightarrow>
     usage_step sha sha_text mac key db db'"
| step_payload: "record_from_payload sha sha_text mac k now payload db = Inr (Some (row, db')) \<Longrightarrow> k = key \<or> k = '''' \<Longrightarrow>
     usage_step sha sha_text mac key db db'"

definition row_envelope :: "usage_row \<Rightarrow> pyval" where
  "row_envelope row = envelope (ur_hash (ul_receipt row)) (ul_previous row) (ul_raw_hash row) (ul_created row)"

definition row_ok :: "(pyval \<Rightarrow> string) \<Rightarrow> (string \<Rightarrow> string \<Rightarrow> string) \<Rightarrow> string \<Rightarrow> usage_row \<Rightarrow> bool" where
  "row_ok sha mac key row \<longleftrightarrow> validate_receipt sha (ul_receipt row) = [] \<and> digest sha (ul_raw row) = ul_raw_hash row \<and>
     ul_chain row = digest sha (row_envelope row) \<and>
     (ul_mode row = ''hmac-sha256'' \<longrightarrow> key \<noteq> '''' \<and> ul_signature row = mac key (ul_chain row))"

definition usage_key :: "usage_receipt \<Rightarrow> string \<times> string \<times> int \<times> string \<times> string" where
  "usage_key r = (ur_task r, ur_arm r, ur_repetition r, ur_cache_mode r, ur_request r)"

definition usage_ok :: "(pyval \<Rightarrow> string) \<Rightarrow> (string \<Rightarrow> string \<Rightarrow> string) \<Rightarrow> string \<Rightarrow> usage_db \<Rightarrow> bool" where
  "usage_ok sha mac key db \<longleftrightarrow> linked ul_previous ul_chain zero_hash db \<and> numbered ul_sequence 1 db \<and>
     (\<forall>row \<in> set db. row_ok sha mac key row) \<and> distinct (map (usage_key \<circ> ul_receipt) db)"

lemma record_usage_Inr:
  assumes "record_usage sha sha_text mac key now q db = Inr (row, db')"
  obtains r where "db' = db @ [row]" and "row = usage_row_of sha mac key now q r db" and "validate_receipt sha r = []"
    and "\<forall>x \<in> set db. ul_chain x \<noteq> ul_chain row \<and> \<not> same_usage (ul_receipt x) r"
  using assms unfolding record_usage_def by (auto simp: Let_def split: if_splits)

lemma record_from_payload_Inr:
  assumes "record_from_payload sha sha_text mac key now payload db = Inr (Some (row, db'))"
  obtains q where "record_usage sha sha_text mac key now q db = Inr (row, db')"
  using assms unfolding record_from_payload_def by (auto split: pyval.splits if_splits)

lemma usage_stepE:
  assumes "usage_step sha sha_text mac key db db'"
  obtains k now q row where "record_usage sha sha_text mac k now q db = Inr (row, db')" and "k = key \<or> k = ''''"
  using assms by (cases rule: usage_step.cases) (blast elim: record_from_payload_Inr)+

lemma row_of_ok:
  assumes "k = key \<or> k = ''''" and "validate_receipt sha r = []"
  shows "row_ok sha mac key (usage_row_of sha mac k now q r db)"
  using assms
  by (auto simp: row_ok_def usage_row_of_def row_envelope_def sign_chain_def Let_def digest_canon simp del: canon.simps)

lemma row_of_links:
  "ul_previous (usage_row_of sha mac k now q r db) = last_chain db"
  "ul_receipt (usage_row_of sha mac k now q r db) = r"
  "ul_sequence (usage_row_of sha mac k now q r db) = (if db = [] then 1 else ul_sequence (last db) + 1)"
  by (simp_all add: usage_row_of_def Let_def case_prod_beta)

lemma same_usage_key: "same_usage r r' \<longleftrightarrow> usage_key r = usage_key r'"
  by (auto simp: same_usage_def usage_key_def)

lemma usage_ok_step:
  assumes ok: "usage_ok sha mac key db" and step: "usage_step sha sha_text mac key db db'"
  shows "usage_ok sha mac key db'"
proof -
  obtain k now q row where rec: "record_usage sha sha_text mac k now q db = Inr (row, db')" "k = key \<or> k = ''''"
    by (rule usage_stepE[OF step])
  obtain r where r: "db' = db @ [row]" "row = usage_row_of sha mac k now q r db" "validate_receipt sha r = []"
    "\<forall>x \<in> set db. ul_chain x \<noteq> ul_chain row \<and> \<not> same_usage (ul_receipt x) r"
    by (rule record_usage_Inr[OF rec(1)])
  have "row_ok sha mac key row" unfolding r(2) by (rule row_of_ok[OF rec(2) r(3)])
  moreover have "ul_sequence row = 1 + int (length db)"
    using ok numbered_last[of ul_sequence 1 db] by (auto simp: r(2) row_of_links usage_ok_def)
  ultimately show ?thesis
    using ok r(4) by (auto simp: r(1) usage_ok_def linked_append numbered_append r(2) row_of_links last_chain_def same_usage_key)
qed

interpretation usage_runs: stateful "\<lambda>db. db = []" "usage_step sha sha_text mac key" "usage_ok sha mac key"
  for sha :: "pyval \<Rightarrow> string" and sha_text :: "string \<Rightarrow> string" and mac :: "string \<Rightarrow> string \<Rightarrow> string" and key :: string
proof
  fix s t
  assume "usage_ok sha mac key s" and "usage_step sha sha_text mac key s t"
  then show "usage_ok sha mac key t" by (rule usage_ok_step)
qed (simp add: usage_ok_def)

definition unsigned_reasons :: "bool \<Rightarrow> usage_db \<Rightarrow> string list" where
  "unsigned_reasons require_hmac db =
     (if require_hmac
      then map (\<lambda>row. ''hmac-required:'' @ int_str (ul_sequence row)) (filter (\<lambda>row. ul_mode row \<noteq> ''hmac-sha256'') db)
      else [])"

lemma verify_rows_ok:
  "linked ul_previous ul_chain previous db \<Longrightarrow> numbered ul_sequence n db \<Longrightarrow> \<forall>row \<in> set db. row_ok sha mac key row \<Longrightarrow>
   verify_rows sha mac key rh n previous db = (unsigned_reasons rh db, head_hash ul_chain previous db)"
proof (induction db arbitrary: n previous)
  case (Cons row db)
  have row: "row_ok sha mac key row" "ul_previous row = previous" "ul_sequence row = n" using Cons.prems by auto
  then have chain: "digest sha (envelope (ur_hash (ul_receipt row)) previous (ul_raw_hash row) (ul_created row)) = ul_chain row"
    by (simp add: row_ok_def row_envelope_def)
  have "row_reasons sha mac key rh n previous row = unsigned_reasons rh [row]"
    using row by (simp add: row_reasons_def chain Let_def row_ok_def unsigned_reasons_def)
  moreover have "verify_rows sha mac key rh (n + 1) (ul_chain row) db = (unsigned_reasons rh db, head_hash ul_chain (ul_chain row) db)"
    using Cons by simp
  ultimately show ?case by (simp add: chain Let_def unsigned_reasons_def head_hash_def)
qed (simp add: unsigned_reasons_def head_hash_def)

section \<open>The chain commits to the receipts\<close>

record usage_link =
  lk_receipt :: string
  lk_previous :: string
  lk_raw :: string
  lk_created :: rat
  lk_chain :: string

definition link_body :: "usage_link \<Rightarrow> pyval" where
  "link_body e = envelope (lk_receipt e) (lk_previous e) (lk_raw e) (lk_created e)"

definition link_of :: "usage_row \<Rightarrow> usage_link" where
  "link_of row = \<lparr>lk_receipt = ur_hash (ul_receipt row), lk_previous = ul_previous row, lk_raw = ul_raw_hash row,
     lk_created = ul_created row, lk_chain = ul_chain row\<rparr>"

interpretation usage_chain: hash_chain lk_previous lk_chain zero_hash "\<lambda>e. lk_chain e = digest sha (link_body e)"
  link_body "digest sha" for sha :: "pyval \<Rightarrow> string"
  by unfold_locales (auto simp: link_body_def envelope_def)

lemma verify_rows_sound:
  "verify_rows sha mac key rh n previous db = ([], final) \<Longrightarrow>
   linked ul_previous ul_chain previous db \<and> head_hash ul_chain previous db = final \<and>
   (\<forall>row \<in> set db. validate_receipt sha (ul_receipt row) = [] \<and> ul_chain row = digest sha (row_envelope row))"
proof (induction db arbitrary: n previous)
  case (Cons row db)
  let ?chain = "digest sha (envelope (ur_hash (ul_receipt row)) previous (ul_raw_hash row) (ul_created row))"
  have row: "row_reasons sha mac key rh n previous row = []"
    and rest: "verify_rows sha mac key rh (n + 1) ?chain db = ([], final)"
    using Cons.prems by (auto simp: Let_def split: prod.splits)
  have "ul_previous row = previous" "ul_chain row = ?chain" "validate_receipt sha (ul_receipt row) = []"
    using row by (auto simp: row_reasons_def Let_def split: if_splits)
  then show ?case using Cons.IH[OF rest] by (auto simp: row_envelope_def head_hash_def)
qed (simp add: head_hash_def)

lemma linked_map: "linked (prev \<circ> f) (hash \<circ> f) h xs = linked prev hash h (map f xs)"
  by (induction xs arbitrary: h) auto

lemma valid_receipt_hash: "validate_receipt sha r = [] \<Longrightarrow> ur_hash r = digest sha (receipt_payload r)"
  by (auto simp: validate_receipt_def expected_hash_def split: if_splits)

lemma receipt_payload_inj:
  "receipt_payload r = receipt_payload r' \<Longrightarrow> ur_hash r = ur_hash r' \<Longrightarrow> r = r'" for r :: usage_receipt
  by (cases r, cases r') (simp add: receipt_payload_def)

lemma map_eq_by:
  "map f xs = map f ys \<Longrightarrow> (\<And>x y. x \<in> set xs \<Longrightarrow> y \<in> set ys \<Longrightarrow> f x = f y \<Longrightarrow> g x = g y) \<Longrightarrow> map g xs = map g ys"
  by (induction xs ys rule: list_induct2') auto

section \<open>Properties\<close>

text \<open>
  C18. Every ledger that calls of record can reach, with or without the signing key at hand,
  verifies: the only reasons reported are the rows that were recorded without a key when
  signatures are required, and the last chain hash is that of the last row.
\<close>

theorem usage_ledger_verifies:
  assumes "reaches (\<lambda>db. db = []) (usage_step sha sha_text mac key) db"
  shows "verify_usage sha mac key require_hmac db =
    \<lparr>uv_ok = (unsigned_reasons require_hmac db = []), uv_entries = int (length db), uv_last = last_chain db,
     uv_attestation = (if db \<noteq> [] \<and> list_all (\<lambda>row. ul_mode row = ''hmac-sha256'') db then ''HMAC'' else ''HASH_CHAIN_ONLY''),
     uv_reasons = unsigned_reasons require_hmac db\<rparr>"
proof -
  have "usage_ok sha mac key db" by (rule usage_runs.reachable_inv[OF assms])
  then have "verify_rows sha mac key require_hmac 1 zero_hash db =
      (unsigned_reasons require_hmac db, head_hash ul_chain zero_hash db)"
    unfolding usage_ok_def by (intro verify_rows_ok) auto
  then show ?thesis by (simp add: verify_usage_def last_chain_def)
qed

text \<open>
  The last chain hash commits to the receipts: two ledgers of the same length that verify
  with the same last hash hold the same receipts, usage hashes and times, unless the digest
  collides on the envelopes and receipts they contain.
\<close>

theorem usage_head_commits:
  assumes ok: "uv_ok (verify_usage sha mac key rh db)" "uv_ok (verify_usage sha mac' key' rh' db')"
    and same: "uv_last (verify_usage sha mac key rh db) = uv_last (verify_usage sha mac' key' rh' db')" "length db = length db'"
    and inj: "inj_on (digest sha) (row_envelope ` (set db \<union> set db'))"
      "inj_on (digest sha) ((receipt_payload \<circ> ul_receipt) ` (set db \<union> set db'))"
  shows "map (\<lambda>row. (ul_receipt row, ul_raw_hash row, ul_created row)) db =
         map (\<lambda>row. (ul_receipt row, ul_raw_hash row, ul_created row)) db'"
proof -
  have 1: "verify_rows sha mac key rh 1 zero_hash db = ([], uv_last (verify_usage sha mac key rh db))"
    and 2: "verify_rows sha mac' key' rh' 1 zero_hash db' = ([], uv_last (verify_usage sha mac' key' rh' db'))"
    using ok by (auto simp: verify_usage_def split: prod.splits)
  note sound = verify_rows_sound[OF 1] verify_rows_sound[OF 2]
  have envelopes: "link_body (link_of row) = row_envelope row" for row
    by (simp add: link_body_def link_of_def row_envelope_def)
  have chains: "lk_chain (link_of row) = ul_chain row" for row by (simp add: link_of_def)
  have links: "linked lk_previous lk_chain zero_hash (map link_of rows)"
    if "linked ul_previous ul_chain zero_hash rows" for rows
    using that linked_map[of lk_previous link_of lk_chain zero_hash rows] by (simp add: comp_def link_of_def)
  have heads: "head_hash lk_chain zero_hash (map link_of rows) = head_hash ul_chain zero_hash rows" for rows
    by (simp add: head_hash_def last_map link_of_def)
  have "map link_of db = map link_of db'"
  proof (rule usage_chain.same_length_same_log)
    show "linked lk_previous lk_chain zero_hash (map link_of db)" "linked lk_previous lk_chain zero_hash (map link_of db')"
      using sound links by auto
    show "\<forall>e \<in> set (map link_of db) \<union> set (map link_of db'). lk_chain e = digest sha (link_body e)"
      using sound by (simp add: chains envelopes ball_Un)
    have "link_body ` (set (map link_of db) \<union> set (map link_of db')) = row_envelope ` (set db \<union> set db')"
      by (simp add: image_Un image_image envelopes)
    then show "inj_on (digest sha) (link_body ` (set (map link_of db) \<union> set (map link_of db')))" using inj(1) by simp
    show "length (map link_of db) = length (map link_of db')" using same(2) by simp
    show "head_hash lk_chain zero_hash (map link_of db) = head_hash lk_chain zero_hash (map link_of db')"
      using sound same(1) by (simp add: heads)
  qed
  then show ?thesis
  proof (rule map_eq_by)
    fix x y
    assume x: "x \<in> set db" and y: "y \<in> set db'" and eq: "link_of x = link_of y"
    have hashes: "ur_hash (ul_receipt x) = ur_hash (ul_receipt y)" using eq by (simp add: link_of_def)
    have "validate_receipt sha (ul_receipt x) = []" "validate_receipt sha (ul_receipt y) = []"
      using sound x y by blast+
    then have "digest sha (receipt_payload (ul_receipt x)) = digest sha (receipt_payload (ul_receipt y))"
      by (metis hashes valid_receipt_hash)
    from inj_onD[OF inj(2) this] have "receipt_payload (ul_receipt x) = receipt_payload (ul_receipt y)"
      using x y by auto
    then have "ul_receipt x = ul_receipt y" using hashes by (rule receipt_payload_inj)
    then show "(ul_receipt x, ul_raw_hash x, ul_created x) = (ul_receipt y, ul_raw_hash y, ul_created y)"
      using eq by (simp add: link_of_def)
  qed
qed

definition demo_usage :: usage_request where
  "demo_usage = \<lparr>uq_task = ''t'', uq_arm = ''a'', uq_repetition = 1, uq_cache_mode = ''cold'', uq_provider = '' OpenAI'',
     uq_request = ''r'', uq_response = [(''usage'', PyDict [(''input_tokens'', PyInt 9), (''output_tokens'', PyStr ''4''),
       (''input_tokens_details'', PyDict [(''cached_tokens'', PyInt 6)])])], uq_quota = Some 1, uq_hardware = zero_hash,
     uq_usage = None\<rparr>"

definition demo_normalized :: normalized_usage where
  "demo_normalized = \<lparr>nu_provider = ''openai'', nu_fresh = 3, nu_cached = 6, nu_output = 4, nu_reasoning = 0,
     nu_fields = [''input_tokens_details.cached_tokens'', ''input_tokens'', ''output_tokens'']\<rparr>"

abbreviation zero_sha :: "pyval \<Rightarrow> string" where
  "zero_sha \<equiv> \<lambda>_. zero_hash"

definition demo_usage_row :: usage_row where
  "demo_usage_row = usage_row_of zero_sha (\<lambda>_ _. ''m'') ''k'' 7 demo_usage
     (receipt_of zero_sha (\<lambda>_. zero_hash) demo_usage demo_normalized) []"

lemma valid_zero_hash: "valid_sha256 zero_hash"
  using zero_hash_shape is_sha256_casefold[OF zero_hash_shape] by (simp add: valid_sha256_def is_sha256_def)

lemma demo_usage_recorded:
  "record_usage zero_sha (\<lambda>_. zero_hash) (\<lambda>_ _. ''m'') ''k'' 7 demo_usage [] = Inr (demo_usage_row, [demo_usage_row])"
proof -
  have "usage_checks demo_usage = [None, None, None, None]"
    using zero_hash_shape is_sha256_casefold[OF zero_hash_shape]
    by (simp add: usage_checks_def demo_usage_def is_sha256_def)
  then have checks: "checkE (usage_checks demo_usage) () = Inr ()" by simp
  have usage: "normalize_provider_usage (uq_provider demo_usage) (raw_usage demo_usage) = Inr demo_normalized"
    by code_simp
  have "validate_receipt zero_sha (receipt_of zero_sha (\<lambda>_. zero_hash) demo_usage demo_normalized) = []"
    by (simp add: validate_receipt_def receipt_of_def seal_receipt_def expected_hash_def digest_def valid_zero_hash
        demo_usage_def demo_normalized_def)
  moreover have "list_all sqlite_integer (usage_integers (receipt_of zero_sha (\<lambda>_. zero_hash) demo_usage demo_normalized))"
    by (simp add: usage_integers_def sqlite_integer_def receipt_of_def seal_receipt_def demo_usage_def demo_normalized_def)
  ultimately show ?thesis using checks usage by (simp add: record_usage_def demo_usage_row_def Let_def)
qed

theorem usage_ledger_verifies_witness:
  "verify_usage zero_sha (\<lambda>_ _. ''m'') ''k'' True [demo_usage_row] =
     \<lparr>uv_ok = True, uv_entries = 1, uv_last = zero_hash, uv_attestation = ''HMAC'', uv_reasons = []\<rparr>"
proof -
  have step: "usage_step zero_sha (\<lambda>_. zero_hash) (\<lambda>_ _. ''m'') ''k'' [] [demo_usage_row]"
    by (rule step_usage[OF demo_usage_recorded]) simp
  have "reaches (\<lambda>db. db = []) (usage_step zero_sha (\<lambda>_. zero_hash) (\<lambda>_ _. ''m'') ''k'') [demo_usage_row]"
    by (rule reach_step[where step = "usage_step zero_sha (\<lambda>_. zero_hash) (\<lambda>_ _. ''m'') ''k''", OF _ step])
      (rule reach_init, simp)
  from usage_ledger_verifies[OF this, of True] show ?thesis
    by (simp add: unsigned_reasons_def last_chain_def head_hash_def demo_usage_row_def usage_row_of_def sign_chain_def
        digest_def Let_def)
qed

theorem usage_head_commits_witness:
  "map ul_created [demo_usage_row] = map ul_created [demo_usage_row\<lparr>ul_mode := ''hash-chain-only''\<rparr>]"
proof -
  have ok: "verify_usage zero_sha (\<lambda>_ _. ''m'') ''k'' False [demo_usage_row] =
      \<lparr>uv_ok = True, uv_entries = 1, uv_last = zero_hash, uv_attestation = ''HMAC'', uv_reasons = []\<rparr>"
    "verify_usage zero_sha (\<lambda>_ _. ''m'') '''' False [demo_usage_row\<lparr>ul_mode := ''hash-chain-only''\<rparr>] =
      \<lparr>uv_ok = True, uv_entries = 1, uv_last = zero_hash, uv_attestation = ''HASH_CHAIN_ONLY'', uv_reasons = []\<rparr>"
    by (simp_all add: verify_usage_def row_reasons_def validate_receipt_def demo_usage_row_def usage_row_of_def
        last_chain_def sign_chain_def receipt_of_def seal_receipt_def expected_hash_def digest_def valid_zero_hash
        demo_usage_def demo_normalized_def Let_def)
  show ?thesis
    using usage_head_commits[of zero_sha "\<lambda>_ _. ''m''" "''k''" False "[demo_usage_row]" "\<lambda>_ _. ''m''" "''''" False
        "[demo_usage_row\<lparr>ul_mode := ''hash-chain-only''\<rparr>]"]
    by (simp add: ok row_envelope_def)
qed

end
