(* ===== verification/JsonText.thy ===== *)
theory JsonText
  imports Prelude
begin

text \<open>
  Texts the code searches: \<open>json.dumps(v, ensure_ascii=False)\<close>, and the words of a
  text.  The text of a float is the parameter \<open>show\<close>, since floats are rationals here.
\<close>

section \<open>Rendering\<close>

definition hex_char :: "nat \<Rightarrow> char" where
  "hex_char n = char_of (if n < 10 then 48 + n else 87 + n)"

definition json_escape :: "char \<Rightarrow> string" where
  "json_escape c =
     (let n = code_of c in
      if n = 34 then [CHR 0x5C, CHR 0x22] else if n = 92 then [CHR 0x5C, CHR 0x5C]
      else if n = 10 then [CHR 0x5C, CHR ''n''] else if n = 13 then [CHR 0x5C, CHR ''r'']
      else if n = 9 then [CHR 0x5C, CHR ''t''] else if n = 8 then [CHR 0x5C, CHR ''b'']
      else if n = 12 then [CHR 0x5C, CHR ''f'']
      else if n < 32 then [CHR 0x5C, CHR ''u'', CHR ''0'', CHR ''0'', hex_char (n div 16), hex_char (n mod 16)]
      else [c])"

definition json_string :: "string \<Rightarrow> string" where
  "json_string s = [CHR 0x22] @ concat (map json_escape s) @ [CHR 0x22]"

fun json_text :: "string \<Rightarrow> string \<Rightarrow> (rat \<Rightarrow> string) \<Rightarrow> pyval \<Rightarrow> string"
  and json_elements :: "string \<Rightarrow> string \<Rightarrow> (rat \<Rightarrow> string) \<Rightarrow> pyval list \<Rightarrow> string list"
  and json_members :: "string \<Rightarrow> string \<Rightarrow> (rat \<Rightarrow> string) \<Rightarrow> fields \<Rightarrow> string list" where
  "json_text sep colon sh PyNone = ''null''"
| "json_text sep colon sh (PyBool b) = (if b then ''true'' else ''false'')"
| "json_text sep colon sh (PyInt i) = int_str i"
| "json_text sep colon sh (PyFloat r) = sh r"
| "json_text sep colon sh (PyStr s) = json_string s"
| "json_text sep colon sh (PyList vs) = ''['' @ join sep (json_elements sep colon sh vs) @ '']''"
| "json_text sep colon sh (PyTuple vs) = ''['' @ join sep (json_elements sep colon sh vs) @ '']''"
| "json_text sep colon sh (PyDict kvs) = ''{'' @ join sep (json_members sep colon sh kvs) @ ''}''"
| "json_elements sep colon sh [] = []"
| "json_elements sep colon sh (v # vs) = json_text sep colon sh v # json_elements sep colon sh vs"
| "json_members sep colon sh [] = []"
| "json_members sep colon sh ((k, v) # kvs) = (json_string k @ colon @ json_text sep colon sh v) # json_members sep colon sh kvs"

text \<open>The default separators, and the canonical text of \<open>canonical_json\<close>.\<close>

definition dumps_text :: "(rat \<Rightarrow> string) \<Rightarrow> pyval \<Rightarrow> string" where
  "dumps_text sh v = json_text '', '' '': '' sh v"

definition canonical_text :: "(rat \<Rightarrow> string) \<Rightarrow> pyval \<Rightarrow> string" where
  "canonical_text sh v = json_text '','' '':'' sh (canon v)"

definition canonical_length :: "(rat \<Rightarrow> string) \<Rightarrow> pyval \<Rightarrow> nat" where
  "canonical_length sh v = length (utf8_encode (canonical_text sh v))"

section \<open>Runs and tokens\<close>

text \<open>The maximal runs of characters satisfying \<open>P\<close>: \<open>re.findall("[...]+", s)\<close>.\<close>

function runs :: "(char \<Rightarrow> bool) \<Rightarrow> string \<Rightarrow> string list" where
  "runs P s =
     (let t = dropWhile (\<lambda>c. \<not> P c) s in if t = [] then [] else takeWhile P t # runs P (dropWhile P t))"
  by pat_completeness auto
termination
proof (relation "measure (length \<circ> snd)")
  fix P :: "char \<Rightarrow> bool" and s t
  assume t: "t = dropWhile (\<lambda>c. \<not> P c) s" "t \<noteq> []"
  then have "P (hd t)" using hd_dropWhile[of "\<lambda>c. \<not> P c" s] by simp
  then have "length (dropWhile P t) < length t" using t(2)
    by (cases t) (auto simp: le_imp_less_Suc length_dropWhile_le)
  also have "\<dots> \<le> length s" unfolding t(1) by (rule length_dropWhile_le)
  finally show "((P, dropWhile P t), (P, s)) \<in> measure (length \<circ> snd)" by simp
qed simp

declare runs.simps [simp del]

text \<open>\<open>_TOKEN_RE\<close> and \<open>_tokens\<close> of \<open>platform_common.py\<close>.\<close>

definition separator_char :: "char \<Rightarrow> bool" where
  "separator_char c \<longleftrightarrow> c \<in> set ''._/:-''"

definition token_char :: "char \<Rightarrow> bool" where
  "token_char c \<longleftrightarrow> (let n = code_of c in
     (48 \<le> n \<and> n \<le> 57) \<or> (65 \<le> n \<and> n \<le> 90) \<or> (97 \<le> n \<and> n \<le> 122) \<or> separator_char c)"

definition text_tokens :: "string \<Rightarrow> string list" where
  "text_tokens text =
     remdups (concat (map (\<lambda>token. filter (\<lambda>w. length w > 1) (token # runs (\<lambda>c. \<not> separator_char c) token))
       (runs token_char (py_casefold text))))"

end
