(* ===== verification/SessionMemory.thy ===== *)
theory SessionMemory
  imports HashChain JsonText
begin

text \<open>
  The session memory of \<open>syntavra_runtime/session_memory.py\<close>: one event chain per session, summaries
  by view, checkpoints, forks and merges, and retrieval.  Each method opens connections of its own;
  a block that raises rolls its tables back.  Timestamps are ISO texts.
\<close>

section \<open>Tables\<close>

record memory_session =
  ms_id :: string
  ms_project :: string
  ms_state :: string
  ms_parents :: "string list"
  ms_meta :: pyval
  ms_created :: string
  ms_updated :: string

record memory_event =
  me_session :: string
  me_sequence :: int
  me_type :: string
  me_payload :: pyval
  me_previous :: string
  me_hash :: string
  me_created :: string

record memory_summary =
  mm_id :: string
  mm_session :: string
  mm_view :: string
  mm_sources :: "int list"
  mm_parents :: "string list"
  mm_text :: string
  mm_created :: string

record memory_checkpoint =
  mc_id :: string
  mc_session :: string
  mc_label :: string
  mc_sequence :: int
  mc_hash :: string
  mc_created :: string

record memory =
  my_sessions :: "memory_session list"
  my_events :: "memory_event list"
  my_summaries :: "memory_summary list"
  my_checkpoints :: "memory_checkpoint list"
  my_tick :: nat

definition empty_memory :: memory where
  "empty_memory = \<lparr>my_sessions = [], my_events = [], my_summaries = [], my_checkpoints = [], my_tick = 0\<rparr>"

record memory_env =
  mv_project :: string
  mv_sha :: "pyval \<Rightarrow> string"
  mv_clock :: "nat \<Rightarrow> string"
  mv_token :: "nat \<Rightarrow> string"
  mv_show :: "rat \<Rightarrow> string"
  mv_pick :: "memory_summary list \<Rightarrow> memory_summary option"

type_synonym 'a memory_op = "(memory, py_error, 'a) op"

definition utc_now :: "memory_env \<Rightarrow> string memory_op" where
  "utc_now mv = (\<lambda>m. (Inr (mv_clock mv (my_tick m)), m\<lparr>my_tick := Suc (my_tick m)\<rparr>))"

definition token_hex :: "memory_env \<Rightarrow> string memory_op" where
  "token_hex mv = (\<lambda>m. (Inr (mv_token mv (my_tick m)), m\<lparr>my_tick := Suc (my_tick m)\<rparr>))"

definition connected :: "'a memory_op \<Rightarrow> 'a memory_op" where
  "connected p = (\<lambda>m. case p m of (Inl e, t) \<Rightarrow> (Inl e, m\<lparr>my_tick := my_tick t\<rparr>) | (Inr x, t) \<Rightarrow> (Inr x, t))"

section \<open>Sessions\<close>

definition find_session :: "string \<Rightarrow> memory \<Rightarrow> memory_session option" where
  "find_session sid m = find (\<lambda>r. ms_id r = sid) (my_sessions m)"

definition require_session :: "string \<Rightarrow> memory_session memory_op" where
  "require_session sid = (\<lambda>m. case find_session sid m of None \<Rightarrow> (Inl (KeyError sid), m) | Some r \<Rightarrow> (Inr r, m))"

definition describe :: "string \<Rightarrow> memory_session memory_op" where
  "describe sid = connected (require_session sid)"

definition missing_parent :: "string list \<Rightarrow> memory \<Rightarrow> string option" where
  "missing_parent parents m = find (\<lambda>p. find_session p m = None) parents"

text \<open>The session and whether it was there before; an existing one is returned as it is.\<close>

definition open_session ::
  "memory_env \<Rightarrow> string option \<Rightarrow> string list \<Rightarrow> fields \<Rightarrow> (memory_session \<times> bool) memory_op" where
  "open_session mv session_id parents metadata =
     bindS (case session_id of None \<Rightarrow> token_hex mv | Some i \<Rightarrow> if i = '''' then token_hex mv else returnS i) (\<lambda>sid.
     bindS (utc_now mv) (\<lambda>now.
     connected (bindS getS (\<lambda>m.
       case find_session sid m of
         Some r \<Rightarrow> returnS (r, True)
       | None \<Rightarrow> (case missing_parent parents m of
           Some p \<Rightarrow> failS (KeyError (''parent session not found: '' @ p))
         | None \<Rightarrow>
             let r = \<lparr>ms_id = sid, ms_project = mv_project mv, ms_state = ''ACTIVE'', ms_parents = parents,
                   ms_meta = PyDict metadata, ms_created = now, ms_updated = now\<rparr>
             in bindS (modifyS (\<lambda>m. m\<lparr>my_sessions := my_sessions m @ [r\<lparr>ms_meta := canon (ms_meta r)\<rparr>]\<rparr>)) (\<lambda>_.
                returnS (r, False)))))))"

section \<open>Events\<close>

definition memory_rows :: "memory \<Rightarrow> string \<Rightarrow> memory_event list" where
  "memory_rows m sid = filter (\<lambda>e. me_session e = sid) (my_events m)"

definition last_event :: "memory \<Rightarrow> string \<Rightarrow> memory_event option" where
  "last_event m sid = first_min (\<lambda>e. - me_sequence e) (memory_rows m sid)"

definition memory_body :: "string \<Rightarrow> int \<Rightarrow> string \<Rightarrow> pyval \<Rightarrow> string \<Rightarrow> pyval" where
  "memory_body sid sequence ty payload previous = PyDict
     [(''session_id'', PyStr sid), (''sequence'', PyInt sequence), (''event_type'', PyStr ty), (''payload'', payload),
      (''previous_hash'', PyStr previous)]"

definition next_memory_event :: "memory_env \<Rightarrow> string \<Rightarrow> string \<Rightarrow> pyval \<Rightarrow> memory \<Rightarrow> string \<Rightarrow> memory_event" where
  "next_memory_event mv sid ty payload m created =
     (let sequence = (case last_event m sid of None \<Rightarrow> 1 | Some e \<Rightarrow> me_sequence e + 1);
          previous = (case last_event m sid of None \<Rightarrow> zero_hash | Some e \<Rightarrow> me_hash e)
      in \<lparr>me_session = sid, me_sequence = sequence, me_type = ty, me_payload = payload, me_previous = previous,
          me_hash = digest (mv_sha mv) (memory_body sid sequence ty payload previous), me_created = created\<rparr>)"

definition insert_memory_event :: "memory_event \<Rightarrow> unit memory_op" where
  "insert_memory_event e = (\<lambda>m.
     if \<exists>x \<in> set (memory_rows m (me_session e)). me_sequence x = me_sequence e
     then (Inl (IntegrityError ''events.session_id, events.sequence''), m)
     else (Inr (), m\<lparr>my_events := my_events m @ [e\<lparr>me_payload := canon (me_payload e)\<rparr>]\<rparr>))"

definition touch_session :: "string \<Rightarrow> string \<Rightarrow> memory \<Rightarrow> memory" where
  "touch_session sid now m = m\<lparr>my_sessions :=
     update_where (\<lambda>r. ms_id r = sid) (\<lambda>r. r\<lparr>ms_updated := now\<rparr>) (my_sessions m)\<rparr>"

definition append_memory :: "memory_env \<Rightarrow> string \<Rightarrow> string \<Rightarrow> fields \<Rightarrow> memory_event memory_op" where
  "append_memory mv sid ty payload =
     connected (bindS (require_session sid) (\<lambda>_. bindS getS (\<lambda>m. bindS (utc_now mv) (\<lambda>created.
       let e = next_memory_event mv sid ty (PyDict payload) m created in
       bindS (insert_memory_event e) (\<lambda>_. bindS (modifyS (touch_session sid created)) (\<lambda>_. returnS e))))))"

definition memory_history :: "memory \<Rightarrow> string \<Rightarrow> memory_event list" where
  "memory_history m sid = sort_key me_sequence (memory_rows m sid)"

definition memory_events :: "string \<Rightarrow> memory_event list memory_op" where
  "memory_events sid = connected (bindS (require_session sid) (\<lambda>_. bindS getS (\<lambda>m. returnS (memory_history m sid))))"

section \<open>Verification\<close>

record memory_verification =
  mw_ok :: bool
  mw_events :: int
  mw_last :: string
  mw_failures :: "string list"

fun memory_failures :: "(pyval \<Rightarrow> string) \<Rightarrow> string \<Rightarrow> string \<Rightarrow> memory_event list \<Rightarrow> string list" where
  "memory_failures sha sid previous [] = []"
| "memory_failures sha sid previous (e # es) =
     (if me_previous e \<noteq> previous then [''previous:'' @ int_str (me_sequence e)] else []) @
     (if me_hash e \<noteq> digest sha (memory_body sid (me_sequence e) (me_type e) (me_payload e) previous)
      then [''hash:'' @ int_str (me_sequence e)] else []) @
     memory_failures sha sid (me_hash e) es"

definition verify_events :: "(pyval \<Rightarrow> string) \<Rightarrow> string \<Rightarrow> memory_event list \<Rightarrow> memory_verification" where
  "verify_events sha sid es =
     (let failures = memory_failures sha sid zero_hash es in
      \<lparr>mw_ok = (failures = []), mw_events = int (length es), mw_last = head_hash me_hash zero_hash es, mw_failures = failures\<rparr>)"

definition verify_memory :: "memory_env \<Rightarrow> string \<Rightarrow> memory_verification memory_op" where
  "verify_memory mv sid = bindS (memory_events sid) (\<lambda>es. returnS (verify_events (mv_sha mv) sid es))"

section \<open>Summaries\<close>

definition views :: "string list" where
  "views = [''task'', ''decision'', ''change'', ''failure'', ''security'', ''dependency'', ''repository'', ''test'',
     ''provider'', ''handoff'']"

definition view_terms :: "(string \<times> string list) list" where
  "view_terms =
     [(''task'', [''task'', ''goal'', ''request'', ''plan'']),
      (''decision'', [''decision'', ''decide'', ''chosen'', ''keep'', ''revert'', ''supersede'']),
      (''change'', [''patch'', ''edit'', ''change'', ''file'', ''commit'', ''diff'']),
      (''failure'', [''fail'', ''error'', ''exception'', ''test'', ''panic'', ''timeout'']),
      (''security'', [''security'', ''authorization'', ''policy'', ''secret'', ''sandbox'', ''capability'']),
      (''dependency'', [''dependency'', ''import'', ''package'', ''provider'', ''adapter'']),
      (''repository'', [''repository'', ''branch'', ''commit'', ''symbol'', ''module'', ''worktree'']),
      (''test'', [''test'', ''verify'', ''coverage'', ''assert'', ''benchmark'']),
      (''provider'', [''provider'', ''model'', ''token'', ''cost'', ''receipt'', ''cache'']),
      (''handoff'', [''handoff'', ''agent'', ''resume'', ''migration'', ''fork'', ''merge''])]"

definition render_payload :: "memory_env \<Rightarrow> memory_event \<Rightarrow> string" where
  "render_payload mv e = dumps_text (mv_show mv) (canon (me_payload e))"

definition view_summary :: "memory_env \<Rightarrow> string \<Rightarrow> memory_event list \<Rightarrow> string" where
  "view_summary mv view es =
     (let terms = (case map_of view_terms view of None \<Rightarrow> [] | Some ts \<Rightarrow> ts);
          chosen = filter (\<lambda>e. \<exists>t \<in> set terms. has_substring t (py_casefold (me_type e @ '' '' @ render_payload mv e))) es;
          selected = map (\<lambda>e. ''#'' @ int_str (me_sequence e) @ '' '' @ me_type e @ '': '' @ take 700 (render_payload mv e)) chosen
      in if selected = [] then ''No '' @ view @ '' events in selected range.''
         else join [CHR 0x0A] (drop (length selected - 100) selected))"

text \<open>
  The newest summary of a view; which of several with the same time the query returns is left to
  \<open>mv_pick\<close>.
\<close>

definition newest_summary :: "memory_env \<Rightarrow> string \<Rightarrow> string \<Rightarrow> memory \<Rightarrow> memory_summary option" where
  "newest_summary mv sid view m =
     (let rows = filter (\<lambda>r. mm_session r = sid \<and> mm_view r = view) (my_summaries m)
      in mv_pick mv (filter (\<lambda>r. list_all (\<lambda>x. mm_created x \<le> mm_created r) rows) rows))"

definition summary_body :: "string \<Rightarrow> string \<Rightarrow> int list \<Rightarrow> string list \<Rightarrow> string \<Rightarrow> pyval" where
  "summary_body sid view sources parents text = PyDict
     [(''session_id'', PyStr sid), (''view'', PyStr view), (''source_sequences'', PyList (map PyInt sources)),
      (''parents'', py_strs parents), (''summary'', PyStr text)]"

definition insert_or_ignore :: "memory_summary \<Rightarrow> unit memory_op" where
  "insert_or_ignore r = modifyS (\<lambda>m. if \<exists>x \<in> set (my_summaries m). mm_id x = mm_id r then m
     else m\<lparr>my_summaries := my_summaries m @ [r]\<rparr>)"

definition summarize_view :: "memory_env \<Rightarrow> string \<Rightarrow> memory_event list \<Rightarrow> string \<Rightarrow> memory_summary memory_op" where
  "summarize_view mv sid es view =
     bindS getS (\<lambda>m.
       let text = view_summary mv view es; sources = map me_sequence es;
           parents = (case newest_summary mv sid view m of None \<Rightarrow> [] | Some r \<Rightarrow> [mm_id r]);
           i = digest (mv_sha mv) (summary_body sid view sources parents text)
       in bindS (utc_now mv) (\<lambda>now.
          let r = \<lparr>mm_id = i, mm_session = sid, mm_view = view, mm_sources = sources, mm_parents = parents,
                mm_text = text, mm_created = now\<rparr>
          in bindS (insert_or_ignore r) (\<lambda>_. returnS r)))"

record memory_compaction =
  mp_events :: int
  mp_summaries :: "memory_summary list"
  mp_exact :: bool

definition compact_memory :: "memory_env \<Rightarrow> string \<Rightarrow> string list \<Rightarrow> memory_compaction memory_op" where
  "compact_memory mv sid wanted =
     bindS (memory_events sid) (\<lambda>es.
     let chosen = (if wanted = [] then views else wanted); unknown = sorted_set (filter (\<lambda>v. v \<notin> set views) chosen)
     in bindS (if unknown \<noteq> [] then failS (ValueError (''unsupported summary views: '' @ list_repr unknown)) else returnS ()) (\<lambda>_.
        bindS (connected (bindS (require_session sid) (\<lambda>_. mapS (summarize_view mv sid es) chosen))) (\<lambda>created.
        bindS (verify_memory mv sid) (\<lambda>v.
        returnS \<lparr>mp_events = int (length es), mp_summaries = created, mp_exact = mw_ok v\<rparr>))))"

section \<open>Retrieval\<close>

definition payload_get :: "pyval \<Rightarrow> string \<Rightarrow> pyval" where
  "payload_get v k = (case v of PyDict kvs \<Rightarrow> (case map_of kvs k of None \<Rightarrow> PyNone | Some x \<Rightarrow> x) | _ \<Rightarrow> PyNone)"

text \<open>
  \<open>_payload_weight\<close>.  An importance that is infinite or NaN (as the text of a float can be) ends at
  the limits: only minus infinity at the lower one.
\<close>

definition clamp_weight :: "rat \<Rightarrow> rat" where
  "clamp_weight w = max (-40) (min 30 w)"

definition minus_infinity :: "pyval \<Rightarrow> bool" where
  "minus_infinity v = (case v of PyStr s \<Rightarrow> py_lower (py_strip s) \<in> {''-inf'', ''-infinity''} | _ \<Rightarrow> False)"

definition payload_weight :: "pyval \<Rightarrow> py_error + rat" where
  "payload_weight payload =
     (let v = payload_get payload ''importance'';
          pinned = (if py_truth (payload_get payload ''pinned'') then 15 else 0);
          stale = (if py_truth (payload_get payload ''stale'') \<or> py_truth (payload_get payload ''reverted'') \<or>
              py_truth (payload_get payload ''superseded'') then 35 else 0)
      in bindE (if py_truth v then py_float v else Inr (Some 0)) (\<lambda>importance.
         Inr (case importance of
             None \<Rightarrow> if minus_infinity v then -40 else 30
           | Some i \<Rightarrow> clamp_weight (i * 10 + pinned - stale))))"

datatype memory_hit =
    EventHit rat memory_event
  | SummaryHit rat memory_summary

definition hit_score :: "memory_hit \<Rightarrow> rat" where
  "hit_score h = (case h of EventHit s _ \<Rightarrow> s | SummaryHit s _ \<Rightarrow> s)"

definition hit_text :: "memory_hit \<Rightarrow> string" where
  "hit_text h = (case h of EventHit _ e \<Rightarrow> int_str (me_sequence e) | SummaryHit _ r \<Rightarrow> mm_id r)"

definition matched_terms :: "string list \<Rightarrow> string \<Rightarrow> string list" where
  "matched_terms terms text = (let words = text_tokens text in filter (\<lambda>t. t \<in> set words) terms)"

definition share_matched :: "string list \<Rightarrow> string list \<Rightarrow> rat" where
  "share_matched matched terms = of_nat (length matched) / of_nat (max 1 (length terms))"

definition event_hit :: "memory_env \<Rightarrow> string list \<Rightarrow> nat \<Rightarrow> memory_event \<Rightarrow> py_error + memory_hit list" where
  "event_hit mv terms n e =
     (let matched = matched_terms terms (me_type e @ '' '' @ render_payload mv e) in
      if terms \<noteq> [] \<and> matched = [] then Inr []
      else bindE (payload_weight (me_payload e)) (\<lambda>weight.
        Inr [EventHit (share_matched matched terms * 65 + of_int (me_sequence e) / of_nat (max 1 n) * 15 + weight) e]))"

definition summary_hit :: "string list \<Rightarrow> memory_summary \<Rightarrow> memory_hit list" where
  "summary_hit terms r =
     (let matched = matched_terms terms (mm_view r @ '' '' @ mm_text r) in
      if terms \<noteq> [] \<and> matched = [] then [] else [SummaryHit (share_matched matched terms * 70 + 8) r])"

definition liftS :: "'e + 'a \<Rightarrow> ('s, 'e, 'a) op" where
  "liftS x = (\<lambda>s. (x, s))"

definition retrieve_memory :: "memory_env \<Rightarrow> string \<Rightarrow> string \<Rightarrow> int \<Rightarrow> (memory_hit list \<times> bool) memory_op" where
  "retrieve_memory mv sid query limit =
     bindS (memory_events sid) (\<lambda>es.
     let terms = text_tokens query in
     bindS (liftS (collect (event_hit mv terms (length es)) es)) (\<lambda>hits.
     bindS (connected (bindS (require_session sid) (\<lambda>_. bindS getS (\<lambda>m.
       returnS (filter (\<lambda>r. mm_session r = sid) (my_summaries m)))))) (\<lambda>rows.
     let found = concat hits @ concat (map (summary_hit terms) rows);
         results = take (nat (max 1 limit)) (sort_key (\<lambda>h. (- hit_score h, hit_text h)) found)
     in bindS (verify_memory mv sid) (\<lambda>v. returnS (results, mw_ok v)))))"

section \<open>Checkpoints, forks and merges\<close>

definition checkpoint_body :: "memory_checkpoint \<Rightarrow> pyval" where
  "checkpoint_body c = PyDict
     [(''session_id'', PyStr (mc_session c)), (''sequence'', PyInt (mc_sequence c)), (''event_hash'', PyStr (mc_hash c)),
      (''label'', PyStr (mc_label c))]"

definition make_checkpoint :: "memory_env \<Rightarrow> string \<Rightarrow> string \<Rightarrow> memory \<Rightarrow> string \<Rightarrow> memory_checkpoint" where
  "make_checkpoint mv sid label m created =
     (let c = \<lparr>mc_id = '''', mc_session = sid, mc_label = label,
            mc_sequence = (case last_event m sid of None \<Rightarrow> 0 | Some e \<Rightarrow> me_sequence e),
            mc_hash = (case last_event m sid of None \<Rightarrow> zero_hash | Some e \<Rightarrow> me_hash e), mc_created = created\<rparr>
      in c\<lparr>mc_id := digest (mv_sha mv) (checkpoint_body c)\<rparr>)"

definition put_checkpoint :: "memory_checkpoint \<Rightarrow> memory \<Rightarrow> memory" where
  "put_checkpoint c m = (if \<exists>x \<in> set (my_checkpoints m). mc_id x = mc_id c then m
     else m\<lparr>my_checkpoints := my_checkpoints m @ [c]\<rparr>)"

definition checkpoint_memory :: "memory_env \<Rightarrow> string \<Rightarrow> string \<Rightarrow> memory_checkpoint memory_op" where
  "checkpoint_memory mv sid label =
     connected (bindS (require_session sid) (\<lambda>_. bindS getS (\<lambda>m. bindS (utc_now mv) (\<lambda>created.
       let c = make_checkpoint mv sid label m created in
       bindS (modifyS (put_checkpoint c)) (\<lambda>_. returnS c)))))"

definition or_text :: "string \<Rightarrow> string \<Rightarrow> string" where
  "or_text a b = (if a = '''' then b else a)"

definition fork_memory :: "memory_env \<Rightarrow> string \<Rightarrow> string \<Rightarrow> (memory_session \<times> memory_checkpoint) memory_op" where
  "fork_memory mv sid label =
     bindS (checkpoint_memory mv sid (or_text label ''fork'')) (\<lambda>c.
     bindS (open_session mv None [sid] [(''fork_checkpoint'', PyStr (mc_id c)), (''label'', PyStr label)]) (\<lambda>(child, _).
     returnS (child, c)))"

definition checkpoint_py :: "memory_checkpoint \<Rightarrow> pyval" where
  "checkpoint_py c = PyDict
     [(''checkpoint_id'', PyStr (mc_id c)), (''session_id'', PyStr (mc_session c)), (''sequence'', PyInt (mc_sequence c)),
      (''event_hash'', PyStr (mc_hash c)), (''label'', PyStr (mc_label c)), (''created_at'', PyStr (mc_created c))]"

definition merge_memory ::
  "memory_env \<Rightarrow> string list \<Rightarrow> string \<Rightarrow> (memory_session \<times> memory_checkpoint list) memory_op" where
  "merge_memory mv sids label =
     bindS (if length (remdups sids) < 2 then failS (ValueError ''merge requires at least two distinct sessions'') else returnS ()) (\<lambda>_.
     bindS (mapS (\<lambda>sid. checkpoint_memory mv sid (or_text label ''merge'')) sids) (\<lambda>cs.
     bindS (open_session mv None sids [(''merge_checkpoints'', py_strs (map mc_id cs)), (''label'', PyStr label)]) (\<lambda>(merged, _).
     bindS (append_memory mv (ms_id merged) ''merge''
       [(''parents'', py_strs sids), (''checkpoints'', PyList (map checkpoint_py cs))]) (\<lambda>_.
     returnS (merged, cs)))))"

record restored =
  rs_ok :: bool
  rs_checkpoint :: memory_checkpoint
  rs_events :: "memory_event list"

definition restore_memory :: "string \<Rightarrow> restored memory_op" where
  "restore_memory checkpoint_id =
     bindS (connected (\<lambda>m. case find (\<lambda>c. mc_id c = checkpoint_id) (my_checkpoints m) of
         None \<Rightarrow> (Inl (KeyError checkpoint_id), m) | Some c \<Rightarrow> (Inr c, m))) (\<lambda>c.
     bindS (memory_events (mc_session c)) (\<lambda>es.
     let kept = filter (\<lambda>e. me_sequence e \<le> mc_sequence c) es in
     returnS \<lparr>rs_ok = (head_hash me_hash zero_hash kept = mc_hash c), rs_checkpoint = c, rs_events = kept\<rparr>))"

definition memory_stats :: "memory \<Rightarrow> int \<times> int \<times> int \<times> int \<times> string list" where
  "memory_stats m = (int (length (my_sessions m)), int (length (my_events m)), int (length (my_summaries m)),
     int (length (my_checkpoints m)), views)"

section \<open>What a reachable memory satisfies\<close>

definition memory_stored :: "(pyval \<Rightarrow> string) \<Rightarrow> string \<Rightarrow> memory_event \<Rightarrow> bool" where
  "memory_stored sha sid e \<longleftrightarrow>
     me_hash e = digest sha (memory_body sid (me_sequence e) (me_type e) (me_payload e) (me_previous e))"

definition chain_ok :: "(pyval \<Rightarrow> string) \<Rightarrow> string \<Rightarrow> memory_event list \<Rightarrow> bool" where
  "chain_ok sha sid es \<longleftrightarrow> numbered me_sequence 1 es \<and> linked me_previous me_hash zero_hash es \<and>
     (\<forall>e \<in> set es. memory_stored sha sid e)"

definition checkpoint_ok :: "(pyval \<Rightarrow> string) \<Rightarrow> memory \<Rightarrow> memory_checkpoint \<Rightarrow> bool" where
  "checkpoint_ok sha m c \<longleftrightarrow> find_session (mc_session c) m \<noteq> None \<and> mc_id c = digest sha (checkpoint_body c) \<and>
     (\<exists>k \<le> length (memory_rows m (mc_session c)). mc_sequence c = int k \<and>
        mc_hash c = head_hash me_hash zero_hash (take k (memory_rows m (mc_session c))))"

definition memory_ok :: "memory_env \<Rightarrow> memory \<Rightarrow> bool" where
  "memory_ok mv m \<longleftrightarrow> (\<forall>sid. chain_ok (mv_sha mv) sid (memory_rows m sid)) \<and>
     (\<forall>c \<in> set (my_checkpoints m). checkpoint_ok (mv_sha mv) m c)"

text \<open>Histories and checkpoints are only ever appended to, and no session disappears.\<close>

definition memory_grows :: "memory \<Rightarrow> memory \<Rightarrow> bool" where
  "memory_grows m m' \<longleftrightarrow> (\<forall>sid. \<exists>es. memory_rows m' sid = memory_rows m sid @ es) \<and>
     (\<forall>sid. find_session sid m \<noteq> None \<longrightarrow> find_session sid m' \<noteq> None) \<and>
     (\<exists>cs. my_checkpoints m' = my_checkpoints m @ cs)"

definition memory_advances :: "memory_env \<Rightarrow> memory \<Rightarrow> memory \<Rightarrow> bool" where
  "memory_advances mv m m' \<longleftrightarrow> memory_grows m m' \<and> (memory_ok mv m \<longrightarrow> memory_ok mv m')"

lemma memory_grows_refl: "memory_grows m m"
  by (auto simp: memory_grows_def)

lemma memory_grows_trans: "memory_grows m m' \<Longrightarrow> memory_grows m' m'' \<Longrightarrow> memory_grows m m''"
  unfolding memory_grows_def by (metis append_assoc)

lemma memory_pre: "reflp (memory_advances mv)" "transp (memory_advances mv)"
  by (auto simp: memory_advances_def reflp_def transp_def memory_grows_refl intro: memory_grows_trans)

lemma checkpoint_ok_grows:
  assumes "checkpoint_ok sha m c" and "memory_grows m m'"
  shows "checkpoint_ok sha m' c"
proof -
  obtain es where es: "memory_rows m' (mc_session c) = memory_rows m (mc_session c) @ es"
    using assms(2) unfolding memory_grows_def by blast
  obtain k where "k \<le> length (memory_rows m (mc_session c))" "mc_sequence c = int k"
    "mc_hash c = head_hash me_hash zero_hash (take k (memory_rows m (mc_session c)))"
    using assms(1) by (auto simp: checkpoint_ok_def)
  then show ?thesis
    using assms by (auto simp: checkpoint_ok_def memory_grows_def es intro!: exI[of _ k])
qed

text \<open>An operation that leaves events and checkpoints alone and loses no session advances the memory.\<close>

lemma advances_sessions:
  assumes "my_events m' = my_events m" and "my_checkpoints m' = my_checkpoints m"
    and "\<And>sid. find_session sid m \<noteq> None \<Longrightarrow> find_session sid m' \<noteq> None"
  shows "memory_advances mv m m'"
proof -
  have "memory_grows m m'" using assms by (auto simp: memory_grows_def memory_rows_def)
  then show ?thesis
    using assms checkpoint_ok_grows[of "mv_sha mv" m _ m']
    by (auto simp: memory_advances_def memory_ok_def memory_rows_def)
qed

lemma advances_tick: "memory_advances mv m (m\<lparr>my_tick := n\<rparr>)"
  by (rule advances_sessions) (simp_all add: find_session_def)

lemma rel_op_connected:
  assumes "rel_op (memory_advances mv) p"
  shows "rel_op (memory_advances mv) (connected p)"
  unfolding rel_op_def
proof
  fix m
  obtain r t where p: "p m = (r, t)" by fastforce
  then have "memory_advances mv m t" using assms by (metis rel_op_def snd_conv)
  then show "memory_advances mv m (snd (connected p m))"
    using p advances_tick by (cases r) (auto simp: connected_def)
qed

lemmas memory_rules = rel_op_bindS[OF memory_pre(2)] rel_op_returnS[OF memory_pre(1)]
  rel_op_failS[OF memory_pre(1)] rel_op_getS[OF memory_pre(1)] rel_op_mapS[OF memory_pre]
  rel_op_connected

lemma advances_clock: "rel_op (memory_advances mv) (utc_now mv)" "rel_op (memory_advances mv) (token_hex mv)"
  by (simp_all add: rel_op_def utc_now_def token_hex_def advances_tick)

lemma require_session_state: "snd (require_session sid m) = m"
  by (simp add: require_session_def split: option.splits)

lemma advances_require: "rel_op (memory_advances mv) (require_session sid)"
  using reflpD[OF memory_pre(1)] by (simp add: rel_op_def require_session_state)

lemma find_session_append:
  "find_session sid (m\<lparr>my_sessions := my_sessions m @ rs\<rparr>) =
   (case find_session sid m of None \<Rightarrow> find (\<lambda>r. ms_id r = sid) rs | Some r \<Rightarrow> Some r)"
proof -
  have "find P (xs @ ys) = (case find P xs of None \<Rightarrow> find P ys | Some r \<Rightarrow> Some r)" for P and xs ys :: "memory_session list"
    by (induction xs) auto
  then show ?thesis by (simp add: find_session_def)
qed

lemma advances_open: "rel_op (memory_advances mv) (open_session mv session_id parents metadata)"
proof -
  have add: "rel_op (memory_advances mv) (modifyS (\<lambda>m. m\<lparr>my_sessions := my_sessions m @ [r]\<rparr>))" for r
    by (intro rel_op_modifyS advances_sessions) (auto simp: find_session_append)
  show ?thesis
    unfolding open_session_def Let_def
    by (intro memory_rules advances_clock) (auto intro!: memory_rules advances_clock add split: option.split)
qed

lemma advances_summarize: "rel_op (memory_advances mv) (summarize_view mv sid es view)"
proof -
  have "rel_op (memory_advances mv) (insert_or_ignore r)" for r
    unfolding insert_or_ignore_def by (intro rel_op_modifyS advances_sessions) (auto simp: find_session_def)
  then show ?thesis unfolding summarize_view_def Let_def by (intro memory_rules advances_clock)
qed

lemma advances_events: "rel_op (memory_advances mv) (memory_events sid)"
  unfolding memory_events_def by (intro memory_rules advances_require)

lemma advances_verify: "rel_op (memory_advances mv) (verify_memory mv sid)"
  unfolding verify_memory_def by (intro memory_rules advances_events)

lemma advances_compact: "rel_op (memory_advances mv) (compact_memory mv sid wanted)"
  unfolding compact_memory_def Let_def
  by (intro memory_rules advances_events advances_verify advances_require advances_summarize)
    (auto intro!: memory_rules)

text \<open>Appending an event.\<close>

lemma last_event_ok:
  "chain_ok sha sid (memory_rows m sid) \<Longrightarrow>
   last_event m sid = (if memory_rows m sid = [] then None else Some (last (memory_rows m sid)))"
  unfolding chain_ok_def last_event_def by (blast intro: numbered_first_min)

lemma digest_body_canon: "digest sha (memory_body sid n ty (canon p) prev) = digest sha (memory_body sid n ty p prev)"
  by (simp add: memory_body_def digest_def)

lemma next_event_chain:
  assumes "chain_ok (mv_sha mv) sid (memory_rows m sid)"
    and e_def: "e = next_memory_event mv sid ty payload m created"
  shows "chain_ok (mv_sha mv) sid (memory_rows m sid @ [e\<lparr>me_payload := canon (me_payload e)\<rparr>])"
    and "\<forall>x \<in> set (memory_rows m sid). me_sequence x \<noteq> me_sequence e" and "me_session e = sid"
proof -
  let ?es = "memory_rows m sid"
  note ok = assms(1)[unfolded chain_ok_def]
  have seq: "me_sequence e = 1 + int (length ?es)"
    using numbered_last[of me_sequence 1 ?es] ok
    by (simp add: e_def next_memory_event_def Let_def last_event_ok[OF assms(1)])
  have prev: "me_previous e = head_hash me_hash zero_hash ?es"
    by (simp add: e_def next_memory_event_def Let_def last_event_ok[OF assms(1)] head_hash_def)
  have hash: "me_hash e = digest (mv_sha mv) (memory_body sid (me_sequence e) (me_type e) (me_payload e) (me_previous e))"
    and sid: "me_session e = sid"
    by (simp_all add: e_def next_memory_event_def Let_def)
  show "chain_ok (mv_sha mv) sid (?es @ [e\<lparr>me_payload := canon (me_payload e)\<rparr>])"
    using ok seq prev hash
    by (auto simp: chain_ok_def numbered_append linked_append memory_stored_def digest_body_canon)
  show "\<forall>x \<in> set ?es. me_sequence x \<noteq> me_sequence e"
    using ok numbered_range[of me_sequence 1 ?es] seq by force
  show "me_session e = sid" by (rule sid)
qed

definition appended :: "memory_event \<Rightarrow> memory \<Rightarrow> memory" where
  "appended e m = touch_session (me_session e) (me_created e)
     (m\<lparr>my_tick := Suc (my_tick m), my_events := my_events m @ [e\<lparr>me_payload := canon (me_payload e)\<rparr>]\<rparr>)"

lemma next_memory_fields [simp]:
  "me_session (next_memory_event mv sid ty payload m created) = sid"
  "me_created (next_memory_event mv sid ty payload m created) = created"
  by (simp_all add: next_memory_event_def Let_def)

lemma append_memory_value:
  "append_memory mv sid ty payload m =
     (if find_session sid m = None then (Inl (KeyError sid), m)
      else let e = next_memory_event mv sid ty (PyDict payload) m (mv_clock mv (my_tick m)) in
        if \<exists>x \<in> set (memory_rows m sid). me_sequence x = me_sequence e
        then (Inl (IntegrityError ''events.session_id, events.sequence''), m\<lparr>my_tick := Suc (my_tick m)\<rparr>)
        else (Inr e, appended e m))"
  by (auto simp: append_memory_def connected_def require_session_def bindS_def utc_now_def insert_memory_event_def
      memory_rows_def appended_def Let_def returnS_def modifyS_def split: option.splits)

lemma find_session_touch: "find_session x (touch_session sid now m) \<noteq> None \<longleftrightarrow> find_session x m \<noteq> None"
proof -
  have "find_session x m' \<noteq> None \<longleftrightarrow> x \<in> set (map ms_id (my_sessions m'))" for m'
    by (auto simp: find_session_def find_None_iff)
  moreover have "map ms_id (my_sessions (touch_session sid now m)) = map ms_id (my_sessions m)"
    by (simp add: touch_session_def map_update_where_same)
  ultimately show ?thesis by metis
qed

lemma appended_simps:
  "memory_rows (appended e m) sid =
     memory_rows m sid @ (if me_session e = sid then [e\<lparr>me_payload := canon (me_payload e)\<rparr>] else [])"
  "my_checkpoints (appended e m) = my_checkpoints m"
  "find_session x (appended e m) \<noteq> None \<longleftrightarrow> find_session x m \<noteq> None"
proof -
  show "find_session x (appended e m) \<noteq> None \<longleftrightarrow> find_session x m \<noteq> None"
    unfolding appended_def find_session_touch by (simp add: find_session_def)
qed (simp_all add: appended_def memory_rows_def touch_session_def)

lemma appended_grows: "memory_grows m (appended e m)"
  unfolding memory_grows_def appended_simps by auto

lemma advances_append: "rel_op (memory_advances mv) (append_memory mv sid ty payload)"
  unfolding rel_op_def
proof
  fix m
  define e where "e = next_memory_event mv sid ty (PyDict payload) m (mv_clock mv (my_tick m))"
  have add: "memory_advances mv m (appended e m)"
  proof -
    have "memory_ok mv (appended e m)" if ok: "memory_ok mv m"
    proof -
      have "chain_ok (mv_sha mv) x (memory_rows (appended e m) x)" for x
        using ok next_event_chain(1)[of mv sid m e] by (auto simp: appended_simps e_def memory_ok_def)
      then show ?thesis
        using ok checkpoint_ok_grows[OF _ appended_grows] by (auto simp: memory_ok_def appended_simps(2))
    qed
    then show ?thesis by (simp add: memory_advances_def appended_grows)
  qed
  show "memory_advances mv m (snd (append_memory mv sid ty payload m))"
    using add reflpD[OF memory_pre(1)]
    by (simp add: append_memory_value e_def[symmetric] Let_def advances_tick)
qed

text \<open>Taking a checkpoint.\<close>

lemma checkpoint_memory_value:
  "checkpoint_memory mv sid label m =
     (if find_session sid m = None then (Inl (KeyError sid), m)
      else let c = make_checkpoint mv sid label m (mv_clock mv (my_tick m)) in
        (Inr c, put_checkpoint c (m\<lparr>my_tick := Suc (my_tick m)\<rparr>)))"
  by (auto simp: checkpoint_memory_def connected_def require_session_def bindS_def utc_now_def Let_def
      returnS_def modifyS_def getS_def split: option.splits)

lemma made_checkpoint_ok:
  assumes "memory_ok mv m" and "find_session sid m \<noteq> None"
  shows "checkpoint_ok (mv_sha mv) m (make_checkpoint mv sid label m created)"
    and "mc_sequence (make_checkpoint mv sid label m created) = int (length (memory_rows m sid))"
    and "mc_hash (make_checkpoint mv sid label m created) = head_hash me_hash zero_hash (memory_rows m sid)"
    and "mc_session (make_checkpoint mv sid label m created) = sid"
proof -
  let ?es = "memory_rows m sid" and ?c = "make_checkpoint mv sid label m created"
  have ok: "chain_ok (mv_sha mv) sid ?es" using assms(1) by (simp add: memory_ok_def)
  have seq: "mc_sequence ?c = int (length ?es)"
    using ok numbered_last[of me_sequence 1 ?es]
    by (simp add: make_checkpoint_def Let_def last_event_ok[OF ok] chain_ok_def)
  moreover have hash: "mc_hash ?c = head_hash me_hash zero_hash ?es"
    by (simp add: make_checkpoint_def Let_def last_event_ok[OF ok] head_hash_def)
  moreover have sid: "mc_session ?c = sid" by (simp add: make_checkpoint_def Let_def)
  moreover have "mc_id ?c = digest (mv_sha mv) (checkpoint_body ?c)"
    by (simp add: make_checkpoint_def Let_def checkpoint_body_def)
  ultimately show "checkpoint_ok (mv_sha mv) m ?c" "mc_sequence ?c = int (length ?es)"
    "mc_hash ?c = head_hash me_hash zero_hash ?es" "mc_session ?c = sid"
    using assms(2) by (auto simp: checkpoint_ok_def intro!: exI[of _ "length ?es"])
qed

lemma put_checkpoint_grows: "memory_grows m (put_checkpoint c m)"
  by (auto simp: memory_grows_def put_checkpoint_def memory_rows_def find_session_def)

lemma advances_put_checkpoint:
  assumes "memory_ok mv m \<Longrightarrow> checkpoint_ok (mv_sha mv) m c"
  shows "memory_advances mv m (put_checkpoint c m)"
proof -
  have "memory_rows (put_checkpoint c m) sid = memory_rows m sid" for sid
    by (simp add: put_checkpoint_def memory_rows_def)
  moreover have "set (my_checkpoints (put_checkpoint c m)) \<subseteq> insert c (set (my_checkpoints m))"
    by (auto simp: put_checkpoint_def)
  ultimately have "memory_ok mv (put_checkpoint c m)" if "memory_ok mv m"
    using that assms checkpoint_ok_grows[OF _ put_checkpoint_grows[of m c]] by (auto simp: memory_ok_def)
  then show ?thesis by (simp add: memory_advances_def put_checkpoint_grows)
qed

lemma memory_ok_tick: "memory_ok mv (m\<lparr>my_tick := n\<rparr>) \<longleftrightarrow> memory_ok mv m"
  by (simp add: memory_ok_def memory_rows_def checkpoint_ok_def find_session_def)

lemma make_checkpoint_tick: "make_checkpoint mv sid label (m\<lparr>my_tick := n\<rparr>) t = make_checkpoint mv sid label m t"
  by (simp add: make_checkpoint_def last_event_def memory_rows_def)

lemma advances_checkpoint: "rel_op (memory_advances mv) (checkpoint_memory mv sid label)"
  unfolding rel_op_def
proof
  fix m
  let ?t = "m\<lparr>my_tick := Suc (my_tick m)\<rparr>" and ?c = "make_checkpoint mv sid label m (mv_clock mv (my_tick m))"
  have "memory_advances mv ?t (put_checkpoint ?c ?t)" if "find_session sid m \<noteq> None"
  proof (rule advances_put_checkpoint)
    assume "memory_ok mv ?t"
    moreover have "find_session sid ?t \<noteq> None" using that by (simp add: find_session_def)
    ultimately show "checkpoint_ok (mv_sha mv) ?t ?c"
      using made_checkpoint_ok(1)[of mv ?t sid label "mv_clock mv (my_tick m)"] by (simp add: make_checkpoint_tick)
  qed
  then have "memory_advances mv m (put_checkpoint ?c ?t)" if "find_session sid m \<noteq> None"
    using that transpD[OF memory_pre(2) advances_tick] by blast
  then show "memory_advances mv m (snd (checkpoint_memory mv sid label m))"
    using reflpD[OF memory_pre(1)] by (simp add: checkpoint_memory_value Let_def)
qed

lemma advances_fork: "rel_op (memory_advances mv) (fork_memory mv sid label)"
  unfolding fork_memory_def by (intro memory_rules advances_checkpoint advances_open) (auto intro!: memory_rules)

lemma advances_merge: "rel_op (memory_advances mv) (merge_memory mv sids label)"
  unfolding merge_memory_def
  by (intro memory_rules advances_checkpoint advances_open advances_append) (auto intro!: memory_rules advances_append)

section \<open>Runs\<close>

inductive memory_step :: "memory_env \<Rightarrow> memory \<Rightarrow> memory \<Rightarrow> bool" for mv :: memory_env where
  step_open: "memory_step mv m (snd (open_session mv i parents metadata m))"
| step_append_memory: "memory_step mv m (snd (append_memory mv sid ty payload m))"
| step_compact_memory: "memory_step mv m (snd (compact_memory mv sid wanted m))"
| step_checkpoint_memory: "memory_step mv m (snd (checkpoint_memory mv sid label m))"
| step_fork_memory: "memory_step mv m (snd (fork_memory mv sid label m))"
| step_merge_memory: "memory_step mv m (snd (merge_memory mv sids label m))"

lemma memory_step_advances: "memory_step mv m m' \<Longrightarrow> memory_advances mv m m'"
  by (induction rule: memory_step.induct)
    (use advances_open advances_append advances_compact advances_checkpoint advances_fork advances_merge
      in \<open>auto simp: rel_op_def\<close>)

interpretation memory_runs: stateful "\<lambda>m. m = empty_memory" "memory_step mv" "memory_ok mv"
  for mv :: memory_env
proof
  fix m m'
  assume "memory_ok mv m" and "memory_step mv m m'"
  then show "memory_ok mv m'" using memory_step_advances by (auto simp: memory_advances_def)
qed (simp add: memory_ok_def empty_memory_def memory_rows_def chain_ok_def)

lemma memory_steps_advance: "(memory_step mv)\<^sup>*\<^sup>* m m' \<Longrightarrow> memory_advances mv m m'"
  by (induction rule: rtranclp_induct)
    (auto intro: reflpD[OF memory_pre(1)] transpD[OF memory_pre(2)] memory_step_advances)

section \<open>Properties\<close>

lemma memory_failures_none:
  "linked me_previous me_hash previous es \<Longrightarrow> \<forall>e \<in> set es. memory_stored sha sid e \<Longrightarrow>
   memory_failures sha sid previous es = []"
  by (induction es arbitrary: previous) (auto simp: memory_stored_def)

lemma memory_history_rows: "memory_ok mv m \<Longrightarrow> memory_history m sid = memory_rows m sid"
  unfolding memory_history_def
  by (rule sort_key_sorted[OF numbered_sorted]) (auto simp: memory_ok_def chain_ok_def)

lemma memory_events_value:
  "memory_events sid m = (if find_session sid m = None then (Inl (KeyError sid), m) else (Inr (memory_history m sid), m))"
  by (auto simp: memory_events_def connected_def require_session_def bindS_def returnS_def getS_def split: option.splits)

lemma verify_memory_ok:
  assumes ok: "memory_ok mv m" and "find_session sid m \<noteq> None"
  shows "verify_memory mv sid m = (Inr \<lparr>mw_ok = True, mw_events = int (length (memory_rows m sid)),
    mw_last = head_hash me_hash zero_hash (memory_rows m sid), mw_failures = []\<rparr>, m)"
proof -
  have "chain_ok (mv_sha mv) sid (memory_rows m sid)" using ok by (simp add: memory_ok_def)
  then have "memory_failures (mv_sha mv) sid zero_hash (memory_rows m sid) = []"
    unfolding chain_ok_def by (intro memory_failures_none) auto
  then show ?thesis
    using assms(2)
    by (simp add: verify_memory_def bindS_def memory_events_value memory_history_rows[OF ok] verify_events_def returnS_def)
qed

text \<open>
  After any sequence of calls, failed ones included, every session verifies: its events are
  numbered from one, linked from the zero hash, and hashed over their content.
\<close>

theorem memory_histories_verify:
  assumes "reaches (\<lambda>m. m = empty_memory) (memory_step mv) m" and "find_session sid m \<noteq> None"
  shows "verify_memory mv sid m = (Inr \<lparr>mw_ok = True, mw_events = int (length (memory_rows m sid)),
    mw_last = head_hash me_hash zero_hash (memory_rows m sid), mw_failures = []\<rparr>, m)"
  using memory_runs.reachable_inv[OF assms(1)] assms(2) by (rule verify_memory_ok)

lemma numbered_filter:
  assumes "numbered seq 1 (xs @ ys)"
  shows "filter (\<lambda>e. seq e \<le> int (length xs)) (xs @ ys) = xs"
proof -
  have "\<forall>e \<in> set xs. seq e \<le> int (length xs)" "\<forall>e \<in> set ys. \<not> seq e \<le> int (length xs)"
    using assms numbered_range[of seq 1 xs] numbered_range[of seq "1 + int (length xs)" ys]
    by (force simp: numbered_append)+
  then show ?thesis by (simp add: filter_empty_conv)
qed

lemma find_append: "find P (xs @ ys) = (case find P xs of None \<Rightarrow> find P ys | Some r \<Rightarrow> Some r)"
  by (induction xs) auto

lemma checkpoint_body_fields:
  "checkpoint_body c = checkpoint_body d \<Longrightarrow>
   mc_session c = mc_session d \<and> mc_sequence c = mc_sequence d \<and> mc_hash c = mc_hash d"
  by (simp add: checkpoint_body_def)

text \<open>The row a checkpoint identifier finds later, whatever happens in between.\<close>

lemma stored_checkpoint:
  assumes ok: "memory_ok mv m" and c: "checkpoint_memory mv sid label m = (Inr c, m1)"
    and steps: "(memory_step mv)\<^sup>*\<^sup>* m1 m2"
    and inj: "inj_on (digest (mv_sha mv)) (checkpoint_body ` insert c (set (my_checkpoints m)))"
  obtains x where "find (\<lambda>x. mc_id x = mc_id c) (my_checkpoints m2) = Some x" and "mc_session x = sid"
    and "mc_sequence x = int (length (memory_rows m sid))" and "mc_hash x = head_hash me_hash zero_hash (memory_rows m sid)"
proof -
  have sid: "find_session sid m \<noteq> None" using c by (auto simp: checkpoint_memory_value split: if_splits)
  have c_def: "c = make_checkpoint mv sid label m (mv_clock mv (my_tick m))"
    and m1: "m1 = put_checkpoint c (m\<lparr>my_tick := Suc (my_tick m)\<rparr>)"
    using c sid by (auto simp: checkpoint_memory_value Let_def)
  note made = made_checkpoint_ok[OF ok sid, of label "mv_clock mv (my_tick m)", folded c_def]
  have set1: "set (my_checkpoints m1) \<subseteq> insert c (set (my_checkpoints m))" "mc_id c \<in> mc_id ` set (my_checkpoints m1)"
    unfolding m1 put_checkpoint_def by (auto simp: image_iff Bex_def)
  obtain x where x: "find (\<lambda>x. mc_id x = mc_id c) (my_checkpoints m1) = Some x"
    using set1(2) by (cases "find (\<lambda>x. mc_id x = mc_id c) (my_checkpoints m1)") (auto simp: find_None_iff)
  then have in1: "x \<in> insert c (set (my_checkpoints m))" and id: "mc_id x = mc_id c" using find_SomeD[OF x] set1(1) by auto
  have "mc_id x = digest (mv_sha mv) (checkpoint_body x)" "mc_id c = digest (mv_sha mv) (checkpoint_body c)"
    using in1 made(1) ok by (auto simp: memory_ok_def checkpoint_ok_def)
  then have "digest (mv_sha mv) (checkpoint_body x) = digest (mv_sha mv) (checkpoint_body c)" using id by simp
  from inj_onD[OF inj this] in1 have "checkpoint_body x = checkpoint_body c" by auto
  note same = checkpoint_body_fields[OF this]
  obtain cs where "my_checkpoints m2 = my_checkpoints m1 @ cs"
    using memory_steps_advance[OF steps] by (auto simp: memory_advances_def memory_grows_def)
  then have "find (\<lambda>x. mc_id x = mc_id c) (my_checkpoints m2) = Some x" using x by (simp add: find_append)
  then show thesis by (rule that) (use same made(2-4) in simp_all)
qed

lemma restore_exact:
  assumes ok: "memory_ok mv m"
    and c: "checkpoint_memory mv sid label m = (Inr c, m1)" and steps: "(memory_step mv)\<^sup>*\<^sup>* m1 m2"
    and inj: "inj_on (digest (mv_sha mv)) (checkpoint_body ` insert c (set (my_checkpoints m)))"
  shows "\<exists>r. restore_memory (mc_id c) m2 = (Inr r, m2) \<and> rs_ok r \<and> rs_events r = memory_history m sid"
proof -
  have sid: "find_session sid m \<noteq> None" using c by (auto simp: checkpoint_memory_value split: if_splits)
  obtain x where x: "find (\<lambda>x. mc_id x = mc_id c) (my_checkpoints m2) = Some x" "mc_session x = sid"
    "mc_sequence x = int (length (memory_rows m sid))" "mc_hash x = head_hash me_hash zero_hash (memory_rows m sid)"
    by (rule stored_checkpoint[OF ok c steps inj])
  have "memory_step mv m m1" using step_checkpoint_memory[of mv m sid label] c by simp
  then have adv: "memory_advances mv m m2"
    using memory_steps_advance[OF converse_rtranclp_into_rtranclp[OF _ steps]] by blast
  then have ok2: "memory_ok mv m2" and sid2: "find_session sid m2 \<noteq> None"
    and "\<exists>es. memory_rows m2 sid = memory_rows m sid @ es"
    using ok sid by (auto simp: memory_advances_def memory_grows_def)
  then obtain es where es: "memory_rows m2 sid = memory_rows m sid @ es" by blast
  have "numbered me_sequence 1 (memory_rows m sid @ es)"
    using ok2 es by (metis memory_ok_def chain_ok_def)
  then have "filter (\<lambda>e. me_sequence e \<le> int (length (memory_rows m sid))) (memory_history m2 sid) = memory_rows m sid"
    unfolding memory_history_rows[OF ok2] es by (rule numbered_filter)
  then show ?thesis
    using x sid2
    by (simp add: restore_memory_def connected_def bindS_def memory_events_value memory_history_rows[OF ok] returnS_def Let_def)
qed

text \<open>
  A checkpoint keeps its session: whatever is called after it was taken, restoring it returns
  exactly the history the session had then and reports exact recovery, unless the digest collides
  on the checkpoints at hand.
\<close>

theorem memory_restore_exact:
  assumes reached: "reaches (\<lambda>m. m = empty_memory) (memory_step mv) m"
    and c: "checkpoint_memory mv sid label m = (Inr c, m1)" and steps: "(memory_step mv)\<^sup>*\<^sup>* m1 m2"
    and inj: "inj_on (digest (mv_sha mv)) (checkpoint_body ` insert c (set (my_checkpoints m)))"
  shows "\<exists>r. restore_memory (mc_id c) m2 = (Inr r, m2) \<and> rs_ok r \<and> rs_events r = memory_history m sid"
  using memory_runs.reachable_inv[OF reached] c steps inj by (rule restore_exact)

definition demo_env :: memory_env where
  "demo_env = \<lparr>mv_project = ''p'', mv_sha = (\<lambda>_. zero_hash), mv_clock = (\<lambda>n. ''t''), mv_token = (\<lambda>n. ''k''),
     mv_show = (\<lambda>_. ''0.0''), mv_pick = (\<lambda>rows. case rows of [] \<Rightarrow> None | r # _ \<Rightarrow> Some r)\<rparr>"

definition demo_memory :: memory where
  "demo_memory = snd (append_memory demo_env ''s'' ''note'' [(''b'', PyInt 1), (''a'', PyNone)]
     (snd (open_session demo_env (Some ''s'') [] [] empty_memory)))"

lemma demo_memory_reached: "reaches (\<lambda>m. m = empty_memory) (memory_step demo_env) demo_memory"
  unfolding demo_memory_def
  by (rule reach_step[where step = "memory_step demo_env", OF _ step_append_memory],
      rule reach_step[where step = "memory_step demo_env", OF _ step_open], rule reach_init, rule refl)

theorem memory_histories_verify_witness:
  "verify_memory demo_env ''s'' demo_memory =
     (Inr \<lparr>mw_ok = True, mw_events = 1, mw_last = zero_hash, mw_failures = []\<rparr>, demo_memory)"
proof -
  have "find_session ''s'' demo_memory \<noteq> None" "length (memory_rows demo_memory ''s'') = 1"
    "head_hash me_hash zero_hash (memory_rows demo_memory ''s'') = zero_hash" by code_simp+
  with memory_histories_verify[OF demo_memory_reached] show ?thesis by simp
qed

theorem memory_restore_exact_witness:
  "\<exists>r. restore_memory zero_hash
      (snd (append_memory demo_env ''s'' ''later'' [] (snd (checkpoint_memory demo_env ''s'' ''l'' demo_memory)))) =
        (Inr r, snd (append_memory demo_env ''s'' ''later'' [] (snd (checkpoint_memory demo_env ''s'' ''l'' demo_memory)))) \<and>
      rs_ok r \<and> rs_events r = memory_history demo_memory ''s''"
proof -
  let ?c = "make_checkpoint demo_env ''s'' ''l'' demo_memory (mv_clock demo_env (my_tick demo_memory))"
    and ?m = "snd (checkpoint_memory demo_env ''s'' ''l'' demo_memory)"
  have found: "find_session ''s'' demo_memory \<noteq> None" by code_simp
  then have c: "checkpoint_memory demo_env ''s'' ''l'' demo_memory = (Inr ?c, ?m)"
    by (simp add: checkpoint_memory_value Let_def)
  have step: "(memory_step demo_env)\<^sup>*\<^sup>* ?m (snd (append_memory demo_env ''s'' ''later'' [] ?m))"
    using step_append_memory by blast
  have "my_checkpoints demo_memory = []" by code_simp
  moreover have "mc_id ?c = zero_hash" by (simp add: make_checkpoint_def Let_def digest_def demo_env_def)
  ultimately show ?thesis
    using memory_restore_exact[OF demo_memory_reached c step] by simp
qed

end
