(* ===== verification/ContextHandoff.thy ===== *)
theory ContextHandoff
  imports SessionMemory
begin

text \<open>
  The context handoff of \<open>syntavra_runtime/context_reset_handoff.py\<close>: continuing, compacting,
  resetting or branching a session of the session memory, with a receipt over the checkpoint, the
  repository, the evidence and the security state.
\<close>

section \<open>What a handoff carries\<close>

definition lifecycle_decisions :: "string list" where
  "lifecycle_decisions = [''CONTINUE'', ''COMPACT'', ''RESET'', ''BRANCH'']"

record repository_state =
  rp_repository :: string
  rp_branch :: string
  rp_head :: string
  rp_clean :: bool
  rp_upstream :: string
  rp_recovery :: string

definition make_repository :: "repository_state \<Rightarrow> py_error + repository_state" where
  "make_repository r =
     (let sha = py_lower (py_strip (rp_head r)) in
      valueE (checkE
        [if py_strip (rp_repository r) = '''' then Some ''repository identity is required'' else None,
         if py_strip (rp_branch r) = '''' then Some ''repository branch is required'' else None,
         if length sha \<noteq> 40 \<or> \<not> list_all (\<lambda>c. c \<in> set hex_digits) sha
         then Some ''head_sha must be a full lowercase Git SHA'' else None,
         if \<not> rp_clean r \<and> py_strip (rp_recovery r) = ''''
         then Some ''dirty worktree requires a recovery reference'' else None]
        (r\<lparr>rp_head := sha\<rparr>)))"

definition normalize_refs :: "string list \<Rightarrow> string list" where
  "normalize_refs refs = sorted_set (filter (\<lambda>v. v \<noteq> '''') refs)"

record security_state =
  sc_tainted :: bool
  sc_unresolved :: int
  sc_denied :: bool
  sc_secret :: bool
  sc_policy_refs :: "string list"

definition make_security :: "security_state \<Rightarrow> py_error + security_state" where
  "make_security s =
     (let refs = normalize_refs (sc_policy_refs s) in
      valueE (checkE
        [if sc_unresolved s < 0 then Some ''unresolved_critical_evidence must be non-negative'' else None,
         if sc_secret s then Some ''handoff may preserve secret state, never secret material'' else None,
         if sc_tainted s \<and> refs = [] then Some ''tainted handoff requires policy/evidence references'' else None]
        (s\<lparr>sc_policy_refs := refs\<rparr>)))"

definition default_security :: security_state where
  "default_security = \<lparr>sc_tainted = False, sc_unresolved = 0, sc_denied = False, sc_secret = False, sc_policy_refs = []\<rparr>"

definition repository_py :: "repository_state \<Rightarrow> pyval" where
  "repository_py r = PyDict
     [(''repository'', PyStr (rp_repository r)), (''branch'', PyStr (rp_branch r)), (''head_sha'', PyStr (rp_head r)),
      (''clean'', PyBool (rp_clean r)), (''upstream_ref'', PyStr (rp_upstream r)),
      (''worktree_recovery_ref'', PyStr (rp_recovery r))]"

definition security_py :: "security_state \<Rightarrow> pyval" where
  "security_py s = PyDict
     [(''tainted'', PyBool (sc_tainted s)), (''unresolved_critical_evidence'', PyInt (sc_unresolved s)),
      (''capability_denied'', PyBool (sc_denied s)), (''secret_material_present'', PyBool (sc_secret s)),
      (''policy_refs'', PyTuple (map PyStr (sc_policy_refs s)))]"

section \<open>Preparing a handoff\<close>

definition handoff_label :: "string \<Rightarrow> string" where
  "handoff_label action = ''context-handoff:'' @ py_lower action"

record handoff_request =
  hq_decision :: string
  hq_repository :: repository_state
  hq_evidence :: "string list"
  hq_recovery :: "string list"
  hq_security :: "security_state option"
  hq_reasons :: "string list"

definition handoff_action :: "handoff_request \<Rightarrow> string" where
  "handoff_action q = py_strip (py_upper (hq_decision q))"

definition request_security :: "handoff_request \<Rightarrow> security_state" where
  "request_security q = (case hq_security q of None \<Rightarrow> default_security | Some s \<Rightarrow> s)"

definition opens_session :: "string \<Rightarrow> bool" where
  "opens_session action \<longleftrightarrow> action \<in> {''RESET'', ''BRANCH''}"

definition checkpoint_ref :: "memory_checkpoint \<Rightarrow> string" where
  "checkpoint_ref c = ''session-checkpoint:'' @ mc_id c"

definition checkpoint_summary :: "memory_checkpoint \<Rightarrow> pyval" where
  "checkpoint_summary c = PyDict
     [(''checkpoint_id'', PyStr (mc_id c)), (''sequence'', PyInt (mc_sequence c)), (''event_hash'', PyStr (mc_hash c))]"

definition effective_recovery :: "handoff_request \<Rightarrow> memory_checkpoint \<Rightarrow> string list" where
  "effective_recovery q c = normalize_refs (normalize_refs (hq_recovery q) @ [checkpoint_ref c])"

definition handoff_basis :: "memory_env \<Rightarrow> string \<Rightarrow> handoff_request \<Rightarrow> memory_checkpoint \<Rightarrow> fields" where
  "handoff_basis mv sid q c =
     [(''schema_version'', PyInt 1), (''decision'', PyStr (handoff_action q)), (''project_id'', PyStr (mv_project mv)),
      (''source_session_id'', PyStr sid), (''checkpoint'', checkpoint_summary c),
      (''repository'', repository_py (hq_repository q)), (''evidence_refs'', py_strs (normalize_refs (hq_evidence q))),
      (''recovery_handles'', py_strs (effective_recovery q c)), (''security'', security_py (request_security q)),
      (''reason_codes'', py_strs (normalize_refs (hq_reasons q)))]"

definition basis_hash :: "memory_env \<Rightarrow> string \<Rightarrow> handoff_request \<Rightarrow> memory_checkpoint \<Rightarrow> string" where
  "basis_hash mv sid q c = digest (mv_sha mv) (PyDict (handoff_basis mv sid q c))"

record handoff =
  ho_target :: string
  ho_checkpoint :: memory_checkpoint
  ho_summaries :: "string list"
  ho_created :: bool
  ho_receipt :: fields

definition receipt_basis :: "memory_env \<Rightarrow> string \<Rightarrow> handoff_request \<Rightarrow> memory_checkpoint \<Rightarrow> string \<Rightarrow> string list \<Rightarrow> fields" where
  "receipt_basis mv sid q c target summaries =
     handoff_basis mv sid q c @ [(''target_session_id'', PyStr target), (''compaction_summary_ids'', py_strs summaries)]"

definition checked_compaction :: "memory_env \<Rightarrow> string \<Rightarrow> string \<Rightarrow> string list memory_op" where
  "checked_compaction mv sid action =
     (if action = ''COMPACT''
      then bindS (compact_memory mv sid []) (\<lambda>p.
        if \<not> mp_exact p then failS (RuntimeError ''compaction did not preserve exact session history'')
        else returnS (map mm_id (mp_summaries p)))
      else returnS [])"

text \<open>The target session, and whether the handoff created it.\<close>

definition handoff_target :: "memory_env \<Rightarrow> string \<Rightarrow> handoff_request \<Rightarrow> memory_checkpoint \<Rightarrow> (string \<times> bool) memory_op" where
  "handoff_target mv sid q c =
     (if opens_session (handoff_action q)
      then let h = basis_hash mv sid q c; target = ''ctx-'' @ take 24 h in
        bindS (open_session mv (Some target) [sid]
          [(''handoff_decision'', PyStr (handoff_action q)), (''handoff_checkpoint'', PyStr (mc_id c)),
           (''handoff_receipt'', PyStr h)]) (\<lambda>(_, restored). returnS (target, \<not> restored))
      else returnS (sid, False))"

definition prepare_handoff :: "memory_env \<Rightarrow> string \<Rightarrow> handoff_request \<Rightarrow> handoff memory_op" where
  "prepare_handoff mv sid q =
     (let action = handoff_action q in
      if action \<notin> set lifecycle_decisions
      then failS (ValueError (''unsupported context lifecycle decision: '' @ hq_decision q))
      else bindS (verify_memory mv sid) (\<lambda>v.
        if \<not> mw_ok v then failS (RuntimeError ''session event chain is not verified'')
        else if opens_session action \<and> sc_unresolved (request_security q) \<noteq> 0 \<and> normalize_refs (hq_evidence q) = []
        then failS (RuntimeError ''critical evidence must remain referenced across reset/branch'')
        else bindS (checked_compaction mv sid action) (\<lambda>summaries.
          bindS (checkpoint_memory mv sid (handoff_label action)) (\<lambda>c.
          bindS (handoff_target mv sid q c) (\<lambda>(target, created).
          let body = receipt_basis mv sid q c target summaries in
          returnS \<lparr>ho_target = target, ho_checkpoint = c, ho_summaries = summaries, ho_created = created,
            ho_receipt = body @ [(''receipt_hash'', PyStr (digest (mv_sha mv) (PyDict body)))]\<rparr>)))))"

text \<open>The dictionary \<open>prepare\<close> returns, and \<open>status\<close>.\<close>

definition handoff_py :: "string \<Rightarrow> handoff_request \<Rightarrow> handoff \<Rightarrow> pyval" where
  "handoff_py sid q h = PyDict
     [(''schema_version'', PyInt 1), (''claim'', PyStr ''CONTEXT_RESET_HANDOFF_V1''), (''ok'', PyBool True),
      (''decision'', PyStr (handoff_action q)), (''source_session_id'', PyStr sid), (''target_session_id'', PyStr (ho_target h)),
      (''checkpoint'', checkpoint_summary (ho_checkpoint h)), (''repository'', repository_py (hq_repository q)),
      (''evidence_refs'', py_strs (normalize_refs (hq_evidence q))),
      (''recovery_handles'', py_strs (effective_recovery q (ho_checkpoint h))),
      (''security'', security_py (request_security q)), (''reason_codes'', py_strs (normalize_refs (hq_reasons q))),
      (''compaction_summary_ids'', py_strs (ho_summaries h)), (''target_created'', PyBool (ho_created h)),
      (''verified'', PyDict [(''session_chain'', PyBool True),
         (''repository_recoverable'', PyBool (rp_clean (hq_repository q) \<or> rp_recovery (hq_repository q) \<noteq> '''')),
         (''secret_material_excluded'', PyBool True), (''exact_history_preserved'', PyBool True)]),
      (''receipt'', PyDict (ho_receipt h))]"

definition handoff_status :: pyval where
  "handoff_status = PyDict
     [(''schema_version'', PyInt 1), (''claim'', PyStr ''CONTEXT_RESET_HANDOFF_V1''),
      (''decisions'', py_strs (sorted_set lifecycle_decisions)), (''session_memory_authority_reused'', PyBool True),
      (''new_persistent_store'', PyBool False), (''secret_material_allowed'', PyBool False),
      (''content_addressed_receipts'', PyBool True), (''git_state_preserved'', PyBool True),
      (''security_state_preserved'', PyBool True), (''evidence_state_preserved'', PyBool True)]"

section \<open>What a handoff leaves alone\<close>

definition same_events :: "memory \<Rightarrow> memory \<Rightarrow> bool" where
  "same_events m m' \<longleftrightarrow> my_events m' = my_events m"

lemma same_events_pre: "reflp same_events" "transp same_events"
  by (auto simp: same_events_def reflp_def transp_def)

lemma same_connected:
  assumes "rel_op same_events p"
  shows "rel_op same_events (connected p)"
  unfolding rel_op_def
proof
  fix m
  obtain r t where p: "p m = (r, t)" by fastforce
  then have "same_events m t" using assms by (metis rel_op_def snd_conv)
  then show "same_events m (snd (connected p m))"
    using p by (cases r) (auto simp: connected_def same_events_def)
qed

lemmas same_event_rules = rel_op_bindS[OF same_events_pre(2)] rel_op_returnS[OF same_events_pre(1)]
  rel_op_failS[OF same_events_pre(1)] rel_op_getS[OF same_events_pre(1)] rel_op_mapS[OF same_events_pre]
  same_connected

lemma same_clock: "rel_op same_events (utc_now mv)" "rel_op same_events (token_hex mv)"
  and same_require: "rel_op same_events (require_session sid)"
  by (simp_all add: rel_op_def utc_now_def token_hex_def same_events_def require_session_state)

lemma same_modify: "(\<And>m. my_events (f m) = my_events m) \<Longrightarrow> rel_op same_events (modifyS f)"
  by (rule rel_op_modifyS) (simp add: same_events_def)

lemma same_memory_events: "rel_op same_events (memory_events sid)"
  unfolding memory_events_def by (intro same_event_rules same_require)

lemma same_verify: "rel_op same_events (verify_memory mv sid)"
  unfolding verify_memory_def by (intro same_event_rules same_memory_events)

lemma same_checkpoint: "rel_op same_events (checkpoint_memory mv sid label)"
  unfolding checkpoint_memory_def Let_def
  by (intro same_event_rules same_require same_clock same_modify) (simp add: put_checkpoint_def)

lemma same_open: "rel_op same_events (open_session mv i parents metadata)"
  unfolding open_session_def Let_def
  by (intro same_event_rules same_clock)
    (auto intro!: same_event_rules same_clock same_modify split: option.split)

lemma same_memory_compact: "rel_op same_events (compact_memory mv sid wanted)"
  unfolding compact_memory_def summarize_view_def insert_or_ignore_def Let_def
  by (intro same_event_rules same_memory_events same_verify same_require same_clock same_modify)
    (auto intro!: same_event_rules)

lemma same_checked: "rel_op same_events (checked_compaction mv sid action)"
  unfolding checked_compaction_def by (auto intro!: same_event_rules same_memory_compact)

lemma same_prepare: "rel_op same_events (prepare_handoff mv sid q)"
  unfolding prepare_handoff_def checked_compaction_def handoff_target_def Let_def
  by (auto intro!: same_event_rules same_verify same_memory_compact same_checkpoint same_open)

section \<open>What a handoff does\<close>

lemma advances_checked: "rel_op (memory_advances mv) (checked_compaction mv sid action)"
  unfolding checked_compaction_def by (auto intro!: memory_rules advances_compact)

lemma advances_target: "rel_op (memory_advances mv) (handoff_target mv sid q c)"
  unfolding handoff_target_def Let_def by (auto intro!: memory_rules advances_open)

lemma open_existing:
  "find_session i m = Some r \<Longrightarrow> i \<noteq> '''' \<Longrightarrow>
   open_session mv (Some i) parents metadata m = (Inr (r, True), m\<lparr>my_tick := Suc (my_tick m)\<rparr>)"
  by (simp add: open_session_def bindS_def returnS_def utc_now_def connected_def getS_def find_session_def)

lemma open_session_there:
  assumes "open_session mv (Some i) parents metadata m = (Inr (r, restored), m')" and "i \<noteq> ''''"
  shows "find_session i m' \<noteq> None"
proof (cases "find_session i m")
  case None
  then have "m' = m\<lparr>my_tick := Suc (my_tick m), my_sessions := my_sessions m @ [r\<lparr>ms_meta := canon (ms_meta r)\<rparr>]\<rparr> \<and> ms_id r = i"
    using assms
    by (auto simp: open_session_def bindS_def returnS_def utc_now_def connected_def getS_def find_session_def
        failS_def modifyS_def Let_def split: option.splits)
  then show ?thesis
    using find_session_append[of i "m\<lparr>my_tick := Suc (my_tick m)\<rparr>" "[r\<lparr>ms_meta := canon (ms_meta r)\<rparr>]"] None
    by (simp add: find_session_def)
next
  case (Some r')
  then show ?thesis using assms by (auto simp: open_existing find_session_def)
qed

lemma rel_opD: "rel_op R p \<Longrightarrow> p m = (x, m') \<Longrightarrow> R m m'"
  by (metis rel_op_def snd_conv)

text \<open>The steps of a handoff that succeeds.\<close>

lemma prepare_Inr:
  assumes "prepare_handoff mv sid q m = (Inr h, m')"
  obtains v m0 ids m1 m2 where "handoff_action q \<in> set lifecycle_decisions"
    and "verify_memory mv sid m = (Inr v, m0)" and "mw_ok v"
    and "\<not> (opens_session (handoff_action q) \<and> sc_unresolved (request_security q) \<noteq> 0 \<and> normalize_refs (hq_evidence q) = [])"
    and "checked_compaction mv sid (handoff_action q) m0 = (Inr ids, m1)"
    and "checkpoint_memory mv sid (handoff_label (handoff_action q)) m1 = (Inr (ho_checkpoint h), m2)"
    and "handoff_target mv sid q (ho_checkpoint h) m2 = (Inr (ho_target h, ho_created h), m')"
    and "ho_receipt h = (let body = receipt_basis mv sid q (ho_checkpoint h) (ho_target h) ids in
      body @ [(''receipt_hash'', PyStr (digest (mv_sha mv) (PyDict body)))])"
    and "ho_summaries h = ids"
  using assms unfolding prepare_handoff_def Let_def
  by (auto simp: bindS_eq_Inr split: if_splits)

lemma target_session:
  assumes "handoff_target mv sid q c m = (Inr (target, created), m')"
  shows "if opens_session (handoff_action q)
    then target = ''ctx-'' @ take 24 (basis_hash mv sid q c) \<and> find_session target m' \<noteq> None else target = sid"
  using assms open_session_there
  by (auto simp: handoff_target_def Let_def bindS_eq_Inr returnS_def)

lemma target_steps:
  assumes "handoff_target mv sid q c m = (Inr x, m')"
  shows "(memory_step mv)\<^sup>*\<^sup>* m m'"
proof (cases "opens_session (handoff_action q)")
  case True
  then have "\<exists>i ps md. m' = snd (open_session mv i ps md m)"
    using assms by (auto simp: handoff_target_def Let_def bindS_eq_Inr returnS_def) (metis snd_conv)
  then show ?thesis using step_open by blast
next
  case False
  then show ?thesis using assms by (simp add: handoff_target_def returnS_def)
qed

section \<open>Properties\<close>

text \<open>
  C14. A handoff loses nothing: no event of any session changes, a reset or branch ends in an open
  session named after the receipt basis and the other decisions stay in the session, and whatever
  is called afterwards, the checkpoint of the handoff restores exactly the history the source
  session had, unless the digest collides on the checkpoints at hand.
\<close>

theorem handoff_preserves_history:
  assumes reached: "reaches (\<lambda>m. m = empty_memory) (memory_step mv) m"
    and prepared: "prepare_handoff mv sid q m = (Inr h, m')" and later: "(memory_step mv)\<^sup>*\<^sup>* m' m''"
    and inj: "inj_on (digest (mv_sha mv)) (checkpoint_body ` insert (ho_checkpoint h) (set (my_checkpoints m')))"
  shows "my_events m' = my_events m \<and>
    (if opens_session (handoff_action q)
     then ho_target h = ''ctx-'' @ take 24 (basis_hash mv sid q (ho_checkpoint h)) \<and> find_session (ho_target h) m' \<noteq> None
     else ho_target h = sid) \<and>
    (\<exists>r. restore_memory (mc_id (ho_checkpoint h)) m'' = (Inr r, m'') \<and> rs_ok r \<and> rs_events r = memory_history m sid)"
proof -
  have ok: "memory_ok mv m" by (rule memory_runs.reachable_inv[OF reached])
  obtain v m0 ids m1 m2 where p: "verify_memory mv sid m = (Inr v, m0)"
    "checked_compaction mv sid (handoff_action q) m0 = (Inr ids, m1)"
    "checkpoint_memory mv sid (handoff_label (handoff_action q)) m1 = (Inr (ho_checkpoint h), m2)"
    "handoff_target mv sid q (ho_checkpoint h) m2 = (Inr (ho_target h, ho_created h), m')"
    by (rule prepare_Inr[OF prepared])
  have ok1: "memory_ok mv m1"
    using ok rel_opD[OF advances_verify p(1)] rel_opD[OF advances_checked p(2)] by (simp add: memory_advances_def)
  have "my_events m1 = my_events m"
    using rel_opD[OF same_verify p(1)] rel_opD[OF same_checked p(2)] by (simp add: same_events_def)
  then have history: "memory_history m1 sid = memory_history m sid" by (simp add: memory_history_def memory_rows_def)
  have "memory_advances mv m1 m'"
    using rel_opD[OF advances_checkpoint p(3)] rel_opD[OF advances_target p(4)] by (rule transpD[OF memory_pre(2)])
  then have "set (my_checkpoints m1) \<subseteq> set (my_checkpoints m')" by (auto simp: memory_advances_def memory_grows_def)
  then have inj1: "inj_on (digest (mv_sha mv)) (checkpoint_body ` insert (ho_checkpoint h) (set (my_checkpoints m1)))"
    by (intro inj_on_subset[OF inj]) auto
  have "\<exists>r. restore_memory (mc_id (ho_checkpoint h)) m'' = (Inr r, m'') \<and> rs_ok r \<and> rs_events r = memory_history m1 sid"
    using ok1 p(3) rtranclp_trans[OF target_steps[OF p(4)] later] inj1 by (rule restore_exact)
  then show ?thesis
    using rel_opD[OF same_prepare prepared] target_session[OF p(4)] by (simp add: history same_events_def)
qed

text \<open>
  Critical evidence is never dropped: a reset or branch of a session with unresolved critical
  evidence and no evidence reference raises and changes nothing.
\<close>

theorem handoff_needs_evidence:
  assumes "opens_session (handoff_action q)" and "sc_unresolved (request_security q) \<noteq> 0"
    and "normalize_refs (hq_evidence q) = []"
  shows "\<exists>e. prepare_handoff mv sid q m = (Inl e, m)"
proof -
  have "snd (verify_memory mv sid m) = m"
    by (simp add: verify_memory_def bindS_def memory_events_value returnS_def)
  then show ?thesis
    using assms by (cases "verify_memory mv sid m"; cases "fst (verify_memory mv sid m)")
      (auto simp: prepare_handoff_def Let_def bindS_def failS_def)
qed

text \<open>A handoff repeated before anything new happened: the same checkpoint up to its time.\<close>

lemma make_checkpoint_again:
  "my_events m' = my_events m \<Longrightarrow>
   make_checkpoint mv sid label m' t' = (make_checkpoint mv sid label m t)\<lparr>mc_created := t'\<rparr>"
  by (simp add: make_checkpoint_def Let_def last_event_def memory_rows_def checkpoint_body_def)

lemma basis_untimed: "handoff_basis mv sid q (c\<lparr>mc_created := t\<rparr>) = handoff_basis mv sid q c"
  by (simp add: handoff_basis_def checkpoint_summary_def effective_recovery_def checkpoint_ref_def)

lemma put_checkpoint_again: "mc_id c \<in> mc_id ` set (my_checkpoints m) \<Longrightarrow> put_checkpoint c m = m"
  by (auto simp: put_checkpoint_def image_iff)

lemma checkpointed_id:
  "checkpoint_memory mv sid label m = (Inr c, m') \<Longrightarrow>
   c = make_checkpoint mv sid label m (mv_clock mv (my_tick m)) \<and> mc_id c \<in> mc_id ` set (my_checkpoints m') \<and>
   find_session sid m \<noteq> None"
  by (auto simp: checkpoint_memory_value put_checkpoint_def Let_def image_iff Bex_def split: if_splits)

text \<open>
  Resets and branches are idempotent: repeating one before anything else happened succeeds
  with the same target session and the same receipt, creates no session and no checkpoint.
\<close>

theorem handoff_idempotent:
  assumes reached: "reaches (\<lambda>m. m = empty_memory) (memory_step mv) m"
    and opens: "opens_session (handoff_action q)" and prepared: "prepare_handoff mv sid q m = (Inr h, m')"
  shows "\<exists>h' m''. prepare_handoff mv sid q m' = (Inr h', m'') \<and> ho_target h' = ho_target h \<and>
    ho_receipt h' = ho_receipt h \<and> \<not> ho_created h' \<and> my_sessions m'' = my_sessions m' \<and>
    my_checkpoints m'' = my_checkpoints m'"
proof -
  let ?label = "handoff_label (handoff_action q)"
  have ok: "memory_ok mv m" by (rule memory_runs.reachable_inv[OF reached])
  obtain v m0 ids m1 m2 where p: "handoff_action q \<in> set lifecycle_decisions"
    "verify_memory mv sid m = (Inr v, m0)" "mw_ok v"
    "\<not> (opens_session (handoff_action q) \<and> sc_unresolved (request_security q) \<noteq> 0 \<and> normalize_refs (hq_evidence q) = [])"
    "checked_compaction mv sid (handoff_action q) m0 = (Inr ids, m1)"
    "checkpoint_memory mv sid ?label m1 = (Inr (ho_checkpoint h), m2)"
    "handoff_target mv sid q (ho_checkpoint h) m2 = (Inr (ho_target h, ho_created h), m')"
    "ho_receipt h = (let body = receipt_basis mv sid q (ho_checkpoint h) (ho_target h) ids in
      body @ [(''receipt_hash'', PyStr (digest (mv_sha mv) (PyDict body)))])"
    by (rule prepare_Inr[OF prepared])
  have not_compact: "handoff_action q \<noteq> ''COMPACT''" using opens by (auto simp: opens_session_def)
  then have ids: "ids = []" "m1 = m0" using p(5) by (auto simp: checked_compaction_def returnS_def)
  have m0: "memory_advances mv m m0" "my_events m0 = my_events m"
    using rel_opD[OF advances_verify p(2)] rel_opD[OF same_verify p(2)] by (simp_all add: same_events_def)
  note c = checkpointed_id[OF p(6)]
  have adv: "memory_advances mv m1 m2" "memory_advances mv m2 m'"
    using rel_opD[OF advances_checkpoint p(6)] rel_opD[OF advances_target p(7)] by auto
  have events: "my_events m' = my_events m1"
    using rel_opD[OF same_prepare prepared] m0(2) ids(2) by (simp add: same_events_def)
  have ok': "memory_ok mv m'" using ok m0 adv ids(2) by (simp add: memory_advances_def)
  have sid: "find_session sid m' \<noteq> None" using c adv by (simp add: memory_advances_def memory_grows_def)
  have "mc_id (ho_checkpoint h) \<in> mc_id ` set (my_checkpoints m')"
    using c adv(2) by (auto simp: memory_advances_def memory_grows_def)
  then have "put_checkpoint ((ho_checkpoint h)\<lparr>mc_created := t\<rparr>) (m'\<lparr>my_tick := n\<rparr>) = m'\<lparr>my_tick := n\<rparr>" for t n
    by (intro put_checkpoint_again) simp
  moreover have "make_checkpoint mv sid ?label m' t = (ho_checkpoint h)\<lparr>mc_created := t\<rparr>" for t
    using make_checkpoint_again[OF events, of mv sid ?label t "mv_clock mv (my_tick m1)"] conjunct1[OF c] by metis
  ultimately have again: "checkpoint_memory mv sid ?label m' =
      (Inr ((ho_checkpoint h)\<lparr>mc_created := mv_clock mv (my_tick m')\<rparr>), m'\<lparr>my_tick := Suc (my_tick m')\<rparr>)"
    using sid by (simp add: checkpoint_memory_value Let_def)
  note target = target_session[OF p(7)]
  obtain r where r: "find_session (ho_target h) m' = Some r" using target opens by auto
  have name: "ho_target h = ''ctx-'' @ take 24 (basis_hash mv sid q (ho_checkpoint h))" using target opens by simp
  let ?t = "m'\<lparr>my_tick := Suc (my_tick m')\<rparr>" and ?c = "(ho_checkpoint h)\<lparr>mc_created := mv_clock mv (my_tick m')\<rparr>"
  have "find_session (ho_target h) ?t = Some r" using r by (simp add: find_session_def)
  then have "handoff_target mv sid q ?c ?t = (Inr (ho_target h, False), ?t\<lparr>my_tick := Suc (my_tick ?t)\<rparr>)"
    using opens open_existing[of "ho_target h" ?t r] name
    by (simp add: handoff_target_def basis_hash_def basis_untimed bindS_def returnS_def Let_def)
  then show ?thesis
    using p(1,4,8) not_compact again verify_memory_ok[OF ok' sid]
    by (simp add: prepare_handoff_def Let_def bindS_def checked_compaction_def returnS_def ids receipt_basis_def basis_untimed)
qed

definition demo_repository :: repository_state where
  "demo_repository = \<lparr>rp_repository = ''r'', rp_branch = ''b'', rp_head = replicate 40 (CHR ''a''), rp_clean = True,
     rp_upstream = '''', rp_recovery = ''''\<rparr>"

definition demo_handoff :: handoff_request where
  "demo_handoff = \<lparr>hq_decision = '' reset'', hq_repository = demo_repository, hq_evidence = [''e''], hq_recovery = [],
     hq_security = Some (default_security\<lparr>sc_unresolved := 1\<rparr>), hq_reasons = [''budget'']\<rparr>"

lemma demo_handoff_opens: "opens_session (handoff_action demo_handoff)"
  by code_simp

lemma demo_handoff_prepared:
  obtains h m' where "prepare_handoff demo_env ''s'' demo_handoff demo_memory = (Inr h, m')"
    and "mc_id (ho_checkpoint h) = zero_hash" and "my_checkpoints m' = [ho_checkpoint h]"
proof -
  have "case prepare_handoff demo_env ''s'' demo_handoff demo_memory of (Inl e, m') \<Rightarrow> False
    | (Inr h, m') \<Rightarrow> mc_id (ho_checkpoint h) = zero_hash \<and> my_checkpoints m' = [ho_checkpoint h]"
    by code_simp
  then show thesis using that by (auto split: prod.splits sum.splits)
qed

theorem handoff_preserves_history_witness:
  "\<exists>h m' r. prepare_handoff demo_env ''s'' demo_handoff demo_memory = (Inr h, m') \<and>
     find_session (ho_target h) m' \<noteq> None \<and>
     restore_memory zero_hash (snd (append_memory demo_env ''s'' ''later'' [] m')) =
       (Inr r, snd (append_memory demo_env ''s'' ''later'' [] m')) \<and>
     rs_events r = memory_history demo_memory ''s''"
proof -
  obtain h m' where h: "prepare_handoff demo_env ''s'' demo_handoff demo_memory = (Inr h, m')"
    "mc_id (ho_checkpoint h) = zero_hash" "my_checkpoints m' = [ho_checkpoint h]" by (rule demo_handoff_prepared)
  have step: "(memory_step demo_env)\<^sup>*\<^sup>* m' (snd (append_memory demo_env ''s'' ''later'' [] m'))"
    using step_append_memory by blast
  show ?thesis
    using handoff_preserves_history[OF demo_memory_reached h(1) step] h demo_handoff_opens by auto
qed

theorem handoff_needs_evidence_witness:
  "\<exists>e. prepare_handoff demo_env ''s'' (demo_handoff\<lparr>hq_evidence := ['''']\<rparr>) demo_memory = (Inl e, demo_memory)"
  by (rule handoff_needs_evidence) code_simp+

theorem handoff_idempotent_witness:
  "\<exists>h m' h' m''. prepare_handoff demo_env ''s'' demo_handoff demo_memory = (Inr h, m') \<and>
     prepare_handoff demo_env ''s'' demo_handoff m' = (Inr h', m'') \<and> ho_receipt h' = ho_receipt h \<and> \<not> ho_created h'"
proof -
  obtain h m' where h: "prepare_handoff demo_env ''s'' demo_handoff demo_memory = (Inr h, m')"
    by (rule demo_handoff_prepared)
  from handoff_idempotent[OF demo_memory_reached demo_handoff_opens this] h show ?thesis by blast
qed

end
