(* ===== verification/WireFormat.thy ===== *)
theory WireFormat
  imports HashChain JsonText
begin

text \<open>
  The wire codec of \<open>syntavra_runtime/wire_format.py\<close>: objects with frequent keys replaced by indices
  into a key table, frequent paths by handles, tuples by tagged objects, and a digest of the
  original that decoding compares.
\<close>

section \<open>Encoding\<close>

text \<open>A counter: the occurrences in order, as \<open>dict\<close> keeps its keys.\<close>

definition count_names :: "string list \<Rightarrow> (string \<times> nat) list" where
  "count_names names = map (\<lambda>n. (n, count_list names n)) (fromkeys names)"

text \<open>All keys of the objects in a value, in the order \<open>_collect_keys\<close> meets them.\<close>

fun all_keys :: "pyval \<Rightarrow> string list"
  and all_keys_list :: "pyval list \<Rightarrow> string list"
  and all_keys_fields :: "fields \<Rightarrow> string list" where
  "all_keys (PyDict kvs) = all_keys_fields kvs"
| "all_keys (PyList vs) = all_keys_list vs"
| "all_keys (PyTuple vs) = all_keys_list vs"
| "all_keys _ = []"
| "all_keys_list [] = []"
| "all_keys_list (v # vs) = all_keys v @ all_keys_list vs"
| "all_keys_fields [] = []"
| "all_keys_fields ((k, v) # kvs) = k # all_keys v @ all_keys_fields kvs"

definition looks_path :: "string \<Rightarrow> bool" where
  "looks_path s \<longleftrightarrow> length s > 8 \<and> (CHR ''/'' \<in> set s \<or> CHR 0x5C \<in> set s) \<and>
     \<not> starts_with ''http://'' s \<and> \<not> starts_with ''https://'' s"

fun all_paths :: "pyval \<Rightarrow> string list"
  and all_paths_list :: "pyval list \<Rightarrow> string list"
  and all_paths_fields :: "fields \<Rightarrow> string list" where
  "all_paths (PyStr s) = (if looks_path s then [s] else [])"
| "all_paths (PyDict kvs) = all_paths_fields kvs"
| "all_paths (PyList vs) = all_paths_list vs"
| "all_paths (PyTuple vs) = all_paths_list vs"
| "all_paths _ = []"
| "all_paths_list [] = []"
| "all_paths_list (v # vs) = all_paths v @ all_paths_list vs"
| "all_paths_fields [] = []"
| "all_paths_fields ((k, v) # kvs) = all_paths v @ all_paths_fields kvs"

definition by_count :: "(string \<times> nat) list \<Rightarrow> (string \<times> nat) list" where
  "by_count counts = sort_key (\<lambda>(n, c). (- int c, n)) counts"

definition key_table :: "pyval \<Rightarrow> string list" where
  "key_table v = map fst (filter (\<lambda>(k, c). 2 \<le> c \<and> 3 \<le> length k) (by_count (count_names (all_keys v))))"

definition path_table :: "pyval \<Rightarrow> string list" where
  "path_table v = map fst (filter (\<lambda>(p, c). 2 \<le> c) (by_count (count_names (all_paths v))))"

text \<open>The index dictionaries built with \<open>enumerate\<close>.\<close>

fun index_of :: "'a list \<Rightarrow> 'a \<Rightarrow> nat option" where
  "index_of [] x = None"
| "index_of (y # ys) x = (if y = x then Some 0 else map_option Suc (index_of ys x))"

definition wire_key :: "string list \<Rightarrow> string \<Rightarrow> string" where
  "wire_key keys k = (case index_of keys k of None \<Rightarrow> k | Some i \<Rightarrow> nat_str i)"

text \<open>A dictionary built from pairs: a later pair with the key of an earlier one replaces its value.\<close>

definition dict_of :: "fields \<Rightarrow> fields" where
  "dict_of kvs = fold (\<lambda>(k, v). AList.update k v) kvs []"

fun wire_pack :: "string list \<Rightarrow> string list \<Rightarrow> pyval \<Rightarrow> pyval"
  and wire_pack_list :: "string list \<Rightarrow> string list \<Rightarrow> pyval list \<Rightarrow> pyval list"
  and wire_pack_fields :: "string list \<Rightarrow> string list \<Rightarrow> fields \<Rightarrow> fields" where
  "wire_pack keys paths (PyDict kvs) = PyDict (dict_of (wire_pack_fields keys paths kvs))"
| "wire_pack keys paths (PyList vs) = PyList (wire_pack_list keys paths vs)"
| "wire_pack keys paths (PyTuple vs) = PyDict [(''@tuple'', PyList (wire_pack_list keys paths vs))]"
| "wire_pack keys paths (PyStr s) =
     (case index_of paths s of None \<Rightarrow> PyStr s | Some i \<Rightarrow> PyDict [(''@path'', PyInt (int i))])"
| "wire_pack keys paths v = v"
| "wire_pack_list keys paths [] = []"
| "wire_pack_list keys paths (v # vs) = wire_pack keys paths v # wire_pack_list keys paths vs"
| "wire_pack_fields keys paths [] = []"
| "wire_pack_fields keys paths ((k, v) # kvs) = (wire_key keys k, wire_pack keys paths v) # wire_pack_fields keys paths kvs"

definition wire_envelope :: "(pyval \<Rightarrow> string) \<Rightarrow> pyval \<Rightarrow> fields" where
  "wire_envelope sha v =
     (let keys = key_table v; paths = path_table v in
      [(''v'', PyInt 1), (''k'', PyTuple (map PyStr keys)), (''p'', PyTuple (map PyStr paths)),
       (''d'', wire_pack keys paths v), (''h'', PyStr (digest sha v))])"

record wire_result =
  wi_encoding :: string
  wi_payload :: pyval
  wi_original :: nat
  wi_encoded :: nat
  wi_savings :: rat
  wi_hash :: string

definition encode_wire :: "(pyval \<Rightarrow> string) \<Rightarrow> (rat \<Rightarrow> string) \<Rightarrow> rat \<Rightarrow> pyval \<Rightarrow> wire_result" where
  "encode_wire sha sh min_savings v =
     (let envelope = PyDict (wire_envelope sha v);
          original = canonical_length sh v; encoded = canonical_length sh envelope;
          ratio = (if original = 0 then 0 else max 0 ((of_nat original - of_nat encoded) / of_nat original))
      in if ratio < min_savings
         then \<lparr>wi_encoding = ''json'', wi_payload = v, wi_original = original, wi_encoded = original, wi_savings = 0,
               wi_hash = digest sha v\<rparr>
         else \<lparr>wi_encoding = ''syntavra-wire-v1'', wi_payload = envelope, wi_original = original, wi_encoded = encoded,
               wi_savings = ratio, wi_hash = digest sha v\<rparr>)"

definition wire_result_py :: "wire_result \<Rightarrow> fields" where
  "wire_result_py w =
     [(''encoding'', PyStr (wi_encoding w)), (''payload'', wi_payload w), (''original_bytes'', PyInt (int (wi_original w))),
      (''encoded_bytes'', PyInt (int (wi_encoded w))), (''savings_ratio'', PyFloat (wi_savings w)),
      (''original_hash'', PyStr (wi_hash w))]"

section \<open>Decoding\<close>

text \<open>\<open>str.isdigit\<close> on Latin-1: also the superscripts, which \<open>int\<close> refuses.\<close>

definition is_digits :: "string \<Rightarrow> bool" where
  "is_digits s \<longleftrightarrow> s \<noteq> '''' \<and> list_all (\<lambda>c. py_digit c \<or> code_of c \<in> {178, 179, 185}) s"

text \<open>\<open>t[i]\<close> of a tuple with a Python index, which may count from the end.\<close>

definition py_index :: "'a list \<Rightarrow> int \<Rightarrow> py_error + 'a" where
  "py_index xs i =
     (let j = (if i < 0 then i + int (length xs) else i) in
      if 0 \<le> j \<and> j < int (length xs) then Inr (xs ! nat j) else Inl IndexError)"

text \<open>The name of a key; a table entry of another type than a string could only come from a foreign envelope.\<close>

definition expand_key :: "pyval list \<Rightarrow> string \<Rightarrow> py_error + string" where
  "expand_key keys k =
     (if \<not> is_digits k then Inr k
      else bindE (py_int (PyStr k)) (\<lambda>i. if i < int (length keys) then Inr (py_str (keys ! nat i)) else Inr k))"

text \<open>Iterating a value: a text gives its characters, an object its keys.\<close>

definition py_iter :: "pyval \<Rightarrow> py_error + pyval list" where
  "py_iter v =
     (case v of
        PyList vs \<Rightarrow> Inr vs | PyTuple vs \<Rightarrow> Inr vs | PyStr s \<Rightarrow> Inr (map (\<lambda>c. PyStr [c]) s)
      | PyDict kvs \<Rightarrow> Inr (map (PyStr \<circ> fst) kvs) | _ \<Rightarrow> Inl (TypeError ''object is not iterable''))"

fun expand :: "pyval list \<Rightarrow> pyval list \<Rightarrow> pyval \<Rightarrow> py_error + pyval"
  and expand_tuple :: "pyval list \<Rightarrow> pyval list \<Rightarrow> pyval \<Rightarrow> py_error + pyval list"
  and expand_list :: "pyval list \<Rightarrow> pyval list \<Rightarrow> pyval list \<Rightarrow> py_error + pyval list"
  and expand_fields :: "pyval list \<Rightarrow> pyval list \<Rightarrow> fields \<Rightarrow> py_error + fields" where
  "expand keys paths (PyDict []) = Inr (PyDict [])"
| "expand keys paths (PyDict [(k, v)]) =
     (if k = ''@path'' then bindE (py_int v) (py_index paths)
      else if k = ''@tuple'' then bindE (expand_tuple keys paths v) (\<lambda>ws. Inr (PyTuple ws))
      else bindE (expand_fields keys paths [(k, v)]) (\<lambda>kws. Inr (PyDict (dict_of kws))))"
| "expand keys paths (PyDict (kv # kv' # kvs)) =
     bindE (expand_fields keys paths (kv # kv' # kvs)) (\<lambda>kws. Inr (PyDict (dict_of kws)))"
| "expand keys paths (PyList vs) = bindE (expand_list keys paths vs) (\<lambda>ws. Inr (PyList ws))"
| "expand keys paths v = Inr v"
| "expand_tuple keys paths (PyList vs) = expand_list keys paths vs"
| "expand_tuple keys paths (PyTuple vs) = expand_list keys paths vs"
| "expand_tuple keys paths v = py_iter v"
| "expand_list keys paths [] = Inr []"
| "expand_list keys paths (v # vs) =
     bindE (expand keys paths v) (\<lambda>w. bindE (expand_list keys paths vs) (\<lambda>ws. Inr (w # ws)))"
| "expand_fields keys paths [] = Inr []"
| "expand_fields keys paths ((k, v) # kvs) =
     bindE (expand_key keys k) (\<lambda>name. bindE (expand keys paths v) (\<lambda>w.
     bindE (expand_fields keys paths kvs) (\<lambda>kws. Inr ((name, w) # kws))))"

definition table_of :: "fields \<Rightarrow> string \<Rightarrow> py_error + pyval list" where
  "table_of envelope k = (let v = py_get_none envelope k in if py_truth v then py_iter v else Inr [])"

definition decode_wire :: "(pyval \<Rightarrow> string) \<Rightarrow> fields \<Rightarrow> py_error + pyval" where
  "decode_wire sha encoded =
     (if py_get_none encoded ''encoding'' = PyStr ''json'' then Inr (py_get_none encoded ''payload'')
      else case (case map_of encoded ''payload'' of Some p \<Rightarrow> p | None \<Rightarrow> PyDict encoded) of
        PyDict envelope \<Rightarrow>
          bindE (case map_of envelope ''v'' of None \<Rightarrow> Inr 0 | Some v \<Rightarrow> py_int v) (\<lambda>version.
          if version \<noteq> 1 then Inl (ValueError ''unsupported wire envelope'')
          else bindE (table_of envelope ''k'') (\<lambda>keys.
            bindE (table_of envelope ''p'') (\<lambda>paths.
            bindE (expand keys paths (py_get_none envelope ''d'')) (\<lambda>value.
            if PyStr (digest sha value) \<noteq> py_get_none envelope ''h''
            then Inl (ValueError ''wire payload integrity mismatch'') else Inr value))))
      | _ \<Rightarrow> Inl (ValueError ''unsupported wire envelope''))"

section \<open>Numerals and dictionaries\<close>

lemma py_digit_char: "n < 10 \<Longrightarrow> py_digit (char_of (48 + n))" for n :: nat
  by (simp add: py_digit_def)

lemma char_digit: "n < 10 \<Longrightarrow> of_char (char_of (48 + n) :: char) = 48 + int n" for n :: nat
  using of_nat_of_char[of "char_of (48 + n)", where 'a = int] by simp

lemma nat_str_digits: "list_all py_digit (nat_str n) \<and> nat_str n \<noteq> []"
proof (induction n rule: nat_str.induct)
  case (1 n)
  show ?case
  proof (cases "n < 10")
    case True
    then show ?thesis by (subst (1 2) nat_str.simps) (simp add: py_digit_char)
  next
    case False
    have "n mod 10 < 10" by simp
    from py_digit_char[OF this] show ?thesis
      using 1 False by (subst (1 2) nat_str.simps) simp
  qed
qed

lemma digit_run_digits: "list_all py_digit s \<Longrightarrow> digit_run b s \<longleftrightarrow> s \<noteq> [] \<or> b"
  by (induction s arbitrary: b) auto

lemma filter_digits: "list_all py_digit s \<Longrightarrow> filter py_digit s = s"
  by (induction s) auto

lemma digits_value_nat_str: "digits_value (nat_str n) = int n"
proof (induction n rule: nat_str.induct)
  case (1 n)
  note digits = nat_str_digits[of n, THEN conjunct1]
  show ?case
  proof (cases "n < 10")
    case True
    then show ?thesis
      using digits by (simp add: digits_value_def filter_digits) (subst nat_str.simps, simp add: char_digit)
  next
    case False
    have "n mod 10 < 10" by simp
    have "digits_value (nat_str n) = foldl (\<lambda>m c. 10 * m + (of_char c - 48)) 0 (nat_str (n div 10) @ [char_of (48 + n mod 10)])"
      using False digits by (simp add: digits_value_def filter_digits) (subst nat_str.simps, simp)
    also have "\<dots> = 10 * digits_value (nat_str (n div 10)) + int (n mod 10)"
      using nat_str_digits[of "n div 10"] char_digit[OF \<open>n mod 10 < 10\<close>] by (simp add: digits_value_def filter_digits)
    also have "\<dots> = int n" using 1 False by (simp add: zdiv_int zmod_int)
    finally show ?thesis .
  qed
qed

lemma parse_int_nat_str: "parse_int (nat_str n) = Some (int n)"
proof -
  have digits: "list_all py_digit (nat_str n)" "nat_str n \<noteq> []" using nat_str_digits by auto
  have "list_all (\<lambda>c. \<not> py_space c) (nat_str n)"
    using digits(1) by (auto simp: list_all_iff py_digit_def py_space_def Let_def)
  then have strip: "py_strip (nat_str n) = nat_str n" by (rule py_strip_none)
  obtain c cs where c: "nat_str n = c # cs" using digits(2) by (cases "nat_str n") auto
  then have "c \<noteq> CHR ''-''" "c \<noteq> CHR ''+''" using digits(1) by (auto simp: py_digit_def)
  moreover have "digit_run False (c # cs)" using digits c digit_run_digits by metis
  moreover have "digits_value (c # cs) = int n" using digits_value_nat_str[of n] c by simp
  moreover have "py_strip (c # cs) = c # cs" using strip c by simp
  ultimately show ?thesis unfolding parse_int_def c by (simp only: list.case if_False if_True)
qed

lemma nat_str_inject: "nat_str m = nat_str n \<longleftrightarrow> m = n"
  using digits_value_nat_str by (metis of_nat_eq_iff)

lemma nat_str_is_digits: "is_digits (nat_str n)"
  using nat_str_digits[of n] by (auto simp: is_digits_def list_all_iff)

lemma index_of_Some: "index_of ys x = Some i \<Longrightarrow> i < length ys \<and> ys ! i = x"
  by (induction ys arbitrary: i) (auto split: if_splits)

lemma dict_of_distinct: "distinct (map fst kvs) \<Longrightarrow> dict_of kvs = kvs"
proof -
  have "distinct (map fst (acc @ kvs)) \<Longrightarrow> fold (\<lambda>(k, v). AList.update k v) kvs acc = acc @ kvs" for acc
  proof (induction kvs arbitrary: acc)
    case (Cons kv kvs)
    have "AList.update (fst kv) (snd kv) acc = acc @ [kv]" if "fst kv \<notin> fst ` set acc" for acc :: fields
      using that by (induction acc) auto
    then show ?case using Cons by (cases kv) auto
  qed simp
  from this[of "[]"] show "distinct (map fst kvs) \<Longrightarrow> dict_of kvs = kvs" by (simp add: dict_of_def)
qed

section \<open>Round trip\<close>

text \<open>
  What the codec carries faithfully: objects without keys that are numerals, and no object that
  looks like a handle or a tagged tuple.
\<close>

fun wire_safe :: "pyval \<Rightarrow> bool"
  and wire_safe_list :: "pyval list \<Rightarrow> bool"
  and wire_safe_fields :: "fields \<Rightarrow> bool" where
  "wire_safe (PyDict kvs) \<longleftrightarrow> distinct (map fst kvs) \<and> map fst kvs \<notin> {[''@path''], [''@tuple'']} \<and> wire_safe_fields kvs"
| "wire_safe (PyList vs) \<longleftrightarrow> wire_safe_list vs"
| "wire_safe (PyTuple vs) \<longleftrightarrow> wire_safe_list vs"
| "wire_safe _ \<longleftrightarrow> True"
| "wire_safe_list [] \<longleftrightarrow> True"
| "wire_safe_list (v # vs) \<longleftrightarrow> wire_safe v \<and> wire_safe_list vs"
| "wire_safe_fields [] \<longleftrightarrow> True"
| "wire_safe_fields ((k, v) # kvs) \<longleftrightarrow> \<not> is_digits k \<and> wire_safe v \<and> wire_safe_fields kvs"

lemma expand_wire_key: "\<not> is_digits k \<Longrightarrow> expand_key (map PyStr keys) (wire_key keys k) = Inr k"
  by (cases "index_of keys k")
    (auto simp: wire_key_def expand_key_def nat_str_is_digits py_int_def parse_int_nat_str py_str_def dest: index_of_Some)

lemma wire_key_inj: "inj_on (wire_key keys) {k. \<not> is_digits k}"
proof (rule inj_onI)
  fix x y
  assume xy: "x \<in> {k. \<not> is_digits k}" "y \<in> {k. \<not> is_digits k}" "wire_key keys x = wire_key keys y"
  show "x = y"
  proof (cases "index_of keys x"; cases "index_of keys y")
    fix i j
    assume i: "index_of keys x = Some i" and j: "index_of keys y = Some j"
    then have "i = j" using xy(3) by (simp add: wire_key_def nat_str_inject)
    then show ?thesis using index_of_Some[OF i] index_of_Some[OF j] by simp
  qed (use xy nat_str_is_digits in \<open>auto simp: wire_key_def\<close>)
qed

lemma wire_key_tag: "is_digits t \<or> wire_key keys k = t \<longrightarrow> is_digits t \<or> k = t"
  by (auto simp: wire_key_def nat_str_is_digits split: option.splits)

lemma map_fst_pack: "map fst (wire_pack_fields keys paths kvs) = map (wire_key keys) (map fst kvs)"
  by (induction kvs) auto

lemma wire_safe_keys: "wire_safe_fields kvs \<Longrightarrow> set (map fst kvs) \<subseteq> {k. \<not> is_digits k}"
proof (induction kvs)
  case (Cons kv kvs)
  then show ?case by (cases kv) auto
qed simp

lemma pack_distinct:
  assumes "distinct (map fst kvs)" and "wire_safe_fields kvs"
  shows "distinct (map fst (wire_pack_fields keys paths kvs))"
  using assms wire_safe_keys[OF assms(2)] wire_key_inj[of keys]
  unfolding map_fst_pack distinct_map[of "wire_key keys"] by (blast intro: inj_on_subset)

lemma tags_not_digits: "\<not> is_digits ''@path''" "\<not> is_digits ''@tuple''"
  by code_simp+

lemma expand_single:
  "k \<noteq> ''@path'' \<Longrightarrow> k \<noteq> ''@tuple'' \<Longrightarrow>
   expand keys paths (PyDict [(k, v)]) = bindE (expand_fields keys paths [(k, v)]) (\<lambda>kws. Inr (PyDict (dict_of kws)))"
  by (simp only: expand.simps if_False)

lemma expand_pack:
  "wire_safe v \<Longrightarrow> expand (map PyStr keys) (map PyStr paths) (wire_pack keys paths v) = Inr v"
  and "wire_safe_list vs \<Longrightarrow> expand_list (map PyStr keys) (map PyStr paths) (wire_pack_list keys paths vs) = Inr vs"
  and "wire_safe_fields kvs \<Longrightarrow> expand_fields (map PyStr keys) (map PyStr paths) (wire_pack_fields keys paths kvs) = Inr kvs"
proof (induction v and vs and kvs rule: wire_safe_wire_safe_list_wire_safe_fields.induct)
  case (1 kvs)
  then have safe: "distinct (map fst kvs)" "wire_safe_fields kvs" by auto
  let ?packed = "wire_pack_fields keys paths kvs"
  have IH: "expand_fields (map PyStr keys) (map PyStr paths) ?packed = Inr kvs" using 1 by simp
  have pack: "wire_pack keys paths (PyDict kvs) = PyDict ?packed"
    by (simp add: dict_of_distinct pack_distinct[OF safe])
  show ?case
  proof (cases "\<exists>k v. kvs = [(k, v)]")
    case True
    then obtain k v where kv: "kvs = [(k, v)]" by blast
    have "k \<noteq> ''@path''" "k \<noteq> ''@tuple''" using 1(2) kv by auto
    then have "wire_key keys k \<noteq> ''@path''" "wire_key keys k \<noteq> ''@tuple''"
      using wire_key_tag tags_not_digits by metis+
    note single = expand_single[OF this]
    have "wire_pack keys paths (PyDict kvs) = PyDict [(wire_key keys k, wire_pack keys paths v)]"
      using pack kv by simp
    moreover have "expand_fields (map PyStr keys) (map PyStr paths) [(wire_key keys k, wire_pack keys paths v)] = Inr kvs"
      using IH kv by simp
    ultimately show ?thesis
      by (simp only: single bindE_simps dict_of_distinct[OF safe(1)])
  next
    case False
    then have "kvs = [] \<or> (\<exists>a b c. kvs = a # b # c)" by (cases kvs rule: remdups_adj.cases) auto
    then have "expand (map PyStr keys) (map PyStr paths) (PyDict ?packed) =
        bindE (expand_fields (map PyStr keys) (map PyStr paths) ?packed) (\<lambda>kws. Inr (PyDict (dict_of kws)))"
      by (auto simp: dict_of_def)
    then show ?thesis by (simp only: pack IH bindE_simps dict_of_distinct[OF safe(1)])
  qed
qed (auto simp: expand_wire_key py_int_def py_index_def dest: index_of_Some split: option.splits)

lemma table_of_names: "map_of envelope k = Some (PyTuple (map PyStr names)) \<Longrightarrow> table_of envelope k = Inr (map PyStr names)"
  by (simp add: table_of_def py_get_none_def py_truth_def py_iter_def)

lemma decode_envelope:
  assumes "wi_encoding (encode_wire sha sh r v) \<noteq> ''json''"
  shows "decode_wire sha (wire_result_py (encode_wire sha sh r v)) =
    bindE (expand (map PyStr (key_table v)) (map PyStr (path_table v)) (wire_pack (key_table v) (path_table v) v))
      (\<lambda>w. if digest sha w \<noteq> digest sha v then Inl (ValueError ''wire payload integrity mismatch'') else Inr w)"
proof -
  let ?e = "wire_envelope sha v" and ?w = "encode_wire sha sh r v"
  have e: "wi_payload ?w = PyDict ?e" "wi_encoding ?w = ''syntavra-wire-v1''"
    using assms by (auto simp: encode_wire_def Let_def split: if_splits)
  have "table_of ?e ''k'' = Inr (map PyStr (key_table v))" "table_of ?e ''p'' = Inr (map PyStr (path_table v))"
    by (rule table_of_names, simp add: wire_envelope_def Let_def)+
  moreover have "map_of ?e ''v'' = Some (PyInt 1)" "py_get_none ?e ''d'' = wire_pack (key_table v) (path_table v) v"
    "py_get_none ?e ''h'' = PyStr (digest sha v)"
    by (simp_all add: wire_envelope_def Let_def py_get_none_def)
  moreover have "py_get_none (wire_result_py ?w) ''encoding'' = PyStr ''syntavra-wire-v1''"
    "map_of (wire_result_py ?w) ''payload'' = Some (PyDict ?e)"
    by (simp_all add: wire_result_py_def e py_get_none_def)
  ultimately show ?thesis by (simp add: decode_wire_def py_int_def)
qed

lemma decode_json:
  assumes "wi_encoding (encode_wire sha sh r v) = ''json''"
  shows "decode_wire sha (wire_result_py (encode_wire sha sh r v)) = Inr v"
proof -
  have "wi_payload (encode_wire sha sh r v) = v"
    using assms by (auto simp: encode_wire_def Let_def split: if_splits)
  then show ?thesis using assms by (simp add: decode_wire_def wire_result_py_def py_get_none_def)
qed

section \<open>Properties\<close>

text \<open>
  C39. Decoding what was encoded gives the value back, tuples and the order of keys included, for
  every value without numeral keys and without objects that look like handles or tagged tuples,
  whatever savings are asked for.
\<close>

theorem wire_roundtrip:
  assumes "wire_safe v"
  shows "decode_wire sha (wire_result_py (encode_wire sha sh min_savings v)) = Inr v"
  using decode_json[of sha sh min_savings v] decode_envelope[of sha sh min_savings v] expand_pack(1)[OF assms]
  by (cases "wi_encoding (encode_wire sha sh min_savings v) = ''json''") simp_all

text \<open>
  The codec is never silently wrong: whatever value is encoded, decoding the result either
  raises or gives a value with the digest of the original.
\<close>

theorem wire_never_silent:
  assumes "decode_wire sha (wire_result_py (encode_wire sha sh min_savings v)) = Inr w"
  shows "digest sha w = digest sha v"
proof (cases "wi_encoding (encode_wire sha sh min_savings v) = ''json''")
  case True
  then show ?thesis using assms decode_json[OF True] by simp
next
  case False
  then show ?thesis using assms unfolding decode_envelope[OF False] by (auto split: if_splits)
qed

text \<open>
  The codec is not lossless as it claims: an object with the key \<open>0\<close> beside a frequent key comes
  back with that key replaced, and the digest makes decoding raise.
\<close>

definition numeral_keys :: pyval where
  "numeral_keys = PyList [PyDict [(''0'', PyInt 1)], PyDict [(''name'', PyInt 2)], PyDict [(''name'', PyInt 3)]]"

lemma wire_refuses_numeral_keys:
  "decode_wire (\<lambda>v. if v = numeral_keys then ''a'' else ''b'')
     (wire_result_py (encode_wire (\<lambda>v. if v = numeral_keys then ''a'' else ''b'') (\<lambda>_. ''0.0'') 0 numeral_keys)) =
   Inl (ValueError ''wire payload integrity mismatch'')"
  by code_simp

definition demo_wire :: pyval where
  "demo_wire = PyList [PyDict [(''file'', PyStr ''src/main.py''), (''span'', PyTuple [PyInt 1, PyInt 9])],
     PyDict [(''file'', PyStr ''src/main.py''), (''note'', PyNone)]]"

theorem wire_roundtrip_witness:
  "decode_wire (\<lambda>_. zero_hash) (wire_result_py (encode_wire (\<lambda>_. zero_hash) (\<lambda>_. ''0.0'') 0 demo_wire)) = Inr demo_wire"
  by (rule wire_roundtrip) code_simp

theorem wire_never_silent_witness:
  "\<exists>w. decode_wire (\<lambda>_. zero_hash) (wire_result_py (encode_wire (\<lambda>_. zero_hash) (\<lambda>_. ''0.0'') 0 numeral_keys)) = Inr w \<and>
     digest (\<lambda>_. zero_hash) w = digest (\<lambda>_. zero_hash) numeral_keys"
proof -
  have "\<not> isl (decode_wire (\<lambda>_. zero_hash)
      (wire_result_py (encode_wire (\<lambda>_. zero_hash) (\<lambda>_. ''0.0'') 0 numeral_keys)))" by code_simp
  then obtain w where "decode_wire (\<lambda>_. zero_hash)
      (wire_result_py (encode_wire (\<lambda>_. zero_hash) (\<lambda>_. ''0.0'') 0 numeral_keys)) = Inr w" by (rule not_islE)
  with wire_never_silent[OF this] show ?thesis by blast
qed

end
