(* ===== verification/RolloutTailer.thy ===== *)
theory RolloutTailer
  imports JsonText
begin

text \<open>
  The rollout tailer of \<open>syntavra_runtime/rollout.py\<close>: following a JSON lines file that grows, from a
  saved offset and an incomplete last line, and counting its events once each.  Bytes are \<open>char\<close>s.
  Parsing a line (\<open>json.loads\<close>), the text of a float, \<open>str\<close> of a container and the digest of bytes
  are parameters.  The state file is what \<open>poll\<close> wrote to it.
\<close>

section \<open>Files\<close>

record file_stat =
  fs_birth :: "int option"
  fs_ctime :: int
  fs_ino :: int
  fs_dev :: int

definition windows_epoch :: int where
  "windows_epoch = 116444736000000000"

definition file_numbers :: "bool \<Rightarrow> file_stat \<Rightarrow> int \<times> int" where
  "file_numbers nt st =
     (if nt then ((case fs_birth st of Some b \<Rightarrow> b | None \<Rightarrow> fs_ctime st) div 100 + windows_epoch, 0)
      else (fs_ino st, fs_dev st))"

definition file_identity :: "(string \<Rightarrow> string) \<Rightarrow> bool \<Rightarrow> string \<Rightarrow> file_stat \<Rightarrow> string" where
  "file_identity sha nt resolved st =
     (let (inode, device) = file_numbers nt st in sha (resolved @ ''|'' @ int_str inode @ ''|'' @ int_str device))"

section \<open>Counting one event\<close>

definition counter_names :: "string list" where
  "counter_names = [''model_turns'', ''tool_calls'', ''wait_calls'', ''command_calls'', ''compactions'',
     ''fresh_input_tokens'', ''cached_input_tokens'', ''output_tokens'', ''reasoning_tokens'',
     ''malformed_lines'', ''duplicate_events'']"

record tail_env =
  tl_loads :: "string \<Rightarrow> pyval option"
  tl_show :: "rat \<Rightarrow> string"
  tl_str :: "pyval \<Rightarrow> string"
  tl_sha :: "string \<Rightarrow> string"

fun walk_value :: "pyval \<Rightarrow> (string \<times> pyval) list"
  and walk_list :: "pyval list \<Rightarrow> (string \<times> pyval) list"
  and walk_fields :: "fields \<Rightarrow> (string \<times> pyval) list" where
  "walk_value (PyDict kvs) = walk_fields kvs"
| "walk_value (PyList vs) = walk_list vs"
| "walk_value _ = []"
| "walk_list [] = []"
| "walk_list (v # vs) = walk_value v @ walk_list vs"
| "walk_fields [] = []"
| "walk_fields ((k, v) # kvs) = (k, v) # walk_value v @ walk_fields kvs"

text \<open>A number that is not negative, as an integer; a boolean is one of Python's integers.\<close>

definition count_value :: "pyval \<Rightarrow> int option" where
  "count_value v =
     (case v of
        PyInt n \<Rightarrow> if n \<ge> 0 then Some n else None
      | PyBool b \<Rightarrow> Some (if b then 1 else 0)
      | PyFloat r \<Rightarrow> if r \<ge> 0 then Some (truncate_rat r) else None
      | _ \<Rightarrow> None)"

definition first_number :: "fields \<Rightarrow> string list \<Rightarrow> int" where
  "first_number event aliases =
     (let hits = filter (\<lambda>(k, v). py_casefold k \<in> set (map py_casefold aliases) \<and> count_value v \<noteq> None) (walk_fields event)
      in case hits of [] \<Rightarrow> 0 | (_, v) # _ \<Rightarrow> (case count_value v of Some n \<Rightarrow> n | None \<Rightarrow> 0))"

definition get_field :: "fields \<Rightarrow> string \<Rightarrow> pyval" where
  "get_field event k = (case map_of event k of None \<Rightarrow> PyNone | Some v \<Rightarrow> v)"

definition event_id :: "tail_env \<Rightarrow> fields \<Rightarrow> string \<Rightarrow> string" where
  "event_id te event raw =
     (case List.map_filter (\<lambda>k. case get_field event k of PyStr s \<Rightarrow> if s \<noteq> '''' then Some (k @ '':'' @ s) else None | _ \<Rightarrow> None)
        [''event_id'', ''id'', ''call_id'', ''response_id''] of
        [] \<Rightarrow> ''sha256:'' @ tl_sha te raw
      | i # _ \<Rightarrow> i)"

definition event_type :: "tail_env \<Rightarrow> fields \<Rightarrow> string" where
  "event_type te event =
     (case filter (\<lambda>v. py_truth v) (map (get_field event) [''type'', ''event'', ''kind'']) of
        [] \<Rightarrow> ''''
      | v # _ \<Rightarrow> py_casefold (case v of PyStr s \<Rightarrow> s | _ \<Rightarrow> tl_str te v))"

definition any_in :: "string list \<Rightarrow> string \<Rightarrow> bool" where
  "any_in ts s \<longleftrightarrow> (\<exists>t \<in> set ts. has_substring t s)"

definition one_if :: "bool \<Rightarrow> int" where
  "one_if b = (if b then 1 else 0)"

definition normalize_event :: "tail_env \<Rightarrow> fields \<Rightarrow> (string \<times> int) list" where
  "normalize_event te event =
     (let text = py_casefold (dumps_text (tl_show te) (PyDict event)); ty = event_type te event;
          input_total = first_number event [''input_tokens'', ''input_token_count'', ''prompt_tokens''];
          explicit = first_number event [''uncached_input_tokens'', ''fresh_input_tokens''];
          cached = first_number event [''cached_input_tokens'', ''cache_read_input_tokens'', ''cached_tokens'']
      in [(''model_turns'', one_if (any_in [''response.completed'', ''assistant_message'', ''model_response'', ''turn_context''] ty)),
          (''tool_calls'', one_if (has_substring ''tool'' ty \<or> has_substring ''function_call'' text)),
          (''wait_calls'', one_if (any_in [[CHR 0x22] @ ''wait'' @ [CHR 0x22], ''write_stdin'', ''process is still running'',
             ''still running''] text)),
          (''command_calls'', one_if (any_in [''exec_command'', ''shell_command'', ''command_execution''] text)),
          (''compactions'', one_if (any_in [''compaction'', ''compact_context'', ''context_compacted''] text)),
          (''fresh_input_tokens'', if explicit \<noteq> 0 then explicit else max 0 (input_total - cached)),
          (''cached_input_tokens'', cached),
          (''output_tokens'', first_number event [''output_tokens'', ''completion_tokens'', ''output_token_count'']),
          (''reasoning_tokens'', first_number event [''reasoning_tokens'', ''reasoning_token_count'']),
          (''malformed_lines'', 0), (''duplicate_events'', 0)])"

section \<open>Following the file\<close>

record tail_state =
  ts_identity :: string
  ts_offset :: nat
  ts_partial :: string
  ts_counters :: "(string \<times> int) list"
  ts_seen :: "string list"

definition newline :: char where
  "newline = CHR 0x0A"

text \<open>\<open>bytes.strip\<close> removes the ASCII white space only.\<close>

definition byte_space :: "char \<Rightarrow> bool" where
  "byte_space c \<longleftrightarrow> (let n = code_of c in n = 32 \<or> (9 \<le> n \<and> n \<le> 13))"

definition blank :: "string \<Rightarrow> bool" where
  "blank raw \<longleftrightarrow> list_all byte_space raw"

text \<open>The complete lines of a buffer and what follows the last line break.\<close>

definition split_buffer :: "string \<Rightarrow> string list \<times> string" where
  "split_buffer buffer =
     (let lines = split_char newline buffer in
      if buffer \<noteq> [] \<and> last buffer \<noteq> newline then (butlast lines, last lines) else (lines, []))"

definition bump :: "string \<Rightarrow> int \<Rightarrow> (string \<times> int) list \<Rightarrow> (string \<times> int) list" where
  "bump name n counters = map (\<lambda>(k, c). (k, if k = name then c + n else c)) counters"

definition add_counts :: "(string \<times> int) list \<Rightarrow> (string \<times> int) list \<Rightarrow> (string \<times> int) list" where
  "add_counts counts counters = fold (\<lambda>(k, n). bump k n) counts counters"

type_synonym progress = "(string \<times> int) list \<times> string list \<times> nat"

definition process_line :: "tail_env \<Rightarrow> string \<Rightarrow> progress \<Rightarrow> progress" where
  "process_line te raw p =
     (let (counters, seen, processed) = p in
      if blank raw then p
      else case tl_loads te raw of
        Some (PyDict event) \<Rightarrow>
          let i = event_id te event raw in
          if i \<in> set seen then (bump ''duplicate_events'' 1 counters, seen, processed)
          else (add_counts (normalize_event te event) counters, seen @ [i], processed + 1)
      | _ \<Rightarrow> (bump ''malformed_lines'' 1 counters, seen, processed))"

definition last_ids :: "string list \<Rightarrow> string list" where
  "last_ids seen = drop (length seen - 10000) seen"

definition fresh_state :: "string \<Rightarrow> tail_state" where
  "fresh_state identity = \<lparr>ts_identity = identity, ts_offset = 0, ts_partial = [],
     ts_counters = map (\<lambda>n. (n, 0)) counter_names, ts_seen = []\<rparr>"

definition resume :: "string \<Rightarrow> nat \<Rightarrow> tail_state option \<Rightarrow> tail_state" where
  "resume identity len state =
     (case state of
        None \<Rightarrow> fresh_state identity
      | Some s \<Rightarrow> if ts_identity s \<noteq> identity \<or> len < ts_offset s then fresh_state identity else s)"

record tail_report =
  tr_processed :: nat
  tr_offset :: nat
  tr_partial :: nat
  tr_counters :: "(string \<times> int) list"
  tr_fresh_fraction :: rat
  tr_waits_per_turn :: rat

definition counter :: "(string \<times> int) list \<Rightarrow> string \<Rightarrow> int" where
  "counter counters name = (case map_of counters name of None \<Rightarrow> 0 | Some n \<Rightarrow> n)"

definition poll :: "tail_env \<Rightarrow> string \<Rightarrow> string \<Rightarrow> tail_state option \<Rightarrow> tail_report \<times> tail_state" where
  "poll te identity content state =
     (let s = resume identity (length content) state;
          counters0 = map (\<lambda>n. (n, counter (ts_counters s) n)) counter_names;
          buffer = ts_partial s @ drop (ts_offset s) content;
          (lines, trailing) = split_buffer buffer;
          (counters, seen, processed) = fold (process_line te) lines (counters0, last_ids (ts_seen s), 0);
          len = length content; value = counter counters
      in (\<lparr>tr_processed = processed, tr_offset = len, tr_partial = length trailing, tr_counters = counters,
           tr_fresh_fraction = of_int (value ''fresh_input_tokens'') /
             of_int (max 1 (value ''fresh_input_tokens'' + value ''cached_input_tokens'')),
           tr_waits_per_turn = of_int (value ''wait_calls'') / of_int (max 1 (value ''model_turns''))\<rparr>,
          \<lparr>ts_identity = identity, ts_offset = len, ts_partial = trailing, ts_counters = counters,
           ts_seen = last_ids seen\<rparr>))"

section \<open>Finding the file\<close>

text \<open>A path is its parent and its name; \<open>discover_rollouts\<close> sorts what the directory walk finds.\<close>

definition discover_rollouts :: "((string \<times> string) \<times> rat) list \<Rightarrow> (string \<times> string) list" where
  "discover_rollouts found = map fst (sort_key (\<lambda>(_, mtime). - mtime) found)"

definition select_active_rollout :: "(string \<times> string) list \<Rightarrow> string option \<Rightarrow> (string \<times> string) option" where
  "select_active_rollout candidates session =
     (let first = (case candidates of [] \<Rightarrow> None | c # _ \<Rightarrow> Some c) in
      case session of
        None \<Rightarrow> first
      | Some s \<Rightarrow> if s = '''' then first
          else (case find (\<lambda>(parent, name). has_substring s name \<or> has_substring s parent) candidates of
              Some c \<Rightarrow> Some c | None \<Rightarrow> first))"

section \<open>Lines and chunks\<close>

lemma split_char_append: "split_char c (a @ b) = butlast (split_char c a) @ split_char c (last (split_char c a) @ b)"
proof (induction a)
  case (Cons x a)
  obtain p ps where S: "split_char c a = p # ps" using split_char_nonempty by (cases "split_char c a") auto
  show ?case
  proof (cases "x = c \<or> ps \<noteq> []")
    case True
    then show ?thesis using Cons S by (cases "x = c") auto
  next
    case False
    then show ?thesis using Cons S by simp
  qed
qed simp

lemma split_char_end: "split_char c (s @ [c]) = split_char c s @ [[]]"
  by (induction s) (auto split: list.splits)

lemma length_split_char: "length (split_char c s) = Suc (count_list s c)"
  by (induction s) (auto split: list.splits)

lemma process_line_blank: "process_line te [] p = p"
  by (cases p) (simp add: process_line_def blank_def)

lemma split_buffer_lines:
  "snd (split_buffer b) = last (split_char newline b)"
  "fold (process_line te) (fst (split_buffer b)) p = fold (process_line te) (butlast (split_char newline b)) p"
proof (atomize(full), cases "b \<noteq> [] \<and> last b \<noteq> newline")
  case False
  let ?lines = "split_char newline b"
  have lines: "?lines = butlast ?lines @ [[]]"
  proof (cases b rule: rev_cases)
    case (snoc xs x)
    then show ?thesis using False split_char_end[of newline xs] by simp
  qed simp
  then have "last ?lines = []" by (metis last_snoc)
  moreover have "fold (process_line te) ?lines p = fold (process_line te) (butlast ?lines) p"
    by (subst lines) (simp only: fold_append comp_apply fold_simps process_line_blank)
  ultimately show "snd (split_buffer b) = last ?lines \<and>
      fold (process_line te) (fst (split_buffer b)) p = fold (process_line te) (butlast ?lines) p"
    using False by (simp add: split_buffer_def Let_def)
qed (simp add: split_buffer_def Let_def)

text \<open>The number of events processed before does not matter to what is counted.\<close>

definition shift :: "nat \<Rightarrow> progress \<Rightarrow> progress" where
  "shift n p = (fst p, fst (snd p), snd (snd p) + n)"

lemma process_line_shift: "process_line te raw (shift n p) = shift n (process_line te raw p)"
  by (cases p) (auto simp: shift_def process_line_def Let_def split: option.split pyval.split)

lemma fold_shift: "fold (process_line te) ls (shift n p) = shift n (fold (process_line te) ls p)"
  by (induction ls arbitrary: p) (simp_all add: process_line_shift)

lemma map_fst_bump [simp]: "map fst (bump name n counters) = map fst counters"
  by (induction counters) (auto simp: bump_def)

lemma map_fst_add_counts [simp]: "map fst (add_counts counts counters) = map fst counters"
  unfolding add_counts_def by (induction counts arbitrary: counters) auto

lemma process_line_keys: "map fst (fst (process_line te raw p)) = map fst (fst p)"
  by (cases p) (auto simp: process_line_def Let_def split: option.split pyval.split)

lemma fold_keys: "map fst (fst (fold (process_line te) ls p)) = map fst (fst p)"
  by (induction ls arbitrary: p) (simp_all add: process_line_keys)

lemma process_line_seen: "length (fst (snd p)) \<le> length (fst (snd (process_line te raw p)))"
  by (cases p) (auto simp: process_line_def Let_def split: option.split pyval.split)

lemma fold_seen: "length (fst (snd p)) \<le> length (fst (snd (fold (process_line te) ls p)))"
proof (induction ls arbitrary: p)
  case (Cons l ls)
  have "length (fst (snd p)) \<le> length (fst (snd (process_line te l p)))" by (rule process_line_seen)
  also have "\<dots> \<le> length (fst (snd (fold (process_line te) ls (process_line te l p))))" by (rule Cons.IH)
  finally show ?case by simp
qed simp

lemma counters_restored:
  assumes "map fst counters = counter_names"
  shows "map (\<lambda>n. (n, counter counters n)) counter_names = counters"
proof -
  have "distinct counter_names" by code_simp
  then have "\<forall>(k, v) \<in> set counters. counter counters k = v"
    using assms by (auto simp: counter_def)
  then have "map (\<lambda>n. (n, counter counters n)) (map fst counters) = counters"
    by (induction counters) (auto intro!: map_idI)
  then show ?thesis by (simp only: assms)
qed

section \<open>Following in chunks\<close>

text \<open>The whole file at once, without the limit on remembered identifiers.\<close>

definition scan :: "tail_env \<Rightarrow> string \<Rightarrow> progress" where
  "scan te content = fold (process_line te) (butlast (split_char newline content))
     (map (\<lambda>n. (n, 0)) counter_names, [], 0)"

definition scanned :: "tail_env \<Rightarrow> string \<Rightarrow> string \<Rightarrow> tail_state" where
  "scanned te identity content = \<lparr>ts_identity = identity, ts_offset = length content,
     ts_partial = last (split_char newline content), ts_counters = fst (scan te content), ts_seen = fst (snd (scan te content))\<rparr>"

lemma scan_append:
  "scan te (x @ y) = fold (process_line te) (butlast (split_char newline (last (split_char newline x) @ y))) (scan te x)"
  unfolding scan_def split_char_append[of newline x y] by (simp add: butlast_append)

text \<open>The events of a file: its complete lines that are objects, those with the same identifier once.\<close>

definition distinct_events :: "tail_env \<Rightarrow> string \<Rightarrow> nat" where
  "distinct_events te content = length (fst (snd (scan te content)))"

lemma distinct_events_mono: "distinct_events te x \<le> distinct_events te (x @ y)"
  by (simp add: distinct_events_def scan_append fold_seen)

lemma scan_keys: "map fst (fst (scan te content)) = counter_names"
  by (simp add: scan_def fold_keys comp_def)

lemma poll_value:
  assumes "resume identity (length content) state = s" and "map fst (ts_counters s) = counter_names"
    and "last_ids (ts_seen s) = ts_seen s"
    and p_def: "p = fold (process_line te) (butlast (split_char newline (ts_partial s @ drop (ts_offset s) content)))
      (ts_counters s, ts_seen s, 0)"
  shows "tr_processed (fst (poll te identity content state)) = snd (snd p)"
    and "snd (poll te identity content state) = \<lparr>ts_identity = identity, ts_offset = length content,
      ts_partial = last (split_char newline (ts_partial s @ drop (ts_offset s) content)),
      ts_counters = fst p, ts_seen = last_ids (fst (snd p))\<rparr>"
proof -
  obtain lines trailing where b: "split_buffer (ts_partial s @ drop (ts_offset s) content) = (lines, trailing)" by fastforce
  have "fold (process_line te) lines (ts_counters s, ts_seen s, 0) = p"
    and "trailing = last (split_char newline (ts_partial s @ drop (ts_offset s) content))"
    using split_buffer_lines[where b = "ts_partial s @ drop (ts_offset s) content"] b by (auto simp: p_def)
  then show "tr_processed (fst (poll te identity content state)) = snd (snd p)"
    "snd (poll te identity content state) = \<lparr>ts_identity = identity, ts_offset = length content,
      ts_partial = last (split_char newline (ts_partial s @ drop (ts_offset s) content)),
      ts_counters = fst p, ts_seen = last_ids (fst (snd p))\<rparr>"
    using b by (simp_all add: poll_def assms(1,3) counters_restored[OF assms(2)] Let_def case_prod_beta)
qed

lemma last_ids_short: "length seen \<le> 10000 \<Longrightarrow> last_ids seen = seen"
  by (simp add: last_ids_def)

lemma poll_fresh:
  assumes "distinct_events te content \<le> 10000"
  shows "snd (poll te identity content None) = scanned te identity content"
    and "tr_processed (fst (poll te identity content None)) = snd (snd (scan te content))"
proof -
  have seen: "last_ids (fst (snd (scan te content))) = fst (snd (scan te content))"
    by (rule last_ids_short) (use assms in \<open>simp add: distinct_events_def\<close>)
  have r: "resume identity (length content) None = fresh_state identity" by (simp add: resume_def)
  note fresh = poll_value[OF r _ _ refl, of te]
  show "snd (poll te identity content None) = scanned te identity content"
    "tr_processed (fst (poll te identity content None)) = snd (snd (scan te content))"
    using fresh seen by (simp_all add: fresh_state_def comp_def last_ids_def scanned_def scan_def)
qed

lemma poll_more:
  assumes "distinct_events te (x @ y) \<le> 10000"
  shows "snd (poll te identity (x @ y) (Some (scanned te identity x))) = scanned te identity (x @ y)"
    and "tr_processed (fst (poll te identity (x @ y) (Some (scanned te identity x)))) + snd (snd (scan te x)) =
      snd (snd (scan te (x @ y)))"
proof -
  let ?s = "scanned te identity x" and ?new = "butlast (split_char newline (last (split_char newline x) @ y))"
  let ?p = "fold (process_line te) ?new (fst (scan te x), fst (snd (scan te x)), 0)"
  have lim: "distinct_events te x \<le> 10000" using assms distinct_events_mono order_trans by blast
  have r: "resume identity (length (x @ y)) (Some ?s) = ?s" by (simp add: resume_def scanned_def)
  have old: "last_ids (ts_seen ?s) = ts_seen ?s"
    using last_ids_short[of "ts_seen ?s"] lim by (simp add: scanned_def distinct_events_def)
  note more = poll_value[OF r _ old refl, of te]
  have keys: "map fst (ts_counters ?s) = counter_names" by (simp add: scanned_def scan_keys)
  have "scan te x = shift (snd (snd (scan te x))) (fst (scan te x), fst (snd (scan te x)), 0)"
    by (simp add: shift_def)
  then have scan: "scan te (x @ y) = shift (snd (snd (scan te x))) ?p"
    by (metis scan_append fold_shift)
  then have p: "fst ?p = fst (scan te (x @ y))" "fst (snd ?p) = fst (snd (scan te (x @ y)))"
      "snd (snd ?p) + snd (snd (scan te x)) = snd (snd (scan te (x @ y)))"
    by (simp_all add: shift_def)
  have trailing: "last (split_char newline (x @ y)) = last (split_char newline (last (split_char newline x) @ y))"
    by (simp add: split_char_append[of newline x y])
  have seen: "last_ids (fst (snd (scan te (x @ y)))) = fst (snd (scan te (x @ y)))"
    by (rule last_ids_short) (use assms in \<open>simp add: distinct_events_def\<close>)
  show "snd (poll te identity (x @ y) (Some ?s)) = scanned te identity (x @ y)"
    using more(2)[OF keys] p seen trailing by (simp add: scanned_def)
  show "tr_processed (fst (poll te identity (x @ y) (Some ?s))) + snd (snd (scan te x)) = snd (snd (scan te (x @ y)))"
    using more(1)[OF keys] p by (simp add: scanned_def)
qed

text \<open>Polling a file after each chunk that is appended to it, with the events processed in all.\<close>

fun follow :: "tail_env \<Rightarrow> string \<Rightarrow> string \<Rightarrow> tail_state option \<Rightarrow> string list \<Rightarrow> nat \<times> tail_state option" where
  "follow te identity content state [] = (0, state)"
| "follow te identity content state (c # cs) =
     (let (r, s) = poll te identity (content @ c) state; (n, s') = follow te identity (content @ c) (Some s) cs
      in (tr_processed r + n, s'))"

lemma follow_scanned:
  "distinct_events te (content @ concat parts) \<le> 10000 \<Longrightarrow>
   follow te identity content (Some (scanned te identity content)) parts =
     (snd (snd (scan te (content @ concat parts))) - snd (snd (scan te content)),
      Some (scanned te identity (content @ concat parts))) \<and>
   snd (snd (scan te content)) \<le> snd (snd (scan te (content @ concat parts)))"
proof (induction parts arbitrary: content)
  case (Cons c cs)
  have "distinct_events te (content @ c) \<le> 10000"
    using Cons.prems distinct_events_mono[of te "content @ c" "concat cs"] by simp
  note more = poll_more[OF this, where identity = identity]
  show ?case
    using Cons.IH[of "content @ c"] Cons.prems more
    by (cases "poll te identity (content @ c) (Some (scanned te identity content))") auto
qed simp

section \<open>Property\<close>

text \<open>
  C22. Following a file while it grows is the same as reading it at once, as long as it holds at most ten
  thousand different events, the number of identifiers the state remembers: however its bytes arrive in
  chunks, lines cut anywhere, the polls count the same events and end in the same state.
\<close>

theorem tail_chunking:
  assumes "parts \<noteq> []" and "distinct_events te (concat parts) \<le> 10000"
  shows "follow te identity [] None parts =
    (let (r, s) = poll te identity (concat parts) None in (tr_processed r, Some s))"
proof -
  obtain c cs where parts: "parts = c # cs" using assms(1) by (cases parts) auto
  then have lim: "distinct_events te c \<le> 10000" "distinct_events te (c @ concat cs) \<le> 10000"
    using assms(2) distinct_events_mono[of te c "concat cs"] by auto
  note first = poll_fresh[OF lim(1), where identity = identity] and all = poll_fresh[OF lim(2), where identity = identity]
    and rest = follow_scanned[OF lim(2), where identity = identity]
  show ?thesis
    using first all rest unfolding parts
    by (cases "poll te identity c None"; cases "poll te identity (c @ concat cs) None") auto
qed

definition demo_tail :: tail_env where
  "demo_tail = \<lparr>tl_loads = (\<lambda>raw. Some (PyDict [(''id'', PyStr raw)])), tl_show = (\<lambda>_. ''0.0''),
     tl_str = (\<lambda>_. ''''), tl_sha = (\<lambda>_. '''')\<rparr>"

theorem tail_chunking_witness:
  "fst (follow demo_tail ''f'' [] None [''a'', ''b'' @ [newline] @ ''a'', ''b'' @ [newline]]) = 1"
proof -
  have short: "distinct_events demo_tail (concat [''a'', ''b'' @ [newline] @ ''a'', ''b'' @ [newline]]) \<le> 10000" by code_simp
  have one: "tr_processed (fst (poll demo_tail ''f'' (concat [''a'', ''b'' @ [newline] @ ''a'', ''b'' @ [newline]]) None)) = 1"
    by code_simp
  have "follow demo_tail ''f'' [] None [''a'', ''b'' @ [newline] @ ''a'', ''b'' @ [newline]] =
      (let (r, s) = poll demo_tail ''f'' (concat [''a'', ''b'' @ [newline] @ ''a'', ''b'' @ [newline]]) None
       in (tr_processed r, Some s))"
    by (rule tail_chunking[OF _ short]) simp
  then show ?thesis using one by (simp only: Let_def case_prod_beta fst_conv)
qed

end
