(* ===== verification/ContractGraph.thy ===== *)
theory ContractGraph
  imports Prelude "HOL-Library.While_Combinator"
begin

text \<open>
  The contract version graph of \<open>syntavra_runtime/contract_version_graph.py\<close>: the contract documents
  under the configured roots and those they refer to, and which contracts a change invalidates.
  The two work lists are loops (\<open>while_option\<close>), so that a loop that does not end has the value
  \<open>None\<close>.  The repository is a view: its regular files with the JSON value of each, its directories,
  and \<open>Path.resolve\<close> relative to the repository, all of them the file system's.
\<close>

section \<open>References\<close>

text \<open>\<open>CONTRACT_REF_RE\<close> on a stripped string: the path before the first colon.\<close>

definition contract_char :: "char \<Rightarrow> bool" where
  "contract_char c \<longleftrightarrow> (let n = code_of c in
     (48 \<le> n \<and> n \<le> 57) \<or> (65 \<le> n \<and> n \<le> 90) \<or> (97 \<le> n \<and> n \<le> 122) \<or> c \<in> set ''_.-/'')"

definition contract_path :: "string \<Rightarrow> bool" where
  "contract_path p \<longleftrightarrow> starts_with ''contracts/'' p \<and> list_all contract_char (drop 10 p) \<and>
     length (drop 10 p) > 5 \<and> ends_with ''.json'' (drop 10 p)"

definition match_ref :: "string \<Rightarrow> string option" where
  "match_ref item =
     (let s = py_strip item; p = takeWhile (\<lambda>c. c \<noteq> CHR '':'') s; rest = dropWhile (\<lambda>c. c \<noteq> CHR '':'') s
      in if contract_path p \<and> CHR 0x0A \<notin> set rest then Some p else None)"

fun visit_refs :: "pyval \<Rightarrow> string list"
  and visit_list :: "pyval list \<Rightarrow> string list"
  and visit_fields :: "fields \<Rightarrow> string list" where
  "visit_refs (PyDict kvs) = visit_fields kvs"
| "visit_refs (PyList vs) = visit_list vs"
| "visit_refs (PyTuple vs) = visit_list vs"
| "visit_refs (PyStr s) = (case match_ref s of None \<Rightarrow> [] | Some p \<Rightarrow> [p])"
| "visit_refs _ = []"
| "visit_list [] = []"
| "visit_list (v # vs) = visit_refs v @ visit_list vs"
| "visit_fields [] = []"
| "visit_fields ((k, v) # kvs) = visit_refs v @ visit_fields kvs"

text \<open>\<open>sorted(_contract_refs(document))\<close>.\<close>

definition contract_refs :: "fields \<Rightarrow> string list" where
  "contract_refs document = sorted_set (visit_refs (PyDict document))"

section \<open>Reading the repository\<close>

text \<open>
  \<open>rv_files\<close> has \<open>None\<close> for a file that is not JSON; \<open>rv_resolve\<close> has \<open>None\<close> for a path outside the
  repository, and the empty string for the repository itself; \<open>rv_str\<close> is \<open>str\<close> of a value that is
  no string.
\<close>

record repo_view =
  rv_files :: "(string \<times> pyval option) list"
  rv_dirs :: "string list"
  rv_resolve :: "string \<Rightarrow> string option"
  rv_str :: "pyval \<Rightarrow> string"

definition rstrip_slash :: "string \<Rightarrow> string" where
  "rstrip_slash s = rev (dropWhile (\<lambda>c. c = CHR ''/'') (rev s))"

definition inside_roots :: "string list \<Rightarrow> string \<Rightarrow> bool" where
  "inside_roots roots relative \<longleftrightarrow>
     list_ex (\<lambda>r. relative = r \<or> starts_with (rstrip_slash r @ ''/'') relative) roots"

definition make_roots :: "string list \<Rightarrow> py_error + string list" where
  "make_roots roots =
     (if roots = [] then Inl (ValueError ''at least one contract root is required'') else Inr (fromkeys roots))"

definition under :: "string \<Rightarrow> string \<Rightarrow> bool" where
  "under dir path \<longleftrightarrow> dir = '''' \<or> starts_with (dir @ ''/'') path"

definition root_contracts :: "repo_view \<Rightarrow> string \<Rightarrow> py_error + string list" where
  "root_contracts rv relative =
     (case rv_resolve rv relative of
        None \<Rightarrow> Inl (ValueError (''contract root escapes repository: '' @ relative))
      | Some dir \<Rightarrow>
          if dir \<notin> set (rv_dirs rv) then Inl (FileNotFoundError (''contract root missing: '' @ relative))
          else Inr (filter (\<lambda>p. under dir p \<and> ends_with ''.json'' p) (map fst (rv_files rv))))"

definition contract_paths :: "repo_view \<Rightarrow> string list \<Rightarrow> py_error + string list" where
  "contract_paths rv roots = bindE (collect (root_contracts rv) roots) (\<lambda>pss. Inr (sorted_set (concat pss)))"

definition read_contract :: "repo_view \<Rightarrow> string \<Rightarrow> py_error + fields" where
  "read_contract rv path =
     (case map_of (rv_files rv) path of
        None \<Rightarrow> Inl (FileNotFoundError path)
      | Some None \<Rightarrow> Inl (ValueError ''invalid JSON'')
      | Some (Some (PyDict document)) \<Rightarrow>
          (case py_get_none document ''schema_version'' of
             PyInt _ \<Rightarrow> Inr document
           | PyStr _ \<Rightarrow> Inr document
           | _ \<Rightarrow> Inl (ValueError (''contract schema_version missing/invalid: '' @ path)))
      | Some (Some _) \<Rightarrow> Inl (ValueError (''contract must be a JSON object: '' @ path)))"

section \<open>Building the graph\<close>

record contract_walk =
  wk_documents :: "(string \<times> fields) list"
  wk_leaves :: "string list"
  wk_queue :: "(string \<times> bool) list"

text \<open>What one reference of a document adds to the queue.\<close>

definition queue_target ::
  "repo_view \<Rightarrow> string list \<Rightarrow> bool \<Rightarrow> string list \<Rightarrow> string \<Rightarrow> string \<Rightarrow> py_error + (string \<times> bool) list" where
  "queue_target rv roots allow known relative target =
     (if target = relative then Inr []
      else case rv_resolve rv target of
        None \<Rightarrow> Inl (ValueError (''contract reference escapes repository: '' @ relative @ '' -> '' @ target))
      | Some path \<Rightarrow>
          if path \<notin> set (map fst (rv_files rv))
          then Inl (FileNotFoundError (''missing contract dependency: '' @ relative @ '' -> '' @ target))
          else if \<not> inside_roots roots target \<and> \<not> allow
          then Inl (ValueError (''external contract dependency forbidden: '' @ relative @ '' -> '' @ target))
          else Inr (if target \<in> set known then [] else [(path, inside_roots roots target)]))"

definition walk_step :: "repo_view \<Rightarrow> string list \<Rightarrow> bool \<Rightarrow> contract_walk \<Rightarrow> py_error + contract_walk" where
  "walk_step rv roots allow st =
     (case wk_queue st of
        [] \<Rightarrow> Inr st
      | (relative, expand) # rest \<Rightarrow>
          if relative \<in> set (map fst (wk_documents st))
          then Inr (st\<lparr>wk_leaves := if expand then removeAll relative (wk_leaves st) else wk_leaves st, wk_queue := rest\<rparr>)
          else bindE (read_contract rv relative) (\<lambda>document.
            let documents = wk_documents st @ [(relative, document)] in
            if \<not> expand
            then Inr (st\<lparr>wk_documents := documents, wk_leaves := wk_leaves st @ [relative], wk_queue := rest\<rparr>)
            else bindE (collect (queue_target rv roots allow (map fst documents) relative) (contract_refs document))
              (\<lambda>targets. Inr (st\<lparr>wk_documents := documents, wk_queue := rest @ concat targets\<rparr>))))"

definition walk_more :: "py_error + contract_walk \<Rightarrow> bool" where
  "walk_more r = (case r of Inl _ \<Rightarrow> False | Inr st \<Rightarrow> wk_queue st \<noteq> [])"

definition start_walk :: "string list \<Rightarrow> contract_walk" where
  "start_walk paths = \<lparr>wk_documents = [], wk_leaves = [], wk_queue = map (\<lambda>p. (p, True)) paths\<rparr>"

definition walk_contracts ::
  "repo_view \<Rightarrow> string list \<Rightarrow> bool \<Rightarrow> string list \<Rightarrow> (py_error + contract_walk) option" where
  "walk_contracts rv roots allow paths =
     while_option walk_more (\<lambda>r. bindE r (walk_step rv roots allow)) (Inr (start_walk paths))"

record contract_node =
  cn_path :: string
  cn_schema :: pyval
  cn_family :: string
  cn_claim :: string
  cn_phase :: string
  cn_sha :: string

text \<open>\<open>str(document.get(key) or "")\<close>.\<close>

definition text_field :: "repo_view \<Rightarrow> fields \<Rightarrow> string \<Rightarrow> string" where
  "text_field rv document k =
     (let v = py_get_none document k in
      if py_truth v then (case v of PyStr s \<Rightarrow> s | _ \<Rightarrow> rv_str rv v) else '''')"

definition contract_node_of :: "(pyval \<Rightarrow> string) \<Rightarrow> repo_view \<Rightarrow> string \<times> fields \<Rightarrow> contract_node" where
  "contract_node_of sha rv = (\<lambda>(path, document).
     \<lparr>cn_path = path, cn_schema = py_get_none document ''schema_version'',
      cn_family = text_field rv document ''family'', cn_claim = text_field rv document ''claim'',
      cn_phase = text_field rv document ''phase'', cn_sha = digest sha (PyDict document)\<rparr>)"

definition node_edges ::
  "contract_walk \<Rightarrow> string \<times> fields \<Rightarrow> py_error + (string \<times> string) list" where
  "node_edges st = (\<lambda>(relative, document).
     if relative \<in> set (wk_leaves st) then Inr []
     else collect (\<lambda>dependency.
         if dependency \<notin> set (map fst (wk_documents st))
         then Inl (ValueError (''unresolved contract dependency: '' @ relative @ '' -> '' @ dependency))
         else Inr (relative, dependency))
       (filter (\<lambda>dependency. dependency \<noteq> relative) (contract_refs document)))"

record contract_graph =
  cg_roots :: "string list"
  cg_nodes :: "contract_node list"
  cg_edges :: "(string \<times> string) list"
  cg_leaves :: int
  cg_sha :: string

definition node_py :: "contract_node \<Rightarrow> pyval" where
  "node_py n = PyDict
     [(''path'', PyStr (cn_path n)), (''schema_version'', cn_schema n), (''family'', PyStr (cn_family n)),
      (''claim'', PyStr (cn_claim n)), (''phase'', PyStr (cn_phase n)), (''sha256'', PyStr (cn_sha n))]"

definition edge_py :: "string \<times> string \<Rightarrow> pyval" where
  "edge_py = (\<lambda>(src, tgt). PyDict [(''dependent'', PyStr src), (''dependency'', PyStr tgt)])"

definition graph_identity :: "string list \<Rightarrow> contract_node list \<Rightarrow> (string \<times> string) list \<Rightarrow> pyval" where
  "graph_identity roots nodes edges = PyDict
     [(''schema_version'', PyInt 1), (''roots'', py_strs roots), (''nodes'', PyList (map node_py nodes)),
      (''edges'', PyList (map edge_py edges))]"

definition graph_of_walk ::
  "(pyval \<Rightarrow> string) \<Rightarrow> repo_view \<Rightarrow> string list \<Rightarrow> contract_walk \<Rightarrow> py_error + contract_graph" where
  "graph_of_walk sha rv roots st =
     (let documents = sort_key fst (wk_documents st) in
      bindE (collect (node_edges st) documents) (\<lambda>edge_lists.
      let nodes = map (contract_node_of sha rv) documents; edges = sorted_set (concat edge_lists)
      in Inr \<lparr>cg_roots = roots, cg_nodes = nodes, cg_edges = edges,
           cg_leaves = int (length (wk_leaves st)), cg_sha = digest sha (graph_identity roots nodes edges)\<rparr>))"

definition build_graph ::
  "(pyval \<Rightarrow> string) \<Rightarrow> repo_view \<Rightarrow> string list \<Rightarrow> bool \<Rightarrow> (py_error + contract_graph) option" where
  "build_graph sha rv roots allow =
     (case bindE (make_roots roots) (\<lambda>rs. bindE (contract_paths rv rs) (\<lambda>paths. Inr (rs, paths))) of
        Inl e \<Rightarrow> Some (Inl e)
      | Inr (rs, paths) \<Rightarrow>
          map_option (\<lambda>r. bindE r (graph_of_walk sha rv rs)) (walk_contracts rv rs allow paths))"

definition graph_py :: "contract_graph \<Rightarrow> fields" where
  "graph_py g =
     [(''schema_version'', PyInt 1), (''claim'', PyStr ''RUNTIME_CONTRACT_VERSION_GRAPH_V1''),
      (''roots'', py_strs (cg_roots g)), (''node_count'', PyInt (int (length (cg_nodes g)))),
      (''edge_count'', PyInt (int (length (cg_edges g)))), (''metadata_leaf_count'', PyInt (cg_leaves g)),
      (''nodes'', PyList (map node_py (cg_nodes g))), (''edges'', PyList (map edge_py (cg_edges g))),
      (''graph_sha256'', PyStr (cg_sha g))]"

section \<open>Invalidation\<close>

fun snapshot_nodes :: "(string \<times> pyval) list \<Rightarrow> pyval list \<Rightarrow> py_error + (string \<times> pyval) list" where
  "snapshot_nodes known [] = Inr known"
| "snapshot_nodes known (raw # raws) =
     (case raw of
        PyDict kvs \<Rightarrow>
          (case py_get_none kvs ''path'' of
             PyStr path \<Rightarrow>
               if path \<in> set (map fst known) then Inl (ValueError (''duplicate contract graph node: '' @ path))
               else snapshot_nodes (known @ [(path, canon (PyDict kvs))]) raws
           | _ \<Rightarrow> Inl (ValueError ''invalid contract graph node''))
      | _ \<Rightarrow> Inl (ValueError ''invalid contract graph node''))"

definition snapshot_edge :: "pyval \<Rightarrow> py_error + string \<times> string" where
  "snapshot_edge raw =
     (case raw of
        PyDict kvs \<Rightarrow>
          (case (py_get_none kvs ''dependent'', py_get_none kvs ''dependency'') of
             (PyStr src, PyStr tgt) \<Rightarrow> Inr (src, tgt)
           | _ \<Rightarrow> Inl (ValueError ''invalid contract graph edge endpoints''))
      | _ \<Rightarrow> Inl (ValueError ''invalid contract graph edge''))"

definition snapshot_maps :: "fields \<Rightarrow> py_error + (string \<times> pyval) list \<times> (string \<times> string) list" where
  "snapshot_maps snapshot =
     (case (py_get_none snapshot ''nodes'', py_get_none snapshot ''edges'') of
        (PyList nodes, PyList edges) \<Rightarrow>
          bindE (snapshot_nodes [] nodes) (\<lambda>node_map.
          bindE (collect snapshot_edge edges) (\<lambda>edge_set. Inr (node_map, edge_set)))
      | _ \<Rightarrow> Inl (ValueError ''invalid contract graph snapshot''))"

definition sorted_dependents :: "(string \<times> string) list \<Rightarrow> string \<Rightarrow> string list" where
  "sorted_dependents edges dependency = sorted_set (map fst (filter (\<lambda>e. snd e = dependency) edges))"

text \<open>One turn of the loop: what the head of the queue adds to the affected contracts.\<close>

definition spread :: "('a \<Rightarrow> 'a list) \<Rightarrow> 'a list \<times> 'a list \<Rightarrow> 'a list \<times> 'a list" where
  "spread next_of = (\<lambda>(affected, queue). case queue of
     [] \<Rightarrow> (affected, queue)
   | x # rest \<Rightarrow> let new = filter (\<lambda>y. y \<notin> set affected) (next_of x) in (affected @ new, rest @ new))"

definition spread_all :: "('a \<Rightarrow> 'a list) \<Rightarrow> 'a list \<Rightarrow> ('a list \<times> 'a list) option" where
  "spread_all next_of seeds = while_option (\<lambda>(affected, queue). queue \<noteq> []) (spread next_of) (seeds, seeds)"

record invalidation =
  iv_added :: "string list"
  iv_removed :: "string list"
  iv_changed :: "string list"
  iv_invalidated :: "string list"
  iv_changed_count :: int
  iv_invalidated_count :: int
  iv_sha :: string

definition plan_identity :: "string list \<Rightarrow> string list \<Rightarrow> string list \<Rightarrow> string list \<Rightarrow> pyval" where
  "plan_identity added removed changed invalidated = PyDict
     [(''added_contracts'', py_strs added), (''removed_contracts'', py_strs removed),
      (''changed_contracts'', py_strs changed), (''invalidated_contracts'', py_strs invalidated)]"

definition changed_paths :: "(string \<times> pyval) list \<Rightarrow> (string \<times> pyval) list \<Rightarrow> string list" where
  "changed_paths before after =
     sorted_set (map fst (filter (\<lambda>(p, v). case map_of after p of None \<Rightarrow> False | Some w \<Rightarrow> \<not> py_same v w) before))"

definition added_paths :: "(string \<times> pyval) list \<Rightarrow> (string \<times> pyval) list \<Rightarrow> string list" where
  "added_paths before after = sorted_set (filter (\<lambda>p. p \<notin> set (map fst before)) (map fst after))"

definition seed_paths :: "(string \<times> pyval) list \<Rightarrow> (string \<times> pyval) list \<Rightarrow> string list" where
  "seed_paths before after =
     sorted_set (added_paths before after @ added_paths after before @ changed_paths before after)"

definition plan_of_maps ::
  "(pyval \<Rightarrow> string) \<Rightarrow> (string \<times> pyval) list \<times> (string \<times> string) list \<Rightarrow>
   (string \<times> pyval) list \<times> (string \<times> string) list \<Rightarrow> invalidation option" where
  "plan_of_maps sha previous current =
     (let (before, before_edges) = previous; (after, after_edges) = current;
          added = added_paths before after; removed = added_paths after before;
          changed = changed_paths before after; seeds = seed_paths before after
      in map_option (\<lambda>(affected, _).
           let invalidated = sorted_set (filter (\<lambda>p. p \<in> set (map fst after)) affected) in
           \<lparr>iv_added = added, iv_removed = removed, iv_changed = changed, iv_invalidated = invalidated,
            iv_changed_count = int (length seeds), iv_invalidated_count = int (length invalidated),
            iv_sha = digest sha (plan_identity added removed changed invalidated)\<rparr>)
         (spread_all (sorted_dependents (before_edges @ after_edges)) seeds))"

definition invalidation_plan ::
  "(pyval \<Rightarrow> string) \<Rightarrow> fields \<Rightarrow> fields \<Rightarrow> (py_error + invalidation) option" where
  "invalidation_plan sha previous current =
     (case bindE (snapshot_maps previous) (\<lambda>p. bindE (snapshot_maps current) (\<lambda>c. Inr (p, c))) of
        Inl e \<Rightarrow> Some (Inl e)
      | Inr (p, c) \<Rightarrow> map_option Inr (plan_of_maps sha p c))"

definition current_invalidation_plan ::
  "(pyval \<Rightarrow> string) \<Rightarrow> repo_view \<Rightarrow> string list \<Rightarrow> bool \<Rightarrow> fields \<Rightarrow> (py_error + invalidation) option" where
  "current_invalidation_plan sha rv roots allow previous =
     (case build_graph sha rv roots allow of
        None \<Rightarrow> None
      | Some (Inl e) \<Rightarrow> Some (Inl e)
      | Some (Inr g) \<Rightarrow> invalidation_plan sha previous (graph_py g))"

section \<open>Spreading along a finite relation ends, in its closure\<close>

definition next_rel :: "('a \<Rightarrow> 'a list) \<Rightarrow> ('a \<times> 'a) set" where
  "next_rel next_of = {(x, y). y \<in> set (next_of x)}"

locale finite_next =
  fixes next_of :: "'a \<Rightarrow> 'a list" and bound :: "'a list"
  assumes next_bound: "set (next_of x) \<subseteq> set bound" and next_distinct: "distinct (next_of x)"
begin

definition spread_inv :: "'a list \<Rightarrow> 'a list \<times> 'a list \<Rightarrow> bool" where
  "spread_inv seeds = (\<lambda>(affected, queue). set queue \<subseteq> set affected \<and> set seeds \<subseteq> set affected \<and>
     set affected \<subseteq> (next_rel next_of)\<^sup>* `` set seeds \<and> set affected \<subseteq> set seeds \<union> set bound \<and>
     (\<forall>x \<in> set affected - set queue. set (next_of x) \<subseteq> set affected))"

definition spread_size :: "'a list \<Rightarrow> 'a list \<times> 'a list \<Rightarrow> nat" where
  "spread_size seeds = (\<lambda>(affected, queue). length queue + card ((set seeds \<union> set bound) - set affected))"

lemma spread_inv_step:
  assumes "spread_inv seeds (affected, x # rest)"
  shows "spread_inv seeds (spread next_of (affected, x # rest))"
proof -
  have x: "x \<in> (next_rel next_of)\<^sup>* `` set seeds" using assms by (auto simp: spread_inv_def)
  have "set (next_of x) \<subseteq> (next_rel next_of)\<^sup>* `` set seeds"
  proof
    fix y
    assume "y \<in> set (next_of x)"
    then have "(x, y) \<in> next_rel next_of" by (simp add: next_rel_def)
    then show "y \<in> (next_rel next_of)\<^sup>* `` set seeds" using x by (meson ImageE ImageI rtrancl_into_rtrancl)
  qed
  then show ?thesis using assms next_bound[of x] by (auto simp: spread_inv_def spread_def Let_def)
qed

lemma spread_size_step:
  assumes "spread_inv seeds (affected, x # rest)"
  shows "spread_size seeds (spread next_of (affected, x # rest)) < spread_size seeds (affected, x # rest)"
proof -
  let ?new = "filter (\<lambda>y. y \<notin> set affected) (next_of x)" and ?U = "set seeds \<union> set bound"
  have len: "card (set ?new) = length ?new" by (rule distinct_card) (simp add: next_distinct)
  have "card (?U - set (affected @ ?new)) = card ((?U - set affected) - set ?new)"
    by (rule arg_cong[where f = card]) auto
  also have "\<dots> = card (?U - set affected) - card (set ?new)"
    using next_bound[of x] by (intro card_Diff_subset) auto
  finally have "card (?U - set (affected @ ?new)) = card (?U - set affected) - length ?new"
    by (simp only: len)
  moreover have "length ?new \<le> card (?U - set affected)"
    unfolding len[symmetric] using next_bound[of x] by (intro card_mono) auto
  ultimately show ?thesis by (simp add: spread_size_def spread_def Let_def)
qed

lemma spread_all_closure:
  shows "\<exists>affected. spread_all next_of seeds = Some (affected, []) \<and>
    set affected = (next_rel next_of)\<^sup>* `` set seeds"
proof -
  have start: "spread_inv seeds (seeds, seeds)" by (auto simp: spread_inv_def)
  have "\<exists>t. spread_all next_of seeds = Some t" unfolding spread_all_def
  proof (rule measure_while_option_Some[where P = "spread_inv seeds" and f = "spread_size seeds"])
    fix s
    assume s: "spread_inv seeds s" "case s of (affected, queue) \<Rightarrow> queue \<noteq> []"
    obtain affected x rest where "s = (affected, x # rest)"
      using s(2) by (cases s; cases "snd s") auto
    then show "spread_inv seeds (spread next_of s) \<and> spread_size seeds (spread next_of s) < spread_size seeds s"
      using s(1) by (simp only: spread_inv_step spread_size_step simp_thms)
  qed (rule start)
  then obtain affected queue where t: "spread_all next_of seeds = Some (affected, queue)" by auto
  have "queue = []" using while_option_stop[OF t[unfolded spread_all_def]] by simp
  moreover have "spread_inv seeds (affected, queue)"
  proof (rule while_option_rule[where P = "spread_inv seeds", OF _ t[unfolded spread_all_def] start])
    fix s
    assume s: "spread_inv seeds s" "case s of (affected, queue) \<Rightarrow> queue \<noteq> []"
    obtain affected x rest where "s = (affected, x # rest)"
      using s(2) by (cases s; cases "snd s") auto
    then show "spread_inv seeds (spread next_of s)" using s(1) by (simp only: spread_inv_step)
  qed
  ultimately have inv: "spread_inv seeds (affected, [])" by simp
  then have "next_rel next_of `` set affected \<subseteq> set affected"
    by (auto simp: spread_inv_def next_rel_def)
  then have "(next_rel next_of)\<^sup>* `` set affected = set affected" by (rule Image_closed_trancl)
  moreover have "(next_rel next_of)\<^sup>* `` set seeds \<subseteq> (next_rel next_of)\<^sup>* `` set affected"
    using inv by (intro Image_mono) (auto simp: spread_inv_def)
  ultimately have "set affected = (next_rel next_of)\<^sup>* `` set seeds"
    using inv by (auto simp: spread_inv_def)
  then show ?thesis using t \<open>queue = []\<close> by simp
qed

end

text \<open>The dependents of a contract are among the contracts with edges.\<close>

interpretation dependents: finite_next "sorted_dependents edges" "map fst edges" for edges
  by unfold_locales (auto simp: sorted_dependents_def)

lemma next_rel_dependents: "next_rel (sorted_dependents edges) = {(y, x). (x, y) \<in> set edges}"
  by (auto simp: next_rel_def sorted_dependents_def image_iff)
section \<open>The walk over the contracts ends\<close>

definition refs_at :: "repo_view \<Rightarrow> string \<Rightarrow> nat" where
  "refs_at rv path = (case read_contract rv path of Inl _ \<Rightarrow> 0 | Inr document \<Rightarrow> length (contract_refs document))"

definition unread :: "repo_view \<Rightarrow> contract_walk \<Rightarrow> string set" where
  "unread rv st = set (map fst (rv_files rv)) - set (map fst (wk_documents st))"

definition walk_size :: "repo_view \<Rightarrow> py_error + contract_walk \<Rightarrow> nat" where
  "walk_size rv r = (case r of Inl _ \<Rightarrow> 0
     | Inr st \<Rightarrow> length (wk_queue st) + (\<Sum>p \<in> unread rv st. Suc (refs_at rv p)))"

lemma read_contract_file: "read_contract rv p = Inr d \<Longrightarrow> p \<in> set (map fst (rv_files rv))"
  by (auto simp: read_contract_def dest: map_of_SomeD split: option.splits intro: rev_image_eqI)

lemma length_queue_target: "queue_target rv roots allow known p t = Inr qs \<Longrightarrow> length qs \<le> 1"
  by (auto simp: queue_target_def split: if_splits option.splits)

lemma length_targets:
  assumes "collect (queue_target rv roots allow known p) ts = Inr qss"
  shows "length (concat qss) \<le> length ts"
proof -
  have "list_all2 (\<lambda>t qs. queue_target rv roots allow known p t = Inr qs) ts qss"
    using assms by (simp add: collect_Inr)
  then show ?thesis
    by (induction rule: list_all2_induct) (auto dest!: length_queue_target)
qed

text \<open>The three ways a turn of the loop succeeds.\<close>

lemma walk_step_cases:
  assumes "walk_step rv roots allow st = Inr st'" and "wk_queue st = (p, expand) # rest"
  obtains
    (known) "p \<in> set (map fst (wk_documents st))" "wk_documents st' = wk_documents st" "wk_queue st' = rest"
      "wk_leaves st' = (if expand then removeAll p (wk_leaves st) else wk_leaves st)"
  | (leaf) document where "\<not> expand" "p \<notin> set (map fst (wk_documents st))" "read_contract rv p = Inr document"
      "wk_documents st' = wk_documents st @ [(p, document)]" "wk_queue st' = rest" "wk_leaves st' = wk_leaves st @ [p]"
  | (expanded) document targets where "expand" "p \<notin> set (map fst (wk_documents st))" "read_contract rv p = Inr document"
      "wk_documents st' = wk_documents st @ [(p, document)]" "wk_queue st' = rest @ concat targets"
      "wk_leaves st' = wk_leaves st"
      "collect (queue_target rv roots allow (map fst (wk_documents st')) p) (contract_refs document) = Inr targets"
proof (cases "p \<in> set (map fst (wk_documents st))")
  case True
  then show thesis using known assms by (auto simp: walk_step_def)
next
  case False
  then obtain document where "read_contract rv p = Inr document"
    using assms by (auto simp: walk_step_def)
  then show thesis
    using leaf expanded assms False by (cases expand) (auto simp: walk_step_def Let_def)
qed

lemma unread_read:
  assumes "read_contract rv p = Inr document" and "p \<notin> set (map fst (wk_documents st))"
    and "wk_documents st' = wk_documents st @ [(p, document)]"
  shows "(\<Sum>q \<in> unread rv st. Suc (refs_at rv q)) =
    Suc (length (contract_refs document)) + (\<Sum>q \<in> unread rv st'. Suc (refs_at rv q))"
proof -
  have "unread rv st = insert p (unread rv st')" "p \<notin> unread rv st'"
    using assms read_contract_file[OF assms(1)] by (auto simp: unread_def)
  moreover have "finite (unread rv st')" by (simp add: unread_def)
  moreover have "refs_at rv p = length (contract_refs document)" by (simp add: refs_at_def assms(1))
  ultimately show ?thesis by simp
qed

lemma walk_step_size:
  assumes "walk_step rv roots allow st = Inr st'" and "wk_queue st = (p, expand) # rest"
  shows "walk_size rv (Inr st') < walk_size rv (Inr st)"
  using assms
proof (cases rule: walk_step_cases)
  case known
  then have "unread rv st' = unread rv st" by (simp add: unread_def)
  then show ?thesis using known assms(2) by (simp add: walk_size_def)
next
  case (leaf document)
  show ?thesis using unread_read[OF leaf(3,2,4)] leaf(5) assms(2) by (simp add: walk_size_def)
next
  case (expanded document targets)
  have "length (concat targets) \<le> length (contract_refs document)" using expanded(7) by (rule length_targets)
  then show ?thesis using unread_read[OF expanded(3,2,4)] expanded(5) assms(2) by (simp add: walk_size_def)
qed

lemma walk_more_Inr: "walk_more r \<Longrightarrow> \<exists>st p expand rest. r = Inr st \<and> wk_queue st = (p, expand) # rest"
  by (cases r) (auto simp: walk_more_def neq_Nil_conv)

lemma walk_returns: "\<exists>r. walk_contracts rv roots allow paths = Some r"
  unfolding walk_contracts_def
proof (rule measure_while_option_Some[where P = "\<lambda>_. True" and f = "walk_size rv"])
  fix r
  assume "walk_more r"
  then obtain st p expand rest where r: "r = Inr st" "wk_queue st = (p, expand) # rest"
    using walk_more_Inr by blast
  have "walk_size rv (walk_step rv roots allow st) < walk_size rv (Inr st)"
  proof (cases "walk_step rv roots allow st")
    case (Inl e)
    then show ?thesis using r(2) by (simp add: walk_size_def)
  next
    case (Inr st')
    then show ?thesis using walk_step_size[OF _ r(2)] by simp
  qed
  then show "True \<and> walk_size rv (bindE r (walk_step rv roots allow)) < walk_size rv r" using r(1) by simp
qed simp

lemma build_returns: "\<exists>r. build_graph sha rv roots allow = Some r"
  using walk_returns by (fastforce simp: build_graph_def split: sum.splits)

section \<open>What the walk finds\<close>

text \<open>The dependency relation of the repository, and what every state of the walk satisfies.\<close>

definition depends :: "repo_view \<Rightarrow> (string \<times> string) set" where
  "depends rv = {(p, q). \<exists>d t. read_contract rv p = Inr d \<and> t \<in> set (contract_refs d) \<and> rv_resolve rv t = Some q}"

definition walk_inv :: "repo_view \<Rightarrow> string list \<Rightarrow> contract_walk \<Rightarrow> bool" where
  "walk_inv rv starts st \<longleftrightarrow>
     distinct (map fst (wk_documents st)) \<and> (\<forall>(p, d) \<in> set (wk_documents st). read_contract rv p = Inr d) \<and>
     set (map fst (wk_documents st)) \<union> set (map fst (wk_queue st)) \<subseteq> (depends rv)\<^sup>* `` set starts \<and>
     set (wk_leaves st) \<inter> set starts = {} \<and>
     (\<exists>todo others. wk_queue st = map (\<lambda>p. (p, True)) todo @ others \<and>
        set starts \<subseteq> set (map fst (wk_documents st)) \<union> set todo)"

lemma walk_inv_start: "walk_inv rv starts (start_walk starts)"
  by (auto simp: walk_inv_def start_walk_def)
    
lemma target_depends:
  assumes "read_contract rv p = Inr document" and "collect (queue_target rv roots allow known p) (contract_refs document) = Inr qss"
    and "(q, e) \<in> set (concat qss)"
  shows "(p, q) \<in> depends rv"
proof -
  have "list_all2 (\<lambda>t qs. queue_target rv roots allow known p t = Inr qs) (contract_refs document) qss"
    using assms(2) by (simp add: collect_Inr)
  moreover obtain qs where qs: "qs \<in> set qss" "(q, e) \<in> set qs" using assms(3) by auto
  ultimately obtain t where t: "t \<in> set (contract_refs document)" "queue_target rv roots allow known p t = Inr qs"
    by (auto dest: list_all2_memR)
  then have "rv_resolve rv t = Some q" using qs(2)
    by (auto simp: queue_target_def split: if_splits option.splits)
  then show ?thesis using t(1) assms(1) by (auto simp: depends_def)
qed
lemma walk_inv_step:
  assumes inv: "walk_inv rv starts st" and q: "wk_queue st = (p, expand) # rest"
    and step: "walk_step rv roots allow st = Inr st'"
  shows "walk_inv rv starts st'"
proof -
  let ?R = "(depends rv)\<^sup>* `` set starts" and ?known = "\<lambda>st. set (map fst (wk_documents st))"
  obtain todo others where todo: "wk_queue st = map (\<lambda>p. (p, True)) todo @ others"
    "set starts \<subseteq> ?known st \<union> set todo" using inv by (auto simp: walk_inv_def)
  have p: "p \<in> ?R" using inv q by (auto simp: walk_inv_def)
  have left: "\<exists>todo' others'. rest @ more = map (\<lambda>p. (p, True)) todo' @ others' \<and>
      set starts \<subseteq> insert p (?known st) \<union> set todo'" for more
  proof (cases todo)
    case Nil
    then show ?thesis using todo by (intro exI[of _ "[]"] exI[of _ "rest @ more"]) auto
  next
    case (Cons q todo')
    then show ?thesis using todo q by (intro exI[of _ todo'] exI[of _ "others @ more"]) auto
  qed
  show ?thesis using step q
  proof (cases rule: walk_step_cases)
    case known
    then show ?thesis using inv q left[of "[]"] by (auto simp: walk_inv_def)
  next
    case (leaf document)
    have "p \<notin> set starts"
    proof
      assume "p \<in> set starts"
      then have "p \<in> set todo" using leaf(2) todo(2) by auto
      then have "todo \<noteq> []" by auto
      then show False using todo(1) q leaf(1) by (cases todo) auto
    qed
    then show ?thesis using inv q leaf p left[of "[]"] by (auto simp: walk_inv_def)
  next
    case (expanded document targets)
    have "set (map fst (concat targets)) \<subseteq> ?R"
    proof
      fix t
      assume "t \<in> set (map fst (concat targets))"
      then obtain e where "(t, e) \<in> set (concat targets)" by (auto simp del: set_concat)
      then have "(p, t) \<in> depends rv" by (rule target_depends[OF expanded(3,7)])
      then show "t \<in> ?R" using p by (meson ImageE ImageI rtrancl_into_rtrancl)
    qed
    then show ?thesis using inv q expanded p left[of "concat targets"]
      unfolding walk_inv_def expanded(4-6) by auto
  qed
qed

lemma walk_found:
  assumes "walk_contracts rv roots allow starts = Some (Inr st)"
  shows "walk_inv rv starts st" and "wk_queue st = []"
proof -
  note w = assms[unfolded walk_contracts_def]
  show "wk_queue st = []" using while_option_stop[OF w] by (simp add: walk_more_def)
  define P where "P r \<longleftrightarrow> (\<forall>st. r = Inr st \<longrightarrow> walk_inv rv starts st)" for r :: "py_error + contract_walk"
  have "P (Inr st)"
  proof (rule while_option_rule[where P = P, OF _ w])
    fix r
    assume r: "P r" "walk_more r"
    then obtain st p expand rest where st: "r = Inr st" "wk_queue st = (p, expand) # rest"
      using walk_more_Inr by blast
    show "P (bindE r (walk_step rv roots allow))"
      using r(1) st walk_inv_step[OF _ st(2)] by (auto simp: P_def)
  qed (simp add: P_def walk_inv_start)
  then show "walk_inv rv starts st" by (simp add: P_def)
qed

text \<open>The edges of a document whose references are all known.\<close>

definition kept_edges :: "contract_walk \<Rightarrow> string \<times> fields \<Rightarrow> (string \<times> string) list" where
  "kept_edges st = (\<lambda>(p, d). map (Pair p)
     (if p \<in> set (wk_leaves st) then [] else filter (\<lambda>t. t \<noteq> p) (contract_refs d)))"

lemma node_edges_Inr:
  assumes "node_edges st pd = Inr es"
  shows "es = kept_edges st pd \<and> (\<forall>e \<in> set es. snd e \<in> set (map fst (wk_documents st)))"
proof (cases pd)
  case (Pair p d)
  show ?thesis
  proof (cases "p \<in> set (wk_leaves st)")
    case True
    then show ?thesis using assms Pair by (simp add: node_edges_def kept_edges_def)
  next
    case False
    then have "list_all2 (\<lambda>t e. e = (p, t) \<and> t \<in> set (map fst (wk_documents st)))
        (filter (\<lambda>t. t \<noteq> p) (contract_refs d)) es"
      using assms Pair by (auto simp: node_edges_def collect_Inr split: if_splits elim!: list_all2_mono)
    then have "es = map (Pair p) (filter (\<lambda>t. t \<noteq> p) (contract_refs d)) \<and>
        (\<forall>e \<in> set es. snd e \<in> set (map fst (wk_documents st)))"
      by (induction rule: list_all2_induct) auto
    then show ?thesis using False Pair by (simp add: kept_edges_def)
  qed
qed

text \<open>A graph that was built comes from a finished walk.\<close>

lemma build_graph_Inr:
  assumes "build_graph sha rv roots allow = Some (Inr g)"
  obtains paths st where "contract_paths rv (fromkeys roots) = Inr paths" "roots \<noteq> []"
    "walk_contracts rv (fromkeys roots) allow paths = Some (Inr st)" "graph_of_walk sha rv (fromkeys roots) st = Inr g"
proof -
  have "roots \<noteq> []" using assms by (auto simp: build_graph_def make_roots_def)
  moreover obtain paths where p: "contract_paths rv (fromkeys roots) = Inr paths"
    using assms \<open>roots \<noteq> []\<close>
    by (cases "contract_paths rv (fromkeys roots)") (auto simp: build_graph_def make_roots_def)
  moreover obtain r where "walk_contracts rv (fromkeys roots) allow paths = Some r" using walk_returns by blast
  ultimately show thesis using that assms by (cases r) (auto simp: build_graph_def make_roots_def)
qed

lemma graph_of_walk_Inr:
  assumes "graph_of_walk sha rv roots st = Inr g" and "distinct (map fst (wk_documents st))"
  shows "map cn_path (cg_nodes g) = sorted_set (map fst (wk_documents st))"
    and "set (cg_edges g) = {(p, t). \<exists>d. (p, d) \<in> set (wk_documents st) \<and> p \<notin> set (wk_leaves st) \<and>
      t \<in> set (contract_refs d) \<and> t \<noteq> p}"
    and "(p, t) \<in> set (cg_edges g) \<Longrightarrow> t \<in> set (map fst (wk_documents st))"
proof -
  let ?docs = "sort_key fst (wk_documents st)"
  obtain edge_lists where e: "collect (node_edges st) ?docs = Inr edge_lists"
    and g: "cg_nodes g = map (contract_node_of sha rv) ?docs" "cg_edges g = sorted_set (concat edge_lists)"
    using assms(1) by (auto simp: graph_of_walk_def Let_def)
  have "map cn_path (cg_nodes g) = map fst ?docs"
    by (simp add: g contract_node_of_def case_prod_beta comp_def)
  also have "\<dots> = sorted_set (map fst (wk_documents st))"
    by (rule sorted_distinct_set_unique) (use distinct_map_sort_filter[OF assms(2), of fst "\<lambda>_. True"] in auto)
  finally show "map cn_path (cg_nodes g) = sorted_set (map fst (wk_documents st))" .
  have "list_all2 (\<lambda>pd es. node_edges st pd = Inr es) ?docs edge_lists" using e by (simp add: collect_Inr)
  then have el: "edge_lists = map (kept_edges st) ?docs \<and>
      (\<forall>e \<in> set (concat edge_lists). snd e \<in> set (map fst (wk_documents st)))"
    by (induction rule: list_all2_induct) (auto dest!: node_edges_Inr)
  show "set (cg_edges g) = {(p, t). \<exists>d. (p, d) \<in> set (wk_documents st) \<and> p \<notin> set (wk_leaves st) \<and>
      t \<in> set (contract_refs d) \<and> t \<noteq> p}"
    by (auto simp: g el kept_edges_def split: if_splits)
  show "(p, t) \<in> set (cg_edges g) \<Longrightarrow> t \<in> set (map fst (wk_documents st))"
    using el by (force simp: g)
qed
section \<open>Snapshots\<close>

lemma snapshot_nodes_Inr:
  assumes "snapshot_nodes known raws = Inr node_map" and "distinct (map fst known)"
  shows "distinct (map fst node_map)"
  using assms
  by (induction known raws rule: snapshot_nodes.induct) (auto split: pyval.splits if_splits)

lemma snapshot_maps_distinct: "snapshot_maps snapshot = Inr (node_map, edges) \<Longrightarrow> distinct (map fst node_map)"
  by (auto simp: snapshot_maps_def split: pyval.splits dest: snapshot_nodes_Inr)

text \<open>A path whose contract was added, removed, or differs.\<close>

definition node_differs :: "(string \<times> pyval) list \<Rightarrow> (string \<times> pyval) list \<Rightarrow> string \<Rightarrow> bool" where
  "node_differs before after p \<longleftrightarrow>
     (case (map_of before p, map_of after p) of
        (None, None) \<Rightarrow> False | (Some v, Some w) \<Rightarrow> \<not> py_same v w | _ \<Rightarrow> True)"

lemma set_seed_paths:
  assumes "distinct (map fst before)"
  shows "set (seed_paths before after) = {p. node_differs before after p}"
proof -
  have changed: "p \<in> set (changed_paths before after) \<longleftrightarrow>
      (\<exists>v w. map_of before p = Some v \<and> map_of after p = Some w \<and> \<not> py_same v w)" for p
  proof -
    have "p \<in> set (changed_paths before after) \<longleftrightarrow>
        (\<exists>v. (p, v) \<in> set before \<and> (case map_of after p of None \<Rightarrow> False | Some w \<Rightarrow> \<not> py_same v w))"
      by (simp add: changed_paths_def image_iff Bex_def)
    also have "\<dots> \<longleftrightarrow> (\<exists>v. map_of before p = Some v \<and> (case map_of after p of None \<Rightarrow> False | Some w \<Rightarrow> \<not> py_same v w))"
      using assms by simp
    finally show ?thesis by (cases "map_of after p") auto
  qed
  have added: "p \<in> set (added_paths m n) \<longleftrightarrow> map_of m p = None \<and> map_of n p \<noteq> None" for p and m n :: "(string \<times> pyval) list"
    by (auto simp: added_paths_def map_of_eq_None_iff)
  have "p \<in> set (seed_paths before after) \<longleftrightarrow> node_differs before after p" for p
    unfolding seed_paths_def set_sorted_set set_append Un_iff changed added node_differs_def
    by (cases "map_of before p"; cases "map_of after p") simp_all
  then show ?thesis by blast
qed

lemma plan_of_maps_exact:
  assumes "distinct (map fst before)"
  shows "\<exists>plan. plan_of_maps sha (before, be) (after, ae) = Some plan \<and>
    set (iv_invalidated plan) = {p \<in> set (map fst after).
      \<exists>s. node_differs before after s \<and> (p, s) \<in> (set be \<union> set ae)\<^sup>*} \<and>
    sorted (iv_invalidated plan) \<and> iv_changed_count plan = int (length (seed_paths before after)) \<and>
    iv_invalidated_count plan = int (card (set (iv_invalidated plan)))"
proof -
  let ?E = "be @ ae"
  obtain affected where a: "spread_all (sorted_dependents ?E) (seed_paths before after) = Some (affected, [])"
    "set affected = (next_rel (sorted_dependents ?E))\<^sup>* `` set (seed_paths before after)"
    using dependents.spread_all_closure by blast
  have "next_rel (sorted_dependents ?E) = (set be \<union> set ae)\<inverse>"
    by (auto simp: next_rel_dependents)
  then have "p \<in> set affected \<longleftrightarrow> (\<exists>s. node_differs before after s \<and> (p, s) \<in> (set be \<union> set ae)\<^sup>*)" for p
    unfolding a(2) set_seed_paths[OF assms] by (auto simp: rtrancl_converse)
  then show ?thesis
    by (auto simp: plan_of_maps_def Let_def a(1) distinct_card[symmetric])
qed

lemma invalidation_plan_exact:
  assumes "snapshot_maps previous = Inr (before, be)" and "snapshot_maps current = Inr (after, ae)"
  shows "\<exists>plan. invalidation_plan sha previous current = Some (Inr plan) \<and>
    set (iv_invalidated plan) = {p \<in> set (map fst after).
      \<exists>s. node_differs before after s \<and> (p, s) \<in> (set be \<union> set ae)\<^sup>*} \<and>
    sorted (iv_invalidated plan) \<and> iv_changed_count plan = int (length (seed_paths before after)) \<and>
    iv_invalidated_count plan = int (card (set (iv_invalidated plan)))"
  using plan_of_maps_exact[OF snapshot_maps_distinct[OF assms(1)], of sha be after ae] assms
  by (auto simp: invalidation_plan_def)

text \<open>The snapshot of a graph that was built is well formed.\<close>

lemma snapshot_nodes_py:
  "distinct (map fst known @ map cn_path nodes) \<Longrightarrow>
   snapshot_nodes known (map node_py nodes) = Inr (known @ map (\<lambda>n. (cn_path n, canon (node_py n))) nodes)"
proof (induction nodes arbitrary: known)
  case (Cons n nodes)
  obtain kvs where kvs: "node_py n = PyDict kvs" "py_get_none kvs ''path'' = PyStr (cn_path n)"
    by (simp add: node_py_def py_get_none_def)
  have "cn_path n \<notin> set (map fst known)" using Cons.prems by auto
  then have "snapshot_nodes known (map node_py (n # nodes)) =
      snapshot_nodes (known @ [(cn_path n, canon (node_py n))]) (map node_py nodes)"
    using kvs by (simp del: canon.simps)
  also have "\<dots> = Inr ((known @ [(cn_path n, canon (node_py n))]) @ map (\<lambda>n. (cn_path n, canon (node_py n))) nodes)"
    using Cons.prems by (intro Cons.IH) auto
  finally show ?case by simp
qed simp

lemma snapshot_edge_py [simp]: "snapshot_edge (edge_py e) = Inr e"
  by (simp add: snapshot_edge_def edge_py_def py_get_none_def case_prod_beta)

lemma collect_edges_py: "collect snapshot_edge (map edge_py es) = Inr es"
  by (induction es) simp_all

lemma built_graph_snapshot:
  assumes "build_graph sha rv roots allow = Some (Inr g)"
  shows "snapshot_maps (graph_py g) = Inr (map (\<lambda>n. (cn_path n, canon (node_py n))) (cg_nodes g), cg_edges g)"
  using assms
proof (rule build_graph_Inr)
  fix paths st
  assume w: "walk_contracts rv (fromkeys roots) allow paths = Some (Inr st)" "graph_of_walk sha rv (fromkeys roots) st = Inr g"
  have "distinct (map cn_path (cg_nodes g))"
    using graph_of_walk_Inr(1)[OF w(2)] walk_found(1)[OF w(1)] by (simp add: walk_inv_def)
  then have "snapshot_nodes [] (map node_py (cg_nodes g)) = Inr (map (\<lambda>n. (cn_path n, canon (node_py n))) (cg_nodes g))"
    using snapshot_nodes_py[of "[]"] by simp
  moreover have "py_get_none (graph_py g) ''nodes'' = PyList (map node_py (cg_nodes g))"
    "py_get_none (graph_py g) ''edges'' = PyList (map edge_py (cg_edges g))"
    by (simp_all add: graph_py_def py_get_none_def)
  ultimately show ?thesis by (simp add: snapshot_maps_def collect_edges_py)
qed
section \<open>Properties\<close>

text \<open>
  C27. Both loops end whatever the repository and whatever the documents refer to, cycles and
  repeated references included: building the graph returns a graph or raises, and so does planning
  an invalidation.
\<close>

theorem contract_loops_return:
  "(\<exists>r. build_graph sha rv roots allow = Some r) \<and> (\<exists>r. invalidation_plan sha previous current = Some r) \<and>
   (\<exists>r. current_invalidation_plan sha rv roots allow previous = Some r)"
proof -
  have plan: "\<exists>r. invalidation_plan sha previous c = Some r" for c
  proof (cases "snapshot_maps previous"; cases "snapshot_maps c")
    fix p q
    assume "snapshot_maps previous = Inr p" "snapshot_maps c = Inr q"
    then show ?thesis
      using invalidation_plan_exact[of previous "fst p" "snd p" c "fst q" "snd q" sha] by auto
  qed (auto simp: invalidation_plan_def)
  obtain r where "build_graph sha rv roots allow = Some r" using build_returns by blast
  then have "\<exists>r. current_invalidation_plan sha rv roots allow previous = Some r"
    using plan by (cases r) (auto simp: current_invalidation_plan_def)
  then show ?thesis using build_returns plan by blast
qed

text \<open>
  A graph that was built has every contract under the roots and nothing that these do not
  depend on, its nodes are sorted and distinct, both ends of every edge are nodes, and the edges of a
  contract under the roots are exactly its references to other contracts.
\<close>

theorem contract_graph_complete:
  assumes "build_graph sha rv roots allow = Some (Inr g)" and "contract_paths rv (fromkeys roots) = Inr paths"
  defines "nodes \<equiv> set (map cn_path (cg_nodes g))"
  shows "set paths \<subseteq> nodes \<and> nodes \<subseteq> (depends rv)\<^sup>* `` set paths \<and>
    sorted (map cn_path (cg_nodes g)) \<and> distinct (map cn_path (cg_nodes g)) \<and>
    set (cg_edges g) \<subseteq> nodes \<times> nodes \<and>
    (\<forall>p \<in> set paths. \<exists>d. read_contract rv p = Inr d \<and>
      {t. (p, t) \<in> set (cg_edges g)} = set (contract_refs d) - {p})"
proof -
  obtain st where w: "walk_contracts rv (fromkeys roots) allow paths = Some (Inr st)"
    "graph_of_walk sha rv (fromkeys roots) st = Inr g"
    using build_graph_Inr[OF assms(1)] assms(2) by (metis sum.inject(2))
  note inv = walk_found(1)[OF w(1), unfolded walk_inv_def]
  note graph = graph_of_walk_Inr[OF w(2) conjunct1[OF inv]]
  have nodes: "nodes = set (map fst (wk_documents st))" by (simp add: nodes_def graph(1) flip: set_map)
  have paths: "set paths \<subseteq> nodes \<and> nodes \<subseteq> (depends rv)\<^sup>* `` set paths"
    unfolding nodes using inv walk_found(2)[OF w(1)] by auto
  have edges: "set (cg_edges g) \<subseteq> nodes \<times> nodes"
  proof
    fix e
    assume e: "e \<in> set (cg_edges g)"
    then have "fst e \<in> nodes" unfolding nodes graph(2) set_map by (rule CollectE) force
    moreover have "snd e \<in> nodes" unfolding nodes using graph(3)[of "fst e" "snd e"] e by simp
    ultimately show "e \<in> nodes \<times> nodes" by (simp add: mem_Times_iff)
  qed
  have "\<exists>d. read_contract rv p = Inr d \<and> {t. (p, t) \<in> set (cg_edges g)} = set (contract_refs d) - {p}"
    if p: "p \<in> set paths" for p
  proof -
    obtain d where d: "(p, d) \<in> set (wk_documents st)" using p paths unfolding nodes by force
    have unique: "(p, d') \<in> set (wk_documents st) \<longleftrightarrow> d' = d" for d'
      using d conjunct1[OF inv] by (metis eq_key_imp_eq_value)
    have "read_contract rv p = Inr d" using inv d by auto
    moreover have "p \<notin> set (wk_leaves st)" using inv p by auto
    then have "{t. (p, t) \<in> set (cg_edges g)} = set (contract_refs d) - {p}"
      unfolding graph(2) by (simp add: unique set_eq_iff)
    ultimately show ?thesis by blast
  qed
  then show ?thesis using paths edges unfolding graph(1) by (simp only: sorted_sorted_set simp_thms) blast
qed

text \<open>
  C24. The invalidated contracts are exactly those of the current snapshot that depend, through any
  number of edges of either snapshot, on a contract that was added, removed or changed.
\<close>

theorem invalidation_exact:
  assumes "snapshot_maps previous = Inr (before, before_edges)" and "snapshot_maps current = Inr (after, after_edges)"
  shows "\<exists>plan. invalidation_plan sha previous current = Some (Inr plan) \<and> sorted (iv_invalidated plan) \<and>
    set (iv_invalidated plan) = {p \<in> set (map fst after).
      \<exists>s. node_differs before after s \<and> (p, s) \<in> (set before_edges \<union> set after_edges)\<^sup>*}"
  using invalidation_plan_exact[OF assms] by blast

text \<open>Nothing is invalidated while the repository is as it was.\<close>

lemma unchanged_invalidates_nothing:
  assumes "build_graph sha rv roots allow = Some (Inr g)"
  shows "\<exists>plan. current_invalidation_plan sha rv roots allow (graph_py g) = Some (Inr plan) \<and>
    iv_invalidated plan = [] \<and> iv_changed_count plan = 0"
proof -
  obtain nodes edges where m: "snapshot_maps (graph_py g) = Inr (nodes, edges)"
    using built_graph_snapshot[OF assms] by blast
  have same: "\<not> node_differs nodes nodes p" for p by (simp add: node_differs_def split: option.splits)
  then have "seed_paths nodes nodes = []"
    using set_seed_paths[OF snapshot_maps_distinct[OF m], of nodes] by simp
  then show ?thesis
    using invalidation_plan_exact[OF m m, of sha] assms same by (auto simp: current_invalidation_plan_def)
qed

section \<open>Witnesses\<close>

text \<open>Three contracts: one refers to the second under the roots, which refers to one outside.\<close>

definition sample_contract :: "string \<Rightarrow> string list \<Rightarrow> pyval option" where
  "sample_contract phase refs = Some (PyDict
     [(''schema_version'', PyInt 1), (''phase'', PyStr phase), (''uses'', PyList (map PyStr refs))])"

definition sample_view :: "string \<Rightarrow> repo_view" where
  "sample_view phase = \<lparr>
     rv_files = [(''contracts/py/a.json'', sample_contract ''1'' [''contracts/py/b.json:x'']),
       (''contracts/py/b.json'', sample_contract ''1'' ['' contracts/c.json'']),
       (''contracts/c.json'', sample_contract phase [])],
     rv_dirs = [''contracts/py''], rv_resolve = Some, rv_str = (\<lambda>_. '''')\<rparr>"

definition sample_graph :: "string \<Rightarrow> contract_graph option" where
  "sample_graph phase = (case build_graph (\<lambda>_. '''') (sample_view phase) [''contracts/py''] True of
     Some (Inr g) \<Rightarrow> Some g | _ \<Rightarrow> None)"
definition sample_paths :: "string list" where
  "sample_paths = [''contracts/py/a.json'', ''contracts/py/b.json'']"

lemma sample_graph_built:
  "case sample_graph ''1'' of None \<Rightarrow> False
   | Some g \<Rightarrow> map cn_path (cg_nodes g) = [''contracts/c.json'', ''contracts/py/a.json'', ''contracts/py/b.json''] \<and>
       cg_edges g = [(''contracts/py/a.json'', ''contracts/py/b.json''), (''contracts/py/b.json'', ''contracts/c.json'')]"
  by code_simp

lemma sample_paths_found:
  "contract_paths (sample_view ''1'') (fromkeys [''contracts/py'']) = Inr sample_paths"
  by code_simp

theorem contract_graph_complete_witness:
  "\<exists>g. sample_graph ''1'' = Some g \<and> set sample_paths \<subseteq> set (map cn_path (cg_nodes g)) \<and> sample_paths \<noteq> []"
proof -
  obtain g where g: "sample_graph ''1'' = Some g" using sample_graph_built by (cases "sample_graph ''1''") auto
  then have "build_graph (\<lambda>_. '''') (sample_view ''1'') [''contracts/py''] True = Some (Inr g)"
    by (auto simp: sample_graph_def split: option.splits sum.splits)
  from contract_graph_complete[OF this sample_paths_found] show ?thesis
    using g by (simp add: sample_paths_def)
qed

text \<open>Changing the contract outside the roots invalidates all three.\<close>

definition sample_snapshot :: "string \<Rightarrow> fields" where
  "sample_snapshot phase = (case sample_graph phase of None \<Rightarrow> [] | Some g \<Rightarrow> graph_py g)"

definition sample_maps :: "string \<Rightarrow> (string \<times> pyval) list \<times> (string \<times> string) list" where
  "sample_maps phase = (case snapshot_maps (sample_snapshot phase) of Inl _ \<Rightarrow> ([], []) | Inr m \<Rightarrow> m)"

lemma sample_maps_read:
  "snapshot_maps (sample_snapshot ''1'') = Inr (fst (sample_maps ''1''), snd (sample_maps ''1''))"
  "snapshot_maps (sample_snapshot ''2'') = Inr (fst (sample_maps ''2''), snd (sample_maps ''2''))"
  by code_simp+

lemma sample_plan:
  "case invalidation_plan (\<lambda>_. '''') (sample_snapshot ''1'') (sample_snapshot ''2'') of
     Some (Inr plan) \<Rightarrow> iv_invalidated plan = [''contracts/c.json'', ''contracts/py/a.json'', ''contracts/py/b.json''] \<and>
       iv_changed plan = [''contracts/c.json'']
   | _ \<Rightarrow> False"
  by code_simp

theorem invalidation_exact_witness:
  "''contracts/py/a.json'' \<in> {p \<in> set (map fst (fst (sample_maps ''2''))).
     \<exists>s. node_differs (fst (sample_maps ''1'')) (fst (sample_maps ''2'')) s \<and>
       (p, s) \<in> (set (snd (sample_maps ''1'')) \<union> set (snd (sample_maps ''2'')))\<^sup>*}"
proof -
  from invalidation_exact[OF sample_maps_read, of "\<lambda>_. ''''"] obtain plan where
    plan: "invalidation_plan (\<lambda>_. '''') (sample_snapshot ''1'') (sample_snapshot ''2'') = Some (Inr plan)"
    "set (iv_invalidated plan) = {p \<in> set (map fst (fst (sample_maps ''2''))).
     \<exists>s. node_differs (fst (sample_maps ''1'')) (fst (sample_maps ''2'')) s \<and>
       (p, s) \<in> (set (snd (sample_maps ''1'')) \<union> set (snd (sample_maps ''2'')))\<^sup>*}" by blast
  have "''contracts/py/a.json'' \<in> set (iv_invalidated plan)"
    using sample_plan plan(1) by simp
  then show ?thesis unfolding plan(2) .
qed
end
