(* ===== verification/PolicySnapshot.thy ===== *)
theory PolicySnapshot
  imports DecisionTrace ContractGraph
begin

text \<open>
  The policy snapshot of \<open>syntavra_runtime/deterministic_policy_snapshot.py\<close>: the identity of a
  policy configuration (its contract in the contract graph, its implementation, its thresholds), and
  bindings of a snapshot to a policy receipt, a decision trace and a task reference.  Snapshots and
  bindings are read back as objects of any shape, so all checks on them are modelled; results and
  traces are the typed records of the policy and the trace.
\<close>

section \<open>Snapshots\<close>

text \<open>The repository, the digest function, and the digest of the policy's source file.\<close>

record snapshot_env =
  se_sha :: "pyval \<Rightarrow> string"
  se_view :: repo_view
  se_runtime :: "string option"

definition policy_contract_path :: string where
  "policy_contract_path = ''contracts/python/adaptive-context-policy-v1.json''"

definition policy_runtime_path :: string where
  "policy_runtime_path = ''syntavra_runtime/adaptive_context_policy.py''"

definition policy_family :: string where
  "policy_family = ''adaptive-context-policy''"

definition snapshot_keys :: "string list" where
  "snapshot_keys = [''schema_version'', ''policy_family'', ''contract_graph_schema_version'', ''policy_contract'',
     ''policy_runtime'', ''config'', ''snapshot_hash'']"

definition binding_keys :: "string list" where
  "binding_keys = [''schema_version'', ''policy_snapshot'', ''policy_snapshot_hash'', ''policy_receipt_hash'',
     ''context_decision_trace_hash'', ''task_reference'', ''binding_hash'']"

definition contract_identity :: "pyval \<Rightarrow> string \<Rightarrow> fields" where
  "contract_identity version sha =
     [(''path'', PyStr policy_contract_path), (''schema_version'', version), (''sha256'', PyStr sha)]"

definition runtime_identity :: "string \<Rightarrow> fields" where
  "runtime_identity sha = [(''path'', PyStr policy_runtime_path), (''sha256'', PyStr sha)]"

text \<open>
  \<open>_authority\<close>: the identities the repository has now.  Building the graph always returns
  (lemma \<open>build_returns\<close>); its schema version is 1.
\<close>

definition current_authority :: "snapshot_env \<Rightarrow> py_error + fields \<times> fields" where
  "current_authority env =
     bindE (the (build_graph (se_sha env) (se_view env) [''contracts/python''] True)) (\<lambda>g.
       case find (\<lambda>n. cn_path n = policy_contract_path) (cg_nodes g) of
         None \<Rightarrow> Inl (ValueError ''Adaptive Context Policy contract is missing from Runtime Contract Version Graph'')
       | Some n \<Rightarrow>
           (case se_runtime env of
              None \<Rightarrow> Inl (FileNotFoundError (''missing Adaptive Context Policy runtime: '' @ policy_runtime_path))
            | Some runtime \<Rightarrow>
                bindE (valueE (require_sha256 ''policy contract sha256'' (cn_sha n))) (\<lambda>sha.
                Inr (contract_identity (cn_schema n) sha, runtime_identity runtime))))"

definition snapshot_basis :: "pyval \<Rightarrow> fields \<Rightarrow> fields \<Rightarrow> fields \<Rightarrow> fields" where
  "snapshot_basis graph_version contract runtime config =
     [(''schema_version'', PyInt 1), (''policy_family'', PyStr policy_family),
      (''contract_graph_schema_version'', graph_version), (''policy_contract'', PyDict contract),
      (''policy_runtime'', PyDict runtime), (''config'', PyDict config)]"

definition object_fields :: "pyval \<Rightarrow> fields" where
  "object_fields v = (case v of PyDict kvs \<Rightarrow> kvs | _ \<Rightarrow> [])"

definition capture_snapshot :: "snapshot_env \<Rightarrow> policy_config \<Rightarrow> py_error + fields" where
  "capture_snapshot env cfg =
     bindE (current_authority env) (\<lambda>(contract, runtime).
     let basis = snapshot_basis (PyInt 1) contract runtime (object_fields (config_py cfg))
     in Inr (basis @ [(''snapshot_hash'', PyStr (digest (se_sha env) (PyDict basis)))]))"

text \<open>\<open>str(d.get(key) or "")\<close>, and the check of a digest in it.\<close>

definition text_of :: "snapshot_env \<Rightarrow> fields \<Rightarrow> string \<Rightarrow> string" where
  "text_of env = text_field (se_view env)"

definition sha_field :: "snapshot_env \<Rightarrow> fields \<Rightarrow> string \<Rightarrow> string \<Rightarrow> py_error + string" where
  "sha_field env kvs key name = valueE (require_sha256 name (text_of env kvs key))"

definition raiseIf :: "bool \<Rightarrow> string \<Rightarrow> py_error + unit" where
  "raiseIf b msg = (if b then Inl (ValueError msg) else Inr ())"

text \<open>\<open>isinstance(v, Mapping) and set(v) == keys\<close>.\<close>

definition object_with :: "string list \<Rightarrow> pyval \<Rightarrow> bool" where
  "object_with keys v = (case v of PyDict kvs \<Rightarrow> set (map fst kvs) = set keys | _ \<Rightarrow> False)"

definition is_object :: "pyval \<Rightarrow> bool" where
  "is_object v = (case v of PyDict _ \<Rightarrow> True | _ \<Rightarrow> False)"

definition snapshot_shape :: "fields \<Rightarrow> py_error + unit" where
  "snapshot_shape snapshot =
     bindE (raiseIf (set (map fst snapshot) \<noteq> set snapshot_keys) ''deterministic policy snapshot shape drift'') (\<lambda>_.
     bindE (raiseIf (\<not> py_eq_int (py_get_none snapshot ''schema_version'') 1) ''deterministic policy snapshot schema drift'') (\<lambda>_.
     bindE (raiseIf (py_get_none snapshot ''policy_family'' \<noteq> PyStr policy_family) ''deterministic policy snapshot family drift'') (\<lambda>_.
     bindE (raiseIf (\<not> object_with [''path'', ''schema_version'', ''sha256''] (py_get_none snapshot ''policy_contract''))
       ''deterministic policy snapshot contract identity drift'') (\<lambda>_.
     bindE (raiseIf (\<not> object_with [''path'', ''sha256''] (py_get_none snapshot ''policy_runtime''))
       ''deterministic policy snapshot runtime identity drift'') (\<lambda>_.
     raiseIf (\<not> is_object (py_get_none snapshot ''config'')) ''deterministic policy snapshot config must be an object'')))))"

definition read_basis :: "fields \<Rightarrow> fields" where
  "read_basis snapshot = snapshot_basis (py_get_none snapshot ''contract_graph_schema_version'')
     (object_fields (py_get_none snapshot ''policy_contract'')) (object_fields (py_get_none snapshot ''policy_runtime''))
     (object_fields (py_get_none snapshot ''config''))"

definition verify_current :: "snapshot_env \<Rightarrow> fields \<Rightarrow> py_error + bool" where
  "verify_current env snapshot =
     bindE (current_authority env) (\<lambda>(contract, runtime).
     bindE (raiseIf (\<not> py_eq_int (py_get_none snapshot ''contract_graph_schema_version'') 1)
       ''policy snapshot contract graph schema drift'') (\<lambda>_.
     bindE (raiseIf (\<not> py_same (py_get_none snapshot ''policy_contract'') (PyDict contract))
       ''policy snapshot contract authority drift'') (\<lambda>_.
     bindE (raiseIf (\<not> py_same (py_get_none snapshot ''policy_runtime'') (PyDict runtime))
       ''policy snapshot runtime authority drift'') (\<lambda>_. Inr True))))"

definition verify_snapshot :: "snapshot_env \<Rightarrow> bool \<Rightarrow> fields \<Rightarrow> py_error + bool" where
  "verify_snapshot env require_current snapshot =
     bindE (snapshot_shape snapshot) (\<lambda>_.
     let contract = object_fields (py_get_none snapshot ''policy_contract'');
         runtime = object_fields (py_get_none snapshot ''policy_runtime'') in
     bindE (raiseIf (py_get_none contract ''path'' \<noteq> PyStr policy_contract_path) ''deterministic policy snapshot contract path drift'') (\<lambda>_.
     bindE (raiseIf (py_get_none runtime ''path'' \<noteq> PyStr policy_runtime_path) ''deterministic policy snapshot runtime path drift'') (\<lambda>_.
     bindE (sha_field env contract ''sha256'' ''policy contract sha256'') (\<lambda>_.
     bindE (sha_field env runtime ''sha256'' ''policy runtime sha256'') (\<lambda>_.
     bindE (sha_field env snapshot ''snapshot_hash'' ''policy snapshot hash'') (\<lambda>observed.
     bindE (raiseIf (observed \<noteq> digest (se_sha env) (PyDict (read_basis snapshot)))
       ''deterministic policy snapshot hash mismatch'') (\<lambda>_.
     if require_current then verify_current env snapshot else Inr True)))))))"

section \<open>Bindings\<close>

text \<open>\<open>_verify_policy_receipt\<close>: the stored hash is the digest of the receipt's fields.\<close>

definition receipt_hash :: "snapshot_env \<Rightarrow> policy_result \<Rightarrow> py_error + string" where
  "receipt_hash env res =
     bindE (valueE (require_sha256 ''policy receipt hash'' (pr_receipt_hash res))) (\<lambda>_.
     bindE (raiseIf (pr_receipt_hash res \<noteq> digest (se_sha env) (receipt_py (pr_receipt res)))
       ''policy receipt hash mismatch'') (\<lambda>_. Inr (pr_receipt_hash res)))"

definition binding_basis :: "string \<Rightarrow> string \<Rightarrow> string \<Rightarrow> fields \<Rightarrow> pyval" where
  "binding_basis snapshot_hash receipt trace reference = PyDict
     [(''schema_version'', PyInt 1), (''policy_snapshot_hash'', PyStr snapshot_hash),
      (''policy_receipt_hash'', PyStr receipt), (''context_decision_trace_hash'', PyStr trace),
      (''task_reference'', PyDict reference)]"

definition reference_check :: "fields \<Rightarrow> py_error + unit" where
  "reference_check reference =
     (case reference_only ''task_reference'' (PyDict reference) of Some e \<Rightarrow> Inl (ValueError e) | None \<Rightarrow> Inr ())"

definition bind_trace :: "snapshot_env \<Rightarrow> string \<Rightarrow> decision_trace option \<Rightarrow> py_error + string" where
  "bind_trace env receipt trace =
     (case trace of
        None \<Rightarrow> Inr ''''
      | Some t \<Rightarrow>
          bindE (valueE (verify_trace (se_sha env) t)) (\<lambda>_.
          bindE (raiseIf (tr_receipt_hash t \<noteq> receipt) ''Context Decision Trace does not bind the supplied policy receipt'') (\<lambda>_.
          valueE (require_sha256 ''context decision trace hash'' (tr_hash t)))))"

definition bind_policy ::
  "snapshot_env \<Rightarrow> fields \<Rightarrow> policy_result \<Rightarrow> decision_trace option \<Rightarrow> fields option \<Rightarrow> py_error + fields" where
  "bind_policy env snapshot res trace task =
     bindE (verify_snapshot env True snapshot) (\<lambda>_.
     bindE (receipt_hash env res) (\<lambda>receipt.
     bindE (raiseIf (\<not> py_same (config_py (rc_config (pr_receipt res))) (py_get_none snapshot ''config''))
       ''policy receipt config does not match deterministic snapshot'') (\<lambda>_.
     bindE (bind_trace env receipt trace) (\<lambda>trace_hash.
     let reference = (case task of None \<Rightarrow> [] | Some r \<Rightarrow> r);
         snapshot_hash = text_of env snapshot ''snapshot_hash'' in
     bindE (reference_check reference) (\<lambda>_.
     bindE (valueE (require_sha256 ''policy snapshot hash'' snapshot_hash)) (\<lambda>_.
     Inr [(''schema_version'', PyInt 1), (''policy_snapshot'', PyDict snapshot),
       (''policy_snapshot_hash'', PyStr snapshot_hash), (''policy_receipt_hash'', PyStr receipt),
       (''context_decision_trace_hash'', PyStr trace_hash), (''task_reference'', PyDict reference),
       (''binding_hash'', PyStr (digest (se_sha env) (binding_basis snapshot_hash receipt trace_hash reference)))]))))))"

definition check_trace :: "snapshot_env \<Rightarrow> string \<Rightarrow> string \<Rightarrow> decision_trace option \<Rightarrow> py_error + unit" where
  "check_trace env receipt observed trace =
     (if observed \<noteq> ''''
      then bindE (valueE (require_sha256 ''context decision trace hash'' observed)) (\<lambda>_.
        case trace of
          None \<Rightarrow> Inl (ValueError ''replay binding requires Context Decision Trace material for verification'')
        | Some t \<Rightarrow>
            bindE (valueE (verify_trace (se_sha env) t)) (\<lambda>_.
            bindE (raiseIf (tr_receipt_hash t \<noteq> receipt) ''replay binding trace receipt mismatch'') (\<lambda>_.
            raiseIf (tr_hash t \<noteq> observed) ''replay binding Context Decision Trace hash mismatch'')))
      else raiseIf (trace \<noteq> None) ''unexpected Context Decision Trace for binding without trace hash'')"

definition verify_binding ::
  "snapshot_env \<Rightarrow> fields \<Rightarrow> policy_result \<Rightarrow> decision_trace option \<Rightarrow> py_error + bool" where
  "verify_binding env binding res trace =
     bindE (raiseIf (set (map fst binding) \<noteq> set binding_keys) ''deterministic policy replay binding shape drift'') (\<lambda>_.
     bindE (raiseIf (\<not> py_eq_int (py_get_none binding ''schema_version'') 1)
       ''deterministic policy replay binding schema drift'') (\<lambda>_.
     bindE (raiseIf (\<not> is_object (py_get_none binding ''policy_snapshot''))
       ''deterministic policy replay binding requires attached snapshot'') (\<lambda>_.
     let snapshot = object_fields (py_get_none binding ''policy_snapshot'') in
     bindE (verify_snapshot env True snapshot) (\<lambda>_.
     bindE (sha_field env binding ''policy_snapshot_hash'' ''policy snapshot hash'') (\<lambda>snapshot_hash.
     bindE (raiseIf (snapshot_hash \<noteq> text_of env snapshot ''snapshot_hash'') ''replay binding snapshot hash mismatch'') (\<lambda>_.
     bindE (receipt_hash env res) (\<lambda>receipt.
     bindE (raiseIf (receipt \<noteq> text_of env binding ''policy_receipt_hash'') ''replay binding policy receipt hash mismatch'') (\<lambda>_.
     bindE (raiseIf (\<not> py_same (config_py (rc_config (pr_receipt res))) (py_get_none snapshot ''config''))
       ''replay binding receipt config mismatch'') (\<lambda>_.
     let observed_trace = text_of env binding ''context_decision_trace_hash'' in
     bindE (check_trace env receipt observed_trace trace) (\<lambda>_.
     bindE (raiseIf (\<not> is_object (py_get_none binding ''task_reference''))
       ''replay binding task reference must be an object'') (\<lambda>_.
     let reference = object_fields (py_get_none binding ''task_reference'') in
     bindE (reference_check reference) (\<lambda>_.
     bindE (sha_field env binding ''binding_hash'' ''replay binding hash'') (\<lambda>observed.
     bindE (raiseIf (observed \<noteq> digest (se_sha env) (binding_basis snapshot_hash receipt observed_trace reference))
       ''deterministic policy replay binding hash mismatch'') (\<lambda>_. Inr True))))))))))))))"

section \<open>What is captured verifies\<close>

lemma raiseIf_simps [simp]: "raiseIf b m = Inr u \<longleftrightarrow> \<not> b" "raiseIf False m = Inr ()"
  by (auto simp: raiseIf_def)

lemma require_sha256_ok: "is_sha256 v \<Longrightarrow> require_sha256 nm v = Inr v"
  by (simp add: require_sha256_Inr is_sha256_casefold)

lemma text_of_str: "py_get_none kvs k = PyStr s \<Longrightarrow> text_of env kvs k = s"
  by (auto simp: text_of_def text_field_def Let_def py_truth_def)

lemma sha_field_str: "py_get_none kvs k = PyStr s \<Longrightarrow> is_sha256 s \<Longrightarrow> sha_field env kvs k nm = Inr s"
  by (simp add: sha_field_def text_of_str require_sha256_ok)

lemma current_authority_Inr:
  assumes "current_authority env = Inr (contract, runtime)"
  obtains version h rt where "contract = contract_identity version h" "is_sha256 h"
    "runtime = runtime_identity rt" "se_runtime env = Some rt"
proof (cases "se_runtime env")
  case None
  then show thesis using assms by (auto simp: current_authority_def split: option.split_asm)
next
  case (Some rt)
  then show thesis using assms that
    by (auto simp: current_authority_def require_sha256_Inr split: option.split_asm)
qed

lemma captured:
  assumes "capture_snapshot env cfg = Inr snapshot"
  obtains version h rt basis where "current_authority env = Inr (contract_identity version h, runtime_identity rt)"
    "is_sha256 h" "se_runtime env = Some rt"
    "basis = snapshot_basis (PyInt 1) (contract_identity version h) (runtime_identity rt) (object_fields (config_py cfg))"
    "snapshot = basis @ [(''snapshot_hash'', PyStr (digest (se_sha env) (PyDict basis)))]"
proof -
  obtain contract runtime where a: "current_authority env = Inr (contract, runtime)"
    using assms by (auto simp: capture_snapshot_def)
  from a obtain version h rt where r: "contract = contract_identity version h" "is_sha256 h"
    "runtime = runtime_identity rt" "se_runtime env = Some rt" by (rule current_authority_Inr)
  show thesis
    by (rule that[OF _ r(2,4) refl]) (use assms a r in \<open>auto simp: capture_snapshot_def Let_def\<close>)
qed

lemma snapshot_gets:
  assumes "snapshot = snapshot_basis gv contract runtime config @ [(''snapshot_hash'', PyStr h)]"
  shows "py_get_none snapshot ''schema_version'' = PyInt 1"
    and "py_get_none snapshot ''policy_family'' = PyStr policy_family"
    and "py_get_none snapshot ''contract_graph_schema_version'' = gv"
    and "py_get_none snapshot ''policy_contract'' = PyDict contract"
    and "py_get_none snapshot ''policy_runtime'' = PyDict runtime"
    and "py_get_none snapshot ''config'' = PyDict config"
    and "py_get_none snapshot ''snapshot_hash'' = PyStr h"
    and "set (map fst snapshot) = set snapshot_keys"
  by (simp_all add: assms snapshot_basis_def py_get_none_def snapshot_keys_def)

lemma identity_gets:
  "py_get_none (contract_identity version h) ''path'' = PyStr policy_contract_path"
  "py_get_none (contract_identity version h) ''sha256'' = PyStr h"
  "py_get_none (runtime_identity rt) ''path'' = PyStr policy_runtime_path"
  "py_get_none (runtime_identity rt) ''sha256'' = PyStr rt"
  "set (map fst (contract_identity version h)) = {''path'', ''schema_version'', ''sha256''}"
  "set (map fst (runtime_identity rt)) = {''path'', ''sha256''}"
  by (simp_all add: contract_identity_def runtime_identity_def py_get_none_def)

lemma verify_with_hash:
  assumes auth: "current_authority env = Inr (contract_identity version h, runtime_identity rt)"
    and h: "is_sha256 h" and rt: "is_sha256 rt"
    and basis: "basis = snapshot_basis (PyInt 1) (contract_identity version h) (runtime_identity rt) (object_fields (config_py cfg))"
    and snapshot: "snapshot = basis @ [(''snapshot_hash'', PyStr hs)]"
    and hs: "py_casefold hs = digest (se_sha env) (PyDict basis)" "is_sha256 (py_casefold hs)"
  shows "verify_snapshot env True snapshot = Inr True"
proof -
  note gets = snapshot_gets[OF snapshot[unfolded basis]]
  have same: "read_basis snapshot = basis" by (simp add: read_basis_def gets object_fields_def basis)
  have "snapshot_shape snapshot = Inr ()"
    by (simp add: snapshot_shape_def gets object_with_def is_object_def identity_gets py_eq_int_def del: set_map)
  moreover have "verify_current env snapshot = Inr True"
    by (simp add: verify_current_def auth gets py_eq_int_def)
  moreover have "sha_field env snapshot ''snapshot_hash'' ''policy snapshot hash'' = Inr (digest (se_sha env) (PyDict basis))"
    using hs by (simp add: sha_field_def text_of_str[OF gets(7)] require_sha256_Inr)
  ultimately show ?thesis
    using sha_field_str[OF identity_gets(2) h] sha_field_str[OF identity_gets(4) rt]
    by (simp add: verify_snapshot_def Let_def gets(4,5) object_fields_def identity_gets(1,3) same)
qed

lemma verify_captured:
  assumes shape: "sha_shape (se_sha env)" and capture: "capture_snapshot env cfg = Inr snapshot"
    and runtime: "\<forall>rt. se_runtime env = Some rt \<longrightarrow> is_sha256 rt"
  shows "verify_snapshot env True snapshot = Inr True"
    and "is_sha256 (text_of env snapshot ''snapshot_hash'')"
    and "py_get_none snapshot ''config'' = config_py cfg"
proof -
  from capture obtain version h rt basis where c: "current_authority env = Inr (contract_identity version h, runtime_identity rt)"
    "is_sha256 h" "se_runtime env = Some rt"
    "basis = snapshot_basis (PyInt 1) (contract_identity version h) (runtime_identity rt) (object_fields (config_py cfg))"
    "snapshot = basis @ [(''snapshot_hash'', PyStr (digest (se_sha env) (PyDict basis)))]" by (rule captured)
  note gets = snapshot_gets[OF c(5)[unfolded c(4)]]
  have rt: "is_sha256 rt" using runtime c(3) by simp
  have dig: "is_sha256 (digest (se_sha env) (PyDict basis))" by (rule digest_shape[OF shape])
  show "verify_snapshot env True snapshot = Inr True"
    using verify_with_hash[OF c(1,2) rt c(4,5)] dig by (simp add: is_sha256_casefold)
  show "is_sha256 (text_of env snapshot ''snapshot_hash'')"
    using text_of_str[OF gets(7)] dig[unfolded c(4)] by simp
  show "py_get_none snapshot ''config'' = config_py cfg"
    by (simp add: gets object_fields_def config_py_def)
qed

section \<open>What is bound verifies\<close>

lemma receipt_hash_ok:
  assumes "sha_shape (se_sha env)" and "pr_receipt_hash res = digest (se_sha env) (receipt_py (pr_receipt res))"
  shows "receipt_hash env res = Inr (pr_receipt_hash res)" and "is_sha256 (pr_receipt_hash res)"
proof -
  show "is_sha256 (pr_receipt_hash res)" using digest_shape[OF assms(1)] assms(2) by simp
  then show "receipt_hash env res = Inr (pr_receipt_hash res)"
    using assms(2) by (simp add: receipt_hash_def require_sha256_ok)
qed

text \<open>The hash under which a trace is bound is the one that is checked.\<close>

lemma bind_trace_checks:
  assumes "sha_shape (se_sha env)"
    and "\<forall>t. trace = Some t \<longrightarrow> verify_trace (se_sha env) t = Inr True \<and> tr_receipt_hash t = receipt"
  shows "\<exists>h. bind_trace env receipt trace = Inr h \<and> check_trace env receipt h trace = Inr ()"
proof (cases trace)
  case None
  then show ?thesis by (simp add: bind_trace_def check_trace_def)
next
  case (Some t)
  then have t: "verify_trace (se_sha env) t = Inr True" "tr_receipt_hash t = receipt" using assms(2) by auto
  then have "is_sha256 (tr_hash t)" using digest_shape[OF assms(1)] by (simp add: verify_trace_True)
  moreover from this have "tr_hash t \<noteq> ''''" by (auto simp: is_sha256_def)
  ultimately show ?thesis using Some t by (simp add: bind_trace_def check_trace_def require_sha256_ok)
qed

definition policy_binding :: "snapshot_env \<Rightarrow> fields \<Rightarrow> string \<Rightarrow> string \<Rightarrow> string \<Rightarrow> fields \<Rightarrow> fields" where
  "policy_binding env snapshot sh rh th reference =
     [(''schema_version'', PyInt 1), (''policy_snapshot'', PyDict snapshot), (''policy_snapshot_hash'', PyStr sh),
      (''policy_receipt_hash'', PyStr rh), (''context_decision_trace_hash'', PyStr th),
      (''task_reference'', PyDict reference),
      (''binding_hash'', PyStr (digest (se_sha env) (binding_basis sh rh th reference)))]"

lemma binding_gets:
  assumes "b = policy_binding env snapshot sh rh th reference"
  shows "py_get_none b ''schema_version'' = PyInt 1" "py_get_none b ''policy_snapshot'' = PyDict snapshot"
    "py_get_none b ''policy_snapshot_hash'' = PyStr sh" "py_get_none b ''policy_receipt_hash'' = PyStr rh"
    "py_get_none b ''context_decision_trace_hash'' = PyStr th" "py_get_none b ''task_reference'' = PyDict reference"
    "py_get_none b ''binding_hash'' = PyStr (digest (se_sha env) (binding_basis sh rh th reference))"
    "set (map fst b) = set binding_keys"
  by (simp_all add: assms policy_binding_def py_get_none_def binding_keys_def)

lemma bind_verifies:
  assumes shape: "sha_shape (se_sha env)" and capture: "capture_snapshot env cfg = Inr snapshot"
    and runtime: "\<forall>rt. se_runtime env = Some rt \<longrightarrow> is_sha256 rt"
    and res: "pr_receipt_hash res = digest (se_sha env) (receipt_py (pr_receipt res))" "rc_config (pr_receipt res) = cfg"
    and trace: "\<forall>t. trace = Some t \<longrightarrow> verify_trace (se_sha env) t = Inr True \<and> tr_receipt_hash t = pr_receipt_hash res"
    and ref: "\<not> carries_payload_fields reference"
  shows "\<exists>b. bind_policy env snapshot res trace (Some reference) = Inr b \<and> verify_binding env b res trace = Inr True"
proof -
  note snap = verify_captured[OF shape capture runtime]
  note receipt = receipt_hash_ok[OF shape res(1)]
  let ?rh = "pr_receipt_hash res" and ?sh = "text_of env snapshot ''snapshot_hash''"
  obtain th where th: "bind_trace env ?rh trace = Inr th" "check_trace env ?rh th trace = Inr ()"
    using bind_trace_checks[OF shape trace] by blast
  have "reference_only ''task_reference'' (PyDict reference) = None" unfolding reference_only_iff using ref by simp
  then have ok: "reference_check reference = Inr ()" by (simp only: reference_check_def option.case)
  define b where "b = policy_binding env snapshot ?sh ?rh th reference"
  note gets = binding_gets[OF b_def]
  have "bind_policy env snapshot res trace (Some reference) = Inr b"
    using snap receipt th ok
    by (simp add: bind_policy_def res(2) require_sha256_ok b_def policy_binding_def Let_def)
  moreover have "verify_binding env b res trace = Inr True"
    using snap(1) receipt(1) th(2) ok
    by (simp add: verify_binding_def gets py_eq_int_def is_object_def object_fields_def res(2) snap(3)
        sha_field_str[OF gets(3) snap(2)] sha_field_str[OF gets(7) digest_shape[OF shape]]
        text_of_str[OF gets(4)] text_of_str[OF gets(5)] del: set_map)
  ultimately show ?thesis by blast
qed
lemma evaluate_config: "evaluate_policy sha cfg task signals st = Inr res \<Longrightarrow> rc_config (pr_receipt res) = cfg"
  by (auto simp: evaluate_policy_def Let_def split: if_splits prod.splits)

lemma evaluate_hash:
  "evaluate_policy sha cfg task signals st = Inr res \<Longrightarrow> pr_receipt_hash res = digest sha (receipt_py (pr_receipt res))"
  by (rule evaluate_Inr, assumption, assumption)

lemma traced_receipt:
  assumes "from_policy_result sha res = Inr t" and "is_sha256 (pr_receipt_hash res)"
  shows "verify_trace sha t = Inr True \<and> tr_receipt_hash t = pr_receipt_hash res"
proof -
  obtain receipt h where r: "verify_policy_receipt sha res = Inr (receipt, h)"
    using assms(1) by (auto simp: from_policy_result_def)
  then have "h = pr_receipt_hash res" by (auto simp: verify_policy_receipt_def)
  moreover obtain events where "seal_trace sha h events = Inr t"
    using assms(1) r by (auto simp: from_policy_result_def)
  moreover obtain ok where "verify_trace sha t = Inr ok"
    using assms(1) by (auto simp: from_policy_result_def)
  ultimately show ?thesis using assms(2)
    by (auto simp: seal_trace_def require_sha256_ok verify_trace_True)
qed
text \<open>
  A snapshot whose hash was written in capitals verifies and can be bound, but the binding is refused:
  \<open>verify_binding\<close> compares the lower-cased hash of the binding with the snapshot's own spelling.
\<close>

lemma upper_hash_not_replayable:
  assumes shape: "sha_shape (se_sha env)" and rt: "se_runtime env = Some rt" "is_sha256 rt"
    and capture: "capture_snapshot env cfg = Inr (basis @ [(''snapshot_hash'', PyStr hs)])"
    and spelt: "py_casefold hs' = hs" "hs' \<noteq> hs"
    and res: "pr_receipt_hash res = digest (se_sha env) (receipt_py (pr_receipt res))" "rc_config (pr_receipt res) = cfg"
    and snapshot: "snapshot = basis @ [(''snapshot_hash'', PyStr hs')]"
  shows "verify_snapshot env True snapshot = Inr True \<and>
    (\<exists>b. bind_policy env snapshot res None None = Inr b \<and>
      verify_binding env b res None = Inl (ValueError ''replay binding snapshot hash mismatch''))"
proof -
  from capture obtain version h rt' basis' where c: "current_authority env = Inr (contract_identity version h, runtime_identity rt')"
    "is_sha256 h" "se_runtime env = Some rt'"
    "basis' = snapshot_basis (PyInt 1) (contract_identity version h) (runtime_identity rt') (object_fields (config_py cfg))"
    "basis @ [(''snapshot_hash'', PyStr hs)] = basis' @ [(''snapshot_hash'', PyStr (digest (se_sha env) (PyDict basis')))]"
    by (rule captured)
  then have basis: "basis = basis'" "hs = digest (se_sha env) (PyDict basis')" by simp_all
  have hs: "is_sha256 hs" unfolding basis(2) by (rule digest_shape[OF shape])
  note gets = snapshot_gets[OF snapshot[unfolded basis(1) c(4)]]
  have rt': "is_sha256 rt'" using rt c(3) by simp
  have ok: "verify_snapshot env True snapshot = Inr True"
    using spelt hs by (intro verify_with_hash[OF c(1,2) rt' c(4) snapshot[unfolded basis(1)]]) (simp_all add: basis(2))
  note receipt = receipt_hash_ok[OF shape res(1)]
  define b where "b = policy_binding env snapshot hs' (pr_receipt_hash res) '''' []"
  note bgets = binding_gets[OF b_def]
  have "bind_policy env snapshot res None None = Inr b"
    using receipt hs spelt(1)
    by (simp add: bind_policy_def ok res(2) gets text_of_str[OF gets(7)] bind_trace_def reference_check_def
        require_sha256_Inr b_def policy_binding_def object_fields_def config_py_def)
  moreover have "sha_field env b ''policy_snapshot_hash'' ''policy snapshot hash'' = Inr hs"
    using hs spelt(1) by (simp add: sha_field_def text_of_str[OF bgets(3)] require_sha256_Inr)
  then have "verify_binding env b res None = Inl (ValueError ''replay binding snapshot hash mismatch'')"
    using spelt(2) by (simp add: verify_binding_def bgets py_eq_int_def is_object_def object_fields_def ok
        text_of_str[OF gets(7)] raiseIf_def del: set_map)
  ultimately show ?thesis using ok by blast
qed

section \<open>Properties\<close>

text \<open>
  C15. Whatever the policy decides can be bound and replayed: for a configuration captured from the
  repository, every evaluation under it, with or without its decision trace and with any reference that
  carries no payload, gives a binding, and the binding verifies against the same result and trace.
\<close>

theorem policy_binding_roundtrip:
  assumes "sha_shape (se_sha env)" and "se_runtime env = Some rt" and "is_sha256 rt"
    and "capture_snapshot env cfg = Inr snapshot"
    and "evaluate_policy (se_sha env) cfg task signals st = Inr res"
    and "from_policy_result (se_sha env) res = Inr t" and "trace \<in> {None, Some t}"
    and "\<not> carries_payload_fields reference"
  shows "\<exists>b. bind_policy env snapshot res trace (Some reference) = Inr b \<and> verify_binding env b res trace = Inr True"
proof (rule bind_verifies[OF assms(1,4)])
  note hash = evaluate_hash[OF assms(5)]
  show "pr_receipt_hash res = digest (se_sha env) (receipt_py (pr_receipt res))" by (rule hash)
  show "rc_config (pr_receipt res) = cfg" using assms(5) by (rule evaluate_config)
  have "is_sha256 (pr_receipt_hash res)" using receipt_hash_ok(2)[OF assms(1) hash] .
  then show "\<forall>t. trace = Some t \<longrightarrow> verify_trace (se_sha env) t = Inr True \<and> tr_receipt_hash t = pr_receipt_hash res"
    using traced_receipt[OF assms(6)] assms(7) by auto
qed (use assms in auto)

section \<open>Witnesses\<close>

text \<open>A repository with the policy's contract alone.\<close>

definition policy_view :: repo_view where
  "policy_view = \<lparr>
     rv_files = [(policy_contract_path, Some (PyDict [(''schema_version'', PyInt 1)]))],
     rv_dirs = [''contracts/python''], rv_resolve = Some, rv_str = (\<lambda>_. '''')\<rparr>"

definition policy_env :: snapshot_env where
  "policy_env = \<lparr>se_sha = flat_sha, se_view = policy_view, se_runtime = Some zero_hash\<rparr>"

definition policy_snapshot :: fields where
  "policy_snapshot = (case capture_snapshot policy_env (default_config 256) of Inr s \<Rightarrow> s | Inl _ \<Rightarrow> [])"

lemma policy_captured: "capture_snapshot policy_env (default_config 256) = Inr policy_snapshot"
proof -
  have "\<not> isl (capture_snapshot policy_env (default_config 256))" by code_simp
  then show ?thesis by (cases "capture_snapshot policy_env (default_config 256)") (auto simp: policy_snapshot_def)
qed

definition idle_traced :: decision_trace where
  "idle_traced = (case from_policy_result flat_sha idle_result of Inr t \<Rightarrow> t | Inl _ \<Rightarrow> undefined)"

lemma idle_traced_eq: "from_policy_result flat_sha idle_result = Inr idle_traced"
proof -
  have "\<not> isl (from_policy_result flat_sha idle_result)" by code_simp
  then show ?thesis by (cases "from_policy_result flat_sha idle_result") (auto simp: idle_traced_def)
qed

theorem policy_binding_roundtrip_witness:
  "\<exists>b. bind_policy policy_env policy_snapshot idle_result (Some idle_traced) (Some [(''id'', PyStr ''t'')]) = Inr b \<and>
     verify_binding policy_env b idle_result (Some idle_traced) = Inr True"
proof (rule policy_binding_roundtrip[where cfg = "default_config 256" and task = "''t''" and signals = "[]" and st = None
      and rt = zero_hash and t = idle_traced])
  show "sha_shape (se_sha policy_env)" by (simp add: policy_env_def flat_sha_shape)
  show "\<not> carries_payload_fields [(''id'', PyStr ''t'')]" by code_simp
qed (simp_all add: policy_captured idle_eval idle_traced_eq zero_hash_shape policy_env_def[THEN arg_cong[where f = se_sha]]
    policy_env_def[THEN arg_cong[where f = se_runtime]])
end
