(* ===== verification/CanonicalPaths.thy ===== *)
theory CanonicalPaths
  imports Prelude
begin

text \<open>
  The canonical paths and bytes of \<open>syntavra_runtime/canonical_primitives.py\<close>, which the repository
  manifest is computed from.  A path is its text (\<open>str(value)\<close>); file contents are strings of bytes, one
  \<open>char\<close> per byte; SHA-256 is a parameter.
\<close>

section \<open>Paths\<close>

text \<open>\<open>CanonicalPathError(code, value)\<close>.\<close>

datatype path_error = CanonicalPathError string string

definition slash :: char where
  "slash = CHR ''/''"

definition portable :: "string \<Rightarrow> string" where
  "portable raw = map (\<lambda>c. if c = CHR 0x5C then slash else c) raw"

definition ascii_letter :: "char \<Rightarrow> bool" where
  "ascii_letter c \<longleftrightarrow> (let n = code_of c in (65 \<le> n \<and> n \<le> 90) \<or> (97 \<le> n \<and> n \<le> 122))"

definition drive_prefix :: "string \<Rightarrow> bool" where
  "drive_prefix s = (case s of a # b # _ \<Rightarrow> ascii_letter a \<and> b = CHR '':'' | _ \<Rightarrow> False)"

text \<open>The loop over the parts.\<close>

fun path_parts :: "string \<Rightarrow> string list \<Rightarrow> string list \<Rightarrow> path_error + string list" where
  "path_parts raw parts [] = Inr parts"
| "path_parts raw parts (p # ps) =
     (if p = '''' \<or> p = ''.'' then path_parts raw parts ps
      else if p = ''..'' then Inl (CanonicalPathError ''PATH_PARENT_TRAVERSAL'' raw)
      else path_parts raw (parts @ [p]) ps)"

definition normalize_path :: "string \<Rightarrow> path_error + string" where
  "normalize_path raw =
     (if CHR 0x00 \<in> set raw then Inl (CanonicalPathError ''PATH_NUL'' raw)
      else let s = portable raw in
        if starts_with [slash] s then Inl (CanonicalPathError ''PATH_ABSOLUTE'' raw)
        else if drive_prefix s then Inl (CanonicalPathError ''PATH_DRIVE_PREFIX'' raw)
        else bindE (path_parts raw [] (split_char slash s)) (\<lambda>parts.
          if parts = [] then Inl (CanonicalPathError ''PATH_EMPTY'' raw) else Inr (join [slash] parts)))"

section \<open>Bytes\<close>

text \<open>What Python's strict UTF-8 decoder accepts: no overlong form, no surrogate, nothing past U+10FFFF.\<close>

definition between :: "nat \<Rightarrow> nat \<Rightarrow> char \<Rightarrow> bool" where
  "between lo hi c \<longleftrightarrow> lo \<le> code_of c \<and> code_of c \<le> hi"

definition cont :: "char \<Rightarrow> bool" where
  "cont = between 128 191"

fun utf8_ok :: "string \<Rightarrow> bool" where
  "utf8_ok [] = True"
| "utf8_ok (a # s) =
     (if code_of a < 128 then utf8_ok s
      else if between 194 223 a then (case s of b # t \<Rightarrow> cont b \<and> utf8_ok t | _ \<Rightarrow> False)
      else if between 224 239 a
      then (case s of b # c # t \<Rightarrow>
          (if code_of a = 224 then between 160 191 b else if code_of a = 237 then between 128 159 b else cont b) \<and>
          cont c \<and> utf8_ok t | _ \<Rightarrow> False)
      else if between 240 244 a
      then (case s of b # c # d # t \<Rightarrow>
          (if code_of a = 240 then between 144 191 b else if code_of a = 244 then between 128 143 b else cont b) \<and>
          cont c \<and> cont d \<and> utf8_ok t | _ \<Rightarrow> False)
      else False)"

definition lf :: char where "lf = CHR 0x0A"

definition cr :: char where "cr = CHR 0x0D"

text \<open>\<open>data.replace(CRLF, LF)\<close>, then every remaining CR by LF.\<close>

fun crlf_to_lf :: "string \<Rightarrow> string" where
  "crlf_to_lf (a # b # s) = (if a = cr \<and> b = lf then lf # crlf_to_lf s else a # crlf_to_lf (b # s))"
| "crlf_to_lf s = s"

definition cr_to_lf :: "string \<Rightarrow> string" where
  "cr_to_lf = map (\<lambda>c. if c = cr then lf else c)"

definition is_text :: "string \<Rightarrow> bool" where
  "is_text data \<longleftrightarrow> CHR 0x00 \<notin> set data \<and> utf8_ok data"

definition canonical_text_bytes :: "string \<Rightarrow> string" where
  "canonical_text_bytes data =
     (if CHR 0x00 \<in> set data then data else if \<not> utf8_ok data then data else cr_to_lf (crlf_to_lf data))"

definition manifest_prefix :: string where
  "manifest_prefix = ''benchmarks/results/real-tasks''"

definition opaque_path :: "string \<Rightarrow> bool" where
  "opaque_path p \<longleftrightarrow> p = manifest_prefix \<or> starts_with (manifest_prefix @ ''/'') p"

definition manifest_bytes :: "string \<Rightarrow> string \<Rightarrow> path_error + string" where
  "manifest_bytes relative data =
     bindE (normalize_path relative) (\<lambda>p. Inr (if opaque_path p then data else canonical_text_bytes data))"

definition manifest_digest :: "(string \<Rightarrow> string) \<Rightarrow> string \<Rightarrow> string \<Rightarrow> path_error + string" where
  "manifest_digest sha relative data = bindE (manifest_bytes relative data) (\<lambda>b. Inr (sha b))"

section \<open>What a canonical path looks like\<close>

definition proper_part :: "string \<Rightarrow> bool" where
  "proper_part p \<longleftrightarrow> p \<noteq> '''' \<and> p \<noteq> ''.'' \<and> p \<noteq> ''..''"

definition good_part :: "string \<Rightarrow> bool" where
  "good_part p \<longleftrightarrow> proper_part p \<and> slash \<notin> set p \<and> CHR 0x5C \<notin> set p \<and> CHR 0x00 \<notin> set p"

lemma path_parts_Inr:
  "path_parts raw parts ps = Inr qs \<longleftrightarrow> ''..'' \<notin> set ps \<and> qs = parts @ filter proper_part ps"
  by (induction raw parts ps rule: path_parts.induct) (auto simp: proper_part_def)

lemma split_char_parts:
  "p \<in> set (split_char c s) \<Longrightarrow> set p \<subseteq> set s - {c}"
proof (induction s arbitrary: p)
  case (Cons x s)
  obtain q qs where S: "split_char c s = q # qs" using split_char_nonempty by (cases "split_char c s") auto
  then have "set q \<subseteq> set s - {c}" using Cons.IH[of q] by simp
  then show ?case using Cons S by (cases "p \<in> set qs") (auto split: if_splits)
qed simp

lemma portable_id: "CHR 0x5C \<notin> set s \<Longrightarrow> portable s = s"
  by (induction s) (auto simp: portable_def)

lemma normalize_path_Inr:
  assumes "normalize_path raw = Inr p"
  obtains parts where "p = join [slash] parts" "parts \<noteq> []" "\<forall>q \<in> set parts. good_part q"
proof -
  let ?s = "portable raw"
  obtain parts where p: "path_parts raw [] (split_char slash ?s) = Inr parts" "parts \<noteq> []" "p = join [slash] parts"
    and nul: "CHR 0x00 \<notin> set raw"
    using assms by (auto simp: normalize_path_def Let_def split: if_splits)
  have "parts = filter proper_part (split_char slash ?s)" using p(1) by (simp add: path_parts_Inr)
  moreover have "CHR 0x5C \<notin> set ?s" "CHR 0x00 \<notin> set ?s" using nul by (auto simp: portable_def slash_def)
  ultimately have "good_part q" if "q \<in> set parts" for q
    using that split_char_parts[of q slash ?s] by (auto simp: good_part_def)
  then show thesis using that p by blast
qed

text \<open>Joined good parts are split into the same parts, and normalise to themselves.\<close>

lemma join_good:
  assumes "parts \<noteq> []" and "\<forall>q \<in> set parts. good_part q"
  shows "split_char slash (join [slash] parts) = parts" and "CHR 0x5C \<notin> set (join [slash] parts)"
    and "CHR 0x00 \<notin> set (join [slash] parts)" and "\<not> starts_with [slash] (join [slash] parts)"
proof -
  show split: "split_char slash (join [slash] parts) = parts"
    using assms by (intro split_join) (auto simp: good_part_def)
  show "CHR 0x5C \<notin> set (join [slash] parts)" "CHR 0x00 \<notin> set (join [slash] parts)"
    using set_join[of slash parts] assms(2) by (auto simp: good_part_def slash_def)
  show "\<not> starts_with [slash] (join [slash] parts)"
  proof
    assume "starts_with [slash] (join [slash] parts)"
    then obtain s where "join [slash] parts = slash # s" by (cases "join [slash] parts") (auto simp: starts_with_def)
    then have "[] \<in> set parts" using split by (metis list.set_intros(1) split_char.simps(2))
    then show False using assms(2) by (auto simp: good_part_def proper_part_def)
  qed
qed

lemma normalize_good:
  assumes "parts \<noteq> []" and "\<forall>q \<in> set parts. good_part q"
  shows "normalize_path (join [slash] parts) =
    (if drive_prefix (join [slash] parts) then Inl (CanonicalPathError ''PATH_DRIVE_PREFIX'' (join [slash] parts))
     else Inr (join [slash] parts))"
proof -
  have "''..'' \<notin> set parts" "filter proper_part parts = parts"
    using assms(2) by (auto simp: good_part_def proper_part_def intro!: filter_True)
  then have "path_parts (join [slash] parts) [] parts = Inr parts" by (simp add: path_parts_Inr)
  then show ?thesis
    using join_good[OF assms] assms(1) by (simp add: normalize_path_def Let_def portable_id)
qed

section \<open>Line endings\<close>

text \<open>A text with every LF written as CR LF.\<close>

definition lf_to_crlf :: "string \<Rightarrow> string" where
  "lf_to_crlf s = concat (map (\<lambda>c. if c = lf then [cr, lf] else [c]) s)"

lemma lf_to_crlf_simps [simp]:
  "lf_to_crlf [] = []" "lf_to_crlf (c # s) = (if c = lf then cr # lf # lf_to_crlf s else c # lf_to_crlf s)"
  by (simp_all add: lf_to_crlf_def)

lemma code_cr_lf [simp]: "code_of lf = 10" "code_of cr = 13" "cr \<noteq> lf" "lf \<noteq> cr"
  by (simp_all add: lf_def cr_def code_of_def)

lemma crlf_to_lf_cons: "c \<noteq> cr \<Longrightarrow> crlf_to_lf (c # s) = c # crlf_to_lf s"
  by (cases s) auto

lemma crlf_inverse: "cr \<notin> set s \<Longrightarrow> crlf_to_lf (lf_to_crlf s) = s"
  by (induction s) (auto simp: crlf_to_lf_cons)

lemma crlf_free: "cr \<notin> set s \<Longrightarrow> crlf_to_lf s = s"
  by (induction s) (auto simp: crlf_to_lf_cons)

lemma not_cont [simp]: "\<not> cont lf" "\<not> cont cr"
  by (simp_all add: cont_def between_def)

lemma not_between [simp]: "128 \<le> lo \<Longrightarrow> \<not> between lo hi lf" "128 \<le> lo \<Longrightarrow> \<not> between lo hi cr"
  by (simp_all add: between_def)

lemma utf8_ok_lf_to_crlf: "utf8_ok (lf_to_crlf s) = utf8_ok s"
proof (induction s rule: utf8_ok.induct)
  case (2 a s)
  show ?case
  proof (cases "code_of a < 128")
    case True
    then show ?thesis using 2(1) by simp
  next
    case False
    then have "a \<noteq> lf" by auto
    then show ?thesis using 2(2-) False by (auto split: list.splits)
  qed
qed simp

lemma is_text_lf_to_crlf: "is_text (lf_to_crlf s) = is_text s"
proof -
  have "CHR 0x00 \<in> set (lf_to_crlf s) \<longleftrightarrow> CHR 0x00 \<in> set s" by (induction s) (auto simp: lf_def cr_def)
  then show ?thesis by (simp add: is_text_def utf8_ok_lf_to_crlf)
qed

lemma cr_to_lf_free: "cr \<notin> set s \<Longrightarrow> cr_to_lf s = s"
  by (induction s) (auto simp: cr_to_lf_def)

lemma canonical_text_crlf:
  assumes "is_text s" and "cr \<notin> set s"
  shows "canonical_text_bytes (lf_to_crlf s) = s" and "canonical_text_bytes s = s"
  using assms is_text_lf_to_crlf[of s]
  by (simp_all add: canonical_text_bytes_def is_text_def crlf_inverse crlf_free cr_to_lf_free)

section \<open>Properties\<close>

text \<open>
  A normalised path is a non-empty sequence of parts joined by slashes, none of them empty, a dot or
  two dots and none with a slash, a backslash or a NUL; so it names something below the repository.
  Normalising it again gives the same path, unless it begins like a drive, which is refused.
\<close>

theorem canonical_path_shape:
  assumes "normalize_path raw = Inr p"
  shows "\<exists>parts. p = join [slash] parts \<and> split_char slash p = parts \<and> parts \<noteq> [] \<and>
    (\<forall>q \<in> set parts. q \<noteq> '''' \<and> q \<noteq> ''.'' \<and> q \<noteq> ''..'' \<and> slash \<notin> set q \<and> CHR 0x5C \<notin> set q \<and> CHR 0x00 \<notin> set q) \<and>
    normalize_path p =
      (if drive_prefix p then Inl (CanonicalPathError ''PATH_DRIVE_PREFIX'' p) else Inr p)"
proof -
  from assms obtain parts where p: "p = join [slash] parts" "parts \<noteq> []" "\<forall>q \<in> set parts. good_part q"
    by (rule normalize_path_Inr)
  show ?thesis
    using join_good(1)[OF p(2,3)] normalize_good[OF p(2,3)] p
    by (intro exI[of _ parts]) (auto simp: good_part_def proper_part_def)
qed

theorem canonical_path_shape_witness:
  "''a/b'' = join [slash] [''a'', ''b''] \<and> normalize_path ''a/b'' = Inr ''a/b''"
proof -
  have n: "normalize_path [CHR ''.'', slash, CHR ''a'', CHR 0x5C, slash, CHR ''b''] = Inr ''a/b''" by code_simp
  have d: "drive_prefix ''a/b'' = False" "split_char slash ''a/b'' = [''a'', ''b'']" by code_simp+
  from canonical_path_shape[OF n] obtain parts where p: "''a/b'' = join [slash] parts"
    "split_char slash ''a/b'' = parts"
    "normalize_path ''a/b'' = (if drive_prefix ''a/b'' then Inl (CanonicalPathError ''PATH_DRIVE_PREFIX'' ''a/b'') else Inr ''a/b'')"
    by (elim exE conjE) (rule that)
  show ?thesis using p(1,3) unfolding d(1) p(2)[symmetric, unfolded d(2)] if_False by (rule conjI)
qed

text \<open>The exception exists: the result of one call is refused by the next.\<close>

lemma drive_slips_through:
  "normalize_path ''./C:/x'' = Inr ''C:/x'' \<and>
   normalize_path ''C:/x'' = Inl (CanonicalPathError ''PATH_DRIVE_PREFIX'' ''C:/x'')"
  by code_simp

text \<open>
  The manifest does not depend on how a checkout writes line ends: outside the opaque directory, a
  text has the same digest with LF as with CR LF, and what is hashed is the text with LF.
\<close>

lemma manifest_line_endings:
  assumes "normalize_path relative = Inr p" and "\<not> opaque_path p" and "is_text s" and "cr \<notin> set s"
  shows "manifest_digest sha relative (lf_to_crlf s) = manifest_digest sha relative s \<and>
    manifest_bytes relative s = Inr s"
  using assms canonical_text_crlf[OF assms(3,4)] by (simp add: manifest_digest_def manifest_bytes_def)

end
