(* ===== verification/TextCodecs.thy ===== *)
theory TextCodecs
  imports Prelude
begin

text \<open>
  Two parts of Python's standard library that the code relies on, as far as it uses them: the URL-safe
  Base64 of bytes without padding (\<open>base64.urlsafe_b64encode\<close> and the lenient \<open>urlsafe_b64decode\<close>, which
  skips characters outside the alphabet), and searching a text for a regular expression built from
  characters, repeated characters and word boundaries.  Bytes are numbers below 256.
\<close>

section \<open>Base64\<close>

definition b64_char :: "nat \<Rightarrow> char" where
  "b64_char n = char_of (if n < 26 then 65 + n else if n < 52 then 71 + n else if n < 62 then n - 4
     else if n = 62 then 45 else 95)"

fun b64_encode :: "nat list \<Rightarrow> string" where
  "b64_encode [] = []"
| "b64_encode [a] = [b64_char (a div 4), b64_char (a mod 4 * 16)]"
| "b64_encode [a, b] = [b64_char (a div 4), b64_char (a mod 4 * 16 + b div 16), b64_char (b mod 16 * 4)]"
| "b64_encode (a # b # c # s) =
     b64_char (a div 4) # b64_char (a mod 4 * 16 + b div 16) # b64_char (b mod 16 * 4 + c div 64) #
     b64_char (c mod 64) # b64_encode s"

text \<open>The decoder also reads the plain alphabet.\<close>

definition b64_value :: "char \<Rightarrow> nat option" where
  "b64_value c = (let n = code_of c in
     if 65 \<le> n \<and> n \<le> 90 then Some (n - 65) else if 97 \<le> n \<and> n \<le> 122 then Some (n - 71)
     else if 48 \<le> n \<and> n \<le> 57 then Some (n + 4) else if n = 43 \<or> n = 45 then Some 62
     else if n = 47 \<or> n = 95 then Some 63 else None)"

definition pad_char :: char where
  "pad_char = CHR ''=''"

fun b64_scan :: "nat \<Rightarrow> nat \<Rightarrow> nat \<Rightarrow> nat list \<Rightarrow> string \<Rightarrow> nat list option" where
  "b64_scan quad left pads out [] = (if quad = 0 then Some out else None)"
| "b64_scan quad left pads out (c # s) =
     (if c = pad_char
      then (if 2 \<le> quad \<and> 4 \<le> quad + Suc pads then Some out
            else b64_scan quad left (if 2 \<le> quad then Suc pads else pads) out s)
      else case b64_value c of
        None \<Rightarrow> b64_scan quad left pads out s
      | Some v \<Rightarrow>
          if quad = 0 then b64_scan 1 v 0 out s
          else if quad = 1 then b64_scan 2 (v mod 16) 0 (out @ [left * 4 + v div 16]) s
          else if quad = 2 then b64_scan 3 (v mod 4) 0 (out @ [left * 16 + v div 4]) s
          else b64_scan 0 0 0 (out @ [left * 64 + v]) s)"

definition b64_padding :: "string \<Rightarrow> string" where
  "b64_padding s = replicate ((4 - length s mod 4) mod 4) pad_char"

definition is_ascii :: "string \<Rightarrow> bool" where
  "is_ascii s \<longleftrightarrow> list_all (\<lambda>c. code_of c < 128) s"

definition b64_decode :: "string \<Rightarrow> nat list option" where
  "b64_decode s = (if is_ascii s then b64_scan 0 0 0 [] (s @ b64_padding s) else None)"

definition bytes_ok :: "nat list \<Rightarrow> bool" where
  "bytes_ok bs \<longleftrightarrow> list_all (\<lambda>b. b < 256) bs"

lemma code_of_char_of [simp]: "n < 256 \<Longrightarrow> code_of (char_of n) = n"
  by (simp add: code_of_def)

lemma code_b64_char:
  "n < 64 \<Longrightarrow> code_of (b64_char n) = (if n < 26 then 65 + n else if n < 52 then 71 + n else if n < 62 then n - 4
     else if n = 62 then 45 else 95)"
  by (simp add: b64_char_def)

lemma b64_value_char [simp]: "n < 64 \<Longrightarrow> b64_value (b64_char n) = Some n"
  by (auto simp: b64_value_def code_b64_char Let_def)

lemma b64_char_plain: "n < 64 \<Longrightarrow> b64_char n \<noteq> CHR ''='' \<and> b64_char n \<noteq> CHR ''.'' \<and> code_of (b64_char n) < 128"
proof -
  assume n: "n < 64"
  have "code_of (b64_char n) \<noteq> 61" "code_of (b64_char n) \<noteq> 46" "code_of (b64_char n) < 128"
    using n by (auto simp: code_b64_char)
  then show ?thesis by (auto simp: code_of_def)
qed

lemma b64_encode_plain:
  "bytes_ok bs \<Longrightarrow> c \<in> set (b64_encode bs) \<Longrightarrow> c \<noteq> CHR ''='' \<and> c \<noteq> CHR ''.'' \<and> code_of c < 128"
proof (induction bs rule: b64_encode.induct)
  case (2 a)
  then show ?case using b64_char_plain by (auto simp: bytes_ok_def)
next
  case (3 a b)
  then show ?case using b64_char_plain by (auto simp: bytes_ok_def)
next
  case (4 a b c s)
  then show ?case using b64_char_plain by (auto simp: bytes_ok_def)
qed simp

lemma b64_scan_value:
  assumes "n < 64"
  shows "b64_scan quad left pads out (b64_char n # s) =
    (if quad = 0 then b64_scan 1 n 0 out s
     else if quad = 1 then b64_scan 2 (n mod 16) 0 (out @ [left * 4 + n div 16]) s
     else if quad = 2 then b64_scan 3 (n mod 4) 0 (out @ [left * 16 + n div 4]) s
     else b64_scan 0 0 0 (out @ [left * 64 + n]) s)"
  using b64_char_plain[OF assms] assms by (simp add: pad_char_def)

lemma sextets:
  fixes a b c :: nat
  assumes "a < 256" "b < 256" "c < 256"
  shows "a div 4 < 64" "a mod 4 * 16 + b div 16 < 64" "b mod 16 * 4 + c div 64 < 64" "c mod 64 < 64"
    "a mod 4 * 16 < 64" "b mod 16 * 4 < 64"
    "a div 4 * 4 + (a mod 4 * 16 + b div 16) div 16 = a"
    "(a mod 4 * 16 + b div 16) mod 16 * 16 + (b mod 16 * 4 + c div 64) div 4 = b"
    "(b mod 16 * 4 + c div 64) mod 4 * 64 + c mod 64 = c"
    "a div 4 * 4 + (a mod 4 * 16) div 16 = a"
    "(a mod 4 * 16 + b div 16) mod 16 * 16 + (b mod 16 * 4) div 4 = b"
proof -
  have small: "b div 16 < 16" "c div 64 < 4" using assms by simp_all
  have low: "a mod 4 < 4" "b mod 16 < 16" by simp_all
  show "a div 4 < 64" "c mod 64 < 64" using assms by simp_all
  show "a mod 4 * 16 + b div 16 < 64" "b mod 16 * 4 + c div 64 < 64" "a mod 4 * 16 < 64" "b mod 16 * 4 < 64"
    using small low by linarith+
  have ab: "(a mod 4 * 16 + b div 16) div 16 = a mod 4" "(a mod 4 * 16 + b div 16) mod 16 = b div 16"
    using small by simp_all
  have bc: "(b mod 16 * 4 + c div 64) div 4 = b mod 16" "(b mod 16 * 4 + c div 64) mod 4 = c div 64"
    using small by simp_all
  show "a div 4 * 4 + (a mod 4 * 16 + b div 16) div 16 = a" "a div 4 * 4 + (a mod 4 * 16) div 16 = a"
    unfolding ab by simp_all
  show "(a mod 4 * 16 + b div 16) mod 16 * 16 + (b mod 16 * 4 + c div 64) div 4 = b"
    "(a mod 4 * 16 + b div 16) mod 16 * 16 + (b mod 16 * 4) div 4 = b"
    unfolding ab bc by simp_all
  show "(b mod 16 * 4 + c div 64) mod 4 * 64 + c mod 64 = c" unfolding bc by simp
qed

lemma b64_padding_short: "b64_padding [x, y] = [pad_char, pad_char]" "b64_padding [x, y, z] = [pad_char]"
proof -
  have "(4 - length [x, y] mod 4) mod 4 = Suc (Suc 0)" "(4 - length [x, y, z] mod 4) mod 4 = Suc 0" by simp_all
  then show "b64_padding [x, y] = [pad_char, pad_char]" "b64_padding [x, y, z] = [pad_char]"
    by (simp_all only: b64_padding_def replicate.simps)
qed

lemma b64_scan_pad:
  "b64_scan 2 left 0 out [pad_char, pad_char] = Some out" "b64_scan 3 left 0 out [pad_char] = Some out"
  by simp_all

lemma b64_scan_step:
  "n < 64 \<Longrightarrow> b64_scan 0 left pads out (b64_char n # s) = b64_scan 1 n 0 out s"
  "n < 64 \<Longrightarrow> b64_scan 1 left pads out (b64_char n # s) = b64_scan 2 (n mod 16) 0 (out @ [left * 4 + n div 16]) s"
  "n < 64 \<Longrightarrow> b64_scan 2 left pads out (b64_char n # s) = b64_scan 3 (n mod 4) 0 (out @ [left * 16 + n div 4]) s"
  "n < 64 \<Longrightarrow> b64_scan 3 left pads out (b64_char n # s) = b64_scan 0 0 0 (out @ [left * 64 + n]) s"
  by (simp_all only: b64_scan_value) simp_all

lemma b64_roundtrip_scan:
  "bytes_ok bs \<Longrightarrow> b64_scan 0 0 0 out (b64_encode bs @ b64_padding (b64_encode bs)) = Some (out @ bs)"
proof (induction bs arbitrary: out rule: b64_encode.induct)
  case 1
  show ?case by (simp add: b64_padding_def)
next
  case (2 a)
  then have a: "a < 256" by (simp add: bytes_ok_def)
  note sx = sextets[OF a, of 0 0, OF zero_less_numeral zero_less_numeral]
  show ?case
    unfolding b64_encode.simps b64_padding_short append.simps b64_scan_step(1)[OF sx(1)] b64_scan_step(2)[OF sx(5)]
      sx(10) b64_scan_pad by (rule refl)
next
  case (3 a b)
  then have ab: "a < 256" "b < 256" by (simp_all add: bytes_ok_def)
  note sx = sextets[OF ab, of 0, OF zero_less_numeral]
  show ?case
    unfolding b64_encode.simps b64_padding_short append.simps b64_scan_step(1)[OF sx(1)] b64_scan_step(2)[OF sx(2)]
      b64_scan_step(3)[OF sx(6)] sx(7) sx(11) b64_scan_pad append_assoc by (rule refl)
next
  case (4 a b c s)
  then have abc: "a < 256" "b < 256" "c < 256" "bytes_ok s" by (simp_all add: bytes_ok_def)
  note sx = sextets[OF abc(1-3)]
  have pad: "b64_padding (b64_encode (a # b # c # s)) = b64_padding (b64_encode s)" by (simp add: b64_padding_def)
  show ?case
    unfolding pad
    unfolding b64_encode.simps append.simps b64_scan_step(1)[OF sx(1)] b64_scan_step(2)[OF sx(2)]
      b64_scan_step(3)[OF sx(3)] b64_scan_step(4)[OF sx(4)] sx(7) sx(8) sx(9) append_assoc
    using 4(1)[OF abc(4), of "out @ [a, b, c]"] by simp
qed

lemma b64_roundtrip: "bytes_ok bs \<Longrightarrow> b64_decode (b64_encode bs) = Some bs"
  using b64_roundtrip_scan[of bs "[]"] b64_encode_plain[of bs]
  by (auto simp: b64_decode_def is_ascii_def list_all_iff)

section \<open>Regular expressions\<close>

datatype rx = RSym "char \<Rightarrow> bool" | RStar "char \<Rightarrow> bool" | REdge

text \<open>\<open>\w\<close> on Latin-1.\<close>

definition word_char :: "char \<Rightarrow> bool" where
  "word_char c \<longleftrightarrow> (let n = code_of c in
     (48 \<le> n \<and> n \<le> 57) \<or> (65 \<le> n \<and> n \<le> 90) \<or> n = 95 \<or> (97 \<le> n \<and> n \<le> 122) \<or>
     n \<in> {170, 178, 179, 181, 185, 186, 188, 189, 190} \<or> (192 \<le> n \<and> n \<noteq> 215 \<and> n \<noteq> 247))"

definition word_at :: "char option \<Rightarrow> bool" where
  "word_at p = (case p of None \<Rightarrow> False | Some c \<Rightarrow> word_char c)"

text \<open>Whether the expression matches at the beginning of \<open>s\<close>, which \<open>prev\<close> stands before.\<close>

fun rx_match :: "rx list \<Rightarrow> char option \<Rightarrow> string \<Rightarrow> bool" where
  "rx_match [] prev s \<longleftrightarrow> True"
| "rx_match (RSym P # r) prev [] \<longleftrightarrow> False"
| "rx_match (RSym P # r) prev (c # s) \<longleftrightarrow> P c \<and> rx_match r (Some c) s"
| "rx_match (REdge # r) prev s \<longleftrightarrow>
     word_at prev \<noteq> word_at (case s of [] \<Rightarrow> None | c # _ \<Rightarrow> Some c) \<and> rx_match r prev s"
| "rx_match (RStar P # r) prev [] \<longleftrightarrow> rx_match r prev []"
| "rx_match (RStar P # r) prev (c # s) \<longleftrightarrow>
     rx_match r prev (c # s) \<or> (P c \<and> rx_match (RStar P # r) (Some c) s)"

fun rx_search :: "rx list \<Rightarrow> char option \<Rightarrow> string \<Rightarrow> bool" where
  "rx_search r prev [] \<longleftrightarrow> rx_match r prev []"
| "rx_search r prev (c # s) \<longleftrightarrow> rx_match r prev (c # s) \<or> rx_search r (Some c) s"

definition rx_lit :: "string \<Rightarrow> rx list" where
  "rx_lit s = map (\<lambda>c. RSym (\<lambda>d. d = c)) s"

definition rx_some :: "(char \<Rightarrow> bool) \<Rightarrow> rx list" where
  "rx_some P = [RSym P, RStar P]"

end
