(* ===== verification/CapabilityTokens.thy ===== *)
theory CapabilityTokens
  imports TextCodecs JsonText
begin

text \<open>
  The capabilities of \<open>syntavra_runtime/capability_security.py\<close>: which tool calls are allowed, and signed,
  expiring tokens for one call, used once.  The keyed hash, SHA-256 of bytes, \<open>json.loads\<close>, \<open>str\<close> of a value
  that is no string and the text of a float are parameters; the token text itself (Base64 of the canonical
  body, a dot, Base64 of the signature) is modelled.  The state is the key and the table \<open>consumed\<close>.
\<close>

section \<open>Decisions\<close>

record capability_env =
  ce_show :: "rat \<Rightarrow> string"
  ce_str :: "pyval \<Rightarrow> string"
  ce_sha :: "nat list \<Rightarrow> string"
  ce_hmac :: "nat list \<Rightarrow> nat list \<Rightarrow> nat list"
  ce_loads :: "nat list \<Rightarrow> pyval option"

definition read_prefixes :: "string list" where
  "read_prefixes = [''read'', ''search'', ''list'', ''find'', ''inspect'', ''grep'']"

definition write_prefixes :: "string list" where
  "write_prefixes = [''write'', ''edit'', ''patch'', ''delete'', ''move'', ''create'', ''update'']"

definition exec_prefixes :: "string list" where
  "exec_prefixes = [''run'', ''exec'', ''shell'', ''terminal'', ''bash'', ''powershell'', ''cmd'']"

definition network_prefixes :: "string list" where
  "network_prefixes = [''web'', ''http'', ''fetch'', ''download'', ''upload'', ''request'', ''browser'']"

definition dot :: char where
  "dot = CHR ''.''"

definition tool_leaf :: "string \<Rightarrow> string" where
  "tool_leaf tool = last (split_char dot (map (\<lambda>c. if c = CHR ''-'' \<or> c = CHR ''_'' then dot else c) (py_casefold tool)))"

definition has_prefix :: "string list \<Rightarrow> string \<Rightarrow> bool" where
  "has_prefix prefixes s \<longleftrightarrow> list_ex (\<lambda>p. starts_with p s) prefixes"

datatype tool_category = ReadTool | WriteTool | ExecuteTool | NetworkTool | UnknownTool

definition category_of :: "string \<Rightarrow> tool_category" where
  "category_of tool =
     (let leaf = tool_leaf tool in
      if has_prefix read_prefixes leaf then ReadTool
      else if has_prefix write_prefixes leaf then WriteTool
      else if has_prefix exec_prefixes leaf then ExecuteTool
      else if has_prefix network_prefixes leaf then NetworkTool
      else UnknownTool)"

text \<open>\<open>_DESTRUCTIVE_RE\<close> of \<open>platform_common.py\<close>, on the text without upper case.\<close>

definition lower_letter :: "char \<Rightarrow> bool" where
  "lower_letter c \<longleftrightarrow> 97 \<le> code_of c \<and> code_of c \<le> 122"

definition any_char :: "char \<Rightarrow> bool" where
  "any_char c \<longleftrightarrow> code_of c \<noteq> 10"

definition destructive_rx :: "rx list list" where
  "destructive_rx =
     [[REdge] @ rx_lit ''rm'' @ rx_some py_space @ rx_lit ''-rf'' @ [REdge],
      [REdge] @ rx_lit ''git'' @ rx_some py_space @ rx_lit ''reset'' @ rx_some py_space @ rx_lit ''--hard'' @ [REdge],
      [REdge] @ rx_lit ''git'' @ rx_some py_space @ rx_lit ''clean'' @ rx_some py_space @ rx_lit ''-'' @
        [RStar lower_letter, RSym (\<lambda>c. c \<in> set ''fdx'')],
      [REdge] @ rx_lit ''mkfs.'',
      [REdge] @ rx_lit ''format'' @ rx_some py_space @ [RSym lower_letter] @ rx_lit '':'',
      rx_lit ''remove-item'' @ rx_some py_space @ [RStar any_char] @ rx_lit ''-recurse'' @ [RStar any_char] @ rx_lit ''-force'']"

definition destructive :: "string \<Rightarrow> bool" where
  "destructive text \<longleftrightarrow> list_ex (\<lambda>r. rx_search r None (py_casefold text)) destructive_rx"

definition string_of :: "capability_env \<Rightarrow> pyval \<Rightarrow> string" where
  "string_of env v = (case v of PyStr s \<Rightarrow> s | _ \<Rightarrow> ce_str env v)"

text \<open>\<open>canonical_json(arguments)\<close> unless the arguments are text already.\<close>

definition rendered_arguments :: "capability_env \<Rightarrow> pyval \<Rightarrow> string" where
  "rendered_arguments env v = (case v of PyStr s \<Rightarrow> s | _ \<Rightarrow> canonical_text (ce_show env) v)"

definition arguments_hash :: "capability_env \<Rightarrow> pyval \<Rightarrow> string" where
  "arguments_hash env v = ce_sha env (utf8_encode (rendered_arguments env v))"

definition policy_text :: "capability_env \<Rightarrow> pyval \<Rightarrow> string" where
  "policy_text env v =
     (case v of
        PyDict kvs \<Rightarrow>
          (case py_get_none kvs ''argv'' of
             PyList vs \<Rightarrow> join '' '' (map (string_of env) vs)
           | PyTuple vs \<Rightarrow> join '' '' (map (string_of env) vs)
           | _ \<Rightarrow> rendered_arguments env v)
      | _ \<Rightarrow> rendered_arguments env v)"

definition argument_host :: "capability_env \<Rightarrow> pyval \<Rightarrow> string" where
  "argument_host env v =
     (case v of PyDict kvs \<Rightarrow> (case map_of kvs ''host'' of None \<Rightarrow> '''' | Some h \<Rightarrow> string_of env h) | _ \<Rightarrow> '''')"

record capability_decision =
  cd_allowed :: bool
  cd_category :: tool_category
  cd_reason :: string
  cd_requirements :: "string list"
  cd_hash :: string
  cd_resource :: string

text \<open>Each check may replace the answer so far, as the assignments of the code do.\<close>

definition deny :: "bool \<Rightarrow> string \<Rightarrow> bool \<times> string \<Rightarrow> bool \<times> string" where
  "deny b reason answer = (if b then (False, reason) else answer)"

definition decide_capability ::
  "capability_env \<Rightarrow> string \<Rightarrow> pyval \<Rightarrow> string \<Rightarrow> bool \<Rightarrow> bool \<Rightarrow> string list \<Rightarrow> capability_decision" where
  "decide_capability env tool args resource sandboxed authorized allowlist =
     (let cat = category_of tool;
          asks = (cat \<in> {WriteTool, ExecuteTool, NetworkTool});
          answer0 = (True, ''policy-allowed'');
          answer1 = deny (cat = UnknownTool) ''unknown-tool-fail-closed'' answer0;
          answer2 = deny (asks \<and> \<not> authorized) ''authorization-required'' answer1;
          answer3 = (if cat = ExecuteTool
            then (if \<not> sandboxed then (False, ''sandbox-required'')
                  else deny (destructive (policy_text env args)) ''destructive-command-denied'' answer2)
            else answer2);
          answer4 = deny (\<not> starts_with ''workspace:'' resource \<and> cat \<in> {WriteTool, ExecuteTool}) ''resource-outside-workspace'' answer3;
          answer5 = deny (cat = NetworkTool \<and> allowlist \<noteq> [] \<and> argument_host env args \<notin> set allowlist)
            ''network-host-not-allowlisted'' answer4
      in \<lparr>cd_allowed = fst answer5, cd_category = cat, cd_reason = snd answer5,
          cd_requirements = [''signed-capability'', ''exact-evidence''] @
            (if asks then [''explicit-user-authorization''] else []) @ (if cat = ExecuteTool then [''sandbox''] else []),
          cd_hash = arguments_hash env args, cd_resource = resource\<rparr>)"

section \<open>Tokens\<close>

record capability_state =
  cs_key :: "nat list"
  cs_consumed :: "(string \<times> string) list"

text \<open>The clock (whole seconds) and the random nonce are arguments.\<close>

definition capability_body ::
  "capability_env \<Rightarrow> int \<Rightarrow> string \<Rightarrow> string \<Rightarrow> string \<Rightarrow> pyval \<Rightarrow> string \<Rightarrow> string list \<Rightarrow> int \<Rightarrow> bool \<Rightarrow> fields" where
  "capability_body env now nonce session tool args resource permissions ttl single =
     [(''version'', PyStr ''0.0.1''), (''channel'', PyStr ''pre-release''), (''session_id'', PyStr session),
      (''tool'', PyStr tool), (''arguments_hash'', PyStr (arguments_hash env args)), (''resource'', PyStr resource),
      (''permissions'', py_strs (sorted_set permissions)), (''issued_at'', PyInt now),
      (''expires_at'', PyInt (now + max 1 ttl)), (''single_use'', PyBool single), (''nonce'', PyStr nonce)]"

definition seal_body :: "capability_env \<Rightarrow> nat list \<Rightarrow> fields \<Rightarrow> string" where
  "seal_body env key body =
     (let payload = b64_encode (utf8_encode (canonical_text (ce_show env) (PyDict body)))
      in payload @ [dot] @ b64_encode (ce_hmac env key (map code_of payload)))"

definition issue_capability ::
  "capability_env \<Rightarrow> capability_state \<Rightarrow> int \<Rightarrow> string \<Rightarrow> string \<Rightarrow> string \<Rightarrow> pyval \<Rightarrow> string \<Rightarrow> string list \<Rightarrow> int \<Rightarrow> bool \<Rightarrow> string" where
  "issue_capability env cs now nonce session tool args resource permissions ttl single =
     seal_body env (cs_key cs) (capability_body env now nonce session tool args resource permissions ttl single)"

text \<open>The signed body of a token, or why there is none.\<close>

definition token_body :: "capability_env \<Rightarrow> nat list \<Rightarrow> string \<Rightarrow> string + pyval" where
  "token_body env key token =
     (if dot \<notin> set token then Inl ''malformed-token''
      else let payload = takeWhile (\<lambda>c. c \<noteq> dot) token; signature = tl (dropWhile (\<lambda>c. c \<noteq> dot) token) in
        if \<not> is_ascii payload then Inl ''malformed-token''
        else case b64_decode signature of
          None \<Rightarrow> Inl ''malformed-token''
        | Some supplied \<Rightarrow>
            if ce_hmac env key (map code_of payload) \<noteq> supplied then Inl ''invalid-signature''
            else (case b64_decode payload of
                None \<Rightarrow> Inl ''malformed-token''
              | Some bytes \<Rightarrow> (case ce_loads env bytes of None \<Rightarrow> Inl ''malformed-token'' | Some v \<Rightarrow> Inr v)))"

record capability_verdict =
  vd_ok :: bool
  vd_reason :: string
  vd_capability :: "fields option"

definition refuse :: "string \<Rightarrow> fields \<Rightarrow> capability_verdict" where
  "refuse reason body = \<lparr>vd_ok = False, vd_reason = reason, vd_capability = Some body\<rparr>"

definition get_default :: "fields \<Rightarrow> string \<Rightarrow> pyval \<Rightarrow> pyval" where
  "get_default kvs k v = (case map_of kvs k of None \<Rightarrow> v | Some w \<Rightarrow> w)"

definition binds :: "capability_env \<Rightarrow> fields \<Rightarrow> string \<Rightarrow> pyval \<Rightarrow> string \<Rightarrow> bool" where
  "binds env body tool args resource \<longleftrightarrow>
     py_get_none body ''tool'' = PyStr tool \<and> py_get_none body ''arguments_hash'' = PyStr (arguments_hash env args) \<and>
     py_get_none body ''resource'' = PyStr resource"

text \<open>
  The part inside the transaction.  \<open>issue\<close> writes a string as the nonce; a signed body with another
  kind of nonce is outside the model and raises here.
\<close>

definition use_nonce :: "string \<Rightarrow> bool \<Rightarrow> fields \<Rightarrow> (capability_state, py_error, capability_verdict) op" where
  "use_nonce stamp consume body =
     (case map_of body ''nonce'' of
        None \<Rightarrow> failS (KeyError ''nonce'')
      | Some (PyStr nonce) \<Rightarrow>
          bindS getS (\<lambda>cs.
          if nonce \<in> set (map fst (cs_consumed cs)) then returnS (refuse ''already-consumed'' body)
          else bindS (modifyS (\<lambda>cs. if consume \<and> py_truth (get_default body ''single_use'' (PyBool True))
              then cs\<lparr>cs_consumed := cs_consumed cs @ [(nonce, stamp)]\<rparr> else cs)) (\<lambda>_.
            returnS \<lparr>vd_ok = True, vd_reason = ''verified'', vd_capability = Some body\<rparr>))
      | Some _ \<Rightarrow> failS (TypeError ''nonce''))"

definition verify_capability ::
  "capability_env \<Rightarrow> int \<Rightarrow> string \<Rightarrow> string \<Rightarrow> string \<Rightarrow> pyval \<Rightarrow> string \<Rightarrow> bool \<Rightarrow>
   (capability_state, py_error, capability_verdict) op" where
  "verify_capability env now stamp token tool args resource consume =
     bindS getS (\<lambda>cs.
     case token_body env (cs_key cs) token of
       Inl reason \<Rightarrow> returnS \<lparr>vd_ok = False, vd_reason = reason, vd_capability = None\<rparr>
     | Inr (PyDict body) \<Rightarrow>
         (case py_int (get_default body ''expires_at'' (PyInt 0)) of
            Inl e \<Rightarrow> failS e
          | Inr expires \<Rightarrow>
              if expires < now then returnS (refuse ''expired'' body)
              else if \<not> binds env body tool args resource then returnS (refuse ''binding-mismatch'' body)
              else use_nonce stamp consume body)
     | Inr _ \<Rightarrow> failS (AttributeError ''get''))"

section \<open>What a decision needs\<close>

lemma deny_fst [simp]: "fst (deny b r a) \<longleftrightarrow> \<not> b \<and> fst a"
  by (simp add: deny_def)

lemma decide_allowed:
  "cd_allowed (decide_capability env tool args resource sandboxed authorized allowlist) \<longleftrightarrow>
   category_of tool \<noteq> UnknownTool \<and> (category_of tool \<noteq> ReadTool \<longrightarrow> authorized) \<and>
   (category_of tool = ExecuteTool \<longrightarrow> sandboxed \<and> \<not> destructive (policy_text env args)) \<and>
   (category_of tool \<in> {WriteTool, ExecuteTool} \<longrightarrow> starts_with ''workspace:'' resource) \<and>
   (category_of tool = NetworkTool \<longrightarrow> allowlist = [] \<or> argument_host env args \<in> set allowlist)"
  by (cases "category_of tool") (auto simp: decide_capability_def Let_def)

section \<open>Tokens that were issued\<close>

lemma bytes_ok_utf8: "bytes_ok (utf8_encode s)"
proof (induction s)
  case (Cons c s)
  have "code_of c < 256" by (simp add: code_of_def)
  then have "192 + code_of c div 64 < 256" "128 + code_of c mod 64 < 256" by simp_all
  then show ?case using Cons by (auto simp: utf8_encode_def bytes_ok_def)
qed (simp add: utf8_encode_def bytes_ok_def)

text \<open>
  \<open>json.loads\<close> reads the canonical text of this object back, and the keyed hash gives bytes.
\<close>

definition reads_back :: "capability_env \<Rightarrow> fields \<Rightarrow> bool" where
  "reads_back env body \<longleftrightarrow>
     ce_loads env (utf8_encode (canonical_text (ce_show env) (PyDict body))) = Some (canon (PyDict body))"

definition hmac_bytes :: "capability_env \<Rightarrow> bool" where
  "hmac_bytes env \<longleftrightarrow> (\<forall>key payload. bytes_ok (ce_hmac env key payload))"

lemma token_of_seal:
  assumes "reads_back env body" and "hmac_bytes env"
  shows "token_body env key (seal_body env key body) = Inr (canon (PyDict body))"
proof -
  let ?p = "b64_encode (utf8_encode (canonical_text (ce_show env) (PyDict body)))"
  let ?sig = "b64_encode (ce_hmac env key (map code_of ?p))"
  note plain = b64_encode_plain[OF bytes_ok_utf8, of _ "canonical_text (ce_show env) (PyDict body)"]
  have nodot: "\<forall>c \<in> set ?p. c \<noteq> dot" using plain by (auto simp: dot_def)
  then have split: "takeWhile (\<lambda>c. c \<noteq> dot) (?p @ dot # ?sig) = ?p" "dropWhile (\<lambda>c. c \<noteq> dot) (?p @ dot # ?sig) = dot # ?sig"
    by simp_all
  have ascii: "is_ascii ?p" using plain by (auto simp: is_ascii_def list_all_iff)
  have sig: "b64_decode ?sig = Some (ce_hmac env key (map code_of ?p))"
    using assms(2) by (intro b64_roundtrip) (simp add: hmac_bytes_def)
  show ?thesis
    using assms(1) ascii sig b64_roundtrip[OF bytes_ok_utf8, of "canonical_text (ce_show env) (PyDict body)"]
    by (simp add: token_body_def seal_body_def Let_def split reads_back_def)
qed

lemma canon_body:
  assumes "body = capability_body env now nonce session tool args resource permissions ttl single"
  defines "stored \<equiv> sort_key fst body"
  shows "canon (PyDict body) = PyDict stored"
    and "map_of stored ''tool'' = Some (PyStr tool)" and "map_of stored ''resource'' = Some (PyStr resource)"
    and "map_of stored ''arguments_hash'' = Some (PyStr (arguments_hash env args))"
    and "map_of stored ''expires_at'' = Some (PyInt (now + max 1 ttl))"
    and "map_of stored ''single_use'' = Some (PyBool single)" and "map_of stored ''nonce'' = Some (PyStr nonce)"
proof -
  have "canon_fields body = body" by (simp add: assms(1) capability_body_def)
  then show "canon (PyDict body) = PyDict stored" by (simp add: stored_def)
  have "distinct (map fst body)" by (simp add: assms(1) capability_body_def)
  then have get: "map_of stored k = map_of body k" for k unfolding stored_def by (rule map_of_sort_key)
  show "map_of stored ''tool'' = Some (PyStr tool)" "map_of stored ''resource'' = Some (PyStr resource)"
    "map_of stored ''arguments_hash'' = Some (PyStr (arguments_hash env args))"
    "map_of stored ''expires_at'' = Some (PyInt (now + max 1 ttl))"
    "map_of stored ''single_use'' = Some (PyBool single)" "map_of stored ''nonce'' = Some (PyStr nonce)"
    unfolding get by (simp_all add: assms(1) capability_body_def)
qed

section \<open>Tokens that were used\<close>

definition new_capabilities :: "capability_state \<Rightarrow> bool" where
  "new_capabilities cs \<longleftrightarrow> cs_consumed cs = []"

definition verify_call :: "capability_env \<Rightarrow> capability_state \<Rightarrow> capability_state \<Rightarrow> bool" where
  "verify_call env cs cs' \<longleftrightarrow> (\<exists>now stamp token tool args resource consume.
     cs' = snd (verify_capability env now stamp token tool args resource consume cs))"

definition used_once :: "capability_state \<Rightarrow> bool" where
  "used_once cs \<longleftrightarrow> distinct (map fst (cs_consumed cs))"

text \<open>A call changes nothing, or accepts a nonce that was not used and records it.\<close>

definition recorded :: "string \<Rightarrow> capability_state \<Rightarrow> capability_state \<Rightarrow> bool" where
  "recorded stamp cs cs' \<longleftrightarrow> cs' = cs \<or>
     (\<exists>nonce. nonce \<notin> set (map fst (cs_consumed cs)) \<and> cs' = cs\<lparr>cs_consumed := cs_consumed cs @ [(nonce, stamp)]\<rparr>)"

lemma use_nonce_str:
  assumes "map_of body ''nonce'' = Some (PyStr nonce)"
  shows "use_nonce stamp consume body cs =
    (if nonce \<in> set (map fst (cs_consumed cs)) then (Inr (refuse ''already-consumed'' body), cs)
     else (Inr \<lparr>vd_ok = True, vd_reason = ''verified'', vd_capability = Some body\<rparr>,
       if consume \<and> py_truth (get_default body ''single_use'' (PyBool True))
       then cs\<lparr>cs_consumed := cs_consumed cs @ [(nonce, stamp)]\<rparr> else cs))"
  using assms by (simp add: use_nonce_def)

lemma use_nonce_other:
  assumes "\<nexists>nonce. map_of body ''nonce'' = Some (PyStr nonce)"
  shows "\<exists>e. use_nonce stamp consume body cs = (Inl e, cs)"
  using assms by (auto simp: use_nonce_def split: option.splits pyval.splits)

lemma use_nonce_state: "recorded stamp cs (snd (use_nonce stamp consume body cs))"
proof (cases "\<exists>nonce. map_of body ''nonce'' = Some (PyStr nonce)")
  case True
  then obtain nonce where "map_of body ''nonce'' = Some (PyStr nonce)" by blast
  from use_nonce_str[OF this] show ?thesis by (auto simp: recorded_def)
next
  case False
  then show ?thesis using use_nonce_other[of body stamp consume cs] by (auto simp: recorded_def)
qed

lemma verify_recorded: "recorded stamp cs (snd (verify_capability env now stamp token tool args resource consume cs))"
proof (cases "token_body env (cs_key cs) token")
  case (Inl reason)
  then show ?thesis by (simp add: verify_capability_def recorded_def)
next
  case (Inr v)
  show ?thesis
  proof (cases v)
    case (PyDict body)
    then show ?thesis
      using Inr use_nonce_state[of stamp cs consume body]
      by (cases "py_int (get_default body ''expires_at'' (PyInt 0))") (simp_all add: verify_capability_def recorded_def)
  qed (simp_all add: verify_capability_def recorded_def Inr)
qed

lemma verify_call_recorded: "verify_call env cs cs' \<Longrightarrow> \<exists>stamp. recorded stamp cs cs'"
  unfolding verify_call_def using verify_recorded by (elim exE) (intro exI, simp only:)

interpretation capability: stateful new_capabilities "verify_call env" used_once for env
proof
  fix s t
  assume u: "used_once s" and "verify_call env s t"
  then obtain stamp where "recorded stamp s t" using verify_call_recorded by blast
  then show "used_once t" using u by (auto simp: used_once_def recorded_def)
qed (simp add: new_capabilities_def used_once_def)

lemma verify_call_keeps:
  assumes "verify_call env cs cs'" and "n \<in> set (map fst (cs_consumed cs))"
  shows "n \<in> set (map fst (cs_consumed cs'))"
proof -
  obtain stamp where "recorded stamp cs cs'" using verify_call_recorded[OF assms(1)] by blast
  then show ?thesis using assms(2) by (auto simp: recorded_def)
qed

text \<open>What an accepted token shows.\<close>

lemma verify_ok:
  assumes "verify_capability env now stamp token tool args resource consume cs = (Inr v, cs')" and "vd_ok v"
  obtains body expires nonce where "token_body env (cs_key cs) token = Inr (PyDict body)" "vd_capability v = Some body"
    "py_int (get_default body ''expires_at'' (PyInt 0)) = Inr expires" "now \<le> expires" "binds env body tool args resource"
    "map_of body ''nonce'' = Some (PyStr nonce)" "nonce \<notin> set (map fst (cs_consumed cs))"
    "cs' = (if consume \<and> py_truth (get_default body ''single_use'' (PyBool True))
       then cs\<lparr>cs_consumed := cs_consumed cs @ [(nonce, stamp)]\<rparr> else cs)"
proof -
  obtain body where b: "token_body env (cs_key cs) token = Inr (PyDict body)"
  proof (cases "token_body env (cs_key cs) token")
    case (Inr w)
    then show thesis using that assms by (cases w) (auto simp: verify_capability_def)
  qed (use assms in \<open>auto simp: verify_capability_def\<close>)
  then obtain expires where e: "py_int (get_default body ''expires_at'' (PyInt 0)) = Inr expires" "\<not> expires < now"
    "binds env body tool args resource" and u: "use_nonce stamp consume body cs = (Inr v, cs')"
    using assms by (cases "py_int (get_default body ''expires_at'' (PyInt 0))")
      (auto simp: verify_capability_def refuse_def split: if_splits)
  obtain nonce where n: "map_of body ''nonce'' = Some (PyStr nonce)"
    using u use_nonce_other[of body stamp consume cs] by auto
  from u[unfolded use_nonce_str[OF n]] have "nonce \<notin> set (map fst (cs_consumed cs))"
    "vd_capability v = Some body"
    "cs' = (if consume \<and> py_truth (get_default body ''single_use'' (PyBool True))
       then cs\<lparr>cs_consumed := cs_consumed cs @ [(nonce, stamp)]\<rparr> else cs)"
    using assms(2) by (auto simp: refuse_def split: if_splits)
  then show thesis using that[OF b _ e(1) _ e(3) n] e(2) by simp
qed

text \<open>Verifying a token that was issued.\<close>

lemma verify_issued:
  assumes "body = capability_body env now nonce session tool args resource permissions ttl single"
    and "reads_back env body" and "hmac_bytes env" and "t \<le> now + max 1 ttl" and "nonce \<notin> set (map fst (cs_consumed cs))"
  shows "verify_capability env t stamp (issue_capability env cs now nonce session tool args resource permissions ttl single)
      tool' args' resource' consume cs =
    (if tool = tool' \<and> arguments_hash env args = arguments_hash env args' \<and> resource = resource'
     then (Inr \<lparr>vd_ok = True, vd_reason = ''verified'', vd_capability = Some (sort_key fst body)\<rparr>,
       if consume \<and> single then cs\<lparr>cs_consumed := cs_consumed cs @ [(nonce, stamp)]\<rparr> else cs)
     else (Inr (refuse ''binding-mismatch'' (sort_key fst body)), cs))"
proof -
  note canon = canon_body[OF assms(1)]
  have token: "token_body env (cs_key cs)
      (issue_capability env cs now nonce session tool args resource permissions ttl single) = Inr (PyDict (sort_key fst body))"
    using token_of_seal[OF assms(2,3)] canon(1) assms(1) by (simp add: issue_capability_def)
  have binds: "binds env (sort_key fst body) tool' args' resource' \<longleftrightarrow>
      tool = tool' \<and> arguments_hash env args = arguments_hash env args' \<and> resource = resource'"
    by (simp add: binds_def py_get_none_def canon(2-4))
  have expires: "py_int (get_default (sort_key fst body) ''expires_at'' (PyInt 0)) = Inr (now + max 1 ttl)"
    by (simp add: get_default_def canon(5) py_int_def)
  have single: "py_truth (get_default (sort_key fst body) ''single_use'' (PyBool True)) = single"
    by (simp add: get_default_def canon(6) py_truth_def)
  show ?thesis
    using assms(4,5) by (simp add: verify_capability_def token binds expires use_nonce_str[OF canon(7)] single)
qed

section \<open>Properties\<close>

text \<open>
  C7. A capability is used once: after a single-use token was accepted and consumed, no call accepts a
  token with that nonce again, whatever was verified in between and whoever presents it.
\<close>

theorem capability_single_use:
  assumes "reaches new_capabilities (verify_call env) cs"
    and "verify_capability env now stamp token tool args resource True cs = (Inr v, cs1)" and "vd_ok v"
    and "vd_capability v = Some body" and "py_truth (get_default body ''single_use'' (PyBool True))"
    and "(verify_call env)\<^sup>*\<^sup>* cs1 cs2"
    and "verify_capability env now' stamp' token' tool' args' resource' consume' cs2 = (Inr v', cs3)"
    and "vd_capability v' = Some body'" and "map_of body' ''nonce'' = map_of body ''nonce''"
  shows "\<not> vd_ok v'"
proof
  assume again: "vd_ok v'"
  obtain nonce where n: "map_of body ''nonce'' = Some (PyStr nonce)"
    and used: "cs1 = cs\<lparr>cs_consumed := cs_consumed cs @ [(nonce, stamp)]\<rparr>"
    using assms(2-5) by (auto elim!: verify_ok)
  have "verify_call env cs cs1" unfolding verify_call_def using assms(2) by (metis snd_conv)
  then have "used_once cs1" using assms(1) by (intro capability.reachable_inv[of env]) (rule reach_step)
  then have "nonce \<in> set (map fst (cs_consumed cs2))"
  proof (rule capability.steps_stable[where Q = "\<lambda>cs. nonce \<in> set (map fst (cs_consumed cs))", OF _ _ assms(6)])
    show "nonce \<in> set (map fst (cs_consumed cs1))" by (simp add: used)
  qed (rule verify_call_keeps)
  moreover obtain nonce' where "map_of body' ''nonce'' = Some (PyStr nonce')" "nonce' \<notin> set (map fst (cs_consumed cs2))"
    using assms(7,8) again by (auto elim!: verify_ok)
  ultimately show False using assms(9) n by simp
qed

text \<open>
  C34. A token that was issued verifies until it expires, for the tool, the arguments and the resource it
  was issued for and for no others, as long as its nonce was not consumed; and it is consumed exactly
  when that is asked for and the token is for a single use.
\<close>

theorem capability_roundtrip:
  assumes "body = capability_body env now nonce session tool args resource permissions ttl single"
    and "reads_back env body" and "hmac_bytes env" and "t \<le> now + max 1 ttl" and "nonce \<notin> set (map fst (cs_consumed cs))"
  shows "verify_capability env t stamp (issue_capability env cs now nonce session tool args resource permissions ttl single)
      tool' args' resource' consume cs =
    (if tool = tool' \<and> arguments_hash env args = arguments_hash env args' \<and> resource = resource'
     then (Inr \<lparr>vd_ok = True, vd_reason = ''verified'', vd_capability = Some (sort_key fst body)\<rparr>,
       if consume \<and> single then cs\<lparr>cs_consumed := cs_consumed cs @ [(nonce, stamp)]\<rparr> else cs)
     else (Inr (refuse ''binding-mismatch'' (sort_key fst body)), cs))"
  using assms by (rule verify_issued)

text \<open>
  A call is allowed exactly when its tool has a known category, the user authorised everything but
  reading, a command is sandboxed and not destructive, writing and executing stay in the workspace, and
  a network host is on the list, if there is one: no later check gives back what an earlier one denied.
\<close>

theorem capability_decision_exact:
  "cd_allowed (decide_capability env tool args resource sandboxed authorized allowlist) \<longleftrightarrow>
   category_of tool \<noteq> UnknownTool \<and> (category_of tool = ReadTool \<or> authorized) \<and>
   (category_of tool \<noteq> ExecuteTool \<or> (sandboxed \<and> \<not> destructive (policy_text env args))) \<and>
   (category_of tool \<notin> {WriteTool, ExecuteTool} \<or> starts_with ''workspace:'' resource) \<and>
   (category_of tool \<noteq> NetworkTool \<or> allowlist = [] \<or> argument_host env args \<in> set allowlist)"
  unfolding decide_allowed by blast

section \<open>Witnesses\<close>

lemma destructive_examples:
  "destructive ''sudo RM  -rf /''" "\<not> destructive ''rm -r -f /''" "destructive ''git clean -xfd''" "\<not> destructive ''farm -rf''"
  by code_simp+

text \<open>A token for a read, with a keyed hash and a parser that know this token alone.\<close>

definition demo_nonce :: string where
  "demo_nonce = ''n1''"

definition plain_env :: capability_env where
  "plain_env = \<lparr>ce_show = (\<lambda>_. ''0.0''), ce_str = (\<lambda>_. ''''), ce_sha = (\<lambda>b. ''h''), ce_hmac = (\<lambda>k p. [7]),
     ce_loads = (\<lambda>_. None)\<rparr>"

definition demo_token_body :: fields where
  "demo_token_body = capability_body plain_env 100 demo_nonce ''s'' ''read'' (PyStr ''x'') ''workspace:/'' [''r''] 60 True"

definition demo_env :: capability_env where
  "demo_env = plain_env\<lparr>ce_loads := (\<lambda>bytes.
     if bytes = utf8_encode (canonical_text (ce_show plain_env) (PyDict demo_token_body)) then Some (canon (PyDict demo_token_body)) else None)\<rparr>"

definition demo_state :: capability_state where
  "demo_state = \<lparr>cs_key = [1, 2, 3], cs_consumed = []\<rparr>"

definition demo_used :: capability_state where
  "demo_used = demo_state\<lparr>cs_consumed := [(demo_nonce, ''now'')]\<rparr>"

definition demo_token :: string where
  "demo_token = issue_capability demo_env demo_state 100 demo_nonce ''s'' ''read'' (PyStr ''x'') ''workspace:/'' [''r''] 60 True"

lemma demo_body_env:
  "demo_token_body = capability_body demo_env 100 demo_nonce ''s'' ''read'' (PyStr ''x'') ''workspace:/'' [''r''] 60 True"
  by (simp add: demo_token_body_def capability_body_def demo_env_def plain_env_def arguments_hash_def rendered_arguments_def)

lemma demo_reads_back: "reads_back demo_env demo_token_body"
  by (simp add: reads_back_def demo_env_def plain_env_def)

lemma demo_hmac: "hmac_bytes demo_env"
  by (simp add: hmac_bytes_def demo_env_def plain_env_def bytes_ok_def)

definition demo_verdict :: capability_verdict where
  "demo_verdict = \<lparr>vd_ok = True, vd_reason = ''verified'', vd_capability = Some (sort_key fst demo_token_body)\<rparr>"

lemma demo_first:
  "verify_capability demo_env 160 ''now'' demo_token ''read'' (PyStr ''x'') ''workspace:/'' True demo_state = (Inr demo_verdict, demo_used)"
  using verify_issued[OF demo_body_env demo_reads_back demo_hmac, of 160 demo_state "''now''" "''read''" "PyStr ''x''" "''workspace:/''" True]
  by (simp add: demo_token_def demo_verdict_def demo_used_def demo_state_def)

lemma demo_again:
  "verify_capability demo_env 160 ''later'' demo_token ''read'' (PyStr ''x'') ''workspace:/'' True demo_used =
     (Inr (refuse ''already-consumed'' (sort_key fst demo_token_body)), demo_used)"
proof -
  note canon = canon_body[OF demo_body_env]
  have key: "cs_key demo_used = cs_key demo_state" by (simp add: demo_used_def)
  have token: "token_body demo_env (cs_key demo_state) demo_token = Inr (PyDict (sort_key fst demo_token_body))"
    using token_of_seal[OF demo_reads_back demo_hmac] canon(1) demo_body_env by (simp add: demo_token_def issue_capability_def)
  have "binds demo_env (sort_key fst demo_token_body) ''read'' (PyStr ''x'') ''workspace:/''"
    by (simp add: binds_def py_get_none_def canon(2-4))
  then show ?thesis
    by (simp add: verify_capability_def key token get_default_def canon(5) py_int_def use_nonce_str[OF canon(7)])
      (simp add: demo_used_def)
qed

theorem capability_single_use_witness:
  "vd_ok demo_verdict \<and> \<not> vd_ok (refuse ''already-consumed'' (sort_key fst demo_token_body))"
proof -
  have start: "reaches new_capabilities (verify_call demo_env) demo_state"
    by (rule reach_init) (simp add: new_capabilities_def demo_state_def)
  have ok: "vd_ok demo_verdict" "vd_capability demo_verdict = Some (sort_key fst demo_token_body)"
    by (simp_all add: demo_verdict_def)
  have single: "py_truth (get_default (sort_key fst demo_token_body) ''single_use'' (PyBool True))"
    by (simp add: get_default_def canon_body(6)[OF demo_body_env] py_truth_def)
  have "\<not> vd_ok (refuse ''already-consumed'' (sort_key fst demo_token_body))"
    by (rule capability_single_use[OF start demo_first ok single rtranclp.rtrancl_refl demo_again]) (simp_all add: refuse_def)
  then show ?thesis using ok by blast
qed

theorem capability_roundtrip_witness:
  "fst (verify_capability demo_env 160 ''now'' demo_token ''read'' (PyStr ''x'') ''workspace:/'' True demo_state) = Inr demo_verdict"
  using capability_roundtrip[OF demo_body_env demo_reads_back demo_hmac, of 160 demo_state "''now''" "''read''" "PyStr ''x''" "''workspace:/''" True]
  by (simp add: demo_token_def demo_verdict_def demo_state_def)
definition demo_call :: pyval where
  "demo_call = PyDict [(''argv'', PyList [PyStr ''rm'', PyStr ''-rf'', PyStr ''/''])]"

theorem capability_decision_exact_witness:
  "\<not> cd_allowed (decide_capability plain_env ''run_shell'' demo_call ''workspace:/'' True True []) \<and>
   cd_allowed (decide_capability plain_env ''run_shell'' (PyStr ''ls'') ''workspace:/'' True True [])"
  unfolding capability_decision_exact by code_simp

end
