(* ===== verification/StreamEvents.thy ===== *)
theory StreamEvents
  imports JsonText HashChain "HOL-Library.Sublist"
begin

text \<open>
  The server-sent event parser of \<open>syntavra_runtime/streaming.py\<close> and the summary built from its events.
  Chunks are lists of bytes, and the parser keeps the state of its strict incremental UTF-8 decoder between
  them.  Texts are Latin-1 here as in the whole development: the decoder of the model refuses the longer
  sequences, which Python's accepts where they are well formed.  The text of the replacing decoder that feeds
  the security scanner (of another module), the digests and \<open>json.loads\<close> are parameters.
\<close>

section \<open>The decoder\<close>

text \<open>
  Its state is the lead byte of a sequence that the last chunk left open.  \<open>None\<close> is a \<open>UnicodeDecodeError\<close>,
  which leaves the decoder as it was before the chunk.
\<close>

fun decode_utf8 :: "nat option \<Rightarrow> nat list \<Rightarrow> (string \<times> nat option) option" where
  "decode_utf8 pending [] = Some ([], pending)"
| "decode_utf8 None (b # bs) =
     (if b < 128 then map_option (apfst ((#) (char_of b))) (decode_utf8 None bs)
      else if b = 194 \<or> b = 195 then decode_utf8 (Some b) bs else None)"
| "decode_utf8 (Some lead) (b # bs) =
     (if 128 \<le> b \<and> b < 192
      then map_option (apfst ((#) (char_of ((lead - 192) * 64 + (b - 128))))) (decode_utf8 None bs) else None)"

section \<open>Events\<close>

datatype stream_error = StreamError string | StreamValueError string

record stream_event =
  sv_sequence :: int
  sv_event :: string
  sv_data :: string
  sv_id :: string
  sv_retry :: "int option"
  sv_hash :: string
  sv_chain :: string

record sse_state =
  ss_max :: int
  ss_pending :: "nat option"
  ss_buffer :: string
  ss_lines :: "string list"
  ss_bytes :: int
  ss_sequence :: int
  ss_chain :: string

text \<open>\<open>se_link\<close> is the digest of the bytes of two digests.\<close>

record stream_env =
  sx_sha :: "pyval \<Rightarrow> string"
  sx_link :: "string \<Rightarrow> string \<Rightarrow> string"
  sx_loads :: "string \<Rightarrow> pyval option"

definition make_sse :: "int \<Rightarrow> stream_error + sse_state" where
  "make_sse limit =
     (if limit < 1024 then Inl (StreamValueError ''max_event_bytes must be at least 1024'')
      else Inr \<lparr>ss_max = limit, ss_pending = None, ss_buffer = '''', ss_lines = [], ss_bytes = 0, ss_sequence = 0, ss_chain = zero_hash\<rparr>)"

record sse_fields =
  sf_event :: string
  sf_id :: string
  sf_retry :: "int option"
  sf_data :: "string list"

text \<open>\<open>str.isdigit\<close> on Latin-1, which also holds for superscripts that \<open>int\<close> refuses.\<close>

definition digit_char :: "char \<Rightarrow> bool" where
  "digit_char c \<longleftrightarrow> py_digit c \<or> code_of c \<in> {178, 179, 185}"

definition is_digit :: "string \<Rightarrow> bool" where
  "is_digit s \<longleftrightarrow> s \<noteq> '''' \<and> list_all digit_char s"

definition colon :: char where
  "colon = CHR '':''"

text \<open>\<open>line.partition(":")\<close> with one leading space of the value removed.\<close>

definition field_name :: "string \<Rightarrow> string" where
  "field_name line = takeWhile (\<lambda>c. c \<noteq> colon) line"

definition field_value :: "string \<Rightarrow> string" where
  "field_value line =
     (let v = tl (dropWhile (\<lambda>c. c \<noteq> colon) line) in case v of [] \<Rightarrow> [] | c # s \<Rightarrow> if c = CHR '' '' then s else v)"

definition read_field :: "string \<Rightarrow> sse_fields \<Rightarrow> stream_error + sse_fields" where
  "read_field line fs =
     (let name = field_name line; v = field_value line in
      if name = ''event'' then Inr (fs\<lparr>sf_event := v\<rparr>)
      else if name = ''id'' \<and> CHR 0x00 \<notin> set v then Inr (fs\<lparr>sf_id := v\<rparr>)
      else if name = ''retry'' \<and> is_digit v
      then (case parse_int v of
          None \<Rightarrow> Inl (StreamValueError (''invalid literal for int() with base 10: '' @ py_repr v))
        | Some n \<Rightarrow> Inr (fs\<lparr>sf_retry := Some n\<rparr>))
      else if name = ''data'' then Inr (fs\<lparr>sf_data := sf_data fs @ [v]\<rparr>)
      else Inr fs)"

fun read_fields :: "string list \<Rightarrow> sse_fields \<Rightarrow> stream_error + sse_fields" where
  "read_fields [] fs = Inr fs"
| "read_fields (line # ls) fs = bindE (read_field line fs) (read_fields ls)"

definition no_fields :: sse_fields where
  "no_fields = \<lparr>sf_event = ''message'', sf_id = '''', sf_retry = None, sf_data = []\<rparr>"

definition event_payload :: "int \<Rightarrow> string \<Rightarrow> string \<Rightarrow> string \<Rightarrow> int option \<Rightarrow> pyval" where
  "event_payload n event data i retry = PyDict
     [(''sequence'', PyInt n), (''event'', PyStr event), (''data'', PyStr data), (''id'', PyStr i),
      (''retry'', case retry of None \<Rightarrow> PyNone | Some r \<Rightarrow> PyInt r)]"

definition lf_char :: char where
  "lf_char = CHR 0x0A"

definition emit_event :: "stream_env \<Rightarrow> sse_state \<Rightarrow> (stream_error + stream_event option) \<times> sse_state" where
  "emit_event env st =
     (if ss_lines st = [] then (Inr None, st\<lparr>ss_bytes := 0\<rparr>)
      else case read_fields (ss_lines st) no_fields of
        Inl e \<Rightarrow> (Inl e, st)
      | Inr fs \<Rightarrow>
          let cleared = st\<lparr>ss_lines := [], ss_bytes := 0\<rparr> in
          if sf_data fs = [] \<and> sf_event fs = ''message'' \<and> sf_id fs = '''' \<and> sf_retry fs = None then (Inr None, cleared)
          else
            let n = ss_sequence st + 1; data = join [lf_char] (sf_data fs);
                h = digest (sx_sha env) (event_payload n (sf_event fs) data (sf_id fs) (sf_retry fs));
                chain = sx_link env (ss_chain st) h
            in (Inr (Some \<lparr>sv_sequence = n, sv_event = sf_event fs, sv_data = data, sv_id = sf_id fs,
                  sv_retry = sf_retry fs, sv_hash = h, sv_chain = chain\<rparr>),
                cleared\<lparr>ss_sequence := n, ss_chain := chain\<rparr>))"

section \<open>Feeding\<close>

definition strip_cr :: "string \<Rightarrow> string" where
  "strip_cr line = (if line \<noteq> [] \<and> last line = CHR 0x0D then butlast line else line)"

definition comment_line :: "string \<Rightarrow> bool" where
  "comment_line line \<longleftrightarrow> (case line of c # _ \<Rightarrow> c = colon | [] \<Rightarrow> False)"

definition text_bytes :: "string \<Rightarrow> int" where
  "text_bytes s = int (length (utf8_encode s))"

lemma rest_shorter:
  assumes "c \<in> set s"
  shows "length (tl (dropWhile (\<lambda>x. x \<noteq> c) s)) < length s"
proof -
  have "dropWhile (\<lambda>x. x \<noteq> c) s \<noteq> []" using assms by (auto simp: dropWhile_eq_Nil_conv)
  then have "length (tl (dropWhile (\<lambda>x. x \<noteq> c) s)) < length (dropWhile (\<lambda>x. x \<noteq> c) s)" by simp
  also have "\<dots> \<le> length s" by (rule length_dropWhile_le)
  finally show ?thesis .
qed

text \<open>One complete line: a blank line ends the event, any other is kept unless it is a comment.\<close>

definition line_step :: "stream_env \<Rightarrow> string \<Rightarrow> sse_state \<Rightarrow> (stream_error + stream_event list) \<times> sse_state" where
  "line_step env line st =
     (if line = ''''
      then (case emit_event env st of
          (Inl e, st') \<Rightarrow> (Inl e, st')
        | (Inr None, st') \<Rightarrow> (Inr [], st')
        | (Inr (Some ev), st') \<Rightarrow> (Inr [ev], st'))
      else
        let st' = st\<lparr>ss_bytes := ss_bytes st + text_bytes line + 1\<rparr> in
        if ss_bytes st' > ss_max st' then (Inl (StreamError ''SSE event exceeds configured maximum''), st')
        else (Inr [], if comment_line line then st' else st'\<lparr>ss_lines := ss_lines st' @ [line]\<rparr>))"

text \<open>The loop over the complete lines of the buffer, which is written back where the loop ends.\<close>

definition first_line :: "string \<Rightarrow> string" where
  "first_line buffer = strip_cr (takeWhile (\<lambda>c. c \<noteq> lf_char) buffer)"

definition rest_lines :: "string \<Rightarrow> string" where
  "rest_lines buffer = tl (dropWhile (\<lambda>c. c \<noteq> lf_char) buffer)"

lemma rest_lines_shorter: "lf_char \<in> set buffer \<Longrightarrow> length (rest_lines buffer) < length buffer"
  unfolding rest_lines_def by (rule rest_shorter)

function feed_loop ::
  "stream_env \<Rightarrow> string \<Rightarrow> sse_state \<Rightarrow> stream_event list \<Rightarrow> (stream_error + stream_event list) \<times> sse_state" where
  "feed_loop env buffer st events =
     (if lf_char \<notin> set buffer then (Inr events, st\<lparr>ss_buffer := buffer\<rparr>)
      else case line_step env (first_line buffer) st of
          (Inl e, st') \<Rightarrow> (Inl e, st'\<lparr>ss_buffer := rest_lines buffer\<rparr>)
        | (Inr evs, st') \<Rightarrow> feed_loop env (rest_lines buffer) st' (events @ evs))"
  by pat_completeness auto
termination
  by (relation "measure (\<lambda>(env, buffer, st, events). length buffer)") (simp_all add: rest_lines_shorter)

declare feed_loop.simps [simp del]

definition feed_chunk ::
  "stream_env \<Rightarrow> nat list \<Rightarrow> sse_state \<Rightarrow> (stream_error + stream_event list) \<times> sse_state" where
  "feed_chunk env chunk st =
     (case decode_utf8 (ss_pending st) chunk of
        None \<Rightarrow> (Inl (StreamError ''stream contains invalid UTF-8''), st)
      | Some (text, pending) \<Rightarrow> feed_loop env (ss_buffer st @ text) (st\<lparr>ss_pending := pending\<rparr>) [])"

text \<open>The end of the stream: the decoder raises where a sequence is still open, and has no text otherwise.\<close>

definition count_tail :: "string \<Rightarrow> sse_state \<Rightarrow> sse_state" where
  "count_tail buffer st =
     (if buffer = '''' then st else st\<lparr>ss_buffer := buffer, ss_bytes := ss_bytes st + text_bytes (strip_cr buffer)\<rparr>)"

definition keep_tail :: "string \<Rightarrow> sse_state \<Rightarrow> sse_state" where
  "keep_tail buffer st =
     (if buffer \<noteq> '''' \<and> \<not> comment_line (strip_cr buffer) then st\<lparr>ss_lines := ss_lines st @ [strip_cr buffer]\<rparr> else st)"

definition finalize_stream :: "stream_env \<Rightarrow> sse_state \<Rightarrow> (stream_error + stream_event list) \<times> sse_state" where
  "finalize_stream env st =
     (if ss_pending st \<noteq> None then (Inl (StreamError ''stream ends with invalid UTF-8''), st)
      else
        let buffer = ss_buffer st; counted = count_tail buffer st in
        if buffer \<noteq> '''' \<and> ss_bytes counted > ss_max counted
        then (Inl (StreamError ''SSE event exceeds configured maximum''), counted)
        else (case emit_event env ((keep_tail buffer counted)\<lparr>ss_buffer := ''''\<rparr>) of
            (Inl e, st') \<Rightarrow> (Inl e, st')
          | (Inr None, st') \<Rightarrow> (Inr [], st')
          | (Inr (Some ev), st') \<Rightarrow> (Inr [ev], st')))"

section \<open>The summary of a stream\<close>

text \<open>
  The scanner: its state after a text, and what it has found.  Its own decoder replaces invalid bytes by
  U+FFFD; what that returned for a chunk is the argument \<open>replaced\<close>.
\<close>

record 'c scanner =
  sc_feed :: "string \<Rightarrow> 'c \<Rightarrow> 'c"
  sc_secrets :: "'c \<Rightarrow> string list"
  sc_injection :: "'c \<Rightarrow> bool"

record 'c processor =
  px_parser :: "sse_state option"
  px_events :: "stream_event list"
  px_secrets :: "string list"
  px_injection :: bool
  px_done :: bool
  px_usage :: "(string \<times> int) list"
  px_errors :: "string list"
  px_scan :: 'c

definition make_processor :: "string \<Rightarrow> int \<Rightarrow> 'c \<Rightarrow> stream_error + 'c processor" where
  "make_processor content_type limit scan =
     (let blank = \<lparr>px_parser = None, px_events = [], px_secrets = [], px_injection = False, px_done = False,
        px_usage = [], px_errors = [], px_scan = scan\<rparr> in
      if has_substring ''event-stream'' (py_casefold content_type)
      then bindE (make_sse limit) (\<lambda>p. Inr (blank\<lparr>px_parser := Some p\<rparr>)) else Inr blank)"

definition usage_keys :: "string list" where
  "usage_keys = [''input_tokens'', ''prompt_tokens'', ''output_tokens'', ''completion_tokens'', ''cached_tokens'',
     ''cache_read_input_tokens'', ''cache_creation_input_tokens'', ''reasoning_tokens'', ''total_tokens'']"

definition int_value :: "pyval \<Rightarrow> int option" where
  "int_value v = (case v of PyInt n \<Rightarrow> Some n | PyBool b \<Rightarrow> Some (if b then 1 else 0) | _ \<Rightarrow> None)"

definition raise_usage :: "string \<Rightarrow> int \<Rightarrow> (string \<times> int) list \<Rightarrow> (string \<times> int) list" where
  "raise_usage k n usage = AList.update k (max (case map_of usage k of None \<Rightarrow> 0 | Some m \<Rightarrow> m) n) usage"

fun collect_usage :: "pyval \<Rightarrow> (string \<times> int) list \<Rightarrow> (string \<times> int) list"
  and collect_usage_list :: "pyval list \<Rightarrow> (string \<times> int) list \<Rightarrow> (string \<times> int) list"
  and collect_usage_fields :: "fields \<Rightarrow> (string \<times> int) list \<Rightarrow> (string \<times> int) list" where
  "collect_usage (PyDict kvs) usage = collect_usage_fields kvs usage"
| "collect_usage (PyList vs) usage = collect_usage_list vs usage"
| "collect_usage _ usage = usage"
| "collect_usage_list [] usage = usage"
| "collect_usage_list (v # vs) usage = collect_usage_list vs (collect_usage v usage)"
| "collect_usage_fields [] usage = usage"
| "collect_usage_fields ((k, v) # kvs) usage =
     collect_usage_fields kvs
       (if py_casefold k \<in> set usage_keys \<and> (case int_value v of Some n \<Rightarrow> n \<ge> 0 | None \<Rightarrow> False)
        then raise_usage (py_casefold k) (case int_value v of Some n \<Rightarrow> n | None \<Rightarrow> 0) usage
        else collect_usage v usage)"

definition accept_event :: "stream_env \<Rightarrow> stream_event \<Rightarrow> 'c processor \<Rightarrow> 'c processor" where
  "accept_event env ev px =
     (let px' = px\<lparr>px_events := px_events px @ [ev]\<rparr> in
      if py_strip (sv_data ev) = ''[DONE]'' then px'\<lparr>px_done := True\<rparr>
      else case sx_loads env (sv_data ev) of
        None \<Rightarrow> px' | Some v \<Rightarrow> px'\<lparr>px_usage := collect_usage v (px_usage px')\<rparr>)"

definition scan_piece :: "'c scanner \<Rightarrow> string \<Rightarrow> 'c processor \<Rightarrow> 'c processor" where
  "scan_piece sc text px =
     (if text = '''' then px
      else let s = sc_feed sc text (px_scan px) in
        px\<lparr>px_scan := s, px_secrets := remdups (px_secrets px @ sc_secrets sc s), px_injection := px_injection px \<or> sc_injection sc s\<rparr>)"

definition stream_message :: "stream_error \<Rightarrow> string option" where
  "stream_message e = (case e of StreamError m \<Rightarrow> Some m | StreamValueError _ \<Rightarrow> None)"

text \<open>Only a \<open>StreamError\<close> is noted before it is raised again.\<close>

definition after_parser ::
  "stream_env \<Rightarrow> 'c processor \<Rightarrow> (stream_error + stream_event list) \<times> sse_state \<Rightarrow> (stream_error + unit) \<times> 'c processor" where
  "after_parser env px result =
     (case result of
        (Inl e, p) \<Rightarrow> (Inl e, px\<lparr>px_parser := Some p,
            px_errors := px_errors px @ (case stream_message e of None \<Rightarrow> [] | Some m \<Rightarrow> [m])\<rparr>)
      | (Inr events, p) \<Rightarrow> (Inr (), fold (accept_event env) events (px\<lparr>px_parser := Some p\<rparr>)))"

definition processor_feed ::
  "stream_env \<Rightarrow> 'c scanner \<Rightarrow> string \<Rightarrow> nat list \<Rightarrow> 'c processor \<Rightarrow> (stream_error + unit) \<times> 'c processor" where
  "processor_feed env sc replaced chunk px =
     (let px' = scan_piece sc replaced px in
      case px_parser px' of
        None \<Rightarrow> (Inr (), px')
      | Some p \<Rightarrow> after_parser env px' (feed_chunk env chunk p))"

record stream_summary =
  su_count :: int
  su_root :: string
  su_usage :: "(string \<times> int) list"
  su_secrets :: "string list"
  su_injection :: bool
  su_done :: bool
  su_errors :: "string list"

definition summary_of :: "'c processor \<Rightarrow> stream_summary" where
  "summary_of px = \<lparr>su_count = int (length (px_events px)),
     su_root = (if px_events px = [] then zero_hash else sv_chain (last (px_events px))),
     su_usage = sort_key fst (px_usage px), su_secrets = sort (px_secrets px), su_injection = px_injection px,
     su_done = px_done px, su_errors = px_errors px\<rparr>"

definition processor_finalize ::
  "stream_env \<Rightarrow> 'c scanner \<Rightarrow> string \<Rightarrow> 'c processor \<Rightarrow> (stream_error + stream_summary) \<times> 'c processor" where
  "processor_finalize env sc replaced px =
     (let px' = scan_piece sc replaced px;
          (r, px2) = (case px_parser px' of
              None \<Rightarrow> (Inr (), px') | Some p \<Rightarrow> after_parser env px' (finalize_stream env p))
      in (case r of Inl e \<Rightarrow> (Inl e, px2) | Inr _ \<Rightarrow> (Inr (summary_of px2), px2)))"

section \<open>Chunks do not matter\<close>

lemma emit_event_buffer: "emit_event env (st\<lparr>ss_buffer := b\<rparr>) = apsnd (\<lambda>s. s\<lparr>ss_buffer := b\<rparr>) (emit_event env st)"
  by (simp add: emit_event_def Let_def split: sum.split)

lemma line_step_buffer: "line_step env l (st\<lparr>ss_buffer := b\<rparr>) = apsnd (\<lambda>s. s\<lparr>ss_buffer := b\<rparr>) (line_step env l st)"
  by (cases "emit_event env st") (auto simp: line_step_def emit_event_buffer Let_def split: sum.split option.split)

lemma feed_loop_buffer: "feed_loop env x (st\<lparr>ss_buffer := b\<rparr>) events = feed_loop env x st events"
proof (induction env x st events arbitrary: b rule: feed_loop.induct)
  case (1 env x st events)
  show ?case
    using 1 by (subst (1 2) feed_loop.simps; cases "line_step env (first_line x) st")
      (auto simp: line_step_buffer split: sum.split)
qed

lemma line_ends:
  assumes "lf_char \<in> set x"
  shows "first_line (x @ y) = first_line x" and "rest_lines (x @ y) = rest_lines x @ y"
proof -
  have "dropWhile (\<lambda>c. c \<noteq> lf_char) x \<noteq> []" using assms by (auto simp: dropWhile_eq_Nil_conv)
  then show "rest_lines (x @ y) = rest_lines x @ y" using assms by (simp add: rest_lines_def)
  show "first_line (x @ y) = first_line x" using assms by (simp add: first_line_def)
qed

text \<open>Feeding two texts together is feeding one after the other; an error leaves the rest unread.\<close>

lemma feed_loop_append:
  "feed_loop env (x @ y) st events =
     (case feed_loop env x st events of
        (Inl e, s) \<Rightarrow> (Inl e, s\<lparr>ss_buffer := ss_buffer s @ y\<rparr>)
      | (Inr es, s) \<Rightarrow> feed_loop env (ss_buffer s @ y) s es)"
proof (induction env x st events rule: feed_loop.induct)
  case (1 env x st events)
  show ?case
  proof (cases "lf_char \<in> set x")
    case False
    then show ?thesis by (simp add: feed_loop.simps[of env x] feed_loop_buffer)
  next
    case True
    obtain r s where step: "line_step env (first_line x) st = (r, s)" by fastforce
    show ?thesis
    proof (cases r)
      case (Inl e)
      then show ?thesis using True step by (simp add: feed_loop.simps[of env x] feed_loop.simps[of env "x @ y"] line_ends)
    next
      case (Inr es)
      have "feed_loop env (x @ y) st events = feed_loop env (rest_lines x @ y) s (events @ es)"
        using True step Inr by (simp add: feed_loop.simps[of env "x @ y"] line_ends)
      also have "\<dots> = (case feed_loop env (rest_lines x) s (events @ es) of
          (Inl e, s) \<Rightarrow> (Inl e, s\<lparr>ss_buffer := ss_buffer s @ y\<rparr>)
        | (Inr es, s) \<Rightarrow> feed_loop env (ss_buffer s @ y) s es)"
        using 1[OF _ step[symmetric] Inr] True by simp
      finally show ?thesis using True step Inr by (simp add: feed_loop.simps[of env x])
    qed
  qed
qed

lemma feed_loop_events:
  "feed_loop env x st events =
     (case feed_loop env x st [] of (Inl e, s) \<Rightarrow> (Inl e, s) | (Inr es, s) \<Rightarrow> (Inr (events @ es), s))"
proof -
  have "feed_loop env x st (before @ events) =
      (case feed_loop env x st events of (Inl e, s) \<Rightarrow> (Inl e, s) | (Inr es, s) \<Rightarrow> (Inr (before @ es), s))" for before events
  proof (induction env x st events rule: feed_loop.induct)
    case (1 env x st events)
    show ?case
      using 1 by (subst (1 2) feed_loop.simps; cases "line_step env (first_line x) st")
        (auto split: sum.split)
  qed
  from this[of events "[]"] show ?thesis by simp
qed

lemma feed_loop_done: "feed_loop env x st events = (Inr es, s) \<Longrightarrow> lf_char \<notin> set (ss_buffer s)"
proof (induction env x st events rule: feed_loop.induct)
  case (1 env x st events)
  then show ?case
    by (subst (asm) (2) feed_loop.simps; cases "line_step env (first_line x) st")
      (auto split: if_splits sum.splits)
qed

text \<open>The decoder: what it decodes of two chunks is what it decodes of both together.\<close>

lemma decode_append:
  "decode_utf8 p (x @ y) = (case decode_utf8 p x of None \<Rightarrow> None | Some (t, q) \<Rightarrow> map_option (apfst ((@) t)) (decode_utf8 q y))"
  by (induction p x rule: decode_utf8.induct) (auto simp: map_option_case split: option.split)

lemma decode_encoded: "decode_utf8 None (utf8_encode t) = Some (t, None)"
proof (induction t)
  case (Cons c t)
  have enc: "utf8_encode (c # t) = (if code_of c < 128 then [code_of c]
      else [192 + code_of c div 64, 128 + code_of c mod 64]) @ utf8_encode t"
    by (simp add: utf8_encode_def)
  have char: "char_of (code_of c) = c" by (simp add: code_of_def)
  show ?case
  proof (cases "code_of c < 128")
    case True
    then show ?thesis using Cons char by (simp add: enc)
  next
    case False
    define n where "n = code_of c"
    have n: "128 \<le> n" "n < 256" using False by (simp_all add: n_def code_of_def)
    have "n div 64 < 4" using n(2) by (simp add: less_mult_imp_div_less)
    moreover have "2 \<le> n div 64" using n(1) by (simp add: less_eq_div_iff_mult_less_eq)
    ultimately have "192 + n div 64 = 194 \<or> 192 + n div 64 = 195" by linarith
    moreover have "128 + n mod 64 < 192" by simp
    moreover have "(192 + n div 64 - 192) * 64 + (128 + n mod 64 - 128) = n" by simp
    ultimately have "decode_utf8 None ((192 + n div 64) # (128 + n mod 64) # utf8_encode t) = Some (char_of n # t, None)"
      using Cons by (simp only: decode_utf8.simps) simp
    then show ?thesis using False char by (simp add: enc n_def)
  qed
qed (simp add: utf8_encode_def)

lemma emit_event_pending: "emit_event env (st\<lparr>ss_pending := q\<rparr>) = apsnd (\<lambda>s. s\<lparr>ss_pending := q\<rparr>) (emit_event env st)"
  by (simp add: emit_event_def Let_def split: sum.split)

lemma line_step_pending: "line_step env l (st\<lparr>ss_pending := q\<rparr>) = apsnd (\<lambda>s. s\<lparr>ss_pending := q\<rparr>) (line_step env l st)"
  by (cases "emit_event env st") (auto simp: line_step_def emit_event_pending Let_def split: sum.split option.split)

lemma feed_loop_pending:
  "feed_loop env x (st\<lparr>ss_pending := q\<rparr>) events = apsnd (\<lambda>s. s\<lparr>ss_pending := q\<rparr>) (feed_loop env x st events)"
proof (induction env x st events rule: feed_loop.induct)
  case (1 env x st events)
  show ?case
    using 1 by (subst (1 2) feed_loop.simps; cases "line_step env (first_line x) st")
      (auto simp: line_step_pending split: sum.split)
qed

lemma feed_loop_keeps_pending: "ss_pending (snd (feed_loop env x st events)) = ss_pending st"
  using arg_cong[OF feed_loop_pending[where env = env and x = x and st = st and q = "ss_pending st" and events = events],
      of "\<lambda>r. ss_pending (snd r)"] by simp

lemma feed_chunk_done:
  "feed_chunk env c st = (Inr es, s) \<Longrightarrow> lf_char \<notin> set (ss_buffer s)"
  by (auto simp: feed_chunk_def split: option.splits dest: feed_loop_done)

text \<open>Feeding two chunks together and one after the other.\<close>

lemma feed_chunk_append_ok:
  assumes "feed_chunk env x st = (Inr es, s)"
  shows "feed_chunk env y s = (Inr es', s') \<Longrightarrow> feed_chunk env (x @ y) st = (Inr (es @ es'), s')"
    and "feed_chunk env y s = (Inl e, s') \<Longrightarrow> \<exists>s''. feed_chunk env (x @ y) st = (Inl e, s'')"
proof -
  obtain t q where d: "decode_utf8 (ss_pending st) x = Some (t, q)"
    and l: "feed_loop env (ss_buffer st @ t) (st\<lparr>ss_pending := q\<rparr>) [] = (Inr es, s)"
    using assms by (auto simp: feed_chunk_def split: option.splits)
  have q: "ss_pending s = q" using feed_loop_keeps_pending[of env "ss_buffer st @ t" "st\<lparr>ss_pending := q\<rparr>" "[]"] l by simp
  have joined: "feed_loop env (ss_buffer st @ t @ u) (st\<lparr>ss_pending := r\<rparr>) [] =
      (case feed_loop env (ss_buffer s @ u) (s\<lparr>ss_pending := r\<rparr>) [] of
         (Inl e, s) \<Rightarrow> (Inl e, s) | (Inr es', s) \<Rightarrow> (Inr (es @ es'), s))" for u r
  proof -
    have "feed_loop env (ss_buffer st @ t) (st\<lparr>ss_pending := r\<rparr>) [] = (Inr es, s\<lparr>ss_pending := r\<rparr>)"
      using feed_loop_pending[where env = env and x = "ss_buffer st @ t" and st = "st\<lparr>ss_pending := q\<rparr>" and q = r and events = "[]"] l by simp
    then show ?thesis
      using feed_loop_append[of env "ss_buffer st @ t" u "st\<lparr>ss_pending := r\<rparr>" "[]"]
        feed_loop_events[of env "ss_buffer s @ u" "s\<lparr>ss_pending := r\<rparr>" es] by simp
  qed
  show "feed_chunk env y s = (Inr es', s') \<Longrightarrow> feed_chunk env (x @ y) st = (Inr (es @ es'), s')"
    using d q joined by (auto simp: feed_chunk_def decode_append split: option.splits)
  show "feed_chunk env y s = (Inl e, s') \<Longrightarrow> \<exists>s''. feed_chunk env (x @ y) st = (Inl e, s'')"
    using d q joined by (auto simp: feed_chunk_def decode_append split: option.splits)
qed

lemma feed_chunk_append_error:
  assumes "feed_chunk env x st = (Inl e, s)"
  shows "\<exists>e' s'. feed_chunk env (x @ y) st = (Inl e', s') \<and> (decode_utf8 (ss_pending st) (x @ y) \<noteq> None \<longrightarrow> e' = e)"
proof (cases "decode_utf8 (ss_pending st) (x @ y)")
  case (Some p)
  then obtain t q u r where d: "decode_utf8 (ss_pending st) x = Some (t, q)" "decode_utf8 (ss_pending st) (x @ y) = Some (t @ u, r)"
    by (auto simp: decode_append split: option.splits)
  then have "fst (feed_loop env (ss_buffer st @ t) st []) = Inl e"
    using assms feed_loop_pending[where env = env and x = "ss_buffer st @ t" and st = st and q = q and events = "[]"] by (simp add: feed_chunk_def prod_eq_iff)
  then have "fst (feed_loop env (ss_buffer st @ t @ u) st []) = Inl e"
    using feed_loop_append[of env "ss_buffer st @ t" u st "[]"] by (simp add: case_prod_beta)
  then have "fst (feed_chunk env (x @ y) st) = Inl e" using d by (simp add: feed_chunk_def feed_loop_pending)
  then show ?thesis by (metis prod.collapse)
qed (simp add: feed_chunk_def)

section \<open>Whole streams\<close>

text \<open>
  Feeding all chunks, up to the first one that raises: the events that were delivered, by the chunks before
  it, the error, and the state it leaves.
\<close>

fun feed_all :: "stream_env \<Rightarrow> nat list list \<Rightarrow> sse_state \<Rightarrow> stream_event list \<times> stream_error option \<times> sse_state" where
  "feed_all env [] st = ([], None, st)"
| "feed_all env (c # cs) st =
     (case feed_chunk env c st of
        (Inl e, s) \<Rightarrow> ([], Some e, s)
      | (Inr es, s) \<Rightarrow> (let (es', err, s') = feed_all env cs s in (es @ es', err, s')))"

definition run_stream ::
  "stream_env \<Rightarrow> nat list list \<Rightarrow> sse_state \<Rightarrow> stream_event list \<times> stream_error option \<times> sse_state" where
  "run_stream env cs st =
     (case feed_all env cs st of
        (es, Some e, s) \<Rightarrow> (es, Some e, s)
      | (es, None, s) \<Rightarrow>
          (case finalize_stream env s of (Inl e, s') \<Rightarrow> (es, Some e, s') | (Inr es', s') \<Rightarrow> (es @ es', None, s')))"

text \<open>All chunks in one.\<close>

lemma feed_all_joined:
  assumes "lf_char \<notin> set (ss_buffer st)"
  shows "feed_all env cs st = (es, None, s) \<Longrightarrow> feed_chunk env (concat cs) st = (Inr es, s)"
    and "feed_all env cs st = (es, Some e, s) \<Longrightarrow>
      \<exists>e' s'. feed_chunk env (concat cs) st = (Inl e', s') \<and> (decode_utf8 (ss_pending st) (concat cs) \<noteq> None \<longrightarrow> e' = e)"
proof -
  have "(case feed_all env cs st of
      (es, None, s) \<Rightarrow> feed_chunk env (concat cs) st = (Inr es, s)
    | (es, Some e, s) \<Rightarrow>
        \<exists>e' s'. feed_chunk env (concat cs) st = (Inl e', s') \<and> (decode_utf8 (ss_pending st) (concat cs) \<noteq> None \<longrightarrow> e' = e))"
    using assms
  proof (induction cs arbitrary: st)
    case Nil
    then show ?case by (simp add: feed_chunk_def feed_loop.simps)
  next
    case (Cons c cs)
    obtain r s where first: "feed_chunk env c st = (r, s)" by fastforce
    show ?case
    proof (cases r)
      case (Inl e)
      then show ?thesis using first feed_chunk_append_error[of env c st e s "concat cs"] by simp
    next
      case (Inr es)
      obtain es' err s' where rest: "feed_all env cs s = (es', err, s')" by (metis prod_cases3)
      have lf: "lf_char \<notin> set (ss_buffer s)" by (rule feed_chunk_done[OF first[unfolded Inr]])
      note ih = Cons.IH[OF lf, unfolded rest]
      show ?thesis
      proof (cases err)
        case None
        then show ?thesis using ih first Inr rest feed_chunk_append_ok(1) by fastforce
      next
        case (Some e)
        then obtain e' s'' where e': "feed_chunk env (concat cs) s = (Inl e', s'')"
          "decode_utf8 (ss_pending s) (concat cs) \<noteq> None \<longrightarrow> e' = e" using ih by auto
        have "decode_utf8 (ss_pending s) (concat cs) \<noteq> None" if "decode_utf8 (ss_pending st) (c @ concat cs) \<noteq> None"
        proof -
          from that have "decode_utf8 (ss_pending st) c \<noteq> None" by (simp add: decode_append split: option.splits)
          then obtain t q where d: "decode_utf8 (ss_pending st) c = Some (t, q)" by auto
          have d': "decode_utf8 q (concat cs) \<noteq> None" using that d by (simp add: decode_append)
          from d have "ss_pending s = q"
            using first Inr feed_loop_keeps_pending[of env "ss_buffer st @ t" "st\<lparr>ss_pending := q\<rparr>" "[]"]
            by (simp add: feed_chunk_def)
          then show ?thesis using d' by simp
        qed
        then show ?thesis
          using e' first Inr rest Some feed_chunk_append_ok(2)[of env c st es s "concat cs" e' s''] by auto
      qed
    qed
  qed
  then show "feed_all env cs st = (es, None, s) \<Longrightarrow> feed_chunk env (concat cs) st = (Inr es, s)"
    and "feed_all env cs st = (es, Some e, s) \<Longrightarrow>
      \<exists>e' s'. feed_chunk env (concat cs) st = (Inl e', s') \<and> (decode_utf8 (ss_pending st) (concat cs) \<noteq> None \<longrightarrow> e' = e)"
    by simp_all
qed

lemma feed_all_append:
  "feed_all env (xs @ ys) st =
     (case feed_all env xs st of
        (es, Some e, s) \<Rightarrow> (es, Some e, s)
      | (es, None, s) \<Rightarrow> (let (es', err, s') = feed_all env ys s in (es @ es', err, s')))"
  by (induction xs arbitrary: st) (auto simp: Let_def split: prod.splits sum.splits option.splits)

text \<open>No cut delivers more events before an error than feeding byte by byte.\<close>

lemma feed_all_bytewise:
  assumes "lf_char \<notin> set (ss_buffer st)"
  shows "prefix (fst (feed_all env cs st)) (fst (feed_all env (map (\<lambda>b. [b]) (concat cs)) st))"
  using assms
proof (induction cs arbitrary: st)
  case (Cons c cs)
  obtain r s where first: "feed_chunk env c st = (r, s)" by fastforce
  show ?case
  proof (cases r)
    case (Inr es)
    have lf: "lf_char \<notin> set (ss_buffer s)" by (rule feed_chunk_done[OF first[unfolded Inr]])
    obtain fs err u where bytes: "feed_all env (map (\<lambda>b. [b]) c) st = (fs, err, u)" by (metis prod_cases3)
    have joined: "concat (map (\<lambda>b. [b]) c) = c" by (induction c) simp_all
    have "err = None" "fs = es" "u = s"
      using feed_all_joined[OF Cons.prems, of env "map (\<lambda>b. [b]) c" fs] bytes first Inr joined by (cases err; auto)+
    then show ?thesis
      using Cons.IH[OF lf] bytes first Inr by (simp add: feed_all_append Let_def case_prod_beta)
  qed (use first in simp)
qed simp

lemma feed_all_cuts:
  assumes "lf_char \<notin> set (ss_buffer st)" and "concat cs = concat cs'"
    and "feed_all env cs st = (es, err, s)" and "feed_all env cs' st = (es', err', s')"
  shows "err = None \<longleftrightarrow> err' = None" and "err = None \<Longrightarrow> es = es' \<and> s = s'" and "prefix es es' \<or> prefix es' es"
    and "decode_utf8 (ss_pending st) (concat cs) \<noteq> None \<Longrightarrow> err = err'"
proof -
  note j = feed_all_joined[OF assms(1), of env cs es] and j' = feed_all_joined[OF assms(1), of env cs' es']
  show none: "err = None \<longleftrightarrow> err' = None" using j j' assms(2-4) by (cases err; cases err') auto
  show "es = es' \<and> s = s'" if "err = None" using j(1) j'(1) assms(2-4) none that by auto
  show "err = err'" if "decode_utf8 (ss_pending st) (concat cs) \<noteq> None"
    using j j' assms(2-4) none that by (cases err; cases err') auto
  show "prefix es es' \<or> prefix es' es"
    using feed_all_bytewise[OF assms(1), of env cs] feed_all_bytewise[OF assms(1), of env cs'] assms(2-4)
    by (metis fst_conv prefix_same_cases)
qed

section \<open>Properties\<close>

text \<open>
  C30. How the network cuts a stream of bytes into chunks does not matter as long as nothing is raised: then
  every other cut of these bytes raises nothing either and gives the same events, with the same numbers and
  chain hashes, and the same final state.  If a cut raises, every cut does; the events delivered before that
  are a prefix of one another, and the error is the same one wherever the bytes are UTF-8.
\<close>

theorem stream_chunking:
  assumes "make_sse limit = Inr st" and "concat cs = concat cs'"
    and "run_stream env cs st = (es, err, s)" and "run_stream env cs' st = (es', err', s')"
  shows "(err = None \<longleftrightarrow> err' = None) \<and> (err = None \<longrightarrow> es = es' \<and> s = s') \<and> (prefix es es' \<or> prefix es' es) \<and>
    (decode_utf8 None (concat cs) \<noteq> None \<longrightarrow> err = err')"
proof -
  have st: "lf_char \<notin> set (ss_buffer st)" "ss_pending st = None"
    using assms(1) by (auto simp: make_sse_def split: if_splits)
  obtain fs ferr u fs' ferr' u' where fed: "feed_all env cs st = (fs, ferr, u)" "feed_all env cs' st = (fs', ferr', u')"
    by (metis prod_cases3)
  note cuts = feed_all_cuts[OF st(1) assms(2) fed]
  show ?thesis
  proof (cases ferr)
    case None
    then have "run_stream env cs st = run_stream env cs' st" using cuts(1,2) fed by (simp add: run_stream_def)
    then show ?thesis using assms(3,4) by simp
  next
    case (Some e)
    then obtain e' where "ferr' = Some e'" using cuts(1) by auto
    then show ?thesis using Some cuts(3,4) fed assms(3,4) st(2) by (auto simp: run_stream_def)
  qed
qed

text \<open>
  The bound on an event is tested at the end of a line: a line that does not end is buffered without any
  limit.  And a \<open>retry\<close> field with a superscript passes \<open>isdigit\<close> and breaks \<open>int\<close>.
\<close>

lemma unfinished_line_unbounded:
  assumes "lf_char \<notin> set (ss_buffer st)" and "lf_char \<notin> set text" and "ss_pending st = None"
  shows "feed_chunk env (utf8_encode text) st = (Inr [], st\<lparr>ss_buffer := ss_buffer st @ text\<rparr>)"
  using assms by (cases st) (simp add: feed_chunk_def feed_loop.simps decode_encoded)

section \<open>Chains\<close>

text \<open>What a chain link stands for: the chain before it and the event.\<close>

definition event_body :: "stream_event \<Rightarrow> pyval" where
  "event_body ev = event_payload (sv_sequence ev) (sv_event ev) (sv_data ev) (sv_id ev) (sv_retry ev)"

fun chained :: "stream_env \<Rightarrow> string \<Rightarrow> stream_event list \<Rightarrow> bool" where
  "chained env h [] \<longleftrightarrow> True"
| "chained env h (ev # evs) \<longleftrightarrow>
     sv_hash ev = digest (sx_sha env) (event_body ev) \<and> sv_chain ev = sx_link env h (sv_hash ev) \<and> chained env (sv_chain ev) evs"

lemma chained_append:
  "chained env h (xs @ ys) \<longleftrightarrow> chained env h xs \<and> chained env (head_hash sv_chain h xs) ys"
  by (induction xs arbitrary: h) (auto simp: head_hash_def)

text \<open>Events that take the parser from one state to another.\<close>

definition run_of :: "stream_env \<Rightarrow> sse_state \<Rightarrow> stream_event list \<Rightarrow> sse_state \<Rightarrow> bool" where
  "run_of env st evs st' \<longleftrightarrow> numbered sv_sequence (ss_sequence st + 1) evs \<and> chained env (ss_chain st) evs \<and>
     ss_sequence st' = ss_sequence st + int (length evs) \<and> ss_chain st' = head_hash sv_chain (ss_chain st) evs"

lemma run_of_append: "run_of env st xs st' \<Longrightarrow> run_of env st' ys st'' \<Longrightarrow> run_of env st (xs @ ys) st''"
  by (auto simp: run_of_def numbered_append chained_append algebra_simps head_hash_def)

lemma run_of_same:
  "ss_sequence st = ss_sequence u \<Longrightarrow> ss_chain st = ss_chain u \<Longrightarrow> run_of env st xs v = run_of env u xs v"
  "ss_sequence st = ss_sequence u \<Longrightarrow> ss_chain st = ss_chain u \<Longrightarrow> run_of env v xs st = run_of env v xs u"
  by (simp_all add: run_of_def)

lemma emit_event_run:
  "emit_event env st = (Inr ev, st') \<Longrightarrow> run_of env st (case ev of None \<Rightarrow> [] | Some e \<Rightarrow> [e]) st'"
  by (auto simp: emit_event_def Let_def run_of_def event_body_def head_hash_def split: if_splits sum.splits)

lemma line_step_run:
  assumes "line_step env l st = (Inr evs, st')"
  shows "run_of env st evs st'"
proof (cases "l = ''''")
  case True
  then obtain ev where "emit_event env st = (Inr ev, st')" "evs = (case ev of None \<Rightarrow> [] | Some e \<Rightarrow> [e])"
    using assms by (auto simp: line_step_def split: prod.splits sum.splits option.splits)
  then show ?thesis using emit_event_run by simp
next
  case False
  then show ?thesis using assms by (auto simp: line_step_def Let_def run_of_def split: if_splits)
qed

lemma feed_loop_run: "feed_loop env x st [] = (Inr evs, st') \<Longrightarrow> run_of env st evs st'"
proof (induction x arbitrary: st evs st' rule: measure_induct_rule[where f = length])
  case (less x)
  show ?case
  proof (cases "lf_char \<in> set x")
    case False
    then show ?thesis using less.prems by (auto simp: feed_loop.simps[of env x] run_of_def)
  next
    case True
    then obtain es s where step: "line_step env (first_line x) st = (Inr es, s)"
      and rest: "feed_loop env (rest_lines x) s es = (Inr evs, st')"
      using less.prems by (auto simp: feed_loop.simps[of env x] split: prod.splits sum.splits)
    from rest obtain es' where "feed_loop env (rest_lines x) s [] = (Inr es', st')" "evs = es @ es'"
      unfolding feed_loop_events[of env "rest_lines x" s es] by (auto split: prod.splits sum.splits)
    then show ?thesis
      using less.IH[OF rest_lines_shorter[OF True]] line_step_run[OF step] by (auto intro: run_of_append)
  qed
qed

lemma feed_chunk_run:
  assumes "feed_chunk env c st = (Inr evs, st')"
  shows "run_of env st evs st'"
proof -
  obtain t q where "feed_loop env (ss_buffer st @ t) (st\<lparr>ss_pending := q\<rparr>) [] = (Inr evs, st')"
    using assms by (auto simp: feed_chunk_def split: option.splits)
  then have "run_of env (st\<lparr>ss_pending := q\<rparr>) evs st'" by (rule feed_loop_run)
  then show ?thesis by (simp add: run_of_def)
qed

lemma feed_all_run: "feed_all env cs st = (evs, None, st') \<Longrightarrow> run_of env st evs st'"
proof (induction cs arbitrary: st evs)
  case (Cons c cs)
  then obtain es s es' where "feed_chunk env c st = (Inr es, s)" "feed_all env cs s = (es', None, st')" "evs = es @ es'"
    by (auto simp: Let_def split: prod.splits sum.splits)
  then show ?case using Cons.IH by (auto intro: run_of_append feed_chunk_run)
qed (simp add: run_of_def)

lemma tail_chain:
  "ss_sequence ((keep_tail b (count_tail b st))\<lparr>ss_buffer := x\<rparr>) = ss_sequence st"
  "ss_chain ((keep_tail b (count_tail b st))\<lparr>ss_buffer := x\<rparr>) = ss_chain st"
  by (simp_all add: keep_tail_def count_tail_def)

lemma finalize_run:
  assumes "finalize_stream env st = (Inr evs, st')"
  shows "run_of env st evs st'"
proof -
  obtain b ev where "emit_event env ((keep_tail b (count_tail b st))\<lparr>ss_buffer := ''''\<rparr>) = (Inr ev, st')"
    "evs = (case ev of None \<Rightarrow> [] | Some e \<Rightarrow> [e])"
    using assms by (auto simp: finalize_stream_def Let_def split: option.splits if_splits prod.splits sum.splits)
  then have "run_of env ((keep_tail b (count_tail b st))\<lparr>ss_buffer := ''''\<rparr>) evs st'" using emit_event_run by simp
  then show ?thesis by (simp only: run_of_same(1)[OF tail_chain])
qed

lemma stream_events_chained:
  assumes "make_sse limit = Inr st" and "run_stream env cs st = (evs, None, st')"
  shows "numbered sv_sequence 1 evs \<and> chained env zero_hash evs \<and> ss_chain st' = head_hash sv_chain zero_hash evs"
proof -
  obtain es s es' where "feed_all env cs st = (es, None, s)" "finalize_stream env s = (Inr es', st')" "evs = es @ es'"
    using assms(2) by (auto simp: run_stream_def split: prod.splits sum.splits option.splits)
  then have "run_of env st evs st'" using feed_all_run finalize_run run_of_append by blast
  then show ?thesis using assms(1) by (auto simp: run_of_def make_sse_def split: if_splits)
qed
section \<open>Witnesses\<close>

definition demo_stream_env :: stream_env where
  "demo_stream_env = \<lparr>sx_sha = (\<lambda>_. ''h''), sx_link = (\<lambda>a b. a @ b), sx_loads = (\<lambda>_. None)\<rparr>"

definition demo_sse :: sse_state where
  "demo_sse = \<lparr>ss_max = 1024, ss_pending = None, ss_buffer = '''', ss_lines = [], ss_bytes = 0, ss_sequence = 0, ss_chain = zero_hash\<rparr>"

lemma demo_sse_made: "make_sse 1024 = Inr demo_sse"
  by (simp add: make_sse_def demo_sse_def)

text \<open>Two ways to cut \<open>data: h\<close> with an acute e and a blank line with CR LF line ends.\<close>

definition demo_pieces :: "nat list list" where
  "demo_pieces = [utf8_encode ''da'', utf8_encode ''ta: h'' @ [195], [169, 13], [10, 13], [10]]"

definition demo_whole :: "nat list" where
  "demo_whole = utf8_encode (''data: h'' @ [CHR 0xE9, CHR 0x0D, lf_char, CHR 0x0D, lf_char])"

lemma demo_stream_event:
  "case feed_all demo_stream_env demo_pieces demo_sse of
     ([ev], None, _) \<Rightarrow> sv_data ev = ''h'' @ [CHR 0xE9] \<and> sv_sequence ev = 1 \<and> sv_chain ev = zero_hash @ ''h'' | _ \<Rightarrow> False"
  by code_simp

theorem stream_chunking_witness:
  "fst (run_stream demo_stream_env demo_pieces demo_sse) = fst (run_stream demo_stream_env [demo_whole] demo_sse) \<and>
   fst (snd (run_stream demo_stream_env [demo_whole] demo_sse)) = None"
proof -
  have cut: "concat demo_pieces = concat [demo_whole]" by code_simp
  have ok: "fst (snd (run_stream demo_stream_env [demo_whole] demo_sse)) = None" by code_simp
  obtain es err s es' err' s' where
    "run_stream demo_stream_env demo_pieces demo_sse = (es, err, s)"
    "run_stream demo_stream_env [demo_whole] demo_sse = (es', err', s')" by (metis prod_cases3)
  with stream_chunking[OF demo_sse_made cut this] ok show ?thesis by auto
qed

definition large_event :: "nat list" where
  "large_event = utf8_encode (''data:'' @ replicate 2000 (CHR ''x'') @ [lf_char])"

definition small_event :: "nat list" where
  "small_event = utf8_encode (''data: hi'' @ [lf_char, lf_char])"

text \<open>
  Where a cut raises: the small event before the large one is delivered when it comes in a chunk of its own,
  and is lost when both come together.  A bad byte after the large event hides the size error.
\<close>

lemma large_event_raises:
  assumes "ss_pending st = None" and "ss_buffer st = ''''" and "0 \<le> ss_bytes st" and "ss_max st \<le> 2000"
  shows "\<exists>s. feed_chunk env large_event st = (Inl (StreamError ''SSE event exceeds configured maximum''), s)"
proof -
  define line where "line = ''data:'' @ replicate 2000 (CHR ''x'')"
  have "length (utf8_encode (replicate n (CHR ''x''))) = n" for n
    by (induction n) (simp_all add: utf8_encode_def code_of_def)
  then have bytes: "2000 \<le> text_bytes line"
    unfolding text_bytes_def line_def by (simp only: utf8_encode_def map_append concat_append length_append)
  have line: "lf_char \<notin> set line" "CHR 0x0D \<notin> set line" "line \<noteq> []"
    unfolding line_def by (simp_all add: lf_char_def)
  then have "takeWhile (\<lambda>c. c \<noteq> lf_char) (line @ [lf_char]) = line"
    by (subst takeWhile_append2) auto
  moreover have "last line \<noteq> CHR 0x0D" using line(2,3) by (metis last_in_set)
  ultimately have first: "first_line (line @ [lf_char]) = line" by (simp add: first_line_def strip_cr_def)
  have "fst (feed_loop env (line @ [lf_char]) st []) = Inl (StreamError ''SSE event exceeds configured maximum'')"
    using assms bytes line(3) by (subst feed_loop.simps) (simp add: first line_step_def Let_def)
  moreover have "large_event = utf8_encode (line @ [lf_char])"
    unfolding large_event_def line_def by (simp only: append_assoc)
  then have "decode_utf8 None large_event = Some (line @ [lf_char], None)" using decode_encoded by metis
  ultimately have "fst (feed_chunk env large_event st) = Inl (StreamError ''SSE event exceeds configured maximum'')"
    using assms(1,2) by (simp add: feed_chunk_def feed_loop_pending)
  then show ?thesis by (metis prod.collapse)
qed

lemma events_lost_with_error:
  "length (fst (run_stream demo_stream_env [small_event, large_event] demo_sse)) = 1 \<and>
   fst (run_stream demo_stream_env [small_event @ large_event] demo_sse) = [] \<and>
   fst (snd (run_stream demo_stream_env [large_event, [255]] demo_sse)) =
     Some (StreamError ''SSE event exceeds configured maximum'') \<and>
   fst (snd (run_stream demo_stream_env [large_event @ [255]] demo_sse)) = Some (StreamError ''stream contains invalid UTF-8'')"
proof -
  have "case feed_chunk demo_stream_env small_event demo_sse of
      (Inr [ev], s) \<Rightarrow> ss_pending s = None \<and> ss_buffer s = '''' \<and> 0 \<le> ss_bytes s \<and> ss_max s \<le> 2000 | _ \<Rightarrow> False"
    by code_simp
  then obtain ev s where small: "feed_chunk demo_stream_env small_event demo_sse = (Inr [ev], s)"
    and s: "ss_pending s = None" "ss_buffer s = ''''" "0 \<le> ss_bytes s" "ss_max s \<le> 2000"
    by (auto split: prod.splits sum.splits list.splits)
  obtain s1 where large: "feed_chunk demo_stream_env large_event s = (Inl (StreamError ''SSE event exceeds configured maximum''), s1)"
    using large_event_raises[OF s] by blast
  obtain s2 where both: "feed_chunk demo_stream_env (small_event @ large_event) demo_sse =
      (Inl (StreamError ''SSE event exceeds configured maximum''), s2)"
    using feed_chunk_append_ok(2)[OF small large] by blast
  obtain s3 where alone: "feed_chunk demo_stream_env large_event demo_sse =
      (Inl (StreamError ''SSE event exceeds configured maximum''), s3)"
    using large_event_raises[of demo_sse] by (auto simp: demo_sse_def)
  have "decode_utf8 None (large_event @ [255]) = None"
    by (simp add: decode_append large_event_def decode_encoded)
  then have bad: "feed_chunk demo_stream_env (large_event @ [255]) demo_sse =
      (Inl (StreamError ''stream contains invalid UTF-8''), demo_sse)"
    by (simp add: feed_chunk_def demo_sse_def)
  show ?thesis by (simp add: run_stream_def small large both alone bad)
qed

text \<open>The superscript two.\<close>

lemma superscript_retry_breaks:
  "case fst (feed_chunk demo_stream_env (utf8_encode (''retry: '' @ [CHR 0xB2, lf_char, lf_char])) demo_sse) of
     Inl (StreamValueError _) \<Rightarrow> True | _ \<Rightarrow> False"
  by code_simp

end
