(* ===== verification/ToolCatalog.thy ===== *)
theory ToolCatalog
  imports JsonText
begin

text \<open>
  The tool catalog of \<open>syntavra_runtime/tool_registry.py\<close> and the call policy of \<open>mcp_policy.py\<close>: which
  tools a profile exposes, the shortened schemas and the arguments decoded back, and which calls are
  allowed.  The token counter, the text of a float and \<open>str\<close> of a value that is no string are parameters.
\<close>

section \<open>Profiles\<close>

definition profile_aliases :: "(string \<times> string) list" where
  "profile_aliases = [(''minimal'', ''minimal''), (''tiny'', ''minimal''), (''balanced'', ''balanced''),
     (''optimized'', ''balanced''), (''audit'', ''audit''), (''full'', ''audit''), (''auto'', ''auto'')]"

definition minimal_tools :: "string list" where
  "minimal_tools = map ((@) ''syntavra.'')
     [''status'', ''inspect.map'', ''process.submit'', ''process.completions'', ''output.capture'', ''output.search'',
      ''output.reveal'', ''session.semantic_context'', ''fabric.route'', ''fabric.doctor'']"

definition balanced_tools :: "string list" where
  "balanced_tools = minimal_tools @ map ((@) ''syntavra.'')
     [''host.detect'', ''inspect.impact'', ''inspect.source'', ''inspect.range'', ''context.evaluate'', ''output.verify'',
      ''output.stats'', ''session.open'', ''session.append'', ''session.search'', ''session.context'', ''session.compact'',
      ''session.verify'', ''sandbox.plan'', ''sandbox.execute'', ''fabric.profile'', ''fabric.insights'',
      ''provider.capabilities'', ''provider.prepare'', ''provider.capture'', ''provider.replay'', ''provider.verify'',
      ''provider.stats'', ''data.route'', ''ecosystem.capabilities'', ''context.pack'']"

record mcp_profile =
  mp_name :: string
  mp_tools :: "string list"
  mp_max_tools :: int
  mp_budget :: int
  mp_timeout :: int
  mp_receipt :: bool
  mp_exact :: bool
  mp_unknown :: bool

definition mcp_profiles :: "(string \<times> mcp_profile) list" where
  "mcp_profiles =
     [(''minimal'', \<lparr>mp_name = ''minimal'', mp_tools = minimal_tools, mp_max_tools = int (length minimal_tools),
        mp_budget = 800, mp_timeout = 120, mp_receipt = True, mp_exact = True, mp_unknown = False\<rparr>),
      (''balanced'', \<lparr>mp_name = ''balanced'', mp_tools = balanced_tools, mp_max_tools = int (length balanced_tools),
        mp_budget = 2000, mp_timeout = 180, mp_receipt = True, mp_exact = True, mp_unknown = False\<rparr>),
      (''audit'', \<lparr>mp_name = ''audit'', mp_tools = [''*''], mp_max_tools = 128,
        mp_budget = 16000, mp_timeout = 300, mp_receipt = True, mp_exact = True, mp_unknown = False\<rparr>)]"

definition normalize_profile :: "string option \<Rightarrow> bool \<Rightarrow> py_error + string" where
  "normalize_profile profile allow_auto =
     (let p = (case profile of None \<Rightarrow> ''minimal'' | Some s \<Rightarrow> if s = '''' then ''minimal'' else s);
          s = py_casefold (py_strip p); requested = (if s = '''' then ''minimal'' else s)
      in case map_of profile_aliases requested of
           None \<Rightarrow> Inl (ValueError (''unknown Syntavra MCP profile: '' @ requested))
         | Some n \<Rightarrow> if n = ''auto'' \<and> \<not> allow_auto then Inl (ValueError (''unknown Syntavra MCP profile: '' @ requested))
             else Inr n)"

definition profile_tools :: "string \<Rightarrow> string list \<Rightarrow> py_error + string list" where
  "profile_tools profile tools =
     bindE (normalize_profile (Some profile) False) (\<lambda>n.
     let available = fromkeys tools in
     if n = ''audit'' then Inr available
     else case map_of mcp_profiles n of
         None \<Rightarrow> Inl (KeyError n)
       | Some p \<Rightarrow> Inr (filter (\<lambda>name. name \<in> set available) (mp_tools p)))"

section \<open>Shortened schemas\<close>

record catalog_env =
  ct_sha :: "pyval \<Rightarrow> string"
  ct_str :: "pyval \<Rightarrow> string"
  ct_show :: "rat \<Rightarrow> string"
  ct_tokens :: "(string \<Rightarrow> int) option"

definition argument_aliases :: "(string \<times> string) list" where
  "argument_aliases =
     [(''repository_tree'', ''repo_tree''), (''continuation_token'', ''cursor''), (''budget_bytes'', ''budget''),
      (''token_budget'', ''budget_tokens''), (''context_lines'', ''lines''), (''timeout_seconds'', ''timeout''),
      (''network_untrusted'', ''untrusted_network''), (''include_superseded'', ''include_old''),
      (''stop_on_failure'', ''stop_on_fail''), (''explicit_user_authorization'', ''user_approved'')]"

definition alias_of :: "string \<Rightarrow> string" where
  "alias_of name = (case map_of argument_aliases name of None \<Rightarrow> name | Some a \<Rightarrow> a)"

definition str_of :: "catalog_env \<Rightarrow> pyval \<Rightarrow> string" where
  "str_of env v = (case v of PyFloat _ \<Rightarrow> ct_str env v | PyList _ \<Rightarrow> ct_str env v | PyTuple _ \<Rightarrow> ct_str env v | PyDict _ \<Rightarrow> ct_str env v
      | _ \<Rightarrow> py_str v)"

record schema_cost =
  co_bytes :: int
  co_tokens :: int
  co_method :: string

text \<open>With the tokenizer library where it is installed, else a quarter of the bytes.\<close>

definition schema_cost_of :: "catalog_env \<Rightarrow> pyval \<Rightarrow> schema_cost" where
  "schema_cost_of env v =
     (let payload = canonical_text (ct_show env) v; n = int (length (utf8_encode payload)) in
      case ct_tokens env of
        Some tok \<Rightarrow> \<lparr>co_bytes = n, co_tokens = tok payload, co_method = ''LOCALLY_TOKENIZED:o200k_base''\<rparr>
      | None \<Rightarrow> \<lparr>co_bytes = n, co_tokens = max 1 ((n + 3) div 4), co_method = ''LOCALLY_ESTIMATED:utf8-bytes-div-4''\<rparr>)"

text \<open>\<open>s.replace(old, new)\<close> for a non-empty \<open>old\<close>.\<close>

function replace_all :: "string \<Rightarrow> string \<Rightarrow> string \<Rightarrow> string" where
  "replace_all old new s =
     (if s = '''' then ''''
      else if old \<noteq> '''' \<and> starts_with old s then new @ replace_all old new (drop (length old) s)
      else hd s # replace_all old new (tl s))"
  by pat_completeness auto
termination by (relation "measure (\<lambda>(old, new, s). length s)") auto

declare replace_all.simps [simp del]

definition description_words :: "(string \<times> string) list" where
  "description_words =
     [(''Inspect '', ''Show ''), (''Retrieve '', ''Read ''), (''Execute '', ''Run ''),
      (''through exact externalization'', ''with exact recovery''), (''query-conditioned '', ''task-scoped ''),
      (''after a cursor'', ''after cursor''), (''and signatures'', ''+ signatures'')]"

definition compact_description :: "string \<Rightarrow> string" where
  "compact_description description =
     (let v = fold (\<lambda>(old, new). replace_all old new) description_words (join '' '' (py_words description));
          ws = py_words v; w = (if length ws > 12 then join '' '' (take 12 ws) else v)
      in rev (dropWhile (\<lambda>c. c = CHR ''.'') (rev w)))"

text \<open>The loop over the properties: the compiled properties and the aliases that were given.\<close>

fun compile_properties :: "fields \<Rightarrow> fields \<Rightarrow> (string \<times> string) list \<Rightarrow> fields \<times> (string \<times> string) list" where
  "compile_properties [] compiled aliases = (compiled, aliases)"
| "compile_properties ((original, v) # kvs) compiled aliases =
     (let a = alias_of original;
          alias = (if a \<in> set (map fst compiled) \<and> a \<noteq> original then original else a)
      in compile_properties kvs (AList.update alias v compiled)
           (if alias \<noteq> original then AList.update alias original aliases else aliases))"

definition delete_key :: "string \<Rightarrow> fields \<Rightarrow> fields" where
  "delete_key k kvs = filter (\<lambda>(k', _). k' \<noteq> k) kvs"

definition compile_required :: "catalog_env \<Rightarrow> pyval \<Rightarrow> pyval option" where
  "compile_required env v =
     (case v of
        PyList vs \<Rightarrow> Some (PyList (map (\<lambda>n. PyStr (alias_of (str_of env n))) vs))
      | PyTuple vs \<Rightarrow> Some (PyList (map (\<lambda>n. PyStr (alias_of (str_of env n))) vs))
      | _ \<Rightarrow> None)"

definition compile_schema :: "catalog_env \<Rightarrow> fields \<Rightarrow> fields \<times> (string \<times> string) list" where
  "compile_schema env schema =
     (let (result1, aliases) = (case py_get_none schema ''properties'' of
            PyDict kvs \<Rightarrow> (let (compiled, aliases) = compile_properties kvs [] [] in
              (AList.update ''properties'' (PyDict compiled) schema, aliases))
          | _ \<Rightarrow> (schema, []));
          result2 = (case compile_required env (py_get_none schema ''required'') of
            None \<Rightarrow> result1 | Some r \<Rightarrow> AList.update ''required'' r result1);
          result3 = delete_key ''$schema'' (delete_key ''title'' result2)
      in (if py_truth (py_get_none result3 ''required'') then result3 else delete_key ''required'' result3, aliases))"

record schema_compilation =
  sm_raw :: schema_cost
  sm_compiled :: schema_cost
  sm_savings :: rat
  sm_catalog_hash :: string
  sm_compiled_hash :: string
  sm_aliases :: "(string \<times> (string \<times> string) list) list"

definition row_name :: "catalog_env \<Rightarrow> fields \<Rightarrow> string" where
  "row_name env row = (case map_of row ''name'' of None \<Rightarrow> '''' | Some v \<Rightarrow> str_of env v)"

definition compile_row :: "catalog_env \<Rightarrow> fields \<Rightarrow> fields \<times> (string \<times> string) list" where
  "compile_row env row =
     (let schema = (case py_get_none row ''inputSchema'' of PyDict kvs \<Rightarrow> kvs | _ \<Rightarrow> [(''type'', PyStr ''object'')]);
          (compiled, aliases) = compile_schema env schema;
          description = (case map_of row ''description'' of None \<Rightarrow> '''' | Some v \<Rightarrow> str_of env v)
      in (AList.update ''inputSchema'' (PyDict compiled)
            (AList.update ''description'' (PyStr (compact_description description)) row), aliases))"

text \<open>The compiler keeps the aliases of the last catalog, by tool.\<close>

definition compile_catalog :: "catalog_env \<Rightarrow> fields list \<Rightarrow> fields list \<times> schema_compilation" where
  "compile_catalog env catalog =
     (let rows = map (\<lambda>row. (row_name env row, compile_row env row)) catalog;
          compiled = map (\<lambda>(_, row, _). row) rows;
          aliases = fold (\<lambda>(name, _, al) m. if al = [] then m else AList.update name al m) rows [];
          raw_cost = schema_cost_of env (PyList (map PyDict catalog));
          new_cost = schema_cost_of env (PyList (map PyDict compiled))
      in (compiled, \<lparr>sm_raw = raw_cost, sm_compiled = new_cost,
            sm_savings = (if co_tokens raw_cost \<le> 0 then 0
              else max 0 (1 - of_int (co_tokens new_cost) / of_int (co_tokens raw_cost))),
            sm_catalog_hash = digest (ct_sha env) (PyList (map PyDict catalog)),
            sm_compiled_hash = digest (ct_sha env) (PyList (map PyDict compiled)), sm_aliases = aliases\<rparr>))"

definition decode_step :: "string \<times> string \<Rightarrow> fields \<Rightarrow> fields" where
  "decode_step = (\<lambda>(alias, original) decoded.
     case map_of decoded alias of
       None \<Rightarrow> decoded
     | Some v \<Rightarrow> if original \<in> set (map fst decoded) then decoded else delete_key alias decoded @ [(original, v)])"

definition decode_with :: "(string \<times> string) list \<Rightarrow> fields \<Rightarrow> fields" where
  "decode_with aliases arguments = fold decode_step aliases arguments"

definition decode_arguments :: "schema_compilation \<Rightarrow> string \<Rightarrow> fields \<Rightarrow> fields" where
  "decode_arguments sm tool arguments =
     decode_with (case map_of (sm_aliases sm) tool of None \<Rightarrow> [] | Some al \<Rightarrow> al) arguments"

definition catalog_by_name :: "(fields \<Rightarrow> string) \<Rightarrow> fields list \<Rightarrow> (string \<times> fields) list" where
  "catalog_by_name name catalog = fold (\<lambda>row m. AList.update (name row) row m) catalog []"

text \<open>\<open>str(row.get("name"))\<close> in the manifest and the policy: an absent name is \<open>None\<close>.\<close>

definition listed_name :: "catalog_env \<Rightarrow> fields \<Rightarrow> string" where
  "listed_name env row = str_of env (py_get_none row ''name'')"

definition select_rows :: "(string \<times> fields) list \<Rightarrow> string list \<Rightarrow> fields list" where
  "select_rows by_name names = List.map_filter (map_of by_name) names"

record profile_manifest_result =
  pf_profile :: string
  pf_selected :: "string list"
  pf_available :: int
  pf_compiled :: "fields list"
  pf_compilation :: schema_compilation
  pf_hash :: string
  pf_within_budget :: bool
  pf_budget :: int

definition profile_manifest :: "catalog_env \<Rightarrow> string \<Rightarrow> fields list \<Rightarrow> py_error + profile_manifest_result" where
  "profile_manifest env profile catalog =
     bindE (normalize_profile (Some profile) False) (\<lambda>n.
     let by_name = catalog_by_name (listed_name env) catalog in
     bindE (profile_tools n (map fst by_name)) (\<lambda>names.
     case map_of mcp_profiles n of
       None \<Rightarrow> Inl (KeyError n)
     | Some p \<Rightarrow>
         let (compiled, compilation) = compile_catalog env (select_rows by_name names) in
         Inr \<lparr>pf_profile = n, pf_selected = names, pf_available = int (length by_name), pf_compiled = compiled,
           pf_compilation = compilation, pf_hash = digest (ct_sha env) (PyDict [(''profile'', PyStr n), (''tools'', py_strs names)]),
           pf_within_budget = co_tokens (sm_compiled compilation) \<le> mp_budget p, pf_budget = mp_budget p\<rparr>))"


section \<open>Arguments come back\<close>

text \<open>What a caller of the shortened schema sends: every name replaced by its alias.\<close>

definition rename_key :: "string \<times> pyval \<Rightarrow> string \<times> pyval" where
  "rename_key = (\<lambda>(k, v). (alias_of k, v))"

lemma map_of_alias_table:
  assumes "map_of argument_aliases k = Some a"
  shows "map_of argument_aliases a = None"
proof -
  have "list_all (\<lambda>(k, a). map_of argument_aliases a = None) argument_aliases" by code_simp
  with map_of_SomeD[OF assms] show ?thesis by (auto simp: list_all_iff)
qed

lemma alias_of_idem [simp]: "alias_of (alias_of k) = alias_of k"
  by (auto simp: alias_of_def map_of_alias_table split: option.split)

lemma aliased_not_alias:
  assumes "alias_of k \<noteq> k"
  shows "alias_of j \<noteq> k"
  using assms alias_of_idem[of j] by auto

lemma compile_properties_distinct:
  assumes "distinct (map fst compiled @ map (\<lambda>kv. alias_of (fst kv)) kvs)"
      and "distinct (map fst aliases @ map (\<lambda>kv. alias_of (fst kv)) kvs)"
  shows "compile_properties kvs compiled aliases =
           (compiled @ map rename_key kvs, aliases @ filter (\<lambda>(a, k). a \<noteq> k) (map (\<lambda>kv. (alias_of (fst kv), fst kv)) kvs))"
  using assms
proof (induction kvs arbitrary: compiled aliases)
  case (Cons kv kvs)
  obtain k v where kv: "kv = (k, v)" by (cases kv)
  have fresh: "alias_of k \<notin> set (map fst compiled)" "alias_of k \<notin> set (map fst aliases)"
    using Cons.prems by (auto simp: kv)
  have "compile_properties kvs (compiled @ [(alias_of k, v)]) aliases' =
     ((compiled @ [(alias_of k, v)]) @ map rename_key kvs,
      aliases' @ filter (\<lambda>(a, k). a \<noteq> k) (map (\<lambda>kv. (alias_of (fst kv), fst kv)) kvs))"
    if "aliases' = aliases \<or> aliases' = aliases @ [(alias_of k, k)]" for aliases'
    by (rule Cons.IH; use Cons.prems that in \<open>elim disjE; simp add: kv\<close>)
  with fresh show ?case by (simp add: kv Let_def update_fresh rename_key_def)
qed auto

text \<open>While the aliases are undone, the arguments of \<open>S\<close> have their own names and the others their aliases.\<close>

definition renamed_except :: "string set \<Rightarrow> string \<Rightarrow> string" where
  "renamed_except S k = (if k \<in> S then k else alias_of k)"

definition partly_decoded :: "fields \<Rightarrow> string set \<Rightarrow> fields \<Rightarrow> bool" where
  "partly_decoded args S d \<longleftrightarrow> distinct (map fst d) \<and> set d = (\<lambda>(k, v). (renamed_except S k, v)) ` set args"

lemma delete_key_simps:
  "set (delete_key k kvs) = {kv \<in> set kvs. fst kv \<noteq> k}"
  "distinct (map fst kvs) \<Longrightarrow> distinct (map fst (delete_key k kvs))"
  by (auto simp: delete_key_def distinct_map inj_on_def)

lemma renamed_except_alias:
  assumes "inj_on alias_of P" "j \<in> P" "k \<in> P" "alias_of k \<noteq> k" "renamed_except S j = alias_of k"
  shows "j = k \<and> k \<notin> S"
proof -
  have "alias_of j = alias_of k"
    using assms(5) by (auto simp: renamed_except_def split: if_splits)
  with assms show ?thesis by (auto simp: renamed_except_def inj_on_def split: if_splits)
qed

lemma decode_step_partly:
  assumes inv: "partly_decoded args S d" and inj: "inj_on alias_of P"
      and keys: "fst ` set args \<subseteq> P" "distinct (map fst args)" and k: "k \<in> P" "alias_of k \<noteq> k"
  shows "partly_decoded args (insert k S) (decode_step (alias_of k, k) d)"
proof -
  have eq: "set d = (\<lambda>(k, v). (renamed_except S k, v)) ` set args" and dist: "distinct (map fst d)"
    using inv by (auto simp: partly_decoded_def)
  have only: "j = k \<and> k \<notin> S" if "(j, v) \<in> set args" "renamed_except S j = alias_of k" for j v
    using renamed_except_alias[OF inj _ k] that keys by force
  have fresh: "k \<notin> fst ` set d" if "k \<notin> S"
    using that aliased_not_alias[OF k(2)] unfolding eq by (fastforce simp: renamed_except_def split: if_splits)
  have grow: "renamed_except (insert k S) j = (if j = k then k else renamed_except S j)" for j
    by (simp add: renamed_except_def)
  show ?thesis
  proof (cases "map_of d (alias_of k)")
    case None
    hence "alias_of k \<notin> fst ` set d" by (simp add: map_of_eq_None_iff)
    hence "k \<in> S" if "(k, v) \<in> set args" for v
      using that unfolding eq by (force simp: renamed_except_def)
    hence "renamed_except (insert k S) j = renamed_except S j" if "(j, v) \<in> set args" for j v
      using that by (auto simp: renamed_except_def)
    hence "(\<lambda>(j, w). (renamed_except (insert k S) j, w)) ` set args = set d"
      unfolding eq by (intro image_cong) auto
    with None dist show ?thesis by (simp add: partly_decoded_def decode_step_def)
  next
    case (Some v)
    hence "(alias_of k, v) \<in> set d" by (rule map_of_SomeD)
    then obtain j where "(j, v) \<in> set args" "renamed_except S j = alias_of k" unfolding eq by auto
    with only have kv: "(k, v) \<in> set args" "k \<notin> S" by auto
    have "{e \<in> set d. fst e \<noteq> alias_of k} \<union> {(k, v)} = (\<lambda>(j, w). (renamed_except (insert k S) j, w)) ` set args"
    proof (intro equalityI subsetI)
      fix e assume "e \<in> {e \<in> set d. fst e \<noteq> alias_of k} \<union> {(k, v)}"
      thus "e \<in> (\<lambda>(j, w). (renamed_except (insert k S) j, w)) ` set args"
        using kv unfolding eq by (force simp: grow renamed_except_def)
    next
      fix e assume "e \<in> (\<lambda>(j, w). (renamed_except (insert k S) j, w)) ` set args"
      then obtain j w where e: "e = (renamed_except (insert k S) j, w)" "(j, w) \<in> set args" by auto
      show "e \<in> {e \<in> set d. fst e \<noteq> alias_of k} \<union> {(k, v)}"
      proof (cases "j = k")
        case True
        with e(2) kv(1) keys(2) have "w = v" by (auto dest: eq_key_imp_eq_value)
        with True e(1) show ?thesis by (simp add: grow)
      next
        case False
        hence "renamed_except S j \<noteq> alias_of k" using only[OF e(2)] by blast
        moreover have "(renamed_except S j, w) \<in> set d" unfolding eq using e(2) by force
        ultimately show ?thesis using e(1) False by (simp add: grow)
      qed
    qed
    moreover have "k \<notin> fst ` {e \<in> set d. fst e \<noteq> alias_of k}" using fresh[OF kv(2)] by auto
    ultimately show ?thesis using Some fresh[OF kv(2)] dist kv(2)
      by (simp add: partly_decoded_def decode_step_def delete_key_simps Un_commute)
  qed
qed

lemma decode_fold_partly:
  assumes "partly_decoded args S d" and inj: "inj_on alias_of P"
      and keys: "fst ` set args \<subseteq> P" "distinct (map fst args)"
      and "\<And>a k. (a, k) \<in> set aliases \<Longrightarrow> a = alias_of k \<and> k \<in> P \<and> alias_of k \<noteq> k"
  shows "partly_decoded args (S \<union> snd ` set aliases) (decode_with aliases d)"
  using assms(1,5)
proof (induction aliases arbitrary: S d)
  case (Cons ak aliases)
  obtain k where ak: "ak = (alias_of k, k)" "k \<in> P" "alias_of k \<noteq> k"
    using Cons.prems(2)[of "fst ak" "snd ak"] by (cases ak) auto
  have "partly_decoded args (insert k S) (decode_step ak d)"
    unfolding ak(1) by (rule decode_step_partly[OF Cons.prems(1) inj keys ak(2,3)])
  hence "partly_decoded args (insert k S \<union> snd ` set aliases) (decode_with aliases (decode_step ak d))"
    by (rule Cons.IH) (rule Cons.prems(2), simp)
  moreover have "insert k S \<union> snd ` set aliases = S \<union> snd ` set (ak # aliases)" by (simp add: ak(1))
  moreover have "decode_with (ak # aliases) d = decode_with aliases (decode_step ak d)" by (simp add: decode_with_def)
  ultimately show ?case by metis
qed (simp add: decode_with_def)

lemma distinct_map_rename:
  assumes "inj_on alias_of (fst ` set args)" "distinct (map fst args)"
  shows "distinct (map fst (map rename_key args))"
proof -
  have "map fst (map rename_key args) = map alias_of (map fst args)"
    by (simp add: rename_key_def split_beta)
  with assms show ?thesis by (simp only: distinct_map set_map)
qed

lemma decode_with_map_of:
  assumes inj: "inj_on alias_of P"
      and keys: "fst ` set args \<subseteq> P" "distinct (map fst args)"
      and aliases: "set aliases = {(alias_of k, k) |k. k \<in> P \<and> alias_of k \<noteq> k}"
  shows "map_of (decode_with aliases (map rename_key args)) = map_of args"
proof -
  have "inj_on alias_of (fst ` set args)" using inj keys(1) by (rule inj_on_subset)
  hence "partly_decoded args {} (map rename_key args)"
    using distinct_map_rename[OF _ keys(2)] by (simp add: partly_decoded_def renamed_except_def rename_key_def)
  hence "partly_decoded args (snd ` set aliases) (decode_with aliases (map rename_key args))"
    using decode_fold_partly[OF _ inj keys, of "{}" _ aliases] aliases by auto
  moreover have "renamed_except (snd ` set aliases) k = k" if "(k, v) \<in> set args" for k v
    using that keys(1) by (force simp: renamed_except_def aliases)
  hence "(\<lambda>(k, v). (renamed_except (snd ` set aliases) k, v)) ` set args = (\<lambda>kv. kv) ` set args"
    by (intro image_cong) auto
  ultimately have "distinct (map fst (decode_with aliases (map rename_key args)))"
      "set (decode_with aliases (map rename_key args)) = set args"
    by (simp_all add: partly_decoded_def)
  thus ?thesis using keys(2) by (metis map_of_inject_set)
qed

text \<open>The names of a tool's properties may be shortened when no two of them share an alias.\<close>

definition schema_properties :: "fields \<Rightarrow> fields" where
  "schema_properties row =
     (case py_get_none row ''inputSchema'' of
        PyDict schema \<Rightarrow> (case py_get_none schema ''properties'' of PyDict kvs \<Rightarrow> kvs | _ \<Rightarrow> [])
      | _ \<Rightarrow> [])"

definition unambiguous :: "fields \<Rightarrow> bool" where
  "unambiguous row \<longleftrightarrow> distinct (map (\<lambda>kv. alias_of (fst kv)) (schema_properties row))"

lemma compile_row_aliases:
  assumes "unambiguous row"
  shows "snd (compile_row env row) = filter (\<lambda>(a, k). a \<noteq> k) (map (\<lambda>kv. (alias_of (fst kv), fst kv)) (schema_properties row))"
  using assms compile_properties_distinct[of "[]" "schema_properties row" "[]"]
  by (auto simp: compile_row_def compile_schema_def unambiguous_def schema_properties_def py_get_none_def Let_def
      split: pyval.splits prod.splits option.splits)

lemma set_changed_pairs:
  "set (filter (\<lambda>(a, k). a \<noteq> k) (map (\<lambda>kv. (f (fst kv), fst kv)) kvs)) = {(f k, k) |k. k \<in> fst ` set kvs \<and> f k \<noteq> k}"
  by (induction kvs) auto

text \<open>The table of the last catalog holds the aliases of a tool when it has any.\<close>

abbreviation add_aliases :: "string \<times> fields \<times> (string \<times> string) list \<Rightarrow> (string \<times> (string \<times> string) list) list \<Rightarrow> (string \<times> (string \<times> string) list) list" where
  "add_aliases \<equiv> (\<lambda>(name, _, al) m. if al = [] then m else AList.update name al m)"

lemma alias_table_other:
  "n \<notin> fst ` set rows \<Longrightarrow> map_of (fold add_aliases rows m) n = map_of m n"
  by (induction rows arbitrary: m) (auto simp: update_conv')

lemma alias_table_lookup:
  assumes "distinct (map fst rows)" "(n, row, al) \<in> set rows" "map_of m n = None"
  shows "map_of (fold add_aliases rows m) n = (if al = [] then None else Some al)"
  using assms
proof (induction rows arbitrary: m)
  case (Cons r rows)
  obtain n' row' al' where r: "r = (n', row', al')" by (cases r) auto
  show ?case
  proof (cases "n' = n")
    case True
    hence "(row', al') = (row, al)" "n \<notin> fst ` set rows"
      using Cons.prems(1,2) by (auto simp: r rev_image_eqI)
    with Cons.prems(3) show ?thesis using True alias_table_other[of n rows] by (auto simp: r update_conv')
  next
    case False
    with Cons show ?thesis by (auto simp: r update_conv')
  qed
qed simp

text \<open>
  C35. For every tool of the catalog no two of whose properties share an alias, a call of the shortened tool
  reaches the tool unchanged: whatever arguments the caller gives under the names of the compiled schema,
  decoding them restores the names of the tool's own schema.
\<close>

theorem tool_arguments_roundtrip:
  assumes "distinct (map (row_name env) catalog)" and "row \<in> set catalog" and "unambiguous row"
      and "distinct (map fst args)" and "fst ` set args \<subseteq> fst ` set (schema_properties row)"
  shows "map_of (decode_arguments (snd (compile_catalog env catalog)) (row_name env row) (map rename_key args)) = map_of args"
proof -
  let ?rows = "map (\<lambda>row. (row_name env row, compile_row env row)) catalog"
  let ?al = "snd (compile_row env row)" and ?P = "fst ` set (schema_properties row)"
  have "map_of (sm_aliases (snd (compile_catalog env catalog))) (row_name env row) = map_of (fold add_aliases ?rows []) (row_name env row)"
    by (simp add: compile_catalog_def Let_def)
  also have "\<dots> = (if ?al = [] then None else Some ?al)"
    by (rule alias_table_lookup[where row="fst (compile_row env row)"]) (use assms(1,2) in \<open>auto simp: comp_def\<close>)
  finally have eq: "decode_arguments (snd (compile_catalog env catalog)) (row_name env row) (map rename_key args) = decode_with ?al (map rename_key args)"
    by (simp add: decode_arguments_def)
  have inj: "inj_on alias_of ?P"
    using assms(3) by (auto simp: unambiguous_def distinct_map inj_on_def)
  have al: "set ?al = {(alias_of k, k) |k. k \<in> ?P \<and> alias_of k \<noteq> k}"
    unfolding compile_row_aliases[OF assms(3)] by (rule set_changed_pairs)
  show ?thesis unfolding eq by (rule decode_with_map_of[OF inj assms(5,4) al])
qed

definition demo_env :: catalog_env where
  "demo_env = \<lparr>ct_sha = (\<lambda>v. ''hash''), ct_str = (\<lambda>v. ''?''), ct_show = (\<lambda>q. ''0''), ct_tokens = None\<rparr>"

definition demo_row :: fields where
  "demo_row = [(''name'', PyStr ''read''), (''inputSchema'', PyDict [(''properties'',
     PyDict [(''repository_tree'', PyDict []), (''query'', PyDict [])])])]"

theorem tool_arguments_roundtrip_witness:
  "map_of (decode_arguments (snd (compile_catalog demo_env [demo_row])) ''read''
     (map rename_key [(''query'', PyInt 1), (''repository_tree'', PyInt 2)])) =
   map_of [(''query'', PyInt 1), (''repository_tree'', PyInt 2)]"
proof -
  have name: "row_name demo_env demo_row = ''read''" by (simp add: row_name_def demo_row_def str_of_def py_str_def)
  have "unambiguous demo_row" by code_simp
  moreover have "fst ` set (schema_properties demo_row) = {''repository_tree'', ''query''}"
    by (simp add: schema_properties_def demo_row_def py_get_none_def)
  ultimately show ?thesis
    using tool_arguments_roundtrip[of demo_env "[demo_row]" demo_row "[(''query'', PyInt 1), (''repository_tree'', PyInt 2)]"]
    unfolding name by simp
qed

text \<open>
  Where two properties share an alias the second one wins: the first property is no longer in the schema, and
  what is given for the second one is decoded to the first.
\<close>

lemma shared_alias_loses_property:
  "compile_properties [(''repository_tree'', PyInt 1), (''repo_tree'', PyInt 2)] [] [] =
     ([(''repo_tree'', PyInt 2)], [(''repo_tree'', ''repository_tree'')]) \<and>
   decode_with [(''repo_tree'', ''repository_tree'')] [(''repo_tree'', PyInt 7)] = [(''repository_tree'', PyInt 7)]"
  by code_simp

text \<open>
  And in the other order the property keeps its own name while the list of required properties uses the alias.
\<close>

lemma required_not_a_property:
  "fst (compile_schema demo_env [(''properties'', PyDict [(''repo_tree'', PyInt 2), (''repository_tree'', PyInt 1)]),
     (''required'', PyList [PyStr ''repository_tree''])]) =
   [(''properties'', PyDict [(''repo_tree'', PyInt 2), (''repository_tree'', PyInt 1)]),
    (''required'', PyList [PyStr ''repo_tree''])]"
  by code_simp

section \<open>Profiles\<close>

text \<open>Who asks for no profile, or for blanks, gets the smallest one.\<close>

lemma default_profile: "normalize_profile None b = Inr ''minimal''" "normalize_profile (Some ''  '') b = Inr ''minimal''"
  by (cases b; code_simp)+

lemma normalize_profile_known:
  assumes "normalize_profile p False = Inr n"
  shows "n \<in> {''minimal'', ''balanced'', ''audit''}"
proof -
  obtain r where "map_of profile_aliases r = Some n" "n \<noteq> ''auto''"
    using assms by (auto simp: normalize_profile_def Let_def split: option.splits if_splits)
  thus ?thesis by (auto simp: profile_aliases_def split: if_splits)
qed

lemma profile_tools_sound:
  assumes "profile_tools p tools = Inr names"
  shows "distinct names \<and> set names \<subseteq> set tools"
proof -
  have "distinct minimal_tools \<and> distinct balanced_tools" by code_simp
  thus ?thesis using assms normalize_profile_known[of "Some p"]
    by (auto simp: profile_tools_def mcp_profiles_def Let_def split: if_splits option.splits)
qed
end
