(* ===== verification/McpPolicy.thy ===== *)
theory McpPolicy
  imports ToolCatalog
begin

text \<open>
  The call policy of \<open>syntavra_runtime/mcp_policy.py\<close>: which tools of a catalog a profile lists, the risk of
  a call, and its authorization.
\<close>

definition safe_writes :: "string list" where
  "safe_writes = map ((@) ''syntavra.'')
     [''session.open'', ''session.append'', ''session.compact'', ''session.checkpoint'', ''session.fork'', ''session.merge'',
      ''output.capture'', ''usage.record'', ''usage.attribution.record'', ''provider.prepare'', ''provider.capture'',
      ''policy.record'', ''data.route'']"

definition sandbox_tools :: "string list" where
  "sandbox_tools = [''syntavra.sandbox.execute'', ''syntavra.sandbox.batch'']"

definition unsandboxed_tools :: "string list" where
  "unsandboxed_tools = [''syntavra.process.submit'']"

definition destructive_tools :: "string list" where
  "destructive_tools = [''syntavra.evidence.rotate_key'', ''syntavra.backup.create'']"

record mcp_policy =
  po_profile :: string
  po_legacy :: string

definition legacy_profiles :: "(string \<times> string) list" where
  "legacy_profiles = [(''minimal'', ''tiny''), (''balanced'', ''optimized''), (''audit'', ''full'')]"

text \<open>\<open>environ\<close> is \<open>SYNTAVRA_MCP_PROFILE\<close>, when it is set.\<close>

definition make_policy :: "string option \<Rightarrow> string option \<Rightarrow> py_error + mcp_policy" where
  "make_policy profile environ =
     (let p = (case profile of Some s \<Rightarrow> if s = '''' then (case environ of None \<Rightarrow> ''minimal'' | Some e \<Rightarrow> e) else s
                | None \<Rightarrow> (case environ of None \<Rightarrow> ''minimal'' | Some e \<Rightarrow> e));
          s = py_casefold (py_strip p); requested = (if s = '''' then ''minimal'' else s)
      in bindE (normalize_profile (Some requested) False) (\<lambda>n.
         case map_of legacy_profiles n of None \<Rightarrow> Inl (KeyError n) | Some l \<Rightarrow> Inr \<lparr>po_profile = n, po_legacy = l\<rparr>))"

definition filter_catalog :: "catalog_env \<Rightarrow> mcp_policy \<Rightarrow> fields list \<Rightarrow> py_error + fields list" where
  "filter_catalog env policy catalog =
     (let by_name = catalog_by_name (listed_name env) catalog in
      bindE (profile_tools (po_profile policy) (map fst by_name)) (\<lambda>selected. Inr (select_rows by_name selected)))"

text \<open>User authorization, exact evidence and sandbox, as the arguments of the call declare them.\<close>

definition call_authorization :: "fields \<Rightarrow> bool \<times> bool \<times> bool" where
  "call_authorization arguments =
     (let raw = (case py_get_none arguments ''_syntavra_authorization'' of PyDict kvs \<Rightarrow> kvs | _ \<Rightarrow> []);
          user = py_truth (py_get_none raw ''user_authorized'') \<or> py_truth (py_get_none arguments ''_approved'');
          exact = (case map_of raw ''exact_evidence'' of None \<Rightarrow> True | Some v \<Rightarrow> py_truth v);
          sandboxed = (case map_of raw ''sandboxed'' of None \<Rightarrow> False | Some v \<Rightarrow> py_truth v)
      in (user, exact, sandboxed))"

definition risk :: "string \<Rightarrow> fields \<Rightarrow> string" where
  "risk tool arguments =
     (if tool \<in> set safe_writes then ''safe-state-write''
      else if tool \<in> set sandbox_tools then ''sandbox-execute''
      else if tool \<in> set unsandboxed_tools then ''unsandboxed-execute''
      else if tool \<in> set destructive_tools then ''destructive''
      else if tool = ''syntavra.evidence.gc'' \<and> \<not> (case map_of arguments ''dry_run'' of None \<Rightarrow> True | Some v \<Rightarrow> py_truth v) then ''destructive''
      else if list_ex (\<lambda>part. has_substring part tool) [''provider.invoke'', ''provider.request'', ''network.''] then ''network''
      else if list_ex (\<lambda>part. has_substring part tool) [''.install'', ''.uninstall'', ''.rollback'', ''.migrate'', ''.apply''] then ''destructive''
      else ''read-or-plan'')"

record mcp_decision =
  md_allowed :: bool
  md_tool :: string
  md_profile :: string
  md_legacy :: string
  md_risk :: string
  md_reason :: string
  md_listed :: bool
  md_user :: bool
  md_exact :: bool
  md_sandboxed :: bool
  md_hash :: string

definition risky :: "string list" where
  "risky = [''destructive'', ''network'', ''sandbox-execute'', ''unsandboxed-execute'']"

definition judge_call :: "bool \<Rightarrow> string \<Rightarrow> bool \<Rightarrow> bool \<Rightarrow> bool \<Rightarrow> bool \<times> string" where
  "judge_call listed r exact user sandboxed =
     (if \<not> listed then (False, ''tool-not-exposed-by-active-profile'')
      else if r \<in> set risky then
        (if \<not> exact then (False, ''exact-evidence-required'')
         else if \<not> user then (False, ''explicit-user-authorization-required'')
         else if r = ''sandbox-execute'' \<and> \<not> sandboxed then (False, ''sandbox-required'')
         else (listed, ''authorized-risky-operation''))
      else if r = ''safe-state-write'' \<and> \<not> exact then (False, ''exact-evidence-required'')
      else (listed, ''profile-listed''))"

definition authorize :: "catalog_env \<Rightarrow> mcp_policy \<Rightarrow> string \<Rightarrow> fields \<Rightarrow> string list \<Rightarrow> mcp_decision" where
  "authorize env policy tool arguments exposed =
     (let listed = tool \<in> set exposed; (user, exact, declared) = call_authorization arguments;
          r = risk tool arguments; sandboxed = (declared \<or> tool \<in> set sandbox_tools);
          (allowed, reason) = judge_call listed r exact user sandboxed;
          body = PyDict [(''version'', PyStr ''0.0.1''), (''channel'', PyStr ''pre-release''), (''tool'', PyStr tool),
            (''profile'', PyStr (po_profile policy)), (''legacy_profile'', PyStr (po_legacy policy)), (''risk'', PyStr r),
            (''allowed'', PyBool allowed), (''reason'', PyStr reason), (''listed'', PyBool listed), (''user_authorized'', PyBool user),
            (''exact_evidence'', PyBool exact), (''sandboxed'', PyBool sandboxed)]
      in \<lparr>md_allowed = allowed, md_tool = tool, md_profile = po_profile policy, md_legacy = po_legacy policy, md_risk = r,
           md_reason = reason, md_listed = listed, md_user = user, md_exact = exact, md_sandboxed = sandboxed,
           md_hash = digest (ct_sha env) body\<rparr>)"

section \<open>What is allowed\<close>

lemma judge_allowed:
  "fst (judge_call listed r exact user sandboxed) \<longleftrightarrow>
     listed \<and> (r \<in> set risky \<longrightarrow> exact \<and> user \<and> (r = ''sandbox-execute'' \<longrightarrow> sandboxed)) \<and> (r = ''safe-state-write'' \<longrightarrow> exact)"
  by (auto simp: judge_call_def risky_def)

lemma risk_sandbox: "risk tool arguments = ''sandbox-execute'' \<Longrightarrow> tool \<in> set sandbox_tools"
  by (auto simp: risk_def split: if_splits)

text \<open>
  The sandbox is never the reason of a refusal: a tool is of that risk only by its name, and then it counts as sandboxed.
\<close>

lemma sandbox_never_required: "md_reason (authorize env policy tool arguments exposed) \<noteq> ''sandbox-required''"
  using risk_sandbox[of tool arguments]
  by (auto simp: authorize_def judge_call_def Let_def split: prod.splits)

lemma authorize_fields:
  "md_allowed (authorize env policy tool arguments exposed) \<longleftrightarrow>
     tool \<in> set exposed \<and>
     (risk tool arguments \<in> set risky \<longrightarrow> fst (snd (call_authorization arguments)) \<and> fst (call_authorization arguments)) \<and>
     (risk tool arguments = ''safe-state-write'' \<longrightarrow> fst (snd (call_authorization arguments)))"
proof -
  obtain user exact declared where auth: "call_authorization arguments = (user, exact, declared)" by (cases "call_authorization arguments") auto
  obtain ok reason where j: "judge_call (tool \<in> set exposed) (risk tool arguments) exact user (declared \<or> tool \<in> set sandbox_tools) = (ok, reason)"
    by fastforce
  have "md_allowed (authorize env policy tool arguments exposed) = ok"
    by (simp add: authorize_def auth j Let_def)
  moreover have "ok = fst (judge_call (tool \<in> set exposed) (risk tool arguments) exact user (declared \<or> tool \<in> set sandbox_tools))"
    by (simp add: j)
  ultimately show ?thesis using risk_sandbox[of tool arguments] by (auto simp: judge_allowed auth)
qed

lemma listed_rows_names:
  assumes "filter_catalog env policy catalog = Inr rows"
  shows "\<exists>names. profile_tools (po_profile policy) (map fst (catalog_by_name (listed_name env) catalog)) = Inr names \<and>
           rows = select_rows (catalog_by_name (listed_name env) catalog) names"
  using assms by (auto simp: filter_catalog_def Let_def)

end
