(* ===== verification/McpPipeline.thy ===== *)
theory McpPipeline
  imports McpPolicy SecretRedaction WireFormat
begin

text \<open>
  The request pipeline of \<open>syntavra_runtime/mcp_application.py\<close>: listing the tools of the active profile and a
  tool call from its authorization to its redacted result.  It composes the tool catalog, the call policy, the
  redaction of secrets and the wire codec.  The server it is given is a parameter (its tools, its calls, which
  may fail and change its state, and the capture of a result), as are the environment variable and the
  installed profile, which every request reads again, and the text of a result.
\<close>

section \<open>State\<close>

record route =
  rt_allowed :: bool
  rt_tool :: string
  rt_profile :: string
  rt_risk :: string
  rt_reason :: string
  rt_hash :: string
  rt_raw :: bool

record pipeline =
  pl_policy :: mcp_policy
  pl_raw :: bool
  pl_wire :: bool
  pl_compilation :: "schema_compilation option"
  pl_routes :: "route list"

record pipeline_env =
  pe_catalog :: catalog_env
  pe_secret :: secret_env
  pe_dump :: "pyval \<Rightarrow> string"

record 's mcp_server =
  sv_tools :: "'s \<Rightarrow> fields list"
  sv_call :: "string \<Rightarrow> fields \<Rightarrow> 's \<Rightarrow> (py_error + pyval) \<times> 's"
  sv_capture :: "string \<Rightarrow> fields \<Rightarrow> pyval \<Rightarrow> 's \<Rightarrow> (py_error + pyval) \<times> 's"

text \<open>The variable \<open>SYNTAVRA_MCP_PROFILE\<close> and the value of \<open>mcp-profile.json\<close>, \<open>None\<close> when it cannot be read.\<close>

record request =
  rq_environ :: "string option"
  rq_file :: "pyval option"
  rq_message :: fields

definition installed_profile :: "catalog_env \<Rightarrow> pyval option \<Rightarrow> string" where
  "installed_profile env v =
     (case v of
        Some (PyDict kvs) \<Rightarrow> (let name = py_get_none kvs ''name'' in if py_truth name then str_of env name else ''minimal'')
      | _ \<Rightarrow> ''minimal'')"

definition requested_profile :: "catalog_env \<Rightarrow> request \<Rightarrow> py_error + string" where
  "requested_profile env rq =
     normalize_profile (Some (case rq_environ rq of
        Some e \<Rightarrow> if e = '''' then installed_profile env (rq_file rq) else e
      | None \<Rightarrow> installed_profile env (rq_file rq))) False"

definition refresh :: "catalog_env \<Rightarrow> request \<Rightarrow> pipeline \<Rightarrow> py_error + pipeline" where
  "refresh env rq p =
     bindE (requested_profile env rq) (\<lambda>requested.
       if requested \<noteq> po_profile (pl_policy p)
       then bindE (make_policy (Some requested) (rq_environ rq)) (\<lambda>policy. Inr (p\<lparr>pl_policy := policy\<rparr>))
       else Inr p)"

definition list_tools :: "catalog_env \<Rightarrow> request \<Rightarrow> fields list \<Rightarrow> pipeline \<Rightarrow> (py_error + fields list) \<times> pipeline" where
  "list_tools env rq catalog p =
     (case refresh env rq p of
        Inl e \<Rightarrow> (Inl e, p)
      | Inr p' \<Rightarrow>
          (case filter_catalog env (pl_policy p') catalog of
             Inl e \<Rightarrow> (Inl e, p')
           | Inr selected \<Rightarrow>
               let (compiled, compilation) = compile_catalog env selected
               in (Inr (if pl_raw p' then selected else compiled), p'\<lparr>pl_compilation := Some compilation\<rparr>)))"

definition sanitize_arguments :: "fields \<Rightarrow> fields" where
  "sanitize_arguments arguments = delete_key ''_approved'' (delete_key ''_syntavra_authorization'' arguments)"

definition record_route :: "mcp_decision \<Rightarrow> pipeline \<Rightarrow> pipeline" where
  "record_route d p =
     p\<lparr>pl_routes := pl_routes p @ [\<lparr>rt_allowed = md_allowed d, rt_tool = md_tool d, rt_profile = md_profile d, rt_risk = md_risk d,
        rt_reason = md_reason d, rt_hash = md_hash d, rt_raw = pl_raw p\<rparr>]\<rparr>"

section \<open>A call\<close>

record mcp_answer =
  an_text :: string
  an_rendered :: pyval
  an_decision :: mcp_decision
  an_raw :: bool
  an_compilation :: "schema_compilation option"
  an_redaction :: redaction_receipt
  an_wire :: fields

datatype mcp_outcome = Denied mcp_decision | Failed int string | Answer mcp_answer

definition message_params :: "fields \<Rightarrow> fields" where
  "message_params message = (case py_get_none message ''params'' of PyDict kvs \<Rightarrow> kvs | _ \<Rightarrow> [])"

definition called_tool :: "catalog_env \<Rightarrow> fields \<Rightarrow> string" where
  "called_tool env message = (let v = py_get_none (message_params message) ''name'' in if py_truth v then str_of env v else '''')"

definition raw_arguments :: "fields \<Rightarrow> fields" where
  "raw_arguments message = (case py_get_none (message_params message) ''arguments'' of PyDict kvs \<Rightarrow> kvs | _ \<Rightarrow> [])"

definition exposed_names :: "catalog_env \<Rightarrow> fields list \<Rightarrow> py_error + string list" where
  "exposed_names env rows = collect (\<lambda>row. bindE (field ''name'' row) (\<lambda>v. Inr (str_of env v))) rows"

definition failure :: "py_error \<Rightarrow> mcp_outcome" where
  "failure e =
     (case e of
        KeyError _ \<Rightarrow> Failed (-32601) ''Method not found''
      | TypeError _ \<Rightarrow> Failed (-32602) ''Invalid parameters: TypeError''
      | ValueError _ \<Rightarrow> Failed (-32602) ''Invalid parameters: ValueError''
      | _ \<Rightarrow> Failed (-32000) ''Syntavra tool execution failed'')"

definition render_result :: "pipeline_env \<Rightarrow> pipeline \<Rightarrow> mcp_decision \<Rightarrow> pyval \<Rightarrow> mcp_outcome" where
  "render_result env p d value =
     (let ce = pe_catalog env; (clean, receipt) = redact (pe_secret env) (ct_sha ce) value;
          wire = (if pl_wire p then wire_result_py (encode_wire (ct_sha ce) (ct_show ce) (8 / 100) clean)
                  else [(''encoding'', PyStr ''json''), (''payload'', clean), (''savings_ratio'', PyFloat 0)]);
          rendered = (if pl_wire p \<and> py_get_none wire ''encoding'' \<noteq> PyStr ''json'' then PyDict wire else clean)
      in Answer \<lparr>an_text = pe_dump env rendered, an_rendered = rendered, an_decision = d, an_raw = pl_raw p,
           an_compilation = pl_compilation p, an_redaction = receipt, an_wire = delete_key ''payload'' wire\<rparr>)"

definition execute_tool :: "pipeline_env \<Rightarrow> 's mcp_server \<Rightarrow> string \<Rightarrow> fields \<Rightarrow> mcp_decision \<Rightarrow> pipeline \<Rightarrow> 's \<Rightarrow> mcp_outcome \<times> 's" where
  "execute_tool env server tool arguments d p s =
     (case sv_call server tool arguments s of
        (Inl e, s1) \<Rightarrow> (failure e, s1)
      | (Inr value, s1) \<Rightarrow>
          (case sv_capture server tool arguments value s1 of
             (Inl e, s2) \<Rightarrow> (failure e, s2)
           | (Inr value', s2) \<Rightarrow> (render_result env p d value', s2)))"

text \<open>The arguments the server is called with.\<close>

definition tool_arguments :: "pipeline \<Rightarrow> string \<Rightarrow> fields \<Rightarrow> fields" where
  "tool_arguments p tool raw =
     sanitize_arguments (case pl_compilation p of None \<Rightarrow> raw | Some c \<Rightarrow> decode_arguments c tool raw)"

definition call :: "pipeline_env \<Rightarrow> 's mcp_server \<Rightarrow> request \<Rightarrow> pipeline \<times> 's \<Rightarrow> (py_error + mcp_outcome) \<times> pipeline \<times> 's" where
  "call env server rq ps =
     (let ce = pe_catalog env; (p, s) = ps; tool = called_tool ce (rq_message rq); raw = raw_arguments (rq_message rq) in
      case list_tools ce rq (sv_tools server s) p of
        (Inl e, p1) \<Rightarrow> (Inl e, p1, s)
      | (Inr rows, p1) \<Rightarrow>
          (case exposed_names ce rows of
             Inl e \<Rightarrow> (Inl e, p1, s)
           | Inr exposed \<Rightarrow>
               let d = authorize ce (pl_policy p1) tool raw exposed; p2 = record_route d p1 in
               if md_allowed d
               then let (out, s') = execute_tool env server tool (tool_arguments p2 tool raw) d p2 s in (Inr out, p2, s')
               else (Inr (Denied d), p2, s)))"


section \<open>The tools a profile grants\<close>

definition granted :: "string \<Rightarrow> string \<Rightarrow> bool" where
  "granted profile tool \<longleftrightarrow>
     profile = ''audit'' \<or> (\<exists>p. map_of mcp_profiles profile = Some p \<and> tool \<in> set (mp_tools p))"

lemma profile_tools_granted:
  assumes "profile_tools n tools = Inr names" and "normalize_profile (Some n) False = Inr n" and "t \<in> set names"
  shows "granted n t \<and> t \<in> set tools"
  using assms by (auto simp: profile_tools_def granted_def Let_def split: if_splits option.splits)

lemma normalize_known: "n \<in> {''minimal'', ''balanced'', ''audit''} \<Longrightarrow> normalize_profile (Some n) False = Inr n"
  by (elim insertE emptyE; hypsubst; code_simp)

lemma profile_idem: "normalize_profile p False = Inr n \<Longrightarrow> normalize_profile (Some n) False = Inr n"
  by (rule normalize_known, rule normalize_profile_known)

lemma make_policy_known:
  assumes "n \<in> {''minimal'', ''balanced'', ''audit''}" and "make_policy (Some n) environ = Inr policy"
  shows "po_profile policy = n"
proof -
  have "py_casefold (py_strip n) = n" "n \<noteq> ''''" using assms(1) by (elim insertE emptyE; hypsubst; code_simp)+
  with assms(2) normalize_known[OF assms(1)] show ?thesis
    by (auto simp: make_policy_def Let_def split: option.splits)
qed

lemma refresh_profile:
  assumes "refresh env rq p = Inr p'"
  shows "requested_profile env rq = Inr (po_profile (pl_policy p')) \<and> pl_routes p' = pl_routes p"
  using assms normalize_profile_known[of _ "po_profile (pl_policy p')"]
  by (auto simp: refresh_def requested_profile_def split: if_splits dest: make_policy_known[rotated] normalize_profile_known)

lemma catalog_by_name_row: "map_of (catalog_by_name name catalog) n = Some row \<Longrightarrow> name row = n \<and> row \<in> set catalog"
proof -
  have "map_of (fold (\<lambda>row m. AList.update (name row) row m) rows m) n = Some row \<Longrightarrow>
          (map_of m n = Some row) \<or> (name row = n \<and> row \<in> set rows)" for rows m
  proof (induction rows arbitrary: m)
    case (Cons a rows)
    from Cons.IH[of "AList.update (name a) a m"] Cons.prems show ?case by (auto simp: update_conv' split: if_splits)
  qed simp
  from this[of catalog "[]"] show "map_of (catalog_by_name name catalog) n = Some row \<Longrightarrow> name row = n \<and> row \<in> set catalog"
    by (simp add: catalog_by_name_def)
qed

lemma set_select_rows: "row \<in> set (select_rows by_name names) \<Longrightarrow> \<exists>n\<in>set names. map_of by_name n = Some row"
  by (induction names) (auto simp: select_rows_def List.map_filter_simps split: option.splits)

lemma filter_catalog_row:
  assumes "filter_catalog env policy catalog = Inr rows" and "row \<in> set rows"
    and "normalize_profile (Some (po_profile policy)) False = Inr (po_profile policy)"
  shows "granted (po_profile policy) (listed_name env row) \<and> row \<in> set catalog"
proof -
  let ?by = "catalog_by_name (listed_name env) catalog"
  obtain names where names: "profile_tools (po_profile policy) (map fst ?by) = Inr names" "rows = select_rows ?by names"
    using listed_rows_names[OF assms(1)] by blast
  then obtain n where n: "n \<in> set names" "map_of ?by n = Some row"
    using assms(2) set_select_rows by blast
  then show ?thesis using catalog_by_name_row[OF n(2)] profile_tools_granted[OF names(1) assms(3) n(1)] by simp
qed

lemma compile_row_name: "map_of (fst (compile_row env row)) ''name'' = map_of row ''name''"
  by (auto simp: compile_row_def Let_def update_conv' split: prod.splits)

lemma compile_catalog_rows: "fst (compile_catalog env rows) = map (\<lambda>row. fst (compile_row env row)) rows"
  by (simp add: compile_catalog_def Let_def split_beta)

lemma listed_name_compile: "listed_name env (fst (compile_row env row)) = listed_name env row"
  by (simp add: listed_name_def py_get_none_def compile_row_name)

lemma exposed_names_set:
  "exposed_names env rows = Inr names \<Longrightarrow> set names = listed_name env ` set rows"
proof (induction rows arbitrary: names)
  case (Cons row rows)
  then show ?case
    by (auto simp: exposed_names_def field_def listed_name_def py_get_none_def split: option.splits sum.splits)
qed (simp add: exposed_names_def)

lemma list_tools_granted:
  assumes "list_tools env rq catalog p = (Inr rows, p')" and "exposed_names env rows = Inr names" and "t \<in> set names"
  shows "requested_profile env rq = Inr (po_profile (pl_policy p')) \<and> granted (po_profile (pl_policy p')) t"
proof -
  obtain p1 selected where steps: "refresh env rq p = Inr p1" "filter_catalog env (pl_policy p1) catalog = Inr selected"
      "rows = (if pl_raw p1 then selected else fst (compile_catalog env selected))" "pl_policy p' = pl_policy p1"
    using assms(1) by (auto simp: list_tools_def Let_def split: sum.splits prod.splits)
  have req: "requested_profile env rq = Inr (po_profile (pl_policy p1))" using refresh_profile[OF steps(1)] by simp
  then have norm: "normalize_profile (Some (po_profile (pl_policy p1))) False = Inr (po_profile (pl_policy p1))"
    by (auto simp: requested_profile_def intro: profile_idem)
  obtain row where "row \<in> set rows" "listed_name env row = t"
    using exposed_names_set[OF assms(2)] assms(3) by auto
  then obtain row' where "row' \<in> set selected" "listed_name env row' = t"
    using steps(3) by (auto simp: compile_catalog_rows listed_name_compile split: if_splits)
  with filter_catalog_row[OF steps(2) _ norm] req steps(4) show ?thesis by auto
qed

lemma list_tools_routes: "list_tools env rq catalog p = (r, p') \<Longrightarrow> pl_routes p' = pl_routes p"
  by (auto simp: list_tools_def Let_def dest!: refresh_profile split: sum.splits prod.splits)

section \<open>What reaches the server\<close>

text \<open>Any server, with the calls it receives written down.\<close>

definition traced :: "'s mcp_server \<Rightarrow> ('s \<times> (string \<times> fields) list) mcp_server" where
  "traced server =
     \<lparr>sv_tools = (\<lambda>(s, tr). sv_tools server s),
      sv_call = (\<lambda>tool args (s, tr). let (r, s') = sv_call server tool args s in (r, (s', tr @ [(tool, args)]))),
      sv_capture = (\<lambda>tool args v (s, tr). let (r, s') = sv_capture server tool args v s in (r, (s', tr)))\<rparr>"

fun serve :: "pipeline_env \<Rightarrow> 's mcp_server \<Rightarrow> request list \<Rightarrow> pipeline \<times> 's \<Rightarrow> pipeline \<times> 's" where
  "serve env server [] ps = ps"
| "serve env server (rq # rqs) ps = serve env server rqs (snd (call env server rq ps))"

text \<open>A request that justifies a call of a tool with the given arguments.\<close>

definition justifies :: "catalog_env \<Rightarrow> string \<times> fields \<Rightarrow> request \<Rightarrow> bool" where
  "justifies env = (\<lambda>(tool, args) rq.
     (let raw = raw_arguments (rq_message rq); (user, exact, _) = call_authorization raw in
      called_tool env (rq_message rq) = tool \<and>
      (case requested_profile env rq of Inl _ \<Rightarrow> False | Inr profile \<Rightarrow> granted profile tool) \<and>
      (risk tool raw \<in> set risky \<longrightarrow> user \<and> exact) \<and> (risk tool raw = ''safe-state-write'' \<longrightarrow> exact) \<and>
      ''_approved'' \<notin> fst ` set args \<and> ''_syntavra_authorization'' \<notin> fst ` set args))"

lemma tool_arguments_clean:
  "''_approved'' \<notin> fst ` set (tool_arguments p tool raw) \<and> ''_syntavra_authorization'' \<notin> fst ` set (tool_arguments p tool raw)"
  by (auto simp: tool_arguments_def sanitize_arguments_def delete_key_simps)

lemma execute_traced:
  "\<exists>out s'. execute_tool env (traced server) tool args d p (s, tr) = (out, s', tr @ [(tool, args)])"
  by (auto simp: execute_tool_def traced_def Let_def split: prod.splits sum.splits)

lemma call_traced:
  assumes "call env (traced server) rq (p, s, tr) = (r, p', s', tr')"
  shows "(tr' = tr \<and> filter rt_allowed (pl_routes p') = filter rt_allowed (pl_routes p)) \<or>
         (\<exists>tool args. tr' = tr @ [(tool, args)] \<and> justifies (pe_catalog env) (tool, args) rq \<and>
            (\<exists>route. filter rt_allowed (pl_routes p') = filter rt_allowed (pl_routes p) @ [route] \<and> rt_tool route = tool))"
proof -
  let ?ce = "pe_catalog env" and ?raw = "raw_arguments (rq_message rq)"
  let ?tool = "called_tool ?ce (rq_message rq)"
  obtain l p1 where l: "list_tools ?ce rq (sv_tools server s) p = (l, p1)" by fastforce
  have routes: "pl_routes p1 = pl_routes p" using list_tools_routes[OF l] .
  have tools: "sv_tools (traced server) (s, tr) = sv_tools server s" by (simp add: traced_def)
  show ?thesis
  proof (cases l)
    case (Inl e)
    with assms routes show ?thesis by (simp add: call_def Let_def l tools)
  next
    case (Inr rows)
    note l = l[unfolded Inr]
    show ?thesis
    proof (cases "exposed_names ?ce rows")
      case (Inl e)
      with assms routes show ?thesis by (simp add: call_def Let_def l tools)
    next
      case (Inr exposed)
      define d where "d = authorize ?ce (pl_policy p1) ?tool ?raw exposed"
      show ?thesis
      proof (cases "md_allowed d")
        case False
        with assms routes show ?thesis
          by (auto simp: call_def Let_def l tools Inr d_def record_route_def)
      next
        case True
        obtain out s2 where ex: "execute_tool env (traced server) ?tool (tool_arguments (record_route d p1) ?tool ?raw) d (record_route d p1) (s, tr) =
            (out, s2, tr @ [(?tool, tool_arguments (record_route d p1) ?tool ?raw)])"
          using execute_traced[of env server ?tool "tool_arguments (record_route d p1) ?tool ?raw" d "record_route d p1" s tr] by blast
        have res: "p' = record_route d p1" "tr' = tr @ [(?tool, tool_arguments (record_route d p1) ?tool ?raw)]"
          using assms True ex by (auto simp: call_def Let_def l tools Inr d_def)
        have allowed: "?tool \<in> set exposed" "risk ?tool ?raw \<in> set risky \<longrightarrow> fst (snd (call_authorization ?raw)) \<and> fst (call_authorization ?raw)"
            "risk ?tool ?raw = ''safe-state-write'' \<longrightarrow> fst (snd (call_authorization ?raw))"
          using True unfolding d_def authorize_fields by blast+
        have "justifies ?ce (?tool, tool_arguments (record_route d p1) ?tool ?raw) rq"
          using list_tools_granted[OF l Inr allowed(1)] allowed(2,3) tool_arguments_clean[of "record_route d p1" ?tool ?raw]
          by (auto simp: justifies_def Let_def split: prod.splits)
        moreover have "md_tool d = ?tool" by (simp add: d_def authorize_def Let_def split: prod.splits)
        ultimately show ?thesis using res routes True by (auto simp: record_route_def)
      qed
    qed
  qed
qed

text \<open>
  C4. Whatever requests arrive, and whatever the server does, every call it receives is justified by one of the
  requests: the active profile grants the tool, a risky tool has the user's authorization and exact evidence, a
  state write has exact evidence, and the arguments no longer hold the authorization.  The routes record
  exactly these calls as allowed, in order.
\<close>

theorem server_calls_justified:
  assumes "serve env (traced server) rqs (p, s, []) = (p', s', tr)" and "pl_routes p = []"
  shows "list_all (\<lambda>c. list_ex (justifies (pe_catalog env) c) rqs) tr \<and>
         map rt_tool (filter rt_allowed (pl_routes p')) = map fst tr"
proof -
  have "\<exists>new. tr = tr0 @ new \<and> (\<forall>c\<in>set new. \<exists>rq\<in>set rqs. justifies (pe_catalog env) c rq) \<and>
          map rt_tool (filter rt_allowed (pl_routes p')) = map rt_tool (filter rt_allowed (pl_routes p)) @ map fst new"
    if "serve env (traced server) rqs (p, s, tr0) = (p', s', tr)" for p s tr0
    using that
  proof (induction rqs arbitrary: p s tr0)
    case (Cons rq rqs)
    obtain r p1 s1 tr1 where c: "call env (traced server) rq (p, s, tr0) = (r, p1, s1, tr1)"
      by (cases "call env (traced server) rq (p, s, tr0)") auto
    have rest: "serve env (traced server) rqs (p1, s1, tr1) = (p', s', tr)" using Cons.prems c by simp
    from Cons.IH[OF rest] call_traced[OF c] show ?case by fastforce
  qed simp
  from this[OF assms(1)] assms(2) show ?thesis by (auto simp: list_all_iff list_ex_iff)
qed

definition demo_pipeline_env :: pipeline_env where
  "demo_pipeline_env = \<lparr>pe_catalog = demo_env, pe_secret = plain_env, pe_dump = (\<lambda>v. ''1'')\<rparr>"

definition demo_server :: "nat mcp_server" where
  "demo_server = \<lparr>sv_tools = (\<lambda>n. [[(''name'', PyStr ''syntavra.process.submit'')]]),
     sv_call = (\<lambda>tool args n. (Inr (PyInt 1), n + 1)), sv_capture = (\<lambda>tool args v n. (Inr v, n))\<rparr>"

definition demo_call :: "bool \<Rightarrow> request" where
  "demo_call approved = \<lparr>rq_environ = None, rq_file = None, rq_message = [(''id'', PyInt 1), (''params'', PyDict
     [(''name'', PyStr ''syntavra.process.submit''), (''arguments'', PyDict [(''argv'', PyStr ''ls''), (''_approved'', PyBool approved)])])]\<rparr>"

definition demo_start :: pipeline where
  "demo_start = \<lparr>pl_policy = \<lparr>po_profile = ''minimal'', po_legacy = ''tiny''\<rparr>, pl_raw = False, pl_wire = False,
     pl_compilation = None, pl_routes = []\<rparr>"

lemma demo_profile: "requested_profile demo_env (demo_call True) = Inr ''minimal''"
  unfolding demo_call_def by code_simp

lemma demo_catalog_rows:
  "filter_catalog demo_env (pl_policy demo_start) [[(''name'', PyStr ''syntavra.process.submit'')]] =
     Inr [[(''name'', PyStr ''syntavra.process.submit'')]]"
  using normalize_known[of "''minimal''"]
  by (simp add: filter_catalog_def catalog_by_name_def demo_start_def profile_tools_def mcp_profiles_def minimal_tools_def
      listed_name_def py_get_none_def str_of_def py_str_def select_rows_def List.map_filter_simps fromkeys_def)

lemma demo_authorized:
  "md_allowed (authorize demo_env (pl_policy demo_start) ''syntavra.process.submit''
     [(''argv'', PyStr ''ls''), (''_approved'', PyBool True)] [''syntavra.process.submit''])"
  unfolding authorize_fields
  by (simp add: call_authorization_def py_get_none_def py_truth_def Let_def)

abbreviation demo_tool :: fields where
  "demo_tool \<equiv> [(''name'', PyStr ''syntavra.process.submit'')]"

lemma demo_request:
  "called_tool demo_env (rq_message (demo_call True)) = ''syntavra.process.submit''"
  "raw_arguments (rq_message (demo_call True)) = [(''argv'', PyStr ''ls''), (''_approved'', PyBool True)]"
  by (simp_all add: called_tool_def raw_arguments_def message_params_def demo_call_def py_get_none_def py_truth_def str_of_def py_str_def)

lemma demo_list:
  "list_tools demo_env (demo_call True) [demo_tool] demo_start =
     (Inr (fst (compile_catalog demo_env [demo_tool])), demo_start\<lparr>pl_compilation := Some (snd (compile_catalog demo_env [demo_tool]))\<rparr>)"
  using demo_catalog_rows by (simp add: list_tools_def refresh_def demo_profile split_beta) (simp add: demo_start_def)

lemma demo_exposed: "exposed_names demo_env (fst (compile_catalog demo_env [demo_tool])) = Inr [''syntavra.process.submit'']"
  by (simp add: exposed_names_def compile_catalog_rows field_def compile_row_name str_of_def py_str_def)

lemma demo_arguments:
  "tool_arguments (record_route d (demo_start\<lparr>pl_compilation := Some (snd (compile_catalog demo_env [demo_tool]))\<rparr>)) ''syntavra.process.submit''
     [(''argv'', PyStr ''ls''), (''_approved'', PyBool True)] = [(''argv'', PyStr ''ls'')]"
  by (simp add: tool_arguments_def record_route_def decode_arguments_def compile_catalog_def compile_row_def compile_schema_def
      py_get_none_def Let_def decode_with_def sanitize_arguments_def delete_key_def)

lemma demo_serve:
  "\<exists>p n. serve demo_pipeline_env (traced demo_server) [demo_call True] (demo_start, 0, []) =
     (p, n, [(''syntavra.process.submit'', [(''argv'', PyStr ''ls'')])])"
proof -
  have tools: "sv_tools (traced demo_server) (0, []) = [demo_tool]" by (simp add: traced_def demo_server_def)
  let ?c = "demo_start\<lparr>pl_compilation := Some (snd (compile_catalog demo_env [demo_tool]))\<rparr>"
  let ?d = "authorize demo_env (pl_policy demo_start) ''syntavra.process.submit''
     [(''argv'', PyStr ''ls''), (''_approved'', PyBool True)] [''syntavra.process.submit'']"
  have env: "pe_catalog demo_pipeline_env = demo_env" "pl_policy ?c = pl_policy demo_start"
    by (simp_all add: demo_pipeline_env_def demo_start_def)
  obtain out n where "execute_tool demo_pipeline_env (traced demo_server) ''syntavra.process.submit'' [(''argv'', PyStr ''ls'')] ?d
      (record_route ?d ?c) (0, []) = (out, n, [(''syntavra.process.submit'', [(''argv'', PyStr ''ls'')])])"
    using execute_traced[of demo_pipeline_env demo_server "''syntavra.process.submit''" "[(''argv'', PyStr ''ls'')]" ?d "record_route ?d ?c" 0 "[]"] by auto
  then have "call demo_pipeline_env (traced demo_server) (demo_call True) (demo_start, 0, []) =
      (Inr out, record_route ?d ?c, n, [(''syntavra.process.submit'', [(''argv'', PyStr ''ls'')])])"
    by (simp add: call_def env tools demo_list demo_exposed demo_request demo_authorized demo_arguments Let_def)
  then show ?thesis by simp
qed

theorem server_calls_justified_witness:
  "justifies demo_env (''syntavra.process.submit'', [(''argv'', PyStr ''ls'')]) (demo_call True)"
proof -
  obtain p n where "serve demo_pipeline_env (traced demo_server) [demo_call True] (demo_start, 0, []) =
     (p, n, [(''syntavra.process.submit'', [(''argv'', PyStr ''ls'')])])"
    using demo_serve by blast
  from server_calls_justified[OF this] show ?thesis by (simp add: demo_start_def demo_pipeline_env_def)
qed

section \<open>What leaves the pipeline\<close>

text \<open>
  An answer carries only the redacted value: as it is, or inside an envelope of the wire codec, which decodes
  to it when no key or tag of the value could be mistaken for one of the codec's.
\<close>

lemma answer_redacted:
  assumes "execute_tool env server tool args d p s = (Answer a, s')"
  shows "\<exists>v. let clean = fst (redact (pe_secret env) (ct_sha (pe_catalog env)) v) in
           an_redaction a = snd (redact (pe_secret env) (ct_sha (pe_catalog env)) v) \<and> an_text a = pe_dump env (an_rendered a) \<and>
           (an_rendered a = clean \<or>
            an_rendered a = PyDict (wire_result_py (encode_wire (ct_sha (pe_catalog env)) (ct_show (pe_catalog env)) (8 / 100) clean)))"
proof -
  obtain v where v: "render_result env p d v = Answer a"
    using assms by (auto simp: execute_tool_def failure_def split: prod.splits sum.splits py_error.splits)
  show ?thesis
    by (rule exI[of _ v]) (use v in \<open>auto simp: render_result_def Let_def split: prod.splits if_splits\<close>)
qed

end
