(* ===== verification/ContextGovernor.thy ===== *)
theory ContextGovernor
  imports Prelude
begin

text \<open>
  The context governor of \<open>syntavra_runtime/context_governor.py\<close> over the items and packs of \<open>models.py\<close>: the
  pressure levels of a window, and the packing of context items under a token budget, with the items that
  must be there, the dependencies of every item, the greedy choice by utility per token and the local
  replacement pass.  Sets of identifiers are lists; no result depends on their order.
\<close>

section \<open>Pressure\<close>

definition default_thresholds :: "(rat \<times> string list) list" where
  "default_thresholds =
     [(50 / 100, [''evict_duplicates'', ''drop_raw_success_logs'']), (60 / 100, [''externalize_evidence'']),
      (70 / 100, [''write_phase_capsule'']), (78 / 100, [''update_context_dag'']),
      (84 / 100, [''prepare_controlled_handoff'']), (88 / 100, [''mandatory_session_split''])]"

record context_decision =
  cd_utilization :: rat
  cd_level :: int
  cd_actions :: "string list"
  cd_split :: bool
  cd_pressure :: rat

definition evaluate :: "int \<Rightarrow> int \<Rightarrow> (rat \<times> string list) list \<Rightarrow> rat \<Rightarrow> rat \<Rightarrow> py_error + context_decision" where
  "evaluate used window thresholds churn evidence =
     (if used < 0 \<or> window \<le> 0 then Inl (ValueError ''used must be nonnegative and window positive'')
      else let utilization = of_int used / of_int window;
               pressure = min (15 / 10) (max 0 (utilization + 12 / 100 * max 0 churn + 8 / 100 * max 0 evidence));
               (level, actions) = fold (\<lambda>(t, names) (l, a). if t \<le> pressure then (l + 1, a @ names) else (l, a)) thresholds (0, [])
           in if thresholds = [] then Inl IndexError
              else Inr \<lparr>cd_utilization = utilization, cd_level = level, cd_actions = actions,
                cd_split = fst (last thresholds) \<le> pressure, cd_pressure = pressure\<rparr>)"

section \<open>Items and dependencies\<close>

record pack_item =
  gi_id :: string
  gi_role :: string
  gi_text :: string
  gi_tokens :: int
  gi_utility :: rat
  gi_conf :: rat
  gi_mandatory :: bool
  gi_stable :: bool
  gi_provenance :: string
  gi_deps :: "string list"

record context_pack =
  pk_budget :: int
  pk_used :: int
  pk_selected :: "string list"
  pk_dropped :: "string list"
  pk_hash :: string
  pk_mandatory :: bool
  pk_utility :: rat
  pk_sections :: "(string \<times> string) list"
  pk_reasons :: "string list"

definition prefix_hash :: "(pyval \<Rightarrow> string) \<Rightarrow> (string \<times> string) list \<Rightarrow> string" where
  "prefix_hash sha sections = digest sha (PyList (map (\<lambda>(i, t). PyTuple [PyStr i, PyStr t]) (sort_key fst sections)))"

definition item_of :: "pack_item list \<Rightarrow> string \<Rightarrow> pack_item option" where
  "item_of items i = find (\<lambda>it. gi_id it = i) items"

text \<open>\<open>_closure\<close>: what an item needs beyond the selected ones.  The head of the list is the top of the stack.\<close>

lemma item_of_id: "item_of items i = Some it \<Longrightarrow> gi_id it = i \<and> it \<in> set items"
  by (auto simp: item_of_def find_Some_iff)

function closure_loop :: "pack_item list \<Rightarrow> string list \<Rightarrow> string list \<Rightarrow> string list \<Rightarrow> py_error + string list" where
  "closure_loop items selected required [] = Inr required"
| "closure_loop items selected required (current # stack) =
     (if current \<in> set selected \<or> current \<in> set required then closure_loop items selected required stack
      else case item_of items current of
          None \<Rightarrow> Inl (KeyError (''missing context dependency: '' @ current))
        | Some it \<Rightarrow> closure_loop items selected (current # required) (rev (gi_deps it) @ stack))"
  by pat_completeness auto
termination
proof (relation "measures [\<lambda>(items, _, required, _). card (gi_id ` set items - set required), \<lambda>(_, _, _, stack). length stack]")
  fix items selected required current stack it
  assume new: "\<not> (current \<in> set selected \<or> current \<in> set required)" and it: "item_of items current = Some it"
  have "gi_id ` set items - set (current # required) \<subset> gi_id ` set items - set required"
    using new item_of_id[OF it] by auto
  then have "card (gi_id ` set items - set (current # required)) < card (gi_id ` set items - set required)"
    by (intro psubset_card_mono) auto
  then show "((items, selected, current # required, rev (gi_deps it) @ stack), (items, selected, required, current # stack)) \<in>
      measures [\<lambda>(items, _, required, _). card (gi_id ` set items - set required), \<lambda>(_, _, _, stack). length stack]"
    by simp
qed auto

definition closure :: "pack_item list \<Rightarrow> string list \<Rightarrow> string \<Rightarrow> py_error + string list" where
  "closure items selected i = closure_loop items selected [] [i]"

definition cost_of :: "pack_item list \<Rightarrow> string \<Rightarrow> int" where
  "cost_of items i = (case item_of items i of None \<Rightarrow> 0 | Some it \<Rightarrow> max 0 (gi_tokens it))"

definition worth_of :: "pack_item list \<Rightarrow> string \<Rightarrow> rat" where
  "worth_of items i = (case item_of items i of None \<Rightarrow> 0 | Some it \<Rightarrow> max 0 (gi_utility it) * max 0 (min 1 (gi_conf it)))"

text \<open>\<open>marginal\<close>: utility, cost and closure of an item beside the selected ones.\<close>

definition marginal :: "pack_item list \<Rightarrow> string list \<Rightarrow> pack_item \<Rightarrow> py_error + rat \<times> int \<times> string list" where
  "marginal items selected it =
     bindE (closure items selected (gi_id it)) (\<lambda>cl.
       Inr (sum_list (map (worth_of items) cl), sum_list (map (cost_of items) cl), cl))"


definition deps_of :: "pack_item list \<Rightarrow> string \<Rightarrow> string list" where
  "deps_of items i = (case item_of items i of None \<Rightarrow> [] | Some it \<Rightarrow> gi_deps it)"

text \<open>Every selected item has its dependencies selected.\<close>

definition dep_closed :: "pack_item list \<Rightarrow> string set \<Rightarrow> bool" where
  "dep_closed items S \<longleftrightarrow> (\<forall>i\<in>S. set (deps_of items i) \<subseteq> S)"

lemma closure_loop_spec:
  assumes "closure_loop items selected required stack = Inr r"
  shows "set required \<union> set stack \<subseteq> set selected \<union> set r \<and> set required \<subseteq> set r \<and>
         set r \<subseteq> set required \<union> (gi_id ` set items - set selected) \<and> (distinct required \<longrightarrow> distinct r) \<and>
         ((\<forall>i\<in>set required. set (deps_of items i) \<subseteq> set selected \<union> set required \<union> set stack) \<longrightarrow>
            (\<forall>i\<in>set r. set (deps_of items i) \<subseteq> set selected \<union> set r))"
  using assms
proof (induction items selected required stack rule: closure_loop.induct)
  case (2 items selected required current stack)
  show ?case
  proof (cases "current \<in> set selected \<or> current \<in> set required")
    case True
    have r: "closure_loop items selected required stack = Inr r"
      using 2(3) by (simp only: closure_loop.simps True if_True)
    from 2(1)[OF True r] True show ?thesis by auto
  next
    case False
    then obtain it where it: "item_of items current = Some it"
      using 2(3) by (auto split: option.splits)
    then have r: "closure_loop items selected (current # required) (rev (gi_deps it) @ stack) = Inr r"
      using 2(3) False by simp
    have "set (deps_of items current) = set (gi_deps it)" by (simp add: deps_of_def it)
    moreover have "current \<in> gi_id ` set items" using item_of_id[OF it] by auto
    ultimately show ?thesis using 2(2)[OF False it r] False by auto
  qed
qed auto

lemma closure_spec:
  assumes "closure items selected i = Inr r"
  shows "i \<in> set selected \<union> set r" "set r \<subseteq> gi_id ` set items - set selected" "distinct r"
    "\<And>j. j \<in> set r \<Longrightarrow> set (deps_of items j) \<subseteq> set selected \<union> set r"
  using closure_loop_spec[OF assms[unfolded closure_def]] by auto

lemma closure_keeps_closed:
  "closure items selected i = Inr r \<Longrightarrow> dep_closed items (set selected) \<Longrightarrow> dep_closed items (set (r @ selected))"
  using closure_spec(4)[of items selected i r] by (fastforce simp: dep_closed_def)

section \<open>Packing\<close>

type_synonym score = "(rat \<times> rat \<times> int \<times> string) \<times> string list"

definition score_of :: "pack_item list \<Rightarrow> string list \<Rightarrow> pack_item \<Rightarrow> py_error + score" where
  "score_of items selected it =
     bindE (marginal items selected it) (\<lambda>(utility, cost, cl).
       Inr ((- (utility / of_int (max 1 cost)), - utility, cost, gi_id it), cl))"

definition score_cost :: "score \<Rightarrow> int" where
  "score_cost = (\<lambda>((_, _, cost, _), _). cost)"

definition best_fit :: "int \<Rightarrow> score list \<Rightarrow> score option" where
  "best_fit room scored = find (\<lambda>s. score_cost s \<le> room) (sort_key fst scored)"

lemma collect_member: "collect f xs = Inr ys \<Longrightarrow> y \<in> set ys \<Longrightarrow> \<exists>x\<in>set xs. f x = Inr y"
  by (induction xs arbitrary: ys) (fastforce split: sum.splits)+

lemma score_of_Inr:
  "score_of items selected it = Inr s \<Longrightarrow>
     closure items selected (gi_id it) = Inr (snd s) \<and> score_cost s = sum_list (map (cost_of items) (snd s))"
  by (auto simp: score_of_def marginal_def score_cost_def)

lemma best_fit_Some:
  "best_fit room scored = Some s \<Longrightarrow> s \<in> set scored \<and> score_cost s \<le> room"
  by (auto simp: best_fit_def find_Some_iff) (metis nth_mem set_sort length_sort)

function greedy :: "pack_item list \<Rightarrow> int \<Rightarrow> string list \<Rightarrow> int \<Rightarrow> pack_item list \<Rightarrow> py_error + string list \<times> int" where
  "greedy items budget selected used candidates =
     (if candidates = [] then Inr (selected, used)
      else case collect (score_of items selected) candidates of
          Inl e \<Rightarrow> Inl e
        | Inr scored \<Rightarrow>
            (case best_fit (budget - used) scored of
               None \<Rightarrow> Inr (selected, used)
             | Some s \<Rightarrow> greedy items budget (snd s @ selected) (used + score_cost s)
                 (filter (\<lambda>it. gi_id it \<notin> set (snd s @ selected)) candidates)))"
  by pat_completeness auto
termination
proof (relation "measure (\<lambda>(_, _, _, _, candidates). length candidates)")
  fix items budget selected used candidates scored s
  assume c: "collect (score_of items selected) candidates = Inr scored" "best_fit (budget - used) scored = Some s"
  obtain it where "it \<in> set candidates" "score_of items selected it = Inr s"
    using collect_member[OF c(1)] best_fit_Some[OF c(2)] by blast
  moreover from this have "gi_id it \<in> set (snd s @ selected)"
    using closure_spec(1) score_of_Inr by fastforce
  ultimately have "length (filter (\<lambda>it. gi_id it \<notin> set (snd s @ selected)) candidates) < length candidates"
    by (intro length_filter_less) auto
  then show "((items, budget, snd s @ selected, used + score_cost s, filter (\<lambda>it. gi_id it \<notin> set (snd s @ selected)) candidates),
      (items, budget, selected, used, candidates)) \<in> measure (\<lambda>(_, _, _, _, candidates). length candidates)" by simp
qed simp

declare greedy.simps [simp del]

text \<open>The replacement pass: a dropped item for one optional item of less value that no selected item depends on.\<close>

definition value_of :: "pack_item \<Rightarrow> rat" where
  "value_of it = gi_utility it * gi_conf it"

definition can_leave :: "pack_item list \<Rightarrow> int \<Rightarrow> string list \<Rightarrow> int \<Rightarrow> rat \<times> int \<times> string list \<Rightarrow> pack_item \<Rightarrow> bool" where
  "can_leave items budget selected used = (\<lambda>(utility, cost, _) outgoing.
     gi_id outgoing \<in> set selected \<and> value_of outgoing < utility \<and> cost \<le> budget - used + gi_tokens outgoing \<and>
     \<not> list_ex (\<lambda>i. i \<noteq> gi_id outgoing \<and> gi_id outgoing \<in> set (deps_of items i)) selected)"

definition replace_step :: "pack_item list \<Rightarrow> int \<Rightarrow> pack_item list \<Rightarrow> pack_item \<Rightarrow> string list \<times> int \<Rightarrow> py_error + string list \<times> int" where
  "replace_step items budget optional incoming = (\<lambda>(selected, used).
     bindE (marginal items selected incoming) (\<lambda>m.
       case find (can_leave items budget selected used m) optional of
         None \<Rightarrow> Inr (selected, used)
       | Some outgoing \<Rightarrow> (case m of (_, cost, cl) \<Rightarrow>
           Inr (cl @ filter (\<lambda>i. i \<noteq> gi_id outgoing) selected, used - gi_tokens outgoing + cost))))"

fun replace_all_items :: "pack_item list \<Rightarrow> int \<Rightarrow> pack_item list \<Rightarrow> pack_item list \<Rightarrow> string list \<times> int \<Rightarrow> py_error + string list \<times> int" where
  "replace_all_items items budget optional [] st = Inr st"
| "replace_all_items items budget optional (incoming # dropped) st =
     bindE (replace_step items budget optional incoming st) (replace_all_items items budget optional dropped)"

text \<open>The identifiers that must be there, with all they need.\<close>

fun expand :: "pack_item list \<Rightarrow> string list \<Rightarrow> string list \<Rightarrow> py_error + string list" where
  "expand items expanded [] = Inr expanded"
| "expand items expanded (i # is) = bindE (closure items expanded i) (\<lambda>cl. expand items (cl @ expanded) is)"

definition required_ids :: "pack_item list \<Rightarrow> string list \<Rightarrow> string list" where
  "required_ids items roles = sorted_set (map gi_id (filter (\<lambda>it. gi_mandatory it \<or> gi_role it \<in> set roles) items))"

definition items_of :: "pack_item list \<Rightarrow> string list \<Rightarrow> pack_item list" where
  "items_of items is = List.map_filter (item_of items) is"

definition optional_order :: "pack_item list \<Rightarrow> string list \<Rightarrow> string list \<Rightarrow> pack_item list" where
  "optional_order items expanded selected =
     sort_key (\<lambda>it. (value_of it / of_int (max 1 (gi_tokens it)), gi_id it)) (items_of items (filter (\<lambda>i. i \<notin> set expanded) selected))"

definition dropped_order :: "pack_item list \<Rightarrow> string list \<Rightarrow> pack_item list" where
  "dropped_order items selected = sort_key (\<lambda>it. (- value_of it, gi_id it)) (filter (\<lambda>it. gi_id it \<notin> set selected) items)"

definition choose_items :: "pack_item list \<Rightarrow> int \<Rightarrow> string list \<Rightarrow> py_error + string list \<times> int" where
  "choose_items items budget expanded =
     bindE (greedy items budget expanded (sum_list (map (cost_of items) expanded)) (filter (\<lambda>it. gi_id it \<notin> set expanded) items))
       (\<lambda>(selected, used). replace_all_items items budget (optional_order items expanded selected) (dropped_order items selected) (selected, used))"

definition role_of :: "pack_item list \<Rightarrow> string \<Rightarrow> string" where
  "role_of items i = (case item_of items i of None \<Rightarrow> '''' | Some it \<Rightarrow> gi_role it)"

definition refused_pack :: "(pyval \<Rightarrow> string) \<Rightarrow> pack_item list \<Rightarrow> int \<Rightarrow> string list \<Rightarrow> string list \<Rightarrow> context_pack" where
  "refused_pack sha items budget roles expanded =
     (let cost = sum_list (map (cost_of items) expanded);
          missing = sorted_set (filter (\<lambda>r. r \<notin> role_of items ` set expanded) roles)
      in \<lparr>pk_budget = budget, pk_used = 0, pk_selected = [], pk_dropped = sorted_set (map gi_id items), pk_hash = prefix_hash sha [],
          pk_mandatory = False, pk_utility = 0, pk_sections = [],
          pk_reasons = (''mandatory-over-budget:'' @ int_str cost @ ''>'' @ int_str budget) #
            (if missing = [] then [] else [''missing-roles:'' @ join '','' missing])\<rparr>)"

definition finish_pack :: "(pyval \<Rightarrow> string) \<Rightarrow> pack_item list \<Rightarrow> int \<Rightarrow> string list \<Rightarrow> string list \<Rightarrow> string list \<times> int \<Rightarrow> context_pack" where
  "finish_pack sha items budget roles expanded = (\<lambda>(selected, used).
     let rows = sort_key (\<lambda>it. (\<not> gi_stable it, gi_role it, gi_id it)) (items_of items selected);
         sections = map (\<lambda>it. (gi_id it, gi_text it)) rows
     in \<lparr>pk_budget = budget, pk_used = used, pk_selected = map gi_id rows,
         pk_dropped = sorted_set (filter (\<lambda>i. i \<notin> set selected) (map gi_id items)), pk_hash = prefix_hash sha sections,
         pk_mandatory = (set roles \<subseteq> gi_role ` set rows \<and> set expanded \<subseteq> set selected),
         pk_utility = sum_list (map value_of rows), pk_sections = sections, pk_reasons = []\<rparr>)"

definition pack_context :: "(pyval \<Rightarrow> string) \<Rightarrow> pack_item list \<Rightarrow> int \<Rightarrow> string list \<Rightarrow> py_error + context_pack" where
  "pack_context sha items budget roles =
     (if budget \<le> 0 then Inl (ValueError ''budget must be positive'')
      else if \<not> distinct (map gi_id items) then Inl (ValueError ''duplicate context item id'')
      else bindE (expand items [] (required_ids items roles)) (\<lambda>expanded.
        if budget < sum_list (map (cost_of items) expanded) then Inr (refused_pack sha items budget roles expanded)
        else bindE (choose_items items budget expanded) (\<lambda>st. Inr (finish_pack sha items budget roles expanded st))))"

section \<open>The budget holds\<close>

definition pack_ok :: "pack_item list \<Rightarrow> int \<Rightarrow> string list \<Rightarrow> string list \<times> int \<Rightarrow> bool" where
  "pack_ok items budget expanded = (\<lambda>(selected, used).
     distinct selected \<and> set expanded \<subseteq> set selected \<and> set selected \<subseteq> gi_id ` set items \<and>
     sum_list (map (cost_of items) selected) \<le> used \<and> used \<le> budget)"

lemma closure_adds:
  assumes "closure items selected i = Inr r" and "distinct selected" and "set selected \<subseteq> gi_id ` set items"
  shows "distinct (r @ selected) \<and> set (r @ selected) \<subseteq> gi_id ` set items"
  using closure_spec(2,3)[OF assms(1)] assms(2,3) by auto

lemma greedy_ok:
  assumes "greedy items budget selected used candidates = Inr st" and "pack_ok items budget expanded (selected, used)"
  shows "pack_ok items budget expanded st \<and> (dep_closed items (set selected) \<longrightarrow> dep_closed items (set (fst st)))"
  using assms
proof (induction items budget selected used candidates rule: greedy.induct)
  case (1 items budget selected used candidates)
  show ?case
  proof (cases "candidates = []")
    case False
    then obtain scored where sc: "collect (score_of items selected) candidates = Inr scored"
      using "1.prems"(1) by (subst (asm) greedy.simps) (auto split: sum.splits)
    show ?thesis
    proof (cases "best_fit (budget - used) scored")
      case None
      with "1.prems" False sc show ?thesis by (subst (asm) greedy.simps) auto
    next
      case (Some s)
      obtain it where it: "score_of items selected it = Inr s" using collect_member[OF sc] best_fit_Some[OF Some] by blast
      note cl = score_of_Inr[OF it]
      have rest: "greedy items budget (snd s @ selected) (used + score_cost s) (filter (\<lambda>it. gi_id it \<notin> set (snd s @ selected)) candidates) = Inr st"
        using "1.prems"(1) False sc Some by (subst (asm) greedy.simps) simp
      have "pack_ok items budget expanded (snd s @ selected, used + score_cost s)"
        using "1.prems"(2) closure_adds[of items selected _ "snd s"] cl best_fit_Some[OF Some] by (auto simp: pack_ok_def)
      from "1.IH"[OF False sc Some rest this] closure_keeps_closed cl show ?thesis by blast
    qed
  qed (use "1.prems" greedy.simps in auto)
qed

lemma cost_of_nonneg: "0 \<le> cost_of items i"
  by (simp add: cost_of_def split: option.split)

lemma replace_step_ok:
  assumes "replace_step items budget optional incoming st = Inr st'" and "pack_ok items budget expanded st"
    and "\<And>it. it \<in> set optional \<Longrightarrow> item_of items (gi_id it) = Some it \<and> gi_id it \<notin> set expanded"
  shows "pack_ok items budget expanded st'"
proof -
  obtain selected used where st: "st = (selected, used)" by (cases st)
  obtain u c cl where m: "marginal items selected incoming = Inr (u, c, cl)"
    using assms(1) by (auto simp: replace_step_def st)
  show ?thesis
  proof (cases "find (can_leave items budget selected used (u, c, cl)) optional")
    case None
    with assms(1,2) m show ?thesis by (simp add: replace_step_def st)
  next
    case (Some out)
    then have out: "can_leave items budget selected used (u, c, cl) out" "out \<in> set optional"
      by (auto simp: find_Some_iff)
    have ok: "distinct selected" "set expanded \<subseteq> set selected" "set selected \<subseteq> gi_id ` set items"
        "sum_list (map (cost_of items) selected) \<le> used" "used \<le> budget" using assms(2) by (auto simp: pack_ok_def st)
    have st': "st' = (cl @ filter (\<lambda>i. i \<noteq> gi_id out) selected, used - gi_tokens out + c)"
      using assms(1) m Some by (simp add: replace_step_def st)
    have cl: "closure items selected (gi_id incoming) = Inr cl" "c = sum_list (map (cost_of items) cl)"
      using m by (auto simp: marginal_def)
    have "filter (\<lambda>i. i \<noteq> gi_id out) selected = remove1 (gi_id out) selected"
      using ok(1) by (simp add: distinct_remove1_removeAll removeAll_filter_not_eq) (metis)
    then have "sum_list (map (cost_of items) selected) = cost_of items (gi_id out) + sum_list (map (cost_of items) (filter (\<lambda>i. i \<noteq> gi_id out) selected))"
      using out(1) by (simp add: can_leave_def sum_list_map_remove1)
    moreover have "gi_tokens out \<le> cost_of items (gi_id out)" using assms(3)[OF out(2)] by (simp add: cost_of_def)
    ultimately have "sum_list (map (cost_of items) (fst st')) \<le> snd st'" using ok(4) cl(2) by (simp add: st')
    moreover have "distinct (fst st') \<and> set (fst st') \<subseteq> gi_id ` set items"
      using closure_adds[OF cl(1) ok(1,3)] by (auto simp: st')
    moreover have "snd st' \<le> budget" using out(1) by (simp add: st' can_leave_def)
    moreover have "set expanded \<subseteq> set (fst st')" using ok(2) assms(3)[OF out(2)] by (auto simp: st')
    ultimately show ?thesis by (auto simp: pack_ok_def st')
  qed
qed

lemma replace_all_ok:
  assumes "replace_all_items items budget optional dropped st = Inr st'" and "pack_ok items budget expanded st"
    and "\<And>it. it \<in> set optional \<Longrightarrow> item_of items (gi_id it) = Some it \<and> gi_id it \<notin> set expanded"
  shows "pack_ok items budget expanded st'"
  using assms(1,2)
proof (induction dropped arbitrary: st)
  case (Cons incoming dropped)
  then obtain st1 where st1: "replace_step items budget optional incoming st = Inr st1" "replace_all_items items budget optional dropped st1 = Inr st'"
    by (metis bindE_eq_Inr replace_all_items.simps(2))
  from replace_step_ok[OF st1(1) Cons.prems(2) assms(3)] Cons.IH[OF st1(2)] show ?case by blast
qed simp

lemma set_items_of: "it \<in> set (items_of items is) \<longleftrightarrow> (\<exists>i\<in>set is. item_of items i = Some it)"
  by (induction "is") (auto simp: items_of_def List.map_filter_simps split: option.splits)

lemma optional_order_items:
  "it \<in> set (optional_order items expanded selected) \<Longrightarrow> item_of items (gi_id it) = Some it \<and> gi_id it \<notin> set expanded"
  by (auto simp: optional_order_def set_items_of dest: item_of_id)

lemma choose_items_ok:
  assumes "choose_items items budget expanded = Inr st" and "distinct expanded" and "set expanded \<subseteq> gi_id ` set items"
    and "sum_list (map (cost_of items) expanded) \<le> budget"
  shows "pack_ok items budget expanded st"
proof -
  obtain st1 where st1: "greedy items budget expanded (sum_list (map (cost_of items) expanded)) (filter (\<lambda>it. gi_id it \<notin> set expanded) items) = Inr st1"
      "replace_all_items items budget (optional_order items expanded (fst st1)) (dropped_order items (fst st1)) st1 = Inr st"
    using assms(1) by (auto simp: choose_items_def)
  have "pack_ok items budget expanded st1"
    using greedy_ok[OF st1(1), of expanded] assms(2-4) by (simp add: pack_ok_def)
  from replace_all_ok[OF st1(2) this] optional_order_items show ?thesis by blast
qed

lemma expand_spec:
  assumes "expand items expanded is = Inr e" and "distinct expanded" and "set expanded \<subseteq> gi_id ` set items"
    and "dep_closed items (set expanded)"
  shows "distinct e \<and> set e \<subseteq> gi_id ` set items \<and> dep_closed items (set e) \<and> set expanded \<union> set is \<subseteq> set e"
  using assms
proof (induction "is" arbitrary: expanded)
  case (Cons i "is")
  then obtain cl where cl: "closure items expanded i = Inr cl" "expand items (cl @ expanded) is = Inr e" by auto
  have "i \<in> set (cl @ expanded)" using closure_spec(1)[OF cl(1)] by auto
  with Cons.IH[OF cl(2)] closure_adds[OF cl(1) Cons.prems(2,3)] closure_keeps_closed[OF cl(1) Cons.prems(4)]
  show ?case by auto
qed simp

lemma item_of_in: "i \<in> gi_id ` set items \<Longrightarrow> \<exists>it. item_of items i = Some it"
  by (cases "item_of items i") (auto simp: item_of_def find_None_iff)

lemma ids_items_of: "set is \<subseteq> gi_id ` set items \<Longrightarrow> map gi_id (items_of items is) = is"
proof (induction "is")
  case (Cons i "is")
  then obtain it where "item_of items i = Some it" using item_of_in by fastforce
  then show ?case using Cons item_of_id[of items i it] by (simp add: items_of_def List.map_filter_simps)
qed (simp add: items_of_def List.map_filter_simps)

lemma finish_selected:
  assumes "set (fst st) \<subseteq> gi_id ` set items"
  shows "mset (pk_selected (finish_pack sha items budget roles expanded st)) = mset (fst st)"
proof -
  have "mset (map gi_id (sort_key f (items_of items (fst st)))) = mset (map gi_id (items_of items (fst st)))" for f :: "pack_item \<Rightarrow> bool \<times> string \<times> string"
    by simp
  then show ?thesis using ids_items_of[OF assms] by (simp add: finish_pack_def Let_def split_beta)
qed

lemma pack_context_cases:
  assumes "pack_context sha items budget roles = Inr p"
  obtains expanded where "0 < budget" "distinct (map gi_id items)" "expand items [] (required_ids items roles) = Inr expanded"
      "budget < sum_list (map (cost_of items) expanded)" "p = refused_pack sha items budget roles expanded"
    | expanded st where "0 < budget" "distinct (map gi_id items)" "expand items [] (required_ids items roles) = Inr expanded"
      "pack_ok items budget expanded st" "choose_items items budget expanded = Inr st" "p = finish_pack sha items budget roles expanded st"
proof -
  obtain expanded where e: "expand items [] (required_ids items roles) = Inr expanded"
    using assms by (auto simp: pack_context_def split: if_splits)
  have ok: "distinct expanded" "set expanded \<subseteq> gi_id ` set items"
    using expand_spec[OF e] by (auto simp: dep_closed_def)
  show thesis
  proof (cases "budget < sum_list (map (cost_of items) expanded)")
    case True
    with assms e that(1) show thesis by (auto simp: pack_context_def split: if_splits)
  next
    case False
    then obtain st where st: "choose_items items budget expanded = Inr st" "p = finish_pack sha items budget roles expanded st"
      using assms e by (auto simp: pack_context_def split: if_splits)
    have "pack_ok items budget expanded st" by (rule choose_items_ok[OF st(1) ok]) (use False in simp)
    with assms e st that(2) show thesis by (auto simp: pack_context_def split: if_splits)
  qed
qed

text \<open>
  C10. A pack never exceeds its budget: the tokens of the selected items, which are distinct items of the
  input, are at most what the pack says it uses, and that is at most the budget; every other item is dropped.
\<close>

theorem pack_within_budget:
  assumes "pack_context sha items budget roles = Inr p"
  shows "sum_list (map (cost_of items) (pk_selected p)) \<le> pk_used p \<and> pk_used p \<le> budget \<and> distinct (pk_selected p) \<and>
         distinct (pk_dropped p) \<and> set (pk_selected p) \<inter> set (pk_dropped p) = {} \<and> set (pk_selected p) \<union> set (pk_dropped p) = gi_id ` set items"
  using assms
proof (cases rule: pack_context_cases)
  case (1 expanded)
  then show ?thesis by (auto simp: refused_pack_def Let_def sorted_set_def)
next
  case (2 expanded st)
  have sub: "set (fst st) \<subseteq> gi_id ` set items" and ok: "distinct (fst st)" "sum_list (map (cost_of items) (fst st)) \<le> snd st" "snd st \<le> budget"
    using 2(4) by (auto simp: pack_ok_def split_beta)
  have m: "mset (pk_selected p) = mset (fst st)" using finish_selected[OF sub] 2(6) by simp
  then have "sum_list (map (cost_of items) (pk_selected p)) = sum_list (map (cost_of items) (fst st))"
    by (metis mset_map sum_mset_sum_list)
  moreover have "set (pk_selected p) = set (fst st)" "distinct (pk_selected p)"
    using m ok(1) mset_eq_setD mset_eq_imp_distinct_iff by metis+
  moreover have "pk_used p = snd st" "pk_dropped p = sorted_set (filter (\<lambda>i. i \<notin> set (fst st)) (map gi_id items))"
    by (simp_all add: 2(6) finish_pack_def Let_def split_beta)
  ultimately show ?thesis using ok sub by (auto simp: sorted_set_def)
qed

text \<open>What an item needs, directly or through other items.\<close>

inductive needs :: "pack_item list \<Rightarrow> string \<Rightarrow> string \<Rightarrow> bool" for items where
  needs_self: "needs items i i"
| needs_dep: "needs items i j \<Longrightarrow> k \<in> set (deps_of items j) \<Longrightarrow> needs items i k"

lemma needs_closed: "needs items i j \<Longrightarrow> dep_closed items S \<Longrightarrow> i \<in> S \<Longrightarrow> j \<in> S"
  by (induction rule: needs.induct) (auto simp: dep_closed_def)

lemma closure_loop_sound:
  assumes "closure_loop items selected required stack = Inr r" and "\<And>i j. R i \<Longrightarrow> j \<in> set (deps_of items i) \<Longrightarrow> R j"
    and "\<And>i. i \<in> set required \<union> set stack \<Longrightarrow> R i"
  shows "i \<in> set r \<Longrightarrow> R i"
  using assms
proof (induction items selected required stack rule: closure_loop.induct)
  case (2 items selected required current stack)
  show ?case
  proof (cases "current \<in> set selected \<or> current \<in> set required")
    case True
    from 2(1)[OF True 2(3)] 2(4-6) True show ?thesis by simp
  next
    case False
    then obtain it where it: "item_of items current = Some it"
      using 2(4) by (auto split: option.splits)
    have "R j" if "j \<in> set (gi_deps it)" for j
      using that 2(5)[of current j] 2(6)[of current] by (simp add: deps_of_def it)
    with 2(2)[OF False it 2(3)] 2(4-6) False it show ?thesis by auto
  qed
qed simp

text \<open>An item that must be there, and what such an item needs.\<close>

definition must_have :: "pack_item list \<Rightarrow> string list \<Rightarrow> string \<Rightarrow> bool" where
  "must_have items roles k \<longleftrightarrow> (\<exists>it\<in>set items. (gi_mandatory it \<or> gi_role it \<in> set roles) \<and> needs items (gi_id it) k)"

lemma expand_sound:
  assumes "expand items expanded is = Inr e" and "\<And>i. i \<in> set is \<union> set expanded \<Longrightarrow> must_have items roles i" and "i \<in> set e"
  shows "must_have items roles i"
  using assms
proof (induction "is" arbitrary: expanded)
  case (Cons j "is")
  then obtain cl where cl: "closure items expanded j = Inr cl" "expand items (cl @ expanded) is = Inr e" by auto
  have "must_have items roles k" if "k \<in> set cl" for k
    by (rule closure_loop_sound[OF cl(1)[unfolded closure_def], of "must_have items roles"])
      (use Cons.prems(2) that in \<open>auto simp: must_have_def intro: needs_dep\<close>)
  with Cons.IH[OF cl(2)] Cons.prems(2,3) show ?case by auto
qed simp

lemma required_must_have:
  "i \<in> set (required_ids items roles) \<Longrightarrow> must_have items roles i"
  by (auto simp: required_ids_def sorted_set_def must_have_def intro: needs_self)

lemma expand_must_have:
  assumes "expand items [] (required_ids items roles) = Inr e"
  shows "set e = {i. must_have items roles i}"
proof (intro equalityI subsetI)
  fix i assume "i \<in> set e"
  with expand_sound[OF assms] required_must_have show "i \<in> {i. must_have items roles i}" by auto
next
  fix i assume "i \<in> {i. must_have items roles i}"
  then obtain it where it: "it \<in> set items" "gi_mandatory it \<or> gi_role it \<in> set roles" "needs items (gi_id it) i"
    by (auto simp: must_have_def)
  have "dep_closed items (set e)" "gi_id it \<in> set e"
    using expand_spec[OF assms] it(1,2) by (auto simp: dep_closed_def required_ids_def sorted_set_def)
  with needs_closed[OF it(3)] show "i \<in> set e" by blast
qed

text \<open>
  C11. Mandatory items fail closed: a pack holds every mandatory item, every item of a mandatory role, and all
  they need, directly or through other items, and the replacement pass never takes one of them out;
  unless exactly these items cost more than the budget, and then the pack is refused and nothing is selected.
\<close>

theorem mandatory_items_kept:
  assumes "pack_context sha items budget roles = Inr p"
  shows "\<exists>needed. distinct needed \<and> set needed = {i. must_have items roles i} \<and>
     (if sum_list (map (cost_of items) needed) \<le> budget
      then set needed \<subseteq> set (pk_selected p) \<and> pk_reasons p = []
      else pk_selected p = [] \<and> \<not> pk_mandatory p \<and> pk_reasons p \<noteq> [])"
  using assms
proof (cases rule: pack_context_cases)
  case (1 expanded)
  then show ?thesis using expand_spec[OF 1(3)] expand_must_have[OF 1(3)]
    by (intro exI[of _ expanded]) (auto simp: refused_pack_def Let_def dep_closed_def)
next
  case (2 expanded st)
  have "set (pk_selected p) = set (fst st)"
    using finish_selected 2(4,6) by (metis (no_types, lifting) case_prod_beta mset_eq_setD pack_ok_def)
  moreover have "pk_reasons p = []" by (simp add: 2(6) finish_pack_def Let_def split_beta)
  moreover have "set expanded \<subseteq> set (fst st)" "sum_list (map (cost_of items) expanded) \<le> budget"
    using 2(3,4,5) assms 2(1,2) pack_ok_def by (auto simp: pack_ok_def pack_context_def 2(6) refused_pack_def finish_pack_def Let_def split_beta split: if_splits)
  ultimately show ?thesis using expand_spec[OF 2(3)] expand_must_have[OF 2(3)]
    by (intro exI[of _ expanded]) (auto simp: dep_closed_def)
qed


section \<open>Dependencies\<close>

text \<open>Before the replacement pass the selection has the dependencies of all its items.\<close>

lemma greedy_dependencies:
  assumes "expand items [] (required_ids items roles) = Inr expanded"
    and "sum_list (map (cost_of items) expanded) \<le> budget"
    and "greedy items budget expanded (sum_list (map (cost_of items) expanded)) (filter (\<lambda>it. gi_id it \<notin> set expanded) items) = Inr st"
  shows "dep_closed items (set (fst st))"
  using greedy_ok[OF assms(3), of expanded] expand_spec[OF assms(1)] assms(2) by (auto simp: pack_ok_def dep_closed_def)

text \<open>
  The replacement pass does not keep that: it asks whether a selected item depends on the outgoing one, not whether
  the incoming one does.  Here \<open>x\<close> replaces \<open>a\<close>, which it needs.
\<close>

definition small_item :: "string \<Rightarrow> int \<Rightarrow> rat \<Rightarrow> string list \<Rightarrow> bool \<Rightarrow> pack_item" where
  "small_item i tokens utility needed mandatory =
     \<lparr>gi_id = i, gi_role = ''note'', gi_text = i, gi_tokens = tokens, gi_utility = utility, gi_conf = 1, gi_mandatory = mandatory,
       gi_stable = False, gi_provenance = '''', gi_deps = needed\<rparr>"

lemma replacement_drops_dependency:
  "case pack_context (\<lambda>v. ''h'') [small_item ''a'' 5 2 [] False, small_item ''x'' 8 9 [''a''] False] 10 [] of
     Inl e \<Rightarrow> False | Inr p \<Rightarrow> pk_selected p = [''x''] \<and> pk_dropped p = [''a'']"
  by code_simp

definition small_pack :: context_pack where
  "small_pack = \<lparr>pk_budget = 10, pk_used = 8, pk_selected = [''a'', ''b''], pk_dropped = [''c''], pk_hash = ''h'', pk_mandatory = True,
     pk_utility = 3, pk_sections = [(''a'', ''a''), (''b'', ''b'')], pk_reasons = []\<rparr>"

lemma small_pack: "pack_context (\<lambda>v. ''h'')
     [small_item ''b'' 3 1 [''a''] True, small_item ''a'' 5 2 [] False, small_item ''c'' 4 3 [] False] 10 [] = Inr small_pack"
  by code_simp

theorem pack_within_budget_witness: "pk_used small_pack \<le> 10 \<and> set (pk_selected small_pack) \<union> set (pk_dropped small_pack) = {''b'', ''a'', ''c''}"
  using pack_within_budget[OF small_pack] by (simp add: small_item_def)

theorem mandatory_items_kept_witness:
  "\<exists>needed. set needed = {i. must_have [small_item ''b'' 3 1 [''a''] True, small_item ''a'' 5 2 [] False, small_item ''c'' 4 3 [] False] [] i} \<and>
     set needed \<subseteq> {''a'', ''b''}"
  using mandatory_items_kept[OF small_pack] by (auto simp: small_pack_def split: if_splits)

section \<open>The order of the items does not matter\<close>

definition same_items :: "pack_item list \<Rightarrow> pack_item list \<Rightarrow> bool" where
  "same_items items items' \<longleftrightarrow> mset items = mset items' \<and> distinct (map gi_id items)"

lemma item_of_iff:
  "distinct (map gi_id items) \<Longrightarrow> item_of items i = Some it \<longleftrightarrow> it \<in> set items \<and> gi_id it = i"
proof (induction items)
  case (Cons x items)
  then show ?case by (auto simp: item_of_def)
qed (simp add: item_of_def)

lemma same_items_distinct: "same_items items items' \<Longrightarrow> distinct (map gi_id items')"
  unfolding same_items_def by (metis mset_map mset_eq_imp_distinct_iff)

lemma same_items_set: "same_items items items' \<Longrightarrow> set items = set items'"
  unfolding same_items_def by (metis mset_eq_setD)

lemma same_item_of:
  assumes "same_items items items'"
  shows "item_of items = item_of items'"
proof
  fix i
  have "item_of items i = Some it \<longleftrightarrow> item_of items' i = Some it" for it
    using assms same_items_distinct[OF assms] same_items_set[OF assms] by (simp add: item_of_iff same_items_def)
  then show "item_of items i = item_of items' i" by (metis option.exhaust)
qed

lemma closure_loop_cong:
  "item_of items = item_of items' \<Longrightarrow> closure_loop items selected required stack = closure_loop items' selected required stack"
proof (induction items selected required stack rule: closure_loop.induct)
  case (2 items selected required current stack)
  then show ?case by (cases "item_of items' current") auto
qed simp

lemma same_lookups:
  assumes "same_items items items'"
  shows "closure items = closure items'" "cost_of items = cost_of items'" "worth_of items = worth_of items'"
    "deps_of items = deps_of items'" "role_of items = role_of items'" "items_of items = items_of items'"
proof -
  have loop: "closure_loop items = closure_loop items'" by (intro ext closure_loop_cong same_item_of assms)
  show "closure items = closure items'" by (intro ext) (simp only: closure_def loop)
  show "cost_of items = cost_of items'" "worth_of items = worth_of items'" "deps_of items = deps_of items'"
      "role_of items = role_of items'" "items_of items = items_of items'"
    by (intro ext, simp only: cost_of_def worth_of_def deps_of_def role_of_def items_of_def same_item_of[OF assms])+
qed

lemma same_marginal: "same_items items items' \<Longrightarrow> marginal items = marginal items'"
  by (auto simp: marginal_def same_lookups fun_eq_iff)

lemma same_score: "same_items items items' \<Longrightarrow> score_of items = score_of items'"
  by (auto simp: score_of_def same_marginal fun_eq_iff)

lemma collect_map: "collect f zs = Inr ws \<Longrightarrow> map f zs = map Inr ws"
  by (induction zs arbitrary: ws) (auto split: sum.splits)

lemma map_collect: "map f zs = map Inr ws \<Longrightarrow> collect f zs = Inr ws"
proof (induction zs arbitrary: ws)
  case (Cons z zs)
  then obtain w ws' where "ws = w # ws'" "f z = Inr w" "map f zs = map Inr ws'" by (cases ws) auto
  with Cons.IH[of ws'] show ?case by simp
qed simp

lemma collect_perm:
  assumes "collect f xs = Inr ys" and "mset xs' = mset xs"
  shows "\<exists>ys'. collect f xs' = Inr ys' \<and> mset ys' = mset ys"
proof -
  have "map f xs = map Inr ys" using assms(1) by (rule collect_map)
  then have m: "mset (map f xs') = mset (map Inr ys)" using assms(2) by (metis mset_map)
  then have "set (map f xs') = Inr ` set ys" by (metis list.set_map mset_eq_setD)
  then have "\<forall>y\<in>set (map f xs'). \<exists>x. y = Inr x" by blast
  then have "\<exists>ys'. map f xs' = map Inr ys'" by (subst ex_map_conv)
  then obtain ys' where ys': "map f xs' = map Inr ys'" by blast
  have inv: "image_mset projr (mset (map Inr zs)) = mset zs" for zs by (induction zs) simp_all
  have "mset ys' = mset ys" using arg_cong[OF m[unfolded ys'], of "image_mset projr"] unfolding inv .
  with map_collect[OF ys'] show ?thesis by blast
qed

lemma sort_key_perm:
  fixes f :: "'a \<Rightarrow> 'k::linorder"
  shows "mset xs = mset ys \<Longrightarrow> inj_on f (set xs) \<Longrightarrow> sort_key f xs = sort_key f ys"
  by (rule sort_key_inj_key_eq) simp_all

lemma score_keys_inj:
  assumes "collect (score_of items selected) candidates = Inr scored" and "distinct (map gi_id candidates)"
  shows "inj_on fst (set scored)"
proof (rule inj_onI)
  fix s t assume "s \<in> set scored" "t \<in> set scored" "fst s = fst t"
  moreover obtain x y where "x \<in> set candidates" "score_of items selected x = Inr s" "y \<in> set candidates" "score_of items selected y = Inr t"
    using collect_member[OF assms(1)] calculation(1,2) by blast
  moreover from this have "gi_id x = gi_id y" using calculation(3) by (auto simp: score_of_def)
  ultimately show "s = t" using assms(2) by (auto simp: distinct_map inj_on_def)
qed

lemma best_fit_perm:
  "mset scored' = mset scored \<Longrightarrow> inj_on fst (set scored) \<Longrightarrow> best_fit room scored' = best_fit room scored"
  using sort_key_perm[of scored scored' fst] by (simp add: best_fit_def)


lemma greedy_perm:
  assumes "greedy items budget selected used candidates = Inr st" and "same_items items items'"
    and "mset candidates' = mset candidates" and "distinct (map gi_id candidates)"
  shows "greedy items' budget selected used candidates' = Inr st"
  using assms
proof (induction items budget selected used candidates arbitrary: candidates' rule: greedy.induct)
  case (1 items budget selected used candidates)
  show ?case
  proof (cases "candidates = []")
    case True
    with "1.prems"(1,3) show ?thesis by (simp add: greedy.simps)
  next
    case False
    then obtain scored where sc: "collect (score_of items selected) candidates = Inr scored"
      using "1.prems"(1) by (subst (asm) greedy.simps) (auto split: sum.splits)
    obtain scored' where sc': "collect (score_of items' selected) candidates' = Inr scored'" "mset scored' = mset scored"
      using collect_perm[OF sc "1.prems"(3)] same_score[OF "1.prems"(2)] by auto
    have fit: "best_fit room scored' = best_fit room scored" for room
      by (rule best_fit_perm[OF sc'(2) score_keys_inj[OF sc "1.prems"(4)]])
    have ne: "candidates' \<noteq> []" using False "1.prems"(3) by auto
    show ?thesis
    proof (cases "best_fit (budget - used) scored")
      case None
      with "1.prems"(1) False sc have "st = (selected, used)" by (subst (asm) greedy.simps) simp
      then show ?thesis using ne sc'(1) fit None by (subst greedy.simps) simp
    next
      case (Some s)
      let ?rest = "filter (\<lambda>it. gi_id it \<notin> set (snd s @ selected))"
      have rest: "greedy items budget (snd s @ selected) (used + score_cost s) (?rest candidates) = Inr st"
        using "1.prems"(1) False sc Some by (subst (asm) greedy.simps) simp
      have "greedy items' budget (snd s @ selected) (used + score_cost s) (?rest candidates') = Inr st"
        by (rule "1.IH"[OF False sc Some rest "1.prems"(2)])
          (use "1.prems"(3,4) in \<open>simp_all add: distinct_map_filter\<close>)
      then show ?thesis using ne sc'(1) fit Some by (subst greedy.simps) simp
    qed
  qed
qed

lemma same_replace: 
  assumes "same_items items items'"
  shows "replace_all_items items budget optional dropped st = replace_all_items items' budget optional dropped st"
proof -
  have "replace_step items budget optional incoming = replace_step items' budget optional incoming" for incoming
    by (auto simp: replace_step_def can_leave_def same_marginal[OF assms] same_lookups[OF assms] fun_eq_iff)
  then have "replace_all_items items budget optional dropped = replace_all_items items' budget optional dropped"
    by (induction dropped) (rule ext, simp)+
  then show ?thesis by simp
qed

lemma same_orders:
  assumes "same_items items items'"
  shows "optional_order items expanded selected = optional_order items' expanded selected"
    "dropped_order items selected = dropped_order items' selected"
proof -
  show "optional_order items expanded selected = optional_order items' expanded selected"
    by (simp add: optional_order_def same_lookups[OF assms])
  have "inj_on (\<lambda>it. (- value_of it, gi_id it)) (set (filter (\<lambda>it. gi_id it \<notin> set selected) items))"
    using assms by (auto simp: same_items_def distinct_map inj_on_def)
  moreover have "mset (filter (\<lambda>it. gi_id it \<notin> set selected) items) = mset (filter (\<lambda>it. gi_id it \<notin> set selected) items')"
    using assms by (simp add: same_items_def)
  ultimately show "dropped_order items selected = dropped_order items' selected"
    unfolding dropped_order_def by (intro sort_key_perm)
qed

lemma same_choose:
  assumes "same_items items items'" and "choose_items items budget expanded = Inr st"
  shows "choose_items items' budget expanded = Inr st"
proof -
  let ?c = "filter (\<lambda>it. gi_id it \<notin> set expanded)"
  obtain st1 where st1: "greedy items budget expanded (sum_list (map (cost_of items) expanded)) (?c items) = Inr st1"
      "replace_all_items items budget (optional_order items expanded (fst st1)) (dropped_order items (fst st1)) st1 = Inr st"
    using assms(2) by (auto simp: choose_items_def)
  have "greedy items' budget expanded (sum_list (map (cost_of items') expanded)) (?c items') = Inr st1"
    using greedy_perm[OF st1(1) assms(1), of "?c items'"] assms(1) same_lookups[OF assms(1)]
    by (simp add: same_items_def distinct_map_filter)
  then show ?thesis
    using st1(2) same_replace[OF assms(1)] same_orders[OF assms(1)] by (simp add: choose_items_def split_beta)
qed

lemma same_expand:
  assumes "same_items items items'"
  shows "expand items e is = expand items' e is"
  by (induction "is" arbitrary: e) (simp_all add: same_lookups[OF assms])

lemma same_sets:
  assumes "same_items items items'"
  shows "required_ids items roles = required_ids items' roles"
    "sorted_set (map gi_id items) = sorted_set (map gi_id items')"
    "sorted_set (filter P (map gi_id items)) = sorted_set (filter P (map gi_id items'))"
  using same_items_set[OF assms] unfolding required_ids_def by (auto intro!: sorted_set_cong)

text \<open>
  C33. Packing is deterministic: the pack depends on the items, not on the order in which they are given.
\<close>

theorem pack_order_irrelevant:
  assumes "pack_context sha items budget roles = Inr p" and "mset items' = mset items"
  shows "pack_context sha items' budget roles = Inr p"
proof -
  have same: "same_items items items'"
    using assms by (auto simp: same_items_def pack_context_def split: if_splits)
  have refuse: "refused_pack sha items = refused_pack sha items'"
    by (auto simp: refused_pack_def same_lookups[OF same] same_sets[OF same] fun_eq_iff)
  have finish: "finish_pack sha items = finish_pack sha items'"
    by (auto simp: finish_pack_def same_lookups[OF same] same_sets[OF same] fun_eq_iff)
  show ?thesis using assms(1)
  proof (cases rule: pack_context_cases)
    case (1 expanded)
    then show ?thesis using same_expand[OF same] same_items_distinct[OF same] same_sets(1)[OF same] same_lookups(2)[OF same]
      by (simp add: pack_context_def refuse)
  next
    case (2 expanded st)
    have cost: "sum_list (map (cost_of items) expanded) \<le> budget"
      using 2 assms(1) by (auto simp: pack_context_def refused_pack_def finish_pack_def Let_def split_beta split: if_splits)
    from same_choose[OF same 2(5)] show ?thesis
      using 2 cost same_expand[OF same] same_items_distinct[OF same] same_sets(1)[OF same] same_lookups(2)[OF same]
      by (simp add: pack_context_def finish)
  qed
qed

theorem pack_order_irrelevant_witness:
  "pack_context (\<lambda>v. ''h'') [small_item ''c'' 4 3 [] False, small_item ''a'' 5 2 [] False, small_item ''b'' 3 1 [''a''] True] 10 [] = Inr small_pack"
  by (rule pack_order_irrelevant[OF small_pack]) simp
end
