(* ===== verification/SchemaRegistry.thy ===== *)
theory SchemaRegistry
  imports Prelude
begin

text \<open>
  The registry of versioned schemas of \<open>syntavra_runtime/schema_registry.py\<close>: registration of schemas and
  migrations, validation of a value and its migration to a later version.  A validator and a migration are
  functions that may raise.  \<open>SchemaError\<close> is a \<open>RuntimeError\<close>.
\<close>

section \<open>Classes of values\<close>

datatype py_class = CNone | CBool | CInt | CFloat | CStr | CList | CTuple | CDict

text \<open>\<open>isinstance\<close>: a truth value is also an integer.\<close>

fun is_instance :: "pyval \<Rightarrow> py_class \<Rightarrow> bool" where
  "is_instance PyNone c \<longleftrightarrow> c = CNone"
| "is_instance (PyBool _) c \<longleftrightarrow> c = CBool \<or> c = CInt"
| "is_instance (PyInt _) c \<longleftrightarrow> c = CInt"
| "is_instance (PyFloat _) c \<longleftrightarrow> c = CFloat"
| "is_instance (PyStr _) c \<longleftrightarrow> c = CStr"
| "is_instance (PyList _) c \<longleftrightarrow> c = CList"
| "is_instance (PyTuple _) c \<longleftrightarrow> c = CTuple"
| "is_instance (PyDict _) c \<longleftrightarrow> c = CDict"

record schema_def =
  sd_name :: string
  sd_version :: int
  sd_required :: "string list"
  sd_props :: "(string \<times> py_class list) list"
  sd_extra :: bool
  sd_validator :: "(fields \<Rightarrow> py_error option) option"

type_synonym schema_migration = "fields \<Rightarrow> py_error + fields"

record registry =
  sg_schemas :: "((string \<times> int) \<times> schema_def) list"
  sg_latest :: "(string \<times> int) list"
  sg_migrations :: "((string \<times> int) \<times> schema_migration) list"

definition empty_registry :: registry where
  "empty_registry = \<lparr>sg_schemas = [], sg_latest = [], sg_migrations = []\<rparr>"

definition latest_of :: "registry \<Rightarrow> string \<Rightarrow> int" where
  "latest_of reg name = (case map_of (sg_latest reg) name of None \<Rightarrow> 0 | Some v \<Rightarrow> v)"

definition register_schema :: "schema_def \<Rightarrow> (registry, py_error, unit) op" where
  "register_schema d = (\<lambda>reg.
     if sd_name d = '''' \<or> sd_version d < 1 then (Inl (RuntimeError ''invalid schema identity''), reg)
     else if map_of (sg_schemas reg) (sd_name d, sd_version d) \<noteq> None then (Inl (RuntimeError ''schema version already registered''), reg)
     else (Inr (), reg\<lparr>sg_schemas := AList.update (sd_name d, sd_version d) d (sg_schemas reg),
             sg_latest := AList.update (sd_name d) (max (sd_version d) (latest_of reg (sd_name d))) (sg_latest reg)\<rparr>))"

definition register_migration :: "string \<Rightarrow> int \<Rightarrow> schema_migration \<Rightarrow> (registry, py_error, unit) op" where
  "register_migration name from_version migration = (\<lambda>reg.
     if map_of (sg_migrations reg) (name, from_version) \<noteq> None then (Inl (RuntimeError ''schema migration already registered''), reg)
     else if map_of (sg_schemas reg) (name, from_version) = None \<or> map_of (sg_schemas reg) (name, from_version + 1) = None
       then (Inl (RuntimeError ''both migration endpoint schemas must be registered''), reg)
     else (Inr (), reg\<lparr>sg_migrations := AList.update (name, from_version) migration (sg_migrations reg)\<rparr>))"

section \<open>Validation\<close>

text \<open>\<open>version or value.get("schema_version") or fallback\<close>, and \<open>int\<close> of it.\<close>

definition selected_version :: "int option \<Rightarrow> fields \<Rightarrow> int \<Rightarrow> py_error + int" where
  "selected_version version value fallback =
     (case version of
        Some v \<Rightarrow> if v \<noteq> 0 then Inr v else
          (let w = py_get_none value ''schema_version'' in if py_truth w then py_int w else Inr fallback)
      | None \<Rightarrow> (let w = py_get_none value ''schema_version'' in if py_truth w then py_int w else Inr fallback))"

definition missing_keys :: "schema_def \<Rightarrow> fields \<Rightarrow> string list" where
  "missing_keys d value = filter (\<lambda>k. k \<notin> fst ` set value) (sd_required d)"

definition unknown_keys :: "schema_def \<Rightarrow> fields \<Rightarrow> string list" where
  "unknown_keys d value = sorted_set (filter (\<lambda>k. k \<notin> fst ` set (sd_props d) \<and> k \<noteq> ''schema_version'') (map fst value))"

definition badly_typed :: "schema_def \<Rightarrow> fields \<Rightarrow> string option" where
  "badly_typed d value =
     first_error (map (\<lambda>(k, classes). case map_of value k of None \<Rightarrow> None
       | Some v \<Rightarrow> if list_ex (is_instance v) classes then None else Some k) (sd_props d))"

definition check_schema :: "schema_def \<Rightarrow> fields \<Rightarrow> py_error option" where
  "check_schema d value =
     (if missing_keys d value \<noteq> [] then Some (RuntimeError (''missing required properties: '' @ join '','' (sort (missing_keys d value))))
      else if \<not> sd_extra d \<and> unknown_keys d value \<noteq> []
        then Some (RuntimeError (''unknown properties: '' @ join '','' (unknown_keys d value)))
      else case badly_typed d value of
          Some k \<Rightarrow> Some (RuntimeError (''property '' @ k @ '' has invalid type''))
        | None \<Rightarrow> (case sd_validator d of None \<Rightarrow> None | Some f \<Rightarrow> f value))"

definition validate :: "registry \<Rightarrow> string \<Rightarrow> fields \<Rightarrow> int option \<Rightarrow> py_error + fields" where
  "validate reg name value version =
     bindE (selected_version version value (latest_of reg name)) (\<lambda>selected.
       case map_of (sg_schemas reg) (name, selected) of
         None \<Rightarrow> Inl (RuntimeError (''unknown schema: '' @ name @ ''@'' @ int_str selected))
       | Some d \<Rightarrow> (case check_schema d value of Some e \<Rightarrow> Inl e | None \<Rightarrow> Inr value))"

section \<open>Migration\<close>

function migrate_loop :: "registry \<Rightarrow> string \<Rightarrow> int \<Rightarrow> int \<Rightarrow> fields \<Rightarrow> py_error + fields" where
  "migrate_loop reg name current target working =
     (if \<not> current < target then Inr working
      else case map_of (sg_migrations reg) (name, current) of
          None \<Rightarrow> Inl (RuntimeError (''missing migration: '' @ name @ ''@'' @ int_str current @ ''->'' @ int_str (current + 1)))
        | Some migration \<Rightarrow>
            (case migration working of
               Inl e \<Rightarrow> Inl e
             | Inr w \<Rightarrow>
                 let w' = AList.update ''schema_version'' (PyInt (current + 1)) w in
                 case validate reg name w' (Some (current + 1)) of
                   Inl e \<Rightarrow> Inl e
                 | Inr _ \<Rightarrow> migrate_loop reg name (current + 1) target w'))"
  by pat_completeness auto
termination by (relation "measure (\<lambda>(_, _, current, target, _). nat (target - current))") auto

declare migrate_loop.simps [simp del]

definition target_of :: "registry \<Rightarrow> string \<Rightarrow> int option \<Rightarrow> int" where
  "target_of reg name target_version =
     (case target_version of Some t \<Rightarrow> if t \<noteq> 0 then t else latest_of reg name | None \<Rightarrow> latest_of reg name)"

definition migrate :: "registry \<Rightarrow> string \<Rightarrow> fields \<Rightarrow> int option \<Rightarrow> py_error + fields" where
  "migrate reg name value target_version =
     bindE (selected_version None value 1) (\<lambda>current.
       let target = target_of reg name target_version in
       if target < current then Inl (RuntimeError ''automatic schema downgrade is forbidden'')
       else bindE (validate reg name value (Some current)) (\<lambda>_. migrate_loop reg name current target value))"

definition catalog :: "registry \<Rightarrow> (string \<times> int \<times> int list) list" where
  "catalog reg =
     map (\<lambda>(name, latest). (name, latest, sort (map snd (filter (\<lambda>(n, v). n = name) (map fst (sg_schemas reg))))))
       (sort_key fst (sg_latest reg))"

section \<open>Types\<close>

text \<open>A value conforms to a schema: what is required is there, nothing else unless allowed, and every property has a declared class.\<close>

definition conforms :: "schema_def \<Rightarrow> fields \<Rightarrow> bool" where
  "conforms d value \<longleftrightarrow>
     set (sd_required d) \<subseteq> fst ` set value \<and>
     (\<not> sd_extra d \<longrightarrow> fst ` set value \<subseteq> insert ''schema_version'' (fst ` set (sd_props d))) \<and>
     (\<forall>(k, classes)\<in>set (sd_props d). \<forall>v. map_of value k = Some v \<longrightarrow> (\<exists>c\<in>set classes. is_instance v c)) \<and>
     (case sd_validator d of None \<Rightarrow> True | Some f \<Rightarrow> f value = None)"

lemma sorted_set_Nil: "sorted_set xs = [] \<longleftrightarrow> xs = []"
  by (metis set_empty set_sorted_set)

lemma check_schema_None: "check_schema d value = None \<longleftrightarrow> conforms d value"
proof -
  have "missing_keys d value = [] \<longleftrightarrow> set (sd_required d) \<subseteq> fst ` set value"
    by (auto simp: missing_keys_def filter_empty_conv)
  moreover have "unknown_keys d value = [] \<longleftrightarrow> fst ` set value \<subseteq> insert ''schema_version'' (fst ` set (sd_props d))"
    by (auto simp: unknown_keys_def sorted_set_Nil filter_empty_conv)
  moreover have "badly_typed d value = None \<longleftrightarrow>
      (\<forall>(k, classes)\<in>set (sd_props d). \<forall>v. map_of value k = Some v \<longrightarrow> (\<exists>c\<in>set classes. is_instance v c))"
    by (auto simp: badly_typed_def first_error_None list_ex_iff split: option.splits if_splits)
  ultimately show ?thesis by (auto simp: check_schema_def conforms_def split: option.splits)
qed


lemma validate_Inr:
  "validate reg name value version = Inr w \<longleftrightarrow>
     w = value \<and> (\<exists>v d. selected_version version value (latest_of reg name) = Inr v \<and> map_of (sg_schemas reg) (name, v) = Some d \<and> conforms d value)"
  by (auto simp: validate_def check_schema_None[symmetric] split: option.splits)

lemma validate_same: "validate reg name value version = Inr w \<Longrightarrow> w = value"
  by (simp add: validate_Inr)

lemma selected_given [simp]: "v \<noteq> 0 \<Longrightarrow> selected_version (Some v) value fallback = Inr v"
  by (simp add: selected_version_def)

text \<open>The invariant of a registry.\<close>

definition registry_ok :: "registry \<Rightarrow> bool" where
  "registry_ok reg \<longleftrightarrow>
     (\<forall>n v d. map_of (sg_schemas reg) (n, v) = Some d \<longrightarrow> sd_name d = n \<and> sd_version d = v \<and> n \<noteq> '''' \<and> 1 \<le> v \<and> v \<le> latest_of reg n) \<and>
     (\<forall>n. latest_of reg n \<noteq> 0 \<longrightarrow> map_of (sg_schemas reg) (n, latest_of reg n) \<noteq> None) \<and>
     (\<forall>n v m. map_of (sg_migrations reg) (n, v) = Some m \<longrightarrow>
        map_of (sg_schemas reg) (n, v) \<noteq> None \<and> map_of (sg_schemas reg) (n, v + 1) \<noteq> None)"

lemma registry_okD:
  "registry_ok reg \<Longrightarrow> map_of (sg_schemas reg) (n, v) = Some d \<Longrightarrow>
     sd_name d = n \<and> sd_version d = v \<and> n \<noteq> '''' \<and> 1 \<le> v \<and> v \<le> latest_of reg n"
  unfolding registry_ok_def by blast

inductive registry_step :: "registry \<Rightarrow> registry \<Rightarrow> bool" where
  step_schema: "registry_step reg (snd (register_schema d reg))"
| step_migration: "registry_step reg (snd (register_migration name v m reg))"

lemma register_schema_ok:
  assumes "registry_ok reg"
  shows "registry_ok (snd (register_schema d reg))"
proof (cases "sd_name d = '''' \<or> sd_version d < 1 \<or> map_of (sg_schemas reg) (sd_name d, sd_version d) \<noteq> None")
  case True
  with assms show ?thesis by (auto simp: register_schema_def)
next
  case False
  let ?reg = "snd (register_schema d reg)"
  have schemas: "map_of (sg_schemas ?reg) = (map_of (sg_schemas reg))((sd_name d, sd_version d) \<mapsto> d)"
    and latest: "latest_of ?reg n = (if n = sd_name d then max (sd_version d) (latest_of reg n) else latest_of reg n)"
    and migrations: "sg_migrations ?reg = sg_migrations reg" for n
    using False by (auto simp: register_schema_def update_conv' latest_of_def)
  note ok = assms[unfolded registry_ok_def]
  show ?thesis
    unfolding registry_ok_def schemas latest migrations
  proof (intro conjI allI impI)
    fix n v d' assume *: "((map_of (sg_schemas reg))((sd_name d, sd_version d) \<mapsto> d)) (n, v) = Some d'"
    have "sd_name d' = n \<and> sd_version d' = v \<and> n \<noteq> '''' \<and> 1 \<le> v \<and>
        v \<le> (if n = sd_name d then max (sd_version d) (latest_of reg n) else latest_of reg n)"
    proof (cases "(n, v) = (sd_name d, sd_version d)")
      case True
      with * False show ?thesis by auto
    next
      case other: False
      with * have "map_of (sg_schemas reg) (n, v) = Some d'" by (simp split: if_splits)
      from registry_okD[OF assms this] show ?thesis by auto
    qed
    then show "sd_name d' = n" "sd_version d' = v" "n \<noteq> ''''" "1 \<le> v"
        "v \<le> (if n = sd_name d then max (sd_version d) (latest_of reg n) else latest_of reg n)" by blast+
  next
    fix n assume *: "(if n = sd_name d then max (sd_version d) (latest_of reg n) else latest_of reg n) \<noteq> 0"
    have "((map_of (sg_schemas reg))((sd_name d, sd_version d) \<mapsto> d)) (n, latest_of reg n) \<noteq> None" if "latest_of reg n \<noteq> 0"
      using that ok by auto
    moreover have "latest_of reg n \<noteq> 0" if "n = sd_name d" "sd_version d < latest_of reg n" using that False by simp
    ultimately show "((map_of (sg_schemas reg))((sd_name d, sd_version d) \<mapsto> d))
        (n, if n = sd_name d then max (sd_version d) (latest_of reg n) else latest_of reg n) \<noteq> None"
      using * by (auto simp: max_def)
  next
    fix n v m assume "map_of (sg_migrations reg) (n, v) = Some m"
    then show "((map_of (sg_schemas reg))((sd_name d, sd_version d) \<mapsto> d)) (n, v) \<noteq> None"
        "((map_of (sg_schemas reg))((sd_name d, sd_version d) \<mapsto> d)) (n, v + 1) \<noteq> None"
      using ok by auto
  qed
qed

lemma register_migration_ok:
  assumes "registry_ok reg"
  shows "registry_ok (snd (register_migration name v m reg))"
  using assms unfolding registry_ok_def register_migration_def
  by (auto simp: update_conv' latest_of_def split: if_splits)

interpretation registry: stateful "\<lambda>reg. reg = empty_registry" registry_step registry_ok
proof unfold_locales
  fix reg assume "reg = empty_registry"
  then show "registry_ok reg" by (simp add: registry_ok_def empty_registry_def latest_of_def)
next
  fix reg reg' assume "registry_ok reg" "registry_step reg reg'"
  then show "registry_ok reg'" by (auto elim!: registry_step.cases intro: register_schema_ok register_migration_ok)
qed

section \<open>What a migration gives\<close>

lemma migrate_loop_done: "\<not> current < target \<Longrightarrow> migrate_loop reg name current target w = Inr w"
  by (simp add: migrate_loop.simps)

lemma migrate_loop_step:
  "current < target \<Longrightarrow> migrate_loop reg name current target working = Inr w \<longleftrightarrow>
     (\<exists>m w1 w2. map_of (sg_migrations reg) (name, current) = Some m \<and> m working = Inr w1 \<and>
        w2 = AList.update ''schema_version'' (PyInt (current + 1)) w1 \<and> validate reg name w2 (Some (current + 1)) = Inr w2 \<and>
        migrate_loop reg name (current + 1) target w2 = Inr w)"
  by (subst migrate_loop.simps) (auto simp: Let_def dest: validate_same split: option.splits sum.splits)

definition version_of :: "fields \<Rightarrow> py_error + int" where
  "version_of value = selected_version None value 1"

lemma version_of_update [simp]: "v \<noteq> 0 \<Longrightarrow> version_of (AList.update ''schema_version'' (PyInt v) w) = Inr v"
  by (simp add: version_of_def selected_version_def py_get_none_def update_conv' py_truth_def py_int_def)

lemma migrate_loop_result:
  assumes "migrate_loop reg name current target working = Inr w" and "0 < current" and "current < target"
  shows "version_of w = Inr target \<and> validate reg name w (Some target) = Inr w"
  using assms
proof (induction reg name current target working rule: migrate_loop.induct)
  case (1 reg name current target working)
  then obtain m w1 where m: "map_of (sg_migrations reg) (name, current) = Some m" "m working = Inr w1"
    and v: "validate reg name (AList.update ''schema_version'' (PyInt (current + 1)) w1) (Some (current + 1)) =
          Inr (AList.update ''schema_version'' (PyInt (current + 1)) w1)"
    and rest: "migrate_loop reg name (current + 1) target (AList.update ''schema_version'' (PyInt (current + 1)) w1) = Inr w"
    using migrate_loop_step[OF 1(4), of reg name working w] by blast
  show ?case
  proof (cases "current + 1 < target")
    case True
    with "1.IH"[OF _ m refl v rest] "1.prems" show ?thesis by simp
  next
    case False
    with "1.prems" have t: "target = current + 1" by simp
    with rest have "w = AList.update ''schema_version'' (PyInt target) w1" by (simp add: migrate_loop_done)
    with v t "1.prems" show ?thesis by simp
  qed
qed

lemma migrate_Inr:
  assumes "registry_ok reg" and "migrate reg name value target = Inr w"
  obtains current where "version_of value = Inr current" "1 \<le> current" "current \<le> target_of reg name target"
    "validate reg name value (Some current) = Inr value" "migrate_loop reg name current (target_of reg name target) value = Inr w"
proof -
  obtain current v0 where c0: "version_of value = Inr current" "current \<le> target_of reg name target"
      "validate reg name value (Some current) = Inr v0" "migrate_loop reg name current (target_of reg name target) value = Inr w"
    using assms(2) by (auto simp: migrate_def version_of_def Let_def split: if_splits)
  note c = c0[unfolded validate_same[OF c0(3)]]
  obtain v d where v: "selected_version (Some current) value (latest_of reg name) = Inr v" "map_of (sg_schemas reg) (name, v) = Some d"
    using c(3) by (auto simp: validate_Inr)
  have "1 \<le> v" using registry_okD[OF assms(1) v(2)] by blast
  moreover have "v = current" using v(1) c(1) \<open>1 \<le> v\<close>
    by (cases "current = 0") (auto simp: selected_version_def version_of_def Let_def split: if_splits)
  ultimately show thesis using that c by blast
qed

lemma migrate_result:
  assumes "registry_ok reg" and "migrate reg name value target = Inr w"
  shows "version_of w = Inr (target_of reg name target) \<and> validate reg name w (Some (target_of reg name target)) = Inr w \<and>
         1 \<le> target_of reg name target"
proof -
  obtain current where c: "version_of value = Inr current" "1 \<le> current" "current \<le> target_of reg name target"
    "validate reg name value (Some current) = Inr value" "migrate_loop reg name current (target_of reg name target) value = Inr w"
    using migrate_Inr[OF assms] by blast
  show ?thesis
  proof (cases "current < target_of reg name target")
    case True
    with migrate_loop_result[OF c(5)] c(2) show ?thesis by simp
  next
    case False
    with c(3) have "current = target_of reg name target" by simp
    with c False show ?thesis by (simp add: migrate_loop_done)
  qed
qed

lemma migrate_loop_compose:
  assumes "migrate_loop reg name current b x = Inr w" and "current \<le> b" and "b \<le> c"
  shows "migrate_loop reg name current c x = migrate_loop reg name b c w"
  using assms
proof (induction reg name current b x rule: migrate_loop.induct)
  case (1 reg name current b x)
  show ?case
  proof (cases "current < b")
    case True
    obtain m w1 where m: "map_of (sg_migrations reg) (name, current) = Some m" "m x = Inr w1"
      and v: "validate reg name (AList.update ''schema_version'' (PyInt (current + 1)) w1) (Some (current + 1)) =
            Inr (AList.update ''schema_version'' (PyInt (current + 1)) w1)"
      and rest: "migrate_loop reg name (current + 1) b (AList.update ''schema_version'' (PyInt (current + 1)) w1) = Inr w"
      using migrate_loop_step[OF True, of reg name x w] 1(2) by blast
    have "migrate_loop reg name current c x = migrate_loop reg name (current + 1) c (AList.update ''schema_version'' (PyInt (current + 1)) w1)"
      using True 1(4) m v by (subst migrate_loop.simps) (simp add: Let_def)
    also have "\<dots> = migrate_loop reg name b c w"
      using "1.IH"[OF _ m refl v rest] True 1(4) by simp
    finally show ?thesis .
  next
    case False
    with 1(2,3) show ?thesis by (simp add: migrate_loop_done)
  qed
qed

text \<open>
  C19. A migrated value is well typed: whatever was registered, in whatever order, a migration that succeeds
  gives a value that carries the version asked for and conforms to the schema registered under it, with every
  required property, nothing unknown where that is forbidden, and only properties of their declared classes.
\<close>

theorem migrated_value_typed:
  assumes "reaches (\<lambda>reg. reg = empty_registry) registry_step reg" and "migrate reg name value target = Inr w"
  shows "\<exists>d. map_of (sg_schemas reg) (name, target_of reg name target) = Some d \<and> sd_name d = name \<and>
           sd_version d = target_of reg name target \<and> conforms d w \<and> version_of w = Inr (target_of reg name target)"
proof -
  have ok: "registry_ok reg" using registry.reachable_inv[OF assms(1)] .
  note r = migrate_result[OF ok assms(2)]
  then obtain d where d: "map_of (sg_schemas reg) (name, target_of reg name target) = Some d" "conforms d w"
    by (auto simp: validate_Inr)
  with registry_okD[OF ok d(1)] r show ?thesis by blast
qed

text \<open>
  Migrating step by step is migrating at once: from the result of a migration to an intermediate version,
  the migration to a later one gives what it gives from the original value, an error included.
\<close>

theorem stepwise_migration:
  assumes "reaches (\<lambda>reg. reg = empty_registry) registry_step reg" and "migrate reg name value (Some b) = Inr w"
    and "b \<noteq> 0" and "b \<le> c"
  shows "migrate reg name w (Some c) = migrate reg name value (Some c)"
proof -
  have ok: "registry_ok reg" using registry.reachable_inv[OF assms(1)] .
  have b: "target_of reg name (Some b) = b" using assms(3) by (simp add: target_of_def)
  note r = migrate_result[OF ok assms(2), unfolded b]
  obtain current where cur: "version_of value = Inr current" "1 \<le> current" "current \<le> b"
    "validate reg name value (Some current) = Inr value" "migrate_loop reg name current b value = Inr w"
    using migrate_Inr[OF ok assms(2)] unfolding b by blast
  have c: "target_of reg name (Some c) = c" using r assms(4) by (simp add: target_of_def)
  have "migrate reg name w (Some c) = migrate_loop reg name b c w"
    using r assms(4) by (simp add: migrate_def version_of_def c)
  also have "\<dots> = migrate_loop reg name current c value"
    using migrate_loop_compose[OF cur(5,3) assms(4)] by simp
  also have "\<dots> = migrate reg name value (Some c)"
    using cur assms(4) by (simp add: migrate_def version_of_def c)
  finally show ?thesis .
qed

section \<open>An example\<close>

definition note_schema :: "int \<Rightarrow> (string \<times> py_class list) list \<Rightarrow> schema_def" where
  "note_schema v props = \<lparr>sd_name = ''note'', sd_version = v, sd_required = map fst props, sd_props = props, sd_extra = False, sd_validator = None\<rparr>"

definition note_registry :: registry where
  "note_registry =
     snd (register_migration ''note'' 1 (\<lambda>v. Inr (v @ [(''size'', PyInt 0)]))
       (snd (register_schema (note_schema 2 [(''text'', [CStr]), (''size'', [CInt])])
         (snd (register_schema (note_schema 1 [(''text'', [CStr])]) empty_registry)))))"

lemma note_registry_reaches: "reaches (\<lambda>reg. reg = empty_registry) registry_step note_registry"
  unfolding note_registry_def 
  by (rule reach_step[rotated], rule step_migration, rule reach_step[rotated], rule step_schema,
      rule reach_step[rotated], rule step_schema, rule reach_init, rule refl)

lemma note_migrates:
  "migrate note_registry ''note'' [(''text'', PyStr ''hi'')] None = Inr [(''text'', PyStr ''hi''), (''size'', PyInt 0), (''schema_version'', PyInt 2)]"
  "migrate note_registry ''note'' [(''text'', PyStr ''hi'')] (Some 2) = Inr [(''text'', PyStr ''hi''), (''size'', PyInt 0), (''schema_version'', PyInt 2)]"
  by code_simp+

theorem migrated_value_typed_witness:
  "\<exists>d. map_of (sg_schemas note_registry) (''note'', 2) = Some d \<and> conforms d [(''text'', PyStr ''hi''), (''size'', PyInt 0), (''schema_version'', PyInt 2)]"
proof -
  have "target_of note_registry ''note'' None = 2" by code_simp
  then show ?thesis using migrated_value_typed[OF note_registry_reaches note_migrates(1)] by auto
qed

theorem stepwise_migration_witness:
  "migrate note_registry ''note'' [(''text'', PyStr ''hi''), (''size'', PyInt 0), (''schema_version'', PyInt 2)] (Some 3) =
     migrate note_registry ''note'' [(''text'', PyStr ''hi'')] (Some 3)"
  using stepwise_migration[OF note_registry_reaches note_migrates(2), of 3] by simp

text \<open>A truth value passes where a number is declared; a name that is not registered is reported as a downgrade.\<close>

lemma bool_passes_as_int: "validate note_registry ''note'' [(''text'', PyStr ''hi''), (''size'', PyBool True)] (Some 2) =
    Inr [(''text'', PyStr ''hi''), (''size'', PyBool True)]"
  by code_simp

lemma unknown_name_is_downgrade: "migrate note_registry ''memo'' [] None = Inl (RuntimeError ''automatic schema downgrade is forbidden'')"
  by code_simp
end
