(* ===== verification/SchemaMigrations.thy ===== *)
theory SchemaMigrations
  imports Prelude
begin

text \<open>
  The migrations of a database of \<open>syntavra_runtime/migrations.py\<close>: the plan, the backup before a change, the
  transaction, the restore after a failure and the rollback to a backup.  A database is its migration table,
  its \<open>user_version\<close> and its other contents, of any type; a table that does not exist yet is an empty one, since
  every access creates it.  The time stamp in the name of a backup, the digest of an identity and SQLite's
  integrity check are parameters; a migration changes the other contents and may raise.
\<close>

section \<open>State\<close>

record migration_row =
  mr_version :: int
  mr_name :: string
  mr_identity :: string

record 'd database =
  da_rows :: "migration_row list"
  da_user :: int
  da_data :: 'd

record 'd files =
  fi_main :: "'d database option"
  fi_backups :: "(string \<times> 'd database) list"

record 'd migration =
  mi_version :: int
  mi_name :: string
  mi_apply :: "'d \<Rightarrow> py_error + 'd"
  mi_checksum :: string

record 'd migration_env =
  me_sha :: "string \<Rightarrow> string"
  me_empty :: 'd
  me_check :: "'d database \<Rightarrow> bool"

definition identity :: "'d migration_env \<Rightarrow> 'd migration \<Rightarrow> string" where
  "identity env m = me_sha env (int_str (mi_version m) @ '':'' @ mi_name m @ '':'' @ mi_checksum m)"

definition make_manager :: "'d migration list \<Rightarrow> py_error + 'd migration list" where
  "make_manager migrations =
     (let ordered = sort_key mi_version migrations in
      if list_ex (\<lambda>m. mi_version m < 1) ordered then Inl (ValueError ''migration versions must be positive'')
      else if \<not> distinct (map mi_version ordered) then Inl (ValueError ''duplicate migration version'')
      else Inr ordered)"

definition empty_database :: "'d migration_env \<Rightarrow> 'd database" where
  "empty_database env = \<lparr>da_rows = [], da_user = 0, da_data = me_empty env\<rparr>"

text \<open>\<open>COALESCE(MAX(version), 0)\<close>, and 0 for a file that does not exist.\<close>

definition database_version :: "'d database \<Rightarrow> int" where
  "database_version db = (case map mr_version (da_rows db) of [] \<Rightarrow> 0 | v # vs \<Rightarrow> fold max vs v)"

definition current_version :: "'d files \<Rightarrow> int" where
  "current_version fs = (case fi_main fs of None \<Rightarrow> 0 | Some db \<Rightarrow> database_version db)"

definition plan_target :: "'d migration list \<Rightarrow> int option \<Rightarrow> 'd files \<Rightarrow> int" where
  "plan_target ms target_version fs =
     (case target_version of Some t \<Rightarrow> t | None \<Rightarrow> if ms = [] then current_version fs else mi_version (last ms))"

definition pending :: "'d migration list \<Rightarrow> int option \<Rightarrow> 'd files \<Rightarrow> 'd migration list" where
  "pending ms target_version fs =
     filter (\<lambda>m. current_version fs < mi_version m \<and> mi_version m \<le> plan_target ms target_version fs) ms"

record plan_report =
  pr_current :: int
  pr_target :: int
  pr_pending :: "migration_row list"

definition row_of :: "'d migration_env \<Rightarrow> 'd migration \<Rightarrow> migration_row" where
  "row_of env m = \<lparr>mr_version = mi_version m, mr_name = mi_name m, mr_identity = identity env m\<rparr>"

definition plan :: "'d migration_env \<Rightarrow> 'd migration list \<Rightarrow> int option \<Rightarrow> 'd files \<Rightarrow> plan_report" where
  "plan env ms target_version fs =
     \<lparr>pr_current = current_version fs, pr_target = plan_target ms target_version fs,
      pr_pending = map (row_of env) (pending ms target_version fs)\<rparr>"

section \<open>Applying\<close>

text \<open>\<open>_backup\<close>: a missing database gives an empty file, or leaves the one of that name.\<close>

definition backup :: "'d migration_env \<Rightarrow> string \<Rightarrow> 'd files \<Rightarrow> 'd files" where
  "backup env name fs =
     fs\<lparr>fi_backups := (case fi_main fs of
        Some db \<Rightarrow> AList.update name db (fi_backups fs)
      | None \<Rightarrow> if name \<in> fst ` set (fi_backups fs) then fi_backups fs else AList.update name (empty_database env) (fi_backups fs))\<rparr>"

definition restore :: "string \<Rightarrow> 'd files \<Rightarrow> 'd files" where
  "restore name fs = (case map_of (fi_backups fs) name of None \<Rightarrow> fs | Some db \<Rightarrow> fs\<lparr>fi_main := Some db\<rparr>)"

fun apply_pending :: "'d migration_env \<Rightarrow> 'd migration list \<Rightarrow> 'd database \<Rightarrow> py_error + 'd database" where
  "apply_pending env [] db = Inr db"
| "apply_pending env (m # ms) db =
     (case find (\<lambda>r. mr_version r = mi_version m) (da_rows db) of
        Some r \<Rightarrow>
          if mr_identity r \<noteq> identity env m then Inl (RuntimeError (''migration identity mismatch at version '' @ int_str (mi_version m)))
          else apply_pending env ms db
      | None \<Rightarrow>
          (case mi_apply m (da_data db) of
             Inl e \<Rightarrow> Inl e
           | Inr d \<Rightarrow> apply_pending env ms (db\<lparr>da_data := d, da_rows := da_rows db @ [row_of env m]\<rparr>)))"

record migration_result =
  re_before :: int
  re_after :: int
  re_applied :: "string list"
  re_backup :: string

text \<open>\<open>str\<close> of an exception: a \<open>KeyError\<close> shows the \<open>repr\<close> of its key.\<close>

fun exception_text :: "py_error \<Rightarrow> string" where
  "exception_text (KeyError k) = py_repr k"
| "exception_text (TypeError m) = m"
| "exception_text (ValueError m) = m"
| "exception_text (IntegrityError m) = m"
| "exception_text IndexError = ''list index out of range''"
| "exception_text (PermissionError m) = m"
| "exception_text (RuntimeError m) = m"
| "exception_text (FileNotFoundError m) = m"
| "exception_text (AttributeError m) = m"
| "exception_text (OverflowError m) = m"

text \<open>
  What happens before the transaction, and the transaction itself with what follows it: \<open>current\<close>, \<open>target\<close>
  and \<open>todo\<close> were read before, on a database that another process may have changed since.
\<close>

definition restored :: "py_error \<Rightarrow> py_error" where
  "restored e = RuntimeError (''migration failed and backup was restored: '' @ exception_text e)"

definition transact :: "'d migration_env \<Rightarrow> string \<Rightarrow> int \<Rightarrow> int \<Rightarrow> 'd migration list \<Rightarrow> ('d files, py_error, migration_result) op" where
  "transact env name current target todo = (\<lambda>fs.
     let db = (case fi_main fs of None \<Rightarrow> empty_database env | Some db \<Rightarrow> db) in
     case apply_pending env todo db of
       Inl e \<Rightarrow> (Inl (restored e), restore name fs)
     | Inr db' \<Rightarrow>
         let committed = db'\<lparr>da_user := target\<rparr> in
         if \<not> me_check env committed
         then (Inl (restored (RuntimeError ''database integrity check failed after migration'')), restore name (fs\<lparr>fi_main := Some committed\<rparr>))
         else (Inr \<lparr>re_before = current, re_after = target, re_applied = map mi_name todo, re_backup = name\<rparr>, fs\<lparr>fi_main := Some committed\<rparr>))"

definition apply_migrations :: "'d migration_env \<Rightarrow> 'd migration list \<Rightarrow> string \<Rightarrow> int option \<Rightarrow> bool \<Rightarrow> ('d files, py_error, migration_result) op" where
  "apply_migrations env ms name target_version dry_run = (\<lambda>fs.
     let current = current_version fs; target = plan_target ms target_version fs; todo = pending ms target_version fs in
     if dry_run \<or> todo = []
     then (Inr \<lparr>re_before = current, re_after = (if todo = [] then current else target), re_applied = map mi_name todo, re_backup = ''''\<rparr>, fs)
     else transact env name current target todo (backup env name fs))"

definition rollback :: "string \<Rightarrow> ('d files, py_error, unit) op" where
  "rollback name = (\<lambda>fs.
     if name \<notin> fst ` set (fi_backups fs) then (Inl (RuntimeError ''migration backup does not exist''), fs)
     else (Inr (), restore name fs))"

definition content :: "'d migration_env \<Rightarrow> 'd files \<Rightarrow> 'd database" where
  "content env fs = (case fi_main fs of None \<Rightarrow> empty_database env | Some db \<Rightarrow> db)"


section \<open>Errors and rollback\<close>

lemma restore_backup:
  assumes "fi_main fs \<noteq> None \<or> name \<notin> fst ` set (fi_backups fs)" and "fi_backups fs' = fi_backups (backup env name fs)"
  shows "content env (restore name fs') = content env fs"
  using assms by (auto simp: restore_def backup_def content_def update_conv' split: option.splits)

lemma transact_error:
  assumes "transact env name current target todo fs = (Inl e, fs')"
  shows "\<exists>fs1. fs' = restore name fs1 \<and> fi_backups fs1 = fi_backups fs"
  using assms by (auto simp: transact_def Let_def split: sum.splits if_splits option.splits)

text \<open>
  C26. A failed migration leaves the database as it was: whatever the migration does before it raises, and
  whatever the integrity check finds after the commit, the contents, the migration table and the user version
  are those from before, restored from the backup.
\<close>

theorem failed_migration_restores:
  assumes "apply_migrations env ms name target_version dry_run fs = (Inl e, fs')"
    and "fi_main fs \<noteq> None \<or> name \<notin> fst ` set (fi_backups fs)"
  shows "content env fs' = content env fs \<and> (\<exists>cause. e = RuntimeError (''migration failed and backup was restored: '' @ exception_text cause))"
proof -
  have t: "transact env name (current_version fs) (plan_target ms target_version fs) (pending ms target_version fs) (backup env name fs) = (Inl e, fs')"
    using assms(1) by (auto simp: apply_migrations_def Let_def split: if_splits)
  then obtain fs1 where "fs' = restore name fs1" "fi_backups fs1 = fi_backups (backup env name fs)"
    using transact_error by blast
  then have "content env fs' = content env fs" using restore_backup[OF assms(2)] by simp
  moreover have "\<exists>cause. e = restored cause"
    using t by (auto simp: transact_def Let_def split: sum.splits if_splits)
  ultimately show ?thesis by (simp add: restored_def)
qed

lemma rollback_undoes:
  assumes "apply_migrations env ms name target_version False fs = (Inr r, fs')" and "pending ms target_version fs \<noteq> []"
    and "fi_main fs \<noteq> None \<or> name \<notin> fst ` set (fi_backups fs)"
  shows "fst (rollback (re_backup r) fs') = Inr () \<and> content env (snd (rollback (re_backup r) fs')) = content env fs"
proof -
  have t: "transact env name (current_version fs) (plan_target ms target_version fs) (pending ms target_version fs) (backup env name fs) = (Inr r, fs')"
    using assms(1,2) by (auto simp: apply_migrations_def Let_def split: if_splits)
  then have r: "re_backup r = name" "fi_backups fs' = fi_backups (backup env name fs)"
    by (auto simp: transact_def Let_def split: sum.splits if_splits)
  have "name \<in> fst ` set (fi_backups fs')"
    unfolding r(2) by (auto simp: backup_def update_keys dom_update split: option.splits)
  with restore_backup[OF assms(3) r(2)] show ?thesis by (simp add: rollback_def r(1))
qed

section \<open>The database is at a prefix of the migrations\<close>

definition manager_ok :: "'d migration list \<Rightarrow> bool" where
  "manager_ok ms \<longleftrightarrow> sorted_wrt (<) (map mi_version ms) \<and> (\<forall>m\<in>set ms. 1 \<le> mi_version m)"

lemma make_manager_ok: "make_manager migrations = Inr ms \<Longrightarrow> manager_ok ms"
  by (auto simp: make_manager_def manager_ok_def Let_def list_ex_iff strict_sorted_iff not_less split: if_splits)

fun run_migrations :: "'d migration list \<Rightarrow> 'd \<Rightarrow> py_error + 'd" where
  "run_migrations [] d = Inr d"
| "run_migrations (m # ms) d = bindE (mi_apply m d) (run_migrations ms)"

lemma run_migrations_append: "run_migrations (xs @ ys) d = bindE (run_migrations xs d) (run_migrations ys)"
  by (induction xs arbitrary: d) (auto simp: bindE_def split: sum.splits)

text \<open>The first \<open>k\<close> migrations were run, one after another, on the empty database, and the table says so.\<close>

definition at_step :: "'d migration_env \<Rightarrow> 'd migration list \<Rightarrow> nat \<Rightarrow> 'd database \<Rightarrow> bool" where
  "at_step env ms k db \<longleftrightarrow>
     k \<le> length ms \<and> da_rows db = map (row_of env) (take k ms) \<and> run_migrations (take k ms) (me_empty env) = Inr (da_data db)"

lemma fold_max_sorted: "sorted_wrt (<) (v # vs) \<Longrightarrow> fold max vs v = last (v # (vs :: int list))"
proof (induction vs arbitrary: v)
  case (Cons w vs)
  then have "fold max (w # vs) v = fold max vs w" by (simp add: max_def)
  then show ?case using Cons by simp
qed simp

lemma at_step_version:
  assumes "manager_ok ms" and "at_step env ms k db"
  shows "database_version db = (if k = 0 then 0 else mi_version (ms ! (k - 1)))"
proof -
  have vs: "map mr_version (da_rows db) = take k (map mi_version ms)"
    using assms(2) by (simp add: at_step_def row_of_def comp_def take_map)
  have sorted: "sorted_wrt (<) (take k (map mi_version ms))" using assms(1) by (simp add: manager_ok_def sorted_wrt_take)
  show ?thesis
  proof (cases k)
    case (Suc j)
    then have ne: "take k (map mi_version ms) \<noteq> []" and le: "k \<le> length ms"
      using assms(2) by (cases ms; auto simp: at_step_def)+
    then obtain v vs where "take k (map mi_version ms) = v # vs" by (cases "take k (map mi_version ms)") auto
    then have "database_version db = last (take k (map mi_version ms))"
      using fold_max_sorted[of v vs] sorted by (simp add: database_version_def vs)
    also have "\<dots> = take k (map mi_version ms) ! (k - 1)" using last_conv_nth[OF ne] le by simp
    also have "\<dots> = map mi_version ms ! (k - 1)" using Suc by (intro nth_take) simp
    finally show ?thesis using Suc assms(2) by (simp add: at_step_def)
  qed (simp add: database_version_def vs)
qed

lemma pending_prefix:
  assumes "manager_ok ms" and "k \<le> length ms"
  shows "\<exists>n. k + n \<le> length ms \<and>
     filter (\<lambda>m. (if k = 0 then 0 else mi_version (ms ! (k - 1))) < mi_version m \<and> mi_version m \<le> t) ms = take n (drop k ms)"
proof -
  let ?c = "if k = 0 then 0 else mi_version (ms ! (k - 1))"
  have nth: "mi_version (ms ! i) < mi_version (ms ! j)" if "i < j" "j < length ms" for i j
    using assms(1) that by (auto simp: manager_ok_def sorted_wrt_iff_nth_less)
  have low: "\<not> ?c < mi_version m" if mem: "m \<in> set (take k ms)" for m
  proof -
    obtain i where "i < length (take k ms)" "m = take k ms ! i" using mem unfolding in_set_conv_nth by blast
    then have i: "i < k" "i < length ms" "m = ms ! i" by simp_all
    show ?thesis
    proof (cases "i = k - 1")
      case False
      with i assms(2) have "i < k - 1" "k - 1 < length ms" by linarith+
      from nth[OF this] i show ?thesis by simp
    qed (use i in simp)
  qed
  have high: "?c < mi_version m" if mem: "m \<in> set (drop k ms)" for m
  proof -
    obtain i where i: "i < length ms - k" "m = ms ! (k + i)" using mem by (auto simp: in_set_conv_nth)
    have "1 \<le> mi_version m" using assms(1) i by (auto simp: manager_ok_def)
    then show ?thesis using nth[of "k - 1" "k + i"] i by auto
  qed
  have sorted: "sorted (map mi_version (drop k ms))"
    using assms(1) by (simp add: manager_ok_def strict_sorted_iff drop_map[symmetric] sorted_wrt_drop)
  have cut: "filter (\<lambda>m. mi_version m \<le> t) xs = takeWhile (\<lambda>m. mi_version m \<le> t) xs" if "sorted (map mi_version xs)" for xs
    using that by (induction xs) (auto simp: takeWhile_eq_Nil_iff filter_empty_conv, metis hd_in_set order_trans)
  have "filter (\<lambda>m. ?c < mi_version m \<and> mi_version m \<le> t) ms =
      filter (\<lambda>m. ?c < mi_version m \<and> mi_version m \<le> t) (take k ms) @ filter (\<lambda>m. ?c < mi_version m \<and> mi_version m \<le> t) (drop k ms)"
    by (metis append_take_drop_id filter_append)
  also have "filter (\<lambda>m. ?c < mi_version m \<and> mi_version m \<le> t) (take k ms) = []" using low by (auto simp: filter_empty_conv)
  also have "filter (\<lambda>m. ?c < mi_version m \<and> mi_version m \<le> t) (drop k ms) = filter (\<lambda>m. mi_version m \<le> t) (drop k ms)"
    using high by (intro filter_cong) auto
  also have "\<dots> = takeWhile (\<lambda>m. mi_version m \<le> t) (drop k ms)" by (rule cut[OF sorted])
  finally have "filter (\<lambda>m. ?c < mi_version m \<and> mi_version m \<le> t) ms = take (length (takeWhile (\<lambda>m. mi_version m \<le> t) (drop k ms))) (drop k ms)"
    by (simp add: takeWhile_eq_take[symmetric])
  moreover have "k + length (takeWhile (\<lambda>m. mi_version m \<le> t) (drop k ms)) \<le> length ms"
    using length_takeWhile_le[of "\<lambda>m. mi_version m \<le> t" "drop k ms"] assms(2) by simp
  ultimately show ?thesis by blast
qed

lemma at_step_apply:
  assumes "manager_ok ms" and "at_step env ms k db" and "k + n \<le> length ms" and "apply_pending env (take n (drop k ms)) db = Inr db'"
  shows "at_step env ms (k + n) db'"
  using assms
proof (induction n arbitrary: k db)
  case (Suc n)
  let ?m = "ms ! k"
  have k: "k < length ms" using Suc.prems(3) by simp
  have todo: "take (Suc n) (drop k ms) = ?m # take n (drop (Suc k) ms)"
    using k by (metis Cons_nth_drop_Suc take_Suc_Cons)
  have versions: "mi_version (ms ! i) < mi_version ?m" if "i < k" for i
    using Suc.prems(1) that k by (auto simp: manager_ok_def sorted_wrt_iff_nth_less)
  have "mr_version r \<noteq> mi_version ?m" if r: "r \<in> set (da_rows db)" for r
  proof -
    have "r \<in> row_of env ` set (take k ms)" using r Suc.prems(2) by (simp add: at_step_def)
    then obtain m where m: "m \<in> set (take k ms)" "r = row_of env m" by blast
    then obtain i where "i < length (take k ms)" "m = take k ms ! i" unfolding in_set_conv_nth by blast
    with m versions[of i] show ?thesis by (simp add: row_of_def)
  qed
  then have "find (\<lambda>r. mr_version r = mi_version ?m) (da_rows db) = None" by (auto simp: find_None_iff)
  with Suc.prems(4) todo obtain d where d: "mi_apply ?m (da_data db) = Inr d"
      "apply_pending env (take n (drop (Suc k) ms)) (db\<lparr>da_data := d, da_rows := da_rows db @ [row_of env ?m]\<rparr>) = Inr db'"
    by (auto split: sum.splits)
  have "at_step env ms (Suc k) (db\<lparr>da_data := d, da_rows := da_rows db @ [row_of env ?m]\<rparr>)"
    using Suc.prems(2) k d(1) by (simp add: at_step_def take_Suc_conv_app_nth run_migrations_append)
  from Suc.IH[OF Suc.prems(1) this _ d(2)] Suc.prems(3) show ?case by simp
qed simp

lemma at_step_user [simp]: "at_step env ms k (db\<lparr>da_user := t\<rparr>) \<longleftrightarrow> at_step env ms k db"
  by (simp add: at_step_def)

lemma at_step_empty: "at_step env ms 0 (empty_database env)"
  by (simp add: at_step_def empty_database_def)

definition files_ok :: "'d migration_env \<Rightarrow> 'd migration list \<Rightarrow> 'd files \<Rightarrow> bool" where
  "files_ok env ms fs \<longleftrightarrow> manager_ok ms \<and> (\<exists>k. at_step env ms k (content env fs)) \<and>
     (\<forall>(n, db)\<in>set (fi_backups fs). \<exists>k. at_step env ms k db)"

definition fresh_files :: "'d migration list \<Rightarrow> 'd files \<Rightarrow> bool" where
  "fresh_files ms fs \<longleftrightarrow> manager_ok ms \<and> fs = \<lparr>fi_main = None, fi_backups = []\<rparr>"

inductive files_step :: "'d migration_env \<Rightarrow> 'd migration list \<Rightarrow> 'd files \<Rightarrow> 'd files \<Rightarrow> bool" for env ms where
  step_apply: "files_step env ms fs (snd (apply_migrations env ms name target dry_run fs))"
| step_rollback: "files_step env ms fs (snd (rollback name fs))"

lemma backup_ok: "files_ok env ms fs \<Longrightarrow> files_ok env ms (backup env name fs)"
  using at_step_empty[of env ms]
  by (auto simp: files_ok_def backup_def content_def split: option.splits dest!: AList.update_Some_unfold[THEN iffD1] set_update_pairs[THEN subsetD])

lemma restore_ok: "files_ok env ms fs \<Longrightarrow> files_ok env ms (restore name fs)"
  by (auto simp: files_ok_def restore_def content_def split: option.splits dest: map_of_SomeD)

text \<open>What a plan applies, from a database at step \<open>k\<close>.\<close>

lemma pending_at_step:
  assumes "manager_ok ms" and "at_step env ms k (content env fs)"
  shows "\<exists>n. k + n \<le> length ms \<and> pending ms target fs = take n (drop k ms)"
proof -
  have "current_version fs = database_version (content env fs)"
    by (simp add: current_version_def content_def empty_database_def database_version_def split: option.split)
  then have "current_version fs = (if k = 0 then 0 else mi_version (ms ! (k - 1)))" using at_step_version[OF assms] by simp
  moreover have "k \<le> length ms" using assms(2) by (simp add: at_step_def)
  ultimately show ?thesis using pending_prefix[OF assms(1), of k "plan_target ms target fs"] unfolding pending_def by simp
qed

lemma content_main [simp]: "content env (fs\<lparr>fi_main := Some db\<rparr>) = db"
  by (simp add: content_def)

lemma content_backup [simp]: "content env (backup env name fs) = content env fs"
  by (simp add: content_def backup_def)

lemma transact_step:
  assumes "manager_ok ms" and "at_step env ms k (content env fs)" and "k + n \<le> length ms"
    and "transact env name current target (take n (drop k ms)) fs = (Inr r, fs')"
  shows "at_step env ms (k + n) (content env fs') \<and> fi_backups fs' = fi_backups fs \<and> re_applied r = map mi_name (take n (drop k ms))"
proof -
  obtain db' where "apply_pending env (take n (drop k ms)) (content env fs) = Inr db'"
      "fs' = fs\<lparr>fi_main := Some (db'\<lparr>da_user := target\<rparr>)\<rparr>" "re_applied r = map mi_name (take n (drop k ms))"
    using assms(4) by (auto simp: transact_def content_def Let_def split: sum.splits if_splits)
  with at_step_apply[OF assms(1-3)] show ?thesis by simp
qed

lemma transact_files_ok:
  assumes "files_ok env ms fs" and "at_step env ms k (content env fs)" and "k + n \<le> length ms"
    and "transact env name current target (take n (drop k ms)) fs = (r, fs')"
  shows "files_ok env ms fs'"
proof (cases r)
  case (Inr res)
  have "manager_ok ms" using assms(1) by (simp add: files_ok_def)
  from transact_step[OF this assms(2,3) assms(4)[unfolded Inr]] assms(1) show ?thesis by (auto simp: files_ok_def)
next
  case (Inl e)
  have m: "manager_ok ms" using assms(1) by (simp add: files_ok_def)
  show ?thesis
  proof (cases "apply_pending env (take n (drop k ms)) (content env fs)")
    case Inl': (Inl e')
    with assms(4) have "fs' = restore name fs" by (auto simp: transact_def content_def Let_def split: option.splits)
    then show ?thesis using restore_ok[OF assms(1)] by simp
  next
    case Inr': (Inr db')
    with assms(4) Inl have "fs' = restore name (fs\<lparr>fi_main := Some (db'\<lparr>da_user := target\<rparr>)\<rparr>)"
      by (auto simp: transact_def content_def Let_def split: option.splits if_splits)
    moreover have "files_ok env ms (fs\<lparr>fi_main := Some (db'\<lparr>da_user := target\<rparr>)\<rparr>)"
      using at_step_apply[OF m assms(2,3) Inr'] assms(1) by (auto simp: files_ok_def)
    ultimately show ?thesis using restore_ok by blast
  qed
qed

lemma apply_files_ok:
  assumes "files_ok env ms fs"
  shows "files_ok env ms (snd (apply_migrations env ms name target dry_run fs))"
proof (cases "dry_run \<or> pending ms target fs = []")
  case False
  obtain k where k: "at_step env ms k (content env fs)" and m: "manager_ok ms" using assms by (auto simp: files_ok_def)
  obtain n where n: "k + n \<le> length ms" "pending ms target fs = take n (drop k ms)" using pending_at_step[OF m k] by blast
  obtain r fs' where t: "transact env name (current_version fs) (plan_target ms target fs) (take n (drop k ms)) (backup env name fs) = (r, fs')"
    by fastforce
  have "files_ok env ms fs'" using transact_files_ok[OF backup_ok[OF assms] _ n(1) t] k by simp
  then show ?thesis using False t n(2) by (simp add: apply_migrations_def Let_def)
qed (use assms in \<open>auto simp: apply_migrations_def Let_def\<close>)

interpretation migrations: stateful "fresh_files ms" "files_step env ms" "files_ok env ms"
  for env :: "'d migration_env" and ms :: "'d migration list"
proof unfold_locales
  fix fs assume "fresh_files ms fs"
  then show "files_ok env ms fs" using at_step_empty[of env ms] by (auto simp: fresh_files_def files_ok_def content_def)
next
  fix fs fs' assume "files_ok env ms fs" "files_step env ms fs fs'"
  then show "files_ok env ms fs'"
    by (auto elim!: files_step.cases intro: apply_files_ok restore_ok simp: rollback_def)
qed

text \<open>
  C20. A database is always at a prefix of the migrations: whatever was planned, applied, refused, failed or rolled
  back, to whatever targets, the database and every backup of it hold exactly what the first \<open>k\<close> migrations
  give when they are run in order on an empty database, for some \<open>k\<close>, and its table lists these.
\<close>

theorem database_at_prefix:
  assumes "make_manager migrations = Inr ms"
    and "reaches (fresh_files ms) (files_step env ms) fs"
  shows "\<exists>k. k \<le> length ms \<and> da_rows (content env fs) = map (row_of env) (take k ms) \<and>
           run_migrations (take k ms) (me_empty env) = Inr (da_data (content env fs))"
  using migrations.reachable_inv[OF assms(2)] by (auto simp: files_ok_def at_step_def)

lemma target_unchanged:
  assumes "pending ms target fs \<noteq> []"
  shows "plan_target ms target fs' = plan_target ms target fs"
  using assms by (cases ms) (auto simp: plan_target_def pending_def split: option.split)

lemma pending_done:
  assumes "manager_ok ms" and "at_step env ms k (content env fs)" and "at_step env ms (k + n) (content env fs')"
    and "k + n \<le> length ms" and "pending ms target fs = take n (drop k ms)" and "pending ms target fs \<noteq> []"
    and "plan_target ms target fs' = plan_target ms target fs"
  shows "pending ms target fs' = []"
proof -
  let ?m = "ms ! (k + n - 1)"
  have version: "current_version fs1 = database_version (content env fs1)" for fs1 :: "'a files"
    by (simp add: current_version_def content_def empty_database_def database_version_def split: option.split)
  have n: "0 < n" "k + n - 1 < length ms" using assms(4-6) by (cases n; auto)+
  have cur: "current_version fs' = mi_version ?m" using at_step_version[OF assms(1,3)] n(1) by (simp add: version)
  have "take n (drop k ms) ! (n - 1) = ?m" using n assms(4) by simp
  then have "?m \<in> set (pending ms target fs)" using n assms(4,5) nth_mem[of "n - 1" "take n (drop k ms)"] by simp
  then have less: "current_version fs < mi_version ?m" by (simp add: pending_def)
  have "\<not> (current_version fs' < mi_version m \<and> mi_version m \<le> plan_target ms target fs')" if m: "m \<in> set ms" for m
  proof
    assume *: "current_version fs' < mi_version m \<and> mi_version m \<le> plan_target ms target fs'"
    with m less have "m \<in> set (pending ms target fs)" by (simp add: pending_def cur assms(7))
    then obtain i where "i < length (take n (drop k ms))" "m = take n (drop k ms) ! i"
      unfolding assms(5) in_set_conv_nth by blast
    then have i: "i < n" "m = ms ! (k + i)" using assms(4) by simp_all
    have "mi_version m \<le> mi_version ?m"
    proof (cases "k + i = k + n - 1")
      case False
      with i n have "k + i < k + n - 1" by linarith
      with n(2) assms(1) have "mi_version (ms ! (k + i)) < mi_version ?m" by (simp add: manager_ok_def sorted_wrt_iff_nth_less)
      then show ?thesis by (simp add: i(2))
    qed (simp add: i(2))
    with * show False by (simp add: cur)
  qed
  then show ?thesis by (auto simp: pending_def filter_empty_conv)
qed

text \<open>
  A migration that succeeds applies exactly what the plan lists, in order, on the prefix that is there, and
  afterwards nothing is pending for the same target: applying again changes nothing.
\<close>

theorem migration_applies_plan:
  assumes "reaches (fresh_files ms) (files_step env ms) fs" and "apply_migrations env ms name target False fs = (Inr r, fs')"
  shows "(\<exists>k n. at_step env ms k (content env fs) \<and> at_step env ms (k + n) (content env fs') \<and>
            pending ms target fs = take n (drop k ms) \<and> re_applied r = map mi_name (take n (drop k ms))) \<and>
         apply_migrations env ms name' target False fs' =
           (Inr \<lparr>re_before = current_version fs', re_after = current_version fs', re_applied = [], re_backup = ''''\<rparr>, fs')"
proof -
  have ok: "files_ok env ms fs" "manager_ok ms" using migrations.reachable_inv[OF assms(1)] by (auto simp: files_ok_def)
  then obtain k where k: "at_step env ms k (content env fs)" by (auto simp: files_ok_def)
  obtain n where n: "k + n \<le> length ms" "pending ms target fs = take n (drop k ms)" using pending_at_step[OF ok(2) k] by blast
  show ?thesis
  proof (cases "pending ms target fs = []")
    case True
    with assms(2) have "fs' = fs" "re_applied r = []" by (auto simp: apply_migrations_def Let_def)
    moreover have "at_step env ms (k + 0) (content env fs)" using k by simp
    ultimately show ?thesis using True k
      by (intro conjI exI[of _ k] exI[of _ 0]) (simp_all add: apply_migrations_def Let_def)
  next
    case False
    have t: "transact env name (current_version fs) (plan_target ms target fs) (take n (drop k ms)) (backup env name fs) = (Inr r, fs')"
      using assms(2) False n(2) by (simp add: apply_migrations_def Let_def)
    have step: "at_step env ms (k + n) (content env fs')" "re_applied r = map mi_name (take n (drop k ms))"
      using transact_step[OF ok(2) _ n(1) t] k by simp_all
    have "plan_target ms target fs' = plan_target ms target fs" using target_unchanged[OF False] .
    with pending_done[OF ok(2) k step(1) n False] have "pending ms target fs' = []" .
    then show ?thesis using step k n by (auto simp: apply_migrations_def Let_def)
  qed
qed

section \<open>Examples\<close>

definition sample_env :: "int migration_env" where
  "sample_env = \<lparr>me_sha = (\<lambda>s. s), me_empty = 0, me_check = (\<lambda>db. True)\<rparr>"

definition sample_migration :: "int \<Rightarrow> (int \<Rightarrow> py_error + int) \<Rightarrow> int migration" where
  "sample_migration v f = \<lparr>mi_version = v, mi_name = int_str v, mi_apply = f, mi_checksum = ''''\<rparr>"

definition sample_migrations :: "int migration list" where
  "sample_migrations = [sample_migration 1 (\<lambda>d. Inr (d + 1)), sample_migration 2 (\<lambda>d. Inr (d * 10))]"

definition no_files :: "int files" where
  "no_files = \<lparr>fi_main = None, fi_backups = []\<rparr>"

lemma sample_manager: "make_manager sample_migrations = Inr sample_migrations"
  by (simp add: make_manager_def sample_migrations_def sample_migration_def)

lemma sample_fresh: "reaches (fresh_files sample_migrations) (files_step sample_env sample_migrations) no_files"
  using make_manager_ok[OF sample_manager] by (intro reach_init) (simp add: fresh_files_def no_files_def)

definition sample_result :: "int files" where
  "sample_result = snd (apply_migrations sample_env sample_migrations ''s'' None False no_files)"

lemma sample_applied:
  "apply_migrations sample_env sample_migrations ''s'' None False no_files =
     (Inr \<lparr>re_before = 0, re_after = 2, re_applied = [''1'', ''2''], re_backup = ''s''\<rparr>, sample_result)"
  unfolding sample_result_def by code_simp

theorem database_at_prefix_witness:
  "\<exists>k. da_rows (content sample_env sample_result) = map (row_of sample_env) (take k sample_migrations) \<and>
     run_migrations (take k sample_migrations) 0 = Inr (da_data (content sample_env sample_result))"
proof -
  have "reaches (fresh_files sample_migrations) (files_step sample_env sample_migrations) sample_result"
    unfolding sample_result_def by (rule reach_step[OF sample_fresh step_apply])
  moreover have "me_empty sample_env = 0" by (simp add: sample_env_def)
  ultimately show ?thesis using database_at_prefix[OF sample_manager] by metis
qed

theorem migration_applies_plan_witness:
  "apply_migrations sample_env sample_migrations ''t'' None False sample_result =
     (Inr \<lparr>re_before = current_version sample_result, re_after = current_version sample_result, re_applied = [], re_backup = ''''\<rparr>, sample_result)"
  using migration_applies_plan[OF sample_fresh sample_applied] by blast

definition broken_migrations :: "int migration list" where
  "broken_migrations = [sample_migration 1 (\<lambda>d. Inr (d + 1)), sample_migration 2 (\<lambda>d. Inl (ValueError ''broken''))]"

lemma broken_fails:
  "apply_migrations sample_env broken_migrations ''s'' None False no_files =
     (Inl (RuntimeError ''migration failed and backup was restored: broken''), snd (apply_migrations sample_env broken_migrations ''s'' None False no_files))"
  by code_simp

theorem failed_migration_restores_witness:
  "content sample_env (snd (apply_migrations sample_env broken_migrations ''s'' None False no_files)) = empty_database sample_env"
  using failed_migration_restores[OF broken_fails] by (simp add: no_files_def content_def)

text \<open>
  Backups are named by the second and the process: of two migrations within a second, the second one replaces
  the backup of the first, and rolling the first one back gives the state it produced.
\<close>

lemma same_second_backup_lost:
  "let (r1, f1) = apply_migrations sample_env sample_migrations ''s'' (Some 1) False no_files;
       (r2, f2) = apply_migrations sample_env sample_migrations ''s'' (Some 2) False f1
   in map_sum id re_backup r1 = Inr ''s'' \<and> da_data (content sample_env (snd (rollback ''s'' f2))) = 1 \<and> content sample_env no_files = empty_database sample_env"
  by code_simp

text \<open>
  The backup is taken before the transaction begins: a process that fails puts back the database of its
  backup, and what another one has committed in between is lost.
\<close>

lemma restore_loses_concurrent_commit:
  "let mine = [(sample_migration 1 (\<lambda>d. Inr (d + 1)))\<lparr>mi_checksum := ''other''\<rparr>];
       f1 = backup sample_env ''a'' no_files;
       f2 = snd (apply_migrations sample_env sample_migrations ''b'' None False f1);
       f3 = snd (transact sample_env ''a'' 0 1 mine f2)
   in current_version f2 = 2 \<and> da_data (content sample_env f2) = 10 \<and> content sample_env f3 = empty_database sample_env"
  by code_simp

text \<open>The result names the target as the version reached, also when no migration has that version.\<close>

lemma target_beyond_last:
  "let (r, fs) = apply_migrations sample_env sample_migrations ''s'' (Some 9) False no_files
   in map_sum id re_after r = Inr 9 \<and> current_version fs = 2"
  by code_simp
end
