(* ===== verification/ProcessBroker.thy ===== *)
theory ProcessBroker
  imports Prelude
begin

text \<open>
  The durable command broker of \<open>syntavra_runtime/process_broker.py\<close>, the job and completion
  tables of \<open>syntavra_runtime/state.py\<close> it keeps its jobs in, and the worker process of
  \<open>syntavra_runtime/broker_worker.py\<close>.  Three kinds of process work on the same tables: the
  client that submits, cancels and recovers, one worker per background job, and the children
  the workers start.  Each SQL statement runs in a transaction of its own, so the model has one
  function per statement group, the methods are their compositions, and \<open>broker_step\<close>
  interleaves them.  The operating system is a parameter: the process ids \<open>Popen\<close> returns or its
  error, what \<open>poll\<close> and \<open>wait\<close> report, which ids are alive, and what the output firewall makes of
  the logs.
\<close>

section \<open>Data\<close>

datatype broker_state = ACCEPTED | QUEUED | RUNNING | COMPLETED | FAILED | CANCELLED | TIMED_OUT | ORPHANED

definition FINAL_STATES :: "broker_state list" where
  "FINAL_STATES = [COMPLETED, FAILED, CANCELLED, TIMED_OUT, ORPHANED]"

text \<open>A row of \<open>jobs\<close>; \<open>argv_json\<close> is the array of the arguments.\<close>

record broker_job =
  bj_id :: string
  bj_state :: broker_state
  bj_argv :: "string list"
  bj_cwd :: string
  bj_created_at :: rat
  bj_started_at :: "rat option"
  bj_completed_at :: "rat option"
  bj_pid :: "int option"
  bj_exit_code :: "int option"
  bj_timed_out :: bool
  bj_cancelled :: bool
  bj_summary :: string
  bj_evidence_handle :: string
  bj_error :: string
  bj_timeout_seconds :: rat
  bj_stdout_path :: string
  bj_stderr_path :: string
  bj_repository_tree :: string
  bj_environment_hash :: string
  bj_project_id :: string

record job_record =
  jr_id :: string
  jr_state :: broker_state
  jr_argv :: "string list"
  jr_cwd :: string
  jr_created_at :: rat
  jr_started_at :: "rat option"
  jr_completed_at :: "rat option"
  jr_pid :: "int option"
  jr_exit_code :: "int option"
  jr_timed_out :: bool
  jr_cancelled :: bool
  jr_summary :: string
  jr_evidence_handle :: string
  jr_error :: string
  jr_project_id :: string
  jr_repository_tree :: string
  jr_environment_hash :: string

record process_result =
  pr_job_id :: string
  pr_exit_code :: int
  pr_duration_seconds :: rat
  pr_timed_out :: bool
  pr_cancelled :: bool
  pr_summary :: string
  pr_evidence_handle :: string
  pr_stdout_bytes :: nat
  pr_stderr_bytes :: nat
  pr_scanned_lines :: nat
  pr_dropped_lines :: nat

text \<open>What is handed to \<open>append_completion\<close>; \<open>recover\<close> leaves the provenance out.\<close>

record completion_payload =
  cp_job_id :: string
  cp_state :: broker_state
  cp_exit_code :: "int option"
  cp_completed_at :: rat
  cp_evidence_handle :: string
  cp_provenance :: "(string \<times> string) option"

text \<open>A row of \<open>completion_events\<close>; its \<open>payload_json\<close> is the payload.\<close>

record completion_row =
  ce_sequence :: int
  ce_job_id :: string
  ce_state :: broker_state
  ce_exit_code :: "int option"
  ce_completed_at :: rat
  ce_evidence_handle :: string
  ce_payload :: completion_payload

record completion_event =
  ev_seq :: int
  ev_job :: string
  ev_state :: broker_state
  ev_exit_code :: "int option"
  ev_completed_at :: rat
  ev_evidence_handle :: string

text \<open>
  The durable state: the two tables with \<open>sqlite_sequence\<close>, the lines of \<open>completions.jsonl\<close>, and
  what the broker keeps under \<open>jobs/\<close>: the directories, the request files, the heartbeats and
  the \<open>cancel\<close> markers.
\<close>

record request_file =
  rq_job_id :: string
  rq_argv :: "string list"
  rq_cwd :: string
  rq_timeout :: rat
  rq_repository_tree :: string
  rq_environment_hash :: string
  rq_project_id :: string

record broker =
  bk_root :: string
  bk_project_id :: string
  bk_jobs :: "broker_job list"
  bk_events :: "completion_row list"
  bk_sequence :: int
  bk_queue :: "completion_payload list"
  bk_requests :: "(string \<times> request_file) list"
  bk_heartbeats :: "(string \<times> int \<times> rat) list"
  bk_markers :: "string list"

definition new_broker :: "string \<Rightarrow> string \<Rightarrow> broker" where
  "new_broker root_dir project =
     \<lparr>bk_root = root_dir, bk_project_id = project, bk_jobs = [], bk_events = [], bk_sequence = 0,
      bk_queue = [], bk_requests = [], bk_heartbeats = [], bk_markers = []\<rparr>"

text \<open>
  The exceptions that leave the broker: \<open>KeyError\<close>, \<open>ValueError\<close>, \<open>FileNotFoundError\<close>,
  \<open>NotADirectoryError\<close>, \<open>FileExistsError\<close>, \<open>RuntimeError\<close>, \<open>TimeoutExpired\<close>, the \<open>IntegrityError\<close> of
  SQLite, and what \<open>Popen\<close> and \<open>summarize\<close> raise, by its class and message.
\<close>

datatype broker_error =
    NoJob string
  | BadArgument string
  | NoSuchPath string
  | NotADirectory string
  | DirectoryExists string
  | NotPersisted
  | WaitExpired
  | ForeignKey
  | Raised string string

fun error_text :: "broker_error \<Rightarrow> string" where
  "error_text (NoJob jid) = ''KeyError: '' @ py_repr jid"
| "error_text (BadArgument m) = ''ValueError: '' @ m"
| "error_text (NoSuchPath p) = ''FileNotFoundError: '' @ p"
| "error_text (NotADirectory p) = ''NotADirectoryError: '' @ p"
| "error_text (DirectoryExists p) = ''FileExistsError: '' @ p"
| "error_text NotPersisted = ''RuntimeError: job persistence failed''"
| "error_text WaitExpired = ''TimeoutExpired: timed out after 10.0 seconds''"
| "error_text ForeignKey = ''IntegrityError: FOREIGN KEY constraint failed''"
| "error_text (Raised c m) = c @ '': '' @ m"

section \<open>The tables\<close>

definition job_row :: "string \<Rightarrow> broker \<Rightarrow> broker_job option" where
  "job_row jid b = find (\<lambda>r. bj_id r = jid) (bk_jobs b)"

text \<open>
  \<open>upsert_job\<close> with all columns, \<open>update_job\<close>, and \<open>jobs\<close>: a negative \<open>LIMIT\<close> is none; rows created
  at the same time keep the order of the table, which SQLite leaves open.
\<close>

definition upsert_job :: "broker_job \<Rightarrow> broker \<Rightarrow> broker" where
  "upsert_job row b =
     b\<lparr>bk_jobs := (if bj_id row \<in> set (map bj_id (bk_jobs b))
                   then update_where (\<lambda>r. bj_id r = bj_id row) (\<lambda>_. row) (bk_jobs b)
                   else bk_jobs b @ [row])\<rparr>"

definition update_job :: "string \<Rightarrow> (broker_job \<Rightarrow> broker_job) \<Rightarrow> broker \<Rightarrow> broker_error + broker" where
  "update_job jid f b =
     (if rowcount (\<lambda>r. bj_id r = jid) (bk_jobs b) \<noteq> 1 then Inl (NoJob jid)
      else Inr (b\<lparr>bk_jobs := update_where (\<lambda>r. bj_id r = jid) f (bk_jobs b)\<rparr>))"

definition job_rows :: "broker_state list \<Rightarrow> int \<Rightarrow> broker \<Rightarrow> broker_job list" where
  "job_rows states limit b =
     (let rows = sort_key (\<lambda>r. - bj_created_at r)
                   (filter (\<lambda>r. states = [] \<or> bj_state r \<in> set states) (bk_jobs b))
      in if limit < 0 then rows else sql_limit limit rows)"

text \<open>
  \<open>record_completion\<close>: the insert draws the next number of \<open>AUTOINCREMENT\<close> also when the job has
  an event already and the conflict turns the insert into an update, which keeps the number of the row.
\<close>

definition event_of :: "int \<Rightarrow> completion_payload \<Rightarrow> completion_row" where
  "event_of n p =
     \<lparr>ce_sequence = n, ce_job_id = cp_job_id p, ce_state = cp_state p, ce_exit_code = cp_exit_code p,
      ce_completed_at = cp_completed_at p, ce_evidence_handle = cp_evidence_handle p, ce_payload = p\<rparr>"

definition record_completion :: "completion_payload \<Rightarrow> broker \<Rightarrow> broker" where
  "record_completion p b =
     (let n = bk_sequence b + 1 in
      b\<lparr>bk_sequence := n,
        bk_events :=
          (if cp_job_id p \<in> set (map ce_job_id (bk_events b))
           then update_where (\<lambda>e. ce_job_id e = cp_job_id p) (\<lambda>e. event_of (ce_sequence e) p) (bk_events b)
           else bk_events b @ [event_of n p])\<rparr>)"

text \<open>
  The foreign key of the event rejects a job that is not in the table.  \<open>append_completion\<close> is a
  transaction and then a line in the queue file: two processes may come between each other.
\<close>

definition record_event :: "completion_payload \<Rightarrow> broker \<Rightarrow> broker_error + broker" where
  "record_event p b =
     (if cp_job_id p \<notin> set (map bj_id (bk_jobs b)) then Inl ForeignKey else Inr (record_completion p b))"

definition queue_line :: "completion_payload \<Rightarrow> broker \<Rightarrow> broker" where
  "queue_line p b = b\<lparr>bk_queue := bk_queue b @ [p]\<rparr>"

definition append_completion :: "completion_payload \<Rightarrow> broker \<Rightarrow> broker_error + broker" where
  "append_completion p b = bindE (record_event p b) (\<lambda>c. Inr (queue_line p c))"

definition completions_after :: "int \<Rightarrow> int \<Rightarrow> broker \<Rightarrow> completion_row list" where
  "completions_after sequence limit b =
     sql_limit (max 1 limit)
       (sort_key ce_sequence (filter (\<lambda>e. max 0 sequence < ce_sequence e) (bk_events b)))"

section \<open>Reading jobs and completions\<close>

definition job_from_row :: "broker_job \<Rightarrow> job_record" where
  "job_from_row row =
     \<lparr>jr_id = bj_id row, jr_state = bj_state row, jr_argv = bj_argv row, jr_cwd = bj_cwd row,
      jr_created_at = bj_created_at row, jr_started_at = bj_started_at row,
      jr_completed_at = bj_completed_at row, jr_pid = bj_pid row, jr_exit_code = bj_exit_code row,
      jr_timed_out = bj_timed_out row, jr_cancelled = bj_cancelled row, jr_summary = bj_summary row,
      jr_evidence_handle = bj_evidence_handle row, jr_error = bj_error row,
      jr_project_id = bj_project_id row, jr_repository_tree = bj_repository_tree row,
      jr_environment_hash = bj_environment_hash row\<rparr>"

text \<open>\<open>show\<close>; reaping the finished worker process of the client changes nothing that is kept.\<close>

definition show_job :: "string \<Rightarrow> broker \<Rightarrow> broker_error + job_record" where
  "show_job jid b = (case job_row jid b of None \<Rightarrow> Inl (NoJob jid) | Some row \<Rightarrow> Inr (job_from_row row))"

definition list_jobs :: "broker_state list \<Rightarrow> int \<Rightarrow> broker \<Rightarrow> job_record list" where
  "list_jobs states limit b = map job_from_row (job_rows states limit b)"

definition completion_of :: "completion_row \<Rightarrow> completion_event" where
  "completion_of row =
     \<lparr>ev_seq = ce_sequence row, ev_job = ce_job_id row, ev_state = ce_state row,
      ev_exit_code = ce_exit_code row, ev_completed_at = ce_completed_at row,
      ev_evidence_handle = ce_evidence_handle row\<rparr>"

definition drain_completions :: "int \<Rightarrow> int \<Rightarrow> broker \<Rightarrow> int \<times> completion_event list" where
  "drain_completions after_seq limit b =
     (let found = map completion_of (completions_after after_seq limit b)
      in (if found = [] then max 0 after_seq else ev_seq (last found), found))"

text \<open>A consumer that hands each cursor to the next call, as the class comment says.\<close>

fun drain_pages :: "nat \<Rightarrow> int \<Rightarrow> int \<Rightarrow> broker \<Rightarrow> completion_event list list" where
  "drain_pages 0 limit cursor b = []"
| "drain_pages (Suc n) limit cursor b =
     (let (next_cursor, page) = drain_completions cursor limit b
      in if page = [] then [] else page # drain_pages n limit next_cursor b)"

section \<open>Submitting\<close>

text \<open>The environment is an association of names with values; only these names are hashed.\<close>

definition hashed_names :: "string list" where
  "hashed_names =
     [''PATH'', ''PATHEXT'', ''PYTHONPATH'', ''VIRTUAL_ENV'', ''CONDA_PREFIX'', ''OS'', ''PROCESSOR_ARCHITECTURE'']"

type_synonym environ = "(string \<times> string) list"

definition environment_hash :: "(pyval \<Rightarrow> string) \<Rightarrow> environ \<Rightarrow> environ option \<Rightarrow> string" where
  "environment_hash sha os_env env =
     (let source = (case env of Some e \<Rightarrow> e | None \<Rightarrow> os_env)
      in digest sha (PyDict (map (\<lambda>k. (k, PyStr (case map_of source k of Some v \<Rightarrow> v | None \<Rightarrow> ''''))) hashed_names)))"

text \<open>\<open>cwd.resolve(strict=True)\<close> is \<open>resolve\<close>, which has no result for a path that does not exist.\<close>

definition validate_cwd :: "(string \<Rightarrow> string option) \<Rightarrow> (string \<Rightarrow> bool) \<Rightarrow> string \<Rightarrow> broker_error + string" where
  "validate_cwd resolve is_dir cwd =
     (case resolve cwd of
        None \<Rightarrow> Inl (NoSuchPath cwd)
      | Some path \<Rightarrow> if \<not> is_dir path then Inl (NotADirectory path) else Inr path)"

text \<open>
  What the process hands to \<open>_new_job\<close>: the hash function, its own environment, a fresh UUID
  and the clock.
\<close>

record submission =
  sb_argv :: "string list"
  sb_timeout :: rat
  sb_repository_tree :: string
  sb_env :: "environ option"

definition fresh_row :: "(pyval \<Rightarrow> string) \<Rightarrow> environ \<Rightarrow> string \<Rightarrow> rat \<Rightarrow> string \<Rightarrow> submission \<Rightarrow> broker \<Rightarrow> broker_job" where
  "fresh_row sha os_env jid now cwd sub b =
     (let dir = bk_root b @ ''/jobs/'' @ jid in
      \<lparr>bj_id = jid, bj_state = ACCEPTED, bj_argv = sb_argv sub, bj_cwd = cwd, bj_created_at = now,
       bj_started_at = None, bj_completed_at = None, bj_pid = None, bj_exit_code = None,
       bj_timed_out = False, bj_cancelled = False, bj_summary = '''', bj_evidence_handle = '''',
       bj_error = '''', bj_timeout_seconds = sb_timeout sub, bj_stdout_path = dir @ ''/stdout.log'',
       bj_stderr_path = dir @ ''/stderr.log'', bj_repository_tree = sb_repository_tree sub,
       bj_environment_hash = environment_hash sha os_env (sb_env sub), bj_project_id = bk_project_id b\<rparr>)"

definition request_of :: "broker_job \<Rightarrow> request_file" where
  "request_of row =
     \<lparr>rq_job_id = bj_id row, rq_argv = bj_argv row, rq_cwd = bj_cwd row, rq_timeout = bj_timeout_seconds row,
      rq_repository_tree = bj_repository_tree row, rq_environment_hash = bj_environment_hash row,
      rq_project_id = bj_project_id row\<rparr>"

text \<open>A request file stands for its directory: making it again fails.\<close>

definition new_job ::
  "(pyval \<Rightarrow> string) \<Rightarrow> environ \<Rightarrow> string \<Rightarrow> rat \<Rightarrow> string \<Rightarrow> submission \<Rightarrow> broker \<Rightarrow> (broker_error + job_record) \<times> broker" where
  "new_job sha os_env jid now cwd sub b =
     (if sb_argv sub = [] \<or> (\<exists>part \<in> set (sb_argv sub). CHR 0x00 \<in> set part)
      then (Inl (BadArgument ''invalid argv''), b)
      else if sb_timeout sub \<le> 0 then (Inl (BadArgument ''timeout must be positive''), b)
      else if jid \<in> set (map fst (bk_requests b)) then (Inl (DirectoryExists jid), b)
      else let row = fresh_row sha os_env jid now cwd sub b;
               c = upsert_job row b;
               d = c\<lparr>bk_requests := bk_requests c @ [(jid, request_of row)]\<rparr>
           in case job_row jid d of
                None \<Rightarrow> (Inl NotPersisted, d)
              | Some stored \<Rightarrow> (Inr (job_from_row stored), d))"

text \<open>
  \<open>submit\<close> when nothing else runs: \<open>spawn\<close> is the result of \<open>Popen\<close> on the worker.  The state
  \<open>QUEUED\<close> is written after the worker has been started.
\<close>

definition queue_write :: "string \<Rightarrow> int \<Rightarrow> broker \<Rightarrow> broker_error + broker" where
  "queue_write jid pid b = update_job jid (\<lambda>r. r\<lparr>bj_state := QUEUED, bj_pid := Some pid\<rparr>) b"

definition submit ::
  "(pyval \<Rightarrow> string) \<Rightarrow> environ \<Rightarrow> (broker_error + string) \<Rightarrow> string \<Rightarrow> rat \<Rightarrow> broker_error + int \<Rightarrow> submission \<Rightarrow> broker \<Rightarrow>
   (broker_error + job_record) \<times> broker" where
  "submit sha os_env cwd jid now spawn sub b =
     (case cwd of
        Inl e \<Rightarrow> (Inl e, b)
      | Inr path \<Rightarrow>
          (case new_job sha os_env jid now path sub b of
             (Inl e, c) \<Rightarrow> (Inl e, c)
           | (Inr job, c) \<Rightarrow>
               (case spawn of
                  Inl e \<Rightarrow> (Inl e, c)
                | Inr pid \<Rightarrow>
                    (case queue_write (jr_id job) pid c of
                       Inl e \<Rightarrow> (Inl e, c)
                     | Inr d \<Rightarrow> (show_job (jr_id job) d, d)))))"

section \<open>Executing\<close>

text \<open>
  The loop of \<open>_execute\<close> over what it observes: in each pass the child has exited or not, and
  then the time and whether the cancel marker exists.  It leaves with the pair (timed out,
  cancelled), or is still waiting when the observations end; it returns the heartbeats too.
\<close>

record observation =
  ob_exited :: bool
  ob_now :: rat
  ob_marked :: bool

fun poll_loop :: "rat \<Rightarrow> observation list \<Rightarrow> (bool \<times> bool) option \<times> rat list" where
  "poll_loop deadline [] = (None, [])"
| "poll_loop deadline (ob # obs) =
     (if ob_exited ob then (Some (False, False), [])
      else if ob_marked ob then (Some (False, True), [ob_now ob])
      else if deadline \<le> ob_now ob then (Some (True, False), [ob_now ob])
      else let (outcome, beats) = poll_loop deadline obs in (outcome, ob_now ob # beats))"

definition poll_delay :: "rat \<Rightarrow> rat \<Rightarrow> rat \<Rightarrow> rat" where
  "poll_delay interval deadline now = min interval (max (1 / 20) (deadline - now))"

text \<open>
  \<open>process.wait(timeout=10)\<close>, after which the group is killed and waited for once more: the
  exit code of the first wait, of the second, or the \<open>TimeoutExpired\<close> of the second.
\<close>

fun reap :: "int option \<Rightarrow> int option \<Rightarrow> broker_error + int" where
  "reap (Some code) second = Inr code"
| "reap None (Some code) = Inr code"
| "reap None None = Inl WaitExpired"

definition final_state :: "bool \<times> bool \<Rightarrow> int \<Rightarrow> broker_state" where
  "final_state outcome exit_code =
     (if fst outcome then TIMED_OUT else if snd outcome then CANCELLED
      else if exit_code = 0 then COMPLETED else FAILED)"

text \<open>The result of \<open>summarize\<close> on the logs, which is the output firewall's.\<close>

record firewall =
  fw_summary :: string
  fw_evidence_handle :: string
  fw_scanned :: nat
  fw_dropped :: nat

definition running_write :: "string \<Rightarrow> int \<Rightarrow> rat \<Rightarrow> broker \<Rightarrow> broker_error + broker" where
  "running_write jid pid started b =
     update_job jid (\<lambda>r. r\<lparr>bj_state := RUNNING, bj_pid := Some pid, bj_started_at := Some started\<rparr>) b"

definition final_write :: "string \<Rightarrow> rat \<Rightarrow> bool \<times> bool \<Rightarrow> int \<Rightarrow> firewall \<Rightarrow> broker \<Rightarrow> broker_error + broker" where
  "final_write jid completed outcome exit_code fw b =
     update_job jid (\<lambda>r. r\<lparr>bj_state := final_state outcome exit_code, bj_completed_at := Some completed,
       bj_exit_code := Some exit_code, bj_timed_out := fst outcome, bj_cancelled := snd outcome,
       bj_summary := fw_summary fw, bj_evidence_handle := fw_evidence_handle fw\<rparr>) b"

definition final_payload :: "broker_job \<Rightarrow> rat \<Rightarrow> bool \<times> bool \<Rightarrow> int \<Rightarrow> firewall \<Rightarrow> completion_payload" where
  "final_payload row completed outcome exit_code fw =
     \<lparr>cp_job_id = bj_id row, cp_state = final_state outcome exit_code, cp_exit_code = Some exit_code,
      cp_completed_at = completed, cp_evidence_handle = fw_evidence_handle fw,
      cp_provenance = Some (bj_repository_tree row, bj_environment_hash row)\<rparr>"

text \<open>
  What the operating system does during one execution.  \<open>ex_firewall\<close> has an error where
  \<open>summarize\<close> raises.
\<close>

record execution =
  ex_started :: rat
  ex_spawn :: "broker_error + int"
  ex_polls :: "observation list"
  ex_first_wait :: "int option"
  ex_second_wait :: "int option"
  ex_completed :: rat
  ex_firewall :: "broker_error + firewall"
  ex_stdout_bytes :: nat
  ex_stderr_bytes :: nat
definition write_heartbeats :: "string \<Rightarrow> int \<Rightarrow> rat list \<Rightarrow> broker \<Rightarrow> broker" where
  "write_heartbeats jid pid beats b =
     b\<lparr>bk_heartbeats := fold (\<lambda>now. AList.update jid (pid, now)) beats (bk_heartbeats b)\<rparr>"

definition result_of :: "broker_job \<Rightarrow> execution \<Rightarrow> bool \<times> bool \<Rightarrow> int \<Rightarrow> firewall \<Rightarrow> process_result" where
  "result_of row ex outcome exit_code fw =
     \<lparr>pr_job_id = bj_id row, pr_exit_code = exit_code,
      pr_duration_seconds = ex_completed ex - ex_started ex, pr_timed_out = fst outcome,
      pr_cancelled = snd outcome, pr_summary = fw_summary fw,
      pr_evidence_handle = fw_evidence_handle fw, pr_stdout_bytes = ex_stdout_bytes ex,
      pr_stderr_bytes = ex_stderr_bytes ex, pr_scanned_lines = fw_scanned fw,
      pr_dropped_lines = fw_dropped fw\<rparr>"

text \<open>
  \<open>_execute\<close>: no result while the child runs on.  The end of it is \<open>conclude\<close>, from the wait for
  the child to the completion event.
\<close>

definition conclude :: "broker_job \<Rightarrow> execution \<Rightarrow> bool \<times> bool \<Rightarrow> broker \<Rightarrow> (broker_error + process_result) \<times> broker" where
  "conclude row ex outcome b =
     (case bindE (reap (ex_first_wait ex) (ex_second_wait ex)) (\<lambda>code.
             bindE (ex_firewall ex) (\<lambda>fw. Inr (code, fw))) of
        Inl e \<Rightarrow> (Inl e, b)
      | Inr (code, fw) \<Rightarrow>
          (case final_write (bj_id row) (ex_completed ex) outcome code fw b of
             Inl e \<Rightarrow> (Inl e, b)
           | Inr c \<Rightarrow>
               (case append_completion (final_payload row (ex_completed ex) outcome code fw) c of
                  Inl e \<Rightarrow> (Inl e, c)
                | Inr d \<Rightarrow> (Inr (result_of row ex outcome code fw), d))))"

definition execute :: "string \<Rightarrow> execution \<Rightarrow> broker \<Rightarrow> (broker_error + process_result) option \<times> broker" where
  "execute jid ex b =
     (case job_row jid b of
        None \<Rightarrow> (Some (Inl (NoJob jid)), b)
      | Some row \<Rightarrow>
          (case ex_spawn ex of
             Inl e \<Rightarrow> (Some (Inl e), b)
           | Inr pid \<Rightarrow>
               (case running_write jid pid (ex_started ex) b of
                  Inl e \<Rightarrow> (Some (Inl e), b)
                | Inr c \<Rightarrow>
                    let (outcome, beats) = poll_loop (ex_started ex + bj_timeout_seconds row) (ex_polls ex);
                        d = write_heartbeats jid pid beats c
                    in (case outcome of
                          None \<Rightarrow> (None, d)
                        | Some oc \<Rightarrow> apfst Some (conclude row ex oc d)))))"

text \<open>
  \<open>run\<close> executes in the calling process, under the environment of the process with the given one
  laid over it; the worker's \<open>main\<close> turns an exception into the state \<open>FAILED\<close> and an exit status.
\<close>

definition effective_env :: "environ \<Rightarrow> environ option \<Rightarrow> environ" where
  "effective_env os_env env = (case env of None \<Rightarrow> os_env | Some e \<Rightarrow> fold (\<lambda>(k, v). AList.update k v) e os_env)"

definition run ::
  "(pyval \<Rightarrow> string) \<Rightarrow> environ \<Rightarrow> broker_error + string \<Rightarrow> string \<Rightarrow> rat \<Rightarrow> submission \<Rightarrow> execution \<Rightarrow> broker \<Rightarrow>
   (broker_error + process_result) option \<times> broker" where
  "run sha os_env cwd jid now sub ex b =
     (case cwd of
        Inl e \<Rightarrow> (Some (Inl e), b)
      | Inr path \<Rightarrow>
          (case new_job sha os_env jid now path (sub\<lparr>sb_env := Some (effective_env os_env (sb_env sub))\<rparr>) b of
             (Inl e, c) \<Rightarrow> (Some (Inl e), c)
           | (Inr job, c) \<Rightarrow> execute (jr_id job) ex c))"

definition failure_write :: "string \<Rightarrow> string \<Rightarrow> broker \<Rightarrow> broker_error + broker" where
  "failure_write jid message b = update_job jid (\<lambda>r. r\<lparr>bj_state := FAILED, bj_error := message\<rparr>) b"

definition worker_main :: "string \<Rightarrow> execution \<Rightarrow> broker \<Rightarrow> (broker_error + int) option \<times> broker" where
  "worker_main jid ex b =
     (case job_row jid b of
        None \<Rightarrow> (Some (Inr 2), b)
      | Some _ \<Rightarrow>
          (case execute jid ex b of
             (None, c) \<Rightarrow> (None, c)
           | (Some (Inr r), c) \<Rightarrow> (Some (Inr (pr_exit_code r)), c)
           | (Some (Inl e), c) \<Rightarrow>
               (case failure_write jid (''worker failure: '' @ error_text e) c of
                  Inl e' \<Rightarrow> (Some (Inl e'), c)
                | Inr d \<Rightarrow> (Some (Inr 1), d))))"

section \<open>Cancelling and recovering\<close>

definition touch_marker :: "string \<Rightarrow> broker \<Rightarrow> broker" where
  "touch_marker jid b = b\<lparr>bk_markers := List.insert jid (bk_markers b)\<rparr>"

definition cancel_write :: "string \<Rightarrow> broker \<Rightarrow> broker_error + broker" where
  "cancel_write jid b = update_job jid (\<lambda>r. r\<lparr>bj_cancelled := True\<rparr>) b"

definition cancel :: "string \<Rightarrow> broker \<Rightarrow> (broker_error + job_record) \<times> broker" where
  "cancel jid b =
     (case show_job jid b of
        Inl e \<Rightarrow> (Inl e, b)
      | Inr job \<Rightarrow>
          if jr_state job \<in> set FINAL_STATES then (Inr job, b)
          else let c = touch_marker jid b in
            (case cancel_write jid c of
               Inl e \<Rightarrow> (Inl e, c)
             | Inr d \<Rightarrow> (show_job jid d, d)))"

text \<open>A job is lost when it has no process id, or 0, or one that is not alive.\<close>

definition lost :: "(int \<Rightarrow> bool) \<Rightarrow> job_record \<Rightarrow> bool" where
  "lost alive job = (case jr_pid job of None \<Rightarrow> True | Some pid \<Rightarrow> pid = 0 \<or> \<not> alive pid)"

definition orphan_write :: "string \<Rightarrow> rat \<Rightarrow> broker \<Rightarrow> broker_error + broker" where
  "orphan_write jid completed b =
     update_job jid (\<lambda>r. r\<lparr>bj_state := ORPHANED, bj_completed_at := Some completed,
       bj_error := ''worker or process disappeared''\<rparr>) b"

definition orphan_payload :: "job_record \<Rightarrow> rat \<Rightarrow> completion_payload" where
  "orphan_payload job completed =
     \<lparr>cp_job_id = jr_id job, cp_state = ORPHANED, cp_exit_code = None, cp_completed_at = completed,
      cp_evidence_handle = jr_evidence_handle job, cp_provenance = None\<rparr>"

text \<open>\<open>clk jid\<close> is the time at which the job is found lost.\<close>

fun recover_list :: "(int \<Rightarrow> bool) \<Rightarrow> (string \<Rightarrow> rat) \<Rightarrow> job_record list \<Rightarrow> broker \<Rightarrow> (broker_error + job_record list) \<times> broker" where
  "recover_list alive clk [] b = (Inr [], b)"
| "recover_list alive clk (job # jobs) b =
     (if \<not> lost alive job then recover_list alive clk jobs b
      else
        (case orphan_write (jr_id job) (clk (jr_id job)) b of
           Inl e \<Rightarrow> (Inl e, b)
         | Inr c \<Rightarrow>
             (case append_completion (orphan_payload job (clk (jr_id job))) c of
                Inl e \<Rightarrow> (Inl e, c)
              | Inr d \<Rightarrow>
                  (case show_job (jr_id job) d of
                     Inl e \<Rightarrow> (Inl e, d)
                   | Inr shown \<Rightarrow>
                       (case recover_list alive clk jobs d of
                          (Inl e, f) \<Rightarrow> (Inl e, f)
                        | (Inr more_jobs, f) \<Rightarrow> (Inr (shown # more_jobs), f))))))"

definition recover :: "(int \<Rightarrow> bool) \<Rightarrow> (string \<Rightarrow> rat) \<Rightarrow> broker \<Rightarrow> (broker_error + job_record list) \<times> broker" where
  "recover alive clk b = recover_list alive clk (list_jobs [QUEUED, RUNNING] 10000 b) b"
section \<open>Interleaving\<close>

text \<open>
  What the processes have still to do, each as its next transaction: after it the process goes
  on with the tasks of its continuation.  \<open>run\<close> and the background worker share the worker's
  tasks; the flag tells whether an exception ends in \<open>FAILED\<close> (\<open>worker_main\<close>) or in the caller.
  The columns that \<open>_execute\<close> uses of the row it reads first never change, so that reading,
  starting the child and writing \<open>RUNNING\<close> are one step.
\<close>

datatype broker_task =
    Spawn string
  | QueueWrite string int
  | WorkerStart bool string
  | ChildWait bool broker_job
  | WorkerFailure string string
  | CancelMark string
  | CancelFlag string
  | Recover "job_record list"
  | RecordEvent completion_payload aftermath
  | QueueLine completion_payload aftermath
  and aftermath = WorkerEnds bool | RecoverOn "job_record list"

fun resume :: "aftermath \<Rightarrow> broker_task list" where
  "resume (WorkerEnds background) = []"
| "resume (RecoverOn jobs) = [Recover jobs]"

fun failing :: "bool \<Rightarrow> string \<Rightarrow> string \<Rightarrow> broker_task list" where
  "failing background jid message = (if background then [WorkerFailure jid message] else [])"

fun failed_line :: "aftermath \<Rightarrow> string \<Rightarrow> string \<Rightarrow> broker_task list" where
  "failed_line (WorkerEnds background) jid message = failing background jid message"
| "failed_line (RecoverOn jobs) jid message = []"

inductive task_step :: "broker_task \<Rightarrow> broker \<Rightarrow> broker \<Rightarrow> broker_task list \<Rightarrow> bool" where
  spawned: "task_step (Spawn jid) b b [QueueWrite jid pid, WorkerStart True jid]"
| queued: "queue_write jid pid b = Inr c \<Longrightarrow> task_step (QueueWrite jid pid) b c []"
| started: "job_row jid b = Some row \<Longrightarrow> running_write jid pid now b = Inr c \<Longrightarrow>
    task_step (WorkerStart background jid) b c [ChildWait background row]"
| start_fails: "task_step (WorkerStart background jid) b b (failing background jid message)"
| beats: "task_step (ChildWait background row) b (write_heartbeats (bj_id row) pid [now] b) [ChildWait background row]"
| finished: "\<not> (fst outcome \<and> snd outcome) \<Longrightarrow> final_write (bj_id row) now outcome code fw b = Inr c \<Longrightarrow>
    task_step (ChildWait background row) b c
      [RecordEvent (final_payload row now outcome code fw) (WorkerEnds background)]"
| wait_fails: "task_step (ChildWait background row) b b (failing background (bj_id row) message)"
| recorded: "record_event p b = Inr c \<Longrightarrow> task_step (RecordEvent p k) b c [QueueLine p k]"
| lined: "task_step (QueueLine p k) b (queue_line p b) (resume k)"
| line_fails: "task_step (QueueLine p k) b b (failed_line k (cp_job_id p) message)"
| failure: "failure_write jid message b = Inr c \<Longrightarrow> task_step (WorkerFailure jid message) b c []"
| marked: "task_step (CancelMark jid) b (touch_marker jid b) [CancelFlag jid]"
| flagged: "cancel_write jid b = Inr c \<Longrightarrow> task_step (CancelFlag jid) b c []"
| alive: "task_step (Recover (job # jobs)) b b [Recover jobs]"
| orphaned: "orphan_write (jr_id job) now b = Inr c \<Longrightarrow>
    task_step (Recover (job # jobs)) b c [RecordEvent (orphan_payload job now) (RecoverOn jobs)]"
| dies: "task_step t b b []"

text \<open>
  The whole system: the calls of clients and one transaction of any process, as far as the
  schedule allows it.
\<close>

type_synonym broker_world = "broker \<times> broker_task list"
type_synonym schedule = "broker_world \<Rightarrow> broker_task \<Rightarrow> broker_task list \<Rightarrow> bool"

inductive broker_step :: "schedule \<Rightarrow> broker_world \<Rightarrow> broker_world \<Rightarrow> bool" for sched where
  call_submit: "new_job sha os_env jid now cwd sub b = (Inr job, c) \<Longrightarrow>
    broker_step sched (b, ts) (c, ts @ [Spawn (jr_id job)])"
| call_run: "new_job sha os_env jid now cwd sub b = (Inr job, c) \<Longrightarrow>
    broker_step sched (b, ts) (c, ts @ [WorkerStart False (jr_id job)])"
| call_cancel: "show_job jid b = Inr job \<Longrightarrow> jr_state job \<notin> set FINAL_STATES \<Longrightarrow>
    broker_step sched (b, ts) (b, ts @ [CancelMark jid])"
| call_recover: "broker_step sched (b, ts) (b, ts @ [Recover (list_jobs [QUEUED, RUNNING] 10000 b)])"
| transaction: "task_step t b c k \<Longrightarrow> sched (b, us @ t # vs) t k \<Longrightarrow>
    broker_step sched (b, us @ t # vs) (c, us @ k @ vs)"

definition any_order :: schedule where
  "any_order w t k = True"

fun owner :: "broker_task \<Rightarrow> string option" where
  "owner (Spawn jid) = Some jid"
| "owner (WorkerStart background jid) = Some jid"
| "owner (ChildWait background row) = Some (bj_id row)"
| "owner (WorkerFailure jid message) = Some jid"
| "owner (RecordEvent p k) = Some (cp_job_id p)"
| "owner _ = None"

fun queues :: "broker_task \<Rightarrow> string option" where
  "queues (QueueWrite jid pid) = Some jid"
| "queues _ = None"

text \<open>
  The schedules the broker's comments have in mind: a worker starts after the client has written
  \<open>QUEUED\<close>, recovery marks only jobs whose row is still unfinished and whose processes are gone,
  and the queue file can be written.
\<close>

fun orderly :: schedule where
  "orderly (b, ts) (WorkerStart background jid) k = (\<forall>t \<in> set ts. queues t \<noteq> Some jid)"
| "orderly (b, ts) (Recover (job # jobs)) k =
     (k = [Recover jobs] \<or>
      (\<forall>t \<in> set ts. owner t \<noteq> Some (jr_id job) \<and> queues t \<noteq> Some (jr_id job)) \<and>
      (\<forall>row \<in> set (bk_jobs b). bj_id row = jr_id job \<longrightarrow> bj_state row \<notin> set FINAL_STATES))"
| "orderly (b, ts) (QueueLine p a) k = (\<forall>t \<in> set k. owner t = None)"
| "orderly w t k = True"

inductive_cases task_stepE: "task_step t b c k"
inductive_cases broker_stepE: "broker_step sched w w'"
section \<open>The completion log under every interleaving\<close>

text \<open>What a payload may say, and that its job has the completion time written.\<close>

definition coherent :: "completion_payload \<Rightarrow> bool" where
  "coherent p =
     (case (cp_state p, cp_exit_code p) of
        (COMPLETED, Some code) \<Rightarrow> code = 0
      | (FAILED, Some code) \<Rightarrow> code \<noteq> 0
      | (CANCELLED, Some code) \<Rightarrow> True
      | (TIMED_OUT, Some code) \<Rightarrow> True
      | (ORPHANED, None) \<Rightarrow> True
      | _ \<Rightarrow> False)"

definition reported :: "broker \<Rightarrow> completion_payload \<Rightarrow> bool" where
  "reported b p \<longleftrightarrow> coherent p \<and> (\<exists>row \<in> set (bk_jobs b). bj_id row = cp_job_id p \<and> bj_completed_at row \<noteq> None)"

definition log_ok :: "broker \<Rightarrow> bool" where
  "log_ok b \<longleftrightarrow>
     map fst (bk_requests b) = map bj_id (bk_jobs b) \<and> distinct (map bj_id (bk_jobs b)) \<and>
     0 \<le> bk_sequence b \<and> sorted_wrt (<) (map ce_sequence (bk_events b)) \<and>
     (\<forall>e \<in> set (bk_events b). 1 \<le> ce_sequence e \<and> ce_sequence e \<le> bk_sequence b \<and>
        e = event_of (ce_sequence e) (ce_payload e) \<and> reported b (ce_payload e)) \<and>
     distinct (map ce_job_id (bk_events b)) \<and>
     (\<forall>p \<in> set (bk_queue b). reported b p \<and> cp_job_id p \<in> set (map ce_job_id (bk_events b)))"

fun task_ok :: "broker \<Rightarrow> broker_task \<Rightarrow> bool" where
  "task_ok b (RecordEvent p k) = reported b p"
| "task_ok b (QueueLine p k) = (reported b p \<and> cp_job_id p \<in> set (map ce_job_id (bk_events b)))"
| "task_ok b _ = True"

definition broker_inv :: "broker_world \<Rightarrow> bool" where
  "broker_inv w \<longleftrightarrow> log_ok (fst w) \<and> (\<forall>t \<in> set (snd w). task_ok (fst w) t)"

text \<open>Each write of a job row keeps the id and never takes a completion time back.\<close>

definition row_write :: "(broker_job \<Rightarrow> broker_job) \<Rightarrow> bool" where
  "row_write f \<longleftrightarrow> (\<forall>r. bj_id (f r) = bj_id r \<and> (bj_completed_at r \<noteq> None \<longrightarrow> bj_completed_at (f r) \<noteq> None))"

lemma update_job_Inr:
  "update_job jid f b = Inr c \<Longrightarrow>
     c = b\<lparr>bk_jobs := update_where (\<lambda>r. bj_id r = jid) f (bk_jobs b)\<rparr> \<and> (\<exists>r \<in> set (bk_jobs b). bj_id r = jid)"
  using rowcount_pos[of "\<lambda>r. bj_id r = jid" "bk_jobs b"] by (auto simp: update_job_def split: if_splits)

lemmas broker_writes =
  queue_write_def running_write_def final_write_def failure_write_def cancel_write_def orphan_write_def

definition grows :: "broker \<Rightarrow> broker \<Rightarrow> bool" where
  "grows b c \<longleftrightarrow> (\<forall>p. reported b p \<longrightarrow> reported c p) \<and> set (map ce_job_id (bk_events b)) \<subseteq> set (map ce_job_id (bk_events c))"

lemma growsI:
  assumes "\<And>r. r \<in> set (bk_jobs b) \<Longrightarrow> bj_completed_at r \<noteq> None \<Longrightarrow>
      \<exists>r' \<in> set (bk_jobs c). bj_id r' = bj_id r \<and> bj_completed_at r' \<noteq> None"
    and "set (map ce_job_id (bk_events b)) \<subseteq> set (map ce_job_id (bk_events c))"
  shows "grows b c"
  unfolding grows_def reported_def using assms by metis

lemma grows_task: "grows b c \<Longrightarrow> task_ok b t \<Longrightarrow> task_ok c t"
  unfolding grows_def by (cases "(b, t)" rule: task_ok.cases) auto

lemma log_okD:
  assumes "log_ok b"
  shows "map fst (bk_requests b) = map bj_id (bk_jobs b)" "distinct (map bj_id (bk_jobs b))"
    "0 \<le> bk_sequence b" "sorted_wrt (<) (map ce_sequence (bk_events b))"
    "distinct (map ce_job_id (bk_events b))"
  using assms by (simp_all add: log_ok_def)

lemma log_ok_cong:
  assumes "log_ok b" and "grows b c" and "bk_events c = bk_events b" and "bk_sequence c = bk_sequence b"
    and "bk_queue c = bk_queue b" and "map fst (bk_requests c) = map bj_id (bk_jobs c)"
    and "distinct (map bj_id (bk_jobs c))"
  shows "log_ok c"
  using assms unfolding log_ok_def grows_def by simp

lemma row_write_grows:
  assumes "row_write f" and "update_job jid f b = Inr c"
  shows "grows b c"
proof (rule growsI)
  fix r
  assume "r \<in> set (bk_jobs b)" and "bj_completed_at r \<noteq> None"
  then have "(if bj_id r = jid then f r else r) \<in> set (bk_jobs c)"
    using update_job_Inr[OF assms(2)] by (auto simp: set_update_where)
  moreover have "bj_id (if bj_id r = jid then f r else r) = bj_id r"
    "bj_completed_at (if bj_id r = jid then f r else r) \<noteq> None"
    using assms(1) \<open>bj_completed_at r \<noteq> None\<close> by (auto simp: row_write_def)
  ultimately show "\<exists>r' \<in> set (bk_jobs c). bj_id r' = bj_id r \<and> bj_completed_at r' \<noteq> None" by blast
qed (use update_job_Inr[OF assms(2)] in simp)

lemma row_write_ids:
  assumes "row_write f" and "update_job jid f b = Inr c"
  shows "map bj_id (bk_jobs c) = map bj_id (bk_jobs b)"
  using assms update_job_Inr[OF assms(2)] by (simp add: map_update_where_same row_write_def)

lemma row_write_log:
  assumes "row_write f" and "update_job jid f b = Inr c" and "log_ok b"
  shows "log_ok c" and "grows b c"
proof -
  show grows: "grows b c" using assms(1,2) by (rule row_write_grows)
  show "log_ok c"
    using assms(3) grows
    by (rule log_ok_cong) (use update_job_Inr[OF assms(2)] row_write_ids[OF assms(1,2)] log_okD[OF assms(3)] in simp_all)
qed

lemma row_writes:
  "queue_write jid pid b = Inr c \<Longrightarrow> \<exists>f. row_write f \<and> update_job jid f b = Inr c"
  "running_write jid pid now b = Inr c \<Longrightarrow> \<exists>f. row_write f \<and> update_job jid f b = Inr c"
  "final_write jid now outcome code fw b = Inr c \<Longrightarrow> \<exists>f. row_write f \<and> update_job jid f b = Inr c"
  "failure_write jid message b = Inr c \<Longrightarrow> \<exists>f. row_write f \<and> update_job jid f b = Inr c"
  "cancel_write jid b = Inr c \<Longrightarrow> \<exists>f. row_write f \<and> update_job jid f b = Inr c"
  "orphan_write jid now b = Inr c \<Longrightarrow> \<exists>f. row_write f \<and> update_job jid f b = Inr c"
  unfolding broker_writes by (rule exI, rule conjI, erule_tac [2] asm_rl, simp add: row_write_def)+
lemma row_write_inv:
  assumes "\<exists>f. row_write f \<and> update_job jid f b = Inr c" and "log_ok b"
  shows "log_ok c \<and> grows b c"
  using assms row_write_log by blast

lemma find_snoc: "find P xs = None \<Longrightarrow> find P (xs @ [x]) = (if P x then Some x else None)"
  by (induction xs) (auto split: if_splits)

lemma new_job_Inr:
  assumes "new_job sha os_env jid now cwd sub b = (Inr job, c)"
    and "map fst (bk_requests b) = map bj_id (bk_jobs b)"
  defines "row \<equiv> fresh_row sha os_env jid now cwd sub b"
  shows "jid \<notin> set (map bj_id (bk_jobs b))" and "jr_id job = jid"
    and "c = b\<lparr>bk_jobs := bk_jobs b @ [row], bk_requests := bk_requests b @ [(jid, request_of row)]\<rparr>"
proof -
  have fresh: "jid \<notin> set (map fst (bk_requests b))"
    using assms(1) by (auto simp: new_job_def split: if_splits)
  then show new: "jid \<notin> set (map bj_id (bk_jobs b))" using assms(2) by metis
  have id: "bj_id row = jid" by (simp add: row_def fresh_row_def Let_def)
  have "find (\<lambda>r. bj_id r = jid) (bk_jobs b) = None" using new by (auto simp: find_None_iff)
  then have "find (\<lambda>r. bj_id r = jid) (bk_jobs b @ [row]) = Some row"
    using id by (simp add: find_snoc)
  then show "c = b\<lparr>bk_jobs := bk_jobs b @ [row], bk_requests := bk_requests b @ [(jid, request_of row)]\<rparr>"
    and "jr_id job = jid"
    using assms(1) new id fresh
    by (auto simp: new_job_def Let_def upsert_job_def job_row_def job_from_row_def row_def[symmetric] split: if_splits)
qed

lemma new_job_log:
  assumes "new_job sha os_env jid now cwd sub b = (Inr job, c)" and "log_ok b"
  shows "log_ok c \<and> grows b c"
proof -
  note ids = log_okD(1)[OF assms(2)]
  let ?row = "fresh_row sha os_env jid now cwd sub b"
  have c: "c = b\<lparr>bk_jobs := bk_jobs b @ [?row], bk_requests := bk_requests b @ [(jid, request_of ?row)]\<rparr>"
    and new: "jid \<notin> set (map bj_id (bk_jobs b))"
    using new_job_Inr[OF assms(1) ids] by auto
  have grows: "grows b c" by (rule growsI) (auto simp: c)
  have "log_ok c"
    by (rule log_ok_cong[OF assms(2) grows])
      (use log_okD[OF assms(2)] new in \<open>auto simp: c fresh_row_def Let_def\<close>)
  with grows show ?thesis by simp
qed

lemma coherent_final: "\<not> (fst oc \<and> snd oc) \<Longrightarrow> coherent (final_payload row now oc code fw)"
  by (simp add: coherent_def final_payload_def final_state_def)

lemma final_write_row:
  assumes "final_write jid now oc code fw b = Inr c"
  shows "jid \<in> set (map bj_id (bk_jobs c))"
proof -
  have "row_write (\<lambda>r. r\<lparr>bj_state := final_state oc code, bj_completed_at := Some now,
       bj_exit_code := Some code, bj_timed_out := fst oc, bj_cancelled := snd oc,
       bj_summary := fw_summary fw, bj_evidence_handle := fw_evidence_handle fw\<rparr>)"
    by (simp add: row_write_def)
  from row_write_ids[OF this assms[unfolded final_write_def]] show ?thesis
    using update_job_Inr[OF assms[unfolded final_write_def]] by (auto simp del: list.set_map)
qed

lemma write_reported:
  assumes "update_job jid f b = Inr c" and "coherent p" and "cp_job_id p = jid"
    and "\<And>r. bj_id (f r) = bj_id r" and "\<And>r. bj_completed_at (f r) \<noteq> None"
  shows "reported c p"
proof -
  obtain r where r: "r \<in> set (bk_jobs b)" "bj_id r = jid"
    using update_job_Inr[OF assms(1)] by auto
  then have "f r \<in> set (bk_jobs c)"
    using update_job_Inr[OF assms(1)] by (auto intro: update_where_hit)
  then show ?thesis unfolding reported_def using assms(2-5) r by metis
qed

lemma final_write_reported:
  assumes "final_write (bj_id row) now oc code fw b = Inr c" and "\<not> (fst oc \<and> snd oc)"
  shows "reported c (final_payload row now oc code fw)"
  using coherent_final[OF assms(2)]
  by (rule write_reported[OF assms(1)[unfolded final_write_def]]) (simp_all add: final_payload_def)

lemma orphan_write_reported:
  assumes "orphan_write (jr_id job) now b = Inr c"
  shows "reported c (orphan_payload job now)"
  by (rule write_reported[OF assms[unfolded orphan_write_def]]) (simp_all add: orphan_payload_def coherent_def)

lemma event_of_simps [simp]:
  "ce_sequence (event_of n p) = n" "ce_job_id (event_of n p) = cp_job_id p" "ce_payload (event_of n p) = p"
  by (simp_all add: event_of_def)

lemma record_completion_ids:
  "map ce_job_id (bk_events (record_completion p b)) =
     (if cp_job_id p \<in> set (map ce_job_id (bk_events b)) then map ce_job_id (bk_events b)
      else map ce_job_id (bk_events b) @ [cp_job_id p])"
  "map ce_sequence (bk_events (record_completion p b)) =
     (if cp_job_id p \<in> set (map ce_job_id (bk_events b)) then map ce_sequence (bk_events b)
      else map ce_sequence (bk_events b) @ [bk_sequence b + 1])"
  by (simp_all add: record_completion_def Let_def map_update_where_same)

lemma record_event_Inr:
  "record_event p b = Inr c \<Longrightarrow> c = record_completion p b \<and> cp_job_id p \<in> set (map bj_id (bk_jobs b))"
  by (auto simp: record_event_def split: if_splits)

lemma record_completion_same [simp]:
  "bk_jobs (record_completion p b) = bk_jobs b" "bk_queue (record_completion p b) = bk_queue b"
  "bk_requests (record_completion p b) = bk_requests b" "bk_sequence (record_completion p b) = bk_sequence b + 1"
  by (simp_all add: record_completion_def Let_def)

lemma record_completion_in:
  assumes "e \<in> set (bk_events (record_completion p b))"
  obtains "e \<in> set (bk_events b)"
  | "e = event_of (bk_sequence b + 1) p"
  | d where "d \<in> set (bk_events b)" "e = event_of (ce_sequence d) p"
  using assms by (auto simp: record_completion_def Let_def set_update_where split: if_splits)

lemma record_event_log:
  assumes "record_event p b = Inr c" and "log_ok b" and "reported b p"
  shows "log_ok c \<and> grows b c"
proof -
  have c: "c = record_completion p b" using record_event_Inr[OF assms(1)] by simp
  have rep: "reported c q = reported b q" for q using c by (simp add: reported_def)
  have sub: "set (map ce_job_id (bk_events b)) \<subseteq> set (map ce_job_id (bk_events c))"
    unfolding c record_completion_ids by auto
  have grows: "grows b c" using rep sub by (simp add: grows_def)
  have inv: "1 \<le> ce_sequence e" "ce_sequence e \<le> bk_sequence b"
      "e = event_of (ce_sequence e) (ce_payload e)" "reported b (ce_payload e)"
    if "e \<in> set (bk_events b)" for e
    using assms(2) that by (auto simp: log_ok_def)
  have seqs: "sorted_wrt (<) (map ce_sequence (bk_events c))" "distinct (map ce_job_id (bk_events c))"
    using log_okD(4,5)[OF assms(2)] inv(2) unfolding c record_completion_ids
    by (fastforce simp: sorted_wrt_append)+
  have rows: "1 \<le> ce_sequence e \<and> ce_sequence e \<le> bk_sequence c \<and>
        e = event_of (ce_sequence e) (ce_payload e) \<and> reported c (ce_payload e)"
    if e: "e \<in> set (bk_events c)" for e
    using e[unfolded c]
  proof (cases rule: record_completion_in)
    case 1
    then show ?thesis using inv[of e] rep by (simp add: c)
  next
    case 2
    then show ?thesis using rep assms(3) log_okD(3)[OF assms(2)] by (simp add: c)
  next
    case (3 d)
    then show ?thesis using inv(1,2)[of d] rep assms(3) by (simp add: c)
  qed
  have queue: "reported c q \<and> cp_job_id q \<in> set (map ce_job_id (bk_events c))" if "q \<in> set (bk_queue c)" for q
    using that assms(2) rep sub by (auto simp: log_ok_def c)
  have "log_ok c"
    unfolding log_ok_def using log_okD[OF assms(2)] seqs rows queue by (simp add: c)
  with grows show ?thesis by simp
qed

lemma log_ok_lines: "log_ok b \<Longrightarrow> log_ok (write_heartbeats jid pid now b) \<and> grows b (write_heartbeats jid pid now b)"
  "log_ok b \<Longrightarrow> log_ok (touch_marker jid b) \<and> grows b (touch_marker jid b)"
  by (auto simp: log_ok_def grows_def reported_def write_heartbeats_def touch_marker_def)

lemma queue_line_log:
  assumes "log_ok b" and "task_ok b (QueueLine p k)"
  shows "log_ok (queue_line p b) \<and> grows b (queue_line p b)"
  using assms by (auto simp: log_ok_def grows_def reported_def queue_line_def)

lemma resume_ok: "t \<in> set (resume k) \<Longrightarrow> task_ok b t" "t \<in> set (failed_line k jid m) \<Longrightarrow> task_ok b t"
  "t \<in> set (failing bg jid m) \<Longrightarrow> task_ok b t"
  by (cases k; auto simp: failing.simps split: if_splits)+

text \<open>Every transaction keeps the log and what the processes are about to do to it.\<close>

lemma task_step_log:
  assumes "task_step t b c k" and "log_ok b" and "task_ok b t"
  shows "log_ok c \<and> grows b c \<and> (\<forall>u \<in> set k. task_ok c u)"
  using assms
proof (cases rule: task_step.cases)
  case (finished oc row now code fw bg)
  then show ?thesis
    using row_write_inv[OF row_writes(3)[OF finished(4)] assms(2)]
      final_write_reported[OF finished(4) finished(3)] by simp
next
  case (orphaned job now jobs)
  then show ?thesis
    using row_write_inv[OF row_writes(6) assms(2)] orphan_write_reported by simp
next
  case (recorded p k)
  then show ?thesis
    using record_event_log[of p b c] record_event_Inr[of p b c] assms(2,3)
    by (auto simp: grows_def record_completion_ids image_iff)
next
  case (lined p k)
  then show ?thesis using queue_line_log[of b p k] assms resume_ok by auto
next
  case (queued jid pid)
  then show ?thesis using row_write_inv[OF row_writes(1) assms(2)] by simp
next
  case (started jid row pid now bg)
  then show ?thesis using row_write_inv[OF row_writes(2) assms(2)] by simp
next
  case (failure jid message)
  then show ?thesis using row_write_inv[OF row_writes(4) assms(2)] by simp
next
  case (flagged jid)
  then show ?thesis using row_write_inv[OF row_writes(5) assms(2)] by simp
qed (use assms(2) log_ok_lines resume_ok in \<open>auto simp: grows_def\<close>)

lemma broker_step_inv:
  assumes "broker_step sched w w'" and "broker_inv w"
  shows "broker_inv w'"
  using assms
proof (cases rule: broker_step.cases)
  case (call_submit sha os_env jid now cwd sub b job c ts)
  then show ?thesis using new_job_log[OF call_submit(3)] assms(2) grows_task
    by (auto simp: broker_inv_def)
next
  case (call_run sha os_env jid now cwd sub b job c ts)
  then show ?thesis using new_job_log[OF call_run(3)] assms(2) grows_task
    by (auto simp: broker_inv_def)
next
  case (transaction t b c k us vs)
  then show ?thesis using task_step_log[OF transaction(3)] assms(2) grows_task
    by (auto simp: broker_inv_def)
qed (auto simp: broker_inv_def)

definition broker_start :: "broker_world \<Rightarrow> bool" where
  "broker_start w \<longleftrightarrow> w = (new_broker (bk_root (fst w)) (bk_project_id (fst w)), [])"

lemma broker_startE:
  assumes "broker_start w"
  obtains r p where "w = (new_broker r p, [])"
  using assms unfolding broker_start_def by blast

lemma broker_inv_start: "broker_start w \<Longrightarrow> broker_inv w"
  by (erule broker_startE) (simp add: broker_inv_def log_ok_def new_broker_def)

interpretation broker: stateful broker_start "broker_step sched" broker_inv for sched
  by unfold_locales (auto intro: broker_inv_start broker_step_inv)

section \<open>Draining\<close>

lemma sort_sequences:
  "log_ok b \<Longrightarrow> sort_key ce_sequence (filter P (bk_events b)) = filter P (bk_events b)"
  by (rule sort_key_sorted)
    (metis log_okD(4) strict_sorted_imp_sorted sorted_filter)

lemma completions_after_ok:
  "log_ok b \<Longrightarrow> completions_after s limit b =
     take (nat (max 1 limit)) (filter (\<lambda>e. max 0 s < ce_sequence e) (bk_events b))"
  by (simp add: completions_after_def sort_sequences sql_limit_take)

text \<open>In an ascending list, what follows the last of the first \<open>n\<close> entries is the rest.\<close>

lemma after_page:
  fixes f :: "'a \<Rightarrow> 'b::linorder"
  assumes "sorted_wrt (<) (map f xs)" and "0 < n" and "xs \<noteq> []"
  shows "filter (\<lambda>x. f (last (take n xs)) < f x) xs = drop n xs"
  using assms
proof (induction xs arbitrary: n)
  case (Cons x xs)
  then obtain m where n: "n = Suc m" by (cases n) auto
  have above: "f x < f y" if "y \<in> set xs" for y using Cons.prems(1) that by simp
  show ?case
  proof (cases "m = 0 \<or> xs = []")
    case True
    then have "last (take n (x # xs)) = x" using n by auto
    then show ?thesis using True n above by (auto simp: filter_id_conv)
  next
    case False
    then have "last (take m xs) \<in> set xs" by (meson in_set_takeD last_in_set take_eq_Nil)
    then have "\<not> f (last (take m xs)) < f x" using above by fastforce
    moreover have "filter (\<lambda>y. f (last (take m xs)) < f y) xs = drop m xs"
      using Cons.IH[of m] Cons.prems(1) False by simp
    ultimately show ?thesis using False n by simp
  qed
qed simp

lemma log_sequences:
  assumes "log_ok b"
  shows "e \<in> set (bk_events b) \<Longrightarrow> 1 \<le> ce_sequence e"
    and "sorted_wrt (<) (map ce_sequence (filter P (bk_events b)))"
  using assms by (auto simp: log_ok_def sorted_wrt_map sorted_wrt_filter)

lemma drain_step:
  assumes "log_ok b"
  defines "left \<equiv> \<lambda>c. filter (\<lambda>e. max 0 c < ce_sequence e) (bk_events b)"
  shows "snd (drain_completions c limit b) = map completion_of (take (nat (max 1 limit)) (left c))"
    and "left c \<noteq> [] \<Longrightarrow> left (fst (drain_completions c limit b)) = drop (nat (max 1 limit)) (left c)"
proof -
  let ?n = "nat (max 1 limit)"
  have page: "completions_after c limit b = take ?n (left c)"
    using completions_after_ok[OF assms(1)] by (simp add: left_def)
  then show "snd (drain_completions c limit b) = map completion_of (take ?n (left c))"
    by (simp add: drain_completions_def Let_def)
  assume ne: "left c \<noteq> []"
  have n: "0 < ?n" by simp
  let ?m = "ce_sequence (last (take ?n (left c)))"
  have nonempty: "take ?n (left c) \<noteq> []" using ne n by (metis take_eq_Nil less_numeral_extra(3))
  then have "last (take ?n (left c)) \<in> set (left c)" by (meson in_set_takeD last_in_set)
  then have bound: "max 0 c < ?m" and pos: "1 \<le> ?m"
    using log_sequences(1)[OF assms(1)] by (auto simp: left_def)
  have "fst (drain_completions c limit b) = ?m"
    using nonempty by (simp add: drain_completions_def page last_map completion_of_def Let_def)
  moreover have "left ?m = filter (\<lambda>e. ?m < ce_sequence e) (left c)"
    using bound pos unfolding left_def filter_filter by (intro filter_cong) auto
  moreover have "\<dots> = drop ?n (left c)"
    unfolding left_def by (rule after_page[OF log_sequences(2)[OF assms(1)] n ne[unfolded left_def]])
  ultimately show "left (fst (drain_completions c limit b)) = drop ?n (left c)" by simp
qed

lemma drain_pages_all:
  assumes "log_ok b" and "length (filter (\<lambda>e. max 0 c < ce_sequence e) (bk_events b)) \<le> n"
  shows "concat (drain_pages n limit c b) =
           map completion_of (filter (\<lambda>e. max 0 c < ce_sequence e) (bk_events b))"
  using assms(2)
proof (induction n arbitrary: c)
  case (Suc n)
  let ?left = "\<lambda>c. filter (\<lambda>e. max 0 c < ce_sequence e) (bk_events b)"
  let ?k = "nat (max 1 limit)"
  note page = drain_step[OF assms(1), of c limit]
  obtain c' found where d: "drain_completions c limit b = (c', found)" by fastforce
  show ?case
  proof (cases "?left c = []")
    case True
    then show ?thesis using page(1) d by simp
  next
    case False
    have next_left: "?left c' = drop ?k (?left c)" using page(2) False d by simp
    then have "length (?left c') \<le> n" using Suc.prems False by simp
    then have "concat (drain_pages n limit c' b) = map completion_of (?left c')" by (rule Suc.IH)
    moreover have "found = map completion_of (take ?k (?left c))" using page(1) d by simp
    ultimately show ?thesis using d next_left
      by (auto simp flip: map_append)
  qed
qed simp
section \<open>The polling loop\<close>

text \<open>
  Two clocks: \<open>ts\<close> are the instants of the passes on a clock that only runs forward, on which
  \<open>time.sleep\<close> is documented to last at least as long as asked; \<open>ob_now\<close> is what \<open>time.time()\<close> returns
  there, which an administrator or a time service may set back at any moment.
\<close>

fun slept :: "rat \<Rightarrow> rat \<Rightarrow> rat list \<Rightarrow> observation list \<Rightarrow> bool" where
  "slept interval deadline (s # t # ts) (x # y # obs) =
     (s + poll_delay interval deadline (ob_now x) \<le> t \<and> slept interval deadline (t # ts) (y # obs))"
| "slept interval deadline ts obs = True"

text \<open>The wall clock is, in all the passes together, set back by no more than \<open>lag\<close> seconds.\<close>

definition set_back_at_most :: "rat \<Rightarrow> rat \<Rightarrow> rat list \<Rightarrow> observation list \<Rightarrow> bool" where
  "set_back_at_most lag began ts obs = list_all2 (\<lambda>t ob. began + (t - hd ts) - lag \<le> ob_now ob) ts obs"

lemma poll_delay_pos: "1 / 10 \<le> interval \<Longrightarrow> 1 / 20 \<le> poll_delay interval deadline now"
  by (simp add: poll_delay_def)

lemma poll_loop_leaves:
  assumes "1 / 10 \<le> interval" and "slept interval deadline ts obs" and "obs \<noteq> []"
    and "list_all2 (\<lambda>t ob. t + c \<le> ob_now ob) ts obs"
    and "deadline \<le> hd ts + c + of_nat (length obs - 1) / 20"
  shows "fst (poll_loop deadline obs) \<noteq> None"
  using assms
proof (induction interval deadline ts obs rule: slept.induct)
  case (1 interval deadline s t ts x y obs)
  have "1 / 20 \<le> poll_delay interval deadline (ob_now x)" using 1(2) by (rule poll_delay_pos)
  then have "fst (poll_loop deadline (y # obs)) \<noteq> None" using 1 by (simp add: field_simps)
  then show ?case by (auto split: prod.splits)
qed (auto simp: list_all2_Cons1 list_all2_Cons2)

section \<open>Rows and events agree under the orderly schedules\<close>

definition unfinished :: "broker \<Rightarrow> string \<Rightarrow> bool" where
  "unfinished b jid \<longleftrightarrow> (\<exists>row \<in> set (bk_jobs b). bj_id row = jid \<and> bj_state row \<notin> set FINAL_STATES)"

definition says :: "broker_job \<Rightarrow> completion_payload \<Rightarrow> bool" where
  "says row p \<longleftrightarrow> bj_id row = cp_job_id p \<and> bj_state row = cp_state p \<and> bj_exit_code row = cp_exit_code p \<and>
     bj_completed_at row = Some (cp_completed_at p) \<and> bj_evidence_handle row = cp_evidence_handle p"

definition agrees :: "broker \<Rightarrow> completion_payload \<Rightarrow> bool" where
  "agrees b p \<longleftrightarrow> coherent p \<and> (\<exists>row \<in> set (bk_jobs b). says row p)"

fun blank_jobs :: "aftermath \<Rightarrow> bool" where
  "blank_jobs (WorkerEnds background) = True"
| "blank_jobs (RecoverOn jobs) = (\<forall>j \<in> set jobs. jr_evidence_handle j = '''')"

fun calm :: "broker \<Rightarrow> broker_task \<Rightarrow> bool" where
  "calm b (Spawn jid) = unfinished b jid"
| "calm b (QueueWrite jid pid) = unfinished b jid"
| "calm b (WorkerStart background jid) = unfinished b jid"
| "calm b (ChildWait background row) = unfinished b (bj_id row)"
| "calm b (WorkerFailure jid message) = unfinished b jid"
| "calm b (Recover jobs) = (\<forall>j \<in> set jobs. jr_evidence_handle j = '''')"
| "calm b (RecordEvent p k) = (agrees b p \<and> blank_jobs k)"
| "calm b (QueueLine p k) = blank_jobs k"
| "calm b _ = True"

text \<open>One owner for each job, and while \<open>QUEUED\<close> is still to be written it has not begun.\<close>

definition solo :: "broker_task list \<Rightarrow> bool" where
  "solo ts \<longleftrightarrow> (\<forall>jid. length (filter (\<lambda>t. owner t = Some jid) ts) \<le> 1 \<and>
     (\<forall>t \<in> set ts. queues t = Some jid \<longrightarrow>
        (\<forall>u \<in> set ts. owner u = Some jid \<longrightarrow> (\<exists>background. u = WorkerStart background jid))))"

definition rows_blank :: "broker \<Rightarrow> bool" where
  "rows_blank b \<longleftrightarrow> (\<forall>row \<in> set (bk_jobs b). bj_state row \<notin> set FINAL_STATES \<longrightarrow>
     bj_exit_code row = None \<and> bj_evidence_handle row = '''')"

definition orderly_inv :: "broker_world \<Rightarrow> bool" where
  "orderly_inv w \<longleftrightarrow> broker_inv w \<and> rows_blank (fst w) \<and>
     (\<forall>e \<in> set (bk_events (fst w)). agrees (fst w) (ce_payload e)) \<and>
     (\<forall>t \<in> set (snd w). calm (fst w) t) \<and> solo (snd w)"

lemma coherent_finished: "coherent p \<Longrightarrow> cp_state p \<in> set FINAL_STATES"
  by (cases "cp_state p"; cases "cp_exit_code p") (simp_all add: coherent_def FINAL_STATES_def)

lemma unique_row:
  "log_ok b \<Longrightarrow> r \<in> set (bk_jobs b) \<Longrightarrow> r' \<in> set (bk_jobs b) \<Longrightarrow> bj_id r = bj_id r' \<Longrightarrow> r = r'"
  using log_okD(2) distinct_key_eq by metis

lemma unfinished_row:
  "log_ok b \<Longrightarrow> unfinished b jid \<Longrightarrow> r \<in> set (bk_jobs b) \<Longrightarrow> bj_id r = jid \<Longrightarrow> bj_state r \<notin> set FINAL_STATES"
  unfolding unfinished_def using unique_row by metis

lemma agrees_not_unfinished:
  assumes "log_ok b" and "agrees b p"
  shows "\<not> unfinished b (cp_job_id p)"
proof
  assume u: "unfinished b (cp_job_id p)"
  obtain r where r: "r \<in> set (bk_jobs b)" "says r p" and c: "coherent p"
    using assms(2) by (auto simp: agrees_def)
  then have "bj_state r \<notin> set FINAL_STATES"
    using unfinished_row[OF assms(1) u r(1)] by (simp add: says_def)
  then show False using coherent_finished[OF c] r(2) by (simp add: says_def)
qed

text \<open>What a process says about its job, and what a write of another job's row leaves alone.\<close>

definition about :: "broker_task \<Rightarrow> string \<Rightarrow> bool" where
  "about t jid \<longleftrightarrow> owner t = Some jid \<or> queues t = Some jid"

lemma unfinished_other:
  assumes "update_job jid f b = Inr c" and "j \<noteq> jid"
  shows "unfinished b j \<Longrightarrow> unfinished c j" and "cp_job_id p \<noteq> jid \<Longrightarrow> agrees b p \<Longrightarrow> agrees c p"
  using update_job_Inr[OF assms(1)] assms(2)
  by (auto simp: unfinished_def agrees_def says_def set_update_where)

lemma calm_other:
  assumes "update_job jid f b = Inr c" and "\<not> about t jid" and "calm b t"
  shows "calm c t"
  using assms(2,3) unfinished_other[OF assms(1)]
  by (cases "(b, t)" rule: calm.cases) (auto simp: about_def)

text \<open>A mild write keeps an unfinished job unfinished and does not change a finished one.\<close>

definition mild :: "broker_job \<Rightarrow> broker_job \<Rightarrow> bool" where
  "mild r r' \<longleftrightarrow> bj_id r' = bj_id r \<and> bj_exit_code r' = bj_exit_code r \<and>
     bj_evidence_handle r' = bj_evidence_handle r \<and>
     (if bj_state r \<in> set FINAL_STATES then bj_state r' = bj_state r \<and> bj_completed_at r' = bj_completed_at r
      else bj_state r' \<notin> set FINAL_STATES)"

lemma mild_refl [simp]: "mild r r"
  by (simp add: mild_def)

lemma mild_write:
  assumes "update_job jid f b = Inr c" and "\<And>r. r \<in> set (bk_jobs b) \<Longrightarrow> bj_id r = jid \<Longrightarrow> mild r (f r)"
  shows "unfinished b j \<Longrightarrow> unfinished c j" and "agrees b p \<Longrightarrow> agrees c p"
    and "rows_blank b \<Longrightarrow> rows_blank c" and "calm b t \<Longrightarrow> calm c t" and "bk_events c = bk_events b"
proof -
  let ?f = "\<lambda>r. if bj_id r = jid then f r else r"
  have rows: "set (bk_jobs c) = ?f ` set (bk_jobs b)"
    using update_job_Inr[OF assms(1)] by (simp add: set_update_where)
  have m: "mild r (?f r)" if "r \<in> set (bk_jobs b)" for r using assms(2) that by simp
  show u: "unfinished b j \<Longrightarrow> unfinished c j" for j
    unfolding unfinished_def rows using m by (fastforce simp: mild_def)
  show a: "agrees b p \<Longrightarrow> agrees c p" for p
  proof -
    assume "agrees b p"
    then obtain r where r: "r \<in> set (bk_jobs b)" "says r p" "coherent p" by (auto simp: agrees_def)
    then have "bj_state r \<in> set FINAL_STATES" using coherent_finished[of p] by (simp add: says_def)
    then have "says (?f r) p" using m[OF r(1)] r(2) unfolding mild_def says_def by metis
    then show "agrees c p" unfolding agrees_def rows using r(1,3) by blast
  qed
  show "rows_blank b \<Longrightarrow> rows_blank c"
    unfolding rows_blank_def rows using m by (fastforce simp: mild_def)
  show "calm b t \<Longrightarrow> calm c t"
    using u a by (cases "(b, t)" rule: calm.cases) auto
  show "bk_events c = bk_events b" using update_job_Inr[OF assms(1)] by simp
qed
lemma harsh_write:
  assumes "update_job jid f b = Inr c" and "log_ok b" and "unfinished b jid"
    and "\<And>r. bj_state (f r) \<in> set FINAL_STATES"
  shows "rows_blank b \<Longrightarrow> rows_blank c" and "agrees b p \<Longrightarrow> agrees c p" and "bk_events c = bk_events b"
proof -
  note c = update_job_Inr[OF assms(1)]
  show "rows_blank b \<Longrightarrow> rows_blank c"
    using c assms(4) by (auto simp: rows_blank_def set_update_where)
  show "bk_events c = bk_events b" using c by simp
  assume a: "agrees b p"
  then have "cp_job_id p \<noteq> jid" using agrees_not_unfinished[OF assms(2)] assms(3) by metis
  then show "agrees c p" using unfinished_other(2)[OF assms(1)] a by blast
qed

lemma write_agrees:
  assumes "update_job jid f b = Inr c" and "coherent p"
    and "\<And>r. r \<in> set (bk_jobs b) \<Longrightarrow> bj_id r = jid \<Longrightarrow> says (f r) p"
  shows "agrees c p"
  using update_job_Inr[OF assms(1)] assms(2,3) update_where_hit[of _ "bk_jobs b" "\<lambda>r. bj_id r = jid" f]
  by (fastforce simp: agrees_def)

lemma calm_known: "calm b t \<Longrightarrow> about t jid \<Longrightarrow> jid \<in> set (map bj_id (bk_jobs b))"
  by (cases "(b, t)" rule: calm.cases) (auto simp: about_def unfinished_def agrees_def says_def image_iff intro: sym)

lemma solo_rest:
  assumes "solo (us @ t # vs)"
  shows "owner t = Some jid \<Longrightarrow> x \<in> set (us @ vs) \<Longrightarrow> owner x \<noteq> Some jid"
    and "owner t = Some jid \<Longrightarrow> \<nexists>bg. t = WorkerStart bg jid \<Longrightarrow> x \<in> set (us @ vs) \<Longrightarrow> queues x \<noteq> Some jid"
proof -
  have "length (filter (\<lambda>t. owner t = Some jid) (us @ t # vs)) \<le> 1" using assms by (simp add: solo_def)
  then show "owner t = Some jid \<Longrightarrow> x \<in> set (us @ vs) \<Longrightarrow> owner x \<noteq> Some jid"
    by (auto simp: filter_empty_conv)
  show "owner t = Some jid \<Longrightarrow> \<nexists>bg. t = WorkerStart bg jid \<Longrightarrow> x \<in> set (us @ vs) \<Longrightarrow> queues x \<noteq> Some jid"
    using assms unfolding solo_def by auto
qed

lemma solo_drop:
  assumes "solo (us @ t # vs)"
  shows "solo (us @ vs)"
proof -
  have "length (filter (\<lambda>t. owner t = Some jid) (us @ vs)) \<le> 1" for jid
    using spec[OF assms[unfolded solo_def], of jid] by (auto split: if_splits)
  then show ?thesis using assms by (auto simp: solo_def)
qed

lemma solo_mset: "mset ts = mset ts' \<Longrightarrow> solo ts \<Longrightarrow> solo ts'"
  unfolding solo_def by (metis mset_filter set_mset_mset size_mset)

lemma solo_add:
  assumes "solo (us @ vs)" and "queues u = None"
    and "\<And>jid x. owner u = Some jid \<Longrightarrow> x \<in> set (us @ vs) \<Longrightarrow> \<not> about x jid"
  shows "solo (us @ u # vs)"
proof -
  have "solo (u # us @ vs)"
    unfolding solo_def
  proof (intro allI conjI ballI impI)
    fix jid
    have old: "length (filter (\<lambda>t. owner t = Some jid) (us @ vs)) \<le> 1" using assms(1) by (simp add: solo_def)
    show "length (filter (\<lambda>t. owner t = Some jid) (u # us @ vs)) \<le> 1"
    proof (cases "owner u = Some jid")
      case True
      then have "filter (\<lambda>t. owner t = Some jid) (us @ vs) = []"
        using assms(3) by (fastforce simp: filter_empty_conv about_def)
      then show ?thesis using True by simp
    qed (use old in simp)
    fix t x
    assume t: "t \<in> set (u # us @ vs)" "queues t = Some jid" and x: "x \<in> set (u # us @ vs)" "owner x = Some jid"
    have "t \<in> set (us @ vs)" using t assms(2) by auto
    moreover have "x \<in> set (us @ vs)"
    proof (rule ccontr)
      assume "x \<notin> set (us @ vs)"
      then have "x = u" using x(1) by auto
      then show False using assms(3)[OF _ \<open>t \<in> set (us @ vs)\<close>] x(2) t(2) by (auto simp: about_def)
    qed
    ultimately show "\<exists>background. x = WorkerStart background jid"
      using assms(1) t(2) x(2) unfolding solo_def by blast
  qed
  then show ?thesis by (rule solo_mset[rotated]) simp
qed

lemma solo_spawned:
  assumes "solo (us @ Spawn jid # vs)"
  shows "solo (us @ [QueueWrite jid pid, WorkerStart True jid] @ vs)"
proof -
  have none: "\<not> about x jid" if "x \<in> set (us @ vs)" for x
    using solo_rest[OF assms] that by (auto simp: about_def)
  have start: "solo (us @ WorkerStart True jid # vs)"
    by (rule solo_add[OF solo_drop[OF assms]]) (use none in auto)
  show ?thesis
    using start none unfolding solo_def about_def by auto
qed
lemma orderly_inv_split:
  "orderly_inv (b, us @ t # vs) \<longleftrightarrow>
     broker_inv (b, us @ t # vs) \<and> rows_blank b \<and> (\<forall>e \<in> set (bk_events b). agrees b (ce_payload e)) \<and>
     calm b t \<and> (\<forall>u \<in> set (us @ vs). calm b u) \<and> solo (us @ t # vs)"
  by (auto simp: orderly_inv_def)

lemma orderly_keep:
  assumes "orderly_inv (b, us @ t # vs)" and "broker_inv (c, us @ k @ vs)"
    and "bk_events c = bk_events b" and "rows_blank b \<Longrightarrow> rows_blank c"
    and "\<And>p. agrees b p \<Longrightarrow> agrees c p" and "\<And>u. u \<in> set (us @ vs) \<Longrightarrow> calm b u \<Longrightarrow> calm c u"
    and "\<forall>u \<in> set k. calm c u" and "solo (us @ k @ vs)"
  shows "orderly_inv (c, us @ k @ vs)"
  using assms by (auto simp: orderly_inv_def)

lemma solo_one:
  assumes "solo (us @ t # vs)" and "queues u = None"
    and "\<And>jid. owner u = Some jid \<Longrightarrow> owner t = Some jid \<and> (\<nexists>bg. t = WorkerStart bg jid)"
  shows "solo (us @ u # vs)"
  using solo_drop[OF assms(1)] assms(2)
proof (rule solo_add)
  show "\<not> about x jid" if "owner u = Some jid" "x \<in> set (us @ vs)" for jid x
    using assms(3)[OF that(1)] solo_rest(1)[OF assms(1) _ that(2)] solo_rest(2)[OF assms(1) _ _ that(2)]
    by (simp add: about_def)
qed

lemma calm_blank: "blank_jobs k \<Longrightarrow> \<forall>u \<in> set (resume k). calm c u"
  by (cases k) auto

lemma says_final:
  "bj_id r = bj_id row \<Longrightarrow>
     says (r\<lparr>bj_state := final_state oc code, bj_completed_at := Some now, bj_exit_code := Some code,
             bj_timed_out := fst oc, bj_cancelled := snd oc, bj_summary := fw_summary fw,
             bj_evidence_handle := fw_evidence_handle fw\<rparr>) (final_payload row now oc code fw)"
  by (simp add: says_def final_payload_def)

lemma coherent_orphan [simp]: "coherent (orphan_payload job now)"
  by (simp add: coherent_def orphan_payload_def)

lemma says_orphan:
  "bj_id r = jr_id job \<Longrightarrow> bj_exit_code r = None \<Longrightarrow> bj_evidence_handle r = jr_evidence_handle job \<Longrightarrow>
     says (r\<lparr>bj_state := ORPHANED, bj_completed_at := Some now,
             bj_error := ''worker or process disappeared''\<rparr>) (orphan_payload job now)"
  by (simp add: says_def orphan_payload_def)

lemma finals [simp]:
  "QUEUED \<notin> set FINAL_STATES" "RUNNING \<notin> set FINAL_STATES" "ACCEPTED \<notin> set FINAL_STATES"
  "ORPHANED \<in> set FINAL_STATES" "FAILED \<in> set FINAL_STATES" "final_state oc code \<in> set FINAL_STATES"
  by (simp_all add: FINAL_STATES_def final_state_def)

text \<open>The writes of a process on the unfinished job it owns.\<close>

lemma orderly_mild:
  assumes inv: "orderly_inv (b, us @ t # vs)" "broker_inv (c, us @ k @ vs)"
    and upd: "update_job jid f b = Inr c"
    and mild: "\<And>r. r \<in> set (bk_jobs b) \<Longrightarrow> bj_id r = jid \<Longrightarrow> mild r (f r)"
    and k: "\<And>u. u \<in> set k \<Longrightarrow> calm b u" and solo: "solo (us @ k @ vs)"
  shows "orderly_inv (c, us @ k @ vs)"
proof (rule orderly_keep[OF inv])
  note w = mild_write[OF upd mild]
  show "bk_events c = bk_events b" by (rule w(5))
  show "rows_blank b \<Longrightarrow> rows_blank c" by (rule w(3))
  show "agrees b p \<Longrightarrow> agrees c p" for p by (rule w(2))
  show "u \<in> set (us @ vs) \<Longrightarrow> calm b u \<Longrightarrow> calm c u" for u by (rule w(4))
  show "\<forall>u \<in> set k. calm c u" using k w(4) by blast
qed (rule solo)

lemma orderly_harsh:
  assumes inv: "orderly_inv (b, us @ t # vs)" "broker_inv (c, us @ k @ vs)"
    and upd: "update_job jid f b = Inr c" and un: "unfinished b jid"
    and fin: "\<And>r. bj_state (f r) \<in> set FINAL_STATES"
    and apart: "\<And>u. u \<in> set (us @ vs) \<Longrightarrow> \<not> about u jid"
    and k: "\<forall>u \<in> set k. calm c u" and solo: "solo (us @ k @ vs)"
  shows "orderly_inv (c, us @ k @ vs)"
proof (rule orderly_keep[OF inv])
  have "log_ok b" using inv(1) by (simp add: orderly_inv_def broker_inv_def)
  note w = harsh_write[OF upd this un fin]
  show "bk_events c = bk_events b" by (rule w(3))
  show "rows_blank b \<Longrightarrow> rows_blank c" by (rule w(1))
  show "agrees b p \<Longrightarrow> agrees c p" for p by (rule w(2))
  show "calm c u" if "u \<in> set (us @ vs)" "calm b u" for u
    using calm_other[OF upd apart[OF that(1)] that(2)] .
qed (use k solo in auto)

lemma orderly_rows:
  assumes inv: "orderly_inv (b, us @ t # vs)" "broker_inv (c, us @ k @ vs)"
    and same: "bk_jobs c = bk_jobs b" and events: "\<forall>e \<in> set (bk_events c). agrees b (ce_payload e)"
    and k: "\<forall>u \<in> set k. calm b u" and solo: "solo (us @ k @ vs)"
  shows "orderly_inv (c, us @ k @ vs)"
proof -
  have u: "unfinished c j = unfinished b j" and a: "agrees c p = agrees b p" for j p
    using same by (simp_all add: unfinished_def agrees_def)
  have calm: "calm c u = calm b u" for u
    by (cases "(b, u)" rule: calm.cases) (simp_all add: u a)
  show ?thesis
    using inv events k solo same by (auto simp: orderly_inv_def rows_blank_def calm a)
qed

lemma orderly_same:
  assumes inv: "orderly_inv (b, us @ t # vs)" "broker_inv (c, us @ k @ vs)"
    and "bk_jobs c = bk_jobs b" "bk_events c = bk_events b"
    and "\<forall>u \<in> set k. calm b u" and "solo (us @ k @ vs)"
  shows "orderly_inv (c, us @ k @ vs)"
  by (rule orderly_rows[OF inv]) (use assms in \<open>auto simp: orderly_inv_def\<close>)

lemma solo_resume: "solo (us @ vs) \<Longrightarrow> solo (us @ resume a @ vs)"
  by (cases a) (auto intro!: solo_add)

lemma orderly_transaction:
  assumes step: "task_step t b c k" and sched: "orderly (b, us @ t # vs) t k"
    and inv: "orderly_inv (b, us @ t # vs)"
  shows "orderly_inv (c, us @ k @ vs)"
proof -
  have inv': "broker_inv (c, us @ k @ vs)"
    using inv broker_step_inv[OF transaction[OF step, of any_order us vs]]
    by (simp add: orderly_inv_def any_order_def)
  have log: "log_ok b" and blank: "rows_blank b" and calm: "calm b t" and solo: "solo (us @ t # vs)"
    using inv by (simp_all add: orderly_inv_split broker_inv_def)
  note drop = solo_drop[OF solo]
  note apart = solo_rest[OF solo]
  show ?thesis
    using step
  proof (cases rule: task_step.cases)
    case (spawned jid pid)
    show ?thesis
      by (rule orderly_same[OF inv inv']) (use spawned calm solo solo_spawned in auto)
  next
    case (queued jid pid)
    have m: "mild r (r\<lparr>bj_state := QUEUED, bj_pid := Some pid\<rparr>)" if "r \<in> set (bk_jobs b)" "bj_id r = jid" for r
      using unfinished_row[OF log _ that] calm queued by (simp add: mild_def)
    show ?thesis
      by (rule orderly_mild[OF inv inv' queued(3)[unfolded queue_write_def] m]) (use queued drop in simp_all)
  next
    case (started jid row pid now bg)
    have "bj_id row = jid" using started(3) find_SomeD by (fastforce simp: job_row_def)
    have free: "\<not> about x jid" if "x \<in> set (us @ vs)" for x
      using apart(1) sched that started by (auto simp: about_def)
    have m: "mild r (r\<lparr>bj_state := RUNNING, bj_pid := Some pid, bj_started_at := Some now\<rparr>)"
      if "r \<in> set (bk_jobs b)" "bj_id r = jid" for r
      using unfinished_row[OF log _ that] calm started by (simp add: mild_def)
    have "solo (us @ k @ vs)"
      unfolding started(2) by (simp, rule solo_add[OF drop]) (use free \<open>bj_id row = jid\<close> in auto)
    then show ?thesis
      by (intro orderly_mild[OF inv inv' started(4)[unfolded running_write_def] m])
        (use started calm \<open>bj_id row = jid\<close> in auto)
  next
    case (start_fails bg jid message)
    have free: "\<not> about x jid" if "x \<in> set (us @ vs)" for x
      using apart(1) sched that start_fails by (auto simp: about_def)
    have "solo (us @ k @ vs)"
      using drop start_fails free by (auto simp: failing.simps intro: solo_add)
    then show ?thesis
      by (intro orderly_same[OF inv inv']) (use start_fails calm in \<open>auto simp: failing.simps\<close>)
  next
    case (beats bg row pid now)
    show ?thesis
      by (rule orderly_same[OF inv inv']) (use beats calm solo in \<open>auto simp: write_heartbeats_def\<close>)
  next
    case (finished oc row now code fw bg)
    have "agrees c (final_payload row now oc code fw)"
      by (rule write_agrees[OF finished(4)[unfolded final_write_def]])
        (use coherent_final[OF finished(3)] says_final in auto)
    moreover have "solo (us @ k @ vs)"
      unfolding finished(2) by (simp, rule solo_one[OF solo]) (use finished in \<open>auto simp: final_payload_def\<close>)
    ultimately show ?thesis
      by (intro orderly_harsh[OF inv inv' finished(4)[unfolded final_write_def]])
        (use finished calm apart in \<open>auto simp: about_def\<close>)
  next
    case (wait_fails bg row message)
    have "solo (us @ k @ vs)"
      using drop wait_fails apart by (auto simp: failing.simps about_def intro!: solo_add)
    then show ?thesis
      by (intro orderly_same[OF inv inv']) (use wait_fails calm in \<open>auto simp: failing.simps\<close>)
  next
    case (failure jid message)
    show ?thesis
      by (rule orderly_harsh[OF inv inv' failure(3)[unfolded failure_write_def]])
        (use failure calm apart drop in \<open>auto simp: about_def\<close>)
  next
    case (marked jid)
    show ?thesis
      by (rule orderly_same[OF inv inv']) (use marked drop in \<open>auto simp: touch_marker_def intro!: solo_add\<close>)
  next
    case (flagged jid)
    show ?thesis
      by (rule orderly_mild[OF inv inv' flagged(3)[unfolded cancel_write_def]])
        (use flagged drop in \<open>auto simp: mild_def\<close>)
  next
    case (alive job jobs)
    show ?thesis
      by (rule orderly_same[OF inv inv']) (use alive calm drop in \<open>auto intro!: solo_add\<close>)
  next
    case (dies)
    show ?thesis
      by (rule orderly_same[OF inv inv']) (use dies drop in auto)
  next
    case (lined p a)
    then show ?thesis
      using calm calm_blank[of a b] drop
      by (intro orderly_same[OF inv inv']) (auto simp: queue_line_def intro!: solo_resume)
  next
    case (line_fails p a message)
    have "k = []" using sched line_fails by (cases a) (auto simp: failing.simps split: if_splits)
    then show ?thesis
      by (intro orderly_same[OF inv inv']) (use line_fails drop in auto)
  next
    case (recorded p a)
    have c: "c = record_completion p b" using record_event_Inr[OF recorded(3)] by simp
    have p: "agrees b p" "blank_jobs a" using calm recorded by simp_all
    have "agrees b (ce_payload e)" if "e \<in> set (bk_events c)" for e
      using that[unfolded c] inv p(1) by (cases rule: record_completion_in) (auto simp: orderly_inv_split)
    then show ?thesis
      by (intro orderly_rows[OF inv inv']) (use recorded p drop c in \<open>auto intro!: solo_add\<close>)
  next
    case (orphaned job now jobs)
    note upd = orphaned(3)[unfolded orphan_write_def]
    have sched': "\<forall>x \<in> set (us @ t # vs). owner x \<noteq> Some (jr_id job) \<and> queues x \<noteq> Some (jr_id job)"
      "\<forall>row \<in> set (bk_jobs b). bj_id row = jr_id job \<longrightarrow> bj_state row \<notin> set FINAL_STATES"
      using sched unfolding orphaned(1,2) by simp_all
    then have free: "\<not> about x (jr_id job)" if "x \<in> set (us @ vs)" for x
      using that by (auto simp: about_def)
    have un: "unfinished b (jr_id job)"
      using update_job_Inr[OF upd] sched'(2) by (auto simp: unfinished_def)
    have "says (r\<lparr>bj_state := ORPHANED, bj_completed_at := Some now,
        bj_error := ''worker or process disappeared''\<rparr>) (orphan_payload job now)"
      if "r \<in> set (bk_jobs b)" "bj_id r = jr_id job" for r
      using blank calm sched'(2) that unfolding orphaned(1) rows_blank_def by (intro says_orphan) auto
    then have "agrees c (orphan_payload job now)"
      by (rule write_agrees[OF upd coherent_orphan])
    moreover have "solo (us @ k @ vs)"
      unfolding orphaned(2) by (simp, rule solo_add[OF drop]) (use free in \<open>auto simp: orphan_payload_def\<close>)
    ultimately show ?thesis
      by (intro orderly_harsh[OF inv inv' upd un]) (use orphaned calm free in auto)
  qed
qed
lemma orderly_new_job:
  assumes inv: "orderly_inv (b, ts)" and new: "new_job sha os_env jid now cwd sub b = (Inr job, c)"
    and inv': "broker_inv (c, ts @ [u])" and u: "u = Spawn (jr_id job) \<or> u = WorkerStart bg (jr_id job)"
  shows "orderly_inv (c, ts @ [u])"
proof -
  have log: "log_ok b" using inv by (simp add: orderly_inv_def broker_inv_def)
  let ?row = "fresh_row sha os_env jid now cwd sub b"
  have c: "bk_jobs c = bk_jobs b @ [?row]" "bk_events c = bk_events b"
    and fresh: "jid \<notin> set (map bj_id (bk_jobs b))" and id: "jr_id job = jid"
    using new_job_Inr[OF new log_okD(1)[OF log]] by auto
  have row: "bj_id ?row = jid" "bj_state ?row = ACCEPTED" "bj_exit_code ?row = None" "bj_evidence_handle ?row = ''''"
    by (simp_all add: fresh_row_def Let_def)
  have un: "unfinished b j \<Longrightarrow> unfinished c j" and agr: "agrees b p \<Longrightarrow> agrees c p" for j p
    by (auto simp: unfinished_def agrees_def c)
  have calm: "calm b t \<Longrightarrow> calm c t" for t
    by (cases "(b, t)" rule: calm.cases) (auto simp: un agr)
  have "unfinished c jid" using row by (auto simp: unfinished_def c)
  then have "calm c u" using u id by auto
  moreover have "solo (ts @ u # [])"
  proof (rule solo_add)
    show "solo (ts @ [])" using inv by (simp add: orderly_inv_def)
    show "queues u = None" using u by auto
    show "\<not> about x j" if "owner u = Some j" "x \<in> set (ts @ [])" for j x
      using that u id fresh calm_known[of b x jid] inv by (auto simp: orderly_inv_def)
  qed
  moreover have "rows_blank c" using inv row by (auto simp: orderly_inv_def rows_blank_def c)
  ultimately show ?thesis
    using inv inv' calm agr by (auto simp: orderly_inv_def c)
qed

lemma list_jobs_blank:
  assumes "rows_blank b" and "j \<in> set (list_jobs [QUEUED, RUNNING] n b)"
  shows "jr_evidence_handle j = ''''"
proof -
  obtain row where "row \<in> set (bk_jobs b)" "bj_state row \<in> {QUEUED, RUNNING}" "j = job_from_row row"
    using assms(2) by (auto simp: list_jobs_def job_rows_def Let_def sql_limit_take dest!: in_set_takeD split: if_splits)
  then show ?thesis using assms(1) by (auto simp: rows_blank_def job_from_row_def)
qed

lemma orderly_step:
  assumes "broker_step orderly w w'" and inv: "orderly_inv w"
  shows "orderly_inv w'"
proof -
  have inv': "broker_inv w'" using assms broker_step_inv by (auto simp: orderly_inv_def)
  show ?thesis
    using assms(1)
  proof (cases rule: broker_step.cases)
    case (call_submit sha os_env jid now cwd sub b job c ts)
    then show ?thesis using orderly_new_job[of b ts] inv inv' by blast
  next
    case (call_run sha os_env jid now cwd sub b job c ts)
    then show ?thesis using orderly_new_job[of b ts] inv inv' by blast
  next
    case (call_cancel jid b job ts)
    then show ?thesis using inv inv' solo_add[of ts "[]" "CancelMark jid"] by (auto simp: orderly_inv_def)
  next
    case (call_recover b ts)
    then show ?thesis
      using inv inv' solo_add[of ts "[]" "Recover (list_jobs [QUEUED, RUNNING] 10000 b)"] list_jobs_blank[of b]
      by (auto simp: orderly_inv_def)
  next
    case (transaction t b c k us vs)
    then show ?thesis using orderly_transaction inv by blast
  qed
qed

lemma orderly_inv_start: "broker_start w \<Longrightarrow> orderly_inv w"
  using broker_inv_start[of w]
  by (auto simp: orderly_inv_def rows_blank_def new_broker_def solo_def elim!: broker_startE)

interpretation orderly_broker: stateful broker_start "broker_step orderly" orderly_inv
  by unfold_locales (auto intro: orderly_inv_start orderly_step)
section \<open>The methods are runs of the system\<close>

abbreviation steps :: "broker_world \<Rightarrow> broker_world \<Rightarrow> bool" where
  "steps \<equiv> (broker_step any_order)\<^sup>*\<^sup>*"

lemma one_task: "task_step t b c k \<Longrightarrow> steps (b, us @ t # vs) (c, us @ k @ vs)"
  by (rule r_into_rtranclp, rule transaction) (simp_all add: any_order_def)

lemma then_task:
  assumes "task_step t b c k" and "steps (c, us @ k @ vs) w"
  shows "steps (b, us @ t # vs) w"
  using one_task[OF assms(1)] assms(2) by (rule rtranclp_trans)

lemma beats_run:
  "steps (b, us @ ChildWait bg row # vs) (write_heartbeats (bj_id row) pid moments b, us @ ChildWait bg row # vs)"
proof (induction moments arbitrary: b)
  case (Cons x xs)
  have split: "write_heartbeats (bj_id row) pid (x # xs) b =
      write_heartbeats (bj_id row) pid xs (write_heartbeats (bj_id row) pid [x] b)"
    by (simp add: write_heartbeats_def)
  show ?case
    unfolding split by (rule then_task[OF beats[where pid = pid and now = x]]) (use Cons.IH in simp)
qed (simp add: write_heartbeats_def)

lemma poll_loop_one: "fst (poll_loop deadline obs) = Some oc \<Longrightarrow> \<not> (fst oc \<and> snd oc)"
  by (induction deadline obs rule: poll_loop.induct) (auto split: if_splits prod.splits)

lemma append_completion_Inr:
  "append_completion p b = Inr d \<Longrightarrow> \<exists>c. record_event p b = Inr c \<and> d = queue_line p c"
  by (cases "record_event p b") (auto simp: append_completion_def)

lemma append_run:
  assumes "append_completion p b = Inr d" and "steps (d, us @ resume a @ vs) w"
  shows "steps (b, us @ RecordEvent p a # vs) w"
proof -
  obtain c where c: "record_event p b = Inr c" "d = queue_line p c"
    using append_completion_Inr[OF assms(1)] by blast
  show ?thesis
    by (rule then_task[OF recorded[OF c(1)]]) (use then_task[OF lined] assms(2) c(2) in simp)
qed

lemma job_row_id: "job_row jid b = Some row \<Longrightarrow> bj_id row = jid"
  unfolding job_row_def by (auto dest: find_SomeD)

lemma execute_startedE:
  assumes "execute jid ex b = (Some res, c)" and "job_row jid b = Some row"
  obtains e where "res = Inl e" "c = b"
  | pid b1 oc moments where "running_write jid pid (ex_started ex) b = Inr b1"
      "poll_loop (ex_started ex + bj_timeout_seconds row) (ex_polls ex) = (Some oc, moments)"
      "conclude row ex oc (write_heartbeats jid pid moments b1) = (res, c)"
proof (cases "ex_spawn ex")
  case (Inl e)
  then show ?thesis using assms that(1) by (auto simp: execute_def)
next
  case (Inr pid)
  show ?thesis
  proof (cases "running_write jid pid (ex_started ex) b")
    case (Inl e)
    then show ?thesis using assms \<open>ex_spawn ex = Inr pid\<close> that(1) by (auto simp: execute_def)
  next
    case w: (Inr b1)
    obtain o1 moments where p: "poll_loop (ex_started ex + bj_timeout_seconds row) (ex_polls ex) = (o1, moments)"
      by fastforce
    obtain oc where "o1 = Some oc" "conclude row ex oc (write_heartbeats jid pid moments b1) = (res, c)"
      using assms Inr w p by (cases o1) (auto simp: execute_def apfst_def map_prod_def split: prod.splits)
    then show ?thesis using that(2) w p by blast
  qed
qed

lemma concludeE:
  assumes "conclude row ex oc b = (res, d)"
  obtains e where "res = Inl e" "d = b"
  | e code fw c where "final_write (bj_id row) (ex_completed ex) oc code fw b = Inr c"
      "append_completion (final_payload row (ex_completed ex) oc code fw) c = Inl e" "res = Inl e" "d = c"
  | code fw c where "final_write (bj_id row) (ex_completed ex) oc code fw b = Inr c"
      "append_completion (final_payload row (ex_completed ex) oc code fw) c = Inr d"
      "res = Inr (result_of row ex oc code fw)"
proof -
  define both where "both = bindE (reap (ex_first_wait ex) (ex_second_wait ex)) (\<lambda>code.
             bindE (ex_firewall ex) (\<lambda>fw. Inr (code, fw)))"
  show ?thesis
  proof (cases both)
    case (Inl e)
    then show ?thesis using assms that(1) by (auto simp: conclude_def both_def)
  next
    case (Inr cf)
    obtain code fw where cf: "cf = (code, fw)" by fastforce
    show ?thesis
    proof (cases "final_write (bj_id row) (ex_completed ex) oc code fw b")
      case (Inl e)
      then show ?thesis using assms Inr cf that(1) by (auto simp: conclude_def both_def)
    next
      case w: (Inr c)
      then show ?thesis
        using assms Inr cf that(2)[OF w] that(3)[OF w]
        by (cases "append_completion (final_payload row (ex_completed ex) oc code fw) c")
          (auto simp: conclude_def both_def)
    qed
  qed
qed

lemma append_known:
  assumes "final_write (bj_id row) now oc code fw b = Inr c"
  shows "append_completion (final_payload row now oc code fw) c \<noteq> Inl e"
proof -
  have "cp_job_id (final_payload row now oc code fw) \<in> set (map bj_id (bk_jobs c))"
    using final_write_row[OF assms] by (simp add: final_payload_def)
  then show ?thesis by (simp add: append_completion_def record_event_def)
qed

lemma execute_run:
  assumes "execute jid ex b = (Some (Inr r), c)" and row: "job_row jid b = Some row"
  shows "steps (b, us @ WorkerStart bg jid # vs) (c, us @ vs)"
  using assms
proof (cases rule: execute_startedE)
  case (2 pid b1 oc moments)
  note id = job_row_id[OF row]
  have "\<not> (fst oc \<and> snd oc)" using poll_loop_one[of _ "ex_polls ex" oc] 2(2) by (metis fst_conv)
  from 2(3) have "steps (write_heartbeats jid pid moments b1, us @ ChildWait bg row # vs) (c, us @ vs)"
  proof (cases rule: concludeE)
    case (3 code fw b2)
    show ?thesis
      by (rule then_task[OF finished[OF \<open>\<not> (fst oc \<and> snd oc)\<close> 3(1)]]) (use append_run[OF 3(2)] in simp)
  qed simp_all
  then have "steps (b1, us @ ChildWait bg row # vs) (c, us @ vs)"
    using beats_run[of b1 us bg row vs pid moments] id by simp
  then show ?thesis by (intro then_task[OF started[OF row 2(1)]]) simp
qed simp

lemma execute_error_run:
  assumes "execute jid ex b = (Some (Inl e), c)" and row: "job_row jid b = Some row"
  shows "steps (b, us @ WorkerStart True jid # vs) (c, us @ WorkerFailure jid message # vs)"
  using assms
proof (cases rule: execute_startedE)
  case (1 e)
  then show ?thesis using one_task[OF start_fails[of True jid b message], where us = us and vs = vs] by (simp add: failing.simps)
next
  case (2 pid b1 oc moments)
  note id = job_row_id[OF row]
  from 2(3) have "c = write_heartbeats jid pid moments b1"
  proof (cases rule: concludeE)
    case (2 e code fw b2)
    then show ?thesis using append_known by blast
  qed simp_all
  moreover have "steps (write_heartbeats jid pid moments b1, us @ ChildWait True row # vs)
      (write_heartbeats jid pid moments b1, us @ WorkerFailure jid message # vs)"
    using one_task[OF wait_fails[of True row _ message], where us = us and vs = vs] id by (simp add: failing.simps)
  moreover have "steps (b1, us @ ChildWait True row # vs) (write_heartbeats jid pid moments b1, us @ ChildWait True row # vs)"
    using beats_run[of b1 us True row vs pid moments] id by simp
  ultimately have "steps (b1, us @ ChildWait True row # vs) (c, us @ WorkerFailure jid message # vs)"
    by (metis rtranclp_trans)
  then show ?thesis by (intro then_task[OF started[OF row 2(1)]]) simp
qed

lemma worker_main_run:
  assumes "worker_main jid ex b = (Some (Inr code), c)" and "job_row jid b = Some row"
  shows "steps (b, us @ WorkerStart True jid # vs) (c, us @ vs)"
proof -
  obtain res d where ex: "execute jid ex b = (res, d)" by fastforce
  consider (ok) r where "res = Some (Inr r)" | (bad) e where "res = Some (Inl e)" | (none) "res = None"
    by (cases res) (auto, metis old.sum.exhaust)
  then show ?thesis
  proof cases
    case ok
    then show ?thesis using assms ex execute_run[of jid ex b _ d] by (auto simp: worker_main_def)
  next
    case (bad e)
    let ?m = "''worker failure: '' @ error_text e"
    have "steps (b, us @ WorkerStart True jid # vs) (d, us @ WorkerFailure jid ?m # vs)"
      using ex bad execute_error_run assms(2) by blast
    moreover have "steps (d, us @ WorkerFailure jid ?m # vs) (c, us @ vs)"
      using one_task[OF failure[of jid ?m d c], where us = us and vs = vs] assms ex bad
      by (auto simp: worker_main_def split: sum.splits)
    ultimately show ?thesis by (rule rtranclp_trans)
  next
    case none
    then show ?thesis using assms ex by (simp add: worker_main_def)
  qed
qed

lemma cancel_run:
  assumes "cancel jid b = (Inr job, c)"
  shows "steps (b, ts) (c, ts)"
proof -
  obtain seen where seen: "show_job jid b = Inr seen"
    using assms by (auto simp: cancel_def split: sum.splits)
  show ?thesis
  proof (cases "jr_state seen \<in> set FINAL_STATES")
    case True
    then show ?thesis using assms seen by (simp add: cancel_def)
  next
    case False
    then have w: "cancel_write jid (touch_marker jid b) = Inr c"
      using assms seen by (auto simp: cancel_def Let_def split: sum.splits)
    have "steps (b, ts @ CancelMark jid # []) (c, ts)"
      by (rule then_task[OF marked]) (use one_task[OF flagged[OF w], where us = ts and vs = "[]"] in simp)
    then show ?thesis
      using call_cancel[OF seen False, of any_order ts] by (rule converse_rtranclp_into_rtranclp[rotated])
  qed
qed

lemma recover_list_run:
  assumes "recover_list alive clk jobs b = (Inr shown, c)"
  shows "steps (b, us @ Recover jobs # vs) (c, us @ vs)"
  using assms
proof (induction jobs arbitrary: b shown)
  case Nil
  then show ?case using one_task[OF dies[where t = "Recover []" and b = b], where us = us and vs = vs] by simp
next
  case (Cons job jobs)
  show ?case
  proof (cases "lost alive job")
    case False
    then show ?thesis using Cons by (intro then_task[OF task_step.alive]) simp
  next
    case True
    obtain d where w: "orphan_write (jr_id job) (clk (jr_id job)) b = Inr d"
      using Cons.prems True by (auto split: sum.splits)
    obtain f where app: "append_completion (orphan_payload job (clk (jr_id job))) d = Inr f"
      using Cons.prems True w by (auto split: sum.splits)
    have "\<exists>later. recover_list alive clk jobs f = (Inr later, c)"
      using Cons.prems True w app by (auto split: sum.splits prod.splits)
    then have "steps (f, us @ Recover jobs # vs) (c, us @ vs)" using Cons.IH by blast
    then have "steps (d, us @ RecordEvent (orphan_payload job (clk (jr_id job))) (RecoverOn jobs) # vs) (c, us @ vs)"
      by (intro append_run[OF app]) simp
    then show ?thesis by (intro then_task[OF orphaned[OF w]]) simp
  qed
qed

lemma recover_run:
  assumes "recover alive clk b = (Inr shown, c)"
  shows "steps (b, ts) (c, ts)"
  using call_recover[of any_order b ts] recover_list_run[OF assms[unfolded recover_def], of ts "[]"]
  by (simp add: converse_rtranclp_into_rtranclp)

lemma submit_run:
  assumes "submit sha os_env (Inr path) jid now (Inr pid) sub b = (Inr job, c)"
  shows "steps (b, ts) (c, ts @ [WorkerStart True (jr_id job)])"
proof -
  obtain first d where new: "new_job sha os_env jid now path sub b = (Inr first, d)"
    using assms by (auto simp: submit_def split: sum.splits prod.splits)
  have q: "queue_write (jr_id first) pid d = Inr c" "show_job (jr_id first) c = Inr job"
    using assms new by (auto simp: submit_def split: sum.splits)
  have "jr_id job = jr_id first"
    using q(2) by (auto simp: show_job_def job_from_row_def dest!: job_row_id split: option.splits)
  then have "steps (d, ts @ [Spawn (jr_id first)]) (c, ts @ [WorkerStart True (jr_id job)])"
    using then_task[OF spawned[of "jr_id first" d pid], where us = ts and vs = "[]"] one_task[OF queued[OF q(1)], where us = ts and vs = "[WorkerStart True (jr_id first)]"]
    by simp
  then show ?thesis
    using call_submit[OF new, of any_order ts] by (rule converse_rtranclp_into_rtranclp[rotated])
qed
section \<open>Examples\<close>

definition demo_submission :: submission where
  "demo_submission = \<lparr>sb_argv = [''x''], sb_timeout = 5, sb_repository_tree = ''t'', sb_env = None\<rparr>"

definition demo_firewall :: firewall where
  "demo_firewall = \<lparr>fw_summary = ''s'', fw_evidence_handle = ''e'', fw_scanned = 0, fw_dropped = 0\<rparr>"

definition demo_execution :: execution where
  "demo_execution =
     \<lparr>ex_started = 2, ex_spawn = Inr 9,
      ex_polls = [\<lparr>ob_exited = False, ob_now = 2, ob_marked = False\<rparr>, \<lparr>ob_exited = True, ob_now = 3, ob_marked = False\<rparr>],
      ex_first_wait = Some 0, ex_second_wait = None, ex_completed = 3, ex_firewall = Inr demo_firewall,
      ex_stdout_bytes = 0, ex_stderr_bytes = 0\<rparr>"

definition demo_empty :: broker where
  "demo_empty = new_broker ''r'' ''p''"

definition demo_accepted :: broker where
  "demo_accepted = snd (new_job (\<lambda>_. ''h'') [] ''j'' 1 ''w'' demo_submission demo_empty)"

definition demo_submitted :: broker where
  "demo_submitted = snd (submit (\<lambda>_. ''h'') [] (Inr ''w'') ''j'' 1 (Inr 8) demo_submission demo_empty)"

definition demo_worked :: broker where
  "demo_worked = snd (worker_main ''j'' demo_execution demo_submitted)"

lemma demo_accepted_ok:
  "\<exists>job. new_job (\<lambda>_. ''h'') [] ''j'' 1 ''w'' demo_submission demo_empty = (Inr job, demo_accepted) \<and> jr_id job = ''j''"
proof -
  have "isl (fst (new_job (\<lambda>_. ''h'') [] ''j'' 1 ''w'' demo_submission demo_empty)) = False" by code_simp
  then obtain job where "new_job (\<lambda>_. ''h'') [] ''j'' 1 ''w'' demo_submission demo_empty = (Inr job, demo_accepted)"
    unfolding demo_accepted_def by (metis not_islE prod.collapse)
  moreover from this have "jr_id job = ''j''"
    by (rule new_job_Inr(2)) (simp add: demo_empty_def new_broker_def)
  ultimately show ?thesis by blast
qed

lemma demo_submitted_ok:
  "queue_write ''j'' 8 demo_accepted = Inr demo_submitted"
  by code_simp

lemma demo_row: "job_row ''j'' demo_submitted \<noteq> None"
  by code_simp

lemma demo_worked_ok: "worker_main ''j'' demo_execution demo_submitted = (Some (Inr 0), demo_worked)"
  by code_simp
lemma demo_started: "broker_start (demo_empty, [])"
  by (simp add: broker_start_def demo_empty_def new_broker_def)

lemma demo_accepted_steps: "reaches broker_start (broker_step sched) (demo_accepted, [Spawn ''j''])"
proof -
  obtain job where new: "new_job (\<lambda>_. ''h'') [] ''j'' 1 ''w'' demo_submission demo_empty = (Inr job, demo_accepted)"
    and id: "jr_id job = ''j''" using demo_accepted_ok by blast
  have "broker_step sched (demo_empty, []) (demo_accepted, [Spawn ''j''])"
    using call_submit[OF new, of sched "[]"] id by simp
  then show ?thesis by (rule reach_step[OF reach_init[where init = broker_start, OF demo_started]])
qed

lemma demo_submitted_steps: "reaches broker_start (broker_step any_order) (demo_submitted, [WorkerStart True ''j''])"
proof -
  note a = demo_accepted_steps[of any_order]
  have "steps (demo_accepted, [] @ Spawn ''j'' # []) (demo_submitted, [] @ [WorkerStart True ''j''] @ [])"
    using then_task[OF spawned[of "''j''" demo_accepted 8], where us = "[]" and vs = "[]"]
      one_task[OF queued[OF demo_submitted_ok], where us = "[]" and vs = "[WorkerStart True ''j'']"] by simp
  then show ?thesis using broker.reachable_steps[OF a] by simp
qed

lemma demo_worked_reached: "reaches broker_start (broker_step any_order) (demo_worked, [])"
proof -
  obtain row where row: "job_row ''j'' demo_submitted = Some row" using demo_row by blast
  show ?thesis
    by (rule broker.reachable_steps[OF demo_submitted_steps])
      (use worker_main_run[OF demo_worked_ok row, of "[]" "[]"] in simp)
qed

lemma orderly_task:
  "reaches broker_start (broker_step orderly) (b, t # ts) \<Longrightarrow> task_step t b c k \<Longrightarrow> orderly (b, t # ts) t k \<Longrightarrow>
     reaches broker_start (broker_step orderly) (c, k @ ts)"
  using transaction[of t b c k orderly "[]" ts] by (auto intro: reach_step)

text \<open>The same job under the orderly schedule, up to its event.\<close>

definition demo_running :: broker where
  "demo_running = projr (running_write ''j'' 9 2 demo_submitted)"

definition demo_final :: broker where
  "demo_final = projr (final_write ''j'' 3 (False, False) 0 demo_firewall demo_running)"

definition demo_payload :: completion_payload where
  "demo_payload = final_payload (the (job_row ''j'' demo_submitted)) 3 (False, False) 0 demo_firewall"

definition demo_logged :: broker where
  "demo_logged = projr (record_event demo_payload demo_final)"

lemma demo_writes:
  "running_write ''j'' 9 2 demo_submitted = Inr demo_running"
  "final_write ''j'' 3 (False, False) 0 demo_firewall demo_running = Inr demo_final"
  "record_event demo_payload demo_final = Inr demo_logged"
  by code_simp+

lemma demo_orderly: "reaches broker_start (broker_step orderly) (demo_logged, [QueueLine demo_payload (WorkerEnds True)])"
proof -
  obtain row where row: "job_row ''j'' demo_submitted = Some row" using demo_row by blast
  note rid = job_row_id[OF row]
  have "reaches broker_start (broker_step orderly) (demo_accepted, [Spawn ''j''])"
    by (rule demo_accepted_steps)
  then have "reaches broker_start (broker_step orderly) (demo_accepted, [QueueWrite ''j'' 8, WorkerStart True ''j''])"
    using orderly_task[OF _ spawned[of "''j''" demo_accepted 8]] by simp
  then have "reaches broker_start (broker_step orderly) (demo_submitted, [WorkerStart True ''j''])"
    using orderly_task[OF _ queued[OF demo_submitted_ok]] by simp
  then have "reaches broker_start (broker_step orderly) (demo_running, [ChildWait True row])"
    using orderly_task[OF _ started[OF row demo_writes(1)]] by simp
  then have "reaches broker_start (broker_step orderly) (demo_final, [RecordEvent demo_payload (WorkerEnds True)])"
    using orderly_task[OF _ finished[of "(False, False)" row 3 0 demo_firewall demo_running demo_final True]] demo_writes(2) rid row
    by (simp add: demo_payload_def)
  then show ?thesis using orderly_task[OF _ recorded[OF demo_writes(3)]] by simp
qed

lemma find_unique:
  "distinct (map f xs) \<Longrightarrow> x \<in> set xs \<Longrightarrow> f x = k \<Longrightarrow> find (\<lambda>y. f y = k) xs = Some x"
  by (induction xs) auto

lemma event_of_fields:
  "ce_state (event_of n p) = cp_state p" "ce_exit_code (event_of n p) = cp_exit_code p"
  "ce_completed_at (event_of n p) = cp_completed_at p" "ce_evidence_handle (event_of n p) = cp_evidence_handle p"
  by (simp_all add: event_of_def)

lemma poll_loop_take:
  "fst (poll_loop deadline (take m obs)) \<noteq> None \<Longrightarrow>
     poll_loop deadline obs = poll_loop deadline (take m obs) \<and> length (snd (poll_loop deadline obs)) \<le> m"
proof (induction obs arbitrary: m)
  case (Cons ob obs)
  then obtain l where "m = Suc l" by (cases m) auto
  then show ?case using Cons.prems Cons.IH[of l] by (auto split: prod.splits if_splits)
qed simp

lemma slept_take: "slept interval deadline ts obs \<Longrightarrow> slept interval deadline (take m ts) (take m obs)"
proof (induction interval deadline ts obs arbitrary: m rule: slept.induct)
  case (1 interval deadline s t ts x y obs)
  show ?case using "1.prems" "1.IH"[of "m - 1"] by (cases m; cases "m - 1") auto
qed (auto simp: take_Cons' neq_Nil_conv)

section \<open>Properties\<close>

text \<open>
  C17. Under every interleaving of clients, workers, cancellations, recoveries and crashes the
  completion log is sound: the sequence numbers ascend within the counter, each job has one event, every
  event belongs to a job whose completion time is written and tells an exit code that fits its state, and
  whatever is in the queue file has an event.
\<close>

theorem completion_log_sound:
  assumes "reaches broker_start (broker_step sched) (b, ts)"
  shows "sorted_wrt (<) (map ce_sequence (bk_events b)) \<and> distinct (map ce_job_id (bk_events b)) \<and>
    (\<forall>e \<in> set (bk_events b). ce_sequence e \<le> bk_sequence b \<and> coherent (ce_payload e) \<and>
       e = event_of (ce_sequence e) (ce_payload e) \<and>
       (\<exists>row \<in> set (bk_jobs b). bj_id row = ce_job_id e \<and> bj_completed_at row \<noteq> None)) \<and>
    set (map cp_job_id (bk_queue b)) \<subseteq> set (map ce_job_id (bk_events b))"
proof -
  have log: "log_ok b" using broker.reachable_inv[OF assms] by (simp add: broker_inv_def)
  have ev: "ce_sequence e \<le> bk_sequence b \<and> coherent (ce_payload e) \<and> e = event_of (ce_sequence e) (ce_payload e) \<and>
      (\<exists>row \<in> set (bk_jobs b). bj_id row = ce_job_id e \<and> bj_completed_at row \<noteq> None)"
    if "e \<in> set (bk_events b)" for e
    using that log unfolding log_ok_def reported_def by (metis event_of_simps(2))
  have "set (map cp_job_id (bk_queue b)) \<subseteq> set (map ce_job_id (bk_events b))"
    using log by (auto simp: log_ok_def)
  then show ?thesis using log_okD(4,5)[OF log] ev by blast
qed

theorem completion_log_sound_witness:
  "map ce_job_id (bk_events demo_worked) = [''j''] \<and> sorted_wrt (<) (map ce_sequence (bk_events demo_worked))"
proof -
  have "map ce_job_id (bk_events demo_worked) = [''j'']" by code_simp
  then show ?thesis using completion_log_sound[OF demo_worked_reached] by simp
qed

text \<open>
  C36. A consumer that hands each cursor to the next call gets every event after its first cursor exactly
  once and in order, whatever the page size, and has them all when it gets an empty page.
\<close>

theorem drained_exactly_once:
  assumes "reaches broker_start (broker_step sched) (b, ts)" and "length (bk_events b) \<le> n"
  shows "concat (drain_pages n limit cursor b) =
    map completion_of (filter (\<lambda>e. max 0 cursor < ce_sequence e) (bk_events b))"
proof (rule drain_pages_all)
  show "log_ok b" using broker.reachable_inv[OF assms(1)] by (simp add: broker_inv_def)
  show "length (filter (\<lambda>e. max 0 cursor < ce_sequence e) (bk_events b)) \<le> n"
    using assms(2) le_trans length_filter_le by blast
qed

theorem drained_exactly_once_witness:
  "map ev_job (concat (drain_pages 1 0 (- 5) demo_worked)) = [''j'']"
proof -
  have "length (bk_events demo_worked) \<le> 1" and "map ce_sequence (bk_events demo_worked) = [1]"
    and "map ce_job_id (bk_events demo_worked) = [''j'']" by code_simp+
  then show ?thesis
    using drained_exactly_once[OF demo_worked_reached, of 1 0 "- 5"] by (auto simp: completion_of_def Cons_eq_map_conv)
qed

text \<open>
  C40. The loop that waits for a command ends by itself as long as the wall clock, on which the timeout is
  measured, is set back by a bounded amount only: with any heartbeat interval a broker can have it has left
  after twenty passes for each second of the timeout and of the set back together, and one more, and has
  written no more heartbeats than these.  Without such a bound on the clock it may go on for ever.
\<close>

theorem polling_ends:
  assumes "0 < timeout" and "0 \<le> lag" and "slept (max (1 / 10) interval) (began + timeout) ts obs"
    and "set_back_at_most lag began ts obs" and "20 * (timeout + lag) + 1 \<le> of_nat (length obs)"
  shows "fst (poll_loop (began + timeout) obs) \<noteq> None \<and>
    of_nat (length (snd (poll_loop (began + timeout) obs))) \<le> 20 * (timeout + lag) + 2"
proof -
  define m where "m = nat \<lceil>20 * (timeout + lag)\<rceil> + 1"
  have pos: "0 < 20 * (timeout + lag)" using assms(1,2) by simp
  then have m: "20 * (timeout + lag) + 1 \<le> of_nat m" "of_nat m \<le> 20 * (timeout + lag) + 2"
    by (simp_all add: m_def of_nat_nat) linarith+
  have "m \<le> length obs"
    using pos assms(5) unfolding m_def by (simp add: Suc_le_eq) linarith
  moreover have lens: "length ts = length obs"
    using assms(4) by (simp add: set_back_at_most_def list_all2_lengthD)
  ultimately have len: "length (take m obs) = m" "take m obs \<noteq> []" "hd (take m ts) = hd ts" by (auto simp: m_def)
  have "fst (poll_loop (began + timeout) (take m obs)) \<noteq> None"
  proof (rule poll_loop_leaves)
    show "slept (max (1 / 10) interval) (began + timeout) (take m ts) (take m obs)" using assms(3) by (rule slept_take)
    have "list_all2 (\<lambda>t ob. t + (began - hd ts - lag) \<le> ob_now ob) ts obs"
      using assms(4) unfolding set_back_at_most_def by (rule list_all2_mono) simp
    then show "list_all2 (\<lambda>t ob. t + (began - hd ts - lag) \<le> ob_now ob) (take m ts) (take m obs)"
      by (rule list_all2_takeI)
    show "began + timeout \<le> hd (take m ts) + (began - hd ts - lag) + of_nat (length (take m obs) - 1) / 20"
      using m(1) unfolding len(1,3) by (simp add: m_def of_nat_diff)
  qed (use len in auto)
  from poll_loop_take[OF this] this show ?thesis using m(2) by (metis of_nat_le_iff order_trans)
qed

text \<open>The clock is set back by a tenth of a second between the first two passes.\<close>

theorem polling_ends_witness:
  "fst (poll_loop (0 + 1 / 10) (map (\<lambda>n. \<lparr>ob_exited = False, ob_now = n / 10, ob_marked = False\<rparr>) [0, 0, 1, 2, 3])) \<noteq> None"
proof (rule polling_ends[where interval = 5 and lag = "1 / 10" and ts = "[0, 1 / 10, 2 / 10, 3 / 10, 4 / 10]", THEN conjunct1])
  show "slept (max (1 / 10) 5) (0 + 1 / 10) [0, 1 / 10, 2 / 10, 3 / 10, 4 / 10]
      (map (\<lambda>n. \<lparr>ob_exited = False, ob_now = n / 10, ob_marked = False\<rparr>) [0, 0, 1, 2, 3])"
    by (simp add: poll_delay_def)
  show "set_back_at_most (1 / 10) 0 [0, 1 / 10, 2 / 10, 3 / 10, 4 / 10]
      (map (\<lambda>n. \<lparr>ob_exited = False, ob_now = n / 10, ob_marked = False\<rparr>) [0, 0, 1, 2, 3])"
    by (simp add: set_back_at_most_def)
qed simp_all

text \<open>
  C23. Where a worker starts after its job was queued, recovery marks only unfinished jobs with no process
  left and the queue file can be written, the row of every job with an event says what the event says:
  state, exit code, completion time and evidence.
\<close>

theorem rows_match_events:
  assumes "reaches broker_start (broker_step orderly) (b, ts)" and "e \<in> set (bk_events b)"
  shows "\<exists>row. job_row (ce_job_id e) b = Some row \<and> bj_state row = ce_state e \<and>
    bj_exit_code row = ce_exit_code e \<and> bj_completed_at row = Some (ce_completed_at e) \<and>
    bj_evidence_handle row = ce_evidence_handle e"
proof -
  have inv: "orderly_inv (b, ts)" by (rule orderly_broker.reachable_inv[OF assms(1)])
  have log: "log_ok b" and ag: "agrees b (ce_payload e)"
    using inv assms(2) by (auto simp: orderly_inv_def broker_inv_def)
  have e: "e = event_of (ce_sequence e) (ce_payload e)" using log assms(2) by (auto simp: log_ok_def)
  obtain row where row: "row \<in> set (bk_jobs b)" "says row (ce_payload e)" using ag by (auto simp: agrees_def)
  have "bj_id row = ce_job_id e" using row(2) e by (metis says_def event_of_simps(2))
  then have "job_row (ce_job_id e) b = Some row"
    unfolding job_row_def using row(1) log_okD(2)[OF log] by (metis find_unique)
  then show ?thesis using row(2) e unfolding says_def by (metis event_of_fields)
qed

theorem rows_match_events_witness:
  "map_option bj_state (job_row ''j'' demo_logged) = Some COMPLETED"
proof -
  have "map ce_job_id (bk_events demo_logged) = [''j'']" "map ce_state (bk_events demo_logged) = [COMPLETED]"
    by code_simp+
  then show ?thesis
    using rows_match_events[OF demo_orderly, of "hd (bk_events demo_logged)"] by (cases "bk_events demo_logged") auto
qed

section \<open>Where the broker falls short\<close>

text \<open>
  The timeout is measured with \<open>time.time()\<close>: while the clock stands or is set back again and again, the
  loop waits on, however often it has slept its twentieth of a second.
\<close>

lemma clock_set_back_waits_on:
  assumes "now < deadline"
  shows "fst (poll_loop deadline (replicate n \<lparr>ob_exited = False, ob_now = now, ob_marked = False\<rparr>)) = None"
  using assms by (induction n) (simp_all add: case_prod_beta)

text \<open>
  \<open>submit\<close> writes \<open>QUEUED\<close> after it has started the worker: when the worker is faster, the row of a
  job that has completed goes back to \<open>QUEUED\<close>.  Recovery then calls it orphaned and overwrites its
  event, and a consumer that has seen the first event is not told, since the row keeps its number.
\<close>

definition late_broker :: broker where
  "late_broker = projr (queue_write ''j'' 8 (snd (worker_main ''j'' demo_execution demo_accepted)))"

lemma late_queue_write:
  "reaches broker_start (broker_step any_order) (late_broker, []) \<and>
   map bj_state (bk_jobs late_broker) = [QUEUED] \<and> map ce_state (bk_events late_broker) = [COMPLETED] \<and>
   (let after_recovery = snd (recover (\<lambda>_. False) (\<lambda>_. 9) late_broker)
    in map ce_state (bk_events after_recovery) = [ORPHANED] \<and>
       drain_completions (fst (drain_completions 0 10 late_broker)) 10 after_recovery = (1, []))"
proof (intro conjI)
  let ?w = "snd (worker_main ''j'' demo_execution demo_accepted)"
  have "job_row ''j'' demo_accepted \<noteq> None" by code_simp
  then obtain row where row: "job_row ''j'' demo_accepted = Some row" by blast
  have work: "worker_main ''j'' demo_execution demo_accepted = (Some (Inr 0), ?w)" by code_simp
  have q: "queue_write ''j'' 8 ?w = Inr late_broker" by code_simp
  have "steps (demo_accepted, [] @ Spawn ''j'' # []) (demo_accepted, [] @ [QueueWrite ''j'' 8, WorkerStart True ''j''] @ [])"
    by (rule one_task) (rule spawned)
  moreover have "steps (demo_accepted, [QueueWrite ''j'' 8] @ WorkerStart True ''j'' # []) (?w, [QueueWrite ''j'' 8] @ [])"
    using worker_main_run[OF work row] .
  moreover have "steps (?w, [] @ QueueWrite ''j'' 8 # []) (late_broker, [] @ [] @ [])"
    by (rule one_task) (rule queued[OF q])
  ultimately have "steps (demo_accepted, [Spawn ''j'']) (late_broker, [])" by (auto intro: rtranclp_trans)
  then show "reaches broker_start (broker_step any_order) (late_broker, [])"
    by (rule broker.reachable_steps[OF demo_accepted_steps])
  show "map bj_state (bk_jobs late_broker) = [QUEUED]" by code_simp
  show "map ce_state (bk_events late_broker) = [COMPLETED]" by code_simp
  show "let after_recovery = snd (recover (\<lambda>_. False) (\<lambda>_. 9) late_broker)
    in map ce_state (bk_events after_recovery) = [ORPHANED] \<and>
       drain_completions (fst (drain_completions 0 10 late_broker)) 10 after_recovery = (1, [])" by code_simp
qed

text \<open>
  A command that cannot be started ends as \<open>FAILED\<close>, with neither a completion time nor an event: who
  waits for the completion of the job waits for ever, and recovery does not look at final rows.
\<close>

definition demo_missing :: execution where
  "demo_missing = demo_execution\<lparr>ex_spawn := Inl (Raised ''FileNotFoundError'' ''x'')\<rparr>"

lemma failed_start_not_reported:
  "let b = snd (worker_main ''j'' demo_missing demo_submitted)
   in map bj_state (bk_jobs b) = [FAILED] \<and> map bj_completed_at (bk_jobs b) = [None] \<and> bk_events b = [] \<and>
      recover (\<lambda>_. False) (\<lambda>_. 9) b = (Inr [], b)"
  by code_simp

text \<open>The same command under \<open>run\<close> stays \<open>ACCEPTED\<close>, which recovery does not list either.\<close>

lemma failed_run_stays_accepted:
  "let b = snd (run (\<lambda>_. ''h'') [] (Inr ''w'') ''j'' 1 demo_submission demo_missing demo_empty)
   in map bj_state (bk_jobs b) = [ACCEPTED] \<and> bk_events b = [] \<and> recover (\<lambda>_. False) (\<lambda>_. 9) b = (Inr [], b)"
  by code_simp

text \<open>
  \<open>submit\<close> with extra variables hashes only these, although the worker runs under the environment of
  the process with them laid over it, which is what \<open>run\<close> hashes.
\<close>

lemma submit_hashes_overrides:
  "environment_hash sha [(''PATH'', p)] (Some [(''X'', v)]) = environment_hash sha [] None \<and>
   environment_hash sha [(''PATH'', p)] (Some (effective_env [(''PATH'', p)] (Some [(''X'', v)]))) =
     environment_hash sha [(''PATH'', p)] None"
  by (simp add: environment_hash_def effective_env_def hashed_names_def)

text \<open>
  \<open>cancel\<close> touches the marker and terminates the child; the loop of the worker looks at the child before
  it looks at the marker.  A child that dies of the signal is therefore a failure, and the final write
  takes back the flag that \<open>cancel\<close> has set.
\<close>

lemma cancelled_reported_as_failed:
  "poll_loop deadline (\<lparr>ob_exited = True, ob_now = now, ob_marked = True\<rparr> # obs) = (Some (False, False), []) \<and>
   (let b = snd (cancel ''j'' demo_running);
        c = projr (final_write ''j'' 3 (False, False) (- 15) demo_firewall b)
    in bk_markers b = [''j''] \<and> map bj_cancelled (bk_jobs b) = [True] \<and>
       map (\<lambda>r. (bj_state r, bj_cancelled r)) (bk_jobs c) = [(FAILED, False)])"
proof (intro conjI)
  show "let b = snd (cancel ''j'' demo_running);
        c = projr (final_write ''j'' 3 (False, False) (- 15) demo_firewall b)
    in bk_markers b = [''j''] \<and> map bj_cancelled (bk_jobs b) = [True] \<and>
       map (\<lambda>r. (bj_state r, bj_cancelled r)) (bk_jobs c) = [(FAILED, False)]" by code_simp
qed simp

end
