(* ===== verification/Spec2Isabelle.thy ===== *)
theory Spec2Isabelle
  imports JobScheduler ContextPolicy DecisionTrace SessionRuntime TypedObjects ContextNamespace PolicyRollout ProviderPool
    UsageLedger ContextHandoff WireFormat RolloutTailer ContractGraph PolicySnapshot
    CanonicalPaths CapabilityTokens StreamEvents McpPipeline ContextGovernor SchemaRegistry SchemaMigrations ProcessBroker
begin

text \<open>
  A verification development of the deterministic core of the Syntavra runtime, the Python package
  \<open>src/syntavra_runtime\<close>: a local runtime that schedules jobs for agents, decides which pieces of
  context a model call may see, keeps evidence and session histories in hash-chained tables, and
  routes calls to provider accounts.

  \<^bold>\<open>Parts and theories.\<close>

  \<^item> \<open>Prelude\<close>: Python values and their canonical JSON form (\<open>canonical_json\<close> of \<open>util.py\<close>), SQL
    tables as lists of rows, string methods, built-in conversions, errors as sums, operations on a
    shared state, reachable states, and the locale \<open>stateful\<close> (an invariant of the initial states that
    every step keeps), which every component with a state interprets.
  \<^item> \<open>HashChain\<close>: the shape of SHA-256 digests and the locale \<open>hash_chain\<close> of append-only logs in which
    each entry names the hash of the one before.  Four components interpret it.
  \<^item> \<open>JobScheduler\<close> (\<open>job_scheduler.py\<close>): jobs, leases, retries, dependencies and the event log of
    \<open>DurableJobScheduler\<close>; the abstract life cycle of a job is a state machine that the scheduler refines.
  \<^item> \<open>ContextPolicy\<close> (\<open>adaptive_context_policy.py\<close>): scores, first actions, budget fitting and the
    session decision of \<open>AdaptiveContextPolicyEngine\<close>.
  \<^item> \<open>DecisionTrace\<close> (\<open>context_decision_trace.py\<close>): the hash-chained trace built from a policy result;
    it composes the policy with the chain.
  \<^item> \<open>ContractGraph\<close> (\<open>contract_version_graph.py\<close>): the dependency graph of the contract documents and what
    a change invalidates.  The locale \<open>finite_next\<close> gives the closure a work list computes.
  \<^item> \<open>PolicySnapshot\<close> (\<open>deterministic_policy_snapshot.py\<close>): snapshots of a policy configuration over the
    contract graph, and their bindings to policy results and decision traces.
  \<^item> \<open>SessionRuntime\<close> (\<open>session_runtime.py\<close>): session histories, checkpoints, forks, merges, compaction
    into summary trees, active context, import and export.
  \<^item> \<open>UniversalItem\<close> (\<open>universal_context_item.py\<close>), \<open>EvidenceStore\<close> (\<open>evidence_store.py\<close>) and \<open>TypedObjects\<close>
    (\<open>typed_context_objects.py\<close>): content-addressed items, the store with its audit journal, and the typed
    codec over it.  The store provides the locale \<open>item_store\<close>, whose laws the typed store uses.
  \<^item> \<open>NamespaceAddress\<close> and \<open>ContextNamespace\<close> (\<open>context_namespace.py\<close>): the \<open>syntavra://\<close> addresses and the
    browser over resolvers with its disclosure levels and trajectories.
  \<^item> \<open>PolicyRollout\<close> (\<open>policy_rollout.py\<close>): observations, evaluation, stages, rollback and quarantine.
  \<^item> \<open>ProviderRouter\<close> (\<open>adaptive_provider_router.py\<close>) and \<open>ProviderPool\<close> (\<open>provider_account_pool.py\<close>): account
    health with a circuit breaker, and routing over the pool through the router.
  \<^item> \<open>TokenAttribution\<close> (\<open>token_attribution.py\<close>) and \<open>UsageLedger\<close> (\<open>usage_receipt_ledger.py\<close> and the
    receipts of \<open>signalbench_hardened.py\<close>): provider usage, its signed hash-chained receipts, and their
    split over token sources.
  \<^item> \<open>JsonText\<close> and \<open>SessionMemory\<close> (\<open>session_memory.py\<close>): the text of JSON values and its tokens; event
    chains, summaries by view, retrieval, checkpoints, forks and merges.
  \<^item> \<open>ContextHandoff\<close> (\<open>context_reset_handoff.py\<close>): continuing, compacting, resetting or branching a session
    over the session memory.
  \<^item> \<open>WireFormat\<close> (\<open>wire_format.py\<close>): the compact wire codec and its integrity check.
  \<^item> \<open>RolloutTailer\<close> (\<open>rollout.py\<close>): following a growing JSON lines file.
  \<^item> \<open>CanonicalPaths\<close> (\<open>canonical_primitives.py\<close>): repository paths and the bytes the manifest hashes.
  \<^item> \<open>TextCodecs\<close> and \<open>CapabilityTokens\<close> (\<open>capability_security.py\<close>): Base64 and regular expressions of the
    standard library; which tool calls are allowed, and signed tokens that are used once.
  \<^item> \<open>StreamEvents\<close> (\<open>streaming.py\<close>): the incremental parser of server-sent events, from
    bytes through the strict decoder, and the summary of a stream.
  \<^item> \<open>ToolCatalog\<close> (\<open>tool_registry.py\<close>), \<open>McpPolicy\<close> (\<open>mcp_policy.py\<close>), \<open>SecretRedaction\<close> (\<open>secret_redaction.py\<close>)
    and \<open>McpPipeline\<close> (\<open>mcp_application.py\<close>): the tools of a profile and their shortened schemas, the
    authorization of a call, the redaction of secrets, and the request pipeline that composes them with the
    wire codec around any server.
  \<^item> \<open>ContextGovernor\<close> (\<open>context_governor.py\<close>): pressure levels and the packing of items with dependencies.
  \<^item> \<open>SchemaRegistry\<close> (\<open>schema_registry.py\<close>) and \<open>SchemaMigrations\<close> (\<open>migrations.py\<close>): versioned values and
    versioned databases, with backups, restore and rollback.
  \<^item> \<open>ProcessBroker\<close> (\<open>process_broker.py\<close>, \<open>broker_worker.py\<close>, the job tables of \<open>state.py\<close>): background
    commands; clients, workers and recovery share the tables, and a step relation interleaves their
    transactions in any order, with crashes between them.  The loop that waits for a command runs on two
    clocks: the one of \<open>time.sleep\<close>, and the wall clock of the timeout, which may be set back.

  \<^bold>\<open>How code becomes definitions.\<close>  A table is a list of records in insertion order, a dataclass a
  record whose \<open>__post_init__\<close> is a function \<open>make_...\<close> into a sum, a method a function from its arguments
  and the state to an error or a result with the new state, with the branches in the order of the code.
  A transaction that raises leaves the state as it was.  Clocks, random identifiers and the digest are
  arguments; the digest works on canonical values, since the canonical text determines the value and
  conversely.  Optional arguments are options; a falsy value that the code replaces by a default is
  replaced in the model.

  \<^bold>\<open>What the lemmas show.\<close>  For each component with a state: an invariant, that every operation keeps
  it, and what it gives in every reachable state (bounded attempts, histories that verify, readable
  evidence, forests of addresses, chains of stages, pools without secrets).  For each operation that a
  client depends on: what it returns on each branch.  For each log: that its head commits to its
  content, if the digest does not collide on the entries at hand.  For each codec: the round trip.
  Collision freedom is always a hypothesis about the finitely many values in question, never about the
  whole digest, so that it can hold and the witnesses instantiate it.

  \<^bold>\<open>Bounds and termination.\<close>  All functions are total.  Compaction of a session recurses on the number
  of summaries of a level, which at least halves; splitting text and decoding percent escapes recurse on
  the length, as does the decoder of streams; the structure summary recurses on the five levels the code allows.  The two work lists of
  the contract graph are \<open>while_option\<close> loops, shown to return.  The dependency closure of the context
  governor recurses on the items not yet required, its greedy choice on the candidates left, a migration on
  the versions to go.  There is no fuel.
  Floats are exact rationals (the Wilson bound a real), so rounding, infinities and NaN are outside the
  model, and strings cover Latin-1 with the case folding of ASCII.

  \<^bold>\<open>Not modelled.\<close>  What operating system processes do, sockets, files, SQLite connections and their locking; the command line
  and the MCP servers, which call the components; the deferred discovery of tools;
  parsing and language services; the Rust engine; benchmarks and installers.  Where a component of this
  development meets JSON of other types than its classes declare, its theory says what happens.
\<close>

end
